(* ===== verification/Prelude.thy ===== *)
theory Prelude
  imports Main "HOL-Library.Char_ord" "HOL-Library.List_Lexorder" "HOL-Library.Product_Lexorder"
    "HOL-Library.Option_ord" "HOL-Library.Multiset"
begin

text \<open>
  Shared vocabulary of the development.

  \<^item> Results. A Rust \<open>Result<T, E>\<close> is \<open>'e + 'a\<close> with \<open>Inl\<close> for the error. \<open>sum_bind\<close> is the
    question-mark operator and \<open>fold_m\<close> a \<open>for\<close> loop whose body may return early with an error.
  \<^item> Integers. A \<open>usize\<close> or \<open>u64\<close> is a \<open>nat\<close>; \<open>u64_max\<close> is written out where the code saturates,
    and \<open>checked_add\<close> and \<open>checked_mul\<close> where it refuses to overflow.
  \<^item> Strings. A \<open>str\<close> is the list of its UTF-8 bytes (\<open>string\<close>), which \<^theory_text>\<open>List_Lexorder\<close> orders
    the way Rust orders \<open>str\<close>: lexicographically by byte.
  \<^item> Slices. \<open>sort_key\<close> is the stable sort, \<open>dedup_on\<close> is \<open>Vec::dedup\<close> for an equality given by a key,
    \<open>binary_search\<close> is a bisection over a sorted slice.

  The \<open>named_theorems\<close> collections gather the rewrite rules that the component proofs unfold together.
\<close>

named_theorems bind_simps \<open>unfolding of results and effectful loops\<close>
named_theorems str_simps \<open>unfolding of the string operations\<close>
named_theorems limit_simps \<open>the numeric limits of the service\<close>

section \<open>Results and loops that may stop early\<close>

fun sum_bind :: "'e + 'a \<Rightarrow> ('a \<Rightarrow> 'e + 'b) \<Rightarrow> 'e + 'b" where
  "sum_bind (Inl e) f = Inl e"
| "sum_bind (Inr a) f = f a"

lemma sum_bind_Inr_iff [bind_simps]:
  "sum_bind r f = Inr b \<longleftrightarrow> (\<exists>a. r = Inr a \<and> f a = Inr b)"
  by (cases r) auto

lemma sum_bind_Inl_iff:
  "sum_bind r f = Inl e \<longleftrightarrow> r = Inl e \<or> (\<exists>a. r = Inr a \<and> f a = Inl e)"
  by (cases r) auto

lemma sum_bind_cong [fundef_cong]:
  assumes "r = s" and "\<And>a. s = Inr a \<Longrightarrow> f a = g a"
  shows "sum_bind r f = sum_bind s g"
  using assms by (cases s) auto

primrec fold_m :: "('x \<Rightarrow> 's \<Rightarrow> 'e + 's) \<Rightarrow> 'x list \<Rightarrow> 's \<Rightarrow> 'e + 's" where
  "fold_m f [] s = Inr s"
| "fold_m f (x # xs) s = sum_bind (f x s) (fold_m f xs)"

lemma fold_m_append: "fold_m f (xs @ ys) s = sum_bind (fold_m f xs s) (fold_m f ys)"
proof (induction xs arbitrary: s)
  case (Cons x xs)
  then show ?case by (cases "f x s") auto
qed simp

text \<open>An invariant indexed by the part of the list that was already consumed.\<close>

lemma fold_m_induct:
  assumes run: "fold_m f xs s = Inr t"
    and init: "P [] s"
    and step: "\<And>done x rest u v. \<lbrakk>xs = done @ x # rest; P done u; f x u = Inr v\<rbrakk> \<Longrightarrow> P (done @ [x]) v"
  shows "P xs t"
proof -
  have "fold_m f ys s = Inr u \<Longrightarrow> P ys u" if "xs = ys @ zs" for ys zs u
    using that
  proof (induction ys arbitrary: zs u rule: rev_induct)
    case Nil
    with init show ?case by simp
  next
    case (snoc x ys)
    then obtain w where w: "fold_m f ys s = Inr w" "f x w = Inr u"
      by (auto simp: fold_m_append sum_bind_Inr_iff)
    have "P ys w" using snoc.IH [OF w(1), of "x # zs"] snoc.prems by simp
    then show ?case using step [of ys x zs w u] snoc.prems w by simp
  qed
  from this [of xs "[]"] run show ?thesis by simp
qed

lemma fold_m_inv:
  assumes "fold_m f xs s = Inr t"
    and "I s"
    and "\<And>x u v. \<lbrakk>x \<in> set xs; I u; f x u = Inr v\<rbrakk> \<Longrightarrow> I v"
  shows "I t"
  using fold_m_induct [where P = "\<lambda>_. I", OF assms(1,2)] assms(3) by (metis in_set_conv_decomp)

text \<open>A loop that succeeds and whose body, when it succeeds, acts on an abstraction of the state.\<close>

lemma fold_m_abs:
  assumes "fold_m f xs s = Inr t"
    and "\<And>x u v. \<lbrakk>x \<in> set xs; f x u = Inr v\<rbrakk> \<Longrightarrow> abs v = g x (abs u)"
  shows "abs t = fold g xs (abs s)"
  using fold_m_induct [where P = "\<lambda>done u. abs u = fold g done (abs s)", OF assms(1)] assms(2)
  by (metis fold.simps(1,2) comp_apply fold_append id_apply in_set_conv_decomp)

text \<open>A loop whose body cannot fail under an invariant does not fail.\<close>

lemma fold_m_total:
  assumes "I [] s"
    and "\<And>done x rest u. \<lbrakk>xs = done @ x # rest; I done u\<rbrakk> \<Longrightarrow> \<exists>v. f x u = Inr v \<and> I (done @ [x]) v"
  shows "\<exists>t. fold_m f xs s = Inr t \<and> I xs t"
proof -
  have "\<exists>u. fold_m f ys s = Inr u \<and> I ys u" if "xs = ys @ zs" for ys zs
    using that
  proof (induction ys arbitrary: zs rule: rev_induct)
    case Nil
    with assms(1) show ?case by simp
  next
    case (snoc x ys)
    then obtain w where "fold_m f ys s = Inr w" "I ys w" by force
    moreover obtain v where "f x w = Inr v" "I (ys @ [x]) v"
      using assms(2) [of ys x zs w] snoc.prems \<open>I ys w\<close> by auto
    ultimately show ?case by (simp add: fold_m_append)
  qed
  from this [of xs "[]"] show ?thesis by simp
qed

section \<open>Machine integers\<close>

definition u64_max :: nat where
  "u64_max = 2 ^ 64 - 1"

text \<open>\<open>n.try_into().unwrap_or(u64::MAX)\<close>\<close>

definition to_u64 :: "nat \<Rightarrow> nat" where
  "to_u64 n = min n u64_max"

definition checked_add :: "nat \<Rightarrow> nat \<Rightarrow> nat option" where
  "checked_add a b = (if a + b \<le> u64_max then Some (a + b) else None)"

definition checked_mul :: "nat \<Rightarrow> nat \<Rightarrow> nat option" where
  "checked_mul a b = (if a * b \<le> u64_max then Some (a * b) else None)"

definition saturating_add :: "nat \<Rightarrow> nat \<Rightarrow> nat" where
  "saturating_add a b = min (a + b) u64_max"

lemma to_u64_le [simp]: "to_u64 n \<le> u64_max"
  by (simp add: to_u64_def)

lemma to_u64_id: "n \<le> u64_max \<Longrightarrow> to_u64 n = n"
  by (simp add: to_u64_def)

section \<open>Sorted and deduplicated slices\<close>

text \<open>
  \<open>Vec::dedup\<close> removes every element equal to its predecessor that was kept. The equality of the
  element type is given by a key \<open>f\<close>: two elements are equal when their keys are.
\<close>

fun dedup_on :: "('a \<Rightarrow> 'k) \<Rightarrow> 'a list \<Rightarrow> 'a list" where
  "dedup_on f [] = []"
| "dedup_on f [x] = [x]"
| "dedup_on f (x # y # xs) =
     (if f x = f y then dedup_on f (x # xs) else x # dedup_on f (y # xs))"

lemma dedup_on_id [simp]: "dedup_on (\<lambda>x. x) xs = remdups_adj xs"
  by (induction xs rule: remdups_adj.induct) auto

lemma dedup_on_Cons_obtain: "\<exists>ys. dedup_on f (x # xs) = x # ys"
proof (induction xs)
  case (Cons y ys)
  then show ?case by (cases "f x = f y") auto
qed simp

lemma hd_dedup_on [simp]: "hd (dedup_on f (x # xs)) = x"
  using dedup_on_Cons_obtain [of f x xs] by auto

lemma dedup_on_eq_Nil [simp]: "dedup_on f xs = [] \<longleftrightarrow> xs = []"
  by (induction f xs rule: dedup_on.induct) auto

lemma set_dedup_on_subset: "set (dedup_on f xs) \<subseteq> set xs"
  by (induction f xs rule: dedup_on.induct) auto

lemma key_dedup_on: "f ` set (dedup_on f xs) = f ` set xs"
  by (induction f xs rule: dedup_on.induct) auto

lemma length_dedup_on: "length (dedup_on f xs) \<le> length xs"
  by (induction f xs rule: dedup_on.induct) auto

lemma sorted_dedup_on:
  "sorted (map g xs) \<Longrightarrow> sorted (map g (dedup_on f xs))"
proof (induction f xs rule: dedup_on.induct)
  case (3 f x y xs)
  then show ?case
    using set_dedup_on_subset [of f "y # xs"] by (auto dest: subsetD)
qed auto

lemma distinct_adj_dedup_on: "distinct_adj (map f (dedup_on f xs))"
proof (induction f xs rule: dedup_on.induct)
  case (3 f x y xs)
  then show ?case
    using dedup_on_Cons_obtain [of f y xs] by (auto simp: distinct_adj_Cons)
qed auto

lemma dedup_on_fixpoint: "distinct_adj (map f xs) \<Longrightarrow> dedup_on f xs = xs"
  by (induction f xs rule: dedup_on.induct) (auto simp: distinct_adj_Cons)

lemma dedup_on_idem [simp]: "dedup_on f (dedup_on f xs) = dedup_on f xs"
  by (rule dedup_on_fixpoint) (rule distinct_adj_dedup_on)

abbreviation strict_sorted :: "'a::linorder list \<Rightarrow> bool" where
  "strict_sorted xs \<equiv> sorted_wrt (<) xs"

text \<open>A sorted list in which neighbours differ is strictly sorted.\<close>

lemma sorted_distinct_adj_strict:
  "sorted xs \<Longrightarrow> distinct_adj xs \<Longrightarrow> strict_sorted xs"
proof (induction xs rule: induct_list012)
  case (3 x y zs)
  then have "strict_sorted (y # zs)" by simp
  moreover have "x < y" using "3.prems" by (simp add: less_le)
  ultimately show ?case by auto
qed simp_all

lemma strict_sorted_dedup:
  "sorted xs \<Longrightarrow> strict_sorted (remdups_adj xs)"
  by (rule sorted_distinct_adj_strict) auto

text \<open>\<open>values.sort(); values.dedup();\<close>\<close>

definition sort_dedup :: "'a::linorder list \<Rightarrow> 'a list" where
  "sort_dedup xs = remdups_adj (sort xs)"

lemma set_sort_dedup [simp]: "set (sort_dedup xs) = set xs"
  by (simp add: sort_dedup_def)

lemma strict_sorted_sort_dedup [simp]: "strict_sorted (sort_dedup xs)"
  by (simp add: sort_dedup_def strict_sorted_dedup)

lemma sort_dedup_eq_iff: "sort_dedup xs = sort_dedup ys \<longleftrightarrow> set xs = set ys"
proof
  assume "set xs = set ys"
  then have "set (sort_dedup xs) = set (sort_dedup ys)" by simp
  then show "sort_dedup xs = sort_dedup ys"
    by (rule strict_sorted_equal [OF strict_sorted_sort_dedup strict_sorted_sort_dedup])
qed (metis set_sort_dedup)

lemma sort_dedup_idem [simp]: "sort_dedup (sort_dedup xs) = sort_dedup xs"
  by (simp add: sort_dedup_eq_iff)

lemma sort_dedup_Nil [simp]: "sort_dedup [] = []"
  by (simp add: sort_dedup_def)

lemma sort_dedup_eq_Nil [simp]: "sort_dedup xs = [] \<longleftrightarrow> xs = []"
  by (metis set_empty set_sort_dedup)

lemma length_sort_dedup: "length (sort_dedup xs) \<le> length xs"
  unfolding sort_dedup_def by (metis length_sort remdups_adj_length)

text \<open>
  \<open>slice.binary_search\<close> on the half-open window \<open>[lo, hi)\<close>: some index that holds the key, or nothing.
\<close>

function binary_search_from :: "'a::linorder list \<Rightarrow> 'a \<Rightarrow> nat \<Rightarrow> nat \<Rightarrow> nat option" where
  "binary_search_from xs x lo hi =
     (if lo < hi then
        let mid = lo + (hi - lo) div 2 in
        if xs ! mid = x then Some mid
        else if xs ! mid < x then binary_search_from xs x (Suc mid) hi
        else binary_search_from xs x lo mid
      else None)"
  by pat_completeness auto
termination
  by (relation "measure (\<lambda>(xs, x, lo, hi). hi - lo)") auto

declare binary_search_from.simps [simp del]

definition binary_search :: "'a::linorder list \<Rightarrow> 'a \<Rightarrow> nat option" where
  "binary_search xs x = binary_search_from xs x 0 (length xs)"

lemma binary_search_from_found:
  "binary_search_from xs x lo hi = Some i \<Longrightarrow> lo \<le> i \<and> i < hi \<and> xs ! i = x"
proof (induction xs x lo hi rule: binary_search_from.induct)
  case (1 xs x lo hi)
  then show ?case
    by (subst (asm) (3) binary_search_from.simps) (fastforce simp: Let_def split: if_splits)
qed

lemma binary_search_from_complete:
  assumes "sorted xs" and "hi \<le> length xs" and "lo \<le> i" and "i < hi" and "xs ! i = x"
  shows "binary_search_from xs x lo hi \<noteq> None"
  using assms
proof (induction xs x lo hi rule: binary_search_from.induct)
  case (1 xs x lo hi)
  define mid where "mid = lo + (hi - lo) div 2"
  have mid: "lo \<le> mid" "mid < hi" "lo < hi" using "1.prems" by (auto simp: mid_def)
  note unfold = binary_search_from.simps [of xs x lo hi, folded mid_def]
  consider "xs ! mid = x" | "xs ! mid < x" | "x < xs ! mid" by fastforce
  then show ?case
  proof cases
    case 1
    then show ?thesis using mid by (simp add: unfold Let_def mid_def)
  next
    case 2
    then have "mid < i"
      using "1.prems" mid sorted_nth_mono [of xs i mid] by (cases "mid < i") auto
    with 2 have "binary_search_from xs x (Suc mid) hi \<noteq> None"
      using "1.IH"(1) [OF mid(3) mid_def] "1.prems" by simp
    with 2 mid show ?thesis by (simp add: unfold Let_def flip: mid_def)
  next
    case 3
    then have "i < mid"
      using "1.prems" mid sorted_nth_mono [of xs mid i] by (cases "i < mid") auto
    with 3 have "binary_search_from xs x lo mid \<noteq> None"
      using "1.IH"(2) [OF mid(3) mid_def] "1.prems" mid by simp
    with 3 mid show ?thesis by (auto simp: unfold Let_def simp flip: mid_def)
  qed
qed

lemma binary_search_None:
  assumes "sorted xs"
  shows "binary_search xs x = None \<longleftrightarrow> x \<notin> set xs"
proof -
  have "x \<in> set xs" if "binary_search xs x \<noteq> None"
    using that
    by (auto simp: binary_search_def in_set_conv_nth dest: binary_search_from_found)
  moreover have "binary_search xs x \<noteq> None" if "x \<in> set xs"
    using that binary_search_from_complete [OF assms, of "length xs" 0]
    unfolding binary_search_def in_set_conv_nth by blast
  ultimately show ?thesis by blast
qed

section \<open>Strings\<close>

text \<open>
  The White\_Space characters of Unicode as UTF-8: what \<open>str::trim\<close> removes from both ends.
\<close>

definition is_white_space :: "string \<Rightarrow> bool" where
  "is_white_space c \<longleftrightarrow>
     map of_char c \<in> set ([[9], [10], [11], [12], [13], [32], [194, 133], [194, 160], [225, 154, 128],
       [226, 128, 168], [226, 128, 169], [226, 128, 175], [226, 129, 159], [227, 128, 128]]
       @ map (\<lambda>b. [226, 128, b]) [128, 129, 130, 131, 132, 133, 134, 135, 136, 137, 138 :: nat])"

lemma not_white_space_Nil [simp]: "\<not> is_white_space []"
  by (simp add: is_white_space_def)

fun white_space_len :: "(nat \<Rightarrow> string) \<Rightarrow> nat" where
  "white_space_len at =
     (if is_white_space (at 1) then 1 else if is_white_space (at 2) then 2
      else if is_white_space (at 3) then 3 else 0)"

declare white_space_len.simps [simp del]

lemma white_space_len_pos:
  "0 < white_space_len at \<Longrightarrow> \<exists>k. 0 < k \<and> white_space_len at = k \<and> at k \<noteq> []"
  by (auto simp: white_space_len.simps split: if_splits)

function trim_start :: "string \<Rightarrow> string" where
  "trim_start s =
     (let n = white_space_len (\<lambda>k. take k s) in if n = 0 then s else trim_start (drop n s))"
  by pat_completeness auto
termination
proof (relation "measure length")
  fix s n
  assume "n = white_space_len (\<lambda>k. take k s)" and "n \<noteq> 0"
  then show "(drop n s, s) \<in> measure length"
    using white_space_len_pos [of "\<lambda>k. take k s"] by auto
qed simp

function trim_end :: "string \<Rightarrow> string" where
  "trim_end s =
     (let n = white_space_len (\<lambda>k. drop (length s - k) s) in
      if n = 0 then s else trim_end (take (length s - n) s))"
  by pat_completeness auto
termination
proof (relation "measure length")
  fix s n
  assume "n = white_space_len (\<lambda>k. drop (length s - k) s)" and "n \<noteq> 0"
  then show "(take (length s - n) s, s) \<in> measure length"
    using white_space_len_pos [of "\<lambda>k. drop (length s - k) s"] by auto
qed simp

declare trim_start.simps [simp del] trim_end.simps [simp del]

definition trim :: "string \<Rightarrow> string" where
  "trim s = trim_end (trim_start s)"

fun starts_with :: "string \<Rightarrow> string \<Rightarrow> bool" where
  "starts_with s [] = True"
| "starts_with [] (p # ps) = False"
| "starts_with (c # cs) (p # ps) = (c = p \<and> starts_with cs ps)"

lemma starts_with_iff: "starts_with s p \<longleftrightarrow> (\<exists>r. s = p @ r)"
  by (induction s p rule: starts_with.induct) auto

definition strip_prefix :: "string \<Rightarrow> string \<Rightarrow> string option" where
  "strip_prefix s p = (if starts_with s p then Some (drop (length p) s) else None)"

text \<open>\<open>haystack.contains(needle)\<close>\<close>

fun str_contains :: "string \<Rightarrow> string \<Rightarrow> bool" where
  "str_contains [] q = (q = [])"
| "str_contains (c # cs) q = (starts_with (c # cs) q \<or> str_contains cs q)"

lemma str_contains_iff: "str_contains s q \<longleftrightarrow> (\<exists>l r. s = l @ q @ r)"
proof (induction s)
  case (Cons c cs)
  have "(\<exists>l r. c # cs = l @ q @ r) \<longleftrightarrow> (\<exists>r. c # cs = q @ r) \<or> (\<exists>l r. cs = l @ q @ r)"
    by (metis append_Cons append_Nil list.sel(3) neq_Nil_conv)
  with Cons show ?case by (simp add: starts_with_iff)
qed simp

text \<open>\<open>s.split_once(c)\<close> at the first occurrence and \<open>s.rsplit_once(c)\<close> at the last one.\<close>

definition split_once :: "char \<Rightarrow> string \<Rightarrow> (string \<times> string) option" where
  "split_once c s =
     (if c \<in> set s then Some (takeWhile (\<lambda>x. x \<noteq> c) s, tl (dropWhile (\<lambda>x. x \<noteq> c) s)) else None)"

definition rsplit_once :: "char \<Rightarrow> string \<Rightarrow> (string \<times> string) option" where
  "rsplit_once c s = map_option (\<lambda>(a, b). (rev b, rev a)) (split_once c (rev s))"

lemma split_once_SomeD:
  "split_once c s = Some (a, b) \<Longrightarrow> s = a @ c # b \<and> c \<notin> set a"
proof -
  assume "split_once c s = Some (a, b)"
  then have c: "c \<in> set s" and a: "a = takeWhile (\<lambda>x. x \<noteq> c) s"
    and b: "b = tl (dropWhile (\<lambda>x. x \<noteq> c) s)"
    by (auto simp: split_once_def split: if_splits)
  have "dropWhile (\<lambda>x. x \<noteq> c) s \<noteq> []" and "hd (dropWhile (\<lambda>x. x \<noteq> c) s) = c"
    using c hd_dropWhile [of "\<lambda>x. x \<noteq> c" s] by (auto simp: dropWhile_eq_Nil_conv)
  then have "dropWhile (\<lambda>x. x \<noteq> c) s = c # b"
    using b by (cases "dropWhile (\<lambda>x. x \<noteq> c) s") auto
  then show ?thesis
    using a takeWhile_dropWhile_id [of "\<lambda>x. x \<noteq> c" s] set_takeWhileD by fastforce
qed

lemma split_once_append [simp]: "c \<notin> set a \<Longrightarrow> split_once c (a @ c # b) = Some (a, b)"
proof -
  assume "c \<notin> set a"
  then have "\<forall>x\<in>set a. x \<noteq> c" by blast
  then show ?thesis by (simp add: split_once_def takeWhile_append dropWhile_append)
qed

lemma rsplit_once_SomeD:
  "rsplit_once c s = Some (a, b) \<Longrightarrow> s = a @ c # b \<and> c \<notin> set b"
  unfolding rsplit_once_def
  by (auto dest!: split_once_SomeD) (metis append.assoc append_Cons append_Nil rev.simps(2) rev_append rev_rev_ident)

text \<open>\<open>s.split(c)\<close>: the pieces between the separators, at least one.\<close>

function split_char :: "char \<Rightarrow> string \<Rightarrow> string list" where
  "split_char c s =
     (case split_once c s of None \<Rightarrow> [s] | Some (a, b) \<Rightarrow> a # split_char c b)"
  by pat_completeness auto
termination
  by (relation "measure (\<lambda>(c, s). length s)") (auto dest: split_once_SomeD)

declare split_char.simps [simp del]

lemma split_char_nosep [simp]: "c \<notin> set s \<Longrightarrow> split_char c s = [s]"
  by (subst split_char.simps) (simp add: split_once_def)

lemma split_char_append [simp]: "c \<notin> set a \<Longrightarrow> split_char c (a @ c # b) = a # split_char c b"
  by (subst split_char.simps) simp

text \<open>\<open>parts.join(sep)\<close>\<close>

fun str_join :: "string \<Rightarrow> string list \<Rightarrow> string" where
  "str_join sep [] = []"
| "str_join sep [s] = s"
| "str_join sep (s # t # ss) = s @ sep @ str_join sep (t # ss)"

definition byte_in :: "nat \<Rightarrow> nat \<Rightarrow> char \<Rightarrow> bool" where
  "byte_in low high c \<longleftrightarrow> (let b = of_char c :: nat in low \<le> b \<and> b \<le> high)"

text \<open>\<open>str::from_utf8\<close> accepts the well-formed sequences of the Unicode standard.\<close>

fun valid_utf8 :: "string \<Rightarrow> bool" where
  "valid_utf8 [] \<longleftrightarrow> True"
| "valid_utf8 (a # s) \<longleftrightarrow>
     (if byte_in 0 127 a then valid_utf8 s
      else (case s of
        [] \<Rightarrow> False
      | b # s \<Rightarrow>
          if byte_in 194 223 a then byte_in 128 191 b \<and> valid_utf8 s
          else (case s of
            [] \<Rightarrow> False
          | c # s \<Rightarrow>
              if byte_in 224 239 a then
                byte_in (if a = CHR 0xE0 then 160 else 128) (if a = CHR 0xED then 159 else 191) b \<and> byte_in 128 191 c \<and> valid_utf8 s
              else (case s of
                [] \<Rightarrow> False
              | d # s \<Rightarrow>
                  byte_in 240 244 a \<and> byte_in (if a = CHR 0xF0 then 144 else 128) (if a = CHR 0xF4 then 143 else 191) b \<and>
                  byte_in 128 191 c \<and> byte_in 128 191 d \<and> valid_utf8 s))))"

definition is_ascii_lowercase :: "char \<Rightarrow> bool" where
  "is_ascii_lowercase c \<longleftrightarrow> (let n = of_char c :: nat in 97 \<le> n \<and> n \<le> 122)"

definition is_ascii_uppercase :: "char \<Rightarrow> bool" where
  "is_ascii_uppercase c \<longleftrightarrow> (let n = of_char c :: nat in 65 \<le> n \<and> n \<le> 90)"

definition is_ascii_digit :: "char \<Rightarrow> bool" where
  "is_ascii_digit c \<longleftrightarrow> (let n = of_char c :: nat in 48 \<le> n \<and> n \<le> 57)"

definition is_ascii_alphabetic :: "char \<Rightarrow> bool" where
  "is_ascii_alphabetic c \<longleftrightarrow> is_ascii_lowercase c \<or> is_ascii_uppercase c"

definition is_ascii_alphanumeric :: "char \<Rightarrow> bool" where
  "is_ascii_alphanumeric c \<longleftrightarrow> is_ascii_alphabetic c \<or> is_ascii_digit c"

lemmas ascii_defs = is_ascii_lowercase_def is_ascii_uppercase_def is_ascii_digit_def
  is_ascii_alphabetic_def is_ascii_alphanumeric_def

subsection \<open>Decimal numbers\<close>

definition digit_char :: "nat \<Rightarrow> char" where
  "digit_char d = char_of (48 + d)"

fun digit_val :: "char \<Rightarrow> nat option" where
  "digit_val c = (let n = of_char c :: nat in if 48 \<le> n \<and> n \<le> 57 then Some (n - 48) else None)"

declare digit_val.simps [simp del]

fun show_nat :: "nat \<Rightarrow> string" where
  "show_nat n = (if n < 10 then [digit_char n] else show_nat (n div 10) @ [digit_char (n mod 10)])"

declare show_nat.simps [simp del]

text \<open>
  \<open>s.parse::<usize>()\<close>: an optional plus sign, at least one digit, no overflow.
\<close>

fun parse_digits :: "nat \<Rightarrow> string \<Rightarrow> nat option" where
  "parse_digits acc [] = Some acc"
| "parse_digits acc (c # cs) =
     (case digit_val c of None \<Rightarrow> None
      | Some d \<Rightarrow> if acc * 10 + d \<le> u64_max then parse_digits (acc * 10 + d) cs else None)"

definition parse_usize :: "string \<Rightarrow> nat option" where
  "parse_usize s =
     (case s of [] \<Rightarrow> None
      | c # cs \<Rightarrow> if c = CHR ''+'' then (if cs = [] then None else parse_digits 0 cs)
                  else parse_digits 0 s)"

lemma digit_val_digit_char [simp]: "d < 10 \<Longrightarrow> digit_val (digit_char d) = Some d"
  by (simp add: digit_char_def digit_val.simps)

lemma digit_char_neq: "d < 10 \<Longrightarrow> digit_char d \<noteq> CHR ''+'' \<and> digit_char d \<noteq> CHR ''.''"
proof -
  assume "d < 10"
  then have "of_char (digit_char d) = 48 + d" by (simp add: digit_char_def)
  moreover have "of_char (CHR ''+'') = (43 :: nat)" "of_char (CHR ''.'') = (46 :: nat)" by simp_all
  ultimately show ?thesis by fastforce
qed

lemma set_show_nat: "set (show_nat n) \<subseteq> digit_char ` {..<10}"
proof (induction n rule: show_nat.induct)
  case (1 n)
  show ?case
    using "1.IH" by (subst show_nat.simps) auto
qed

lemma show_nat_no_special: "CHR ''+'' \<notin> set (show_nat n)" "CHR ''.'' \<notin> set (show_nat n)"
  using set_show_nat [of n] digit_char_neq by fastforce+

lemma show_nat_not_Nil [simp]: "show_nat n \<noteq> []"
  by (subst show_nat.simps) simp

lemma parse_digits_append:
  "parse_digits acc (xs @ ys) = Option.bind (parse_digits acc xs) (\<lambda>a. parse_digits a ys)"
  by (induction acc xs rule: parse_digits.induct) (auto split: option.splits)

lemma parse_digits_show_nat: "n \<le> u64_max \<Longrightarrow> parse_digits 0 (show_nat n) = Some n"
proof (induction n rule: show_nat.induct)
  case (1 n)
  show ?case
  proof (cases "n < 10")
    case True
    with "1.prems" show ?thesis by (subst show_nat.simps) simp
  next
    case False
    with "1.IH" "1.prems" have "parse_digits 0 (show_nat (n div 10)) = Some (n div 10)" by simp
    moreover have "n div 10 * 10 + n mod 10 = n" by simp
    ultimately show ?thesis
      using False "1.prems" by (subst show_nat.simps) (simp add: parse_digits_append)
  qed
qed

lemma parse_usize_show_nat [simp]: "n \<le> u64_max \<Longrightarrow> parse_usize (show_nat n) = Some n"
  using show_nat_no_special(1) [of n] parse_digits_show_nat [of n]
  by (cases "show_nat n") (auto simp: parse_usize_def)

lemma parse_digits_bound: "parse_digits acc s = Some n \<Longrightarrow> acc \<le> u64_max \<Longrightarrow> n \<le> u64_max"
  by (induction acc s rule: parse_digits.induct) (auto split: option.splits if_splits)

lemma parse_usize_bound: "parse_usize s = Some n \<Longrightarrow> n \<le> u64_max"
  by (auto simp: parse_usize_def simp del: parse_digits.simps split: list.splits if_splits intro: parse_digits_bound)

end
