(* ===== verification/Ordered_Map.thy ===== *)
theory Ordered_Map
  imports Prelude
begin

text \<open>
  \<open>BTreeMap\<close> and \<open>BTreeSet\<close> of the Rust standard library, as the code uses them: a finite map that is
  iterated in the order of its keys. The model is the list of its entries in that order (\<open>bmap\<close>), kept
  strictly sorted by \<open>bm_insert\<close>; a set is the strictly sorted list of its elements (\<open>bset\<close>).

  The locale \<open>ordered_map\<close> is the interface the query engine relies on: what a lookup returns after an
  insertion, that iteration is sorted, and that a map is determined by its lookups. Its lemmas about
  maps collected from a sequence are proved once there and used through the interpretation \<open>bm\<close>.
\<close>

type_synonym ('k, 'v) bmap = "('k \<times> 'v) list"
type_synonym 'k bset = "'k list"

section \<open>The interface\<close>

locale ordered_map =
  fixes empty :: "'m"
    and insert :: "'k::linorder \<Rightarrow> 'v \<Rightarrow> 'm \<Rightarrow> 'm"
    and get :: "'m \<Rightarrow> 'k \<Rightarrow> 'v option"
    and entries :: "'m \<Rightarrow> ('k \<times> 'v) list"
    and invar :: "'m \<Rightarrow> bool"
  assumes invar_empty: "invar empty"
    and invar_insert: "invar m \<Longrightarrow> invar (insert k v m)"
    and get_empty: "get empty k = None"
    and get_insert: "invar m \<Longrightarrow> get (insert k v m) k' = (if k' = k then Some v else get m k')"
    and entries_sorted: "invar m \<Longrightarrow> strict_sorted (map fst (entries m))"
    and get_entries: "invar m \<Longrightarrow> get m k = map_of (entries m) k"
    and get_ext: "invar m \<Longrightarrow> invar n \<Longrightarrow> (\<And>k. get m k = get n k) \<Longrightarrow> m = n"
begin

text \<open>\<open>collect kvs m\<close> inserts a sequence of pairs in order, as \<open>extend\<close> and \<open>collect\<close> do.\<close>

abbreviation collect :: "('k \<times> 'v) list \<Rightarrow> 'm \<Rightarrow> 'm" where
  "collect kvs m \<equiv> fold (\<lambda>(k, v). insert k v) kvs m"

lemma invar_collect: "invar m \<Longrightarrow> invar (collect kvs m)"
  by (induction kvs arbitrary: m) (auto simp: invar_insert)

lemma get_collect:
  "invar m \<Longrightarrow> get (collect kvs m) k = (case map_of (rev kvs) k of None \<Rightarrow> get m k | Some v \<Rightarrow> Some v)"
proof (induction kvs rule: rev_induct)
  case (snoc kv kvs)
  then show ?case
    by (cases kv) (simp add: get_insert invar_collect)
qed simp

lemma get_collect_empty: "get (collect kvs empty) k = map_of (rev kvs) k"
  by (simp add: get_collect invar_empty get_empty split: option.split)

lemma distinct_keys: "invar m \<Longrightarrow> distinct (map fst (entries m))"
  using entries_sorted [of m] by (simp add: strict_sorted_iff)

lemma in_entries_iff: "invar m \<Longrightarrow> (k, v) \<in> set (entries m) \<longleftrightarrow> get m k = Some v"
  by (simp add: get_entries distinct_keys)

lemma entries_collect_distinct:
  assumes "distinct (map fst kvs)"
  shows "set (entries (collect kvs empty)) = set kvs"
proof -
  have "get (collect kvs empty) k = Some v \<longleftrightarrow> (k, v) \<in> set kvs" for k v
    using assms by (simp add: get_collect_empty rev_map [symmetric])
  then show ?thesis
    by (auto simp: in_entries_iff [OF invar_collect [OF invar_empty]] set_eq_iff)
qed

text \<open>The order in which distinct keys are inserted does not matter.\<close>

lemma collect_perm:
  assumes "distinct (map fst kvs)" and "mset kvs = mset kvs'"
  shows "collect kvs empty = collect kvs' empty"
proof (rule get_ext)
  fix k
  have "mset (map fst kvs) = mset (map fst kvs')"
    using assms(2) by (metis mset_map)
  then have d': "distinct (map fst kvs')"
    using assms(1) mset_eq_imp_distinct_iff by blast
  have "set kvs = set kvs'" using assms(2) by (rule mset_eq_setD)
  then have "map_of (rev kvs) = map_of (rev kvs')"
    using assms(1) d' by (intro map_of_eqI) (auto simp: rev_map [symmetric])
  then show "get (collect kvs empty) k = get (collect kvs' empty) k"
    by (simp add: get_collect_empty)
qed (simp_all add: invar_collect invar_empty)

end

section \<open>Maps as sorted entry lists\<close>

fun bm_insert :: "'k::linorder \<Rightarrow> 'v \<Rightarrow> ('k, 'v) bmap \<Rightarrow> ('k, 'v) bmap" where
  "bm_insert k v [] = [(k, v)]"
| "bm_insert k v (e # es) =
     (if fst e < k then e # bm_insert k v es
      else if fst e = k then (k, v) # es
      else (k, v) # e # es)"

definition bm_get :: "('k, 'v) bmap \<Rightarrow> 'k \<Rightarrow> 'v option" where
  "bm_get m k = map_of m k"

definition bm_contains_key :: "('k, 'v) bmap \<Rightarrow> 'k \<Rightarrow> bool" where
  "bm_contains_key m k \<longleftrightarrow> bm_get m k \<noteq> None"

definition bm_keys :: "('k, 'v) bmap \<Rightarrow> 'k list" where
  "bm_keys m = map fst m"

definition bm_values :: "('k, 'v) bmap \<Rightarrow> 'v list" where
  "bm_values m = map snd m"

text \<open>\<open>f(map.entry(k).or_default())\<close>: the entry is created with the default value \<open>d\<close> if missing.\<close>

definition bm_entry :: "'v \<Rightarrow> 'k::linorder \<Rightarrow> ('v \<Rightarrow> 'v) \<Rightarrow> ('k, 'v) bmap \<Rightarrow> ('k, 'v) bmap" where
  "bm_entry d k f m = bm_insert k (f (case bm_get m k of None \<Rightarrow> d | Some v \<Rightarrow> v)) m"

definition bm_last_key :: "('k, 'v) bmap \<Rightarrow> 'k option" where
  "bm_last_key m = (if m = [] then None else Some (fst (last m)))"

definition bm_pop_last :: "('k, 'v) bmap \<Rightarrow> ('k, 'v) bmap" where
  "bm_pop_last m = butlast m"

definition bm_invar :: "('k::linorder, 'v) bmap \<Rightarrow> bool" where
  "bm_invar m \<longleftrightarrow> strict_sorted (map fst m)"

lemma keys_bm_insert: "set (map fst (bm_insert k v m)) = Set.insert k (set (map fst m))"
  by (induction m) auto

lemma bm_invar_insert [simp]: "bm_invar m \<Longrightarrow> bm_invar (bm_insert k v m)"
proof (induction m)
  case (Cons e es)
  then have IH: "strict_sorted (map fst (bm_insert k v es))" and e: "\<forall>x\<in>set es. fst e < fst x"
    by (auto simp: bm_invar_def)
  have "\<forall>x\<in>set (map fst (bm_insert k v es)). fst e < x" if "fst e < k"
    using e that by (auto simp only: keys_bm_insert) auto
  with Cons.prems IH e show ?case
    by (auto simp: bm_invar_def not_less_iff_gr_or_eq intro: less_trans)
qed (simp add: bm_invar_def)

lemma bm_invar_Nil [simp]: "bm_invar []"
  by (simp add: bm_invar_def)

lemma bm_invar_distinct: "bm_invar m \<Longrightarrow> distinct (map fst m)"
  by (simp add: bm_invar_def strict_sorted_iff)

lemma bm_get_Nil [simp]: "bm_get [] k = None"
  by (simp add: bm_get_def)

lemma bm_get_insert:
  "bm_invar m \<Longrightarrow> bm_get (bm_insert k v m) k' = (if k' = k then Some v else bm_get m k')"
proof (induction m)
  case (Cons e es)
  from Cons.prems have inv: "bm_invar es" and lt: "\<forall>x\<in>set es. fst e < fst x"
    by (auto simp: bm_invar_def)
  then have "map_of es (fst e) = None"
    by (auto simp: map_of_eq_None_iff)
  with Cons.IH [OF inv] show ?case
    by (cases e) (auto simp: bm_get_def)
qed (simp add: bm_get_def)

lemma bm_ext:
  assumes "bm_invar m" and "bm_invar n" and "\<And>k. bm_get m k = bm_get n k"
  shows "m = n"
proof -
  have eq: "map_of m = map_of n" using assms(3) by (auto simp: bm_get_def)
  then have "set m = set n"
    using assms(1,2) [THEN bm_invar_distinct] by (metis map_of_inject_set)
  moreover have "sorted (map fst m)" "sorted (map fst n)" "distinct m" "distinct n"
    using assms(1,2) by (auto simp: bm_invar_def strict_sorted_iff distinct_map)
  ultimately show ?thesis
    using assms(1,2) [THEN bm_invar_distinct] map_sorted_distinct_set_unique [of fst m n]
    by (simp add: distinct_map)
qed

interpretation bm: ordered_map "[]" bm_insert bm_get "\<lambda>m. m" bm_invar
proof unfold_locales
  show "bm_invar m \<Longrightarrow> strict_sorted (map fst m)" for m :: "('k::linorder, 'v) bmap"
    by (simp add: bm_invar_def)
qed (simp_all add: bm_get_insert bm_ext, simp add: bm_get_def)

lemma bm_entry_invar [simp]: "bm_invar m \<Longrightarrow> bm_invar (bm_entry d k f m)"
  by (simp add: bm_entry_def)

lemma bm_get_entry:
  "bm_invar m \<Longrightarrow> bm_get (bm_entry d k f m) k' =
     (if k' = k then Some (f (case bm_get m k of None \<Rightarrow> d | Some v \<Rightarrow> v)) else bm_get m k')"
  by (simp add: bm_entry_def bm_get_insert)

lemma set_bm_values: "bm_invar m \<Longrightarrow> v \<in> set (bm_values m) \<longleftrightarrow> (\<exists>k. bm_get m k = Some v)"
  by (force simp: bm_values_def bm.in_entries_iff [symmetric])

lemma length_bm_insert:
  "bm_invar m \<Longrightarrow> length (bm_insert k v m) = (if bm_contains_key m k then length m else Suc (length m))"
proof -
  assume inv: "bm_invar m"
  have card: "length m' = card (set (map fst m'))" if "bm_invar m'" for m' :: "('k::linorder, 'v) bmap"
    using bm_invar_distinct [OF that] by (metis distinct_card length_map)
  have "k \<in> set (map fst m) \<longleftrightarrow> bm_contains_key m k"
    by (auto simp: bm_contains_key_def bm_get_def map_of_eq_None_iff)
  then show ?thesis
    using card [OF inv] card [OF bm_invar_insert [OF inv, of k v]]
    by (simp only: keys_bm_insert) (auto simp: card_insert_if)
qed

section \<open>Sets as sorted lists\<close>

fun bs_insert :: "'k::linorder \<Rightarrow> 'k bset \<Rightarrow> 'k bset" where
  "bs_insert k [] = [k]"
| "bs_insert k (x # xs) =
     (if x < k then x # bs_insert k xs else if x = k then x # xs else k # x # xs)"

definition bs_contains :: "'k bset \<Rightarrow> 'k \<Rightarrow> bool" where
  "bs_contains s k \<longleftrightarrow> k \<in> set s"

lemma set_bs_insert [simp]: "set (bs_insert k s) = Set.insert k (set s)"
  by (induction s) auto

lemma strict_sorted_bs_insert [simp]: "strict_sorted s \<Longrightarrow> strict_sorted (bs_insert k s)"
  by (induction s) (auto simp: not_less_iff_gr_or_eq intro: less_trans)

definition bs_of_list :: "'k::linorder list \<Rightarrow> 'k bset" where
  "bs_of_list xs = fold bs_insert xs []"

lemma bs_fold_insert:
  "set (fold bs_insert xs s) = set s \<union> set xs"
  "strict_sorted s \<Longrightarrow> strict_sorted (fold bs_insert xs s)"
  by (induction xs arbitrary: s) auto

lemma set_bs_of_list [simp]: "set (bs_of_list xs) = set xs"
  by (simp add: bs_of_list_def bs_fold_insert)

lemma strict_sorted_bs_of_list [simp]: "strict_sorted (bs_of_list xs)"
  by (simp add: bs_of_list_def bs_fold_insert)

lemma bs_of_list_eq_iff: "bs_of_list xs = bs_of_list ys \<longleftrightarrow> set xs = set ys"
  by (metis set_bs_of_list strict_sorted_bs_of_list strict_sorted_equal)

end
