(* ===== verification/Json.thy ===== *)
theory Json
  imports Ordered_Map
begin

text \<open>
  JSON values and the identity functions of \<^verbatim>\<open>crates/depgraph-protocol/src/stable_id.rs\<close>.

  \<open>json\<close> has the constructors of \<open>serde_json::Value\<close>. The workspace builds \<open>serde_json\<close> with
  \<open>preserve_order\<close>, so an object is the list of its members in insertion order, while the equality of two
  objects ignores that order: \<open>json_eq\<close> compares the canonical forms, which have sorted keys. A number is
  an unsigned integer, a negative integer or a float given by its printed text.

  The text that \<open>serde_json::to_string\<close> prints, the SHA-256 digest and the \<open>Debug\<close> rendering of a string,
  which needs the Unicode tables, are not code of this repository: they are the fields of the record \<open>externals\<close>, an argument of every definition that uses them, and what a
  theorem needs of them is a named hypothesis (\<open>digest_is_hex\<close>, \<open>injective_serializer\<close>).
\<close>

datatype json_number = PosInt nat | NegInt int | Float string

datatype json =
    Null
  | Bool bool
  | Number json_number
  | String string
  | Array "json list"
  | Object "(string \<times> json) list"

record externals =
  json_to_string :: "json \<Rightarrow> string"
  sha256_hex :: "string \<Rightarrow> string"
  debug_str :: "string \<Rightarrow> string"

section \<open>Access\<close>

text \<open>\<open>value.get(key)\<close> is \<open>None\<close> on anything but an object that has the member.\<close>

fun json_get :: "json \<Rightarrow> string \<Rightarrow> json option" where
  "json_get (Object ms) k = map_of ms k"
| "json_get _ k = None"

fun as_str :: "json \<Rightarrow> string option" where
  "as_str (String s) = Some s"
| "as_str _ = None"

fun as_u64 :: "json \<Rightarrow> nat option" where
  "as_u64 (Number (PosInt n)) = Some n"
| "as_u64 _ = None"

fun as_object :: "json \<Rightarrow> (string \<times> json) list option" where
  "as_object (Object ms) = Some ms"
| "as_object _ = None"

definition get_str :: "json \<Rightarrow> string \<Rightarrow> string option" where
  "get_str v k = Option.bind (json_get v k) as_str"

section \<open>Canonical form\<close>

fun canonical_value :: "json \<Rightarrow> json" where
  "canonical_value (Object ms) = Object (sort_key fst (map (\<lambda>(k, v). (k, canonical_value v)) ms))"
| "canonical_value (Array vs) = Array (map canonical_value vs)"
| "canonical_value v = v"

text \<open>Equality of JSON values: object members in any order.\<close>

definition json_eq :: "json \<Rightarrow> json \<Rightarrow> bool" where
  "json_eq a b \<longleftrightarrow> canonical_value a = canonical_value b"

definition canonical_json :: "externals \<Rightarrow> json \<Rightarrow> string" where
  "canonical_json E v = json_to_string E (canonical_value v)"

definition stable_id_from_value :: "externals \<Rightarrow> string \<Rightarrow> json \<Rightarrow> string" where
  "stable_id_from_value E ns input = ns @ '':sha256:'' @ sha256_hex E (canonical_json E input)"

record stable_id_input =
  repository_identity :: string
  workspace_identity :: "string option"
  package_locator :: "string option"
  relative_path :: "string option"
  input_profile_id :: "string option"
  language_identity :: "string option"

text \<open>The derived serialization: absent components are skipped.\<close>

definition optional_member :: "string \<Rightarrow> string option \<Rightarrow> (string \<times> json) list" where
  "optional_member k v = (case v of None \<Rightarrow> [] | Some s \<Rightarrow> [(k, String s)])"

definition stable_id_input_value :: "stable_id_input \<Rightarrow> json" where
  "stable_id_input_value i = Object
     ([(''repository_identity'', String (repository_identity i))]
      @ optional_member ''workspace_identity'' (workspace_identity i)
      @ optional_member ''package_locator'' (package_locator i)
      @ optional_member ''relative_path'' (relative_path i)
      @ optional_member ''profile_id'' (input_profile_id i)
      @ optional_member ''language_identity'' (language_identity i))"

definition stable_id :: "externals \<Rightarrow> string \<Rightarrow> stable_id_input \<Rightarrow> string" where
  "stable_id E ns i = stable_id_from_value E ns (stable_id_input_value i)"

section \<open>Hypotheses on the external functions\<close>

definition is_lower_hex :: "char \<Rightarrow> bool" where
  "is_lower_hex c \<longleftrightarrow> (let n = of_char c :: nat in (48 \<le> n \<and> n \<le> 57) \<or> (97 \<le> n \<and> n \<le> 102))"

text \<open>A SHA-256 digest printed as lowercase hexadecimal has 64 characters.\<close>

definition digest_is_hex :: "externals \<Rightarrow> bool" where
  "digest_is_hex E \<longleftrightarrow> (\<forall>s. length (sha256_hex E s) = 64 \<and> list_all is_lower_hex (sha256_hex E s))"

text \<open>Different values print differently.\<close>

definition injective_serializer :: "externals \<Rightarrow> bool" where
  "injective_serializer E \<longleftrightarrow> inj (json_to_string E)"

section \<open>Lemmas\<close>

text \<open>Objects without repeated keys, at every depth.\<close>

fun wf_json :: "json \<Rightarrow> bool" where
  "wf_json (Object ms) \<longleftrightarrow> distinct (map fst ms) \<and> (\<forall>(k, v)\<in>set ms. wf_json v)"
| "wf_json (Array vs) \<longleftrightarrow> (\<forall>v\<in>set vs. wf_json v)"
| "wf_json v \<longleftrightarrow> True"

lemma json_eq_refl [simp]: "json_eq a a"
  and json_eq_sym: "json_eq a b \<Longrightarrow> json_eq b a"
  and json_eq_trans: "json_eq a b \<Longrightarrow> json_eq b c \<Longrightarrow> json_eq a c"
  by (simp_all add: json_eq_def)

lemma canonical_value_idem [simp]: "canonical_value (canonical_value v) = canonical_value v"
proof (induction v rule: canonical_value.induct)
  case (1 ms)
  let ?c = "\<lambda>(k, v). (k :: string, canonical_value v)"
  let ?s = "sort_key fst (map ?c ms)"
  have fixed: "?c m = m" if "m \<in> set ?s" for m
    using that "1.IH" by fastforce
  then have "map ?c ?s = ?s" by (intro map_idI) blast
  then show ?case by (simp add: sort_key_id_if_sorted)
next
  case (2 vs)
  then show ?case by simp
qed simp_all

text \<open>
  The equality that \<open>serde_json\<close> gives two values with \<open>preserve_order\<close>: two objects are equal when they
  have equally many members and every member of the one is a member of the other.
\<close>

fun json_same :: "json \<Rightarrow> json \<Rightarrow> bool" where
  "json_same (Object ms) w = (case w of
     Object ns \<Rightarrow> length ms = length ns \<and>
       (\<forall>(k, v)\<in>set ms. case map_of ns k of None \<Rightarrow> False | Some u \<Rightarrow> json_same v u)
   | _ \<Rightarrow> False)"
| "json_same (Array vs) w = (case w of Array us \<Rightarrow> list_all2 json_same vs us | _ \<Rightarrow> False)"
| "json_same v w = (v = w)"

lemma sort_members_eq_iff:
  assumes "distinct (map fst ms)" and "distinct (map fst ns)"
  shows "sort_key fst ms = sort_key fst ns \<longleftrightarrow> set ms = set ns"
proof
  assume "sort_key fst ms = sort_key fst ns"
  then show "set ms = set ns" by (metis set_sort)
next
  assume "set ms = set ns"
  moreover have "distinct ms" "distinct ns" "inj_on fst (set ms \<union> set ns)"
    using assms \<open>set ms = set ns\<close> by (auto simp: distinct_map)
  ultimately show "sort_key fst ms = sort_key fst ns"
    using map_sorted_distinct_set_unique [of fst "sort_key fst ms" "sort_key fst ns"] assms
    by (simp add: distinct_map)
qed

lemma object_same_iff:
  assumes ms: "distinct (map fst ms)" and ns: "distinct (map fst ns)"
    and IH: "\<And>k v u. (k, v) \<in> set ms \<Longrightarrow> (k, u) \<in> set ns \<Longrightarrow> f v = f u \<longleftrightarrow> R v u"
  shows "(\<lambda>(k, v). (k, f v)) ` set ms = (\<lambda>(k, v). (k, f v)) ` set ns \<longleftrightarrow>
    length ms = length ns \<and>
    (\<forall>(k, v)\<in>set ms. case map_of ns k of None \<Rightarrow> False | Some u \<Rightarrow> R v u)"
    (is "?img ms = ?img ns \<longleftrightarrow> ?len \<and> ?mem")
proof
  assume eq: "?img ms = ?img ns"
  have "fst ` set ms = fst ` set ns"
    using arg_cong [OF eq, of "image fst"] by (simp add: image_image case_prod_beta)
  then have ?len
    using ms ns by (metis distinct_card length_map list.set_map)
  moreover have ?mem
  proof clarify
    fix k v assume kv: "(k, v) \<in> set ms"
    then have "(k, f v) \<in> ?img ns" using eq by force
    then obtain u where u: "(k, u) \<in> set ns" "f u = f v" by auto
    with ns IH [OF kv u(1)] show "case map_of ns k of None \<Rightarrow> False | Some u \<Rightarrow> R v u"
      by simp
  qed
  ultimately show "?len \<and> ?mem" ..
next
  assume r: "?len \<and> ?mem"
  have "?img ms \<subseteq> ?img ns"
  proof clarify
    fix k v assume kv: "(k, v) \<in> set ms"
    with r obtain u where u: "map_of ns k = Some u" "R v u"
      by (fastforce split: option.splits)
    then have "(k, u) \<in> set ns" by (simp add: map_of_SomeD)
    with IH [OF kv this] u show "(k, f v) \<in> ?img ns" by force
  qed
  moreover have "card (?img zs) = length zs" if "distinct (map fst zs)" for zs :: "('a \<times> 'b) list"
  proof -
    have "inj_on (\<lambda>(k, v). (k, f v)) (set zs)"
      using that by (fastforce simp: distinct_map inj_on_def)
    then show ?thesis using that by (simp add: card_image distinct_card distinct_map)
  qed
  ultimately show "?img ms = ?img ns"
    using r ms ns by (simp add: card_subset_eq)
qed

lemma json_eq_iff_same:
  "wf_json a \<Longrightarrow> wf_json b \<Longrightarrow> json_eq a b \<longleftrightarrow> json_same a b"
proof (induction a b rule: json_same.induct)
  case (1 ms w)
  show ?case
  proof (cases w)
    case (Object ns)
    let ?c = "\<lambda>(k, v). (k :: string, canonical_value v)"
    have d: "distinct (map fst ms)" "distinct (map fst ns)"
      using "1.prems" Object by auto
    then have "distinct (map fst (map ?c ms))" "distinct (map fst (map ?c ns))"
      by (simp_all add: comp_def case_prod_beta)
    then have "json_eq (Object ms) w \<longleftrightarrow> ?c ` set ms = ?c ` set ns"
      using Object by (simp add: json_eq_def sort_members_eq_iff)
    also have "\<dots> \<longleftrightarrow> json_same (Object ms) w"
      unfolding Object json_same.simps json.case
    proof (rule object_same_iff [OF d])
      fix k v u assume kv: "(k, v) \<in> set ms" "(k, u) \<in> set ns"
      then have "map_of ns k = Some u" "wf_json v" "wf_json u"
        using d "1.prems" Object by auto
      then show "canonical_value v = canonical_value u \<longleftrightarrow> json_same v u"
        using "1.IH" [OF Object kv(1) refl] by (simp add: json_eq_def)
    qed
    finally show ?thesis .
  qed (simp_all add: json_eq_def)
next
  case (2 vs w)
  show ?case
  proof (cases w)
    case (Array us)
    have "map canonical_value vs = map canonical_value us \<longleftrightarrow>
        list_all2 (\<lambda>v u. canonical_value v = canonical_value u) vs us"
      by (simp add: list.rel_eq [symmetric] list_all2_map1 list_all2_map2)
    also have "\<dots> \<longleftrightarrow> list_all2 json_same vs us"
      using "2.IH" [OF Array] "2.prems" Array
      by (intro list.rel_cong [OF refl refl]) (auto simp: json_eq_def)
    finally show ?thesis using Array by (simp add: json_eq_def)
  qed (simp_all add: json_eq_def)
qed (auto simp: json_eq_def split: json.splits; (case_tac w; simp))+

section \<open>A concrete serializer\<close>

text \<open>
  External functions that satisfy the hypotheses: a tagged, self-delimiting rendering of JSON values, and a
  constant digest. They serve as the concrete instance in examples.
\<close>

definition tag_string :: "string \<Rightarrow> string" where
  "tag_string s = concat (map (\<lambda>c. [CHR ''c'', c]) s) @ ''.''"

definition tag_nat :: "nat \<Rightarrow> string" where
  "tag_nat n = replicate n (CHR ''1'') @ ''.''"

fun tag_number :: "json_number \<Rightarrow> string" where
  "tag_number (PosInt n) = CHR ''p'' # tag_nat n"
| "tag_number (NegInt i) = (if i < 0 then CHR ''m'' # tag_nat (nat (- i)) else CHR ''q'' # tag_nat (nat i))"
| "tag_number (Float s) = CHR ''d'' # tag_string s"

fun tag_print :: "json \<Rightarrow> string" where
  "tag_print Null = ''n''"
| "tag_print (Bool b) = (if b then ''t'' else ''f'')"
| "tag_print (Number n) = CHR ''#'' # tag_number n"
| "tag_print (String s) = CHR ''s'' # tag_string s"
| "tag_print (Array vs) = CHR ''a'' # concat (map (\<lambda>v. CHR '','' # tag_print v) vs) @ ''.''"
| "tag_print (Object ms) =
     CHR ''o'' # concat (map (\<lambda>(k, v). CHR '','' # tag_string k @ tag_print v) ms) @ ''.''"

definition example_externals :: externals where
  "example_externals = \<lparr>json_to_string = tag_print, sha256_hex = (\<lambda>_. replicate 64 (CHR ''0'')),
     debug_str = (\<lambda>s. s)\<rparr>"

lemma tag_string_prefix_free: "tag_string s @ r = tag_string t @ u \<longleftrightarrow> s = t \<and> r = u"
proof (induction s arbitrary: t)
  case Nil
  then show ?case by (cases t) (auto simp: tag_string_def)
next
  case (Cons c s)
  then show ?case by (cases t) (auto simp: tag_string_def)
qed

lemma tag_nat_prefix_free: "tag_nat m @ r = tag_nat n @ u \<longleftrightarrow> m = n \<and> r = u"
proof (induction m arbitrary: n)
  case 0
  then show ?case by (cases n) (auto simp: tag_nat_def)
next
  case (Suc m)
  then show ?case by (cases n) (auto simp: tag_nat_def)
qed

lemma tag_number_prefix_free: "tag_number m @ r = tag_number n @ u \<longleftrightarrow> m = n \<and> r = u"
  by (cases m; cases n) (auto simp: tag_nat_prefix_free tag_string_prefix_free)

lemma tag_list_prefix_free:
  assumes "\<And>x y r u. x \<in> set xs \<Longrightarrow> f x @ r = f y @ u \<longleftrightarrow> x = y \<and> r = u"
  shows "concat (map (\<lambda>x. CHR '','' # f x) xs) @ CHR ''.'' # r =
    concat (map (\<lambda>x. CHR '','' # f x) ys) @ CHR ''.'' # u \<longleftrightarrow> xs = ys \<and> r = u"
  using assms
proof (induction xs arbitrary: ys)
  case Nil
  then show ?case by (cases ys) auto
next
  case (Cons x xs)
  show ?case
  proof (cases ys)
    case (Cons y zs)
    then show ?thesis using Cons.IH [of zs] Cons.prems by auto
  qed simp
qed

lemma tag_print_prefix_free: "tag_print a @ r = tag_print b @ u \<longleftrightarrow> a = b \<and> r = u"
proof (induction a arbitrary: b r u)
  case (Array vs)
  then show ?case
    using tag_list_prefix_free [of vs tag_print] by (cases b) auto
next
  case (Object ms)
  have members: "(\<lambda>(k, v). tag_string k @ tag_print v) m @ r = (\<lambda>(k, v). tag_string k @ tag_print v) n @ u
      \<longleftrightarrow> m = n \<and> r = u" if "m \<in> set ms" for m n r u
  proof -
    obtain k v l w where "m = (k, v)" "n = (l, w)" by fastforce
    then show ?thesis
      using that Object.IH [of m v] by (auto simp: tag_string_prefix_free)
  qed
  have split: "(\<lambda>(k, v). CHR '','' # tag_string k @ tag_print v) =
      (\<lambda>m. CHR '','' # (\<lambda>(k, v). tag_string k @ tag_print v) m)"
    by auto
  show ?case
    using tag_list_prefix_free [of ms, OF members] by (cases b) (auto simp: split)
qed (case_tac b; auto simp: tag_string_prefix_free tag_number_prefix_free)+

lemma injective_example: "injective_serializer example_externals"
  unfolding injective_serializer_def example_externals_def
  using tag_print_prefix_free [of _ "[]" _ "[]"] by (auto simp: inj_on_def)

lemma hex_example: "digest_is_hex example_externals"
  by (simp add: digest_is_hex_def example_externals_def is_lower_hex_def list_all_iff)

section \<open>Correctness of canonical identities\<close>

text \<open>
  C19: \<open>canonical_json\<close> identifies exactly the values that are equal as JSON: under a serializer that prints
  different values differently, two values without repeated object keys have the same canonical text if
  and only if they are equal up to the order of object members, at every depth.
\<close>

theorem canonical_json_identifies:
  assumes "injective_serializer E" and "wf_json a" and "wf_json b"
  shows "canonical_json E a = canonical_json E b \<longleftrightarrow> json_same a b"
  using assms json_eq_iff_same [of a b]
  by (simp add: canonical_json_def json_eq_def injective_serializer_def inj_eq)

theorem canonical_json_identifies_witness:
  "canonical_json example_externals (Object [(''b'', Null), (''a'', Array [Object [(''y'', Bool True), (''x'', Null)]])])
     = canonical_json example_externals (Object [(''a'', Array [Object [(''x'', Null), (''y'', Bool True)]]), (''b'', Null)])
   \<and> canonical_json example_externals (Array [Null, Bool True]) \<noteq> canonical_json example_externals (Array [Bool True, Null])"
  by (simp add: canonical_json_identifies [OF injective_example])

end
