(* ===== verification/Records.thy ===== *)
theory Records
  imports Json
begin

text \<open>
  The records of a completed graph snapshot: \<^verbatim>\<open>crates/depgraph-store/src/records.rs\<close> and the profile matrix
  of \<^verbatim>\<open>crates/depgraph-store/src/profile_matrix.rs\<close>. Field names carry the record's prefix, because Isabelle
  selectors share one name space. Timestamps and identifiers are strings, counters are \<open>nat\<close>, the signed
  \<open>ordinal\<close> is an \<open>int\<close>, and properties and conditions are raw JSON, as in the code.
\<close>

record NodeRecord =
  node_id :: string
  node_kind :: string
  node_locator :: string
  node_display_name :: string
  node_properties :: json

record SiteRecord =
  site_id :: string
  site_source :: string
  site_kind :: string
  site_specifier :: "string option"
  site_profile_id :: string
  site_resolution_status :: string
  site_precision :: string
  site_condition :: json
  site_target_ids :: "string list"
  site_reason :: "string option"

record EdgeRecord =
  edge_id :: string
  edge_site_id :: "string option"
  edge_source :: string
  edge_target :: string
  edge_kind :: string
  edge_phase :: string
  edge_environment :: string
  edge_profile_id :: string
  edge_resolution_status :: string
  edge_precision :: string
  edge_condition :: json
  edge_generated :: bool

record EvidenceRecord =
  ev_owner_type :: string
  ev_owner_id :: string
  ev_ordinal :: int
  ev_kind :: string
  ev_extractor :: string
  ev_extractor_version :: string
  ev_path :: string
  ev_start_line :: nat
  ev_start_column :: nat
  ev_end_line :: nat
  ev_end_column :: nat
  ev_detail :: "string option"
  ev_properties :: json

record DiagnosticRecord =
  diag_ordinal :: int
  diag_id :: string
  diag_severity :: string
  diag_code :: string
  diag_message :: string
  diag_path :: "string option"
  diag_adapter :: "string option"
  diag_start_line :: "nat option"
  diag_start_column :: "nat option"
  diag_end_line :: "nat option"
  diag_end_column :: "nat option"
  diag_properties :: json

record CoverageRecord =
  cov_profiles :: nat
  cov_files_discovered :: nat
  cov_files_analyzed :: nat
  cov_files_skipped :: nat
  cov_dependency_sites :: nat
  cov_resolved :: nat
  cov_candidates :: nat
  cov_external :: nat
  cov_unresolved :: nat
  cov_unsupported_syntax :: nat
  cov_project_code_executed :: bool
  cov_completeness :: "string list"
  cov_reasons :: "string list"

record ProfileRecord =
  profile_id :: string
  profile_language :: string
  profile_toolchain :: "json option"
  profile_command :: "string option"
  profile_target :: "string option"
  profile_features :: "string list"
  profile_environment :: json
  profile_source_revision :: "string option"
  profile_properties :: json
  profile_coverage :: "CoverageRecord option"

record PhaseCoverageRecord =
  pc_profile_ids :: "string list"
  pc_sites :: nat
  pc_edges :: nat
  pc_evidence :: nat
  pc_resolved :: nat
  pc_candidates :: nat
  pc_external :: nat
  pc_unresolved :: nat
  pc_completeness :: "string list"

record ProfileAxisConflictRecord =
  ac_profile_id :: string
  ac_parent_profile_id :: string
  ac_fields :: "string list"
  ac_diagnostic_id :: string

record ProfileMatrixEntryRecord =
  entry_id :: string
  entry_effective_input_id :: string
  entry_language :: string
  entry_profile_ids :: "string list"
  entry_parent_profile_ids :: "string list"
  entry_phases :: "string list"
  entry_condition_union :: json
  entry_phase_coverage :: "(string, PhaseCoverageRecord) bmap"
  entry_selection_reasons :: "string list"
  entry_axis_conflicts :: "ProfileAxisConflictRecord list"

record ProfileCorrelationRecord =
  corr_id :: string
  corr_effective_profile_id :: string
  corr_source :: string
  corr_kind :: string
  corr_specifier :: string
  corr_status :: string
  corr_condition_union :: json
  corr_conditions_by_phase :: "(string, json) bmap"
  corr_targets_by_phase :: "(string, string list) bmap"
  corr_resolutions_by_phase :: "(string, string list) bmap"
  corr_site_ids_by_phase :: "(string, string list) bmap"
  corr_edge_ids_by_phase :: "(string, string list) bmap"
  corr_difference_reasons :: "string list"
  corr_diagnostic_id :: "string option"

record ProfileMatrixRecord =
  matrix_schema_version :: string
  matrix_entries :: "ProfileMatrixEntryRecord list"
  matrix_correlations :: "ProfileCorrelationRecord list"
  matrix_phase_coverage :: "(string, PhaseCoverageRecord) bmap"
  matrix_difference_counts :: "(string, nat) bmap"

record ScanRecord =
  scan_id :: string
  scan_root :: string
  scan_status :: string
  scan_strict :: bool
  scan_started_at :: string
  scan_completed_at :: "string option"
  scan_project_code_executed :: bool
  scan_error :: "string option"
  scan_parent_snapshot_id :: "string option"
  scan_source_revision :: "string option"
  scan_health_policy_config_digest :: "string option"
  scan_health_analyzer_version :: "string option"
  scan_health_finding_contract_version :: "string option"

record FileCoverageRecord =
  fc_adapter :: string
  fc_path :: string
  fc_discovered_sites :: nat
  fc_emitted_sites :: nat
  fc_skipped_sites :: nat
  fc_skipped :: bool
  fc_reason :: "string option"

record AdapterLogRecord =
  log_adapter :: string
  log_stderr :: string
  log_truncated :: bool

record GraphSnapshot =
  snap_scan :: ScanRecord
  snap_profiles :: "ProfileRecord list"
  snap_nodes :: "NodeRecord list"
  snap_sites :: "SiteRecord list"
  snap_edges :: "EdgeRecord list"
  snap_evidence :: "EvidenceRecord list"
  snap_diagnostics :: "DiagnosticRecord list"
  snap_file_coverage :: "FileCoverageRecord list"
  snap_adapter_logs :: "AdapterLogRecord list"
  snap_coverage :: CoverageRecord
  snap_profile_matrix :: ProfileMatrixRecord
  snap_analysis_dependency_coverage :: "(string, bool) bmap option"

record GraphTopologyNode =
  topology_node_id :: string
  topology_node_kind :: string

record GraphTopologyEdge =
  topology_edge_source :: string
  topology_edge_target :: string

record GraphTopology =
  topology_nodes :: "GraphTopologyNode list"
  topology_edges :: "GraphTopologyEdge list"

definition phase_coverage_for_effective_profile ::
  "ProfileMatrixRecord \<Rightarrow> string \<Rightarrow> (string, PhaseCoverageRecord) bmap" where
  "phase_coverage_for_effective_profile matrix effective_profile_id =
     (case find (\<lambda>entry. entry_id entry = effective_profile_id) (matrix_entries matrix) of
        None \<Rightarrow> [] | Some entry \<Rightarrow> entry_phase_coverage entry)"

section \<open>Small snapshots for examples\<close>

definition example_node :: "string \<Rightarrow> string \<Rightarrow> NodeRecord" where
  "example_node i kind =
     \<lparr>node_id = i, node_kind = kind, node_locator = ''file://'' @ i, node_display_name = i, node_properties = Object []\<rparr>"

definition example_edge :: "string \<Rightarrow> string \<Rightarrow> string \<Rightarrow> EdgeRecord" where
  "example_edge i s t =
     \<lparr>edge_id = i, edge_site_id = None, edge_source = s, edge_target = t, edge_kind = ''imports'',
      edge_phase = ''source'', edge_environment = ''any'', edge_profile_id = ''p'',
      edge_resolution_status = ''resolved'', edge_precision = ''exact'', edge_condition = Null,
      edge_generated = False\<rparr>"

definition example_evidence :: "string \<Rightarrow> int \<Rightarrow> EvidenceRecord" where
  "example_evidence owner n =
     \<lparr>ev_owner_type = ''edge'', ev_owner_id = owner, ev_ordinal = n, ev_kind = ''syntax'',
      ev_extractor = ''x'', ev_extractor_version = ''1'', ev_path = ''a.rs'', ev_start_line = 1,
      ev_start_column = 1, ev_end_line = 1, ev_end_column = 2, ev_detail = None, ev_properties = Null\<rparr>"

definition example_snapshot :: "NodeRecord list \<Rightarrow> EdgeRecord list \<Rightarrow> EvidenceRecord list \<Rightarrow> GraphSnapshot" where
  "example_snapshot ns es vs =
     \<lparr>snap_scan = \<lparr>scan_id = ''s'', scan_root = ''/'', scan_status = ''complete'', scan_strict = False,
        scan_started_at = '''', scan_completed_at = None, scan_project_code_executed = False,
        scan_error = None, scan_parent_snapshot_id = None, scan_source_revision = None,
        scan_health_policy_config_digest = None, scan_health_analyzer_version = None,
        scan_health_finding_contract_version = None\<rparr>,
      snap_profiles = [], snap_nodes = ns, snap_sites = [], snap_edges = es, snap_evidence = vs, snap_diagnostics = [],
      snap_file_coverage = [], snap_adapter_logs = [],
      snap_coverage = \<lparr>cov_profiles = 0, cov_files_discovered = 0, cov_files_analyzed = 0,
        cov_files_skipped = 0, cov_dependency_sites = 0, cov_resolved = 0, cov_candidates = 0,
        cov_external = 0, cov_unresolved = 0, cov_unsupported_syntax = 0,
        cov_project_code_executed = False, cov_completeness = [], cov_reasons = []\<rparr>,
      snap_profile_matrix = \<lparr>matrix_schema_version = '''', matrix_entries = [], matrix_correlations = [],
        matrix_phase_coverage = [], matrix_difference_counts = []\<rparr>,
      snap_analysis_dependency_coverage = None\<rparr>"

lemmas example_defs = example_node_def example_edge_def example_evidence_def example_snapshot_def

end
