(* ===== verification/Query_Error.thy ===== *)
theory Query_Error
  imports Prelude
begin

text \<open>
  The failures of graph queries and the fixed limits behind them:
  \<^verbatim>\<open>crates/depgraph-core/src/query.rs\<close> (lines 20 to 165) and \<^verbatim>\<open>crates/depgraph-core/src/service_limits.rs\<close>.

  An \<open>anyhow::Error\<close> carries one of the typed errors, or only a message (\<open>Message\<close>); classifying it is
  a match on its constructor. Cancellation is polled by a closure that may change its answer: it is the
  function that gives the answer of the n-th poll, and the number of polls made so far is part of the state
  of everything that polls it.
\<close>

datatype SelectorFailureKind = NoMatch | Ambiguous

datatype query_error =
    SelectorPreprocessingExhausted nat
  | SelectorResolutionFailure SelectorFailureKind "string option" string
  | SelectorPreprocessingCancelled
  | QueryPostprocessingExhausted
  | QueryPostprocessingWorkExhausted nat
  | QueryPostprocessingCancelled
  | QueryPostprocessingIntegrity
  | Message string

record SelectorFailure =
  failure_kind :: SelectorFailureKind
  failure_argument :: "string option"

fun selector_failure :: "query_error \<Rightarrow> SelectorFailure option" where
  "selector_failure (SelectorResolutionFailure k arg _) = Some \<lparr>failure_kind = k, failure_argument = arg\<rparr>"
| "selector_failure _ = None"

fun tag_selector_argument :: "query_error \<Rightarrow> string \<Rightarrow> query_error" where
  "tag_selector_argument (SelectorResolutionFailure k None m) arg = SelectorResolutionFailure k (Some arg) m"
| "tag_selector_argument e arg = e"

fun preprocessing_work_limit :: "query_error \<Rightarrow> nat option" where
  "preprocessing_work_limit (SelectorPreprocessingExhausted n) = Some n"
| "preprocessing_work_limit (QueryPostprocessingWorkExhausted n) = Some n"
| "preprocessing_work_limit _ = None"

definition postprocessing_work_exhausted :: "nat \<Rightarrow> query_error" where
  "postprocessing_work_exhausted maximum = QueryPostprocessingWorkExhausted maximum"

definition postprocessing_cancelled :: query_error where
  "postprocessing_cancelled = QueryPostprocessingCancelled"

fun is_resource_exhausted :: "query_error \<Rightarrow> bool" where
  "is_resource_exhausted (SelectorPreprocessingExhausted _) = True"
| "is_resource_exhausted QueryPostprocessingExhausted = True"
| "is_resource_exhausted (QueryPostprocessingWorkExhausted _) = True"
| "is_resource_exhausted _ = False"

lemma preprocessing_work_exhausted: "preprocessing_work_limit e \<noteq> None \<Longrightarrow> is_resource_exhausted e"
  by (cases e) simp_all

fun is_cancelled :: "query_error \<Rightarrow> bool" where
  "is_cancelled SelectorPreprocessingCancelled = True"
| "is_cancelled QueryPostprocessingCancelled = True"
| "is_cancelled _ = False"

fun is_integrity :: "query_error \<Rightarrow> bool" where
  "is_integrity QueryPostprocessingIntegrity = True"
| "is_integrity _ = False"

section \<open>Limits\<close>

definition MAX_INTERACTIVE_QUERY_TRAVERSAL :: nat where
  [limit_simps]: "MAX_INTERACTIVE_QUERY_TRAVERSAL = 1000000"

definition MAX_DEPENDENCY_PATH_STEPS :: nat where
  [limit_simps]: "MAX_DEPENDENCY_PATH_STEPS = 1000"

definition MAX_GRAPH_EVIDENCE_ITEMS :: nat where
  [limit_simps]: "MAX_GRAPH_EVIDENCE_ITEMS = 64"

definition MAX_UNRESOLVED_CORRELATION_REASONS :: nat where
  [limit_simps]: "MAX_UNRESOLVED_CORRELATION_REASONS = 16"

definition MAX_GRAPH_PHASE_COVERAGE_ITEMS :: nat where
  [limit_simps]: "MAX_GRAPH_PHASE_COVERAGE_ITEMS = 64"

definition MAX_GRAPH_SERVICE_PREPROCESSING_WORK_ITEMS :: nat where
  [limit_simps]: "MAX_GRAPH_SERVICE_PREPROCESSING_WORK_ITEMS = MAX_INTERACTIVE_QUERY_TRAVERSAL"

definition MAX_GRAPH_SNAPSHOT_SCAN_WORK_ITEMS :: nat where
  [limit_simps]: "MAX_GRAPH_SNAPSHOT_SCAN_WORK_ITEMS = 16000000"

section \<open>Polling\<close>

type_synonym canceller = "nat \<Rightarrow> bool"

definition never :: canceller where
  "never = (\<lambda>_. False)"

text \<open>
  \<open>if is_cancelled() { bail!("dependency traversal was cancelled"); }\<close>
\<close>

definition traversal_poll :: "canceller \<Rightarrow> nat \<Rightarrow> query_error + nat" where
  "traversal_poll cancel polls =
     (if cancel polls then Inl (Message ''dependency traversal was cancelled'') else Inr (Suc polls))"

lemma traversal_poll_never [simp]: "traversal_poll never polls = Inr (Suc polls)"
  by (simp add: traversal_poll_def never_def)

end
