(* ===== verification/Query_Filter.thy ===== *)
theory Query_Filter
  imports Records Query_Error
begin

text \<open>
  Filtering by phase, profile, runtime session and environment: \<open>GraphQueryFilter\<close> of
  \<^verbatim>\<open>crates/depgraph-core/src/query.rs\<close> and the runtime context of an edge,
  \<open>runtime_context_for_edge\<close> of \<^verbatim>\<open>crates/depgraph-store/src/runtime.rs\<close>.

  Filter values are normalized once (\<open>normalize_query_filter\<close>) so that edges can be matched by bisection;
  \<open>wf_query_filter\<close> is the invariant this establishes.
\<close>

section \<open>Runtime context of an edge\<close>

record RuntimeEdgeContext =
  ctx_session_ids :: "string list"
  ctx_source_session_ids :: "string list"
  ctx_environment_names :: "string list"
  ctx_runtimes :: "string list"
  ctx_regions :: "string list"
  ctx_observation_count :: nat
  ctx_first_observed_at :: "string option"
  ctx_last_observed_at :: "string option"

definition empty_context :: RuntimeEdgeContext where
  "empty_context = \<lparr>ctx_session_ids = [], ctx_source_session_ids = [], ctx_environment_names = [],
     ctx_runtimes = [], ctx_regions = [], ctx_observation_count = 0,
     ctx_first_observed_at = None, ctx_last_observed_at = None\<rparr>"

definition push_string :: "string list \<Rightarrow> json option \<Rightarrow> string list" where
  "push_string output value =
     (case Option.bind value as_str of None \<Rightarrow> output | Some s \<Rightarrow> output @ [s])"

definition update_min :: "string option \<Rightarrow> string option \<Rightarrow> string option" where
  "update_min current value =
     (case value of None \<Rightarrow> current
      | Some v \<Rightarrow> (case current of None \<Rightarrow> Some v | Some c \<Rightarrow> if v < c then Some v else current))"

definition update_max :: "string option \<Rightarrow> string option \<Rightarrow> string option" where
  "update_max current value =
     (case value of None \<Rightarrow> current
      | Some v \<Rightarrow> (case current of None \<Rightarrow> Some v | Some c \<Rightarrow> if v > c then Some v else current))"

definition is_runtime_evidence_of :: "EdgeRecord \<Rightarrow> EvidenceRecord \<Rightarrow> bool" where
  "is_runtime_evidence_of edge ev \<longleftrightarrow>
     ev_owner_type ev = ''edge'' \<and> ev_owner_id ev = edge_id edge \<and> ev_kind ev = ''runtime''"

text \<open>The loop body: what one evidence record adds.\<close>

definition push_environment :: "json option \<Rightarrow> RuntimeEdgeContext \<Rightarrow> RuntimeEdgeContext" where
  "push_environment environment ctx =
     (case environment of None \<Rightarrow> ctx
      | Some env \<Rightarrow> ctx\<lparr>ctx_environment_names := push_string (ctx_environment_names ctx) (json_get env ''name''),
                       ctx_runtimes := push_string (ctx_runtimes ctx) (json_get env ''runtime''),
                       ctx_regions := push_string (ctx_regions ctx) (json_get env ''region'')\<rparr>)"

definition add_runtime_evidence :: "EvidenceRecord \<Rightarrow> RuntimeEdgeContext \<Rightarrow> RuntimeEdgeContext" where
  "add_runtime_evidence ev ctx0 =
     (let p = ev_properties ev;
          ctx1 = ctx0\<lparr>ctx_session_ids := push_string (ctx_session_ids ctx0) (json_get p ''session_id'')\<rparr>;
          ctx2 = ctx1\<lparr>ctx_source_session_ids :=
                   push_string (ctx_source_session_ids ctx1) (json_get p ''source_session_id'')\<rparr>;
          ctx3 = push_environment (json_get p ''environment'') ctx2;
          ctx4 = ctx3\<lparr>ctx_observation_count := saturating_add (ctx_observation_count ctx3)
                   (case Option.bind (json_get p ''count'') as_u64 of None \<Rightarrow> 0 | Some n \<Rightarrow> n)\<rparr>;
          ctx5 = ctx4\<lparr>ctx_first_observed_at :=
                   update_min (ctx_first_observed_at ctx4) (get_str p ''first_observed_at'')\<rparr>
      in ctx5\<lparr>ctx_last_observed_at :=
                update_max (ctx_last_observed_at ctx5) (get_str p ''last_observed_at'')\<rparr>)"

definition runtime_context_for_edge :: "GraphSnapshot \<Rightarrow> EdgeRecord \<Rightarrow> RuntimeEdgeContext" where
  "runtime_context_for_edge snapshot edge =
     (let ctx = fold add_runtime_evidence (filter (is_runtime_evidence_of edge) (snap_evidence snapshot)) empty_context
      in ctx\<lparr>ctx_session_ids := sort_dedup (ctx_session_ids ctx),
             ctx_source_session_ids := sort_dedup (ctx_source_session_ids ctx),
             ctx_environment_names := sort_dedup (ctx_environment_names ctx),
             ctx_runtimes := sort_dedup (ctx_runtimes ctx),
             ctx_regions := sort_dedup (ctx_regions ctx)\<rparr>)"

section \<open>The filter\<close>

record GraphQueryFilter =
  filter_phases :: "string list"
  filter_profiles :: "string list"
  filter_sessions :: "string list"
  filter_environments :: "string list"

definition empty_filter :: GraphQueryFilter where
  "empty_filter = \<lparr>filter_phases = [], filter_profiles = [], filter_sessions = [], filter_environments = []\<rparr>"

fun trim_filter_values :: "string \<Rightarrow> string list \<Rightarrow> query_error + string list" where
  "trim_filter_values name [] = Inr []"
| "trim_filter_values name (v # vs) =
     (if trim v = [] then Inl (Message (name @ '' filter must not be empty''))
      else sum_bind (trim_filter_values name vs) (\<lambda>rest. Inr (trim v # rest)))"

definition normalize_query_filter :: "string \<Rightarrow> string list \<Rightarrow> query_error + string list" where
  "normalize_query_filter name values =
     sum_bind (trim_filter_values name values) (\<lambda>normalized. Inr (sort_dedup normalized))"

definition new_query_filter ::
  "string list \<Rightarrow> string list \<Rightarrow> string list \<Rightarrow> string list \<Rightarrow> query_error + GraphQueryFilter" where
  "new_query_filter phases profiles sessions environments =
     sum_bind (normalize_query_filter ''phase'' phases) (\<lambda>phases.
     sum_bind (normalize_query_filter ''profile'' profiles) (\<lambda>profiles.
     sum_bind (normalize_query_filter ''session'' sessions) (\<lambda>sessions.
     sum_bind (normalize_query_filter ''environment'' environments) (\<lambda>environments.
       Inr \<lparr>filter_phases = phases, filter_profiles = profiles, filter_sessions = sessions,
            filter_environments = environments\<rparr>))))"

definition filter_is_empty :: "GraphQueryFilter \<Rightarrow> bool" where
  "filter_is_empty f \<longleftrightarrow> filter_phases f = [] \<and> filter_profiles f = [] \<and> filter_sessions f = []
     \<and> filter_environments f = []"

definition matches_edge :: "GraphQueryFilter \<Rightarrow> GraphSnapshot \<Rightarrow> EdgeRecord \<Rightarrow> bool" where
  "matches_edge f snapshot edge =
     (if filter_phases f \<noteq> [] \<and> binary_search (filter_phases f) (edge_phase edge) = None then False
      else if filter_profiles f \<noteq> [] \<and> binary_search (filter_profiles f) (edge_profile_id edge) = None
      then False
      else if filter_sessions f = [] \<and> filter_environments f = [] then True
      else if edge_phase edge \<noteq> ''runtime'' then False
      else
        let context = runtime_context_for_edge snapshot edge;
            session_matches = filter_sessions f = [] \<or>
              list_ex (\<lambda>value. binary_search (filter_sessions f) value \<noteq> None)
                (ctx_session_ids context @ ctx_source_session_ids context);
            environment_matches = filter_environments f = [] \<or>
              list_ex (\<lambda>value. binary_search (filter_environments f) value \<noteq> None)
                (ctx_environment_names context @ ctx_runtimes context @ ctx_regions context)
        in session_matches \<and> environment_matches)"

text \<open>The value of one property occurs among the filter values.\<close>

definition property_in :: "json \<Rightarrow> string list \<Rightarrow> string \<Rightarrow> bool" where
  "property_in props values key =
     (case get_str props key of None \<Rightarrow> False | Some v \<Rightarrow> list_ex (\<lambda>item. item = v) values)"

definition session_property_matches :: "GraphQueryFilter \<Rightarrow> json \<Rightarrow> bool" where
  "session_property_matches f props \<longleftrightarrow> filter_sessions f = [] \<or>
     list_ex (property_in props (filter_sessions f)) [''session_id'', ''source_session_id'']"

definition environment_property_matches :: "GraphQueryFilter \<Rightarrow> json \<Rightarrow> bool" where
  "environment_property_matches f props \<longleftrightarrow> filter_environments f = [] \<or>
     (case json_get props ''environment'' of
        None \<Rightarrow> False
      | Some env \<Rightarrow> (case as_object env of
            None \<Rightarrow> False
          | Some _ \<Rightarrow> list_ex (property_in env (filter_environments f)) [''name'', ''runtime'', ''region'']))"

definition matches_evidence :: "GraphQueryFilter \<Rightarrow> EvidenceRecord \<Rightarrow> bool" where
  "matches_evidence f ev =
     (if ev_kind ev \<noteq> ''runtime'' then filter_sessions f = [] \<and> filter_environments f = []
      else session_property_matches f (ev_properties ev) \<and> environment_property_matches f (ev_properties ev))"

definition string_property_matches :: "DiagnosticRecord \<Rightarrow> string \<Rightarrow> string list \<Rightarrow> bool" where
  "string_property_matches d key values \<longleftrightarrow> values = [] \<or> property_in (diag_properties d) values key"

definition matches_diagnostic :: "GraphQueryFilter \<Rightarrow> DiagnosticRecord \<Rightarrow> bool" where
  "matches_diagnostic f d \<longleftrightarrow>
     string_property_matches d ''phase'' (filter_phases f)
     \<and> string_property_matches d ''profile_id'' (filter_profiles f)
     \<and> session_property_matches f (diag_properties d)
     \<and> environment_property_matches f (diag_properties d)"

section \<open>Lemmas\<close>

definition wf_query_filter :: "GraphQueryFilter \<Rightarrow> bool" where
  "wf_query_filter f \<longleftrightarrow> sorted (filter_phases f) \<and> sorted (filter_profiles f)
     \<and> sorted (filter_sessions f) \<and> sorted (filter_environments f)"

lemma wf_empty_filter [simp]: "wf_query_filter empty_filter"
  by (simp add: wf_query_filter_def empty_filter_def)

lemma matches_empty_filter [simp]: "matches_edge empty_filter snapshot edge" "matches_evidence empty_filter ev"
  by (simp_all add: matches_edge_def matches_evidence_def empty_filter_def session_property_matches_def
      environment_property_matches_def)

lemma trim_filter_values_Inr:
  "trim_filter_values name vs = Inr ts \<longleftrightarrow> ts = map trim vs \<and> [] \<notin> set ts"
  by (induction vs arbitrary: ts) (auto simp: sum_bind_Inr_iff)

lemma normalize_query_filter_Inr:
  "normalize_query_filter name vs = Inr ts \<longleftrightarrow> ts = sort_dedup (map trim vs) \<and> [] \<notin> set ts"
  by (auto simp: normalize_query_filter_def sum_bind_Inr_iff trim_filter_values_Inr)

lemma sorted_sort_dedup [simp]: "sorted (sort_dedup xs)"
  using strict_sorted_sort_dedup [of xs] by (simp add: strict_sorted_iff)

lemma new_query_filter_wf: "new_query_filter ph pr se en = Inr f \<Longrightarrow> wf_query_filter f"
  by (auto simp: new_query_filter_def sum_bind_Inr_iff normalize_query_filter_Inr wf_query_filter_def)

lemma set_push_string: "set (push_string out v) = set out \<union> set_option (Option.bind v as_str)"
  by (cases v; cases "Option.bind v as_str") (auto simp: push_string_def)

lemma fold_runtime_sets:
  "set (ctx_session_ids (fold add_runtime_evidence evs ctx)) =
     set (ctx_session_ids ctx) \<union> (\<Union>ev\<in>set evs. set_option (get_str (ev_properties ev) ''session_id''))"
  "set (ctx_source_session_ids (fold add_runtime_evidence evs ctx)) =
     set (ctx_source_session_ids ctx) \<union> (\<Union>ev\<in>set evs. set_option (get_str (ev_properties ev) ''source_session_id''))"
  by (induction evs arbitrary: ctx)
    (auto simp: add_runtime_evidence_def Let_def set_push_string get_str_def push_environment_def split: option.splits)

definition env_strings :: "EvidenceRecord \<Rightarrow> string \<Rightarrow> string set" where
  "env_strings ev key = set_option (Option.bind (json_get (ev_properties ev) ''environment'') (\<lambda>env. get_str env key))"

lemma set_push_environment:
  "set (ctx_environment_names (push_environment env ctx)) =
     set (ctx_environment_names ctx) \<union> set_option (Option.bind env (\<lambda>e. get_str e ''name''))"
  "set (ctx_runtimes (push_environment env ctx)) =
     set (ctx_runtimes ctx) \<union> set_option (Option.bind env (\<lambda>e. get_str e ''runtime''))"
  "set (ctx_regions (push_environment env ctx)) =
     set (ctx_regions ctx) \<union> set_option (Option.bind env (\<lambda>e. get_str e ''region''))"
  by (auto simp: push_environment_def set_push_string get_str_def split: option.splits)

lemma fold_runtime_environment_sets:
  "set (ctx_environment_names (fold add_runtime_evidence evs ctx)) =
     set (ctx_environment_names ctx) \<union> (\<Union>ev\<in>set evs. env_strings ev ''name'')"
  "set (ctx_runtimes (fold add_runtime_evidence evs ctx)) =
     set (ctx_runtimes ctx) \<union> (\<Union>ev\<in>set evs. env_strings ev ''runtime'')"
  "set (ctx_regions (fold add_runtime_evidence evs ctx)) =
     set (ctx_regions ctx) \<union> (\<Union>ev\<in>set evs. env_strings ev ''region'')"
  by (induction evs arbitrary: ctx)
    (auto simp: add_runtime_evidence_def Let_def set_push_environment env_strings_def)

lemma property_in_iff: "property_in props vs key \<longleftrightarrow> set_option (get_str props key) \<inter> set vs \<noteq> {}"
  by (auto simp: property_in_def list_ex_iff split: option.split)

lemma environment_property_matches_iff:
  "environment_property_matches f (ev_properties ev) \<longleftrightarrow> filter_environments f = [] \<or>
     (env_strings ev ''name'' \<union> env_strings ev ''runtime'' \<union> env_strings ev ''region'')
       \<inter> set (filter_environments f) \<noteq> {}"
proof (cases "json_get (ev_properties ev) ''environment''")
  case None
  then show ?thesis by (simp add: environment_property_matches_def env_strings_def)
next
  case (Some env)
  then show ?thesis
    by (cases env) (auto simp: environment_property_matches_def env_strings_def property_in_iff get_str_def)
qed

text \<open>The sessions and environments that the runtime evidence of an edge names.\<close>

definition observed_sessions :: "GraphSnapshot \<Rightarrow> EdgeRecord \<Rightarrow> string set" where
  "observed_sessions snapshot edge =
     (\<Union>ev\<in>{ev \<in> set (snap_evidence snapshot). is_runtime_evidence_of edge ev}.
        set_option (get_str (ev_properties ev) ''session_id'')
        \<union> set_option (get_str (ev_properties ev) ''source_session_id''))"

definition observed_environments :: "GraphSnapshot \<Rightarrow> EdgeRecord \<Rightarrow> string set" where
  "observed_environments snapshot edge =
     (\<Union>ev\<in>{ev \<in> set (snap_evidence snapshot). is_runtime_evidence_of edge ev}.
        env_strings ev ''name'' \<union> env_strings ev ''runtime'' \<union> env_strings ev ''region'')"

lemma context_sessions:
  "set (ctx_session_ids (runtime_context_for_edge snapshot edge)
      @ ctx_source_session_ids (runtime_context_for_edge snapshot edge)) = observed_sessions snapshot edge"
  by (auto simp: runtime_context_for_edge_def Let_def fold_runtime_sets empty_context_def observed_sessions_def)

lemma context_environments:
  "set (ctx_environment_names (runtime_context_for_edge snapshot edge)
      @ ctx_runtimes (runtime_context_for_edge snapshot edge)
      @ ctx_regions (runtime_context_for_edge snapshot edge)) = observed_environments snapshot edge"
  by (auto simp: runtime_context_for_edge_def Let_def fold_runtime_environment_sets empty_context_def
      observed_environments_def)

lemma search_any:
  "sorted xs \<Longrightarrow> list_ex (\<lambda>v. binary_search xs v \<noteq> None) vs \<longleftrightarrow> set vs \<inter> set xs \<noteq> {}"
  by (auto simp: list_ex_iff binary_search_None)

lemma matches_edge_spec:
  assumes "wf_query_filter f"
  shows "matches_edge f snapshot edge \<longleftrightarrow>
    (filter_phases f = [] \<or> edge_phase edge \<in> set (filter_phases f))
    \<and> (filter_profiles f = [] \<or> edge_profile_id edge \<in> set (filter_profiles f))
    \<and> (filter_sessions f = [] \<and> filter_environments f = []
       \<or> edge_phase edge = ''runtime''
         \<and> (filter_sessions f = [] \<or> observed_sessions snapshot edge \<inter> set (filter_sessions f) \<noteq> {})
         \<and> (filter_environments f = []
             \<or> observed_environments snapshot edge \<inter> set (filter_environments f) \<noteq> {}))"
proof -
  have "sorted (filter_sessions f)" "sorted (filter_environments f)"
    and ph: "sorted (filter_phases f)" "sorted (filter_profiles f)"
    using assms by (simp_all add: wf_query_filter_def)
  note search = this(1,2) [THEN search_any]
  show ?thesis
    unfolding matches_edge_def Let_def search context_sessions context_environments
      binary_search_None [OF ph(1)] binary_search_None [OF ph(2)]
    by (simp add: if_bool_eq_conj) blast
qed

section \<open>Correctness\<close>

text \<open>
  C22: what a runtime filter keeps, from the four lists of requested values to the edge. Construction trims, sorts and
  deduplicates the values, so that matching can bisect. The resulting filter keeps an edge exactly if the phase of the
  edge is one of the requested phases and its profile one of the requested profiles (an empty list requests all), and,
  when sessions or environments are requested, the edge is a runtime edge and its runtime evidence names a
  requested session and names a requested environment, as name, runtime or region. Session and environment may come
  from different evidence records of the edge.
\<close>

theorem matches_edge_iff:
  assumes "new_query_filter phases profiles sessions environments = Inr f"
  shows "matches_edge f snapshot edge \<longleftrightarrow>
    (phases = [] \<or> edge_phase edge \<in> trim ` set phases)
    \<and> (profiles = [] \<or> edge_profile_id edge \<in> trim ` set profiles)
    \<and> (sessions = [] \<and> environments = []
       \<or> edge_phase edge = ''runtime''
         \<and> (sessions = [] \<or> observed_sessions snapshot edge \<inter> trim ` set sessions \<noteq> {})
         \<and> (environments = [] \<or> observed_environments snapshot edge \<inter> trim ` set environments \<noteq> {}))"
proof -
  have "filter_phases f = sort_dedup (map trim phases)" "filter_profiles f = sort_dedup (map trim profiles)"
    "filter_sessions f = sort_dedup (map trim sessions)" "filter_environments f = sort_dedup (map trim environments)"
    using assms by (auto simp: new_query_filter_def sum_bind_Inr_iff normalize_query_filter_Inr)
  then show ?thesis
    using matches_edge_spec [OF new_query_filter_wf [OF assms], of snapshot edge] by simp
qed

definition example_runtime_edge :: EdgeRecord where
  "example_runtime_edge = (example_edge ''e1'' ''a'' ''b'')\<lparr>edge_phase := ''runtime''\<rparr>"

definition example_runtime_evidence :: "string \<Rightarrow> string \<Rightarrow> EvidenceRecord" where
  "example_runtime_evidence session env = (example_evidence ''e1'' 0)\<lparr>ev_kind := ''runtime'',
     ev_properties := Object [(''session_id'', String session),
       (''environment'', Object [(''name'', String env)])]\<rparr>"

lemma trim_filter_examples: "trim ''runtime'' = ''runtime''" "trim '' s1'' = ''s1''" "trim ''prod'' = ''prod''"
  by (simp_all add: trim_def trim_start.simps trim_end.simps white_space_len.simps is_white_space_def)

theorem matches_edge_iff_witness:
  "\<exists>f. new_query_filter [''runtime''] [] ['' s1''] [''prod''] = Inr f \<and>
     matches_edge f (example_snapshot [] [] [example_runtime_evidence ''s1'' ''prod'']) example_runtime_edge"
proof -
  obtain f where f: "new_query_filter [''runtime''] [] ['' s1''] [''prod''] = Inr f"
    by (simp add: new_query_filter_def normalize_query_filter_def trim_filter_examples)
  have "matches_edge f (example_snapshot [] [] [example_runtime_evidence ''s1'' ''prod'']) example_runtime_edge"
    by (simp add: matches_edge_iff [OF f] trim_filter_examples observed_sessions_def observed_environments_def env_strings_def
        is_runtime_evidence_of_def example_runtime_edge_def example_runtime_evidence_def example_defs get_str_def)
  with f show ?thesis by blast
qed

text \<open>
  An edge is kept whenever one of its runtime evidence records is: if the phase and the profile of a
  runtime edge are requested and some runtime evidence of the edge matches the filter, the edge matches.
\<close>

theorem matching_evidence_keeps_edge:
  assumes "wf_query_filter f"
    and "filter_phases f = [] \<or> edge_phase edge \<in> set (filter_phases f)"
    and "filter_profiles f = [] \<or> edge_profile_id edge \<in> set (filter_profiles f)"
    and "edge_phase edge = ''runtime''"
    and "ev \<in> set (snap_evidence snapshot)" and "is_runtime_evidence_of edge ev" and "matches_evidence f ev"
  shows "matches_edge f snapshot edge"
proof -
  let ?p = "ev_properties ev"
  have s: "filter_sessions f = [] \<or> (set_option (get_str ?p ''session_id'')
      \<union> set_option (get_str ?p ''source_session_id'')) \<inter> set (filter_sessions f) \<noteq> {}"
    using assms(6,7)
    by (auto simp: matches_evidence_def is_runtime_evidence_of_def session_property_matches_def property_in_iff)
  have e: "filter_environments f = [] \<or> (env_strings ev ''name'' \<union> env_strings ev ''runtime''
      \<union> env_strings ev ''region'') \<inter> set (filter_environments f) \<noteq> {}"
    using assms(6,7)
    by (simp add: matches_evidence_def is_runtime_evidence_of_def environment_property_matches_iff)
  have "filter_sessions f = [] \<or> observed_sessions snapshot edge \<inter> set (filter_sessions f) \<noteq> {}"
    using s assms(5,6) unfolding observed_sessions_def by blast
  moreover have "filter_environments f = []
      \<or> observed_environments snapshot edge \<inter> set (filter_environments f) \<noteq> {}"
    using e assms(5,6) unfolding observed_environments_def by blast
  ultimately show ?thesis
    using assms(2-4) unfolding matches_edge_spec [OF assms(1)] by blast
qed

theorem matching_evidence_keeps_edge_witness:
  "matches_edge \<lparr>filter_phases = [], filter_profiles = [], filter_sessions = [''s1''], filter_environments = [''prod'']\<rparr>
     (example_snapshot [] [] [example_runtime_evidence ''s1'' ''prod'']) example_runtime_edge"
  by (rule matching_evidence_keeps_edge [where ev = "example_runtime_evidence ''s1'' ''prod''"])
    (simp_all add: wf_query_filter_def is_runtime_evidence_of_def matches_evidence_def
      session_property_matches_def environment_property_matches_def property_in_def get_str_def
      example_runtime_edge_def example_runtime_evidence_def example_defs)

end
