(* ===== verification/Selector.thy ===== *)
theory Selector
  imports Query_Filter
begin

text \<open>
  Selector resolution: \<open>resolve_selector\<close> and its helpers in \<^verbatim>\<open>crates/depgraph-core/src/query.rs\<close>.

  A selector such as \<open>path:src/app.ts\<close> is resolved in one bounded, cancellable scan of the snapshot's nodes
  that keeps three groups of candidates, each as a count and its ten smallest members. The scan is modelled
  step by step, with its work counter and its polls; \<open>selector_candidates\<close> is the reference: the list of
  nodes the selector denotes.
\<close>

section \<open>Work and candidates\<close>

record SelectorWork =
  sw_used :: nat
  sw_maximum :: nat

definition new_selector_work :: "nat \<Rightarrow> SelectorWork" where
  "new_selector_work maximum = \<lparr>sw_used = 0, sw_maximum = maximum\<rparr>"

definition selector_work_step :: "canceller \<Rightarrow> SelectorWork \<times> nat \<Rightarrow> query_error + SelectorWork \<times> nat" where
  "selector_work_step cancel = (\<lambda>(w, polls).
     if cancel polls then Inl SelectorPreprocessingCancelled
     else if sw_used w \<ge> sw_maximum w then Inl (SelectorPreprocessingExhausted (sw_maximum w))
     else Inr (w\<lparr>sw_used := sw_used w + 1\<rparr>, Suc polls))"

record SelectorCandidates =
  sc_count :: nat
  sc_first :: "(string \<times> nat, NodeRecord) bmap"

definition no_candidates :: SelectorCandidates where
  "no_candidates = \<lparr>sc_count = 0, sc_first = []\<rparr>"

definition candidates_insert :: "NodeRecord \<Rightarrow> nat \<Rightarrow> SelectorCandidates \<Rightarrow> query_error + SelectorCandidates" where
  "candidates_insert node ordinal c =
     (case checked_add (sc_count c) 1 of
        None \<Rightarrow> Inl (SelectorPreprocessingExhausted u64_max)
      | Some n \<Rightarrow>
          let key = (node_id node, ordinal); c = c\<lparr>sc_count := n\<rparr> in
          if length (sc_first c) < 10 then Inr (c\<lparr>sc_first := bm_insert key node (sc_first c)\<rparr>)
          else if (case bm_last_key (sc_first c) of None \<Rightarrow> False | Some k \<Rightarrow> key < k)
          then Inr (c\<lparr>sc_first := bm_insert key node (bm_pop_last (sc_first c))\<rparr>)
          else Inr c)"

section \<open>Matching one node\<close>

definition SELECTOR_PREFIXES :: "string list" where
  "SELECTOR_PREFIXES = [''id'', ''path'', ''package'', ''route'', ''symbol'', ''type'']"

definition parse_selector :: "string \<Rightarrow> string \<times> string" where
  "parse_selector selector =
     (case split_once (CHR '':'') selector of
        Some (prefix, query) \<Rightarrow>
          if prefix \<in> set SELECTOR_PREFIXES then (prefix, trim query) else (''bare'', trim selector)
      | None \<Rightarrow> (''bare'', trim selector))"

definition locator_selector :: "string \<Rightarrow> string option" where
  "locator_selector selector =
     (let (kind, query) = parse_selector selector in
      if kind \<noteq> ''bare'' \<and> kind \<noteq> ''id'' \<and> starts_with query ''//'' then Some (trim selector) else None)"

definition is_external_package_node :: "NodeRecord \<Rightarrow> bool" where
  "is_external_package_node node \<longleftrightarrow>
     node_kind node = ''external_system'' \<and>
     list_all (\<lambda>key. case get_str (node_properties node) key of None \<Rightarrow> False | Some v \<Rightarrow> v \<noteq> [])
       [''name'', ''package_manager'']"

definition package_identity_matches :: "NodeRecord \<Rightarrow> string \<Rightarrow> bool" where
  "package_identity_matches node query =
     (case get_str (node_properties node) ''name'' of
        None \<Rightarrow> False
      | Some name \<Rightarrow>
          name = query \<or>
          (case rsplit_once (CHR ''@'') query of
             None \<Rightarrow> False
           | Some (query_name, query_version) \<Rightarrow>
               query_name = name \<and> get_str (node_properties node) ''version'' = Some query_version))"

definition kind_matches :: "string \<Rightarrow> NodeRecord \<Rightarrow> bool" where
  "kind_matches kind node =
     (if kind = ''package'' then node_kind node = ''package_instance'' \<or> is_external_package_node node
      else if kind = ''route'' then node_kind node = ''route''
      else if kind = ''path'' then node_kind node = ''file''
      else if kind = ''symbol'' then node_kind node = ''symbol''
      else if kind = ''type'' then node_kind node = ''type''
      else True)"

definition node_values :: "NodeRecord \<Rightarrow> string list" where
  "node_values node = [node_id node, node_locator node, node_display_name node]"

definition exact_match :: "string \<Rightarrow> string \<Rightarrow> NodeRecord \<Rightarrow> bool" where
  "exact_match kind query node =
     (let path_matches = kind = ''path'' \<and> get_str (node_properties node) ''path'' = Some query;
          resolver_identity_matches = kind \<in> {''symbol'', ''type''} \<and>
            Option.bind (json_get (node_properties node) ''canonical_identity'')
              (\<lambda>identity. get_str identity ''resolver_identity'') = Some query;
          package_identity_matches = kind = ''package'' \<and> package_identity_matches node query
      in if kind = ''id'' then node_id node = query
         else path_matches \<or> resolver_identity_matches \<or> package_identity_matches
           \<or> list_ex (\<lambda>value. value = query) (node_values node))"

definition partial_match :: "string \<Rightarrow> NodeRecord \<Rightarrow> bool" where
  "partial_match query node = list_ex (\<lambda>value. str_contains value query) (node_values node)"

section \<open>The scan\<close>

record selector_scan =
  sel_work :: "SelectorWork \<times> nat"
  sel_exact :: SelectorCandidates
  sel_partial :: SelectorCandidates
  sel_locator :: SelectorCandidates

definition sel_step :: "canceller \<Rightarrow> selector_scan \<Rightarrow> query_error + selector_scan" where
  "sel_step cancel st = sum_bind (selector_work_step cancel (sel_work st)) (\<lambda>w. Inr (st\<lparr>sel_work := w\<rparr>))"

definition insert_locator :: "canceller \<Rightarrow> NodeRecord \<Rightarrow> nat \<Rightarrow> selector_scan \<Rightarrow> query_error + selector_scan" where
  "insert_locator cancel node ordinal st =
     sum_bind (sel_step cancel st) (\<lambda>st.
     sum_bind (candidates_insert node ordinal (sel_locator st)) (\<lambda>c. Inr (st\<lparr>sel_locator := c\<rparr>)))"

definition insert_exact :: "canceller \<Rightarrow> NodeRecord \<Rightarrow> nat \<Rightarrow> selector_scan \<Rightarrow> query_error + selector_scan" where
  "insert_exact cancel node ordinal st =
     sum_bind (sel_step cancel st) (\<lambda>st.
     sum_bind (candidates_insert node ordinal (sel_exact st)) (\<lambda>c. Inr (st\<lparr>sel_exact := c\<rparr>)))"

definition insert_partial :: "canceller \<Rightarrow> NodeRecord \<Rightarrow> nat \<Rightarrow> selector_scan \<Rightarrow> query_error + selector_scan" where
  "insert_partial cancel node ordinal st =
     sum_bind (sel_step cancel st) (\<lambda>st.
     sum_bind (candidates_insert node ordinal (sel_partial st)) (\<lambda>c. Inr (st\<lparr>sel_partial := c\<rparr>)))"

definition scan_node ::
  "canceller \<Rightarrow> string \<Rightarrow> nat \<times> NodeRecord \<Rightarrow> selector_scan \<Rightarrow> query_error + selector_scan" where
  "scan_node cancel selector = (\<lambda>(ordinal, node) st.
     let (kind, query) = parse_selector selector in
     sum_bind (sel_step cancel st) (\<lambda>st.
     sum_bind (if locator_selector selector = Some (node_locator node)
               then insert_locator cancel node ordinal st else Inr st) (\<lambda>st.
     if \<not> kind_matches kind node then Inr st
     else if exact_match kind query node then insert_exact cancel node ordinal st
     else if partial_match query node then insert_partial cancel node ordinal st
     else Inr st)))"

definition candidate_choice :: "NodeRecord \<Rightarrow> string" where
  "candidate_choice node = node_locator node @ '' ('' @ node_kind node @ '', id:'' @ node_id node @ '')''"

definition choose_unique ::
  "externals \<Rightarrow> canceller \<Rightarrow> string \<Rightarrow> SelectorCandidates \<Rightarrow> SelectorWork \<times> nat
     \<Rightarrow> query_error + NodeRecord \<times> nat" where
  "choose_unique E cancel selector c w =
     (if sc_count c = 0 then
        Inl (SelectorResolutionFailure NoMatch None
          (''selector '' @ debug_str E selector @ '' did not match any node''))
      else if sc_count c = 1 then
        sum_bind (selector_work_step cancel w) (\<lambda>(_, polls).
          case sc_first c of
            [] \<Rightarrow> Inl (Message ''selector candidate disappeared during finalization'')
          | (_, node) # _ \<Rightarrow> Inr (node, polls))
      else
        sum_bind (fold_m (\<lambda>node (w, choices). sum_bind (selector_work_step cancel w) (\<lambda>w.
            Inr (w, choices @ [candidate_choice node]))) (bm_values (sc_first c)) (w, [])) (\<lambda>(_, choices).
          Inl (SelectorResolutionFailure Ambiguous None
            (''selector '' @ debug_str E selector
              @ '' is ambiguous; select a candidate with id:<stable-id>. candidates: ''
              @ str_join '', '' choices))))"

definition initial_scan :: "nat \<Rightarrow> nat \<Rightarrow> selector_scan" where
  "initial_scan maximum_work polls =
     \<lparr>sel_work = (new_selector_work maximum_work, polls), sel_exact = no_candidates,
      sel_partial = no_candidates, sel_locator = no_candidates\<rparr>"

definition scan_nodes ::
  "canceller \<Rightarrow> GraphSnapshot \<Rightarrow> string \<Rightarrow> nat \<Rightarrow> nat \<Rightarrow> query_error + selector_scan" where
  "scan_nodes cancel snapshot selector maximum_work polls =
     fold_m (scan_node cancel selector) (List.enumerate 0 (snap_nodes snapshot)) (initial_scan maximum_work polls)"

definition chosen_group :: "string \<Rightarrow> selector_scan \<Rightarrow> SelectorCandidates" where
  "chosen_group selector st =
     (if sc_count (sel_locator st) \<noteq> 0 then sel_locator st
      else if sc_count (sel_exact st) = 0 \<and> fst (parse_selector selector) \<noteq> ''id'' then sel_partial st
      else sel_exact st)"

text \<open>The result comes with the number of polls made, for the code that goes on polling.\<close>

definition resolve_selector_bounded_cancellable ::
  "externals \<Rightarrow> canceller \<Rightarrow> GraphSnapshot \<Rightarrow> string \<Rightarrow> nat \<Rightarrow> nat \<Rightarrow> query_error + NodeRecord \<times> nat" where
  "resolve_selector_bounded_cancellable E cancel snapshot selector maximum_work polls =
     (if snd (parse_selector selector) = [] then Inl (Message ''selector must not be empty'')
      else sum_bind (scan_nodes cancel snapshot selector maximum_work polls) (\<lambda>st.
        choose_unique E cancel selector (chosen_group selector st) (sel_work st)))"

definition resolve_selector :: "externals \<Rightarrow> GraphSnapshot \<Rightarrow> string \<Rightarrow> query_error + NodeRecord" where
  "resolve_selector E snapshot selector =
     sum_bind (resolve_selector_bounded_cancellable E never snapshot selector
       MAX_GRAPH_SERVICE_PREPROCESSING_WORK_ITEMS 0) (\<lambda>(node, _). Inr node)"

section \<open>What a selector denotes\<close>

definition locator_group :: "string \<Rightarrow> NodeRecord list \<Rightarrow> NodeRecord list" where
  "locator_group selector ns = filter (\<lambda>n. locator_selector selector = Some (node_locator n)) ns"

definition is_exact :: "string \<Rightarrow> NodeRecord \<Rightarrow> bool" where
  "is_exact selector n \<longleftrightarrow>
     (let (kind, query) = parse_selector selector in kind_matches kind n \<and> exact_match kind query n)"

definition is_partial :: "string \<Rightarrow> NodeRecord \<Rightarrow> bool" where
  "is_partial selector n \<longleftrightarrow>
     (let (kind, query) = parse_selector selector in
      kind_matches kind n \<and> \<not> exact_match kind query n \<and> partial_match query n)"

definition selector_candidates :: "string \<Rightarrow> NodeRecord list \<Rightarrow> NodeRecord list" where
  "selector_candidates selector ns =
     (if locator_group selector ns \<noteq> [] then locator_group selector ns
      else if filter (is_exact selector) ns = [] \<and> fst (parse_selector selector) \<noteq> ''id''
      then filter (is_partial selector) ns
      else filter (is_exact selector) ns)"

section \<open>The ten smallest candidates\<close>

lemma take_bm_insert: "take n (bm_insert k v m) = take n (bm_insert k v (take n m))"
proof (induction m arbitrary: n)
  case (Cons e es)
  then show ?case by (cases n) (auto simp: take_Cons' min_def)
qed simp

lemma bm_insert_before_last:
  assumes "bm_invar m" and "m \<noteq> []" and "k < fst (last m)"
  shows "bm_insert k v m = bm_insert k v (butlast m) @ [last m]"
  using assms
proof (induction m)
  case (Cons e es)
  show ?case
  proof (cases "es = []")
    case True
    with Cons.prems show ?thesis by auto
  next
    case False
    with Cons.prems have "bm_invar es" "k < fst (last es)" by (auto simp: bm_invar_def)
    with Cons.IH False have IH: "bm_insert k v es = bm_insert k v (butlast es) @ [last es]" by simp
    have "fst e < fst (last es)" using Cons.prems False by (auto simp: bm_invar_def)
    show ?thesis using IH False by auto
  qed
qed simp

lemma bm_insert_after_last:
  assumes "bm_invar m" and "m \<noteq> [] \<Longrightarrow> fst (last m) < k"
  shows "bm_insert k v m = m @ [(k, v)]"
  using assms
proof (induction m)
  case (Cons e es)
  have "fst e < k"
  proof (cases "es = []")
    case False
    then have "fst e < fst (last es)" using Cons.prems(1) by (auto simp: bm_invar_def)
    also have "\<dots> < k" using Cons.prems(2) False by simp
    finally show ?thesis .
  qed (use Cons.prems(2) in simp)
  moreover have "bm_insert k v es = es @ [(k, v)]"
    using Cons by (cases "es = []") (auto simp: bm_invar_def)
  ultimately show ?case by simp
qed simp

type_synonym candidate_entry = "(string \<times> nat) \<times> NodeRecord"

text \<open>A group of candidates stands for the entries inserted so far.\<close>

definition represents :: "SelectorCandidates \<Rightarrow> candidate_entry list \<Rightarrow> bool" where
  "represents c ins \<longleftrightarrow> sc_count c = length ins \<and> sc_first c = take 10 (bm.collect ins [])"

lemma represents_no_candidates: "represents no_candidates []"
  by (simp add: represents_def no_candidates_def)

lemma bm_invar_take: "bm_invar m \<Longrightarrow> bm_invar (take n m)"
  by (simp add: bm_invar_def take_map [symmetric] sorted_wrt_take)

lemma collect_invar [simp]: "bm_invar (bm.collect ins [])"
  by (rule bm.invar_collect) simp

lemma keys_collect: "set (map fst (bm.collect ins [])) = fst ` set ins"
  by (induction ins rule: rev_induct) (auto simp only: fold_append fold.simps comp_apply id_apply
      case_prod_beta keys_bm_insert set_append image_Un list.set image_insert image_empty Un_insert_right
      Un_empty_right list.map)

lemma candidates_insert_Inr:
  assumes "candidates_insert node i c = Inr c'"
  shows "sc_count c' = Suc (sc_count c)"
    and "sc_first c' =
      (let k = (node_id node, i); t = sc_first c in
       if length t < 10 then bm_insert k node t
       else if t \<noteq> [] \<and> k < fst (last t) then bm_insert k node (butlast t) else t)"
  using assms
  by (auto simp: candidates_insert_def checked_add_def Let_def bm_last_key_def bm_pop_last_def
      split: option.splits if_splits)

text \<open>Inserting a new key into a full window of the ten smallest entries.\<close>

lemma window_insert:
  assumes inv: "bm_invar t" and len: "length t \<le> n" and "0 < n" and new: "k \<notin> fst ` set t"
  shows "take n (bm_insert k v t) =
    (if length t < n then bm_insert k v t
     else if t \<noteq> [] \<and> k < fst (last t) then bm_insert k v (butlast t) else t)"
proof -
  have lt: "length (bm_insert k v t) = Suc (length t)"
    using length_bm_insert [OF inv, of k v] new
    by (auto simp: bm_contains_key_def bm_get_def map_of_eq_None_iff)
  show ?thesis
  proof (cases "length t < n")
    case True
    with lt show ?thesis by simp
  next
    case False
    with len assms(3) have n: "length t = n" "t \<noteq> []" by auto
    then have "fst (last t) \<noteq> k" using new by (metis imageI last_in_set)
    then consider "k < fst (last t)" | "fst (last t) < k" by (metis neqE)
    then show ?thesis
    proof cases
      case 1
      note split = bm_insert_before_last [OF inv n(2) 1, of v]
      with lt n have "length (bm_insert k v (butlast t)) = n" by simp
      with split 1 n show ?thesis by simp
    next
      case 2
      with n show ?thesis using bm_insert_after_last [OF inv, of k v] by auto
    qed
  qed
qed

lemma candidates_insert_represents:
  assumes rep: "represents c ins" and fresh: "(node_id node, i) \<notin> fst ` set ins"
    and run: "candidates_insert node i c = Inr c'"
  shows "represents c' (ins @ [((node_id node, i), node)])"
proof -
  let ?k = "(node_id node, i)" and ?m = "bm.collect ins []"
  let ?t = "take 10 ?m"
  have "set ?t \<subseteq> set ?m" by (rule set_take_subset)
  then have notin: "?k \<notin> fst ` set ?t"
    using fresh keys_collect [of ins] by auto
  have "sc_first c' = take 10 (bm_insert ?k node ?t)"
    using window_insert [of ?t 10 ?k node] notin candidates_insert_Inr(2) [OF run] rep
    by (simp add: bm_invar_take represents_def Let_def)
  also have "\<dots> = take 10 (bm_insert ?k node ?m)"
    by (rule take_bm_insert [symmetric])
  finally show ?thesis
    using candidates_insert_Inr(1) [OF run] rep by (simp add: represents_def)
qed

lemma candidates_insert_total:
  "represents c ins \<Longrightarrow> length ins < u64_max \<Longrightarrow> \<exists>c'. candidates_insert node i c = Inr c'"
  by (auto simp: represents_def candidates_insert_def checked_add_def Let_def)

lemma collect_eq_sort:
  assumes "distinct (map fst ins)"
  shows "bm.collect ins [] = sort_key fst ins"
proof -
  let ?m = "bm.collect ins []"
  have "set ?m = set ins" using assms by (rule bm.entries_collect_distinct)
  moreover have "sorted (map fst ?m)" "distinct (map fst ?m)"
    using collect_invar [of ins] by (simp_all add: bm_invar_def strict_sorted_iff)
  ultimately show ?thesis
    using assms map_sorted_distinct_set_unique [of fst ?m "sort_key fst ins"]
    by (simp add: distinct_map)
qed

section \<open>The scan keeps the three groups\<close>

definition group_entries :: "(NodeRecord \<Rightarrow> bool) \<Rightarrow> (nat \<times> NodeRecord) list \<Rightarrow> candidate_entry list" where
  "group_entries P xs = map (\<lambda>(i, n). ((node_id n, i), n)) (filter (\<lambda>(i, n). P n) xs)"

definition is_located :: "string \<Rightarrow> NodeRecord \<Rightarrow> bool" where
  "is_located selector n \<longleftrightarrow> locator_selector selector = Some (node_locator n)"

lemma group_entries_snoc:
  "group_entries P (xs @ [(i, n)]) = group_entries P xs @ (if P n then [((node_id n, i), n)] else [])"
  by (simp add: group_entries_def)

lemma length_group_entries: "length (group_entries P xs) \<le> length xs"
  by (simp add: group_entries_def)

lemma fresh_group_entry: "i \<notin> fst ` set xs \<Longrightarrow> (k, i) \<notin> fst ` set (group_entries P xs)"
  by (force simp: group_entries_def)

definition scan_inv :: "string \<Rightarrow> (nat \<times> NodeRecord) list \<Rightarrow> selector_scan \<Rightarrow> bool" where
  "scan_inv selector xs st \<longleftrightarrow>
     represents (sel_exact st) (group_entries (is_exact selector) xs)
     \<and> represents (sel_partial st) (group_entries (is_partial selector) xs)
     \<and> represents (sel_locator st) (group_entries (is_located selector) xs)"

lemmas insert_defs = insert_exact_def insert_partial_def insert_locator_def sel_step_def

lemma scan_node_inv:
  assumes inv: "scan_inv selector xs st" and fresh: "i \<notin> fst ` set xs"
    and run: "scan_node cancel selector (i, n) st = Inr st'"
  shows "scan_inv selector (xs @ [(i, n)]) st'"
proof -
  note add = candidates_insert_represents [OF _ fresh_group_entry [OF fresh]]
  obtain kind query where kq: "parse_selector selector = (kind, query)" by fastforce
  from run kq obtain st1 st2 where
      1: "sel_step cancel st = Inr st1" and
      2: "(if is_located selector n then insert_locator cancel n i st1 else Inr st1) = Inr st2" and
      3: "(if \<not> kind_matches kind n then Inr st2
           else if exact_match kind query n then insert_exact cancel n i st2
           else if partial_match query n then insert_partial cancel n i st2 else Inr st2) = Inr st'"
    by (auto simp: scan_node_def Let_def bind_simps is_located_def)
  have loc: "represents (sel_locator st2) (group_entries (is_located selector) (xs @ [(i, n)]))"
    "sel_exact st2 = sel_exact st" "sel_partial st2 = sel_partial st"
    using 1 2 inv add by (auto simp: insert_defs bind_simps scan_inv_def group_entries_snoc split: if_splits)
  have same: "sel_locator st' = sel_locator st2"
    using 3 by (auto simp: insert_defs bind_simps split: if_splits)
  have "represents (sel_exact st') (group_entries (is_exact selector) (xs @ [(i, n)]))"
    using 3 loc(2) inv add kq
    by (auto simp: insert_defs bind_simps scan_inv_def group_entries_snoc is_exact_def split: if_splits)
  moreover have "represents (sel_partial st') (group_entries (is_partial selector) (xs @ [(i, n)]))"
    using 3 loc(3) inv add kq
    by (auto simp: insert_defs bind_simps scan_inv_def group_entries_snoc is_partial_def split: if_splits)
  ultimately show ?thesis using loc(1) same by (simp add: scan_inv_def)
qed

lemma initial_scan_inv: "scan_inv selector [] (initial_scan maximum polls)"
  by (simp add: scan_inv_def initial_scan_def group_entries_def represents_no_candidates)

lemma enumerate_fresh: "List.enumerate 0 ns = xs @ (i, n) # ys \<Longrightarrow> i \<notin> fst ` set xs"
proof -
  assume "List.enumerate 0 ns = xs @ (i, n) # ys"
  then have "distinct (map fst (xs @ (i, n) # ys))"
    by (metis distinct_upt map_fst_enumerate)
  then show ?thesis by auto
qed

lemma scan_nodes_inv:
  assumes "scan_nodes cancel snapshot selector maximum polls = Inr st"
  shows "scan_inv selector (List.enumerate 0 (snap_nodes snapshot)) st"
proof (rule fold_m_induct [OF assms [unfolded scan_nodes_def]])
  show "scan_inv selector [] (initial_scan maximum polls)" by (rule initial_scan_inv)
  fix xs x ys u v
  assume "List.enumerate 0 (snap_nodes snapshot) = xs @ x # ys" and "scan_inv selector xs u"
    and "scan_node cancel selector x u = Inr v"
  then show "scan_inv selector (xs @ [x]) v"
    using scan_node_inv [of selector xs u "fst x" cancel "snd x" v] enumerate_fresh [of _ xs "fst x" "snd x" ys]
    by simp
qed

text \<open>Each node costs at most three work items, so a large enough budget is never exhausted.\<close>

definition work_inv :: "nat \<Rightarrow> nat \<Rightarrow> selector_scan \<Rightarrow> bool" where
  "work_inv maximum n st \<longleftrightarrow> sw_maximum (fst (sel_work st)) = maximum \<and> sw_used (fst (sel_work st)) \<le> 3 * n"

lemma sel_step_never:
  "sw_used (fst (sel_work st)) < sw_maximum (fst (sel_work st)) \<Longrightarrow>
   sel_step never st = Inr (st\<lparr>sel_work :=
     ((fst (sel_work st))\<lparr>sw_used := sw_used (fst (sel_work st)) + 1\<rparr>, Suc (snd (sel_work st)))\<rparr>)"
  by (simp add: sel_step_def selector_work_step_def never_def case_prod_beta)

lemma insert_never:
  assumes "sw_used (fst (sel_work st)) < sw_maximum (fst (sel_work st))"
  shows "represents (sel_locator st) ins \<Longrightarrow> length ins < u64_max \<Longrightarrow>
      \<exists>st'. insert_locator never node i st = Inr st' \<and> sel_work st' =
        ((fst (sel_work st))\<lparr>sw_used := sw_used (fst (sel_work st)) + 1\<rparr>, Suc (snd (sel_work st)))
        \<and> sel_exact st' = sel_exact st \<and> sel_partial st' = sel_partial st"
    and "represents (sel_exact st) ins \<Longrightarrow> length ins < u64_max \<Longrightarrow>
      \<exists>st'. insert_exact never node i st = Inr st' \<and> sel_work st' =
        ((fst (sel_work st))\<lparr>sw_used := sw_used (fst (sel_work st)) + 1\<rparr>, Suc (snd (sel_work st)))"
    and "represents (sel_partial st) ins \<Longrightarrow> length ins < u64_max \<Longrightarrow>
      \<exists>st'. insert_partial never node i st = Inr st' \<and> sel_work st' =
        ((fst (sel_work st))\<lparr>sw_used := sw_used (fst (sel_work st)) + 1\<rparr>, Suc (snd (sel_work st)))"
  using sel_step_never [OF assms] candidates_insert_total [of _ ins node i]
  by (fastforce simp: insert_locator_def insert_exact_def insert_partial_def)+

lemma scan_node_total:
  assumes inv: "scan_inv selector xs st" and work: "work_inv maximum (length xs) st"
    and big: "3 * Suc (length xs) \<le> maximum" and small: "length xs < u64_max"
  shows "\<exists>st'. scan_node never selector (i, n) st = Inr st' \<and> work_inv maximum (Suc (length xs)) st'"
proof -
  obtain kind query where kq: "parse_selector selector = (kind, query)" by fastforce
  have len: "length (group_entries P xs) < u64_max" for P
    using length_group_entries [of P xs] small by simp
  let ?st1 = "st\<lparr>sel_work := ((fst (sel_work st))\<lparr>sw_used := sw_used (fst (sel_work st)) + 1\<rparr>, Suc (snd (sel_work st)))\<rparr>"
  have 1: "sel_step never st = Inr ?st1"
    using work big by (intro sel_step_never) (simp add: work_inv_def)
  have room: "sw_used (fst (sel_work ?st1)) < sw_maximum (fst (sel_work ?st1))"
    using work big by (simp add: work_inv_def)
  obtain st2 where 2: "(if is_located selector n then insert_locator never n i ?st1 else Inr ?st1) = Inr st2"
      "sw_used (fst (sel_work st2)) \<le> 3 * length xs + 2" "sw_maximum (fst (sel_work st2)) = maximum"
      "sel_exact st2 = sel_exact st" "sel_partial st2 = sel_partial st"
    using insert_never(1) [OF room _ len [of "is_located selector"], of n i] inv work
    by (cases "is_located selector n") (auto simp: scan_inv_def work_inv_def)
  have room2: "sw_used (fst (sel_work st2)) < sw_maximum (fst (sel_work st2))"
    using 2 big by simp
  have 3: "\<exists>st'. insert_exact never n i st2 = Inr st' \<and> work_inv maximum (Suc (length xs)) st'"
    "\<exists>st'. insert_partial never n i st2 = Inr st' \<and> work_inv maximum (Suc (length xs)) st'"
    using insert_never(2) [OF room2 _ len [of "is_exact selector"], of n i]
      insert_never(3) [OF room2 _ len [of "is_partial selector"], of n i] inv 2
    by (auto simp: scan_inv_def work_inv_def)
  have "work_inv maximum (Suc (length xs)) st2" using 2 by (simp add: work_inv_def)
  with 1 2(1) 3 kq show ?thesis
    by (auto simp: scan_node_def Let_def is_located_def)
qed

lemma scan_nodes_total:
  assumes "3 * length (snap_nodes snapshot) \<le> maximum" and "length (snap_nodes snapshot) \<le> u64_max"
  shows "\<exists>st. scan_nodes never snapshot selector maximum polls = Inr st
    \<and> scan_inv selector (List.enumerate 0 (snap_nodes snapshot)) st
    \<and> work_inv maximum (length (snap_nodes snapshot)) st"
proof -
  let ?xs = "List.enumerate 0 (snap_nodes snapshot)"
  let ?I = "\<lambda>xs st. scan_inv selector xs st \<and> work_inv maximum (length xs) st"
  have "\<exists>st. fold_m (scan_node never selector) ?xs (initial_scan maximum polls) = Inr st \<and> ?I ?xs st"
  proof (rule fold_m_total)
    show "?I [] (initial_scan maximum polls)"
      using initial_scan_inv [of selector maximum polls]
      by (simp add: work_inv_def initial_scan_def new_selector_work_def)
    fix xs x ys u
    assume split: "?xs = xs @ x # ys" and I: "?I xs u"
    obtain i n where x: "x = (i, n)" by fastforce
    have "length xs < length (snap_nodes snapshot)"
      using arg_cong [OF split, of length] by simp
    then obtain v where v: "scan_node never selector x u = Inr v" "work_inv maximum (Suc (length xs)) v"
      using scan_node_total [of selector xs u maximum i n] I assms x by auto
    moreover have "scan_inv selector (xs @ [x]) v"
      using scan_node_inv [of selector xs u i never n v] enumerate_fresh [of _ xs i n ys] split I v(1) x
      by simp
    ultimately show "\<exists>v. scan_node never selector x u = Inr v \<and> ?I (xs @ [x]) v" by auto
  qed
  then show ?thesis by (simp add: scan_nodes_def)
qed

section \<open>The chosen group and its unique member\<close>

definition chosen_predicate :: "string \<Rightarrow> NodeRecord list \<Rightarrow> NodeRecord \<Rightarrow> bool" where
  "chosen_predicate selector ns =
     (if filter (is_located selector) ns \<noteq> [] then is_located selector
      else if filter (is_exact selector) ns = [] \<and> fst (parse_selector selector) \<noteq> ''id'' then is_partial selector
      else is_exact selector)"

text \<open>The candidates with their position in the snapshot.\<close>

definition ordinal_candidates :: "string \<Rightarrow> NodeRecord list \<Rightarrow> candidate_entry list" where
  "ordinal_candidates selector ns = group_entries (chosen_predicate selector ns) (List.enumerate 0 ns)"

lemma group_entries_nodes: "map snd (group_entries P (List.enumerate k ns)) = filter P ns"
  by (induction ns arbitrary: k) (auto simp: group_entries_def)

lemma ordinal_candidates_nodes: "map snd (ordinal_candidates selector ns) = selector_candidates selector ns"
  by (simp add: ordinal_candidates_def group_entries_nodes selector_candidates_def chosen_predicate_def
      locator_group_def is_located_def [abs_def])

lemma distinct_ordinal_candidates: "distinct (map fst (ordinal_candidates selector ns))"
proof -
  have "map (snd \<circ> fst) (group_entries P (List.enumerate k ns)) = map fst (filter (\<lambda>(i, n). P n) (List.enumerate k ns))" for P k
    by (simp add: group_entries_def case_prod_beta comp_def)
  moreover have "distinct (map fst (filter (\<lambda>(i, n). P n) (List.enumerate k ns)))" for P k
    by (metis distinct_map_filter distinct_upt map_fst_enumerate)
  ultimately show ?thesis
    by (metis ordinal_candidates_def distinct_map map_map)
qed

lemma chosen_group_represents:
  assumes "scan_inv selector (List.enumerate 0 ns) st"
  shows "represents (chosen_group selector st) (ordinal_candidates selector ns)"
proof -
  have "length (group_entries P (List.enumerate 0 ns)) = length (filter P ns)" for P
    using group_entries_nodes [of P 0 ns] by (metis length_map)
  then show ?thesis
    using assms
    by (auto simp: scan_inv_def represents_def chosen_group_def ordinal_candidates_def chosen_predicate_def)
qed

lemma choose_unique_Inr:
  assumes "represents c ins" and "distinct (map fst ins)" and "choose_unique E cancel selector c w = Inr (n, p)"
  shows "map snd ins = [n]"
proof -
  have one: "sc_count c = 1"
    using assms(3) by (auto simp: choose_unique_def bind_simps split: if_splits)
  then have "length ins = Suc 0" using assms(1) by (simp add: represents_def)
  then obtain k v where ins: "ins = [(k, v)]" by (auto simp: length_Suc_conv)
  with assms(1,3) one show ?thesis
    by (auto simp: choose_unique_def bind_simps represents_def)
qed

lemma choices_loop:
  assumes "sw_used (fst w) + length ns \<le> sw_maximum (fst w)"
  shows "\<exists>w'. fold_m (\<lambda>node (w, choices). sum_bind (selector_work_step never w) (\<lambda>w.
      Inr (w, choices @ [candidate_choice node]))) ns (w, acc) = Inr (w', acc @ map candidate_choice ns)"
  using assms
proof (induction ns arbitrary: w acc)
  case (Cons n ns)
  let ?w = "((fst w)\<lparr>sw_used := sw_used (fst w) + 1\<rparr>, Suc (snd w))"
  have "selector_work_step never w = Inr ?w"
    using Cons.prems by (cases w) (simp add: selector_work_step_def never_def)
  then show ?case
    using Cons.IH [of ?w "acc @ [candidate_choice n]"] Cons.prems by simp
qed simp

definition ambiguity_message :: "externals \<Rightarrow> string \<Rightarrow> candidate_entry list \<Rightarrow> string" where
  "ambiguity_message E selector ins =
     ''selector '' @ debug_str E selector @ '' is ambiguous; select a candidate with id:<stable-id>. candidates: ''
     @ str_join '', '' (map (candidate_choice \<circ> snd) (take 10 (sort_key fst ins)))"

lemma choose_unique_never:
  assumes rep: "represents c ins" and dist: "distinct (map fst ins)"
    and work: "sw_used (fst w) + 10 \<le> sw_maximum (fst w)"
  shows "choose_unique E never selector c w =
    (case map snd ins of
       [] \<Rightarrow> Inl (SelectorResolutionFailure NoMatch None (''selector '' @ debug_str E selector @ '' did not match any node''))
     | [n] \<Rightarrow> Inr (n, Suc (snd w))
     | _ \<Rightarrow> Inl (SelectorResolutionFailure Ambiguous None (ambiguity_message E selector ins)))"
proof -
  have cnt: "sc_count c = length ins" and first: "sc_first c = take 10 (sort_key fst ins)"
    using rep collect_eq_sort [OF dist] by (auto simp: represents_def)
  consider "ins = []" | k n where "ins = [(k, n)]" | a b rest where "ins = a # b # rest"
    by (metis list.exhaust prod.exhaust)
  then show ?thesis
  proof cases
    case 2
    with cnt first work show ?thesis
      by (cases w) (simp add: choose_unique_def selector_work_step_def never_def)
  next
    case 3
    have "length (bm_values (sc_first c)) \<le> 10" by (simp add: bm_values_def first)
    then obtain w' where "fold_m (\<lambda>node (w, choices). sum_bind (selector_work_step never w) (\<lambda>w.
        Inr (w, choices @ [candidate_choice node]))) (bm_values (sc_first c)) (w, [])
        = Inr (w', map candidate_choice (bm_values (sc_first c)))"
      using choices_loop [of w "bm_values (sc_first c)" "[]"] work by auto
    moreover have "map candidate_choice (bm_values (sc_first c)) =
        map (candidate_choice \<circ> snd) (take 10 (sort_key fst ins))"
      by (simp add: bm_values_def first)
    ultimately show ?thesis using 3 cnt by (simp add: choose_unique_def ambiguity_message_def)
  qed (simp add: choose_unique_def cnt)
qed

section \<open>Example selectors\<close>

lemma trim_examples: "trim ''a'' = ''a''" "trim ''b'' = ''b''"
  by (simp_all add: trim_def trim_start.simps trim_end.simps white_space_len.simps is_white_space_def)

lemma parse_examples: "parse_selector ''id:b'' = (''id'', ''b'')" "parse_selector ''path:a'' = (''path'', ''a'')"
  by (simp_all add: parse_selector_def split_once_def SELECTOR_PREFIXES_def trim_examples)

lemmas scan_eval = resolve_selector_bounded_cancellable_def scan_nodes_def scan_node_def sel_step_def
  selector_work_step_def never_def initial_scan_def new_selector_work_def no_candidates_def locator_selector_def
  kind_matches_def exact_match_def partial_match_def node_values_def insert_exact_def insert_partial_def
  candidates_insert_def chosen_group_def choose_unique_def checked_add_def u64_max_def

section \<open>Correctness\<close>

lemma resolve_denotes:
  assumes "resolve_selector_bounded_cancellable E cancel snapshot selector maximum_work polls = Inr (n, polls')"
  shows "selector_candidates selector (snap_nodes snapshot) = [n]"
proof -
  from assms obtain st where
      scan: "scan_nodes cancel snapshot selector maximum_work polls = Inr st" and
      choose: "choose_unique E cancel selector (chosen_group selector st) (sel_work st) = Inr (n, polls')"
    by (auto simp: resolve_selector_bounded_cancellable_def bind_simps split: if_splits)
  have "represents (chosen_group selector st) (ordinal_candidates selector (snap_nodes snapshot))"
    using chosen_group_represents [OF scan_nodes_inv [OF scan]] .
  from choose_unique_Inr [OF this distinct_ordinal_candidates choose] show ?thesis
    by (simp add: ordinal_candidates_nodes)
qed

text \<open>
  C13: a resolved selector is unambiguous: whatever the budget and whenever the scan is cancelled, a node is
  returned only if it is the one and only node the selector denotes in the snapshot.
\<close>

theorem resolve_selector_sound:
  assumes "resolve_selector_bounded_cancellable E cancel snapshot selector maximum_work polls = Inr (n, polls')"
  shows "selector_candidates selector (snap_nodes snapshot) = [n]"
  using assms by (rule resolve_denotes)

theorem resolve_selector_sound_witness:
  "selector_candidates ''id:b'' [example_node ''a'' ''file'', example_node ''b'' ''file''] = [example_node ''b'' ''file'']"
proof -
  let ?s = "example_snapshot [example_node ''a'' ''file'', example_node ''b'' ''file''] [] []"
  have "resolve_selector_bounded_cancellable example_externals never ?s ''id:b'' 5 0
      = Inr (example_node ''b'' ''file'', 4)"
    by (simp add: scan_eval parse_examples example_defs bm_insert.simps Let_def)
  from resolve_selector_sound [OF this] show ?thesis by (simp add: example_snapshot_def)
qed

lemma resolve_finds:
  assumes "3 * length (snap_nodes snapshot) + 10 \<le> maximum_work" and "length (snap_nodes snapshot) \<le> u64_max"
    and "snd (parse_selector selector) \<noteq> []"
  shows "map_sum id fst (resolve_selector_bounded_cancellable E never snapshot selector maximum_work polls) =
    (case selector_candidates selector (snap_nodes snapshot) of
       [] \<Rightarrow> Inl (SelectorResolutionFailure NoMatch None (''selector '' @ debug_str E selector @ '' did not match any node''))
     | [n] \<Rightarrow> Inr n
     | _ \<Rightarrow> Inl (SelectorResolutionFailure Ambiguous None
         (ambiguity_message E selector (ordinal_candidates selector (snap_nodes snapshot)))))"
proof -
  from scan_nodes_total [of snapshot maximum_work selector polls] assms obtain st where
      scan: "scan_nodes never snapshot selector maximum_work polls = Inr st" and
      inv: "scan_inv selector (List.enumerate 0 (snap_nodes snapshot)) st" and
      work: "work_inv maximum_work (length (snap_nodes snapshot)) st"
    by auto
  have "sw_used (fst (sel_work st)) + 10 \<le> sw_maximum (fst (sel_work st))"
    using work assms(1) by (simp add: work_inv_def)
  note choose = choose_unique_never [OF chosen_group_represents [OF inv] distinct_ordinal_candidates this]
  show ?thesis
    unfolding resolve_selector_bounded_cancellable_def scan
    using assms(3) by (simp add: choose ordinal_candidates_nodes split: list.split)
qed

text \<open>
  C14: with three work items per node and ten more, and no cancellation, resolution always terminates with
  the right answer: the node when the selector denotes exactly one, \<open>NoMatch\<close> when it denotes none, and
  \<open>Ambiguous\<close> otherwise, with a message that lists the ten smallest candidates by identifier and position,
  in that order, although the scan keeps only ten of them at any time.
\<close>

theorem resolve_selector_complete:
  assumes "3 * length (snap_nodes snapshot) + 10 \<le> maximum_work" and "length (snap_nodes snapshot) \<le> u64_max"
    and "snd (parse_selector selector) \<noteq> []"
  shows "map_sum id fst (resolve_selector_bounded_cancellable E never snapshot selector maximum_work polls) =
    (case selector_candidates selector (snap_nodes snapshot) of
       [] \<Rightarrow> Inl (SelectorResolutionFailure NoMatch None (''selector '' @ debug_str E selector @ '' did not match any node''))
     | [n] \<Rightarrow> Inr n
     | _ \<Rightarrow> Inl (SelectorResolutionFailure Ambiguous None
         (ambiguity_message E selector (ordinal_candidates selector (snap_nodes snapshot)))))"
  using assms by (rule resolve_finds)

theorem resolve_selector_complete_witness:
  "map_sum id fst (resolve_selector_bounded_cancellable example_externals never
      (example_snapshot [example_node ''a'' ''file'', example_node ''ab'' ''file''] [] []) ''path:a'' 16 0)
    = Inr (example_node ''a'' ''file'')"
proof -
  let ?s = "example_snapshot [example_node ''a'' ''file'', example_node ''ab'' ''file''] [] []"
  have "3 * length (snap_nodes ?s) + 10 \<le> 16" "length (snap_nodes ?s) \<le> u64_max"
    "snd (parse_selector ''path:a'') \<noteq> []"
    by (simp_all add: example_snapshot_def u64_max_def parse_examples)
  moreover have "selector_candidates ''path:a'' (snap_nodes ?s) = [example_node ''a'' ''file'']"
    by (simp add: selector_candidates_def locator_group_def is_exact_def locator_selector_def parse_examples
        kind_matches_def exact_match_def node_values_def example_defs get_str_def)
  ultimately show ?thesis
    using resolve_selector_complete [of ?s 16 "''path:a''" example_externals 0] by simp
qed

end
