(* ===== verification/Edge_Kind.thy ===== *)
theory Edge_Kind
  imports Ordered_Map
begin

text \<open>
  Which edge kinds a dependency traversal follows:
  \<^verbatim>\<open>crates/depgraph-core/src/edge_kind_selection.rs\<close>.

  A filter is built only by \<open>try_new\<close>, \<open>unrestricted\<close> or \<open>default_filter\<close>; \<open>wf_filter\<close> is the
  invariant they establish. The allowlist is looked up by bisection, which is why it has to be sorted.
\<close>

definition STRUCTURAL_EDGE_KINDS :: "string list" where
  "STRUCTURAL_EDGE_KINDS = [''contains'', ''declares'', ''generated_from'']"

definition is_structural_edge_kind :: "string \<Rightarrow> bool" where
  "is_structural_edge_kind kind \<longleftrightarrow> kind \<in> set STRUCTURAL_EDGE_KINDS"

datatype StructuralEdgeSelection = Include | Exclude

fun selection_as_str :: "StructuralEdgeSelection \<Rightarrow> string" where
  "selection_as_str Include = ''include''"
| "selection_as_str Exclude = ''exclude''"

definition parse_selection :: "string \<Rightarrow> StructuralEdgeSelection option" where
  "parse_selection s =
     (if s = ''include'' then Some Include else if s = ''exclude'' then Some Exclude else None)"

definition DEFAULT_STRUCTURAL_EDGE_SELECTION :: StructuralEdgeSelection where
  "DEFAULT_STRUCTURAL_EDGE_SELECTION = Exclude"

definition MAX_DEPENDENCY_EDGE_KINDS :: nat where
  [limit_simps]: "MAX_DEPENDENCY_EDGE_KINDS = 64"

definition MAX_DEPENDENCY_EDGE_KIND_BYTES :: nat where
  [limit_simps]: "MAX_DEPENDENCY_EDGE_KIND_BYTES = 64"

datatype EdgeKindFilterError = TooManyKinds | InvalidKind | StructuralKindExcluded

record EdgeKindFilter =
  edge_kinds :: "string list"
  structural_edges :: StructuralEdgeSelection

definition is_kind_byte :: "char \<Rightarrow> bool" where
  "is_kind_byte c \<longleftrightarrow> is_ascii_lowercase c \<or> is_ascii_digit c \<or> c \<in> set ''._:-''"

definition is_valid_edge_kind :: "string \<Rightarrow> bool" where
  "is_valid_edge_kind kind \<longleftrightarrow>
     length kind \<le> MAX_DEPENDENCY_EDGE_KIND_BYTES \<and>
     (case kind of [] \<Rightarrow> False | c # cs \<Rightarrow> is_ascii_lowercase c \<and> list_all is_kind_byte cs)"

definition unrestricted :: EdgeKindFilter where
  "unrestricted = \<lparr>edge_kinds = [], structural_edges = Include\<rparr>"

definition default_filter :: EdgeKindFilter where
  "default_filter = \<lparr>edge_kinds = [], structural_edges = DEFAULT_STRUCTURAL_EDGE_SELECTION\<rparr>"

definition try_new ::
  "string list \<Rightarrow> StructuralEdgeSelection option \<Rightarrow> EdgeKindFilterError + EdgeKindFilter" where
  "try_new kinds selection =
     (if length kinds > MAX_DEPENDENCY_EDGE_KINDS then Inl TooManyKinds
      else if \<not> list_all is_valid_edge_kind kinds then Inl InvalidKind
      else if selection = Some Exclude \<and> list_ex is_structural_edge_kind kinds
      then Inl StructuralKindExcluded
      else let kinds = sort_dedup kinds in
        Inr \<lparr>edge_kinds = kinds,
             structural_edges =
               (if kinds = []
                then (case selection of None \<Rightarrow> DEFAULT_STRUCTURAL_EDGE_SELECTION | Some s \<Rightarrow> s)
                else Include)\<rparr>)"

definition is_unrestricted :: "EdgeKindFilter \<Rightarrow> bool" where
  "is_unrestricted f \<longleftrightarrow> edge_kinds f = [] \<and> structural_edges f = Include"

definition allows :: "EdgeKindFilter \<Rightarrow> string \<Rightarrow> bool" where
  "allows f kind =
     (if edge_kinds f \<noteq> [] then binary_search (edge_kinds f) kind \<noteq> None
      else structural_edges f = Include \<or> \<not> is_structural_edge_kind kind)"

section \<open>Lemmas\<close>

definition wf_filter :: "EdgeKindFilter \<Rightarrow> bool" where
  "wf_filter f \<longleftrightarrow> strict_sorted (edge_kinds f) \<and> list_all is_valid_edge_kind (edge_kinds f)
     \<and> (edge_kinds f \<noteq> [] \<longrightarrow> structural_edges f = Include)"

lemma wf_filter_unrestricted [simp]: "wf_filter unrestricted"
  and wf_filter_default [simp]: "wf_filter default_filter"
  by (simp_all add: wf_filter_def unrestricted_def default_filter_def)

lemma allows_unrestricted [simp]: "allows unrestricted kind"
  by (simp add: allows_def unrestricted_def)

lemma try_new_wf: "try_new kinds selection = Inr f \<Longrightarrow> wf_filter f"
  by (auto simp: try_new_def wf_filter_def Let_def list_all_iff split: if_splits)

text \<open>The filter an accepted request builds, with the default written out.\<close>

lemma try_new_result:
  "try_new kinds selection = Inr f \<Longrightarrow>
   f = \<lparr>edge_kinds = sort_dedup kinds, structural_edges =
         (if kinds = [] then (case selection of None \<Rightarrow> Exclude | Some s \<Rightarrow> s) else Include)\<rparr>"
  by (cases selection)
    (auto simp: try_new_def Let_def DEFAULT_STRUCTURAL_EDGE_SELECTION_def split: if_splits)

section \<open>Correctness\<close>

text \<open>
  C20: an accepted selection follows exactly the requested kinds. With an allowlist those are the listed
  kinds and nothing else; without one, every kind when structural edges are included, and every kind but
  \<open>contains\<close>, \<open>declares\<close> and \<open>generated_from\<close> when they are excluded, which is also what an omitted
  choice means.
\<close>

theorem try_new_allows:
  assumes "try_new kinds selection = Inr f"
  shows "allows f kind \<longleftrightarrow>
    (if kinds \<noteq> [] then kind \<in> set kinds
     else selection = Some Include \<or> kind \<notin> {''contains'', ''declares'', ''generated_from''})"
proof -
  have k: "edge_kinds f = sort_dedup kinds"
    and s: "kinds = [] \<Longrightarrow> structural_edges f = (case selection of None \<Rightarrow> Exclude | Some s \<Rightarrow> s)"
    using try_new_result [OF assms] by auto
  have sorted: "sorted (edge_kinds f)"
    using k strict_sorted_sort_dedup [of kinds] by (simp add: strict_sorted_iff)
  show ?thesis
  proof (cases "kinds = []")
    case True
    then show ?thesis
      using k s by (cases selection; cases "structural_edges f")
        (simp_all add: allows_def is_structural_edge_kind_def STRUCTURAL_EDGE_KINDS_def)
  next
    case False
    then show ?thesis using k sorted by (simp add: allows_def binary_search_None)
  qed
qed

theorem try_new_allows_witness:
  "\<exists>f. try_new [''imports'', ''calls'', ''imports''] None = Inr f \<and> allows f ''calls'' \<and> \<not> allows f ''contains''"
proof -
  have ok: "try_new [''imports'', ''calls'', ''imports''] None =
      Inr \<lparr>edge_kinds = sort_dedup [''imports'', ''calls'', ''imports''], structural_edges = Include\<rparr>"
    by (simp add: try_new_def limit_simps is_valid_edge_kind_def is_kind_byte_def ascii_defs)
  show ?thesis
    using try_new_allows [OF ok] ok by auto
qed

text \<open>
  C21: equivalent selections share one identity: two accepted requests build the same filter exactly when
  they list the same kinds, in any order and multiplicity, and, when they list none, make the same choice
  about structural edges with an omitted choice counting as exclude. The stored allowlist is strictly
  sorted and every entry follows the token grammar.
\<close>

theorem try_new_identity:
  assumes "try_new kinds selection = Inr f" and "try_new kinds' selection' = Inr f'"
  shows "wf_filter f \<and>
    (f = f' \<longleftrightarrow> set kinds = set kinds' \<and>
      (kinds = [] \<longrightarrow>
        (case selection of None \<Rightarrow> Exclude | Some s \<Rightarrow> s) = (case selection' of None \<Rightarrow> Exclude | Some s \<Rightarrow> s)))"
proof
  show "wf_filter f" using assms(1) by (rule try_new_wf)
  show "f = f' \<longleftrightarrow> set kinds = set kinds' \<and>
      (kinds = [] \<longrightarrow>
        (case selection of None \<Rightarrow> Exclude | Some s \<Rightarrow> s) = (case selection' of None \<Rightarrow> Exclude | Some s \<Rightarrow> s))"
    using try_new_result [OF assms(1)] try_new_result [OF assms(2)]
    by (auto simp: sort_dedup_eq_iff)
qed

theorem try_new_identity_witness:
  "try_new [''calls'', ''imports''] None = try_new [''imports'', ''calls'', ''calls''] (Some Include)"
proof -
  have a: "try_new [''calls'', ''imports''] None =
      Inr \<lparr>edge_kinds = sort_dedup [''calls'', ''imports''], structural_edges = Include\<rparr>"
    and b: "try_new [''imports'', ''calls'', ''calls''] (Some Include) =
      Inr \<lparr>edge_kinds = sort_dedup [''imports'', ''calls'', ''calls''], structural_edges = Include\<rparr>"
    by (simp_all add: try_new_def limit_simps is_valid_edge_kind_def is_kind_byte_def ascii_defs)
  show ?thesis
    using try_new_identity [OF a b] a b by auto
qed

end
