(* ===== verification/Condition.thy ===== *)
theory Condition
  imports Json
begin

text \<open>
  The Boolean expressions on dependency edges: \<^verbatim>\<open>crates/depgraph-protocol/src/condition.rs\<close>.

  \<open>canonicalized\<close> is the code's normalization, operator by operator. \<open>eval_condition\<close> gives an expression
  its meaning under an environment and \<open>is_canonical\<close> describes the normal forms; the theorems show that
  normalization keeps the meaning, reaches a normal form, leaves normal forms alone, and forgets the order
  in which operands were written.
\<close>

datatype condition =
    AllC "condition list"
  | AnyC "condition list"
  | NotC condition
  | EqC string json
  | InC string "json list"
  | DefinedC string

definition default_condition :: condition where
  "default_condition = AllC []"

text \<open>The derived serialization: an object tagged with \<open>op\<close>.\<close>

fun condition_value :: "condition \<Rightarrow> json" where
  "condition_value (AllC cs) = Object [(''op'', String ''all''), (''conditions'', Array (map condition_value cs))]"
| "condition_value (AnyC cs) = Object [(''op'', String ''any''), (''conditions'', Array (map condition_value cs))]"
| "condition_value (NotC c) = Object [(''op'', String ''not''), (''condition'', condition_value c)]"
| "condition_value (EqC k v) = Object [(''op'', String ''eq''), (''key'', String k), (''value'', v)]"
| "condition_value (InC k vs) = Object [(''op'', String ''in''), (''key'', String k), (''values'', Array vs)]"
| "condition_value (DefinedC k) = Object [(''op'', String ''defined''), (''key'', String k)]"

text \<open>The derived equality compares embedded JSON values as JSON.\<close>

fun condition_key :: "condition \<Rightarrow> condition" where
  "condition_key (AllC cs) = AllC (map condition_key cs)"
| "condition_key (AnyC cs) = AnyC (map condition_key cs)"
| "condition_key (NotC c) = NotC (condition_key c)"
| "condition_key (EqC k v) = EqC k (canonical_value v)"
| "condition_key (InC k vs) = InC k (map canonical_value vs)"
| "condition_key (DefinedC k) = DefinedC k"

definition condition_sort_key :: "externals \<Rightarrow> condition \<Rightarrow> string" where
  "condition_sort_key E c = json_to_string E (condition_value c)"

text \<open>\<open>flattened.sort_by_key(Condition::sort_key); flattened.dedup();\<close>\<close>

definition sort_conditions :: "externals \<Rightarrow> condition list \<Rightarrow> condition list" where
  "sort_conditions E cs = dedup_on condition_key (sort_key (condition_sort_key E) cs)"

fun flatten_all :: "condition list \<Rightarrow> condition list" where
  "flatten_all [] = []"
| "flatten_all (AllC inner # cs) = inner @ flatten_all cs"
| "flatten_all (c # cs) = c # flatten_all cs"

text \<open>\<open>None\<close> is the early return of the loop: one operand is true.\<close>

fun flatten_any :: "condition list \<Rightarrow> condition list option" where
  "flatten_any [] = Some []"
| "flatten_any (AllC [] # cs) = None"
| "flatten_any (AnyC inner # cs) = map_option (\<lambda>r. inner @ r) (flatten_any cs)"
| "flatten_any (c # cs) = map_option (\<lambda>r. c # r) (flatten_any cs)"

text \<open>Both take the canonicalized operands.\<close>

definition canonicalize_all :: "externals \<Rightarrow> condition list \<Rightarrow> condition" where
  "canonicalize_all E cs =
     (case sort_conditions E (flatten_all cs) of
        [] \<Rightarrow> default_condition
      | [c] \<Rightarrow> c
      | flattened \<Rightarrow> AllC flattened)"

definition canonicalize_any :: "externals \<Rightarrow> condition list \<Rightarrow> condition" where
  "canonicalize_any E cs =
     (case flatten_any cs of
        None \<Rightarrow> default_condition
      | Some flattened \<Rightarrow>
          (case sort_conditions E flattened of
             [c] \<Rightarrow> c
           | flattened \<Rightarrow> AnyC flattened))"

fun canonicalized :: "externals \<Rightarrow> condition \<Rightarrow> condition" where
  "canonicalized E (EqC k v) = EqC k v"
| "canonicalized E (DefinedC k) = DefinedC k"
| "canonicalized E (InC k vs) =
     (case dedup_on canonical_value (sort_key (json_to_string E) vs) of
        [v] \<Rightarrow> EqC k v
      | values \<Rightarrow> InC k values)"
| "canonicalized E (NotC c) = (case canonicalized E c of NotC d \<Rightarrow> d | d \<Rightarrow> NotC d)"
| "canonicalized E (AllC cs) = canonicalize_all E (map (canonicalized E) cs)"
| "canonicalized E (AnyC cs) = canonicalize_any E (map (canonicalized E) cs)"

section \<open>Rendering\<close>

definition is_key_char :: "char \<Rightarrow> bool" where
  "is_key_char c \<longleftrightarrow> is_ascii_alphanumeric c \<or> c \<in> set ''_.:-''"

definition render_key :: "externals \<Rightarrow> string \<Rightarrow> string" where
  "render_key E key =
     (case key of
        [] \<Rightarrow> json_to_string E (String key)
      | c # cs \<Rightarrow>
          if (is_ascii_alphabetic c \<or> c = CHR ''_'') \<and> list_all is_key_char cs then key
          else json_to_string E (String key))"

fun render_canonical :: "externals \<Rightarrow> condition \<Rightarrow> string" where
  "render_canonical E (EqC k v) = render_key E k @ '' == '' @ json_to_string E v"
| "render_canonical E (InC k vs) =
     render_key E k @ '' in ['' @ str_join '', '' (map (json_to_string E) vs) @ '']''"
| "render_canonical E (DefinedC k) = ''defined('' @ render_key E k @ '')''"
| "render_canonical E (NotC c) = ''!('' @ render_canonical E c @ '')''"
| "render_canonical E (AllC cs) =
     (if cs = [] then ''true''
      else ''('' @ str_join '' && '' (map (render_canonical E) cs) @ '')'')"
| "render_canonical E (AnyC cs) =
     (if cs = [] then ''false''
      else ''('' @ str_join '' || '' (map (render_canonical E) cs) @ '')'')"

definition render :: "externals \<Rightarrow> condition \<Rightarrow> string" where
  "render E c = render_canonical E (canonicalized E c)"

section \<open>Meaning and normal forms\<close>

fun eval_condition :: "(string \<Rightarrow> json option) \<Rightarrow> condition \<Rightarrow> bool" where
  "eval_condition env (AllC cs) = (\<forall>c\<in>set cs. eval_condition env c)"
| "eval_condition env (AnyC cs) = (\<exists>c\<in>set cs. eval_condition env c)"
| "eval_condition env (NotC c) = (\<not> eval_condition env c)"
| "eval_condition env (EqC k v) = (case env k of None \<Rightarrow> False | Some w \<Rightarrow> json_eq w v)"
| "eval_condition env (InC k vs) = (case env k of None \<Rightarrow> False | Some w \<Rightarrow> \<exists>v\<in>set vs. json_eq w v)"
| "eval_condition env (DefinedC k) = (env k \<noteq> None)"

fun is_all :: "condition \<Rightarrow> bool" where
  "is_all (AllC _) = True"
| "is_all _ = False"

fun is_any :: "condition \<Rightarrow> bool" where
  "is_any (AnyC _) = True"
| "is_any _ = False"

fun is_not :: "condition \<Rightarrow> bool" where
  "is_not (NotC _) = True"
| "is_not _ = False"

text \<open>Operand lists in normal form: ordered by their text, no equal neighbours, not a single operand.\<close>

definition operands_normal :: "externals \<Rightarrow> condition list \<Rightarrow> bool" where
  "operands_normal E cs \<longleftrightarrow> length cs \<noteq> 1 \<and> sorted (map (condition_sort_key E) cs)
     \<and> distinct_adj (map condition_key cs)"

fun is_canonical :: "externals \<Rightarrow> condition \<Rightarrow> bool" where
  "is_canonical E (EqC k v) = True"
| "is_canonical E (DefinedC k) = True"
| "is_canonical E (InC k vs) =
     (length vs \<noteq> 1 \<and> sorted (map (json_to_string E) vs) \<and> distinct_adj (map canonical_value vs))"
| "is_canonical E (NotC c) = (is_canonical E c \<and> \<not> is_not c)"
| "is_canonical E (AllC cs) =
     (operands_normal E cs \<and> (\<forall>c\<in>set cs. is_canonical E c \<and> \<not> is_all c))"
| "is_canonical E (AnyC cs) =
     (operands_normal E cs \<and> (\<forall>c\<in>set cs. is_canonical E c \<and> \<not> is_any c \<and> c \<noteq> default_condition))"

section \<open>Lemmas\<close>

lemma eval_condition_key: "eval_condition env (condition_key c) = eval_condition env c"
  by (induction c) (auto simp: json_eq_def split: option.splits)

lemma set_sort_conditions_subset: "set (sort_conditions E cs) \<subseteq> set cs"
  using set_dedup_on_subset [of condition_key "sort_key (condition_sort_key E) cs"]
  by (simp add: sort_conditions_def)

lemma sort_conditions_eval:
  "eval_condition env ` set (sort_conditions E cs) = eval_condition env ` set cs"
proof -
  have "eval_condition env = eval_condition env \<circ> condition_key"
    by (auto simp: eval_condition_key)
  then have "eval_condition env ` S = eval_condition env ` (condition_key ` S)" for S
    by (metis image_comp)
  from this [of "set (sort_conditions E cs)"] this [of "set cs"] show ?thesis
    by (simp add: sort_conditions_def key_dedup_on)
qed

lemma sort_conditions_all_ex:
  "(\<forall>c\<in>set (sort_conditions E cs). eval_condition env c) \<longleftrightarrow> (\<forall>c\<in>set cs. eval_condition env c)"
  "(\<exists>c\<in>set (sort_conditions E cs). eval_condition env c) \<longleftrightarrow> (\<exists>c\<in>set cs. eval_condition env c)"
  using sort_conditions_eval [of env E cs] by (metis (no_types) imageE imageI)+

lemma operands_normal_sort_conditions:
  "length (sort_conditions E cs) \<noteq> 1 \<Longrightarrow> operands_normal E (sort_conditions E cs)"
  by (simp add: operands_normal_def sort_conditions_def sorted_dedup_on distinct_adj_dedup_on)

lemma sort_conditions_id: "operands_normal E cs \<Longrightarrow> sort_conditions E cs = cs"
  by (simp add: operands_normal_def sort_conditions_def sort_key_id_if_sorted dedup_on_fixpoint)

lemma flatten_all_eval:
  "(\<forall>c\<in>set (flatten_all cs). eval_condition env c) \<longleftrightarrow> (\<forall>c\<in>set cs. eval_condition env c)"
  by (induction cs rule: flatten_all.induct) auto

lemma flatten_any_eval:
  "(case flatten_any cs of None \<Rightarrow> True | Some r \<Rightarrow> \<exists>c\<in>set r. eval_condition env c)
     \<longleftrightarrow> (\<exists>c\<in>set cs. eval_condition env c)"
  by (induction cs rule: flatten_any.induct) (auto split: option.splits)

lemma flatten_all_id: "\<forall>c\<in>set cs. \<not> is_all c \<Longrightarrow> flatten_all cs = cs"
  by (induction cs rule: flatten_all.induct) auto

lemma flatten_any_id:
  "\<forall>c\<in>set cs. \<not> is_any c \<and> c \<noteq> default_condition \<Longrightarrow> flatten_any cs = Some cs"
  by (induction cs rule: flatten_any.induct) (auto simp: default_condition_def)

lemma flatten_all_canonical:
  "\<forall>c\<in>set cs. is_canonical E c \<Longrightarrow> \<forall>c\<in>set (flatten_all cs). is_canonical E c \<and> \<not> is_all c"
  by (induction cs rule: flatten_all.induct) auto

lemma flatten_any_canonical:
  "\<forall>c\<in>set cs. is_canonical E c \<Longrightarrow> flatten_any cs = Some r \<Longrightarrow>
     \<forall>c\<in>set r. is_canonical E c \<and> \<not> is_any c \<and> c \<noteq> default_condition"
  by (induction cs arbitrary: r rule: flatten_any.induct) (auto simp: default_condition_def)

lemma canonicalize_all_eval:
  "eval_condition env (canonicalize_all E cs) \<longleftrightarrow> (\<forall>c\<in>set cs. eval_condition env c)"
  using sort_conditions_all_ex(1) [of E "flatten_all cs" env] flatten_all_eval [of cs env]
  by (auto simp: canonicalize_all_def default_condition_def split: list.splits)

lemma canonicalize_any_eval:
  "eval_condition env (canonicalize_any E cs) \<longleftrightarrow> (\<exists>c\<in>set cs. eval_condition env c)"
proof (cases "flatten_any cs")
  case None
  then show ?thesis
    using flatten_any_eval [of env cs] by (simp add: canonicalize_any_def default_condition_def)
next
  case (Some r)
  then show ?thesis
    using sort_conditions_all_ex(2) [of E r env] flatten_any_eval [of env cs]
    by (auto simp: canonicalize_any_def split: list.splits)
qed

lemma canonicalize_all_canonical:
  assumes "\<forall>c\<in>set cs. is_canonical E c"
  shows "is_canonical E (canonicalize_all E cs)"
proof -
  let ?s = "sort_conditions E (flatten_all cs)"
  have members: "\<forall>c\<in>set ?s. is_canonical E c \<and> \<not> is_all c"
    using flatten_all_canonical [OF assms] set_sort_conditions_subset [of E "flatten_all cs"] by blast
  have empty: "is_canonical E default_condition"
    by (simp add: default_condition_def operands_normal_def)
  show ?thesis
    using members empty operands_normal_sort_conditions [of E "flatten_all cs"]
    by (auto simp: canonicalize_all_def split: list.splits)
qed

lemma canonicalize_any_canonical:
  assumes "\<forall>c\<in>set cs. is_canonical E c"
  shows "is_canonical E (canonicalize_any E cs)"
proof (cases "flatten_any cs")
  case None
  then show ?thesis
    by (simp add: canonicalize_any_def default_condition_def operands_normal_def)
next
  case (Some r)
  let ?s = "sort_conditions E r"
  have members: "\<forall>c\<in>set ?s. is_canonical E c \<and> \<not> is_any c \<and> c \<noteq> default_condition"
    using flatten_any_canonical [OF assms Some] set_sort_conditions_subset [of E r] by blast
  show ?thesis
    using Some members operands_normal_sort_conditions [of E r]
    by (auto simp: canonicalize_any_def split: list.splits)
qed

lemma canonicalized_is_canonical: "is_canonical E (canonicalized E c)"
proof (induction c)
  case (InC k vs)
  let ?s = "dedup_on canonical_value (sort_key (json_to_string E) vs)"
  have "sorted (map (json_to_string E) ?s)" and "distinct_adj (map canonical_value ?s)"
    by (simp_all add: sorted_dedup_on distinct_adj_dedup_on)
  then show ?case by (auto split: list.splits)
next
  case (NotC c)
  then show ?case by (cases "canonicalized E c") auto
next
  case (AllC cs)
  then show ?case by (simp add: canonicalize_all_canonical)
next
  case (AnyC cs)
  then show ?case by (simp add: canonicalize_any_canonical)
qed simp_all

lemma canonicalized_fixpoint: "is_canonical E c \<Longrightarrow> canonicalized E c = c"
proof (induction c)
  case (InC k vs)
  then show ?case
    by (auto simp: sort_key_id_if_sorted dedup_on_fixpoint split: list.splits)
next
  case (NotC c)
  then show ?case by (cases c) auto
next
  case (AllC cs)
  then have "map (canonicalized E) cs = cs" by (simp add: map_idI)
  with AllC.prems show ?case
    by (auto simp: canonicalize_all_def flatten_all_id sort_conditions_id default_condition_def
        operands_normal_def split: list.splits)
next
  case (AnyC cs)
  then have "map (canonicalized E) cs = cs" by (simp add: map_idI)
  with AnyC.prems show ?case
    by (auto simp: canonicalize_any_def flatten_any_id sort_conditions_id operands_normal_def
        split: list.splits)
qed simp_all

lemma eval_In_dedup:
  "(\<exists>v\<in>set (dedup_on canonical_value (sort_key f vs)). json_eq w v) \<longleftrightarrow> (\<exists>v\<in>set vs. json_eq w v)"
proof -
  have "canonical_value ` set (dedup_on canonical_value (sort_key f vs)) = canonical_value ` set vs"
    by (simp add: key_dedup_on)
  then show ?thesis unfolding json_eq_def by (metis imageE imageI)
qed

lemma condition_value_inj: "condition_value c = condition_value d \<Longrightarrow> c = d"
proof (induction c arbitrary: d)
  case (AllC cs)
  then obtain ds where d: "d = AllC ds" and eq: "map condition_value cs = map condition_value ds"
    by (cases d) simp_all
  have "cs = ds"
    by (rule list.inj_map_strong [OF _ eq]) (rule AllC.IH)
  with d show ?case by simp
next
  case (AnyC cs)
  then obtain ds where d: "d = AnyC ds" and eq: "map condition_value cs = map condition_value ds"
    by (cases d) simp_all
  have "cs = ds"
    by (rule list.inj_map_strong [OF _ eq]) (rule AnyC.IH)
  with d show ?case by simp
next
  case (NotC c)
  then show ?case by (cases d) simp_all
next
  case (EqC k v)
  then show ?case by (cases d) simp_all
next
  case (InC k vs)
  then show ?case by (cases d) simp_all
next
  case (DefinedC k)
  then show ?case by (cases d) simp_all
qed

lemma condition_sort_key_inj:
  "injective_serializer E \<Longrightarrow> inj (condition_sort_key E)"
  by (auto simp: injective_serializer_def condition_sort_key_def inj_on_def dest: condition_value_inj)

lemma sort_conditions_perm:
  assumes "injective_serializer E" and "mset cs = mset ds"
  shows "sort_conditions E cs = sort_conditions E ds"
proof -
  have "sort_key (condition_sort_key E) cs = sort_key (condition_sort_key E) ds"
    by (rule sort_key_inj_key_eq)
      (simp_all add: assms(2) inj_on_subset [OF condition_sort_key_inj [OF assms(1)]])
  then show ?thesis by (simp add: sort_conditions_def)
qed

lemma mset_flatten_all: "mset (flatten_all cs) = (\<Sum>c\<in>#mset cs. mset (flatten_all [c]))"
proof (induction cs)
  case (Cons c cs)
  then show ?case by (cases c) simp_all
qed simp

lemma flatten_any_None_iff: "flatten_any cs = None \<longleftrightarrow> default_condition \<in> set cs"
proof (induction cs)
  case (Cons c cs)
  then show ?case
    by (cases "c # cs" rule: flatten_any.cases) (auto simp: default_condition_def)
qed simp

lemma mset_flatten_any:
  "flatten_any cs = Some r \<Longrightarrow> mset r = (\<Sum>c\<in>#mset cs. mset (the (flatten_any [c])))"
proof (induction cs arbitrary: r)
  case (Cons c cs)
  then show ?case
    by (cases "c # cs" rule: flatten_any.cases) auto
qed simp

lemma canonicalize_all_perm:
  assumes "injective_serializer E" and "mset cs = mset ds"
  shows "canonicalize_all E cs = canonicalize_all E ds"
proof -
  have "mset (flatten_all cs) = mset (flatten_all ds)"
    using assms(2) by (simp add: mset_flatten_all [of cs] mset_flatten_all [of ds])
  then have "sort_conditions E (flatten_all cs) = sort_conditions E (flatten_all ds)"
    by (rule sort_conditions_perm [OF assms(1)])
  then show ?thesis by (simp add: canonicalize_all_def)
qed

lemma canonicalize_any_perm:
  assumes "injective_serializer E" and "mset cs = mset ds"
  shows "canonicalize_any E cs = canonicalize_any E ds"
proof (cases "flatten_any cs")
  case None
  then have "flatten_any ds = None"
    using mset_eq_setD [OF assms(2)] by (simp add: flatten_any_None_iff)
  with None show ?thesis by (simp add: canonicalize_any_def)
next
  case (Some r)
  then have "flatten_any ds \<noteq> None"
    using mset_eq_setD [OF assms(2)] by (metis flatten_any_None_iff option.distinct(1))
  then obtain r' where r': "flatten_any ds = Some r'" by blast
  have "mset r = mset r'"
    using mset_flatten_any [OF Some] mset_flatten_any [OF r'] assms(2) by simp
  then have "sort_conditions E r = sort_conditions E r'"
    by (rule sort_conditions_perm [OF assms(1)])
  with Some r' show ?thesis by (simp add: canonicalize_any_def)
qed

section \<open>Correctness of canonicalization\<close>

text \<open>
  C16: canonicalization keeps the meaning of every expression under every environment, whatever text the
  serializer prints.
\<close>

theorem canonicalized_eval: "eval_condition env (canonicalized E c) = eval_condition env c"
proof (induction c)
  case (InC k vs)
  have "eval_condition env (canonicalized E (InC k vs)) =
      eval_condition env (InC k (dedup_on canonical_value (sort_key (json_to_string E) vs)))"
    by (simp split: list.split option.split)
  then show ?case by (simp add: eval_In_dedup split: option.split)
next
  case (NotC c)
  then show ?case by (cases "canonicalized E c") auto
next
  case (AllC cs)
  then show ?case by (simp add: canonicalize_all_eval)
next
  case (AnyC cs)
  then show ?case by (simp add: canonicalize_any_eval)
qed simp_all

text \<open>
  C17: canonicalization is a projection onto the normal forms: its result is always a normal form (operands
  sorted by their text without equal neighbours, no nested operator of the same kind, no double negation,
  no single operand), and it changes an expression exactly when the expression is not a normal form; in
  particular canonicalizing twice is canonicalizing once.
\<close>

theorem canonicalized_normal_form:
  "is_canonical E (canonicalized E c)
   \<and> (canonicalized E c = c \<longleftrightarrow> is_canonical E c)
   \<and> canonicalized E (canonicalized E c) = canonicalized E c"
  by (metis canonicalized_fixpoint canonicalized_is_canonical)

text \<open>
  C18: the canonical form does not depend on the order in which the operands of a conjunction or of a
  disjunction are written, when the serializer prints different values differently.
\<close>

theorem canonicalized_order_insensitive:
  assumes "injective_serializer E" and "mset cs = mset ds"
  shows "canonicalized E (AllC cs) = canonicalized E (AllC ds)
    \<and> canonicalized E (AnyC cs) = canonicalized E (AnyC ds)"
proof -
  have "mset (map (canonicalized E) cs) = mset (map (canonicalized E) ds)"
    using assms(2) by simp
  then show ?thesis
    using canonicalize_all_perm [OF assms(1)] canonicalize_any_perm [OF assms(1)] by simp
qed

theorem canonicalized_order_insensitive_witness:
  "canonicalized example_externals (AllC [EqC ''os'' (String ''linux''), NotC (DefinedC ''x'')])
     = canonicalized example_externals (AllC [NotC (DefinedC ''x''), EqC ''os'' (String ''linux'')])"
  using canonicalized_order_insensitive [OF injective_example,
    of "[EqC ''os'' (String ''linux''), NotC (DefinedC ''x'')]"
       "[NotC (DefinedC ''x''), EqC ''os'' (String ''linux'')]"]
  by simp

end
