(* ===== verification/Metered.thy ===== *)
theory Metered
  imports Query_Error
begin

text \<open>
  Computations under a work budget and cancellation. The query engine threads a work counter and a
  cancellation closure through every loop: each unit of work first polls the closure, then charges one item
  to a budget, and any failure leaves the computation at once.

  \<open>comp\<close> is the type of such computations over a counter state, and \<open>m_return\<close>, \<open>m_bind\<close>, \<open>m_fail\<close> and
  \<open>m_fold\<close> write them down. Three judgements reason about them: \<open>ensures m P\<close> (every result satisfies
  \<open>P\<close>, whatever the budget and the cancellation), \<open>fails_with m Q\<close> (every failure satisfies \<open>Q\<close>), and
  \<open>affordable\<close> (without cancellation, a stated number of items per budget is enough to obtain the stated
  result). The locale \<open>meter\<close> is the contract of a work counter over an error type; its interpretations are the
  counters of the selector scan, of postprocessing and of impact analysis.
\<close>

type_synonym ('e, 's, 'a) metered = "canceller \<Rightarrow> 's \<times> nat \<Rightarrow> 'e + 'a \<times> 's \<times> nat"
type_synonym ('s, 'a) comp = "(query_error, 's, 'a) metered"

definition m_return :: "'a \<Rightarrow> ('e, 's, 'a) metered" where
  "m_return x = (\<lambda>cancel st. Inr (x, st))"

definition m_fail :: "'e \<Rightarrow> ('e, 's, 'a) metered" where
  "m_fail e = (\<lambda>cancel st. Inl e)"

definition m_bind :: "('e, 's, 'a) metered \<Rightarrow> ('a \<Rightarrow> ('e, 's, 'b) metered) \<Rightarrow> ('e, 's, 'b) metered" where
  "m_bind m f = (\<lambda>cancel st. sum_bind (m cancel st) (\<lambda>(x, st). f x cancel st))"

primrec m_fold :: "('x \<Rightarrow> 'a \<Rightarrow> ('e, 's, 'a) metered) \<Rightarrow> 'x list \<Rightarrow> 'a \<Rightarrow> ('e, 's, 'a) metered" where
  "m_fold f [] a = m_return a"
| "m_fold f (x # xs) a = m_bind (f x a) (m_fold f xs)"

text \<open>Functions that recurse inside a bind: the rest of a computation runs only on what the first part returns.\<close>

lemma m_bind_cong [fundef_cong]:
  assumes "m = m'" and "\<And>cancel st x st'. m' cancel st = Inr (x, st') \<Longrightarrow> f x = g x"
  shows "m_bind m f = m_bind m' g"
  unfolding m_bind_def assms(1) using assms(2)
  by (intro ext sum_bind_cong) auto

section \<open>What a result and a failure satisfy\<close>

definition ensures :: "('e, 's, 'a) metered \<Rightarrow> ('a \<Rightarrow> bool) \<Rightarrow> bool" where
  "ensures m P \<longleftrightarrow> (\<forall>cancel st x st'. m cancel st = Inr (x, st') \<longrightarrow> P x)"

definition fails_with :: "('e, 's, 'a) metered \<Rightarrow> ('e \<Rightarrow> bool) \<Rightarrow> bool" where
  "fails_with m Q \<longleftrightarrow> (\<forall>cancel st e. m cancel st = Inl e \<longrightarrow> Q e)"

lemma ensuresD: "ensures m P \<Longrightarrow> m cancel st = Inr (x, st') \<Longrightarrow> P x"
  by (auto simp only: ensures_def)

lemma failsD: "fails_with m Q \<Longrightarrow> m cancel st = Inl e \<Longrightarrow> Q e"
  by (auto simp only: fails_with_def)

lemma ensures_return [intro]: "P x \<Longrightarrow> ensures (m_return x) P"
  by (simp add: ensures_def m_return_def)

lemma ensures_fail [simp]: "ensures (m_fail e) P"
  by (simp add: ensures_def m_fail_def)

lemma ensures_True [simp]: "ensures m (\<lambda>_. True)"
  by (simp add: ensures_def)

lemma ensures_bind:
  assumes "ensures m P" and "\<And>x. P x \<Longrightarrow> ensures (f x) Q"
  shows "ensures (m_bind m f) Q"
  using assms unfolding ensures_def m_bind_def by (fastforce simp: sum_bind_Inr_iff)

lemma ensures_then: "(\<And>x. ensures (f x) Q) \<Longrightarrow> ensures (m_bind m f) Q"
  by (rule ensures_bind [of m "\<lambda>_. True"]) simp_all

lemma ensures_mono: "ensures m P \<Longrightarrow> (\<And>x. P x \<Longrightarrow> Q x) \<Longrightarrow> ensures m Q"
  by (auto simp: ensures_def)

lemma ensures_if: "(b \<Longrightarrow> ensures m P) \<Longrightarrow> (\<not> b \<Longrightarrow> ensures n P) \<Longrightarrow> ensures (if b then m else n) P"
  by simp

text \<open>A loop keeps an invariant that may speak about the items already consumed.\<close>

lemma ensures_fold:
  assumes "P [] a"
    and step: "\<And>done x rest a. \<lbrakk>xs = done @ x # rest; P done a\<rbrakk> \<Longrightarrow> ensures (f x a) (P (done @ [x]))"
  shows "ensures (m_fold f xs a) (P xs)"
proof -
  have "ensures (m_fold f ys a) (P (ds @ ys))" if "xs = ds @ ys" "P ds a" for ds ys a
    using that
  proof (induction ys arbitrary: ds a)
    case (Cons y ys)
    then show ?case
      using step [of ds y ys a] Cons.IH [of "ds @ [y]"] by (auto intro!: ensures_bind)
  qed auto
  from this [of "[]" xs] assms(1) show ?thesis by simp
qed

lemma returns_fold:
  assumes "\<And>x a. x \<in> set xs \<Longrightarrow> ensures (f x a) (\<lambda>b. b = g x a)"
  shows "ensures (m_fold f xs a) (\<lambda>b. b = fold g xs a)"
  using assms by (intro ensures_fold [where P = "\<lambda>done b. b = fold g done a"]) auto

lemma fails_return [simp]: "fails_with (m_return x) Q"
  by (simp add: fails_with_def m_return_def)

lemma fails_fail: "Q e \<Longrightarrow> fails_with (m_fail e) Q"
  by (simp add: fails_with_def m_fail_def)

lemma fails_bind:
  assumes "fails_with m Q" and "ensures m P" and "\<And>x. P x \<Longrightarrow> fails_with (f x) Q"
  shows "fails_with (m_bind m f) Q"
  using assms unfolding ensures_def fails_with_def m_bind_def by (fastforce simp: sum_bind_Inl_iff)

lemma fails_then: "fails_with m Q \<Longrightarrow> (\<And>x. fails_with (f x) Q) \<Longrightarrow> fails_with (m_bind m f) Q"
  by (rule fails_bind [where P = "\<lambda>_. True"]) simp_all

lemma fails_fold: "(\<And>x a. x \<in> set xs \<Longrightarrow> fails_with (f x a) Q) \<Longrightarrow> fails_with (m_fold f xs a) Q"
  by (induction xs arbitrary: a) (auto intro!: fails_then)

lemma fails_fold_inv:
  assumes "P [] a"
    and ens: "\<And>done x rest a. \<lbrakk>xs = done @ x # rest; P done a\<rbrakk> \<Longrightarrow> ensures (f x a) (P (done @ [x]))"
    and fails: "\<And>done x rest a. \<lbrakk>xs = done @ x # rest; P done a\<rbrakk> \<Longrightarrow> fails_with (f x a) Q"
  shows "fails_with (m_fold f xs a) Q"
proof -
  have "fails_with (m_fold f ys a) Q" if "xs = ds @ ys" "P ds a" for ds ys a
    using that
  proof (induction ys arbitrary: ds a)
    case (Cons y ys)
    then show ?case
      using ens [of ds y ys a] fails [of ds y ys a] Cons.IH [of "ds @ [y]"]
      by (auto intro!: fails_bind [where P = "P (ds @ [y])"])
  qed simp
  from this [of "[]" xs] assms(1) show ?thesis by simp
qed

section \<open>Budgets\<close>

text \<open>
  A counter may keep several budgets, indexed by \<open>'b\<close>; \<open>spent\<close> and \<open>limit\<close> read them off its state.
\<close>

definition within :: "('s \<Rightarrow> 'b \<Rightarrow> nat) \<Rightarrow> ('s \<Rightarrow> 'b \<Rightarrow> nat) \<Rightarrow> 's \<Rightarrow> bool" where
  "within spent limit s \<longleftrightarrow> (\<forall>b. spent s b \<le> limit s b)"

definition keeps_budget ::
  "('s \<Rightarrow> 'b::finite \<Rightarrow> nat) \<Rightarrow> ('s \<Rightarrow> 'b \<Rightarrow> nat) \<Rightarrow> ('e, 's, 'a) metered \<Rightarrow> bool" where
  "keeps_budget spent limit m \<longleftrightarrow>
     (\<forall>cancel s p x s' p'. m cancel (s, p) = Inr (x, s', p') \<longrightarrow>
        limit s' = limit s \<and> (\<forall>b. spent s b \<le> spent s' b) \<and>
        (\<Sum>b\<in>UNIV. spent s' b) + p = (\<Sum>b\<in>UNIV. spent s b) + p' \<and>
        (within spent limit s \<longrightarrow> within spent limit s'))"

definition affordable ::
  "('s \<Rightarrow> 'b \<Rightarrow> nat) \<Rightarrow> ('s \<Rightarrow> 'b \<Rightarrow> nat) \<Rightarrow> ('b \<Rightarrow> nat) \<Rightarrow> ('e, 's, 'a) metered \<Rightarrow> ('a \<Rightarrow> bool) \<Rightarrow> bool" where
  "affordable spent limit n m P \<longleftrightarrow>
     (\<forall>s p. (\<forall>b. spent s b + n b \<le> limit s b) \<longrightarrow>
        (\<exists>x s' p'. m never (s, p) = Inr (x, s', p') \<and> P x \<and> (\<forall>b. spent s' b \<le> spent s b + n b) \<and> limit s' = limit s))"

lemma affordableD:
  assumes "affordable spent limit n m P" and "\<And>b. spent s b + n b \<le> limit s b"
  obtains x s' p' where "m never (s, p) = Inr (x, s', p')" and "P x"
    and "\<And>b. spent s' b \<le> spent s b + n b" and "limit s' = limit s"
  using assms unfolding affordable_def by blast

lemma affordable_ensures:
  assumes "affordable spent limit n m Q" and "ensures m P"
  shows "affordable spent limit n m P"
  unfolding affordable_def
proof (intro allI impI)
  fix s p
  assume "\<forall>b. spent s b + n b \<le> limit s b"
  then have "\<And>b. spent s b + n b \<le> limit s b" by simp
  from affordableD [OF assms(1) this, of p] obtain x s' p' where
    "m never (s, p) = Inr (x, s', p')" "\<And>b. spent s' b \<le> spent s b + n b" "limit s' = limit s" by metis
  with assms(2) show "\<exists>x s' p'. m never (s, p) = Inr (x, s', p') \<and> P x \<and>
      (\<forall>b. spent s' b \<le> spent s b + n b) \<and> limit s' = limit s"
    unfolding ensures_def by blast
qed

locale meter =
  fixes tick :: "'k \<Rightarrow> ('e, 's, unit) metered"
    and budget :: "'k \<Rightarrow> 'b::finite"
    and spent :: "'s \<Rightarrow> 'b \<Rightarrow> nat"
    and limit :: "'s \<Rightarrow> 'b \<Rightarrow> nat"
    and cancelled :: "'e \<Rightarrow> bool"
    and exhausted :: "'e \<Rightarrow> nat option"
  assumes tick_Inr: "tick k cancel (s, p) = Inr (x, s', p') \<Longrightarrow>
      p' = Suc p \<and> \<not> cancel p \<and> limit s' = limit s \<and> spent s (budget k) < limit s (budget k)
      \<and> spent s' = (spent s)(budget k := Suc (spent s (budget k)))"
    and tick_Inl: "tick k cancel (s, p) = Inl e \<Longrightarrow>
      (cancel p \<and> cancelled e) \<or>
      (spent s (budget k) \<ge> limit s (budget k) \<and> exhausted e = Some (limit s (budget k)))"
begin

abbreviation ok :: "('e, 's, 'a) metered \<Rightarrow> bool" where
  "ok \<equiv> keeps_budget spent limit"

abbreviation costs :: "('b \<Rightarrow> nat) \<Rightarrow> ('e, 's, 'a) metered \<Rightarrow> ('a \<Rightarrow> bool) \<Rightarrow> bool" where
  "costs \<equiv> affordable spent limit"

lemma ok_tick: "ok (tick k)"
  unfolding keeps_budget_def
proof (intro allI impI)
  fix cancel s p x s' p'
  assume "tick k cancel (s, p) = Inr (x, s', p')"
  from tick_Inr [OF this] have t: "p' = Suc p" "limit s' = limit s" "spent s (budget k) < limit s (budget k)"
    "spent s' = (spent s)(budget k := Suc (spent s (budget k)))" by auto
  have "(\<Sum>b\<in>UNIV. spent s' b) = (\<Sum>b\<in>UNIV. spent s b + (if b = budget k then 1 else 0))"
    by (rule sum.cong) (auto simp: t)
  then have "(\<Sum>b\<in>UNIV. spent s' b) = Suc (\<Sum>b\<in>UNIV. spent s b)" by (simp add: sum.distrib)
  with t show "limit s' = limit s \<and> (\<forall>b. spent s b \<le> spent s' b) \<and> (\<Sum>b\<in>UNIV. spent s' b) + p = (\<Sum>b\<in>UNIV. spent s b) + p' \<and>
      (within spent limit s \<longrightarrow> within spent limit s')"
    by (auto simp: within_def)
qed

lemma ok_return: "ok (m_return x)"
  by (simp add: keeps_budget_def m_return_def)

lemma ok_fail: "ok (m_fail e)"
  by (simp add: keeps_budget_def m_fail_def)

lemma ok_bind:
  assumes m: "ok m" and f: "\<And>x. ok (f x)"
  shows "ok (m_bind m f)"
  unfolding keeps_budget_def
proof (intro allI impI)
  fix cancel s p y s' p'
  assume "m_bind m f cancel (s, p) = Inr (y, s', p')"
  then obtain x t q where 1: "m cancel (s, p) = Inr (x, t, q)" and 2: "f x cancel (t, q) = Inr (y, s', p')"
    by (auto simp: m_bind_def sum_bind_Inr_iff)
  from m 1 have a: "limit t = limit s" "\<And>b. spent s b \<le> spent t b" "(\<Sum>b\<in>UNIV. spent t b) + p = (\<Sum>b\<in>UNIV. spent s b) + q"
    "within spent limit s \<longrightarrow> within spent limit t" unfolding keeps_budget_def by blast+
  from f 2 have b: "limit s' = limit t" "\<And>b. spent t b \<le> spent s' b" "(\<Sum>b\<in>UNIV. spent s' b) + q = (\<Sum>b\<in>UNIV. spent t b) + p'"
    "within spent limit t \<longrightarrow> within spent limit s'" unfolding keeps_budget_def by blast+
  from a b show "limit s' = limit s \<and> (\<forall>b. spent s b \<le> spent s' b) \<and> (\<Sum>b\<in>UNIV. spent s' b) + p = (\<Sum>b\<in>UNIV. spent s b) + p' \<and>
      (within spent limit s \<longrightarrow> within spent limit s')" by (auto intro: order_trans)
qed

lemma ok_if: "(b \<Longrightarrow> ok m) \<Longrightarrow> (\<not> b \<Longrightarrow> ok n) \<Longrightarrow> ok (if b then m else n)"
  by simp

lemma ok_fold: "(\<And>x a. x \<in> set xs \<Longrightarrow> ok (f x a)) \<Longrightarrow> ok (m_fold f xs a)"
  by (induction xs arbitrary: a) (auto intro!: ok_bind ok_return)

lemmas ok_intros = ok_tick ok_return ok_fail ok_bind ok_if ok_fold

lemma fails_tick:
  assumes "\<And>e. cancelled e \<or> exhausted e \<noteq> None \<Longrightarrow> Q e"
  shows "fails_with (tick k) Q"
  unfolding fails_with_def using assms tick_Inl by (metis option.distinct(1) surj_pair)

lemma costs_return: "P v \<Longrightarrow> costs (\<lambda>_. 0) (m_return v) P"
  by (auto simp: affordable_def m_return_def)

lemma costs_tick: "costs (\<lambda>b. if b = budget k then 1 else 0) (tick k) (\<lambda>_. True)"
  unfolding affordable_def
proof (intro allI impI)
  fix s p
  assume room: "\<forall>b. spent s b + (if b = budget k then 1 else 0) \<le> limit s b"
  then have lt: "spent s (budget k) < limit s (budget k)" by (metis Suc_eq_plus1 Suc_le_eq)
  have "\<not> (\<exists>e. tick k never (s, p) = Inl e)"
    using tick_Inl [of k never s p] lt by (auto simp: never_def)
  then obtain r where "tick k never (s, p) = Inr r" by (cases "tick k never (s, p)") auto
  then show "\<exists>x s' p'. tick k never (s, p) = Inr (x, s', p') \<and> True \<and>
      (\<forall>b. spent s' b \<le> spent s b + (if b = budget k then 1 else 0)) \<and> limit s' = limit s"
    using tick_Inr [of k never s p] by (cases r) auto
qed

lemma costs_bind:
  assumes m: "costs n m P" and f: "\<And>x. P x \<Longrightarrow> costs n' (f x) Q"
  shows "costs (\<lambda>b. n b + n' b) (m_bind m f) Q"
  unfolding affordable_def
proof (intro allI impI)
  fix s p
  assume room: "\<forall>b. spent s b + (n b + n' b) \<le> limit s b"
  then have "spent s b + n b \<le> limit s b" for b by (metis add.assoc add_leD1)
  from affordableD [OF m this, of p] obtain x t q where t: "m never (s, p) = Inr (x, t, q)" "P x"
      "\<And>b. spent t b \<le> spent s b + n b" "limit t = limit s" by metis
  have "spent t b + n' b \<le> limit t b" for b
    using room t(3,4) by (metis (no_types) add.assoc add_le_mono1 order_trans)
  from affordableD [OF f [OF t(2)] this, of q] obtain y s' p' where s': "f x never (t, q) = Inr (y, s', p')" "Q y"
      "\<And>b. spent s' b \<le> spent t b + n' b" "limit s' = limit t" by metis
  have "spent s' b \<le> spent s b + (n b + n' b)" for b
    using s'(3) t(3) by (metis (no_types) add.assoc add_le_mono1 order_trans)
  with t s' show "\<exists>y s' p'. m_bind m f never (s, p) = Inr (y, s', p') \<and> Q y \<and>
      (\<forall>b. spent s' b \<le> spent s b + (n b + n' b)) \<and> limit s' = limit s"
    by (auto simp: m_bind_def)
qed

lemma costs_mono:
  assumes "costs n m P" and "\<And>b. n b \<le> n' b" and "\<And>x. P x \<Longrightarrow> Q x"
  shows "costs n' m Q"
  unfolding affordable_def
proof (intro allI impI)
  fix s p
  assume "\<forall>b. spent s b + n' b \<le> limit s b"
  then have "spent s b + n b \<le> limit s b" for b using assms(2) by (meson add_left_mono order_trans)
  from affordableD [OF assms(1) this, of p] obtain x s' p' where "m never (s, p) = Inr (x, s', p')" "P x"
      "\<And>b. spent s' b \<le> spent s b + n b" "limit s' = limit s" by metis
  with assms(2,3) show "\<exists>x s' p'. m never (s, p) = Inr (x, s', p') \<and> Q x \<and>
      (\<forall>b. spent s' b \<le> spent s b + n' b) \<and> limit s' = limit s"
    by (meson add_left_mono order_trans)
qed

text \<open>A loop costs the sum of what its iterations cost.\<close>

lemma costs_fold:
  assumes init: "P [] a"
    and step: "\<And>done x rest a. \<lbrakk>xs = done @ x # rest; P done a\<rbrakk> \<Longrightarrow> costs (n x) (f x a) (P (done @ [x]))"
  shows "costs (\<lambda>b. \<Sum>x\<leftarrow>xs. n x b) (m_fold f xs a) (P xs)"
proof -
  have "costs (\<lambda>b. \<Sum>x\<leftarrow>ys. n x b) (m_fold f ys a) (P (ds @ ys))" if "xs = ds @ ys" "P ds a" for ds ys a
    using that
  proof (induction ys arbitrary: ds a)
    case (Cons y ys)
    have "costs (n y) (f y a) (P (ds @ [y]))" using step Cons.prems .
    moreover have "costs (\<lambda>b. \<Sum>x\<leftarrow>ys. n x b) (m_fold f ys a') (P (ds @ y # ys))" if "P (ds @ [y]) a'" for a'
      using Cons.IH [of "ds @ [y]" a'] Cons.prems(1) that by simp
    ultimately show ?case by (simp add: costs_bind)
  qed (use costs_return in simp)
  from this [of "[]" xs] init show ?thesis by simp
qed

text \<open>One work item followed by the rest.\<close>

lemma costs_tick_then:
  assumes "costs n (f ()) P"
  shows "costs (\<lambda>b. (if b = budget k then 1 else 0) + n b) (m_bind (tick k) f) P"
  using costs_bind [OF costs_tick] assms by simp

end

end
