(* ===== verification/Postprocess.thy ===== *)
theory Postprocess
  imports Condition Query_Filter Metered
begin

text \<open>
  Postprocessing of query results: \<open>QueryPostprocessingWork\<close>, \<open>PathStepProjection\<close> and
  \<open>PathStepMaterializer\<close> in \<^verbatim>\<open>crates/depgraph-core/src/query.rs\<close>.

  A query ends with a set of selected edges. The projection indexes, in one pass over the snapshot each, the
  evidence of the selected edges, the profile correlation each belongs to and the phase coverage of the
  correlated profiles; materialization then assembles one \<open>PathStep\<close> per edge. Every unit of work is charged to
  one of two budgets, one for the scans of the whole snapshot and one for what the request selected.
  \<open>path_step_of\<close> is the reference: what a step contains, read off the snapshot with no index and no budget.

  \<open>serde_json::from_value::<Condition>\<close> is derived by a macro; it is the parameter \<open>decode\<close>.
\<close>

section \<open>The work counter\<close>

datatype QueryPostprocessingStage =
    EdgeSelection | EvidenceScan | EvidenceOwnerInsertion | EvidenceOwnerFinalization | EvidenceClone
  | CorrelationRecord | CorrelationPhase | CorrelationEdge | CorrelationInsertion | ProfileEntry
  | ProfileInsertion | EdgeLookup | PathStepStage | ReasonClone | PhaseEntryClone | PhaseProfileClone
  | PhaseCompletenessClone | EdgeOutput

definition all_stages :: "QueryPostprocessingStage list" where
  "all_stages =
     [EdgeSelection, EvidenceScan, EvidenceOwnerInsertion, EvidenceOwnerFinalization, EvidenceClone,
      CorrelationRecord, CorrelationPhase, CorrelationEdge, CorrelationInsertion, ProfileEntry,
      ProfileInsertion, EdgeLookup, PathStepStage, ReasonClone, PhaseEntryClone, PhaseProfileClone,
      PhaseCompletenessClone, EdgeOutput]"

definition QUERY_POSTPROCESSING_STAGE_COUNT :: nat where
  "QUERY_POSTPROCESSING_STAGE_COUNT = 18"

text \<open>\<open>stage as usize\<close>\<close>

fun stage_index :: "QueryPostprocessingStage \<Rightarrow> nat" where
  "stage_index EdgeSelection = 0"
| "stage_index EvidenceScan = 1"
| "stage_index EvidenceOwnerInsertion = 2"
| "stage_index EvidenceOwnerFinalization = 3"
| "stage_index EvidenceClone = 4"
| "stage_index CorrelationRecord = 5"
| "stage_index CorrelationPhase = 6"
| "stage_index CorrelationEdge = 7"
| "stage_index CorrelationInsertion = 8"
| "stage_index ProfileEntry = 9"
| "stage_index ProfileInsertion = 10"
| "stage_index EdgeLookup = 11"
| "stage_index PathStepStage = 12"
| "stage_index ReasonClone = 13"
| "stage_index PhaseEntryClone = 14"
| "stage_index PhaseProfileClone = 15"
| "stage_index PhaseCompletenessClone = 16"
| "stage_index EdgeOutput = 17"

definition is_snapshot_scan :: "QueryPostprocessingStage \<Rightarrow> bool" where
  "is_snapshot_scan stage \<longleftrightarrow>
     stage \<in> {EvidenceScan, CorrelationRecord, CorrelationPhase, CorrelationEdge, ProfileEntry}"

record QueryPostprocessingWork =
  qw_used :: nat
  qw_maximum :: nat
  qw_scanned :: nat
  qw_scan_maximum :: nat
  qw_stage_counts :: "nat list"

definition with_scan_maximum :: "nat \<Rightarrow> nat \<Rightarrow> QueryPostprocessingWork" where
  "with_scan_maximum maximum scan_maximum =
     \<lparr>qw_used = 0, qw_maximum = maximum, qw_scanned = 0, qw_scan_maximum = scan_maximum,
      qw_stage_counts = replicate QUERY_POSTPROCESSING_STAGE_COUNT 0\<rparr>"

definition new_postprocessing_work :: "nat \<Rightarrow> QueryPostprocessingWork" where
  "new_postprocessing_work maximum = with_scan_maximum maximum MAX_GRAPH_SNAPSHOT_SCAN_WORK_ITEMS"

type_synonym 'a pp = "(QueryPostprocessingWork, 'a) comp"

definition count_stage :: "QueryPostprocessingStage \<Rightarrow> QueryPostprocessingWork \<Rightarrow> QueryPostprocessingWork" where
  "count_stage stage w =
     w\<lparr>qw_stage_counts := (qw_stage_counts w)[stage_index stage := qw_stage_counts w ! stage_index stage + 1]\<rparr>"

definition pp_step :: "QueryPostprocessingStage \<Rightarrow> unit pp" where
  "pp_step stage = (\<lambda>cancel (w, polls).
     if cancel polls then Inl QueryPostprocessingCancelled
     else if is_snapshot_scan stage then
       (if qw_scanned w \<ge> qw_scan_maximum w then Inl (QueryPostprocessingWorkExhausted (qw_scan_maximum w))
        else Inr ((), count_stage stage (w\<lparr>qw_scanned := qw_scanned w + 1\<rparr>), Suc polls))
     else
       (if qw_used w \<ge> qw_maximum w then Inl (QueryPostprocessingWorkExhausted (qw_maximum w))
        else Inr ((), count_stage stage (w\<lparr>qw_used := qw_used w + 1\<rparr>), Suc polls)))"

section \<open>Path steps\<close>

record PathStep =
  step_edge :: EdgeRecord
  step_condition_text :: string
  step_evidence :: "EvidenceRecord list"
  step_effective_profile_id :: "string option"
  step_correlation_status :: "string option"
  step_observed_difference_reasons :: "string list"
  step_phase_coverage :: "(string, PhaseCoverageRecord) bmap"

record PathStepProjection =
  proj_evidence :: "(string, EvidenceRecord list) bmap"
  proj_correlations :: "(string, ProfileCorrelationRecord) bmap"
  proj_phase_coverage :: "(string, (string, PhaseCoverageRecord) bmap) bmap"

text \<open>\<open>evidence_order\<close> compares these components one after the other.\<close>

definition evidence_order ::
  "externals \<Rightarrow> EvidenceRecord \<Rightarrow>
     int \<times> string \<times> string \<times> nat \<times> nat \<times> nat \<times> nat \<times> string \<times> string \<times> string option \<times> string" where
  "evidence_order E v =
     (ev_ordinal v, ev_kind v, ev_path v, ev_start_line v, ev_start_column v, ev_end_line v, ev_end_column v,
      ev_extractor v, ev_extractor_version v, ev_detail v, json_to_string E (ev_properties v))"

definition render_condition :: "externals \<Rightarrow> (json \<Rightarrow> condition option) \<Rightarrow> json \<Rightarrow> string" where
  "render_condition E decode value =
     (case decode value of Some c \<Rightarrow> render E c | None \<Rightarrow> json_to_string E value)"

definition site_correlation_map :: "ProfileMatrixRecord \<Rightarrow> (string, ProfileCorrelationRecord) bmap" where
  "site_correlation_map matrix =
     fold (\<lambda>(sid, correlation). bm_insert sid correlation)
       (concat (map (\<lambda>correlation. map (\<lambda>sid. (sid, correlation))
          (concat (bm_values (corr_site_ids_by_phase correlation)))) (matrix_correlations matrix))) []"

section \<open>The projection\<close>

definition evidence_selected :: "GraphQueryFilter \<Rightarrow> string bset \<Rightarrow> EvidenceRecord \<Rightarrow> bool" where
  "evidence_selected qf selected_edge_ids item \<longleftrightarrow>
     \<not> (ev_owner_type item \<noteq> ''edge'' \<or> \<not> bs_contains selected_edge_ids (ev_owner_id item)
        \<or> \<not> matches_evidence qf item)"

definition collect_evidence ::
  "GraphQueryFilter \<Rightarrow> string bset \<Rightarrow> EvidenceRecord list \<Rightarrow> (string, EvidenceRecord list) bmap pp" where
  "collect_evidence qf selected_edge_ids evidence =
     m_fold (\<lambda>item evidence_refs.
       m_bind (pp_step EvidenceScan) (\<lambda>_.
       if \<not> evidence_selected qf selected_edge_ids item then m_return evidence_refs
       else m_bind (pp_step EvidenceOwnerInsertion) (\<lambda>_.
         let records = (case bm_get evidence_refs (ev_owner_id item) of None \<Rightarrow> [] | Some records \<Rightarrow> records) in
         if length records \<ge> MAX_GRAPH_EVIDENCE_ITEMS then m_fail QueryPostprocessingExhausted
         else m_return (bm_insert (ev_owner_id item) (records @ [item]) evidence_refs)))) evidence []"

definition clone_items :: "QueryPostprocessingStage \<Rightarrow> 'a list \<Rightarrow> 'a list pp" where
  "clone_items stage items = m_fold (\<lambda>item cloned. m_bind (pp_step stage) (\<lambda>_. m_return (cloned @ [item]))) items []"

definition finalize_evidence ::
  "externals \<Rightarrow> (string, EvidenceRecord list) bmap \<Rightarrow> (string, EvidenceRecord list) bmap pp" where
  "finalize_evidence E evidence_refs =
     m_fold (\<lambda>(owner_id, records) evidence.
       m_bind (pp_step EvidenceOwnerFinalization) (\<lambda>_.
       let records = sort_key (evidence_order E) records in
       m_bind (pp_step EvidenceOwnerFinalization) (\<lambda>_.
       m_bind (clone_items EvidenceClone records) (\<lambda>cloned.
       m_return (bm_insert owner_id cloned evidence))))) evidence_refs []"

type_synonym correlation_index = "(string, ProfileCorrelationRecord) bmap \<times> string bset"

definition correlate_edge ::
  "string bset \<Rightarrow> ProfileCorrelationRecord \<Rightarrow> string \<Rightarrow> correlation_index \<Rightarrow> correlation_index pp" where
  "correlate_edge selected_edge_ids correlation eid = (\<lambda>(correlations, effective_profile_ids).
     m_bind (pp_step CorrelationEdge) (\<lambda>_.
     if \<not> bs_contains selected_edge_ids eid then m_return (correlations, effective_profile_ids)
     else if length (corr_difference_reasons correlation) > MAX_UNRESOLVED_CORRELATION_REASONS
     then m_fail QueryPostprocessingExhausted
     else m_bind (pp_step CorrelationInsertion) (\<lambda>_.
       if bm_contains_key correlations eid then m_fail QueryPostprocessingIntegrity
       else
         let correlations = bm_insert eid correlation correlations in
         if \<not> bs_contains effective_profile_ids (corr_effective_profile_id correlation)
         then m_bind (pp_step CorrelationInsertion) (\<lambda>_.
           m_return (correlations, bs_insert (corr_effective_profile_id correlation) effective_profile_ids))
         else m_return (correlations, effective_profile_ids))))"

definition correlate_phases ::
  "string bset \<Rightarrow> ProfileCorrelationRecord \<Rightarrow> string list list \<Rightarrow> correlation_index \<Rightarrow> correlation_index pp" where
  "correlate_phases selected_edge_ids correlation =
     m_fold (\<lambda>edge_ids index.
       m_bind (pp_step CorrelationPhase) (\<lambda>_.
       m_fold (correlate_edge selected_edge_ids correlation) edge_ids index))"

definition collect_correlations ::
  "string bset \<Rightarrow> ProfileCorrelationRecord list \<Rightarrow> correlation_index pp" where
  "collect_correlations selected_edge_ids correlations =
     m_fold (\<lambda>correlation index.
       m_bind (pp_step CorrelationRecord) (\<lambda>_.
       correlate_phases selected_edge_ids correlation (bm_values (corr_edge_ids_by_phase correlation)) index))
       correlations ([], [])"

definition collect_phase_coverage ::
  "string bset \<Rightarrow> ProfileMatrixEntryRecord list \<Rightarrow> (string, (string, PhaseCoverageRecord) bmap) bmap pp" where
  "collect_phase_coverage effective_profile_ids entries =
     m_fold (\<lambda>entry phase_coverage.
       m_bind (pp_step ProfileEntry) (\<lambda>_.
       if \<not> bs_contains effective_profile_ids (entry_id entry) \<or> bm_contains_key phase_coverage (entry_id entry)
       then m_return phase_coverage
       else if length (entry_phase_coverage entry) > MAX_GRAPH_PHASE_COVERAGE_ITEMS
       then m_fail QueryPostprocessingExhausted
       else m_bind (pp_step ProfileInsertion) (\<lambda>_.
         m_return (bm_insert (entry_id entry) (entry_phase_coverage entry) phase_coverage)))) entries []"

definition build_projection ::
  "externals \<Rightarrow> GraphSnapshot \<Rightarrow> GraphQueryFilter \<Rightarrow> string bset \<Rightarrow> PathStepProjection pp" where
  "build_projection E snapshot qf selected_edge_ids =
     m_bind (collect_evidence qf selected_edge_ids (snap_evidence snapshot)) (\<lambda>evidence_refs.
     m_bind (finalize_evidence E evidence_refs) (\<lambda>evidence.
     m_bind (collect_correlations selected_edge_ids (matrix_correlations (snap_profile_matrix snapshot)))
       (\<lambda>(correlations, effective_profile_ids).
     m_bind (collect_phase_coverage effective_profile_ids (matrix_entries (snap_profile_matrix snapshot)))
       (\<lambda>phase_coverage.
     m_return \<lparr>proj_evidence = evidence, proj_correlations = correlations,
       proj_phase_coverage = phase_coverage\<rparr>))))"

section \<open>Materialization\<close>

definition clone_phase_coverage ::
  "(string, PhaseCoverageRecord) bmap \<Rightarrow> (string, PhaseCoverageRecord) bmap pp" where
  "clone_phase_coverage coverage =
     m_fold (\<lambda>(phase, record) phase_coverage.
       m_bind (pp_step PhaseEntryClone) (\<lambda>_.
       m_bind (clone_items PhaseProfileClone (pc_profile_ids record)) (\<lambda>profile_ids.
       m_bind (clone_items PhaseCompletenessClone (pc_completeness record)) (\<lambda>completeness.
       m_return (bm_insert phase
         \<lparr>pc_profile_ids = profile_ids, pc_sites = pc_sites record, pc_edges = pc_edges record,
          pc_evidence = pc_evidence record, pc_resolved = pc_resolved record,
          pc_candidates = pc_candidates record, pc_external = pc_external record,
          pc_unresolved = pc_unresolved record, pc_completeness = completeness\<rparr> phase_coverage))))) coverage []"

definition materialize_correlation ::
  "PathStepProjection \<Rightarrow> ProfileCorrelationRecord option \<Rightarrow>
     (string list \<times> (string, PhaseCoverageRecord) bmap) pp" where
  "materialize_correlation proj correlation =
     (case correlation of
        None \<Rightarrow> m_return ([], [])
      | Some correlation \<Rightarrow>
          if length (corr_difference_reasons correlation) > MAX_UNRESOLVED_CORRELATION_REASONS
          then m_fail QueryPostprocessingExhausted
          else m_bind (clone_items ReasonClone (corr_difference_reasons correlation)) (\<lambda>reasons.
            case bm_get (proj_phase_coverage proj) (corr_effective_profile_id correlation) of
              None \<Rightarrow> m_return (reasons, [])
            | Some coverage \<Rightarrow>
                if length coverage > MAX_GRAPH_PHASE_COVERAGE_ITEMS then m_fail QueryPostprocessingExhausted
                else m_bind (clone_phase_coverage coverage) (\<lambda>coverage. m_return (reasons, coverage))))"

definition materialize_step ::
  "externals \<Rightarrow> (json \<Rightarrow> condition option) \<Rightarrow> PathStepProjection \<Rightarrow> EdgeRecord \<Rightarrow> PathStep pp" where
  "materialize_step E decode proj edge =
     m_bind (pp_step EdgeLookup) (\<lambda>_.
     let evidence = bm_get (proj_evidence proj) (edge_id edge);
         correlation = bm_get (proj_correlations proj) (edge_id edge) in
     m_bind (pp_step PathStepStage) (\<lambda>_.
     m_bind (case evidence of None \<Rightarrow> m_return [] | Some evidence \<Rightarrow> clone_items EvidenceClone evidence)
       (\<lambda>cloned_evidence.
     m_bind (materialize_correlation proj correlation) (\<lambda>(reasons, phase_coverage).
     m_bind (pp_step PathStepStage) (\<lambda>_.
     m_return
       \<lparr>step_edge = edge, step_condition_text = render_condition E decode (edge_condition edge),
        step_evidence = cloned_evidence,
        step_effective_profile_id = map_option corr_effective_profile_id correlation,
        step_correlation_status = map_option corr_status correlation,
        step_observed_difference_reasons = reasons, step_phase_coverage = phase_coverage\<rparr>)))))"

text \<open>
  \<open>PathStepMaterializer::new\<close> selects the edges and builds the projection; the counter it creates stays in the
  state and is charged by \<open>materialize\<close> and \<open>clone_edge_output\<close> too.
\<close>

definition select_edges :: "EdgeRecord list \<Rightarrow> string bset pp" where
  "select_edges edges =
     m_fold (\<lambda>edge selected. m_bind (pp_step EdgeSelection) (\<lambda>_. m_return (bs_insert (edge_id edge) selected))) edges []"

definition materializer_with_work ::
  "externals \<Rightarrow> GraphSnapshot \<Rightarrow> GraphQueryFilter \<Rightarrow> EdgeRecord list \<Rightarrow> PathStepProjection pp" where
  "materializer_with_work E snapshot qf edges =
     m_bind (select_edges edges) (build_projection E snapshot qf)"

definition clone_edge_output :: "EdgeRecord \<Rightarrow> EdgeRecord pp" where
  "clone_edge_output edge = m_bind (pp_step EdgeOutput) (\<lambda>_. m_return edge)"

text \<open>Running a postprocessing computation on a fresh counter (\<open>PathStepMaterializer::new\<close>).\<close>

definition run_postprocessing :: "nat \<Rightarrow> 'a pp \<Rightarrow> canceller \<Rightarrow> nat \<Rightarrow> query_error + 'a \<times> nat" where
  "run_postprocessing maximum_work m cancel polls =
     sum_bind (m cancel (new_postprocessing_work maximum_work, polls)) (\<lambda>(x, _, polls). Inr (x, polls))"

definition materialize_all ::
  "externals \<Rightarrow> (json \<Rightarrow> condition option) \<Rightarrow> GraphSnapshot \<Rightarrow> GraphQueryFilter \<Rightarrow> EdgeRecord list
     \<Rightarrow> PathStep list pp" where
  "materialize_all E decode snapshot qf edges =
     m_bind (materializer_with_work E snapshot qf edges) (\<lambda>proj.
     m_fold (\<lambda>edge steps. m_bind (materialize_step E decode proj edge) (\<lambda>step. m_return (steps @ [step]))) edges [])"

definition materialize_path_steps_bounded_cancellable ::
  "externals \<Rightarrow> (json \<Rightarrow> condition option) \<Rightarrow> GraphSnapshot \<Rightarrow> GraphQueryFilter \<Rightarrow> EdgeRecord list
     \<Rightarrow> nat \<Rightarrow> canceller \<Rightarrow> nat \<Rightarrow> query_error + PathStep list \<times> nat" where
  "materialize_path_steps_bounded_cancellable E decode snapshot qf edges maximum_work cancel polls =
     (if length edges > MAX_DEPENDENCY_PATH_STEPS then Inl QueryPostprocessingExhausted
      else run_postprocessing maximum_work (materialize_all E decode snapshot qf edges) cancel polls)"

section \<open>The reference\<close>

definition edge_evidence :: "externals \<Rightarrow> GraphSnapshot \<Rightarrow> GraphQueryFilter \<Rightarrow> string \<Rightarrow> EvidenceRecord list" where
  "edge_evidence E snapshot qf eid =
     sort_key (evidence_order E)
       (filter (\<lambda>v. ev_owner_type v = ''edge'' \<and> ev_owner_id v = eid \<and> matches_evidence qf v) (snap_evidence snapshot))"

definition edge_occurrences :: "ProfileCorrelationRecord list \<Rightarrow> (string \<times> ProfileCorrelationRecord) list" where
  "edge_occurrences correlations =
     concat (map (\<lambda>c. map (\<lambda>eid. (eid, c)) (concat (bm_values (corr_edge_ids_by_phase c)))) correlations)"

definition edge_correlation :: "GraphSnapshot \<Rightarrow> string \<Rightarrow> ProfileCorrelationRecord option" where
  "edge_correlation snapshot eid = map_of (edge_occurrences (matrix_correlations (snap_profile_matrix snapshot))) eid"

definition path_step_of ::
  "externals \<Rightarrow> (json \<Rightarrow> condition option) \<Rightarrow> GraphSnapshot \<Rightarrow> GraphQueryFilter \<Rightarrow> EdgeRecord \<Rightarrow> PathStep" where
  "path_step_of E decode snapshot qf edge =
     (let correlation = edge_correlation snapshot (edge_id edge) in
      \<lparr>step_edge = edge, step_condition_text = render_condition E decode (edge_condition edge),
       step_evidence = edge_evidence E snapshot qf (edge_id edge),
       step_effective_profile_id = map_option corr_effective_profile_id correlation,
       step_correlation_status = map_option corr_status correlation,
       step_observed_difference_reasons =
         (case correlation of None \<Rightarrow> [] | Some c \<Rightarrow> corr_difference_reasons c),
       step_phase_coverage =
         (case correlation of None \<Rightarrow> []
          | Some c \<Rightarrow> phase_coverage_for_effective_profile (snap_profile_matrix snapshot) (corr_effective_profile_id c))\<rparr>)"

text \<open>The phase coverage of every profile entry is a \<open>BTreeMap\<close>.\<close>

definition wf_matrix :: "ProfileMatrixRecord \<Rightarrow> bool" where
  "wf_matrix matrix \<longleftrightarrow> list_all (\<lambda>entry. bm_invar (entry_phase_coverage entry)) (matrix_entries matrix)"

section \<open>The counter is a meter\<close>

definition pp_spent :: "QueryPostprocessingWork \<Rightarrow> bool \<Rightarrow> nat" where
  "pp_spent w scan = (if scan then qw_scanned w else qw_used w)"

definition pp_limit :: "QueryPostprocessingWork \<Rightarrow> bool \<Rightarrow> nat" where
  "pp_limit w scan = (if scan then qw_scan_maximum w else qw_maximum w)"

interpretation pp: meter pp_step is_snapshot_scan pp_spent pp_limit is_cancelled preprocessing_work_limit
  by unfold_locales
    (auto simp: pp_step_def pp_spent_def pp_limit_def count_stage_def fun_eq_iff split: if_splits)

section \<open>What each pass returns\<close>

lemma ensures_step: "(\<And>x. ensures (f x) Q) \<Longrightarrow> ensures (m_bind (pp_step stage) f) Q"
  by (rule ensures_then)

lemma fold_snoc: "fold (\<lambda>x acc. acc @ [h x]) xs acc = acc @ map h xs"
  by (induction xs arbitrary: acc) auto

lemma clone_items_returns: "ensures (clone_items stage xs) (\<lambda>ys. ys = xs)"
proof -
  have "ensures (clone_items stage xs) (\<lambda>ys. ys = fold (\<lambda>x acc. acc @ [x]) xs [])"
    unfolding clone_items_def by (rule returns_fold) (auto intro!: ensures_then)
  then show ?thesis using fold_snoc [of "\<lambda>x. x" xs "[]"] by simp
qed

lemma map_of_rev_distinct: "distinct (map fst xs) \<Longrightarrow> map_of (rev xs) = map_of xs"
  by (rule map_of_eqI) (auto simp: rev_map [symmetric])

lemma bm_collect_self: "bm_invar m \<Longrightarrow> bm.collect m [] = m"
  by (rule bm_ext) (simp_all add: bm.invar_collect bm.get_collect_empty map_of_rev_distinct bm_invar_distinct,
      simp add: bm_get_def)

lemma bm_get_collect_map:
  assumes "bm_invar m"
  shows "bm_get (fold (\<lambda>(k, v). bm_insert k (h v)) m []) k = map_option h (bm_get m k)"
proof -
  have "fold (\<lambda>(k, v). bm_insert k (h v)) m [] = bm.collect (map (\<lambda>(k, v). (k, h v)) m) []"
    by (simp add: fold_map comp_def case_prod_unfold)
  moreover have "distinct (map fst (map (\<lambda>(k, v). (k, h v)) m))"
    using bm_invar_distinct [OF assms] by (simp add: comp_def case_prod_beta)
  ultimately show ?thesis
    by (simp only: bm.get_collect_empty map_of_rev_distinct) (simp add: map_of_map bm_get_def)
qed

definition owned_by :: "GraphQueryFilter \<Rightarrow> string bset \<Rightarrow> EvidenceRecord list \<Rightarrow> string \<Rightarrow> EvidenceRecord list" where
  "owned_by qf selected evidence owner =
     filter (\<lambda>v. evidence_selected qf selected v \<and> ev_owner_id v = owner) evidence"

definition groups_evidence ::
  "GraphQueryFilter \<Rightarrow> string bset \<Rightarrow> EvidenceRecord list \<Rightarrow> (string, EvidenceRecord list) bmap \<Rightarrow> bool" where
  "groups_evidence qf selected evidence refs \<longleftrightarrow>
     bm_invar refs \<and> (\<forall>owner. bm_get refs owner =
       (if owned_by qf selected evidence owner = [] then None else Some (owned_by qf selected evidence owner)))"

lemma collect_evidence_returns:
  "ensures (collect_evidence qf selected evidence) (groups_evidence qf selected evidence)"
  unfolding collect_evidence_def
proof (rule ensures_fold)
  show "groups_evidence qf selected [] []" by (simp add: groups_evidence_def owned_by_def)
  fix "done" and x :: EvidenceRecord and refs
  assume inv: "groups_evidence qf selected done refs"
  let ?records = "case bm_get refs (ev_owner_id x) of None \<Rightarrow> [] | Some records \<Rightarrow> records"
  have rec: "?records = owned_by qf selected done (ev_owner_id x)"
    using inv by (simp add: groups_evidence_def)
  have skip: "groups_evidence qf selected (done @ [x]) refs" if "\<not> evidence_selected qf selected x"
    using inv that by (simp add: groups_evidence_def owned_by_def)
  have push: "groups_evidence qf selected (done @ [x]) (bm_insert (ev_owner_id x) (?records @ [x]) refs)"
    if "evidence_selected qf selected x"
    unfolding rec using inv that by (simp add: groups_evidence_def bm_get_insert owned_by_def)
  show "ensures (m_bind (pp_step EvidenceScan) (\<lambda>_.
       if \<not> evidence_selected qf selected x then m_return refs
       else m_bind (pp_step EvidenceOwnerInsertion) (\<lambda>_.
         let records = ?records in
         if length records \<ge> MAX_GRAPH_EVIDENCE_ITEMS then m_fail QueryPostprocessingExhausted
         else m_return (bm_insert (ev_owner_id x) (records @ [x]) refs))))
      (groups_evidence qf selected (done @ [x]))"
    unfolding Let_def by (intro ensures_then ensures_if ensures_return ensures_fail) (auto intro: skip push)
qed

lemma finalize_evidence_returns:
  "ensures (finalize_evidence E refs) (\<lambda>ev. ev = fold (\<lambda>(k, v). bm_insert k (sort_key (evidence_order E) v)) refs [])"
  unfolding finalize_evidence_def Let_def
  by (rule returns_fold) (auto simp: case_prod_beta intro!: ensures_step ensures_bind [OF clone_items_returns])

text \<open>The correlation index after the occurrences consumed so far.\<close>

definition selected_occurrences ::
  "string bset \<Rightarrow> (string \<times> ProfileCorrelationRecord) list \<Rightarrow> (string \<times> ProfileCorrelationRecord) list" where
  "selected_occurrences selected occ = filter (\<lambda>x. bs_contains selected (fst x)) occ"

definition indexes ::
  "string bset \<Rightarrow> (string \<times> ProfileCorrelationRecord) list \<Rightarrow> correlation_index \<Rightarrow> bool" where
  "indexes selected occ = (\<lambda>(correlations, profiles).
     bm_invar correlations \<and> distinct (map fst (selected_occurrences selected occ)) \<and>
     (\<forall>eid. bm_get correlations eid = map_of (selected_occurrences selected occ) eid) \<and>
     set profiles = corr_effective_profile_id ` snd ` set (selected_occurrences selected occ))"

lemma map_of_snoc_fresh:
  "k \<notin> fst ` set xs \<Longrightarrow> map_of (xs @ [(k, v)]) = (map_of xs)(k \<mapsto> v)"
  by (induction xs) (auto simp: fun_eq_iff)

lemma correlate_edge_returns:
  assumes "indexes selected occ index"
  shows "ensures (correlate_edge selected c eid index) (indexes selected (occ @ [(eid, c)]))"
proof -
  obtain cs ps where index: "index = (cs, ps)" by fastforce
  have skip: "\<not> bs_contains selected eid \<Longrightarrow> indexes selected (occ @ [(eid, c)]) (cs, ps)"
    using assms by (simp add: indexes_def selected_occurrences_def index)
  have push: "indexes selected (occ @ [(eid, c)]) (bm_insert eid c cs, ps')"
    if "bs_contains selected eid" and new: "\<not> bm_contains_key cs eid"
      and ps': "set ps' = insert (corr_effective_profile_id c) (set ps)" for ps'
  proof -
    have occ: "selected_occurrences selected (occ @ [(eid, c)]) = selected_occurrences selected occ @ [(eid, c)]"
      using that(1) by (simp add: selected_occurrences_def)
    have fresh: "eid \<notin> fst ` set (selected_occurrences selected occ)"
      using assms new by (auto simp: indexes_def index bm_contains_key_def map_of_eq_None_iff)
    show ?thesis unfolding indexes_def occ map_of_snoc_fresh [OF fresh] prod.case
      using assms ps' fresh by (auto simp: indexes_def index bm_get_insert)
  qed
  show ?thesis
    unfolding correlate_edge_def index prod.case Let_def
    by (intro ensures_then ensures_if ensures_return ensures_fail)
      (auto intro!: skip push simp: bs_contains_def)
qed

abbreviation occurrences_of :: "ProfileCorrelationRecord \<Rightarrow> string list \<Rightarrow> (string \<times> ProfileCorrelationRecord) list" where
  "occurrences_of c ids \<equiv> map (\<lambda>eid. (eid, c)) ids"

lemma correlate_edges_returns:
  assumes "indexes selected occ index"
  shows "ensures (m_fold (correlate_edge selected c) ids index) (indexes selected (occ @ occurrences_of c ids))"
  using assms correlate_edge_returns
  by (intro ensures_fold [where P = "\<lambda>done. indexes selected (occ @ occurrences_of c done)"]) fastforce+

lemma correlate_phase_returns:
  assumes "indexes selected occ index"
  shows "ensures (m_bind (pp_step CorrelationPhase) (\<lambda>_. m_fold (correlate_edge selected c) ids index))
     (indexes selected (occ @ occurrences_of c ids))"
  using correlate_edges_returns [OF assms] by (rule ensures_step)

lemma correlate_phases_returns:
  assumes "indexes selected occ index"
  shows "ensures (correlate_phases selected c phases index) (indexes selected (occ @ occurrences_of c (concat phases)))"
  unfolding correlate_phases_def
  by (rule ensures_fold [where P = "\<lambda>ds. indexes selected (occ @ occurrences_of c (concat ds))"])
    (use assms correlate_phase_returns in \<open>fastforce+\<close>)

lemma edge_occurrences_append: "edge_occurrences (cs @ ds) = edge_occurrences cs @ edge_occurrences ds"
  by (simp add: edge_occurrences_def)

lemma edge_occurrences_Cons:
  "edge_occurrences (c # cs) = occurrences_of c (concat (bm_values (corr_edge_ids_by_phase c))) @ edge_occurrences cs"
  by (simp add: edge_occurrences_def)

lemma edge_occurrences_Nil: "edge_occurrences [] = []"
  by (simp add: edge_occurrences_def)

lemmas edge_occurrences_simps = edge_occurrences_append edge_occurrences_Cons edge_occurrences_Nil

lemma collect_correlations_returns:
  "ensures (collect_correlations selected correlations) (indexes selected (edge_occurrences correlations))"
  unfolding collect_correlations_def
  by (rule ensures_fold [where P = "\<lambda>done. indexes selected (edge_occurrences done)"])
    (auto intro!: ensures_step simp: edge_occurrences_simps correlate_phases_returns,
      simp add: indexes_def selected_occurrences_def)

lemma find_snoc: "find P (xs @ [x]) = (case find P xs of None \<Rightarrow> if P x then Some x else None | Some y \<Rightarrow> Some y)"
  by (induction xs) auto

definition covers_profiles ::
  "string bset \<Rightarrow> ProfileMatrixEntryRecord list \<Rightarrow> (string, (string, PhaseCoverageRecord) bmap) bmap \<Rightarrow> bool" where
  "covers_profiles profiles entries cov \<longleftrightarrow> bm_invar cov \<and>
     (\<forall>i. bm_get cov i = (if bs_contains profiles i then
        map_option entry_phase_coverage (find (\<lambda>entry. entry_id entry = i) entries) else None))"

lemma covers_profiles_skip:
  "\<not> bs_contains profiles (entry_id x) \<or> bm_contains_key cov (entry_id x) \<Longrightarrow>
   covers_profiles profiles entries cov \<Longrightarrow> covers_profiles profiles (entries @ [x]) cov"
  by (auto simp: covers_profiles_def find_snoc bm_contains_key_def split: option.splits if_splits)

lemma covers_profiles_insert:
  "bs_contains profiles (entry_id x) \<Longrightarrow> \<not> bm_contains_key cov (entry_id x) \<Longrightarrow>
   covers_profiles profiles entries cov \<Longrightarrow>
   covers_profiles profiles (entries @ [x]) (bm_insert (entry_id x) (entry_phase_coverage x) cov)"
  by (auto simp: covers_profiles_def find_snoc bm_contains_key_def bm_get_insert split: option.splits if_splits)

lemma collect_phase_coverage_returns:
  "ensures (collect_phase_coverage profiles entries) (covers_profiles profiles entries)"
  unfolding collect_phase_coverage_def
  by (rule ensures_fold)
    (auto simp: covers_profiles_skip covers_profiles_insert intro!: ensures_step ensures_if ensures_return ensures_fail,
      simp add: covers_profiles_def)

lemma phase_coverage_eta [simp]:
  "\<lparr>pc_profile_ids = pc_profile_ids r, pc_sites = pc_sites r, pc_edges = pc_edges r, pc_evidence = pc_evidence r,
    pc_resolved = pc_resolved r, pc_candidates = pc_candidates r, pc_external = pc_external r,
    pc_unresolved = pc_unresolved r, pc_completeness = pc_completeness r\<rparr> = (r :: PhaseCoverageRecord)"
  by (cases r) simp

lemma clone_phase_coverage_returns:
  assumes "bm_invar cov"
  shows "ensures (clone_phase_coverage cov) (\<lambda>c. c = cov)"
proof -
  have "ensures (clone_phase_coverage cov) (\<lambda>c. c = fold (\<lambda>(k, v). bm_insert k v) cov [])"
    unfolding clone_phase_coverage_def
    by (rule returns_fold)
      (auto simp: case_prod_beta intro!: ensures_step ensures_bind [OF clone_items_returns] ensures_return)
  then show ?thesis by (simp add: bm_collect_self [OF assms])
qed


section \<open>The steps\<close>

definition projects ::
  "externals \<Rightarrow> GraphSnapshot \<Rightarrow> GraphQueryFilter \<Rightarrow> string bset \<Rightarrow> PathStepProjection \<Rightarrow> bool" where
  "projects E snapshot qf selected proj \<longleftrightarrow>
     (\<forall>eid. bs_contains selected eid \<longrightarrow>
        (case bm_get (proj_evidence proj) eid of None \<Rightarrow> [] | Some l \<Rightarrow> l) = edge_evidence E snapshot qf eid \<and>
        bm_get (proj_correlations proj) eid = edge_correlation snapshot eid \<and>
        (\<forall>c. edge_correlation snapshot eid = Some c \<longrightarrow>
           bm_get (proj_phase_coverage proj) (corr_effective_profile_id c) =
           map_option entry_phase_coverage (find (\<lambda>entry. entry_id entry = corr_effective_profile_id c)
             (matrix_entries (snap_profile_matrix snapshot)))))"

lemma map_of_selected:
  "bs_contains selected eid \<Longrightarrow> map_of (selected_occurrences selected occ) eid = map_of occ eid"
  by (induction occ) (auto simp: selected_occurrences_def)

lemma owned_by_selected:
  "bs_contains selected eid \<Longrightarrow> owned_by qf selected evidence eid =
     filter (\<lambda>v. ev_owner_type v = ''edge'' \<and> ev_owner_id v = eid \<and> matches_evidence qf v) evidence"
  unfolding owned_by_def by (rule filter_cong) (auto simp: evidence_selected_def)

lemma build_projection_returns:
  "ensures (build_projection E snapshot qf selected) (\<lambda>proj. projects E snapshot qf selected proj \<and>
     distinct (map fst (selected_occurrences selected
       (edge_occurrences (matrix_correlations (snap_profile_matrix snapshot))))))"
  unfolding build_projection_def
proof (rule ensures_bind [OF collect_evidence_returns], rule ensures_bind [OF finalize_evidence_returns],
    rule ensures_bind [OF collect_correlations_returns], clarsimp, rule ensures_bind [OF collect_phase_coverage_returns],
    rule ensures_return)
  let ?matrix = "snap_profile_matrix snapshot"
  let ?occ = "edge_occurrences (matrix_correlations ?matrix)"
  fix refs ps cov and cs :: "(string, ProfileCorrelationRecord) bmap"
  assume ev: "groups_evidence qf selected (snap_evidence snapshot) refs"
    and cs: "indexes selected ?occ (cs, ps)"
    and cov: "covers_profiles ps (matrix_entries ?matrix) cov"
  let ?ev = "fold (\<lambda>(k, v). bm_insert k (sort_key (evidence_order E) v)) refs []"
  show "projects E snapshot qf selected
       \<lparr>proj_evidence = ?ev, proj_correlations = cs, proj_phase_coverage = cov\<rparr> \<and>
     distinct (map fst (selected_occurrences selected ?occ))"
    unfolding projects_def
  proof (intro conjI allI impI)
    fix eid assume sel: "bs_contains selected eid"
    show "(case bm_get (proj_evidence \<lparr>proj_evidence = ?ev, proj_correlations = cs, proj_phase_coverage = cov\<rparr>) eid of
        None \<Rightarrow> [] | Some l \<Rightarrow> l) = edge_evidence E snapshot qf eid"
      using ev by (auto simp: bm_get_collect_map groups_evidence_def edge_evidence_def owned_by_selected [OF sel])
    show corr: "bm_get (proj_correlations \<lparr>proj_evidence = ?ev, proj_correlations = cs, proj_phase_coverage = cov\<rparr>) eid
        = edge_correlation snapshot eid"
      using cs by (simp add: indexes_def edge_correlation_def map_of_selected [OF sel])
    fix c assume c: "edge_correlation snapshot eid = Some c"
    then have "(eid, c) \<in> set (selected_occurrences selected ?occ)"
      using map_of_SomeD [of ?occ eid c] sel by (simp add: edge_correlation_def selected_occurrences_def)
    then have "bs_contains ps (corr_effective_profile_id c)"
      using cs by (force simp: indexes_def bs_contains_def)
    then show "bm_get (proj_phase_coverage \<lparr>proj_evidence = ?ev, proj_correlations = cs, proj_phase_coverage = cov\<rparr>)
        (corr_effective_profile_id c) = map_option entry_phase_coverage
          (find (\<lambda>entry. entry_id entry = corr_effective_profile_id c) (matrix_entries ?matrix))"
      using cov by (simp add: covers_profiles_def)
  qed (use cs in \<open>simp add: indexes_def\<close>)
qed

lemma materialize_step_returns:
  assumes proj: "projects E snapshot qf selected proj" and sel: "bs_contains selected (edge_id edge)"
    and wf: "wf_matrix (snap_profile_matrix snapshot)"
  shows "ensures (materialize_step E decode proj edge) (\<lambda>step. step = path_step_of E decode snapshot qf edge)"
proof -
  let ?matrix = "snap_profile_matrix snapshot"
  let ?corr = "edge_correlation snapshot (edge_id edge)"
  have corr: "bm_get (proj_correlations proj) (edge_id edge) = ?corr"
    using proj sel by (simp add: projects_def)
  have ev: "ensures (case bm_get (proj_evidence proj) (edge_id edge) of None \<Rightarrow> m_return []
      | Some evidence \<Rightarrow> clone_items EvidenceClone evidence) (\<lambda>l. l = edge_evidence E snapshot qf (edge_id edge))"
    using proj sel clone_items_returns [of EvidenceClone]
    by (fastforce simp: projects_def split: option.split)
  have cov: "ensures (materialize_correlation proj ?corr) (\<lambda>(reasons, coverage).
      reasons = (case ?corr of None \<Rightarrow> [] | Some c \<Rightarrow> corr_difference_reasons c) \<and>
      coverage = (case ?corr of None \<Rightarrow> []
        | Some c \<Rightarrow> phase_coverage_for_effective_profile ?matrix (corr_effective_profile_id c)))"
  proof (cases ?corr)
    case (Some c)
    let ?found = "find (\<lambda>entry. entry_id entry = corr_effective_profile_id c) (matrix_entries ?matrix)"
    have get: "bm_get (proj_phase_coverage proj) (corr_effective_profile_id c) = map_option entry_phase_coverage ?found"
      using proj sel Some by (simp add: projects_def)
    have inv: "bm_invar (entry_phase_coverage e)" if "?found = Some e" for e
      using that wf by (auto simp: wf_matrix_def list_all_iff find_Some_iff)
    show ?thesis
      unfolding materialize_correlation_def Some option.case get
      by (intro ensures_if ensures_fail ensures_bind [OF clone_items_returns])
        (auto simp: phase_coverage_for_effective_profile_def split: option.splits
          intro!: ensures_return ensures_bind [OF clone_phase_coverage_returns [OF inv]])
  qed (auto simp: materialize_correlation_def)
  show ?thesis
    unfolding materialize_step_def Let_def corr
    by (intro ensures_step ensures_bind [OF ev] ensures_bind [OF cov])
      (auto simp: path_step_of_def Let_def intro!: ensures_step ensures_return)
qed

lemma select_edges_returns: "ensures (select_edges edges) (\<lambda>s. s = bs_of_list (map edge_id edges))"
proof -
  have "ensures (select_edges edges) (\<lambda>s. s = fold (\<lambda>e. bs_insert (edge_id e)) edges [])"
    unfolding select_edges_def by (rule returns_fold) (auto intro!: ensures_step)
  then show ?thesis by (simp add: bs_of_list_def fold_map comp_def)
qed

lemma materializer_returns:
  "ensures (materializer_with_work E snapshot qf edges) (\<lambda>proj.
     projects E snapshot qf (bs_of_list (map edge_id edges)) proj \<and>
     distinct (map fst (selected_occurrences (bs_of_list (map edge_id edges))
       (edge_occurrences (matrix_correlations (snap_profile_matrix snapshot))))))"
  unfolding materializer_with_work_def
  by (rule ensures_bind [OF select_edges_returns]) (simp add: build_projection_returns)

lemma materialize_all_returns:
  assumes "wf_matrix (snap_profile_matrix snapshot)"
  shows "ensures (materialize_all E decode snapshot qf edges) (\<lambda>steps.
     steps = map (path_step_of E decode snapshot qf) edges \<and>
     distinct (map fst (selected_occurrences (bs_of_list (map edge_id edges))
       (edge_occurrences (matrix_correlations (snap_profile_matrix snapshot))))))"
  unfolding materialize_all_def
proof (rule ensures_bind [OF materializer_returns], elim conjE)
  fix proj
  let ?sel = "bs_of_list (map edge_id edges)"
  assume proj: "projects E snapshot qf ?sel proj" and dist: "distinct (map fst (selected_occurrences ?sel
       (edge_occurrences (matrix_correlations (snap_profile_matrix snapshot)))))"
  have "ensures (m_fold (\<lambda>edge steps. m_bind (materialize_step E decode proj edge) (\<lambda>step. m_return (steps @ [step])))
      edges []) (\<lambda>steps. steps = fold (\<lambda>x acc. acc @ [path_step_of E decode snapshot qf x]) edges [])"
    using materialize_step_returns [OF proj _ assms]
    by (intro returns_fold) (auto simp: bs_contains_def intro!: ensures_bind)
  then show "ensures (m_fold (\<lambda>edge steps. m_bind (materialize_step E decode proj edge) (\<lambda>step. m_return (steps @ [step])))
      edges []) (\<lambda>steps. steps = map (path_step_of E decode snapshot qf) edges \<and>
     distinct (map fst (selected_occurrences ?sel
       (edge_occurrences (matrix_correlations (snap_profile_matrix snapshot))))))"
    using dist by (simp add: fold_snoc)
qed


section \<open>How postprocessing fails\<close>

text \<open>
  The only failures are a cancellation, an exhausted budget or cap, and the integrity failure, which is
  raised only when a selected edge occurs twice in the profile correlations.
\<close>

definition closed_failure ::
  "string bset \<Rightarrow> (string \<times> ProfileCorrelationRecord) list \<Rightarrow> query_error \<Rightarrow> bool" where
  "closed_failure selected occ e \<longleftrightarrow> is_cancelled e \<or> is_resource_exhausted e \<or>
     (e = QueryPostprocessingIntegrity \<and> \<not> distinct (map fst (selected_occurrences selected occ)))"

lemma fails_step: "(\<And>x. fails_with (f x) (closed_failure sel occ)) \<Longrightarrow>
    fails_with (m_bind (pp_step k) f) (closed_failure sel occ)"
  by (rule fails_then, rule pp.fails_tick) (auto simp: closed_failure_def intro: preprocessing_work_exhausted)

lemma fails_exhausted: "fails_with (m_fail QueryPostprocessingExhausted) (closed_failure sel occ)"
  by (rule fails_fail) (simp add: closed_failure_def)

lemma fails_if: "(b \<Longrightarrow> fails_with m Q) \<Longrightarrow> (\<not> b \<Longrightarrow> fails_with n Q) \<Longrightarrow> fails_with (if b then m else n) Q"
  by simp

lemma clone_items_fails: "fails_with (clone_items k xs) (closed_failure sel occ)"
  unfolding clone_items_def by (intro fails_fold fails_step fails_return)

lemma correlate_edge_fails:
  assumes index: "indexes selected occ index" and all: "all_occ = occ @ (eid, c) # rest"
  shows "fails_with (correlate_edge selected c eid index) (closed_failure selected all_occ)"
proof -
  obtain cs ps where cs: "index = (cs, ps)" by fastforce
  have dup: "closed_failure selected all_occ QueryPostprocessingIntegrity"
    if sel: "bs_contains selected eid" and key: "bm_contains_key cs eid"
  proof -
    have "map_of (selected_occurrences selected occ) eid \<noteq> None"
      using index key by (simp add: indexes_def cs bm_contains_key_def)
    then have "eid \<in> set (map fst (selected_occurrences selected occ))" by (simp add: map_of_eq_None_iff)
    moreover have "selected_occurrences selected all_occ =
        selected_occurrences selected occ @ (eid, c) # selected_occurrences selected rest"
      using sel by (simp add: selected_occurrences_def all)
    ultimately show ?thesis by (simp add: closed_failure_def)
  qed
  show ?thesis
    unfolding correlate_edge_def cs prod.case Let_def
    by (intro fails_step fails_if fails_exhausted fails_fail fails_return) (simp_all add: dup)
qed

lemma correlate_edges_fails:
  assumes index: "indexes selected occ index" and all: "all_occ = occ @ occurrences_of c ids @ rest"
  shows "fails_with (m_fold (correlate_edge selected c) ids index) (closed_failure selected all_occ)"
proof (rule fails_fold_inv [where P = "\<lambda>done. indexes selected (occ @ occurrences_of c done)"])
  fix "done" x todo a
  assume split: "ids = done @ x # todo" and inv: "indexes selected (occ @ occurrences_of c done) a"
  from correlate_edge_returns [OF inv, of c x]
  show "ensures (correlate_edge selected c x a) (indexes selected (occ @ occurrences_of c (done @ [x])))" by simp
  show "fails_with (correlate_edge selected c x a) (closed_failure selected all_occ)"
    by (rule correlate_edge_fails [OF inv, of _ _ _ "occurrences_of c todo @ rest"]) (simp add: all split)
qed (use index in simp)

lemma correlate_phases_fails:
  assumes index: "indexes selected occ index" and all: "all_occ = occ @ occurrences_of c (concat phases) @ rest"
  shows "fails_with (correlate_phases selected c phases index) (closed_failure selected all_occ)"
  unfolding correlate_phases_def
proof (rule fails_fold_inv [where P = "\<lambda>done. indexes selected (occ @ occurrences_of c (concat done))"])
  fix "done" x todo a
  assume split: "phases = done @ x # todo" and inv: "indexes selected (occ @ occurrences_of c (concat done)) a"
  from correlate_phase_returns [OF inv, of c x]
  show "ensures (m_bind (pp_step CorrelationPhase) (\<lambda>_. m_fold (correlate_edge selected c) x a))
      (indexes selected (occ @ occurrences_of c (concat (done @ [x]))))" by simp
  show "fails_with (m_bind (pp_step CorrelationPhase) (\<lambda>_. m_fold (correlate_edge selected c) x a))
      (closed_failure selected all_occ)"
    by (rule fails_step, rule correlate_edges_fails [OF inv, of _ _ _ "occurrences_of c (concat todo) @ rest"])
      (simp add: all split)
qed (use index in simp)

lemma collect_correlations_fails:
  "fails_with (collect_correlations selected correlations) (closed_failure selected (edge_occurrences correlations))"
  unfolding collect_correlations_def
proof (rule fails_fold_inv [where P = "\<lambda>done. indexes selected (edge_occurrences done)"])
  show "indexes selected (edge_occurrences []) ([], [])"
    by (simp add: edge_occurrences_def indexes_def selected_occurrences_def)
  fix "done" and c :: ProfileCorrelationRecord and todo a
  let ?phases = "bm_values (corr_edge_ids_by_phase c)"
  assume split: "correlations = done @ c # todo" and inv: "indexes selected (edge_occurrences done) a"
  from correlate_phases_returns [OF inv, of c ?phases]
  show "ensures (m_bind (pp_step CorrelationRecord) (\<lambda>_. correlate_phases selected c ?phases a))
      (indexes selected (edge_occurrences (done @ [c])))"
    by (auto intro!: ensures_step simp: edge_occurrences_simps)
  show "fails_with (m_bind (pp_step CorrelationRecord) (\<lambda>_. correlate_phases selected c ?phases a))
      (closed_failure selected (edge_occurrences correlations))"
    by (rule fails_step, rule correlate_phases_fails [OF inv, of _ _ _ "edge_occurrences todo"])
      (simp add: edge_occurrences_simps split)
qed

lemma build_projection_fails:
  "fails_with (build_projection E snapshot qf selected)
     (closed_failure selected (edge_occurrences (matrix_correlations (snap_profile_matrix snapshot))))"
  unfolding build_projection_def collect_evidence_def finalize_evidence_def collect_phase_coverage_def Let_def
  by (auto intro!: fails_then fails_fold fails_if fails_exhausted clone_items_fails collect_correlations_fails fails_step
      simp: case_prod_beta)

lemma materialize_step_fails: "fails_with (materialize_step E decode proj edge) (closed_failure selected occ)"
  unfolding materialize_step_def materialize_correlation_def clone_phase_coverage_def Let_def
  by (auto intro!: fails_then fails_fold fails_if fails_exhausted clone_items_fails fails_step
      simp: case_prod_beta split: option.split)

lemma materialize_all_fails:
  "fails_with (materialize_all E decode snapshot qf edges)
     (closed_failure (bs_of_list (map edge_id edges)) (edge_occurrences (matrix_correlations (snap_profile_matrix snapshot))))"
  unfolding materialize_all_def materializer_with_work_def
  by (intro fails_bind [OF _ ensures_True] fails_bind [OF _ select_edges_returns] fails_fold fails_then
      materialize_step_fails fails_return)
    (auto simp: select_edges_def intro!: fails_fold fails_step build_projection_fails)


section \<open>Correctness\<close>

lemma materialize_path_steps_Inr:
  assumes "wf_matrix (snap_profile_matrix snapshot)"
    and "materialize_path_steps_bounded_cancellable E decode snapshot qf edges maximum_work cancel polls = Inr (steps, polls')"
  shows "steps = map (path_step_of E decode snapshot qf) edges \<and> length steps \<le> MAX_DEPENDENCY_PATH_STEPS"
proof -
  from assms(2) obtain st where small: "length edges \<le> MAX_DEPENDENCY_PATH_STEPS"
      and "materialize_all E decode snapshot qf edges cancel (new_postprocessing_work maximum_work, polls) = Inr (steps, st)"
    by (auto simp: materialize_path_steps_bounded_cancellable_def run_postprocessing_def sum_bind_Inr_iff split: if_splits)
  from ensuresD [OF materialize_all_returns [OF assms(1)] this(2)] small show ?thesis by simp
qed

text \<open>
  C15: the steps that are returned are exactly the reference steps, one per edge in the order of the path:
  whatever the budget and whenever cancellation strikes, no step is missing, and each carries all the evidence
  of its edge that the filter keeps, in canonical order, and the correlation and phase coverage of its profile.
\<close>

theorem materialize_path_steps_sound:
  assumes "wf_matrix (snap_profile_matrix snapshot)"
    and "materialize_path_steps_bounded_cancellable E decode snapshot qf edges maximum_work cancel polls = Inr (steps, polls')"
  shows "steps = map (path_step_of E decode snapshot qf) edges \<and> length steps \<le> MAX_DEPENDENCY_PATH_STEPS"
  using assms by (rule materialize_path_steps_Inr)

theorem materialize_path_steps_sound_witness:
  "\<exists>steps. materialize_path_steps_bounded_cancellable example_externals (\<lambda>_. None)
      (example_snapshot [] [example_edge ''e'' ''a'' ''b''] [example_evidence ''e'' 1]) empty_filter
      [example_edge ''e'' ''a'' ''b''] 10 never 0 = Inr (steps, 10) \<and>
    map step_evidence steps = [[example_evidence ''e'' 1]]"
proof -
  let ?s = "example_snapshot [] [example_edge ''e'' ''a'' ''b''] [example_evidence ''e'' 1]"
  have wf: "wf_matrix (snap_profile_matrix ?s)" by (simp add: wf_matrix_def example_snapshot_def)
  have "\<exists>steps. materialize_path_steps_bounded_cancellable example_externals (\<lambda>_. None) ?s empty_filter
      [example_edge ''e'' ''a'' ''b''] 10 never 0 = Inr (steps, 10)"
    by (simp add: materialize_path_steps_bounded_cancellable_def run_postprocessing_def materialize_all_def
        materializer_with_work_def select_edges_def build_projection_def collect_evidence_def finalize_evidence_def
        collect_correlations_def collect_phase_coverage_def materialize_step_def materialize_correlation_def
        clone_items_def m_bind_def m_return_def pp_step_def count_stage_def never_def new_postprocessing_work_def
        with_scan_maximum_def limit_simps is_snapshot_scan_def evidence_selected_def bs_contains_def
        bm_get_def example_edge_def example_evidence_def example_snapshot_def)
  then obtain steps where run: "materialize_path_steps_bounded_cancellable example_externals (\<lambda>_. None) ?s empty_filter
      [example_edge ''e'' ''a'' ''b''] 10 never 0 = Inr (steps, 10)" by blast
  from materialize_path_steps_sound [OF wf run] run show ?thesis
    by (simp add: path_step_of_def Let_def edge_evidence_def example_edge_def example_evidence_def example_snapshot_def)
qed

text \<open>
  The correlations of the profile matrix list, phase by phase, the edges they claim. An edge that is claimed more than
  once, by two correlations or twice by one, has no definite correlation, and its steps are never returned.
\<close>

definition claimed_once :: "GraphSnapshot \<Rightarrow> EdgeRecord \<Rightarrow> bool" where
  "claimed_once snapshot edge \<longleftrightarrow>
     count_list (map fst (edge_occurrences (matrix_correlations (snap_profile_matrix snapshot)))) (edge_id edge) \<le> 1"

lemma distinct_count_list: "distinct xs \<longleftrightarrow> (\<forall>x. count_list xs x \<le> 1)"
proof (induction xs)
  case (Cons y ys)
  have "(\<forall>x. count_list (y # ys) x \<le> 1) \<longleftrightarrow> count_list ys y = 0 \<and> (\<forall>x. count_list ys x \<le> 1)"
    by (auto simp: le_Suc_eq split: if_splits)
  with Cons show ?case by (simp add: count_list_0_iff)
qed simp

lemma claimed_once_distinct:
  "list_all (claimed_once snapshot) edges \<longleftrightarrow> distinct (map fst (selected_occurrences (bs_of_list (map edge_id edges))
     (edge_occurrences (matrix_correlations (snap_profile_matrix snapshot)))))"
proof -
  let ?occ = "edge_occurrences (matrix_correlations (snap_profile_matrix snapshot))"
  let ?ids = "edge_id ` set edges"
  have "map fst (selected_occurrences (bs_of_list (map edge_id edges)) ?occ) = filter (\<lambda>i. i \<in> ?ids) (map fst ?occ)"
    by (simp add: selected_occurrences_def bs_contains_def filter_map comp_def)
  moreover have "count_list (filter (\<lambda>i. i \<in> ?ids) xs) i = (if i \<in> ?ids then count_list xs i else 0)" for xs i
    by (induction xs) auto
  ultimately show ?thesis
    by (auto simp: distinct_count_list claimed_once_def list_all_iff)
qed

text \<open>
  C32: postprocessing fails closed. A failure is a cancellation, an exhausted budget or cap, or an integrity
  failure, and the last is raised only if a selected edge is claimed twice by the profile correlations;
  conversely steps are returned only if every selected edge is claimed at most once.
\<close>

theorem materialize_path_steps_failures:
  "case materialize_path_steps_bounded_cancellable E decode snapshot qf edges maximum_work cancel polls of
     Inl e \<Rightarrow> closed_failure (bs_of_list (map edge_id edges))
       (edge_occurrences (matrix_correlations (snap_profile_matrix snapshot))) e
   | Inr _ \<Rightarrow> distinct (map fst (selected_occurrences (bs_of_list (map edge_id edges))
       (edge_occurrences (matrix_correlations (snap_profile_matrix snapshot)))))"
proof -
  let ?sel = "bs_of_list (map edge_id edges)"
  let ?occ = "edge_occurrences (matrix_correlations (snap_profile_matrix snapshot))"
  have "ensures (materialize_all E decode snapshot qf edges) (\<lambda>_. distinct (map fst (selected_occurrences ?sel ?occ)))"
    unfolding materialize_all_def by (rule ensures_bind [OF materializer_returns]) (simp add: ensures_def)
  note ok = ensuresD [OF this, of cancel "(new_postprocessing_work maximum_work, polls)"]
  note bad = failsD [OF materialize_all_fails [of E decode snapshot qf edges], of cancel
      "(new_postprocessing_work maximum_work, polls)"]
  show ?thesis
  proof (cases "materialize_all E decode snapshot qf edges cancel (new_postprocessing_work maximum_work, polls)")
    case (Inl e)
    with bad [OF Inl] show ?thesis
      by (simp add: materialize_path_steps_bounded_cancellable_def run_postprocessing_def closed_failure_def)
  next
    case (Inr r)
    with ok show ?thesis
      by (cases r) (simp add: materialize_path_steps_bounded_cancellable_def run_postprocessing_def closed_failure_def)
  qed
qed

end
