(* ===== verification/Traversal.thy ===== *)
theory Traversal
  imports Selector Edge_Kind Postprocess
begin

text \<open>
  Dependency traversal: \<open>adjacency_cancellable\<close> and the \<open>traverse\<close> family in
  \<^verbatim>\<open>crates/depgraph-core/src/query.rs\<close>.

  The adjacency is an ordered map from a node to its edges, themselves ordered by neighbour and edge
  identifier, so that traversal does not depend on the order of the snapshot. Traversal is a breadth-first
  search with a limit on the number of edge visits; it stops at the limit and marks the result incomplete.
  \<open>hops\<close> is the relation the search explores, and its reflexive transitive closure from the root is the
  reference for what a complete result contains.
\<close>

section \<open>Adjacency\<close>

type_synonym CanonicalAdjacency = "(string, (string \<times> string, EdgeRecord) bmap) bmap"

text \<open>The node an edge is followed from and the node it leads to.\<close>

definition hop :: "bool \<Rightarrow> EdgeRecord \<Rightarrow> string \<times> string" where
  "hop reverse edge =
     (if reverse then (edge_target edge, edge_source edge) else (edge_source edge, edge_target edge))"

definition follows :: "GraphSnapshot \<Rightarrow> GraphQueryFilter \<Rightarrow> EdgeKindFilter \<Rightarrow> EdgeRecord \<Rightarrow> bool" where
  "follows snapshot qf kinds edge \<longleftrightarrow>
     \<not> (\<not> allows kinds (edge_kind edge) \<or> \<not> matches_edge qf snapshot edge)"

definition adjacency_insert :: "bool \<Rightarrow> EdgeRecord \<Rightarrow> CanonicalAdjacency \<Rightarrow> CanonicalAdjacency" where
  "adjacency_insert reverse edge ordered =
     (let (key, nxt) = hop reverse edge in bm_entry [] key (bm_insert (nxt, edge_id edge) edge) ordered)"

fun adjacency_loop ::
  "canceller \<Rightarrow> GraphSnapshot \<Rightarrow> bool \<Rightarrow> GraphQueryFilter \<Rightarrow> EdgeKindFilter \<Rightarrow> nat
     \<Rightarrow> nat \<Rightarrow> EdgeRecord list \<Rightarrow> CanonicalAdjacency \<Rightarrow> nat \<Rightarrow> query_error + (CanonicalAdjacency \<times> bool) \<times> nat" where
  "adjacency_loop cancel snapshot reverse qf kinds max_inspected inspected [] ordered polls =
     sum_bind (traversal_poll cancel polls) (\<lambda>polls. Inr ((ordered, True), polls))"
| "adjacency_loop cancel snapshot reverse qf kinds max_inspected inspected (edge # edges) ordered polls =
     sum_bind (traversal_poll cancel polls) (\<lambda>polls.
       if inspected \<ge> max_inspected then Inr ((ordered, False), polls)
       else adjacency_loop cancel snapshot reverse qf kinds max_inspected (Suc inspected) edges
         (if follows snapshot qf kinds edge then adjacency_insert reverse edge ordered else ordered) polls)"

definition adjacency_cancellable ::
  "canceller \<Rightarrow> GraphSnapshot \<Rightarrow> bool \<Rightarrow> GraphQueryFilter \<Rightarrow> EdgeKindFilter \<Rightarrow> nat \<Rightarrow> nat
     \<Rightarrow> query_error + (CanonicalAdjacency \<times> bool) \<times> nat" where
  "adjacency_cancellable cancel snapshot reverse qf kinds max_inspected polls =
     adjacency_loop cancel snapshot reverse qf kinds max_inspected 0 (snap_edges snapshot) [] polls"

definition edges_from :: "CanonicalAdjacency \<Rightarrow> string \<Rightarrow> EdgeRecord list" where
  "edges_from adjacency node = (case bm_get adjacency node of None \<Rightarrow> [] | Some edges \<Rightarrow> bm_values edges)"

section \<open>Breadth-first search\<close>

record traversal =
  trav_queue :: "string list"
  trav_visited :: "string bset"
  trav_selected :: "(string, EdgeRecord) bmap"
  trav_edges :: nat
  trav_complete :: bool

definition visit_edge :: "bool \<Rightarrow> bool \<Rightarrow> EdgeRecord \<Rightarrow> traversal \<Rightarrow> traversal" where
  "visit_edge transitive reverse edge st =
     (let st = st\<lparr>trav_edges := trav_edges st + 1, trav_selected := bm_insert (edge_id edge) edge (trav_selected st)\<rparr>;
          nxt = snd (hop reverse edge)
      in if bs_contains (trav_visited st) nxt then st
         else st\<lparr>trav_visited := bs_insert nxt (trav_visited st),
                 trav_queue := (if transitive then trav_queue st @ [nxt] else trav_queue st)\<rparr>)"

text \<open>The inner loop; the flag tells that \<open>break 'traversal\<close> was executed.\<close>

fun visit_edges ::
  "canceller \<Rightarrow> bool \<Rightarrow> bool \<Rightarrow> nat \<Rightarrow> EdgeRecord list \<Rightarrow> traversal \<Rightarrow> nat \<Rightarrow> query_error + (bool \<times> traversal) \<times> nat" where
  "visit_edges cancel transitive reverse max_traversal [] st polls = Inr ((False, st), polls)"
| "visit_edges cancel transitive reverse max_traversal (edge # edges) st polls =
     sum_bind (traversal_poll cancel polls) (\<lambda>polls.
       if trav_edges st \<ge> max_traversal then Inr ((True, st\<lparr>trav_complete := False\<rparr>), polls)
       else visit_edges cancel transitive reverse max_traversal edges (visit_edge transitive reverse edge st) polls)"

text \<open>Every node the search can reach is an endpoint of the adjacency: a bound for its termination.\<close>

definition endpoints :: "bool \<Rightarrow> CanonicalAdjacency \<Rightarrow> string set" where
  "endpoints reverse adjacency = (\<Union>edges\<in>set (bm_values adjacency). (snd \<circ> hop reverse) ` set (bm_values edges))"

lemma finite_endpoints [simp]: "finite (endpoints reverse adjacency)"
  by (simp add: endpoints_def)

lemma edges_from_endpoints: "e \<in> set (edges_from adjacency u) \<Longrightarrow> snd (hop reverse e) \<in> endpoints reverse adjacency"
proof -
  assume e: "e \<in> set (edges_from adjacency u)"
  then obtain m where m: "map_of adjacency u = Some m" "e \<in> set (bm_values m)"
    by (cases "map_of adjacency u") (auto simp: edges_from_def bm_get_def)
  from map_of_SomeD [OF m(1)] have "m \<in> set (bm_values adjacency)" by (force simp: bm_values_def)
  with m(2) show ?thesis by (auto simp: endpoints_def)
qed

definition search_measure :: "string set \<Rightarrow> traversal \<Rightarrow> nat" where
  "search_measure nodes st = card (nodes - set (trav_visited st)) + length (trav_queue st)"

lemma visit_edge_measure:
  assumes "finite nodes" and next_in: "snd (hop reverse e) \<in> nodes"
  shows "search_measure nodes (visit_edge transitive reverse e st) \<le> search_measure nodes st"
proof -
  define n where "n = snd (hop reverse e)"
  have "card (nodes - set (trav_visited st)) = Suc (card (nodes - insert n (set (trav_visited st))))"
    if "n \<notin> set (trav_visited st)"
    using card.remove [of "nodes - set (trav_visited st)" n] assms(1) next_in that
    by (simp add: n_def Diff_insert [symmetric])
  then show ?thesis
    by (simp add: visit_edge_def search_measure_def Let_def n_def bs_contains_def)
qed

lemma visit_edges_measure:
  assumes "visit_edges cancel transitive reverse max_traversal es st polls = Inr ((stop, st'), polls')"
    and "finite nodes" and "\<And>e. e \<in> set es \<Longrightarrow> snd (hop reverse e) \<in> nodes"
  shows "search_measure nodes st' \<le> search_measure nodes st"
  using assms(1,3)
proof (induction es arbitrary: st polls)
  case (Cons e es)
  then show ?case
    using visit_edge_measure [OF assms(2), of reverse e transitive st]
    by (fastforce simp: bind_simps search_measure_def split: if_splits)
qed simp

function (sequential) traverse_loop ::
  "canceller \<Rightarrow> bool \<Rightarrow> bool \<Rightarrow> nat \<Rightarrow> CanonicalAdjacency \<Rightarrow> traversal \<Rightarrow> nat \<Rightarrow> query_error + traversal \<times> nat" where
  "traverse_loop cancel transitive reverse max_traversal adjacency st polls =
     (case trav_queue st of
        [] \<Rightarrow> Inr (st, polls)
      | node # queue \<Rightarrow>
          sum_bind (traversal_poll cancel polls) (\<lambda>polls.
          sum_bind (visit_edges cancel transitive reverse max_traversal (edges_from adjacency node)
              (st\<lparr>trav_queue := queue\<rparr>) polls) (\<lambda>((stop, st), polls).
            if stop \<or> \<not> transitive then Inr (st, polls)
            else traverse_loop cancel transitive reverse max_traversal adjacency st polls)))"
  by pat_completeness auto
termination
proof (relation "measure (\<lambda>(_, _, reverse, _, adjacency, st, _). search_measure (endpoints reverse adjacency) st)", simp)
  fix cancel transitive reverse max_traversal adjacency st polls node queue polls1 r x p stop st' q
  assume "trav_queue st = node # queue"
    and "visit_edges cancel transitive reverse max_traversal (edges_from adjacency node) (st\<lparr>trav_queue := queue\<rparr>) polls1 = Inr r"
    and "(x, p) = r" and "(stop, st') = x"
  then show "((cancel, transitive, reverse, max_traversal, adjacency, st', q),
      cancel, transitive, reverse, max_traversal, adjacency, st, polls)
    \<in> measure (\<lambda>(_, _, reverse, _, adjacency, st, _). search_measure (endpoints reverse adjacency) st)"
    using visit_edges_measure [of cancel transitive reverse max_traversal "edges_from adjacency node"
        "st\<lparr>trav_queue := queue\<rparr>" polls1 stop st' p "endpoints reverse adjacency"] edges_from_endpoints [of _ adjacency node]
    by (fastforce simp: search_measure_def)
qed

declare traverse_loop.simps [simp del]

section \<open>The query\<close>

definition selector_tick :: "unit \<Rightarrow> (SelectorWork, unit) comp" where
  "selector_tick _ = (\<lambda>cancel st. sum_bind (selector_work_step cancel st) (\<lambda>st. Inr ((), st)))"

definition select_nodes :: "string \<Rightarrow> string bset \<Rightarrow> NodeRecord list \<Rightarrow> (SelectorWork, NodeRecord list) comp" where
  "select_nodes root_id visited nodes =
     m_bind (m_fold (\<lambda>node selected_nodes.
       m_bind (selector_tick ()) (\<lambda>_.
       if node_id node \<noteq> root_id \<and> bs_contains visited (node_id node)
       then m_bind (selector_tick ()) (\<lambda>_. m_return (bm_insert (node_id node) node selected_nodes))
       else m_return selected_nodes)) nodes []) (\<lambda>selected_nodes.
     m_fold (\<lambda>node nodes. m_bind (selector_tick ()) (\<lambda>_. m_return (nodes @ [node]))) (bm_values selected_nodes) [])"

definition materialize_edges ::
  "externals \<Rightarrow> (json \<Rightarrow> condition option) \<Rightarrow> GraphSnapshot \<Rightarrow> GraphQueryFilter \<Rightarrow> EdgeRecord list
     \<Rightarrow> (EdgeRecord list \<times> PathStep list) pp" where
  "materialize_edges E decode snapshot qf selected =
     m_bind (materializer_with_work E snapshot qf selected) (\<lambda>proj.
     m_fold (\<lambda>edge (edges, steps).
       m_bind (materialize_step E decode proj edge) (\<lambda>step.
       m_bind (clone_edge_output edge) (\<lambda>edge. m_return (edges @ [edge], steps @ [step])))) selected ([], []))"

record QueryPageDiagnostic =
  pd_code :: string
  pd_message :: string
  pd_remediation :: string

record TraversalResult =
  tr_root :: NodeRecord
  tr_nodes :: "NodeRecord list"
  tr_edges :: "EdgeRecord list"
  tr_steps :: "PathStep list"

record BoundedTraversalResult =
  btr_result :: TraversalResult
  btr_complete :: bool
  btr_traversed_edges :: nat
  btr_diagnostics :: "QueryPageDiagnostic list"

definition traversal_diagnostics :: "bool \<Rightarrow> bool \<Rightarrow> nat \<Rightarrow> nat \<Rightarrow> nat \<Rightarrow> QueryPageDiagnostic list" where
  "traversal_diagnostics complete adjacency_complete traversed max_traversal max_adjacency_inspection =
     (if complete then [] else
      [\<lparr>pd_code = ''QUERY_TRAVERSAL_LIMIT_REACHED'',
        pd_message =
          (if adjacency_complete then
             ''dependency traversal stopped after '' @ show_nat traversed @ '' edge visits (limit ''
             @ show_nat max_traversal @ '')''
           else
             ''dependency adjacency preprocessing stopped after inspecting '' @ show_nat max_adjacency_inspection
             @ '' snapshot edges; result is partial''),
        pd_remediation =
          (if adjacency_complete then ''rerun with a larger --max-traversal value or narrow the query filters''
           else ''reduce the snapshot size or narrow the configured scan scope'')\<rparr>])"

definition initial_traversal :: "string \<Rightarrow> bool \<Rightarrow> traversal" where
  "initial_traversal root_id adjacency_complete =
     \<lparr>trav_queue = [root_id], trav_visited = [root_id], trav_selected = [], trav_edges = 0,
      trav_complete = adjacency_complete\<rparr>"

definition run_selector_work :: "(SelectorWork, 'a) comp \<Rightarrow> canceller \<Rightarrow> nat \<Rightarrow> query_error + 'a \<times> nat" where
  "run_selector_work m cancel polls =
     sum_bind (m cancel (new_selector_work MAX_GRAPH_SERVICE_PREPROCESSING_WORK_ITEMS, polls)) (\<lambda>(x, _, polls). Inr (x, polls))"

definition traverse_bounded_filtered_cancellable_with_adjacency_limit ::
  "externals \<Rightarrow> (json \<Rightarrow> condition option) \<Rightarrow> GraphSnapshot \<Rightarrow> string \<Rightarrow> bool \<Rightarrow> bool \<Rightarrow> GraphQueryFilter
     \<Rightarrow> EdgeKindFilter \<Rightarrow> nat \<Rightarrow> nat \<Rightarrow> canceller \<Rightarrow> query_error + BoundedTraversalResult" where
  "traverse_bounded_filtered_cancellable_with_adjacency_limit E decode snapshot selector transitive reverse qf
      kinds max_traversal max_adjacency_inspection cancel =
     sum_bind (traversal_poll cancel 0) (\<lambda>polls.
     sum_bind (resolve_selector_bounded_cancellable E cancel snapshot selector
       MAX_GRAPH_SERVICE_PREPROCESSING_WORK_ITEMS polls) (\<lambda>(root, polls).
     sum_bind (adjacency_cancellable cancel snapshot reverse qf kinds max_adjacency_inspection polls)
       (\<lambda>((adjacency, adjacency_complete), polls).
     sum_bind (traverse_loop cancel transitive reverse max_traversal adjacency
       (initial_traversal (node_id root) adjacency_complete) polls) (\<lambda>(st, polls).
     sum_bind (run_selector_work (select_nodes (node_id root) (trav_visited st) (snap_nodes snapshot)) cancel polls)
       (\<lambda>(nodes, polls).
     sum_bind (run_postprocessing MAX_GRAPH_SERVICE_PREPROCESSING_WORK_ITEMS
       (materialize_edges E decode snapshot qf (bm_values (trav_selected st))) cancel polls) (\<lambda>((edges, steps), polls).
     Inr \<lparr>btr_result = \<lparr>tr_root = root, tr_nodes = nodes, tr_edges = edges, tr_steps = steps\<rparr>,
          btr_complete = trav_complete st, btr_traversed_edges = to_u64 (trav_edges st),
          btr_diagnostics = traversal_diagnostics (trav_complete st) adjacency_complete (trav_edges st)
            max_traversal max_adjacency_inspection\<rparr>))))))"

definition traverse_bounded_filtered_cancellable ::
  "externals \<Rightarrow> (json \<Rightarrow> condition option) \<Rightarrow> GraphSnapshot \<Rightarrow> string \<Rightarrow> bool \<Rightarrow> bool \<Rightarrow> GraphQueryFilter
     \<Rightarrow> EdgeKindFilter \<Rightarrow> nat \<Rightarrow> canceller \<Rightarrow> query_error + BoundedTraversalResult" where
  "traverse_bounded_filtered_cancellable E decode snapshot selector transitive reverse qf kinds max_traversal cancel =
     traverse_bounded_filtered_cancellable_with_adjacency_limit E decode snapshot selector transitive reverse qf
       kinds max_traversal MAX_INTERACTIVE_QUERY_TRAVERSAL cancel"

definition traverse_bounded_filtered ::
  "externals \<Rightarrow> (json \<Rightarrow> condition option) \<Rightarrow> GraphSnapshot \<Rightarrow> string \<Rightarrow> bool \<Rightarrow> bool \<Rightarrow> GraphQueryFilter \<Rightarrow> nat
     \<Rightarrow> query_error + BoundedTraversalResult" where
  "traverse_bounded_filtered E decode snapshot selector transitive reverse qf max_traversal =
     traverse_bounded_filtered_cancellable E decode snapshot selector transitive reverse qf unrestricted max_traversal never"

definition traverse_filtered ::
  "externals \<Rightarrow> (json \<Rightarrow> condition option) \<Rightarrow> GraphSnapshot \<Rightarrow> string \<Rightarrow> bool \<Rightarrow> bool \<Rightarrow> GraphQueryFilter
     \<Rightarrow> query_error + TraversalResult" where
  "traverse_filtered E decode snapshot selector transitive reverse qf =
     sum_bind (traverse_bounded_filtered E decode snapshot selector transitive reverse qf u64_max)
       (\<lambda>r. Inr (btr_result r))"

definition traverse ::
  "externals \<Rightarrow> (json \<Rightarrow> condition option) \<Rightarrow> GraphSnapshot \<Rightarrow> string \<Rightarrow> bool \<Rightarrow> bool \<Rightarrow> query_error + TraversalResult" where
  "traverse E decode snapshot selector transitive reverse =
     traverse_filtered E decode snapshot selector transitive reverse empty_filter"

end
