(* ===== verification/Postprocess_Budget.thy ===== *)
theory Postprocess_Budget
  imports Postprocess
begin

text \<open>
  How much work postprocessing does: the two budgets are never exceeded, and a request whose records respect the
  public caps is always answered. The cost of the part charged to the request is linear in the number of edges
  of the path, and the cost of the scans is the number of records of the snapshot.
\<close>

section \<open>Costs as a pair of scan items and request items\<close>

abbreviation pcost :: "nat \<Rightarrow> nat \<Rightarrow> bool \<Rightarrow> nat" where
  "pcost s u \<equiv> (\<lambda>scan. if scan then s else u)"

lemma costs_le: "pp.costs (pcost s u) m P \<Longrightarrow> s \<le> s' \<Longrightarrow> u \<le> u' \<Longrightarrow> pp.costs (pcost s' u') m P"
  by (rule pp.costs_mono) auto

lemma costs_scan:
  assumes "is_snapshot_scan k" and "pp.costs (pcost s u) (f ()) P"
  shows "pp.costs (pcost (Suc s) u) (m_bind (pp_step k) f) P"
  by (rule pp.costs_mono [OF pp.costs_tick_then [of "pcost s u" f P k, OF assms(2)]]) (use assms(1) in auto)

lemma costs_use:
  assumes "\<not> is_snapshot_scan k" and "pp.costs (pcost s u) (f ()) P"
  shows "pp.costs (pcost s (Suc u)) (m_bind (pp_step k) f) P"
  by (rule pp.costs_mono [OF pp.costs_tick_then [of "pcost s u" f P k, OF assms(2)]]) (use assms(1) in auto)

lemma costs_seq:
  assumes "pp.costs (pcost s u) m P" and "\<And>x. P x \<Longrightarrow> pp.costs (pcost s' u') (f x) Q"
  shows "pp.costs (pcost (s + s') (u + u')) (m_bind m f) Q"
  by (rule pp.costs_mono [OF pp.costs_bind [OF assms]]) auto

lemma costs_done: "P v \<Longrightarrow> pp.costs (pcost 0 0) (m_return v) P"
  by (rule pp.costs_mono [OF pp.costs_return [of P]]) auto

lemma costs_if: "(b \<Longrightarrow> pp.costs n m P) \<Longrightarrow> (\<not> b \<Longrightarrow> pp.costs n m' P) \<Longrightarrow> pp.costs n (if b then m else m') P"
  by simp

lemma costs_loop:
  assumes "P [] a"
    and "\<And>done x rest a. \<lbrakk>xs = done @ x # rest; P done a\<rbrakk> \<Longrightarrow> pp.costs (pcost (s x) (u x)) (f x a) (P (done @ [x]))"
  shows "pp.costs (pcost (\<Sum>x\<leftarrow>xs. s x) (\<Sum>x\<leftarrow>xs. u x)) (m_fold f xs a) (P xs)"
  by (rule pp.costs_mono [OF pp.costs_fold [of P a xs "\<lambda>x. pcost (s x) (u x)"]]) (use assms in auto)

lemma costs_ensures: "pp.costs n m Q \<Longrightarrow> ensures m P \<Longrightarrow> pp.costs n m P"
  by (rule affordable_ensures)

text \<open>A loop whose body returns what an invariant needs, and costs what it costs.\<close>

lemma costs_loop_ensures:
  assumes "P [] a"
    and "\<And>done x rest a. \<lbrakk>xs = done @ x # rest; P done a\<rbrakk> \<Longrightarrow> ensures (f x a) (P (done @ [x]))"
    and "\<And>done x rest a. \<lbrakk>xs = done @ x # rest; P done a\<rbrakk> \<Longrightarrow> pp.costs (pcost (s x) (u x)) (f x a) (\<lambda>_. True)"
  shows "pp.costs (pcost (\<Sum>x\<leftarrow>xs. s x) (\<Sum>x\<leftarrow>xs. u x)) (m_fold f xs a) (P xs)"
  by (rule costs_loop) (use assms costs_ensures in blast)+

section \<open>The passes\<close>

lemma clone_items_costs: "\<not> is_snapshot_scan k \<Longrightarrow> pp.costs (pcost 0 (length xs)) (clone_items k xs) (\<lambda>ys. ys = xs)"
proof (rule costs_ensures [OF _ clone_items_returns])
  assume k: "\<not> is_snapshot_scan k"
  have "pp.costs (pcost (\<Sum>x\<leftarrow>xs. 0) (\<Sum>x\<leftarrow>xs. Suc 0)) (clone_items k xs) (\<lambda>_. True)"
    unfolding clone_items_def
    by (rule costs_loop [where P = "\<lambda>_ _. True"]) (auto intro!: costs_use [OF k] costs_done)
  then show "pp.costs (pcost 0 (length xs)) (clone_items k xs) (\<lambda>_. True)"
    by (rule costs_le) (simp_all add: sum_list_triv)
qed

lemma clone_then:
  assumes "\<not> is_snapshot_scan k" and "pp.costs (pcost s u) (f xs) P"
  shows "pp.costs (pcost s (length xs + u)) (m_bind (clone_items k xs) f) P"
  by (rule costs_le [OF costs_seq [OF clone_items_costs [OF assms(1)], of xs s u f P]]) (use assms(2) in simp_all)

lemma sum_list_indicator: "(\<Sum>x\<leftarrow>xs. if P x then k else 0) = k * length (filter P xs)" for k :: nat
  by (induction xs) auto

lemma length_partition:
  assumes "finite S" and "\<And>x. x \<in> set xs \<Longrightarrow> f x \<in> S"
  shows "length xs = (\<Sum>k\<in>S. length (filter (\<lambda>x. f x = k) xs))"
  using assms(2)
proof (induction xs)
  case (Cons y ys)
  have "(\<Sum>k\<in>S. length (filter (\<lambda>x. f x = k) (y # ys)))
      = (\<Sum>k\<in>S. (if f y = k then 1 else 0) + length (filter (\<lambda>x. f x = k) ys))"
    by (rule sum.cong) auto
  also have "\<dots> = 1 + length ys"
    using Cons assms(1) by (simp add: sum.distrib)
  finally show ?case by simp
qed simp

text \<open>A counting bound: at most \<open>k\<close> selected items per selected key.\<close>

lemma length_le_keys:
  assumes "\<And>x. x \<in> set xs \<Longrightarrow> f x \<in> set keys" and "\<And>i. i \<in> set keys \<Longrightarrow> length (filter (\<lambda>x. f x = i) xs) \<le> k"
  shows "length xs \<le> k * length keys"
proof -
  have "length xs = (\<Sum>i\<in>set keys. length (filter (\<lambda>x. f x = i) xs))"
    by (rule length_partition) (use assms(1) in auto)
  also have "\<dots> \<le> (\<Sum>i\<in>set keys. k)" using assms(2) by (rule sum_mono)
  also have "\<dots> \<le> k * length keys" using card_length [of keys] by simp
  finally show ?thesis .
qed

definition small_evidence :: "GraphQueryFilter \<Rightarrow> string bset \<Rightarrow> EvidenceRecord list \<Rightarrow> bool" where
  "small_evidence qf selected evidence \<longleftrightarrow>
     (\<forall>owner. length (owned_by qf selected evidence owner) \<le> MAX_GRAPH_EVIDENCE_ITEMS)"

lemma collect_evidence_costs:
  assumes small: "small_evidence qf selected evidence"
  shows "pp.costs (pcost (length evidence) (64 * length selected)) (collect_evidence qf selected evidence)
    (groups_evidence qf selected evidence)"
proof (rule costs_ensures [OF _ collect_evidence_returns])
  let ?sel = "evidence_selected qf selected"
  have "pp.costs (pcost (\<Sum>x\<leftarrow>evidence. 1) (\<Sum>x\<leftarrow>evidence. if ?sel x then 1 else 0))
      (collect_evidence qf selected evidence) (groups_evidence qf selected evidence)"
    unfolding collect_evidence_def
  proof (rule costs_loop)
    show "groups_evidence qf selected [] []" by (simp add: groups_evidence_def owned_by_def)
    fix "done" x rest refs
    assume split: "evidence = done @ x # rest" and inv: "groups_evidence qf selected done refs"
    let ?records = "case bm_get refs (ev_owner_id x) of None \<Rightarrow> [] | Some records \<Rightarrow> records"
    have rec: "?records = owned_by qf selected done (ev_owner_id x)"
      using inv by (simp add: groups_evidence_def)
    have room: "length (owned_by qf selected done (ev_owner_id x)) < MAX_GRAPH_EVIDENCE_ITEMS" if "?sel x"
    proof -
      have "length (owned_by qf selected (done @ [x]) (ev_owner_id x)) \<le> length (owned_by qf selected evidence (ev_owner_id x))"
        by (simp add: owned_by_def split)
      with small that show ?thesis by (fastforce simp: owned_by_def small_evidence_def dest: spec [of _ "ev_owner_id x"])
    qed
    have push: "groups_evidence qf selected (done @ [x]) (bm_insert (ev_owner_id x) (?records @ [x]) refs)" if "?sel x"
      unfolding rec using inv that by (simp add: groups_evidence_def bm_get_insert owned_by_def)
    have skip: "groups_evidence qf selected (done @ [x]) refs" if "\<not> ?sel x"
      using inv that by (simp add: groups_evidence_def owned_by_def)
    show "pp.costs (pcost 1 (if ?sel x then 1 else 0)) (m_bind (pp_step EvidenceScan) (\<lambda>_.
       if \<not> ?sel x then m_return refs
       else m_bind (pp_step EvidenceOwnerInsertion) (\<lambda>_.
         let records = ?records in
         if length records \<ge> MAX_GRAPH_EVIDENCE_ITEMS then m_fail QueryPostprocessingExhausted
         else m_return (bm_insert (ev_owner_id x) (records @ [x]) refs))))
      (groups_evidence qf selected (done @ [x]))"
      using room push skip unfolding One_nat_def Let_def
      by (intro costs_scan) (auto simp: is_snapshot_scan_def rec intro!: costs_use costs_done pp.costs_return)
  qed
  moreover have "length (filter ?sel evidence) \<le> 64 * length selected"
  proof (rule length_le_keys [where f = ev_owner_id])
    show "length (filter (\<lambda>x. ev_owner_id x = i) (filter ?sel evidence)) \<le> 64" for i
      using small by (auto simp: small_evidence_def owned_by_def limit_simps conj_commute)
  qed (auto simp: evidence_selected_def bs_contains_def)
  ultimately show "pp.costs (pcost (length evidence) (64 * length selected)) (collect_evidence qf selected evidence) (\<lambda>_. True)"
    by (intro pp.costs_mono [OF _ _ TrueI]) (auto simp: sum_list_indicator sum_list_triv)
qed

lemma sum_list_le: "(\<And>x. x \<in> set xs \<Longrightarrow> f x \<le> k) \<Longrightarrow> (\<Sum>x\<leftarrow>xs. f x) \<le> k * length xs" for k :: nat
  using sum_list_mono [of xs f "\<lambda>_. k"] by (simp add: sum_list_triv mult.commute)

lemma finalize_evidence_costs:
  assumes small: "small_evidence qf selected evidence" and refs: "groups_evidence qf selected evidence refs"
  shows "pp.costs (pcost 0 (66 * length selected)) (finalize_evidence E refs)
    (\<lambda>ev. ev = fold (\<lambda>(k, v). bm_insert k (sort_key (evidence_order E) v)) refs [])"
proof (rule costs_ensures [OF _ finalize_evidence_returns], rule costs_le)
  have dist: "distinct (map fst refs)" using refs by (simp add: groups_evidence_def bm_invar_distinct)
  have entry: "v = owned_by qf selected evidence k \<and> v \<noteq> []" if "(k, v) \<in> set refs" for k v
  proof -
    have "bm_get refs k = Some v" using that dist by (simp add: bm_get_def)
    with refs show ?thesis by (auto simp: groups_evidence_def split: if_splits)
  qed
  have "fst ` set refs \<subseteq> set selected"
  proof
    fix k assume "k \<in> fst ` set refs"
    then have "owned_by qf selected evidence k \<noteq> []" using entry by force
    then show "k \<in> set selected"
      by (auto simp: owned_by_def filter_empty_conv evidence_selected_def bs_contains_def)
  qed
  then have "length (map fst refs) \<le> length selected"
    using distinct_card [OF dist] card_mono [of "set selected" "fst ` set refs"] card_length [of selected] by simp
  then show "(\<Sum>(k, v)\<leftarrow>refs. 2 + length v) \<le> 66 * length selected"
    using sum_list_le [of refs "\<lambda>(k, v). 2 + length v" 66] entry small
    by (fastforce simp: small_evidence_def limit_simps)
  have "pp.costs (pcost (\<Sum>r\<leftarrow>refs. 0) (\<Sum>r\<leftarrow>refs. Suc (Suc (length (snd r))))) (finalize_evidence E refs) (\<lambda>_. True)"
    unfolding finalize_evidence_def Let_def
  proof (rule costs_loop [where P = "\<lambda>_ _. True"])
    fix "done" x rest a
    have clone: "pp.costs (pcost 0 (length v)) (m_bind (clone_items EvidenceClone (sort_key (evidence_order E) v))
        (\<lambda>cloned. m_return (bm_insert k cloned a))) (\<lambda>_. True)" for k v
      by (rule costs_le [OF clone_then [OF _ costs_done]]) (simp_all add: is_snapshot_scan_def)
    then show "pp.costs (pcost 0 (Suc (Suc (length (snd x)))))
      ((case x of (owner_id, records) \<Rightarrow> \<lambda>evidence.
       m_bind (pp_step EvidenceOwnerFinalization) (\<lambda>_.
       m_bind (pp_step EvidenceOwnerFinalization) (\<lambda>_.
       m_bind (clone_items EvidenceClone (sort_key (evidence_order E) records)) (\<lambda>cloned.
       m_return (bm_insert owner_id cloned evidence))))) a) (\<lambda>_. True)"
      unfolding case_prod_beta by (intro costs_use) (simp_all add: is_snapshot_scan_def)
  qed simp
  then show "pp.costs (pcost 0 (\<Sum>(k, v)\<leftarrow>refs. 2 + length v)) (finalize_evidence E refs) (\<lambda>_. True)"
    by (rule costs_le) (simp_all add: case_prod_unfold)
qed simp

lemma correlate_edge_costs:
  assumes index: "indexes selected occ index"
    and fresh: "bs_contains selected eid \<Longrightarrow> eid \<notin> fst ` set (selected_occurrences selected occ)"
    and small: "bs_contains selected eid \<Longrightarrow> length (corr_difference_reasons c) \<le> MAX_UNRESOLVED_CORRELATION_REASONS"
  shows "pp.costs (pcost 1 (if bs_contains selected eid then 2 else 0)) (correlate_edge selected c eid index) (\<lambda>_. True)"
proof -
  obtain cs ps where cs: "index = (cs, ps)" by fastforce
  have "\<not> bm_contains_key cs eid" if "bs_contains selected eid"
    using index fresh [OF that] by (simp add: indexes_def cs bm_contains_key_def map_of_eq_None_iff)
  with small show ?thesis
    unfolding correlate_edge_def cs prod.case Let_def One_nat_def numeral_2_eq_2
    by (intro costs_scan)
      (auto simp: is_snapshot_scan_def intro!: costs_use costs_done pp.costs_return intro: costs_le [OF costs_done])
qed

text \<open>The occurrences still to come are new, and their correlations have few reasons.\<close>

definition admissible :: "string bset \<Rightarrow> (string \<times> ProfileCorrelationRecord) list \<Rightarrow> bool" where
  "admissible selected occ \<longleftrightarrow> distinct (map fst (selected_occurrences selected occ)) \<and>
     (\<forall>(eid, c)\<in>set (selected_occurrences selected occ).
        length (corr_difference_reasons c) \<le> MAX_UNRESOLVED_CORRELATION_REASONS)"

abbreviation chosen :: "string bset \<Rightarrow> string list \<Rightarrow> nat" where
  "chosen selected ids \<equiv> length (filter (bs_contains selected) ids)"

lemma correlate_edges_costs:
  assumes index: "indexes selected occ index" and adm: "admissible selected (occ @ occurrences_of c ids @ rest)"
  shows "pp.costs (pcost (length ids) (2 * chosen selected ids))
    (m_fold (correlate_edge selected c) ids index) (indexes selected (occ @ occurrences_of c ids))"
proof -
  have "pp.costs (pcost (\<Sum>x\<leftarrow>ids. 1) (\<Sum>x\<leftarrow>ids. if bs_contains selected x then 2 else 0))
    (m_fold (correlate_edge selected c) ids index) (indexes selected (occ @ occurrences_of c ids))"
  proof (rule costs_loop_ensures [where P = "\<lambda>done. indexes selected (occ @ occurrences_of c done)"])
    fix "done" x todo a
    assume split: "ids = done @ x # todo" and inv: "indexes selected (occ @ occurrences_of c done) a"
    from correlate_edge_returns [OF inv, of c x]
    show "ensures (correlate_edge selected c x a) (indexes selected (occ @ occurrences_of c (done @ [x])))" by simp
    show "pp.costs (pcost 1 (if bs_contains selected x then 2 else 0)) (correlate_edge selected c x a) (\<lambda>_. True)"
      using adm by (intro correlate_edge_costs [OF inv]) (auto simp: admissible_def selected_occurrences_def split)
  qed (use index in simp)
  then show ?thesis by (rule costs_le) (simp_all add: sum_list_indicator sum_list_triv)
qed

lemma correlate_phases_costs:
  assumes index: "indexes selected occ index" and adm: "admissible selected (occ @ occurrences_of c (concat phases) @ rest)"
  shows "pp.costs (pcost (length phases + length (concat phases)) (2 * chosen selected (concat phases)))
    (correlate_phases selected c phases index) (indexes selected (occ @ occurrences_of c (concat phases)))"
proof -
  have "pp.costs (pcost (\<Sum>ids\<leftarrow>phases. Suc (length ids)) (\<Sum>ids\<leftarrow>phases. 2 * chosen selected ids))
    (correlate_phases selected c phases index) (indexes selected (occ @ occurrences_of c (concat phases)))"
    unfolding correlate_phases_def
  proof (rule costs_loop [where P = "\<lambda>done. indexes selected (occ @ occurrences_of c (concat done))"])
    fix "done" ids todo a
    assume split: "phases = done @ ids # todo" and inv: "indexes selected (occ @ occurrences_of c (concat done)) a"
    have "pp.costs (pcost (length ids) (2 * chosen selected ids)) (m_fold (correlate_edge selected c) ids a)
      (indexes selected ((occ @ occurrences_of c (concat done)) @ occurrences_of c ids))"
      using adm by (intro correlate_edges_costs [OF inv, where rest = "occurrences_of c (concat todo) @ rest"]) (simp add: split)
    then show "pp.costs (pcost (Suc (length ids)) (2 * chosen selected ids))
      (m_bind (pp_step CorrelationPhase) (\<lambda>_. m_fold (correlate_edge selected c) ids a))
      (indexes selected (occ @ occurrences_of c (concat (done @ [ids]))))"
      by (intro costs_scan) (simp_all add: is_snapshot_scan_def)
  qed (use index in simp)
  moreover have "(\<Sum>ids\<leftarrow>phases. Suc (length ids)) = length phases + length (concat phases)"
    "(\<Sum>ids\<leftarrow>phases. 2 * chosen selected ids) = 2 * chosen selected (concat phases)"
    by (induction phases) auto
  ultimately show ?thesis by (simp only:)
qed

definition correlation_scan_cost :: "ProfileCorrelationRecord list \<Rightarrow> nat" where
  "correlation_scan_cost correlations =
     length correlations + (\<Sum>c\<leftarrow>correlations. length (corr_edge_ids_by_phase c)) + length (edge_occurrences correlations)"

lemma collect_correlations_costs:
  assumes adm: "admissible selected (edge_occurrences correlations)"
  shows "pp.costs (pcost (correlation_scan_cost correlations) (2 * length selected))
    (collect_correlations selected correlations) (indexes selected (edge_occurrences correlations))"
proof -
  let ?phases = "\<lambda>c. bm_values (corr_edge_ids_by_phase c)"
  have "pp.costs (pcost (\<Sum>c\<leftarrow>correlations. Suc (length (?phases c) + length (concat (?phases c))))
      (\<Sum>c\<leftarrow>correlations. 2 * chosen selected (concat (?phases c))))
    (collect_correlations selected correlations) (indexes selected (edge_occurrences correlations))"
    unfolding collect_correlations_def
  proof (rule costs_loop [where P = "\<lambda>done. indexes selected (edge_occurrences done)"])
    show "indexes selected (edge_occurrences []) ([], [])"
      by (simp add: edge_occurrences_def indexes_def selected_occurrences_def)
    fix "done" and c :: ProfileCorrelationRecord and todo a
    assume split: "correlations = done @ c # todo" and inv: "indexes selected (edge_occurrences done) a"
    have "pp.costs (pcost (length (?phases c) + length (concat (?phases c))) (2 * chosen selected (concat (?phases c))))
      (correlate_phases selected c (?phases c) a)
      (indexes selected (edge_occurrences done @ occurrences_of c (concat (?phases c))))"
      using adm by (intro correlate_phases_costs [OF inv, where rest = "edge_occurrences todo"])
        (simp add: split edge_occurrences_simps)
    then show "pp.costs (pcost (Suc (length (?phases c) + length (concat (?phases c)))) (2 * chosen selected (concat (?phases c))))
      (m_bind (pp_step CorrelationRecord) (\<lambda>_. correlate_phases selected c (?phases c) a))
      (indexes selected (edge_occurrences (done @ [c])))"
      by (intro costs_scan) (simp_all add: is_snapshot_scan_def edge_occurrences_simps)
  qed
  then show ?thesis
  proof (rule costs_le)
    show "(\<Sum>c\<leftarrow>correlations. Suc (length (?phases c) + length (concat (?phases c)))) \<le> correlation_scan_cost correlations"
      unfolding correlation_scan_cost_def
      by (induction correlations) (auto simp: edge_occurrences_simps bm_values_def)
    have "(\<Sum>c\<leftarrow>correlations. 2 * chosen selected (concat (?phases c)))
        = 2 * length (selected_occurrences selected (edge_occurrences correlations))"
      by (induction correlations) (auto simp: edge_occurrences_simps selected_occurrences_def filter_map comp_def)
    also have "\<dots> \<le> 2 * length selected"
    proof -
      let ?l = "map fst (selected_occurrences selected (edge_occurrences correlations))"
      have "distinct ?l" "set ?l \<subseteq> set selected"
        using adm by (auto simp: admissible_def selected_occurrences_def bs_contains_def)
      then have "length ?l \<le> length selected"
        using distinct_card [of ?l] card_mono [of "set selected" "set ?l"] card_length [of selected] by simp
      then show ?thesis by simp
    qed
    finally show "(\<Sum>c\<leftarrow>correlations. 2 * chosen selected (concat (?phases c))) \<le> 2 * length selected" .
  qed
qed

lemma find_first: "find P xs = None \<Longrightarrow> P y \<Longrightarrow> find P (xs @ y # ys) = Some y"
  by (induction xs) (auto split: if_splits)

lemma collect_phase_coverage_costs:
  assumes small: "\<And>i entry. i \<in> set profiles \<Longrightarrow> find (\<lambda>entry. entry_id entry = i) entries = Some entry \<Longrightarrow>
      length (entry_phase_coverage entry) \<le> MAX_GRAPH_PHASE_COVERAGE_ITEMS"
  shows "pp.costs (pcost (length entries) (length entries)) (collect_phase_coverage profiles entries)
    (covers_profiles profiles entries)"
proof (rule costs_ensures [OF _ collect_phase_coverage_returns])
  have "pp.costs (pcost (\<Sum>x\<leftarrow>entries. 1) (\<Sum>x\<leftarrow>entries. 1)) (collect_phase_coverage profiles entries)
    (covers_profiles profiles entries)"
    unfolding collect_phase_coverage_def
  proof (rule costs_loop)
    show "covers_profiles profiles [] []" by (simp add: covers_profiles_def)
    fix "done" and x :: ProfileMatrixEntryRecord and rest cov
    assume split: "entries = done @ x # rest" and inv: "covers_profiles profiles done cov"
    have room: "length (entry_phase_coverage x) \<le> MAX_GRAPH_PHASE_COVERAGE_ITEMS"
      if "bs_contains profiles (entry_id x)" "\<not> bm_contains_key cov (entry_id x)"
      using small [of "entry_id x" x] find_first [of "\<lambda>entry. entry_id entry = entry_id x" "done" x rest] inv that
      by (simp add: covers_profiles_def bm_contains_key_def bs_contains_def split)
    show "pp.costs (pcost 1 1) (m_bind (pp_step ProfileEntry) (\<lambda>_.
       if \<not> bs_contains profiles (entry_id x) \<or> bm_contains_key cov (entry_id x) then m_return cov
       else if length (entry_phase_coverage x) > MAX_GRAPH_PHASE_COVERAGE_ITEMS
       then m_fail QueryPostprocessingExhausted
       else m_bind (pp_step ProfileInsertion) (\<lambda>_.
         m_return (bm_insert (entry_id x) (entry_phase_coverage x) cov))))
      (covers_profiles profiles (done @ [x]))"
      unfolding One_nat_def
      using room by (intro costs_scan costs_if)
        (auto simp: is_snapshot_scan_def covers_profiles_skip covers_profiles_insert inv
          intro!: costs_use costs_done intro: costs_le [OF costs_done])
  qed
  then show "pp.costs (pcost (length entries) (length entries)) (collect_phase_coverage profiles entries)
    (covers_profiles profiles entries)"
    by (rule costs_le) (simp_all add: sum_list_triv)
qed


definition coverage_cost :: "(string, PhaseCoverageRecord) bmap \<Rightarrow> nat" where
  "coverage_cost cov = (\<Sum>r\<leftarrow>cov. Suc (length (pc_profile_ids (snd r)) + length (pc_completeness (snd r))))"

lemma clone_phase_coverage_costs:
  "pp.costs (pcost 0 (coverage_cost cov)) (clone_phase_coverage cov) (\<lambda>_. True)"
proof -
  have "pp.costs (pcost (\<Sum>r\<leftarrow>cov. 0) (\<Sum>r\<leftarrow>cov. Suc (length (pc_profile_ids (snd r)) + (length (pc_completeness (snd r)) + 0))))
      (clone_phase_coverage cov) (\<lambda>_. True)"
    unfolding clone_phase_coverage_def case_prod_unfold
    by (rule costs_loop [where P = "\<lambda>_ _. True"], simp)
      (intro costs_use clone_then costs_done, simp_all add: is_snapshot_scan_def)
  then show ?thesis by (rule costs_le) (simp_all add: coverage_cost_def)
qed

section \<open>The whole request\<close>

text \<open>The records of one edge respect the public caps, and its phase coverage is of size at most \<open>k\<close>.\<close>

definition step_within :: "externals \<Rightarrow> GraphSnapshot \<Rightarrow> GraphQueryFilter \<Rightarrow> nat \<Rightarrow> string \<Rightarrow> bool" where
  "step_within E snapshot qf k eid \<longleftrightarrow>
     length (edge_evidence E snapshot qf eid) \<le> MAX_GRAPH_EVIDENCE_ITEMS \<and>
     (case edge_correlation snapshot eid of
        None \<Rightarrow> True
      | Some c \<Rightarrow>
          length (corr_difference_reasons c) \<le> MAX_UNRESOLVED_CORRELATION_REASONS \<and>
          (let cov = phase_coverage_for_effective_profile (snap_profile_matrix snapshot) (corr_effective_profile_id c)
           in length cov \<le> MAX_GRAPH_PHASE_COVERAGE_ITEMS \<and> coverage_cost cov \<le> k))"

definition scan_cost :: "GraphSnapshot \<Rightarrow> nat" where
  "scan_cost snapshot = length (snap_evidence snapshot)
     + correlation_scan_cost (matrix_correlations (snap_profile_matrix snapshot))
     + length (matrix_entries (snap_profile_matrix snapshot))"

lemma materialize_correlation_costs:
  assumes proj: "projects E snapshot qf selected proj" and sel: "bs_contains selected eid"
    and small: "step_within E snapshot qf k eid"
  shows "pp.costs (pcost 0 (16 + k)) (materialize_correlation proj (edge_correlation snapshot eid)) (\<lambda>_. True)"
proof (cases "edge_correlation snapshot eid")
  case None
  then show ?thesis by (auto simp: materialize_correlation_def intro!: costs_le [OF costs_done])
next
  case (Some c)
  let ?found = "find (\<lambda>entry. entry_id entry = corr_effective_profile_id c) (matrix_entries (snap_profile_matrix snapshot))"
  have get: "bm_get (proj_phase_coverage proj) (corr_effective_profile_id c) = map_option entry_phase_coverage ?found"
    using proj sel Some by (simp add: projects_def)
  have reasons: "length (corr_difference_reasons c) \<le> 16"
    using small Some by (simp add: step_within_def limit_simps)
  have cov: "length (entry_phase_coverage e) \<le> MAX_GRAPH_PHASE_COVERAGE_ITEMS \<and> coverage_cost (entry_phase_coverage e) \<le> k"
    if "?found = Some e" for e
    using small Some that by (simp add: step_within_def phase_coverage_for_effective_profile_def Let_def)
  let ?rest = "\<lambda>reasons. case map_option entry_phase_coverage ?found of None \<Rightarrow> m_return (reasons, [])
    | Some coverage \<Rightarrow> if length coverage > MAX_GRAPH_PHASE_COVERAGE_ITEMS then m_fail QueryPostprocessingExhausted
        else m_bind (clone_phase_coverage coverage) (\<lambda>coverage. m_return (reasons, coverage))"
  have "pp.costs (pcost 0 k) (?rest r) (\<lambda>_. True)" for r
  proof (cases ?found)
    case (Some e)
    from cov [OF Some] have small: "length (entry_phase_coverage e) \<le> MAX_GRAPH_PHASE_COVERAGE_ITEMS"
      "coverage_cost (entry_phase_coverage e) \<le> k" by auto
    have "pp.costs (pcost (0 + 0) (coverage_cost (entry_phase_coverage e) + 0))
        (m_bind (clone_phase_coverage (entry_phase_coverage e)) (\<lambda>coverage. m_return (r, coverage))) (\<lambda>_. True)"
      by (rule costs_seq [OF clone_phase_coverage_costs costs_done]) simp
    then show ?thesis unfolding Some using small by (auto intro: costs_le)
  qed (auto intro!: costs_le [OF costs_done])
  then have "pp.costs (pcost 0 (length (corr_difference_reasons c) + k))
      (m_bind (clone_items ReasonClone (corr_difference_reasons c)) ?rest) (\<lambda>_. True)"
    by (intro clone_then) (simp_all add: is_snapshot_scan_def)
  then show ?thesis
    unfolding materialize_correlation_def Some option.case get
    using reasons by (auto simp: limit_simps is_snapshot_scan_def intro: costs_le)
qed

lemma materialize_step_costs:
  assumes proj: "projects E snapshot qf selected proj" and sel: "bs_contains selected (edge_id edge)"
    and small: "step_within E snapshot qf k (edge_id edge)"
  shows "pp.costs (pcost 0 (83 + k)) (materialize_step E decode proj edge) (\<lambda>_. True)"
proof -
  have corr: "bm_get (proj_correlations proj) (edge_id edge) = edge_correlation snapshot (edge_id edge)"
    using proj sel by (simp add: projects_def)
  have ev: "pp.costs (pcost 0 64) (case bm_get (proj_evidence proj) (edge_id edge) of None \<Rightarrow> m_return []
      | Some evidence \<Rightarrow> clone_items EvidenceClone evidence) (\<lambda>_. True)"
  proof (cases "bm_get (proj_evidence proj) (edge_id edge)")
    case (Some l)
    then have "length l \<le> 64"
      using proj sel small by (auto simp: projects_def step_within_def limit_simps)
    then show ?thesis unfolding Some option.case
      by (intro costs_ensures [OF costs_le [OF clone_items_costs] ensures_True]) (simp_all add: is_snapshot_scan_def)
  qed (auto intro!: costs_le [OF costs_done])
  have "pp.costs (pcost (0 + (0 + 0)) (Suc (Suc (64 + ((16 + k) + Suc 0))))) (materialize_step E decode proj edge) (\<lambda>_. True)"
    unfolding materialize_step_def Let_def corr
    by (intro costs_use costs_seq [OF ev] costs_seq [OF materialize_correlation_costs [OF proj sel small]])
      (auto simp: is_snapshot_scan_def intro!: costs_use costs_done)
  then show ?thesis by (rule costs_le) simp_all
qed


lemma admissible_within:
  assumes dist: "distinct (map fst (selected_occurrences selected occ))"
    and occ: "occ = edge_occurrences (matrix_correlations (snap_profile_matrix snapshot))"
    and small: "\<And>eid. eid \<in> set selected \<Longrightarrow> step_within E snapshot qf k eid"
  shows "admissible selected occ"
proof -
  have "length (corr_difference_reasons c) \<le> MAX_UNRESOLVED_CORRELATION_REASONS"
    if "(eid, c) \<in> set (selected_occurrences selected occ)" for eid c
  proof -
    from that have sel: "bs_contains selected eid" by (simp add: selected_occurrences_def)
    have "map_of (selected_occurrences selected occ) eid = Some c" using that dist by simp
    then have "edge_correlation snapshot eid = Some c"
      by (simp add: map_of_selected [OF sel] edge_correlation_def occ)
    with small [of eid] sel show ?thesis by (simp add: step_within_def bs_contains_def)
  qed
  with dist show ?thesis by (auto simp: admissible_def)
qed

lemma small_evidence_within:
  assumes "\<And>eid. eid \<in> set selected \<Longrightarrow> step_within E snapshot qf k eid"
  shows "small_evidence qf selected (snap_evidence snapshot)"
  unfolding small_evidence_def
proof
  fix owner
  show "length (owned_by qf selected (snap_evidence snapshot) owner) \<le> MAX_GRAPH_EVIDENCE_ITEMS"
  proof (cases "bs_contains selected owner")
    case True
    with assms [of owner] show ?thesis
      by (simp add: step_within_def edge_evidence_def owned_by_selected bs_contains_def)
  next
    case False
    then have "owned_by qf selected (snap_evidence snapshot) owner = []"
      by (auto simp: owned_by_def evidence_selected_def filter_empty_conv)
    then show ?thesis by simp
  qed
qed

lemma build_projection_costs:
  fixes snapshot :: GraphSnapshot
  defines "matrix \<equiv> snap_profile_matrix snapshot"
  assumes dist: "distinct (map fst (selected_occurrences selected (edge_occurrences (matrix_correlations matrix))))"
    and small: "\<And>eid. eid \<in> set selected \<Longrightarrow> step_within E snapshot qf k eid"
  shows "pp.costs (pcost (scan_cost snapshot) (132 * length selected + length (matrix_entries matrix)))
    (build_projection E snapshot qf selected) (projects E snapshot qf selected)"
proof (rule costs_ensures)
  let ?occ = "edge_occurrences (matrix_correlations matrix)"
  have ev: "small_evidence qf selected (snap_evidence snapshot)" using small by (rule small_evidence_within)
  have adm: "admissible selected ?occ" by (rule admissible_within [OF dist _ small]) (simp_all add: matrix_def)
  have entry: "length (entry_phase_coverage e) \<le> MAX_GRAPH_PHASE_COVERAGE_ITEMS"
    if "indexes selected ?occ (cs, ps)" "i \<in> set ps" "find (\<lambda>entry. entry_id entry = i) (matrix_entries matrix) = Some e"
    for cs ps i e
  proof -
    from that(1,2) obtain eid c where in_occ: "(eid, c) \<in> set (selected_occurrences selected ?occ)"
        and i: "i = corr_effective_profile_id c" by (auto simp: indexes_def)
    then have sel: "bs_contains selected eid" by (simp add: selected_occurrences_def)
    have "map_of (selected_occurrences selected ?occ) eid = Some c" using in_occ dist by simp
    then have "edge_correlation snapshot eid = Some c"
      by (simp add: map_of_selected [OF sel] edge_correlation_def matrix_def)
    with small [of eid] sel that(3) i show ?thesis
      by (simp add: step_within_def bs_contains_def phase_coverage_for_effective_profile_def matrix_def Let_def)
  qed
  let ?n = "length (matrix_entries matrix)" and ?corr = "correlation_scan_cost (matrix_correlations matrix)"
  let ?done = "\<lambda>ev cs cov. m_return \<lparr>proj_evidence = ev, proj_correlations = cs, proj_phase_coverage = cov\<rparr>"
  let ?phases = "\<lambda>ev cs ps. m_bind (collect_phase_coverage ps (matrix_entries matrix)) (?done ev cs)"
  let ?correlate = "\<lambda>ev. m_bind (collect_correlations selected (matrix_correlations matrix)) (\<lambda>(cs, ps). ?phases ev cs ps)"
  have phases: "pp.costs (pcost (?n + 0) (?n + 0)) (?phases ev cs ps) (\<lambda>_. True)" if "indexes selected ?occ (cs, ps)" for ev cs ps
    by (rule costs_seq [OF collect_phase_coverage_costs costs_done]) (use entry [OF that] in auto)
  have correlate: "pp.costs (pcost (?corr + (?n + 0)) (2 * length selected + (?n + 0))) (?correlate ev) (\<lambda>_. True)" for ev
    by (rule costs_seq [OF collect_correlations_costs [OF adm]]) (use phases in auto)
  have "pp.costs (pcost (length (snap_evidence snapshot) + (0 + (?corr + (?n + 0))))
      (64 * length selected + (66 * length selected + (2 * length selected + (?n + 0)))))
    (build_projection E snapshot qf selected) (\<lambda>_. True)"
    unfolding build_projection_def matrix_def [symmetric]
  proof (rule costs_seq [OF collect_evidence_costs [OF ev]])
    fix refs assume "groups_evidence qf selected (snap_evidence snapshot) refs"
    from finalize_evidence_costs [OF ev this]
    show "pp.costs (pcost (0 + (?corr + (?n + 0))) (66 * length selected + (2 * length selected + (?n + 0))))
        (m_bind (finalize_evidence E refs) ?correlate) (\<lambda>_. True)"
      by (rule costs_seq) (rule correlate)
  qed
  then show "pp.costs (pcost (scan_cost snapshot) (132 * length selected + length (matrix_entries matrix)))
    (build_projection E snapshot qf selected) (\<lambda>_. True)"
    by (rule costs_le) (simp_all add: scan_cost_def matrix_def)
qed (rule ensures_mono [OF build_projection_returns], simp)


lemma materializer_costs:
  fixes snapshot :: GraphSnapshot and edges :: "EdgeRecord list"
  defines "selected \<equiv> bs_of_list (map edge_id edges)"
  assumes dist: "distinct (map fst (selected_occurrences selected
      (edge_occurrences (matrix_correlations (snap_profile_matrix snapshot)))))"
    and small: "\<And>edge. edge \<in> set edges \<Longrightarrow> step_within E snapshot qf k (edge_id edge)"
  shows "pp.costs (pcost (scan_cost snapshot)
      (133 * length edges + length (matrix_entries (snap_profile_matrix snapshot))))
    (materializer_with_work E snapshot qf edges) (projects E snapshot qf selected)"
proof -
  have len: "length selected \<le> length edges"
    using distinct_card [of selected] card_length [of "map edge_id edges"] strict_sorted_bs_of_list [of "map edge_id edges"]
    by (simp add: selected_def strict_sorted_iff)
  have sel: "pp.costs (pcost 0 (length edges)) (select_edges edges) (\<lambda>s. s = selected)"
  proof (rule costs_ensures)
    have "pp.costs (pcost (\<Sum>e\<leftarrow>edges. 0) (\<Sum>e\<leftarrow>edges. Suc 0)) (select_edges edges) (\<lambda>_. True)"
      unfolding select_edges_def
      by (rule costs_loop [where P = "\<lambda>_ _. True"]) (auto simp: is_snapshot_scan_def intro!: costs_use costs_done)
    then show "pp.costs (pcost 0 (length edges)) (select_edges edges) (\<lambda>_. True)"
      by (rule costs_le) (simp_all add: sum_list_triv)
  qed (simp add: selected_def select_edges_returns)
  have "pp.costs (pcost (scan_cost snapshot) (132 * length selected
      + length (matrix_entries (snap_profile_matrix snapshot))))
    (build_projection E snapshot qf selected) (projects E snapshot qf selected)"
    using small by (intro build_projection_costs [OF dist]) (auto simp: selected_def)
  then have "pp.costs (pcost (0 + scan_cost snapshot)
      (length edges + (132 * length selected + length (matrix_entries (snap_profile_matrix snapshot)))))
    (materializer_with_work E snapshot qf edges) (projects E snapshot qf selected)"
    unfolding materializer_with_work_def by (intro costs_seq [OF sel]) simp
  then show ?thesis by (rule costs_le) (use len in simp_all)
qed

text \<open>A loop that materializes every edge and then does \<open>extra\<close> more items of work.\<close>

lemma materialize_loop_costs:
  assumes proj: "projects E snapshot qf selected proj"
    and sel: "\<And>edge. edge \<in> set edges \<Longrightarrow> bs_contains selected (edge_id edge)"
    and small: "\<And>edge. edge \<in> set edges \<Longrightarrow> step_within E snapshot qf k (edge_id edge)"
    and rest: "\<And>edge a step. pp.costs (pcost 0 extra) (f edge a step) (\<lambda>_. True)"
  shows "pp.costs (pcost 0 ((83 + k + extra) * length edges))
    (m_fold (\<lambda>edge a. m_bind (materialize_step E decode proj edge) (f edge a)) edges a) (\<lambda>_. True)"
proof -
  have "pp.costs (pcost (\<Sum>e\<leftarrow>edges. 0 + 0) (\<Sum>e\<leftarrow>edges. 83 + k + extra))
      (m_fold (\<lambda>edge a. m_bind (materialize_step E decode proj edge) (f edge a)) edges a) (\<lambda>_. True)"
  proof (rule costs_loop [where P = "\<lambda>_ _. True"])
    fix "done" edge todo a
    assume "edges = done @ edge # todo"
    then have "bs_contains selected (edge_id edge)" "step_within E snapshot qf k (edge_id edge)"
      using sel small by auto
    from materialize_step_costs [OF proj this] rest
    show "pp.costs (pcost (0 + 0) (83 + k + extra)) (m_bind (materialize_step E decode proj edge) (f edge a)) (\<lambda>_. True)"
      by (rule costs_seq)
  qed simp
  then show ?thesis by (rule costs_le) (simp_all add: sum_list_triv mult.commute)
qed

lemma materialize_all_costs:
  assumes dist: "distinct (map fst (selected_occurrences (bs_of_list (map edge_id edges))
      (edge_occurrences (matrix_correlations (snap_profile_matrix snapshot)))))"
    and small: "\<And>edge. edge \<in> set edges \<Longrightarrow> step_within E snapshot qf k (edge_id edge)"
  shows "pp.costs (pcost (scan_cost snapshot)
      ((216 + k) * length edges + length (matrix_entries (snap_profile_matrix snapshot))))
    (materialize_all E decode snapshot qf edges) (\<lambda>_. True)"
proof -
  have "pp.costs (pcost (scan_cost snapshot + 0)
      (133 * length edges + length (matrix_entries (snap_profile_matrix snapshot)) + (83 + k + 0) * length edges))
    (materialize_all E decode snapshot qf edges) (\<lambda>_. True)"
    unfolding materialize_all_def
    by (rule costs_seq [OF materializer_costs [OF dist small]], assumption, rule materialize_loop_costs)
      (auto simp: bs_contains_def intro: small pp.costs_return)
  then show ?thesis by (rule costs_le) (simp_all add: algebra_simps)
qed

section \<open>Correctness\<close>

lemma materialize_path_steps_returns:
  assumes wf: "wf_matrix (snap_profile_matrix snapshot)"
    and len: "length edges \<le> MAX_DEPENDENCY_PATH_STEPS"
    and small: "list_all (\<lambda>edge. step_within E snapshot qf k (edge_id edge)) edges"
    and dist: "distinct (map fst (selected_occurrences (bs_of_list (map edge_id edges))
      (edge_occurrences (matrix_correlations (snap_profile_matrix snapshot)))))"
    and scan: "scan_cost snapshot \<le> MAX_GRAPH_SNAPSHOT_SCAN_WORK_ITEMS"
    and work: "(216 + k) * length edges + length (matrix_entries (snap_profile_matrix snapshot)) \<le> maximum_work"
  shows "\<exists>polls'. materialize_path_steps_bounded_cancellable E decode snapshot qf edges maximum_work never polls
    = Inr (map (path_step_of E decode snapshot qf) edges, polls')"
proof -
  have "pp.costs (pcost (scan_cost snapshot)
      ((216 + k) * length edges + length (matrix_entries (snap_profile_matrix snapshot))))
    (materialize_all E decode snapshot qf edges) (\<lambda>_. True)"
    using small by (intro materialize_all_costs [OF dist]) (simp add: list_all_iff)
  moreover have "pp_spent (new_postprocessing_work maximum_work) b + pcost (scan_cost snapshot)
      ((216 + k) * length edges + length (matrix_entries (snap_profile_matrix snapshot))) b
      \<le> pp_limit (new_postprocessing_work maximum_work) b" for b
    using scan work by (simp add: pp_spent_def pp_limit_def new_postprocessing_work_def with_scan_maximum_def)
  ultimately obtain steps w polls' where
      run: "materialize_all E decode snapshot qf edges never (new_postprocessing_work maximum_work, polls) = Inr (steps, w, polls')"
    by (rule affordableD)
  from ensuresD [OF materialize_all_returns [OF wf] run] len run show ?thesis
    by (simp add: materialize_path_steps_bounded_cancellable_def run_postprocessing_def)
qed

text \<open>
  C33: a request within the public caps is always answered. If every edge of a path of at most a thousand
  edges has at most 64 evidence records, 16 difference reasons and 64 phase coverage entries of total size \<open>k\<close>,
  no edge is claimed by two correlations, the records of the snapshot fit into the scan budget, and the work
  limit is at least \<open>216 + k\<close> items per edge and one per profile entry, then without cancellation the reference
  steps are returned.
\<close>

theorem materialize_path_steps_answers:
  assumes wf: "wf_matrix (snap_profile_matrix snapshot)"
    and len: "length edges \<le> MAX_DEPENDENCY_PATH_STEPS"
    and small: "list_all (\<lambda>edge. step_within E snapshot qf k (edge_id edge)) edges"
    and dist: "distinct (map fst (selected_occurrences (bs_of_list (map edge_id edges))
      (edge_occurrences (matrix_correlations (snap_profile_matrix snapshot)))))"
    and scan: "scan_cost snapshot \<le> MAX_GRAPH_SNAPSHOT_SCAN_WORK_ITEMS"
    and work: "(216 + k) * length edges + length (matrix_entries (snap_profile_matrix snapshot)) \<le> maximum_work"
  shows "\<exists>polls'. materialize_path_steps_bounded_cancellable E decode snapshot qf edges maximum_work never polls
    = Inr (map (path_step_of E decode snapshot qf) edges, polls')"
  using assms by (rule materialize_path_steps_returns)

theorem materialize_path_steps_answers_witness:
  "\<exists>polls'. materialize_path_steps_bounded_cancellable example_externals (\<lambda>_. None)
      (example_snapshot [] [example_edge ''e'' ''a'' ''b''] [example_evidence ''e'' 1]) empty_filter
      [example_edge ''e'' ''a'' ''b''] 300 never 0 =
    Inr ([path_step_of example_externals (\<lambda>_. None)
      (example_snapshot [] [example_edge ''e'' ''a'' ''b''] [example_evidence ''e'' 1]) empty_filter
      (example_edge ''e'' ''a'' ''b'')], polls')"
  using materialize_path_steps_answers [of "example_snapshot [] [example_edge ''e'' ''a'' ''b''] [example_evidence ''e'' 1]"
      "[example_edge ''e'' ''a'' ''b'']" example_externals empty_filter 0 300 "\<lambda>_. None" 0]
  by (simp add: wf_matrix_def step_within_def edge_evidence_def edge_correlation_def edge_occurrences_def
      selected_occurrences_def scan_cost_def correlation_scan_cost_def limit_simps example_snapshot_def)

text \<open>
  C34: neither budget is ever exceeded, and cancellation is polled exactly once per item of work: in the
  state postprocessing ends in, the request part is within the caller's limit, the scans are within the
  service ceiling, and the number of polls made is the number of items charged.
\<close>

theorem materialize_all_within_budget:
  assumes "materialize_all E decode snapshot qf edges cancel (new_postprocessing_work maximum_work, polls)
    = Inr (steps, w, polls')"
  shows "qw_used w \<le> maximum_work \<and> qw_scanned w \<le> MAX_GRAPH_SNAPSHOT_SCAN_WORK_ITEMS \<and>
    polls' = polls + qw_used w + qw_scanned w"
proof -
  have clone: "pp.ok (clone_items st xs)" for st and xs :: "'x list"
    unfolding clone_items_def by (intro pp.ok_intros)
  have "pp.ok (materialize_all E decode snapshot qf edges)"
    unfolding materialize_all_def materializer_with_work_def select_edges_def build_projection_def collect_evidence_def
      finalize_evidence_def collect_correlations_def correlate_phases_def correlate_edge_def collect_phase_coverage_def
      materialize_step_def materialize_correlation_def clone_phase_coverage_def Let_def
    by (auto simp: case_prod_beta intro!: pp.ok_intros clone split: option.split)
  from this [unfolded keeps_budget_def, rule_format, OF assms] show ?thesis
    by (auto simp: within_def pp_spent_def pp_limit_def new_postprocessing_work_def with_scan_maximum_def fun_eq_iff
        UNIV_bool all_bool_eq)
qed

theorem materialize_all_within_budget_witness:
  "\<exists>steps w polls'. materialize_all example_externals (\<lambda>_. None) (example_snapshot [] [] []) empty_filter
      [example_edge ''e'' ''a'' ''b''] never (new_postprocessing_work 4, 0) = Inr (steps, w, polls') \<and>
    qw_used w \<le> 4 \<and> polls' = qw_used w + qw_scanned w"
proof -
  have "\<exists>steps w polls'. materialize_all example_externals (\<lambda>_. None) (example_snapshot [] [] []) empty_filter
      [example_edge ''e'' ''a'' ''b''] never (new_postprocessing_work 4, 0) = Inr (steps, w, polls')"
    by (simp add: materialize_all_def materializer_with_work_def select_edges_def build_projection_def
        collect_evidence_def finalize_evidence_def collect_correlations_def collect_phase_coverage_def
        materialize_step_def materialize_correlation_def m_bind_def m_return_def pp_step_def count_stage_def never_def
        new_postprocessing_work_def with_scan_maximum_def limit_simps is_snapshot_scan_def example_snapshot_def)
  with materialize_all_within_budget [of example_externals "\<lambda>_. None" "example_snapshot [] [] []" empty_filter
      "[example_edge ''e'' ''a'' ''b'']" never 4 0] show ?thesis
    by fastforce
qed

end
