(* ===== verification/Reachability.thy ===== *)
theory Reachability
  imports Traversal Postprocess_Budget
begin

text \<open>
  Correctness of dependency traversal: a complete result is exactly the part of the graph reachable from the
  root, a limited result is a part of it, and a request within the limits is answered completely.
\<close>

section \<open>The graph that is explored\<close>

definition followed :: "GraphSnapshot \<Rightarrow> GraphQueryFilter \<Rightarrow> EdgeKindFilter \<Rightarrow> EdgeRecord list" where
  "followed snapshot qf kinds = filter (follows snapshot qf kinds) (snap_edges snapshot)"

definition hops :: "bool \<Rightarrow> EdgeRecord list \<Rightarrow> (string \<times> string) set" where
  "hops reverse es = hop reverse ` set es"

definition reach :: "bool \<Rightarrow> EdgeRecord list \<Rightarrow> string \<Rightarrow> string set" where
  "reach reverse es root = (hops reverse es)\<^sup>* `` {root}"

lemma reach_root [simp]: "root \<in> reach reverse es root"
  by (simp add: reach_def)

lemma reach_step: "u \<in> reach reverse es root \<Longrightarrow> e \<in> set es \<Longrightarrow> fst (hop reverse e) = u \<Longrightarrow> snd (hop reverse e) \<in> reach reverse es root"
  by (auto simp: reach_def hops_def intro: rtrancl_into_rtrancl)

lemma reach_subset:
  assumes "root \<in> V" and closed: "\<And>e. e \<in> set es \<Longrightarrow> fst (hop reverse e) \<in> V \<Longrightarrow> snd (hop reverse e) \<in> V"
  shows "reach reverse es root \<subseteq> V"
proof
  fix v assume "v \<in> reach reverse es root"
  then have "(root, v) \<in> (hops reverse es)\<^sup>*" by (simp add: reach_def)
  then show "v \<in> V"
    by (induction rule: rtrancl_induct) (use assms in \<open>auto simp: hops_def image_iff\<close>, metis closed fst_conv snd_conv)
qed

section \<open>The adjacency\<close>

definition adjacency_of :: "bool \<Rightarrow> EdgeRecord list \<Rightarrow> CanonicalAdjacency" where
  "adjacency_of reverse es = fold (adjacency_insert reverse) es []"

lemma adjacency_loop_Inr:
  "adjacency_loop cancel snapshot reverse qf kinds maximum inspected es ordered polls = Inr ((adj, complete), polls') \<Longrightarrow>
   adj = fold (adjacency_insert reverse) (filter (follows snapshot qf kinds) (take (maximum - inspected) es)) ordered \<and>
   complete = (length es \<le> maximum - inspected)"
proof (induction es arbitrary: inspected ordered polls)
  case (Cons e es)
  show ?case
  proof (cases "inspected \<ge> maximum")
    case True
    with Cons.prems show ?thesis by (auto simp: bind_simps)
  next
    case False
    then obtain k where k: "maximum - inspected = Suc k" "maximum - Suc inspected = k"
      by (metis Suc_diff_Suc not_le)
    from Cons.prems False obtain p where "adjacency_loop cancel snapshot reverse qf kinds maximum (Suc inspected) es
        (if follows snapshot qf kinds e then adjacency_insert reverse e ordered else ordered) p = Inr ((adj, complete), polls')"
      by (auto simp: bind_simps)
    from Cons.IH [OF this] show ?thesis by (simp add: k)
  qed
qed (auto simp: bind_simps)

lemma adjacency_cancellable_Inr:
  assumes "adjacency_cancellable cancel snapshot reverse qf kinds maximum polls = Inr ((adj, complete), polls')"
  shows "adj = adjacency_of reverse (filter (follows snapshot qf kinds) (take maximum (snap_edges snapshot)))"
    and "complete = (length (snap_edges snapshot) \<le> maximum)"
  using adjacency_loop_Inr [OF assms [unfolded adjacency_cancellable_def]] by (simp_all add: adjacency_of_def)

lemma adjacency_loop_never:
  "\<exists>r. adjacency_loop never snapshot reverse qf kinds maximum inspected es ordered polls = Inr r"
  by (induction es arbitrary: inspected ordered polls) auto

definition out_entries :: "bool \<Rightarrow> EdgeRecord list \<Rightarrow> string \<Rightarrow> ((string \<times> string) \<times> EdgeRecord) list" where
  "out_entries reverse es u =
     map (\<lambda>e. ((snd (hop reverse e), edge_id e), e)) (filter (\<lambda>e. fst (hop reverse e) = u) es)"

lemma adjacency_insert_entry:
  "adjacency_insert reverse e m = bm_entry [] (fst (hop reverse e)) (bm_insert (snd (hop reverse e), edge_id e) e) m"
  by (simp add: adjacency_insert_def case_prod_beta)

lemma out_entries_snoc:
  "out_entries reverse (es @ [e]) u = out_entries reverse es u @
     (if fst (hop reverse e) = u then [((snd (hop reverse e), edge_id e), e)] else [])"
  by (simp add: out_entries_def)

lemma adjacency_lookup:
  "bm_invar (adjacency_of reverse es) \<and>
   (\<forall>u. bm_get (adjacency_of reverse es) u =
      (if out_entries reverse es u = [] then None else Some (bm.collect (out_entries reverse es u) [])))"
proof (induction es rule: rev_induct)
  case (snoc e es)
  have eq: "adjacency_of reverse (es @ [e]) = adjacency_insert reverse e (adjacency_of reverse es)"
    by (simp add: adjacency_of_def)
  have "(case bm_get (adjacency_of reverse es) (fst (hop reverse e)) of None \<Rightarrow> [] | Some m \<Rightarrow> m)
      = bm.collect (out_entries reverse es (fst (hop reverse e))) []"
    using snoc.IH by simp
  with snoc.IH show ?case
    by (simp add: eq adjacency_insert_entry bm_get_entry out_entries_snoc)
qed (simp add: adjacency_of_def out_entries_def)

lemma edges_from_adjacency: "edges_from (adjacency_of reverse es) u = bm_values (bm.collect (out_entries reverse es u) [])"
  using adjacency_lookup [of reverse es] by (simp add: edges_from_def bm_values_def)

lemma out_entries_distinct: "distinct (map edge_id es) \<Longrightarrow> distinct (map fst (out_entries reverse es u))"
  by (auto simp: out_entries_def distinct_map inj_on_def comp_def)

lemma set_edges_from:
  assumes "distinct (map edge_id es)"
  shows "set (edges_from (adjacency_of reverse es) u) = {e \<in> set es. fst (hop reverse e) = u}"
proof -
  have "set (bm.collect (out_entries reverse es u) []) = set (out_entries reverse es u)"
    by (rule bm.entries_collect_distinct [OF out_entries_distinct [OF assms]])
  then have "snd ` set (bm.collect (out_entries reverse es u) []) = snd ` set (out_entries reverse es u)" by simp
  then show ?thesis
    by (simp add: edges_from_adjacency bm_values_def) (auto simp: out_entries_def image_iff)
qed

lemma distinct_edges_from:
  assumes "distinct (map edge_id es)"
  shows "distinct (edges_from (adjacency_of reverse es) u)"
proof -
  let ?m = "bm.collect (out_entries reverse es u) []"
  have set: "set ?m = set (out_entries reverse es u)"
    by (rule bm.entries_collect_distinct [OF out_entries_distinct [OF assms]])
  have "bm_invar ?m" by simp
  then have "distinct ?m" using bm_invar_distinct by (metis distinct_map)
  moreover have "inj_on snd (set ?m)" unfolding set by (auto simp: out_entries_def inj_on_def)
  ultimately show ?thesis by (simp add: edges_from_adjacency bm_values_def distinct_map)
qed


text \<open>The adjacency does not depend on the order of the edges.\<close>

lemma adjacency_of_perm:
  assumes dist: "distinct (map edge_id es)" and perm: "mset es = mset es'"
  shows "adjacency_of reverse es = adjacency_of reverse es'"
proof (rule bm_ext)
  fix u
  have "mset (out_entries reverse es u) = mset (out_entries reverse es' u)"
    using perm by (simp add: out_entries_def mset_map mset_filter)
  moreover from this have "out_entries reverse es u = [] \<longleftrightarrow> out_entries reverse es' u = []"
    by (metis mset_zero_iff)
  ultimately show "bm_get (adjacency_of reverse es) u = bm_get (adjacency_of reverse es') u"
    using adjacency_lookup [of reverse es] adjacency_lookup [of reverse es']
      bm.collect_perm [OF out_entries_distinct [OF dist]] by simp
qed (simp_all add: adjacency_lookup)

section \<open>One node\<close>

lemma visit_edges_Inr:
  "visit_edges cancel transitive reverse maximum es st polls = Inr ((stop, st'), polls') \<Longrightarrow>
   trav_edges st \<le> maximum \<Longrightarrow>
   stop = (maximum - trav_edges st < length es) \<and>
   st' = (let s = fold (visit_edge transitive reverse) (take (maximum - trav_edges st) es) st in
     if stop then s\<lparr>trav_complete := False\<rparr> else s)"
proof (induction es arbitrary: st polls)
  case (Cons e es)
  have more: "trav_edges (visit_edge transitive reverse e st) = Suc (trav_edges st)"
    by (simp add: visit_edge_def Let_def)
  show ?case
  proof (cases "trav_edges st \<ge> maximum")
    case True
    with Cons.prems show ?thesis by (auto simp: bind_simps)
  next
    case False
    then obtain k where k: "maximum - trav_edges st = Suc k" "maximum - Suc (trav_edges st) = k"
      by (metis Suc_diff_Suc not_le)
    from Cons.prems False obtain p where
      "visit_edges cancel transitive reverse maximum es (visit_edge transitive reverse e st) p = Inr ((stop, st'), polls')"
      by (auto simp: bind_simps)
    from Cons.IH [OF this] False show ?thesis by (simp add: k more)
  qed
qed auto

lemma visit_edges_never: "\<exists>r. visit_edges never transitive reverse maximum es st polls = Inr r"
  by (induction es arbitrary: st polls) auto

lemma visit_edge_simps [simp]:
  "set (trav_visited (visit_edge transitive reverse e st)) = insert (snd (hop reverse e)) (set (trav_visited st))"
  "trav_selected (visit_edge transitive reverse e st) = bm_insert (edge_id e) e (trav_selected st)"
  "trav_edges (visit_edge transitive reverse e st) = Suc (trav_edges st)"
  "trav_complete (visit_edge transitive reverse e st) = trav_complete st"
  "trav_queue (visit_edge transitive reverse e st) =
    (if transitive \<and> snd (hop reverse e) \<notin> set (trav_visited st) then trav_queue st @ [snd (hop reverse e)] else trav_queue st)"
  by (auto simp: visit_edge_def Let_def bs_contains_def)

lemma fold_visit_simps [simp]:
  "set (trav_visited (fold (visit_edge transitive reverse) l st)) = (snd \<circ> hop reverse) ` set l \<union> set (trav_visited st)"
  "trav_edges (fold (visit_edge transitive reverse) l st) = trav_edges st + length l"
  "trav_complete (fold (visit_edge transitive reverse) l st) = trav_complete st"
  by (induction l arbitrary: st) auto

lemma fold_visit_queue:
  assumes "distinct (trav_queue st)" and "set (trav_queue st) \<subseteq> set (trav_visited st)"
  shows "distinct (trav_queue (fold (visit_edge True reverse) l st)) \<and>
    set (trav_queue (fold (visit_edge True reverse) l st)) =
      set (trav_queue st) \<union> ((snd \<circ> hop reverse) ` set l - set (trav_visited st))"
  using assms
proof (induction l arbitrary: st)
  case (Cons e l)
  have "distinct (trav_queue (visit_edge True reverse e st))"
    "set (trav_queue (visit_edge True reverse e st)) \<subseteq> set (trav_visited (visit_edge True reverse e st))"
    using Cons.prems by auto
  from Cons.IH [OF this] Cons.prems show ?case by auto
qed simp

text \<open>The edges selected so far are a set \<open>A\<close>, each counted once.\<close>

definition selects :: "EdgeRecord set \<Rightarrow> traversal \<Rightarrow> bool" where
  "selects A st \<longleftrightarrow> bm_invar (trav_selected st) \<and> trav_edges st = card A \<and> finite A \<and>
     (\<forall>i e. bm_get (trav_selected st) i = Some e \<longleftrightarrow> i = edge_id e \<and> e \<in> A)"

lemma fold_visit_selects:
  assumes "selects A st" and "distinct l" and "set l \<inter> A = {}" and "inj_on edge_id (A \<union> set l)"
  shows "selects (A \<union> set l) (fold (visit_edge transitive reverse) l st)"
  using assms
proof (induction l arbitrary: A st)
  case (Cons e l)
  have "selects (insert e A) (visit_edge transitive reverse e st)"
    using Cons.prems by (auto simp: selects_def bm_get_insert inj_on_def)
  from Cons.IH [OF this] Cons.prems show ?case by (simp add: insert_commute)
qed simp

lemma selects_queue [simp]: "selects A (st\<lparr>trav_queue := q\<rparr>) = selects A st"
  "selects A (st\<lparr>trav_complete := c\<rparr>) = selects A st"
  by (simp_all add: selects_def)


section \<open>The search\<close>

definition edges_of :: "bool \<Rightarrow> EdgeRecord list \<Rightarrow> string set \<Rightarrow> EdgeRecord set" where
  "edges_of reverse es U = {e \<in> set es. fst (hop reverse e) \<in> U}"

abbreviation expanded :: "traversal \<Rightarrow> string set" where
  "expanded st \<equiv> set (trav_visited st) - set (trav_queue st)"

definition search_inv :: "bool \<Rightarrow> EdgeRecord list \<Rightarrow> string \<Rightarrow> traversal \<Rightarrow> bool" where
  "search_inv reverse es root st \<longleftrightarrow>
     distinct (trav_queue st) \<and> set (trav_queue st) \<subseteq> set (trav_visited st) \<and>
     root \<in> set (trav_visited st) \<and> set (trav_visited st) \<subseteq> reach reverse es root \<and>
     (\<forall>e\<in>edges_of reverse es (expanded st). snd (hop reverse e) \<in> set (trav_visited st)) \<and>
     selects (edges_of reverse es (expanded st)) st"

definition search_sound :: "bool \<Rightarrow> EdgeRecord list \<Rightarrow> string \<Rightarrow> traversal \<Rightarrow> bool" where
  "search_sound reverse es root st \<longleftrightarrow>
     root \<in> set (trav_visited st) \<and> set (trav_visited st) \<subseteq> reach reverse es root \<and>
     (\<exists>A. selects A st \<and> A \<subseteq> edges_of reverse es (reach reverse es root))"

lemma initial_search_inv: "search_inv reverse es root (initial_traversal root complete)"
  by (auto simp: search_inv_def initial_traversal_def selects_def edges_of_def)

lemma search_inv_sound: "search_inv reverse es root st \<Longrightarrow> search_sound reverse es root st"
  unfolding search_inv_def search_sound_def edges_of_def by blast

text \<open>Popping a node and following a prefix of its edges.\<close>

lemma pop_selects:
  assumes dist: "distinct (map edge_id es)" and inv: "search_inv reverse es root st" and queue: "trav_queue st = u # q"
    and l: "set l \<subseteq> set (edges_from (adjacency_of reverse es) u)" "distinct l"
  shows "selects (edges_of reverse es (expanded st) \<union> set l) (fold (visit_edge transitive reverse) l (st\<lparr>trav_queue := q\<rparr>))"
proof (rule fold_visit_selects)
  show "selects (edges_of reverse es (expanded st)) (st\<lparr>trav_queue := q\<rparr>)"
    using inv by (simp add: search_inv_def)
  show "set l \<inter> edges_of reverse es (expanded st) = {}"
    using l(1) queue by (auto simp: set_edges_from [OF dist] edges_of_def)
  show "inj_on edge_id (edges_of reverse es (expanded st) \<union> set l)"
    using dist l(1) by (auto simp: distinct_map edges_of_def set_edges_from [OF dist] inj_on_def)
qed (rule l(2))

lemma pop_sound:
  assumes dist: "distinct (map edge_id es)" and inv: "search_inv reverse es root st" and queue: "trav_queue st = u # q"
    and l: "set l \<subseteq> set (edges_from (adjacency_of reverse es) u)" "distinct l"
  shows "search_sound reverse es root (fold (visit_edge transitive reverse) l (st\<lparr>trav_queue := q\<rparr>))"
proof -
  have u: "u \<in> reach reverse es root" using inv queue by (auto simp: search_inv_def)
  have in_l: "e \<in> set es \<and> fst (hop reverse e) = u" if "e \<in> set l" for e
    using that l(1) by (auto simp: set_edges_from [OF dist])
  have "edges_of reverse es (expanded st) \<union> set l \<subseteq> edges_of reverse es (reach reverse es root)"
    using inv in_l u by (auto simp: search_inv_def edges_of_def)
  moreover have "snd (hop reverse e) \<in> reach reverse es root" if "e \<in> set l" for e
    using reach_step [OF u] in_l [OF that] by blast
  ultimately show ?thesis
    using inv pop_selects [OF dist inv queue l, of transitive] by (auto simp: search_sound_def search_inv_def)
qed

lemma pop_inv:
  assumes dist: "distinct (map edge_id es)" and inv: "search_inv reverse es root st" and queue: "trav_queue st = u # q"
  shows "search_inv reverse es root
    (fold (visit_edge True reverse) (edges_from (adjacency_of reverse es) u) (st\<lparr>trav_queue := q\<rparr>))"
    (is "search_inv reverse es root ?st'")
proof -
  let ?l = "edges_from (adjacency_of reverse es) u" and ?N = "\<lambda>l. (snd \<circ> hop reverse) ` set l"
  have l: "set ?l = edges_of reverse es {u}" by (auto simp: set_edges_from [OF dist] edges_of_def)
  have q: "distinct q" "u \<notin> set q" "set q \<subseteq> set (trav_visited st)" "u \<in> set (trav_visited st)"
    using inv queue by (auto simp: search_inv_def)
  have queue': "distinct (trav_queue ?st')" "set (trav_queue ?st') = set q \<union> (?N ?l - set (trav_visited st))"
    using fold_visit_queue [of "st\<lparr>trav_queue := q\<rparr>" reverse ?l] q by auto
  have visited': "set (trav_visited ?st') = ?N ?l \<union> set (trav_visited st)" by simp
  have expanded': "expanded ?st' = insert u (expanded st)"
    using queue' visited' q queue by auto
  have "edges_of reverse es (expanded ?st') = edges_of reverse es (expanded st) \<union> set ?l"
    unfolding expanded' l by (auto simp: edges_of_def)
  moreover have "selects (edges_of reverse es (expanded st) \<union> set ?l) ?st'"
    using pop_selects [OF dist inv queue _ distinct_edges_from [OF dist]] by simp
  moreover have "search_sound reverse es root ?st'"
    using pop_sound [OF dist inv queue _ distinct_edges_from [OF dist]] by simp
  moreover have "snd (hop reverse e) \<in> set (trav_visited ?st')"
    if "e \<in> edges_of reverse es (expanded st) \<union> set ?l" for e
    using that inv unfolding visited' by (auto simp: search_inv_def)
  ultimately show ?thesis
    using queue' visited' q inv unfolding search_inv_def search_sound_def by auto
qed

lemma traverse_loop_transitive:
  assumes dist: "distinct (map edge_id es)"
    and run: "traverse_loop cancel True reverse maximum (adjacency_of reverse es) st polls = Inr (st', polls')"
    and inv: "search_inv reverse es root st" and small: "trav_edges st \<le> maximum"
  shows "search_sound reverse es root st' \<and> trav_edges st' \<le> maximum \<and>
    (trav_queue st' = [] \<and> trav_complete st' = trav_complete st \<and> search_inv reverse es root st' \<or>
     \<not> trav_complete st' \<and> trav_edges st' = maximum \<and> maximum < length es)"
  using run inv small
proof (induction cancel "True" reverse maximum "adjacency_of reverse es" st polls rule: traverse_loop.induct)
  case (1 cancel reverse maximum st polls)
  show ?case
  proof (cases "trav_queue st")
    case Nil
    with 1 show ?thesis by (simp add: traverse_loop.simps search_inv_sound)
  next
    case (Cons u q)
    let ?l = "edges_from (adjacency_of reverse es) u" and ?st0 = "st\<lparr>trav_queue := q\<rparr>"
    from 1(2) Cons obtain p1 stop st1 p2 where poll: "traversal_poll cancel polls = Inr p1"
        and visit: "visit_edges cancel True reverse maximum ?l ?st0 p1 = Inr ((stop, st1), p2)"
        and rest: "(if stop then Inr (st1, p2)
          else traverse_loop cancel True reverse maximum (adjacency_of reverse es) st1 p2) = Inr (st', polls')"
      by (subst (asm) traverse_loop.simps) (auto simp: bind_simps)
    from visit_edges_Inr [OF visit] 1(4) have stop: "stop = (maximum - trav_edges st < length ?l)"
      and st1: "st1 = (let s = fold (visit_edge True reverse) (take (maximum - trav_edges st) ?l) ?st0 in
        if stop then s\<lparr>trav_complete := False\<rparr> else s)" by auto
    show ?thesis
    proof (cases stop)
      case True
      let ?k = "maximum - trav_edges st"
      let ?s = "fold (visit_edge True reverse) (take ?k ?l) ?st0"
      have st': "st' = ?s\<lparr>trav_complete := False\<rparr>" using rest True st1 by simp
      have sub: "set (take ?k ?l) \<subseteq> set ?l" "distinct (take ?k ?l)"
        using distinct_edges_from [OF dist] by (auto dest: in_set_takeD)
      have sound: "search_sound reverse es root st'"
        using pop_sound [OF dist 1(3) Cons sub] unfolding st' search_sound_def by simp
      have "selects (edges_of reverse es (expanded st) \<union> set ?l) (fold (visit_edge True reverse) ?l ?st0)"
        using pop_selects [OF dist 1(3) Cons _ distinct_edges_from [OF dist]] by simp
      then have "trav_edges st + length ?l = card (edges_of reverse es (expanded st) \<union> set ?l)"
        by (simp add: selects_def)
      also have "\<dots> \<le> card (set es)" by (rule card_mono) (auto simp: edges_of_def set_edges_from [OF dist])
      also have "\<dots> \<le> length es" by (rule card_length)
      finally show ?thesis using sound 1(4) True stop unfolding st' by auto
    next
      case False
      then have st1': "st1 = fold (visit_edge True reverse) ?l ?st0" using st1 stop by simp
      have "search_inv reverse es root st1" unfolding st1' by (rule pop_inv [OF dist 1(3) Cons])
      moreover have "trav_edges st1 \<le> maximum" using False stop 1(4) by (simp add: st1')
      moreover have "trav_complete st1 = trav_complete st" by (simp add: st1')
      ultimately show ?thesis
        using 1(1) [OF Cons poll visit refl refl, of p2] False rest by simp
    qed
  qed
qed


lemma traverse_loop_direct:
  assumes dist: "distinct (map edge_id es)"
    and run: "traverse_loop cancel False reverse maximum (adjacency_of reverse es) (initial_traversal root complete) polls = Inr (st', polls')"
  shows "search_sound reverse es root st' \<and> trav_edges st' \<le> maximum \<and>
    (trav_complete st' = complete \<and> set (trav_visited st') = insert root ((snd \<circ> hop reverse) ` edges_of reverse es {root}) \<and>
       selects (edges_of reverse es {root}) st' \<or>
     \<not> trav_complete st' \<and> trav_edges st' = maximum \<and> maximum < length es)"
proof -
  let ?st = "initial_traversal root complete"
  let ?l = "edges_from (adjacency_of reverse es) root" and ?popped = "?st\<lparr>trav_queue := []\<rparr>"
  have inv: "search_inv reverse es root ?st" by (rule initial_search_inv)
  have queue: "trav_queue ?st = root # []" by (simp add: initial_traversal_def)
  have zero: "trav_edges ?st = 0" "expanded ?st = {}" by (simp_all add: initial_traversal_def)
  have l: "set ?l = edges_of reverse es {root}" by (auto simp: set_edges_from [OF dist] edges_of_def)
  from run queue obtain p1 stop p2 where
      visit: "visit_edges cancel False reverse maximum ?l ?popped p1 = Inr ((stop, st'), p2)"
    by (subst (asm) traverse_loop.simps) (auto simp: bind_simps)
  from visit_edges_Inr [OF visit] zero have stop: "stop = (maximum < length ?l)"
    and st': "st' = (let s = fold (visit_edge False reverse) (take maximum ?l) ?popped in
      if stop then s\<lparr>trav_complete := False\<rparr> else s)" by auto
  have sub: "set (take maximum ?l) \<subseteq> set ?l" "distinct (take maximum ?l)"
    using distinct_edges_from [OF dist] by (auto dest: in_set_takeD)
  have sound: "search_sound reverse es root st'"
    using pop_sound [OF dist inv queue sub] unfolding st' search_sound_def by (simp add: Let_def)
  show ?thesis
  proof (cases stop)
    case True
    have "length ?l \<le> length es"
      using distinct_card [OF distinct_edges_from [OF dist], of reverse root] card_mono [of "set es" "set ?l"]
        card_length [of es] by (auto simp: l edges_of_def)
    with True stop sound zero show ?thesis by (simp add: st' Let_def)
  next
    case False
    have "selects (edges_of reverse es (expanded ?st) \<union> set ?l) (fold (visit_edge False reverse) ?l ?popped)"
      using pop_selects [OF dist inv queue _ distinct_edges_from [OF dist]] by simp
    with False stop sound zero show ?thesis
      by (simp add: st' Let_def l initial_traversal_def edges_of_def)
  qed
qed

lemma traverse_loop_never: "\<exists>r. traverse_loop never transitive reverse maximum adj st polls = Inr r"
proof (induction "never" transitive reverse maximum adj st polls rule: traverse_loop.induct)
  case (1 transitive reverse maximum adj st polls)
  show ?case
  proof (cases "trav_queue st")
    case (Cons u q)
    obtain stop st1 p2 where visit: "visit_edges never transitive reverse maximum (edges_from adj u)
        (st\<lparr>trav_queue := q\<rparr>) (Suc polls) = Inr ((stop, st1), p2)"
      using visit_edges_never [of transitive reverse maximum "edges_from adj u" "st\<lparr>trav_queue := q\<rparr>" "Suc polls"] by auto
    show ?thesis
    proof (cases "stop \<or> \<not> transitive")
      case False
      with 1 [OF Cons _ visit refl refl False, of p2] Cons visit show ?thesis
        by (subst traverse_loop.simps) simp
    qed (subst traverse_loop.simps, simp add: Cons visit)
  qed (subst traverse_loop.simps, simp)
qed

section \<open>The selected nodes and edges\<close>

lemma sort_key_map: "sort_key k (map g xs) = map g (sort_key (\<lambda>x. k (g x)) xs)"
proof -
  have "insort_key k (g x) (map g ys) = map g (insort_key (\<lambda>x. k (g x)) x ys)" for x ys
    by (induction ys) auto
  then show ?thesis by (induction xs) auto
qed

lemma sort_key_values:
  assumes "distinct (map f xs)"
  shows "bm_values (bm.collect (map (\<lambda>x. (f x, x)) xs) []) = sort_key f xs"
proof -
  have "bm.collect (map (\<lambda>x. (f x, x)) xs) [] = sort_key fst (map (\<lambda>x. (f x, x)) xs)"
    by (rule collect_eq_sort) (use assms in \<open>simp add: comp_def\<close>)
  then show ?thesis by (simp add: bm_values_def sort_key_map comp_def)
qed


lemma option_eqI: "(\<And>v. x = Some v \<longleftrightarrow> y = Some v) \<Longrightarrow> x = y"
  by (cases x; cases y) force+

lemma selects_values:
  assumes dist: "distinct (map edge_id es)" and sel: "selects {e \<in> set es. P e} st"
  shows "bm_values (trav_selected st) = sort_key edge_id (filter P es)"
proof -
  let ?kvs = "map (\<lambda>e. (edge_id e, e)) (filter P es)"
  have d: "distinct (map edge_id (filter P es))" using dist by (rule distinct_map_filter)
  then have dk: "distinct (map fst ?kvs)" by (simp add: comp_def)
  have "trav_selected st = bm.collect ?kvs []"
  proof (rule bm_ext)
    fix i
    have "bm_get (trav_selected st) i = Some e \<longleftrightarrow> (i, e) \<in> set ?kvs" for e
      using sel by (auto simp: selects_def)
    moreover have "bm_get (bm.collect ?kvs []) i = Some e \<longleftrightarrow> (i, e) \<in> set ?kvs" for e
      by (simp only: bm.get_collect_empty map_of_rev_distinct [OF dk] map_of_eq_Some_iff [OF dk])
    ultimately show "bm_get (trav_selected st) i = bm_get (bm.collect ?kvs []) i" by (intro option_eqI) (simp only:)
  qed (use sel in \<open>simp_all add: selects_def\<close>)
  then show ?thesis using sort_key_values [OF d] by simp
qed

interpretation sel: meter selector_tick "\<lambda>_. ()" "\<lambda>w _. sw_used w" "\<lambda>w _. sw_maximum w"
    is_cancelled preprocessing_work_limit
  by unfold_locales (auto simp: selector_tick_def selector_work_step_def fun_eq_iff sum_bind_Inl_iff sum_bind_Inr_iff split: if_splits)

lemma select_nodes_returns:
  assumes "distinct (map node_id nodes)"
  shows "ensures (select_nodes root visited nodes)
    (\<lambda>ns. ns = sort_key node_id (filter (\<lambda>n. node_id n \<noteq> root \<and> bs_contains visited (node_id n)) nodes))"
proof -
  let ?P = "\<lambda>n. node_id n \<noteq> root \<and> bs_contains visited (node_id n)"
  have collect: "ensures (m_fold (\<lambda>node selected_nodes.
       m_bind (selector_tick ()) (\<lambda>_.
       if ?P node then m_bind (selector_tick ()) (\<lambda>_. m_return (bm_insert (node_id node) node selected_nodes))
       else m_return selected_nodes)) nodes [])
      (\<lambda>m. m = fold (\<lambda>node m. if ?P node then bm_insert (node_id node) node m else m) nodes [])"
    by (rule returns_fold) (auto intro!: ensures_then)
  have fold_eq: "fold (\<lambda>node m. if ?P node then bm_insert (node_id node) node m else m) nodes m
      = bm.collect (map (\<lambda>n. (node_id n, n)) (filter ?P nodes)) m" for m
    by (induction nodes arbitrary: m) auto
  have copy: "ensures (m_fold (\<lambda>node nodes. m_bind (selector_tick ()) (\<lambda>_. m_return (nodes @ [node]))) l []) (\<lambda>ns. ns = l)" for l :: "NodeRecord list"
  proof -
    have "ensures (m_fold (\<lambda>node nodes. m_bind (selector_tick ()) (\<lambda>_. m_return (nodes @ [node]))) l [])
        (\<lambda>ns. ns = fold (\<lambda>x acc. acc @ [x]) l [])"
      by (rule returns_fold) (auto intro!: ensures_then)
    then show ?thesis using fold_snoc [of "\<lambda>x. x" l "[]"] by simp
  qed
  have "distinct (map node_id (filter ?P nodes))" using assms by (rule distinct_map_filter)
  from sort_key_values [OF this] show ?thesis
    unfolding select_nodes_def by (intro ensures_bind [OF collect]) (use copy fold_eq in simp)
qed

lemma sel_tick_then:
  "sel.costs (\<lambda>_. n) (f ()) Q \<Longrightarrow> sel.costs (\<lambda>_. Suc n) (m_bind (selector_tick ()) f) Q"
  using sel.costs_tick_then [of "\<lambda>_. n" f Q "()"] by simp

lemma select_nodes_costs:
  "sel.costs (\<lambda>_. 3 * length nodes) (select_nodes root visited nodes) (\<lambda>_. True)"
proof -
  let ?P = "\<lambda>n. node_id n \<noteq> root \<and> bs_contains visited (node_id n)"
  let ?step = "\<lambda>node m. m_bind (selector_tick ()) (\<lambda>_.
       if ?P node then m_bind (selector_tick ()) (\<lambda>_. m_return (bm_insert (node_id node) node m)) else m_return m)"
  let ?copy = "\<lambda>l. m_fold (\<lambda>node nodes. m_bind (selector_tick ()) (\<lambda>_. m_return (nodes @ [node]))) l []"
  let ?I = "\<lambda>(xs :: NodeRecord list) (m :: (string, NodeRecord) bmap). length m \<le> length xs \<and> bm_invar m"
  have "sel.costs (\<lambda>_. \<Sum>n\<leftarrow>nodes. Suc (Suc 0)) (m_fold ?step nodes []) (?I nodes)"
  proof (rule sel.costs_fold [where P = ?I and n = "\<lambda>_ _. Suc (Suc 0)"])
    fix "done" node rest m
    assume inv: "?I done m"
    have grow: "length (bm_insert (node_id node) node m) \<le> Suc (length done)"
      using inv length_bm_insert [of m "node_id node" node] by (auto split: if_splits)
    have skip: "sel.costs (\<lambda>_. Suc 0) (m_return m) (?I (done @ [node]))"
      using inv by (intro sel.costs_mono [OF sel.costs_return [of "?I (done @ [node])" m]]) auto
    have push: "sel.costs (\<lambda>_. Suc 0) (m_bind (selector_tick ()) (\<lambda>_. m_return (bm_insert (node_id node) node m))) (?I (done @ [node]))"
      using grow inv by (intro sel_tick_then sel.costs_return) simp
    show "sel.costs (\<lambda>_. Suc (Suc 0)) (?step node m) (?I (done @ [node]))"
      using skip push by (intro sel_tick_then) simp
  qed simp
  moreover have "sel.costs (\<lambda>_. length nodes) (?copy (bm_values m)) (\<lambda>_. True)" if "?I nodes m" for m
  proof -
    have "sel.costs (\<lambda>_. \<Sum>n\<leftarrow>bm_values m. Suc 0) (?copy (bm_values m)) (\<lambda>_. True)"
      by (rule sel.costs_fold [where P = "\<lambda>_ _. True" and n = "\<lambda>_ _. Suc 0"])
        (auto intro!: sel_tick_then sel.costs_return)
    then show ?thesis
      by (rule sel.costs_mono) (use that in \<open>simp_all add: sum_list_triv bm_values_def comp_def\<close>)
  qed
  ultimately have "sel.costs (\<lambda>_. (\<Sum>n\<leftarrow>nodes. Suc (Suc 0)) + length nodes) (select_nodes root visited nodes) (\<lambda>_. True)"
    unfolding select_nodes_def by (rule sel.costs_bind)
  then show ?thesis by (rule sel.costs_mono) (simp_all add: sum_list_triv)
qed


lemma materialize_edges_returns:
  assumes wf: "wf_matrix (snap_profile_matrix snapshot)"
  shows "ensures (materialize_edges E decode snapshot qf l) (\<lambda>r. r = (l, map (path_step_of E decode snapshot qf) l))"
  unfolding materialize_edges_def
proof (rule ensures_bind [OF materializer_returns], elim conjE)
  fix proj assume proj: "projects E snapshot qf (bs_of_list (map edge_id l)) proj"
  let ?g = "\<lambda>e (edges, steps). (edges @ [e], steps @ [path_step_of E decode snapshot qf e])"
  have "ensures (m_fold (\<lambda>edge (edges, steps).
       m_bind (materialize_step E decode proj edge) (\<lambda>step.
       m_bind (clone_edge_output edge) (\<lambda>edge. m_return (edges @ [edge], steps @ [step])))) l ([], []))
      (\<lambda>r. r = fold ?g l ([], []))"
    using materialize_step_returns [OF proj _ wf, of _ decode]
    by (intro returns_fold) (auto simp: bs_contains_def clone_edge_output_def case_prod_beta
        intro!: ensures_bind [where P = "\<lambda>s. s = path_step_of E decode snapshot qf _"]
          ensures_bind [where P = "\<lambda>e. e = _"] ensures_step)
  moreover have "fold ?g l (a, b) = (a @ l, b @ map (path_step_of E decode snapshot qf) l)" for a b
    by (induction l arbitrary: a b) auto
  ultimately show "ensures (m_fold (\<lambda>edge (edges, steps).
       m_bind (materialize_step E decode proj edge) (\<lambda>step.
       m_bind (clone_edge_output edge) (\<lambda>edge. m_return (edges @ [edge], steps @ [step])))) l ([], []))
      (\<lambda>r. r = (l, map (path_step_of E decode snapshot qf) l))"
    by simp
qed

lemma materialize_edges_costs:
  assumes dist: "distinct (map fst (selected_occurrences (bs_of_list (map edge_id l))
      (edge_occurrences (matrix_correlations (snap_profile_matrix snapshot)))))"
    and small: "\<And>edge. edge \<in> set l \<Longrightarrow> step_within E snapshot qf k (edge_id edge)"
  shows "pp.costs (pcost (scan_cost snapshot)
      ((217 + k) * length l + length (matrix_entries (snap_profile_matrix snapshot))))
    (materialize_edges E decode snapshot qf l) (\<lambda>_. True)"
proof -
  have out: "pp.costs (pcost 0 1) (m_bind (clone_edge_output edge) (\<lambda>edge. m_return (a @ [edge], b @ [step]))) (\<lambda>_. True)"
    for edge a b and step :: PathStep
  proof -
    have "pp.costs (pcost 0 1) (clone_edge_output edge) (\<lambda>_. True)"
      unfolding clone_edge_output_def One_nat_def by (intro costs_use costs_done) (simp_all add: is_snapshot_scan_def)
    from costs_seq [OF this costs_done] have "pp.costs (pcost (0 + 0) (1 + 0))
        (m_bind (clone_edge_output edge) (\<lambda>edge. m_return (a @ [edge], b @ [step]))) (\<lambda>_. True)" by this simp
    then show ?thesis by (rule costs_le) simp_all
  qed
  have "pp.costs (pcost (scan_cost snapshot + 0)
      (133 * length l + length (matrix_entries (snap_profile_matrix snapshot)) + (83 + k + 1) * length l))
    (materialize_edges E decode snapshot qf l) (\<lambda>_. True)"
    unfolding materialize_edges_def case_prod_unfold
    by (rule costs_seq [OF materializer_costs [OF dist small]], assumption, rule materialize_loop_costs)
      (auto simp: bs_contains_def intro: small out)
  then show ?thesis by (rule costs_le) (simp_all add: algebra_simps)
qed

lemma materialize_edges_claimed:
  "ensures (materialize_edges E decode snapshot qf l) (\<lambda>_. list_all (claimed_once snapshot) l)"
  unfolding materialize_edges_def claimed_once_distinct
  by (rule ensures_bind [OF materializer_returns]) (simp add: ensures_def)

section \<open>What a traversal should contain\<close>

text \<open>
  The store keeps edges and nodes under their identifier as primary key, and the phase coverage as an ordered map.
\<close>

definition wf_snapshot :: "GraphSnapshot \<Rightarrow> bool" where
  "wf_snapshot snapshot \<longleftrightarrow> distinct (map edge_id (snap_edges snapshot)) \<and> distinct (map node_id (snap_nodes snapshot)) \<and>
     wf_matrix (snap_profile_matrix snapshot)"

definition region :: "bool \<Rightarrow> bool \<Rightarrow> EdgeRecord list \<Rightarrow> string \<Rightarrow> string set" where
  "region transitive reverse es root = (if transitive then reach reverse es root else {root})"

definition region_edges :: "bool \<Rightarrow> EdgeRecord list \<Rightarrow> string set \<Rightarrow> EdgeRecord list" where
  "region_edges reverse es U = sort_key edge_id (filter (\<lambda>e. fst (hop reverse e) \<in> U) es)"

definition region_nodes :: "bool \<Rightarrow> EdgeRecord list \<Rightarrow> string set \<Rightarrow> string \<Rightarrow> NodeRecord list \<Rightarrow> NodeRecord list" where
  "region_nodes reverse es U root nodes = sort_key node_id
     (filter (\<lambda>n. node_id n \<noteq> root \<and> node_id n \<in> (snd \<circ> hop reverse) ` edges_of reverse es U) nodes)"

lemma reach_targets: "reach reverse es root = insert root ((snd \<circ> hop reverse) ` edges_of reverse es (reach reverse es root))"
proof
  show "reach reverse es root \<subseteq> insert root ((snd \<circ> hop reverse) ` edges_of reverse es (reach reverse es root))"
  proof (rule reach_subset)
    fix e assume e: "e \<in> set es"
      and "fst (hop reverse e) \<in> insert root ((snd \<circ> hop reverse) ` edges_of reverse es (reach reverse es root))"
    then have "fst (hop reverse e) \<in> reach reverse es root"
      using reach_step [of _ reverse es root] by (auto simp: edges_of_def)
    with e show "snd (hop reverse e) \<in> insert root ((snd \<circ> hop reverse) ` edges_of reverse es (reach reverse es root))"
      by (auto simp: edges_of_def)
  qed simp
qed (use reach_step in \<open>auto simp: edges_of_def\<close>)

lemma traverse_loop_exact:
  assumes dist: "distinct (map edge_id es)"
    and run: "traverse_loop cancel transitive reverse maximum (adjacency_of reverse es) (initial_traversal root c) polls = Inr (st, polls')"
    and complete: "trav_complete st"
  shows "c \<and> selects (edges_of reverse es (region transitive reverse es root)) st \<and>
    set (trav_visited st) = insert root ((snd \<circ> hop reverse) ` edges_of reverse es (region transitive reverse es root))"
proof (cases transitive)
  case True
  with run have "traverse_loop cancel True reverse maximum (adjacency_of reverse es) (initial_traversal root c) polls = Inr (st, polls')"
    by simp
  from traverse_loop_transitive [OF dist this initial_search_inv]
  have inv: "trav_queue st = []" "c" "search_inv reverse es root st"
    using complete by (auto simp: initial_traversal_def)
  then have visited: "set (trav_visited st) \<subseteq> reach reverse es root" "root \<in> set (trav_visited st)"
      "\<And>e. e \<in> set es \<Longrightarrow> fst (hop reverse e) \<in> set (trav_visited st) \<Longrightarrow> snd (hop reverse e) \<in> set (trav_visited st)"
      "selects (edges_of reverse es (set (trav_visited st))) st"
    by (auto simp: search_inv_def edges_of_def)
  have "set (trav_visited st) = reach reverse es root"
    using visited(1) reach_subset [OF visited(2,3)] by blast
  with visited(4) inv(2) True reach_targets [of reverse es root] show ?thesis by (simp add: region_def)
next
  case False
  with run have "traverse_loop cancel False reverse maximum (adjacency_of reverse es) (initial_traversal root c) polls = Inr (st, polls')"
    by simp
  from traverse_loop_direct [OF dist this] complete False show ?thesis
    by (simp add: region_def)
qed

lemma traverse_loop_sound:
  assumes dist: "distinct (map edge_id es)"
    and run: "traverse_loop cancel transitive reverse maximum (adjacency_of reverse es) (initial_traversal root c) polls = Inr (st, polls')"
  shows "search_sound reverse es root st \<and> trav_edges st \<le> maximum \<and>
    (trav_complete st = c \<or> \<not> trav_complete st \<and> trav_edges st = maximum \<and> maximum < length es)"
proof (cases transitive)
  case True
  with run have "traverse_loop cancel True reverse maximum (adjacency_of reverse es) (initial_traversal root c) polls = Inr (st, polls')"
    by simp
  from traverse_loop_transitive [OF dist this initial_search_inv] show ?thesis
    by (auto simp: initial_traversal_def)
next
  case False
  with run have "traverse_loop cancel False reverse maximum (adjacency_of reverse es) (initial_traversal root c) polls = Inr (st, polls')"
    by simp
  from traverse_loop_direct [OF dist this] show ?thesis by auto
qed


section \<open>The query as a whole\<close>

lemma traverse_runs:
  assumes wf: "wf_snapshot snapshot"
    and run: "traverse_bounded_filtered_cancellable_with_adjacency_limit E decode snapshot selector transitive reverse qf
      kinds max_traversal max_adjacency cancel = Inr r"
  obtains es st polls polls' where
    "es = filter (follows snapshot qf kinds) (take max_adjacency (snap_edges snapshot))"
    and "selector_candidates selector (snap_nodes snapshot) = [tr_root (btr_result r)]"
    and "traverse_loop cancel transitive reverse max_traversal (adjacency_of reverse es)
      (initial_traversal (node_id (tr_root (btr_result r))) (length (snap_edges snapshot) \<le> max_adjacency)) polls = Inr (st, polls')"
    and "tr_nodes (btr_result r) = sort_key node_id (filter (\<lambda>n. node_id n \<noteq> node_id (tr_root (btr_result r)) \<and>
      node_id n \<in> set (trav_visited st)) (snap_nodes snapshot))"
    and "tr_edges (btr_result r) = bm_values (trav_selected st)"
    and "tr_steps (btr_result r) = map (path_step_of E decode snapshot qf) (tr_edges (btr_result r))"
    and "btr_complete r = trav_complete st" and "btr_traversed_edges r = to_u64 (trav_edges st)"
    and "btr_diagnostics r = traversal_diagnostics (trav_complete st) (length (snap_edges snapshot) \<le> max_adjacency)
      (trav_edges st) max_traversal max_adjacency"
proof -
  from run obtain root p1 p2 adj c p3 st p4 nodes p5 edges steps p6 where
      sel: "resolve_selector_bounded_cancellable E cancel snapshot selector MAX_GRAPH_SERVICE_PREPROCESSING_WORK_ITEMS p1 = Inr (root, p2)"
      and adj: "adjacency_cancellable cancel snapshot reverse qf kinds max_adjacency p2 = Inr ((adj, c), p3)"
      and loop: "traverse_loop cancel transitive reverse max_traversal adj (initial_traversal (node_id root) c) p3 = Inr (st, p4)"
      and nodes: "run_selector_work (select_nodes (node_id root) (trav_visited st) (snap_nodes snapshot)) cancel p4 = Inr (nodes, p5)"
      and edges: "run_postprocessing MAX_GRAPH_SERVICE_PREPROCESSING_WORK_ITEMS
        (materialize_edges E decode snapshot qf (bm_values (trav_selected st))) cancel p5 = Inr ((edges, steps), p6)"
      and r: "r = \<lparr>btr_result = \<lparr>tr_root = root, tr_nodes = nodes, tr_edges = edges, tr_steps = steps\<rparr>,
          btr_complete = trav_complete st, btr_traversed_edges = to_u64 (trav_edges st),
          btr_diagnostics = traversal_diagnostics (trav_complete st) c (trav_edges st) max_traversal max_adjacency\<rparr>"
    unfolding traverse_bounded_filtered_cancellable_with_adjacency_limit_def
    by (auto simp: sum_bind_Inr_iff)
  note A = adjacency_cancellable_Inr [OF adj]
  have N: "nodes = sort_key node_id (filter (\<lambda>n. node_id n \<noteq> node_id root \<and> node_id n \<in> set (trav_visited st)) (snap_nodes snapshot))"
    using nodes ensuresD [OF select_nodes_returns] wf
    by (auto simp: run_selector_work_def sum_bind_Inr_iff wf_snapshot_def bs_contains_def)
  have S: "edges = bm_values (trav_selected st) \<and> steps = map (path_step_of E decode snapshot qf) edges"
    using edges ensuresD [OF materialize_edges_returns] wf
    by (fastforce simp: run_postprocessing_def sum_bind_Inr_iff wf_snapshot_def)
  have R: "selector_candidates selector (snap_nodes snapshot) = [root]"
    using sel by (rule resolve_denotes)
  show thesis
    by (rule that [OF refl]) (use A loop N S R in \<open>simp_all add: r\<close>)
qed


lemma selects_length:
  assumes "selects A st"
  shows "length (bm_values (trav_selected st)) = card A" and "set (bm_values (trav_selected st)) = A"
proof -
  let ?m = "trav_selected st"
  have inv: "bm_invar ?m" using assms by (simp add: selects_def)
  have set: "set ?m = (\<lambda>e. (edge_id e, e)) ` A"
    using assms bm.in_entries_iff [OF inv] by (auto simp: selects_def)
  have "distinct ?m" using bm_invar_distinct [OF inv] by (metis distinct_map)
  then have "length ?m = card (set ?m)" by (simp add: distinct_card)
  also have "\<dots> = card A" unfolding set by (rule card_image) (simp add: inj_on_def)
  finally show "length (bm_values ?m) = card A" by (simp add: bm_values_def)
  show "set (bm_values ?m) = A" by (simp add: bm_values_def set image_image)
qed

lemma reach_mono: "set es \<subseteq> set es' \<Longrightarrow> reach reverse es root \<subseteq> reach reverse es' root"
  unfolding reach_def hops_def by (rule Image_mono) (auto intro!: rtrancl_mono)

lemma traverse_succeeds:
  assumes wf: "wf_snapshot snapshot"
    and selector: "selector_candidates selector (snap_nodes snapshot) = [root]" "snd (parse_selector selector) \<noteq> []"
    and nodes: "3 * length (snap_nodes snapshot) + 10 \<le> MAX_GRAPH_SERVICE_PREPROCESSING_WORK_ITEMS"
    and limits: "length (snap_edges snapshot) \<le> max_adjacency" "length (followed snapshot qf kinds) \<le> max_traversal"
    and small: "list_all (\<lambda>e. step_within E snapshot qf k (edge_id e)) (followed snapshot qf kinds)"
    and scan: "scan_cost snapshot \<le> MAX_GRAPH_SNAPSHOT_SCAN_WORK_ITEMS"
    and work: "(217 + k) * length (followed snapshot qf kinds) + length (matrix_entries (snap_profile_matrix snapshot))
      \<le> MAX_GRAPH_SERVICE_PREPROCESSING_WORK_ITEMS"
  shows "if list_all (claimed_once snapshot) (region_edges reverse (followed snapshot qf kinds)
        (region transitive reverse (followed snapshot qf kinds) (node_id root)))
    then \<exists>r. traverse_bounded_filtered_cancellable_with_adjacency_limit E decode snapshot selector transitive reverse qf
      kinds max_traversal max_adjacency never = Inr r \<and> btr_complete r \<and> tr_root (btr_result r) = root
    else \<exists>e. traverse_bounded_filtered_cancellable_with_adjacency_limit E decode snapshot selector transitive reverse qf
      kinds max_traversal max_adjacency never = Inl e"
proof -
  have "length (snap_nodes snapshot) \<le> u64_max" using nodes by (simp add: limit_simps u64_max_def)
  from resolve_finds [OF nodes this selector(2), of E 1] selector(1) obtain p1 where
    sel: "resolve_selector_bounded_cancellable E never snapshot selector MAX_GRAPH_SERVICE_PREPROCESSING_WORK_ITEMS (Suc 0) = Inr (root, p1)"
    by (auto simp: map_sum_def split: sum.splits)
  obtain adj c p2 where adj: "adjacency_cancellable never snapshot reverse qf kinds max_adjacency p1 = Inr ((adj, c), p2)"
    using adjacency_loop_never [of snapshot reverse qf kinds max_adjacency 0 "snap_edges snapshot" "[]" p1]
    by (auto simp: adjacency_cancellable_def)
  let ?es = "followed snapshot qf kinds"
  from adjacency_cancellable_Inr [OF adj] limits(1) have A: "adj = adjacency_of reverse ?es" "c"
    by (simp_all add: followed_def)
  obtain st p3 where loop: "traverse_loop never transitive reverse max_traversal adj (initial_traversal (node_id root) c) p2 = Inr (st, p3)"
    using traverse_loop_never [of transitive reverse max_traversal adj "initial_traversal (node_id root) c" p2] by auto
  have de: "distinct (map edge_id ?es)" using wf by (simp add: followed_def wf_snapshot_def distinct_map_filter)
  from traverse_loop_sound [OF de loop [unfolded A(1)]] A(2) limits(2) have complete: "trav_complete st" by auto
  let ?A = "edges_of reverse ?es (region transitive reverse ?es (node_id root))"
  have selects: "selects ?A st" using traverse_loop_exact [OF de loop [unfolded A(1)] complete] by simp
  note selected = selects_length [OF selects]
  have "?A \<subseteq> set ?es" by (auto simp: edges_of_def)
  then have sub: "set (bm_values (trav_selected st)) \<subseteq> set ?es" and "card ?A \<le> card (set ?es)"
    by (simp_all add: selected card_mono)
  then have count: "length (bm_values (trav_selected st)) \<le> length ?es"
    using card_length [of ?es] by (simp add: selected)
  have "sw_used (new_selector_work MAX_GRAPH_SERVICE_PREPROCESSING_WORK_ITEMS) + 3 * length (snap_nodes snapshot)
      \<le> sw_maximum (new_selector_work MAX_GRAPH_SERVICE_PREPROCESSING_WORK_ITEMS)"
    using nodes by (simp add: new_selector_work_def)
  with select_nodes_costs [of "snap_nodes snapshot" "node_id root" "trav_visited st"] obtain ns w p4 where nodes': "select_nodes (node_id root) (trav_visited st) (snap_nodes snapshot) never
      (new_selector_work MAX_GRAPH_SERVICE_PREPROCESSING_WORK_ITEMS, p3) = Inr (ns, w, p4)"
    by (rule affordableD)
  let ?l = "bm_values (trav_selected st)"
  have region: "?l = region_edges reverse ?es (region transitive reverse ?es (node_id root))"
    using selects_values [OF de selects [unfolded edges_of_def]] by (simp add: region_edges_def)
  show ?thesis
  proof (cases "list_all (claimed_once snapshot) ?l")
    case once: True
    have "pp.costs (pcost (scan_cost snapshot) ((217 + k) * length ?l + length (matrix_entries (snap_profile_matrix snapshot))))
      (materialize_edges E decode snapshot qf ?l) (\<lambda>_. True)"
      by (rule materialize_edges_costs [OF once [unfolded claimed_once_distinct]]) (use sub small in \<open>auto simp: list_all_iff\<close>)
    then obtain es w' p5 where edges': "materialize_edges E decode snapshot qf ?l never
        (new_postprocessing_work MAX_GRAPH_SERVICE_PREPROCESSING_WORK_ITEMS, p4) = Inr (es, w', p5)"
    proof (rule affordableD)
      have "(217 + k) * length ?l + length (matrix_entries (snap_profile_matrix snapshot))
          \<le> MAX_GRAPH_SERVICE_PREPROCESSING_WORK_ITEMS"
        using mult_le_mono2 [OF count, of "217 + k"] work by linarith
      with scan show "pp_spent (new_postprocessing_work MAX_GRAPH_SERVICE_PREPROCESSING_WORK_ITEMS) b +
          pcost (scan_cost snapshot) ((217 + k) * length ?l + length (matrix_entries (snap_profile_matrix snapshot))) b
          \<le> pp_limit (new_postprocessing_work MAX_GRAPH_SERVICE_PREPROCESSING_WORK_ITEMS) b" for b
        by (simp add: pp_spent_def pp_limit_def new_postprocessing_work_def with_scan_maximum_def)
    qed
    have "\<exists>r. traverse_bounded_filtered_cancellable_with_adjacency_limit E decode snapshot selector transitive reverse qf
      kinds max_traversal max_adjacency never = Inr r \<and> btr_complete r \<and> tr_root (btr_result r) = root"
      unfolding traverse_bounded_filtered_cancellable_with_adjacency_limit_def
      by (simp add: sel adj loop nodes' edges' run_selector_work_def run_postprocessing_def complete case_prod_beta)
    then show ?thesis using once unfolding region by simp
  next
    case twice: False
    obtain e where e: "materialize_edges E decode snapshot qf ?l never
        (new_postprocessing_work MAX_GRAPH_SERVICE_PREPROCESSING_WORK_ITEMS, p4) = Inl e"
      using ensuresD [OF materialize_edges_claimed] twice by (metis old.sum.exhaust prod.exhaust)
    have "\<exists>e. traverse_bounded_filtered_cancellable_with_adjacency_limit E decode snapshot selector transitive reverse qf
      kinds max_traversal max_adjacency never = Inl e"
      unfolding traverse_bounded_filtered_cancellable_with_adjacency_limit_def
      by (simp add: sel adj loop nodes' e run_selector_work_def run_postprocessing_def case_prod_beta)
    then show ?thesis using twice unfolding region by simp
  qed
qed

section \<open>An example\<close>

definition example_graph :: GraphSnapshot where
  "example_graph = example_snapshot [example_node ''a'' ''file'', example_node ''b'' ''file''] [example_edge ''e'' ''b'' ''a''] []"

lemma example_graph_simps:
  "snap_nodes example_graph = [example_node ''a'' ''file'', example_node ''b'' ''file'']"
  "snap_edges example_graph = [example_edge ''e'' ''b'' ''a'']" "snap_evidence example_graph = []"
  "matrix_correlations (snap_profile_matrix example_graph) = []" "matrix_entries (snap_profile_matrix example_graph) = []"
  "followed example_graph empty_filter unrestricted = [example_edge ''e'' ''b'' ''a'']"
  by (simp_all add: example_graph_def example_snapshot_def followed_def follows_def allows_unrestricted)

lemma example_graph_wf: "wf_snapshot example_graph"
  by (simp add: wf_snapshot_def wf_matrix_def example_graph_simps example_defs)

lemma example_candidates: "selector_candidates ''id:b'' (snap_nodes example_graph) = [example_node ''b'' ''file'']"
  by (simp add: example_graph_simps selector_candidates_def locator_group_def is_exact_def locator_selector_def
      parse_examples kind_matches_def exact_match_def example_defs)

lemmas example_facts = example_graph_simps parse_examples step_within_def edge_evidence_def edge_correlation_def
  edge_occurrences_def scan_cost_def correlation_scan_cost_def limit_simps

lemma example_traversal:
  "\<exists>r. traverse_bounded_filtered_cancellable_with_adjacency_limit example_externals (\<lambda>_. None) example_graph ''id:b''
      True False empty_filter unrestricted 5 5 never = Inr r \<and> btr_complete r \<and> tr_root (btr_result r) = example_node ''b'' ''file''"
proof -
  have "list_all (claimed_once example_graph) es" for es
    by (simp add: claimed_once_def list_all_iff example_graph_simps edge_occurrences_def)
  moreover have "if list_all (claimed_once example_graph) (region_edges False (followed example_graph empty_filter unrestricted)
        (region True False (followed example_graph empty_filter unrestricted) (node_id (example_node ''b'' ''file''))))
    then \<exists>r. traverse_bounded_filtered_cancellable_with_adjacency_limit example_externals (\<lambda>_. None) example_graph ''id:b''
      True False empty_filter unrestricted 5 5 never = Inr r \<and> btr_complete r \<and> tr_root (btr_result r) = example_node ''b'' ''file''
    else \<exists>e. traverse_bounded_filtered_cancellable_with_adjacency_limit example_externals (\<lambda>_. None) example_graph ''id:b''
      True False empty_filter unrestricted 5 5 never = Inl e"
    by (rule traverse_succeeds [OF example_graph_wf example_candidates, where k = 0]) (simp_all add: example_facts)
  ultimately show ?thesis by simp
qed

section \<open>Correctness\<close>

text \<open>
  C2: a complete traversal is exactly the dependency region of its root. The root is the one node the
  selector denotes; the edges are all followed edges that leave the region (every node reachable from the root
  over followed edges when transitive, the root alone otherwise), in the order of their identifiers; the nodes
  are all nodes those edges lead to, without the root, in the same order; and the steps are the reference
  steps of the edges. Both directions and every filter are covered.
\<close>

theorem traverse_complete_exact:
  assumes wf: "wf_snapshot snapshot"
    and run: "traverse_bounded_filtered_cancellable_with_adjacency_limit E decode snapshot selector transitive reverse qf
      kinds max_traversal max_adjacency cancel = Inr r"
    and complete: "btr_complete r"
  shows "let root = tr_root (btr_result r); es = followed snapshot qf kinds;
      U = region transitive reverse es (node_id root) in
    selector_candidates selector (snap_nodes snapshot) = [root] \<and>
    tr_edges (btr_result r) = region_edges reverse es U \<and>
    tr_nodes (btr_result r) = region_nodes reverse es U (node_id root) (snap_nodes snapshot) \<and>
    tr_steps (btr_result r) = map (path_step_of E decode snapshot qf) (region_edges reverse es U) \<and>
    btr_diagnostics r = []"
proof (rule traverse_runs [OF wf run])
  fix es st polls polls'
  let ?root = "node_id (tr_root (btr_result r))"
  assume es: "es = filter (follows snapshot qf kinds) (take max_adjacency (snap_edges snapshot))"
    and sel: "selector_candidates selector (snap_nodes snapshot) = [tr_root (btr_result r)]"
    and loop: "traverse_loop cancel transitive reverse max_traversal (adjacency_of reverse es)
      (initial_traversal ?root (length (snap_edges snapshot) \<le> max_adjacency)) polls = Inr (st, polls')"
    and nodes: "tr_nodes (btr_result r) = sort_key node_id (filter (\<lambda>n. node_id n \<noteq> ?root \<and>
      node_id n \<in> set (trav_visited st)) (snap_nodes snapshot))"
    and edges: "tr_edges (btr_result r) = bm_values (trav_selected st)"
    and steps: "tr_steps (btr_result r) = map (path_step_of E decode snapshot qf) (tr_edges (btr_result r))"
    and c: "btr_complete r = trav_complete st"
    and diag: "btr_diagnostics r = traversal_diagnostics (trav_complete st) (length (snap_edges snapshot) \<le> max_adjacency)
      (trav_edges st) max_traversal max_adjacency"
  have dist: "distinct (map edge_id es)"
    using wf by (simp add: es wf_snapshot_def distinct_map_filter take_map [symmetric])
  from traverse_loop_exact [OF dist loop] complete c
  have all: "length (snap_edges snapshot) \<le> max_adjacency" and
      selects: "selects (edges_of reverse es (region transitive reverse es ?root)) st" and
      visited: "set (trav_visited st) = insert ?root ((snd \<circ> hop reverse) ` edges_of reverse es (region transitive reverse es ?root))"
    by auto
  have followed: "es = followed snapshot qf kinds" using all by (simp add: es followed_def)
  have "tr_edges (btr_result r) = region_edges reverse es (region transitive reverse es ?root)"
    using selects_values [OF dist selects [unfolded edges_of_def]] by (simp add: edges region_edges_def)
  moreover have "tr_nodes (btr_result r) = region_nodes reverse es (region transitive reverse es ?root) ?root (snap_nodes snapshot)"
    unfolding nodes visited region_nodes_def by (rule arg_cong [where f = "sort_key node_id"]) (rule filter_cong, auto)
  ultimately show ?thesis
    using sel steps diag complete c by (simp add: Let_def followed [symmetric] traversal_diagnostics_def)
qed


theorem traverse_complete_exact_witness:
  "\<exists>r. traverse_bounded_filtered_cancellable_with_adjacency_limit example_externals (\<lambda>_. None) example_graph ''id:b''
      True False empty_filter unrestricted 5 5 never = Inr r \<and> tr_edges (btr_result r) = [example_edge ''e'' ''b'' ''a''] \<and>
    tr_nodes (btr_result r) = [example_node ''a'' ''file'']"
proof -
  obtain r where r: "traverse_bounded_filtered_cancellable_with_adjacency_limit example_externals (\<lambda>_. None) example_graph ''id:b''
      True False empty_filter unrestricted 5 5 never = Inr r" "btr_complete r" "tr_root (btr_result r) = example_node ''b'' ''file''"
    using example_traversal by blast
  let ?U = "region True False [example_edge ''e'' ''b'' ''a''] ''b''"
  have U: "''b'' \<in> ?U" by (simp add: region_def)
  have edge: "hop False (example_edge ''e'' ''b'' ''a'') = (''b'', ''a'')" by (simp add: hop_def example_edge_def)
  have ids: "node_id (example_node i kind) = i" for i kind by (simp add: example_node_def)
  have "region_edges False [example_edge ''e'' ''b'' ''a''] ?U = [example_edge ''e'' ''b'' ''a'']"
    using U by (simp add: region_edges_def edge)
  moreover have "edges_of False [example_edge ''e'' ''b'' ''a''] ?U = {example_edge ''e'' ''b'' ''a''}"
    using U edge by (auto simp: edges_of_def)
  then have "region_nodes False [example_edge ''e'' ''b'' ''a''] ?U ''b'' (snap_nodes example_graph) = [example_node ''a'' ''file'']"
    by (simp add: region_nodes_def example_graph_simps(1) edge ids)
  ultimately show ?thesis
    using traverse_complete_exact [OF example_graph_wf r(1,2)] r(1,3) by (simp add: Let_def ids example_graph_simps(6))
qed

text \<open>
  C23: a limited traversal is honest. Whatever the limits and the cancellation, every returned edge leaves a
  node reachable from the root and every returned node is reachable; the number of edge visits is the number
  of returned edges and within the limit; and a result is incomplete only with a diagnostic, and only if one
  of the two limits is smaller than the number of edges it bounds.
\<close>

theorem traverse_partial_sound:
  assumes wf: "wf_snapshot snapshot"
    and run: "traverse_bounded_filtered_cancellable_with_adjacency_limit E decode snapshot selector transitive reverse qf
      kinds max_traversal max_adjacency cancel = Inr r"
  shows "let root = node_id (tr_root (btr_result r)); es = followed snapshot qf kinds in
    set (tr_edges (btr_result r)) \<subseteq> edges_of reverse es (reach reverse es root) \<and>
    node_id ` set (tr_nodes (btr_result r)) \<subseteq> reach reverse es root - {root} \<and>
    length (tr_edges (btr_result r)) \<le> max_traversal \<and>
    btr_traversed_edges r = to_u64 (length (tr_edges (btr_result r))) \<and>
    (if btr_complete r then btr_diagnostics r = []
     else length (btr_diagnostics r) = 1 \<and>
       (max_traversal < length es \<or> max_adjacency < length (snap_edges snapshot)))"
proof (rule traverse_runs [OF wf run])
  fix es st polls polls'
  let ?root = "node_id (tr_root (btr_result r))"
  assume es: "es = filter (follows snapshot qf kinds) (take max_adjacency (snap_edges snapshot))"
    and loop: "traverse_loop cancel transitive reverse max_traversal (adjacency_of reverse es)
      (initial_traversal ?root (length (snap_edges snapshot) \<le> max_adjacency)) polls = Inr (st, polls')"
    and nodes: "tr_nodes (btr_result r) = sort_key node_id (filter (\<lambda>n. node_id n \<noteq> ?root \<and>
      node_id n \<in> set (trav_visited st)) (snap_nodes snapshot))"
    and edges: "tr_edges (btr_result r) = bm_values (trav_selected st)"
    and c: "btr_complete r = trav_complete st" and traversed: "btr_traversed_edges r = to_u64 (trav_edges st)"
    and diag: "btr_diagnostics r = traversal_diagnostics (trav_complete st) (length (snap_edges snapshot) \<le> max_adjacency)
      (trav_edges st) max_traversal max_adjacency"
  have dist: "distinct (map edge_id es)"
    using wf by (simp add: es wf_snapshot_def distinct_map_filter take_map [symmetric])
  have sub: "set es \<subseteq> set (followed snapshot qf kinds)" by (auto simp: es followed_def dest: in_set_takeD)
  have len: "length es \<le> length (followed snapshot qf kinds)"
    unfolding es followed_def by (metis append_take_drop_id filter_append length_append le_add1)
  from traverse_loop_sound [OF dist loop] obtain A where sound: "set (trav_visited st) \<subseteq> reach reverse es ?root"
      and A: "selects A st" "A \<subseteq> edges_of reverse es (reach reverse es ?root)" and small: "trav_edges st \<le> max_traversal"
      and why: "trav_complete st = (length (snap_edges snapshot) \<le> max_adjacency) \<or>
        \<not> trav_complete st \<and> trav_edges st = max_traversal \<and> max_traversal < length es"
    by (auto simp: search_sound_def)
  note mono = reach_mono [OF sub, of reverse ?root]
  note count = selects_length [OF A(1)]
  have card: "card A = trav_edges st" using A(1) by (simp add: selects_def)
  show ?thesis
    unfolding Let_def edges nodes c traversed diag count card
    using A(2) sub mono sound small why len by (auto simp: edges_of_def traversal_diagnostics_def)
qed

theorem traverse_partial_sound_witness:
  "\<exists>r. traverse_bounded_filtered_cancellable_with_adjacency_limit example_externals (\<lambda>_. None) example_graph ''id:b''
      True False empty_filter unrestricted 5 5 never = Inr r \<and> length (tr_edges (btr_result r)) \<le> 5 \<and> btr_diagnostics r = []"
proof -
  obtain r where r: "traverse_bounded_filtered_cancellable_with_adjacency_limit example_externals (\<lambda>_. None) example_graph ''id:b''
      True False empty_filter unrestricted 5 5 never = Inr r" "btr_complete r"
    using example_traversal by blast
  from traverse_partial_sound [OF example_graph_wf r(1)] r show ?thesis by (auto simp: Let_def)
qed

text \<open>
  Traversal does not depend on the order in which the store delivers the edges: two complete adjacency
  scans over the same edges in different orders build the same adjacency.
\<close>

theorem adjacency_order_independent:
  assumes "distinct (map edge_id (snap_edges snapshot))" and "mset edges = mset (snap_edges snapshot)"
    and "adjacency_cancellable cancel snapshot reverse qf kinds maximum polls = Inr ((adj, True), p)"
    and "adjacency_cancellable cancel' (snapshot\<lparr>snap_edges := edges\<rparr>) reverse qf kinds maximum polls' = Inr ((adj', True), p')"
  shows "adj' = adj"
proof -
  let ?s = "snapshot\<lparr>snap_edges := edges\<rparr>"
  have follows: "follows ?s qf kinds = follows snapshot qf kinds"
    by (rule ext) (simp add: follows_def matches_edge_def runtime_context_for_edge_def is_runtime_evidence_of_def)
  have adj: "adj = adjacency_of reverse (filter (follows snapshot qf kinds) (snap_edges snapshot))"
    using adjacency_cancellable_Inr [OF assms(3)] by simp
  have adj': "adj' = adjacency_of reverse (filter (follows snapshot qf kinds) edges)"
    using adjacency_cancellable_Inr [OF assms(4)] by (simp add: follows)
  show ?thesis unfolding adj adj'
    by (rule adjacency_of_perm [symmetric]) (use assms(1,2) in \<open>simp_all add: distinct_map_filter mset_filter\<close>)
qed

theorem adjacency_order_independent_witness:
  "\<exists>adj. adjacency_cancellable never example_graph False empty_filter unrestricted 5 0 = Inr ((adj, True), 2) \<and>
    adjacency_cancellable never (example_graph\<lparr>snap_edges := [example_edge ''e'' ''b'' ''a'']\<rparr>) False empty_filter unrestricted 5 0
      = Inr ((adj, True), 2)"
proof -
  obtain adj adj' where runs: "adjacency_cancellable never example_graph False empty_filter unrestricted 5 0 = Inr ((adj, True), 2)"
    "adjacency_cancellable never (example_graph\<lparr>snap_edges := [example_edge ''e'' ''b'' ''a'']\<rparr>) False empty_filter unrestricted 5 0
      = Inr ((adj', True), 2)"
    by (simp add: adjacency_cancellable_def example_graph_simps numeral_2_eq_2)
  from adjacency_order_independent [OF _ _ runs] runs show ?thesis by (simp add: example_graph_simps)
qed

text \<open>
  C24: a query within the limits is decided. If the selector denotes one node, nothing cancels the query, and the
  snapshot fits into the traversal limits and, with \<open>k\<close> bounding the phase coverage of an edge, into the service
  budgets, then the query returns a complete result exactly if no edge of the region is claimed twice by the profile
  correlations; if one is, the query fails.
\<close>

theorem traverse_answers:
  assumes wf: "wf_snapshot snapshot"
    and selector: "selector_candidates selector (snap_nodes snapshot) = [root]" "snd (parse_selector selector) \<noteq> []"
    and nodes: "3 * length (snap_nodes snapshot) + 10 \<le> MAX_GRAPH_SERVICE_PREPROCESSING_WORK_ITEMS"
    and limits: "length (snap_edges snapshot) \<le> max_adjacency" "length (followed snapshot qf kinds) \<le> max_traversal"
    and small: "list_all (\<lambda>e. step_within E snapshot qf k (edge_id e)) (followed snapshot qf kinds)"
    and scan: "scan_cost snapshot \<le> MAX_GRAPH_SNAPSHOT_SCAN_WORK_ITEMS"
    and work: "(217 + k) * length (followed snapshot qf kinds) + length (matrix_entries (snap_profile_matrix snapshot))
      \<le> MAX_GRAPH_SERVICE_PREPROCESSING_WORK_ITEMS"
  shows "if list_all (claimed_once snapshot) (region_edges reverse (followed snapshot qf kinds)
        (region transitive reverse (followed snapshot qf kinds) (node_id root)))
    then \<exists>r. traverse_bounded_filtered_cancellable_with_adjacency_limit E decode snapshot selector transitive reverse qf
      kinds max_traversal max_adjacency never = Inr r \<and> btr_complete r \<and> tr_root (btr_result r) = root
    else \<exists>e. traverse_bounded_filtered_cancellable_with_adjacency_limit E decode snapshot selector transitive reverse qf
      kinds max_traversal max_adjacency never = Inl e"
  using assms by (rule traverse_succeeds)

theorem traverse_answers_witness:
  "\<exists>r. traverse_bounded_filtered_cancellable_with_adjacency_limit example_externals (\<lambda>_. None) example_graph ''id:b''
      False True empty_filter unrestricted 1 1 never = Inr r \<and> btr_complete r \<and> tr_root (btr_result r) = example_node ''b'' ''file''"
proof -
  have "list_all (claimed_once example_graph) es" for es
    by (simp add: claimed_once_def list_all_iff example_graph_simps edge_occurrences_def)
  moreover have "if list_all (claimed_once example_graph) (region_edges True (followed example_graph empty_filter unrestricted)
        (region False True (followed example_graph empty_filter unrestricted) (node_id (example_node ''b'' ''file''))))
    then \<exists>r. traverse_bounded_filtered_cancellable_with_adjacency_limit example_externals (\<lambda>_. None) example_graph ''id:b''
      False True empty_filter unrestricted 1 1 never = Inr r \<and> btr_complete r \<and> tr_root (btr_result r) = example_node ''b'' ''file''
    else \<exists>e. traverse_bounded_filtered_cancellable_with_adjacency_limit example_externals (\<lambda>_. None) example_graph ''id:b''
      False True empty_filter unrestricted 1 1 never = Inl e"
    by (rule traverse_answers [OF example_graph_wf example_candidates, where k = 0]) (simp_all add: example_facts)
  ultimately show ?thesis by simp
qed

end
