(* ===== verification/Why_Path.thy ===== *)
theory Why_Path
  imports Reachability
begin

text \<open>
  Path explanation: \<open>why\<close> and \<open>why_filtered\<close> in \<^verbatim>\<open>crates/depgraph-core/src/query.rs\<close>.

  A breadth-first search records, for every node it discovers, the edge it was discovered through; the path is
  read off backwards from the target. The search stops at the first edge that discovers the target. The
  reference is \<open>is_path\<close>: a list of edges that connects two nodes. The correctness proof follows the usual
  argument for breadth-first search with a ghost depth function: the queue is sorted by depth, and a node
  discovered from the head of the queue is one deeper than the head.
\<close>

section \<open>The search\<close>

record why_search =
  why_queue :: "string list"
  why_seen :: "string bset"
  why_predecessor :: "string \<rightharpoonup> EdgeRecord"

definition discover :: "EdgeRecord \<Rightarrow> why_search \<Rightarrow> why_search" where
  "discover edge st =
     st\<lparr>why_seen := bs_insert (edge_target edge) (why_seen st),
        why_predecessor := (why_predecessor st)(edge_target edge \<mapsto> edge)\<rparr>"

definition enqueue :: "string \<Rightarrow> why_search \<Rightarrow> why_search" where
  "enqueue node st = st\<lparr>why_queue := why_queue st @ [node]\<rparr>"

text \<open>The inner loop; discovering the target clears the queue and leaves the loop.\<close>

fun why_visit :: "string \<Rightarrow> EdgeRecord list \<Rightarrow> why_search \<Rightarrow> why_search" where
  "why_visit to_id [] st = st"
| "why_visit to_id (edge # edges) st =
     (if bs_contains (why_seen st) (edge_target edge) then why_visit to_id edges st
      else if edge_target edge = to_id then (discover edge st)\<lparr>why_queue := []\<rparr>
      else why_visit to_id edges (enqueue (edge_target edge) (discover edge st)))"

definition why_measure :: "string set \<Rightarrow> why_search \<Rightarrow> nat" where
  "why_measure nodes st = card (nodes - set (why_seen st)) + length (why_queue st)"

lemma why_visit_measure:
  assumes "finite nodes" and "\<And>e. e \<in> set es \<Longrightarrow> edge_target e \<in> nodes"
  shows "why_measure nodes (why_visit to_id es st) \<le> why_measure nodes st"
  using assms(2)
proof (induction es arbitrary: st)
  case (Cons e es)
  let ?n = "edge_target e"
  have "card (nodes - set (why_seen st)) = Suc (card (nodes - insert ?n (set (why_seen st))))"
    if "?n \<notin> set (why_seen st)"
    using card.remove [of "nodes - set (why_seen st)" ?n] assms(1) Cons.prems that by (simp add: Diff_insert [symmetric])
  then have "why_measure nodes (enqueue ?n (discover e st)) \<le> why_measure nodes st"
    "why_measure nodes ((discover e st)\<lparr>why_queue := []\<rparr>) \<le> why_measure nodes st" if "?n \<notin> set (why_seen st)"
    using that by (simp_all add: why_measure_def enqueue_def discover_def)
  with Cons show ?case
    by (auto simp: bs_contains_def intro: order_trans)
qed simp

function (sequential) why_loop :: "string \<Rightarrow> CanonicalAdjacency \<Rightarrow> why_search \<Rightarrow> why_search" where
  "why_loop to_id adjacency st =
     (case why_queue st of
        [] \<Rightarrow> st
      | node # queue \<Rightarrow>
          why_loop to_id adjacency (why_visit to_id (edges_from adjacency node) (st\<lparr>why_queue := queue\<rparr>)))"
  by pat_completeness auto
termination
proof (relation "measure (\<lambda>(to_id, adjacency, st). why_measure (endpoints False adjacency) st)", simp)
  fix to_id adjacency and st :: why_search and node queue
  assume "why_queue st = node # queue"
  then show "((to_id, adjacency, why_visit to_id (edges_from adjacency node) (st\<lparr>why_queue := queue\<rparr>)), to_id, adjacency, st)
    \<in> measure (\<lambda>(to_id, adjacency, st). why_measure (endpoints False adjacency) st)"
    using why_visit_measure [of "endpoints False adjacency" "edges_from adjacency node" to_id "st\<lparr>why_queue := queue\<rparr>"]
      edges_from_endpoints [of _ adjacency node False]
    by (auto simp: hop_def why_measure_def)
qed

declare why_loop.simps [simp del]

text \<open>The path backwards from the target, refused when it would have more than a thousand edges.\<close>

function (sequential) reconstruct ::
  "string \<Rightarrow> (string \<rightharpoonup> EdgeRecord) \<Rightarrow> string \<Rightarrow> EdgeRecord list \<Rightarrow> query_error + EdgeRecord list" where
  "reconstruct from_id predecessor current reversed_edges =
     (if current = from_id then Inr reversed_edges
      else if length reversed_edges \<ge> MAX_DEPENDENCY_PATH_STEPS then Inl QueryPostprocessingExhausted
      else case predecessor current of
        None \<Rightarrow> Inl (Message (''path reconstruction failed at '' @ current))
      | Some edge \<Rightarrow> reconstruct from_id predecessor (edge_source edge) (reversed_edges @ [edge]))"
  by pat_completeness auto
termination
  by (relation "measure (\<lambda>(_, _, _, reversed_edges). MAX_DEPENDENCY_PATH_STEPS - length reversed_edges)") auto

declare reconstruct.simps [simp del]

section \<open>The query\<close>

record WhyResult =
  why_from :: NodeRecord
  why_to :: NodeRecord
  why_path_found :: bool
  why_steps :: "PathStep list"

definition initial_why :: "string \<Rightarrow> why_search" where
  "initial_why from_id = \<lparr>why_queue = [from_id], why_seen = [from_id], why_predecessor = Map.empty\<rparr>"

definition why_filtered ::
  "externals \<Rightarrow> (json \<Rightarrow> condition option) \<Rightarrow> GraphSnapshot \<Rightarrow> string \<Rightarrow> string \<Rightarrow> GraphQueryFilter
     \<Rightarrow> query_error + WhyResult" where
  "why_filtered E decode snapshot from_selector to_selector qf =
     sum_bind (resolve_selector E snapshot from_selector) (\<lambda>from_node.
     sum_bind (resolve_selector E snapshot to_selector) (\<lambda>to_node.
     if node_id from_node = node_id to_node
     then Inr \<lparr>why_from = from_node, why_to = to_node, why_path_found = True, why_steps = []\<rparr>
     else sum_bind (adjacency_cancellable never snapshot False qf unrestricted MAX_INTERACTIVE_QUERY_TRAVERSAL 0)
       (\<lambda>((adjacency, complete), _).
       if \<not> complete then Inl QueryPostprocessingExhausted
       else let st = why_loop (node_id to_node) adjacency (initial_why (node_id from_node)) in
         if why_predecessor st (node_id to_node) = None
         then Inr \<lparr>why_from = from_node, why_to = to_node, why_path_found = False, why_steps = []\<rparr>
         else sum_bind (reconstruct (node_id from_node) (why_predecessor st) (node_id to_node) []) (\<lambda>reversed_edges.
           sum_bind (materialize_path_steps_bounded_cancellable E decode snapshot qf (rev reversed_edges)
             MAX_GRAPH_SERVICE_PREPROCESSING_WORK_ITEMS never 0) (\<lambda>(steps, _).
           Inr \<lparr>why_from = from_node, why_to = to_node, why_path_found = True, why_steps = steps\<rparr>)))))"

definition why :: "externals \<Rightarrow> (json \<Rightarrow> condition option) \<Rightarrow> GraphSnapshot \<Rightarrow> string \<Rightarrow> string \<Rightarrow> query_error + WhyResult" where
  "why E decode snapshot from_selector to_selector =
     why_filtered E decode snapshot from_selector to_selector empty_filter"

section \<open>Paths\<close>

fun is_path :: "EdgeRecord set \<Rightarrow> string \<Rightarrow> EdgeRecord list \<Rightarrow> string \<Rightarrow> bool" where
  "is_path A u [] v \<longleftrightarrow> u = v"
| "is_path A u (e # p) v \<longleftrightarrow> e \<in> A \<and> edge_source e = u \<and> is_path A (edge_target e) p v"

lemma is_path_append: "is_path A u (p @ q) v \<longleftrightarrow> (\<exists>w. is_path A u p w \<and> is_path A w q v)"
  by (induction p arbitrary: u) auto

lemma is_path_reach: "v \<in> reach False es u \<longleftrightarrow> (\<exists>p. is_path (set es) u p v)"
proof
  assume "v \<in> reach False es u"
  then have "(u, v) \<in> (hops False es)\<^sup>*" by (simp add: reach_def)
  then show "\<exists>p. is_path (set es) u p v"
  proof (induction rule: rtrancl_induct)
    case base
    show ?case by (rule exI [of _ "[]"]) simp
  next
    case (step y z)
    then obtain p e where "is_path (set es) u p y" "e \<in> set es" "edge_source e = y" "edge_target e = z"
      by (auto simp: hops_def hop_def)
    then have "is_path (set es) u (p @ [e]) z" by (simp add: is_path_append)
    then show ?case by blast
  qed
next
  assume "\<exists>p. is_path (set es) u p v"
  then obtain p where "is_path (set es) u p v" by blast
  then have "(u, v) \<in> (hops False es)\<^sup>*"
  proof (induction p arbitrary: u)
    case (Cons e p)
    then have "(u, edge_target e) \<in> hops False es" by (force simp: hops_def hop_def)
    with Cons show ?case by (auto intro: converse_rtrancl_into_rtrancl)
  qed simp
  then show "v \<in> reach False es u" by (simp add: reach_def)
qed


section \<open>The invariant of the search\<close>

text \<open>
  \<open>d\<close> is the depth at which a node was discovered. \<open>waiting\<close> are the nodes still to be expanded, in order;
  a node that is not waiting has all its edges explored.
\<close>

definition tree :: "EdgeRecord set \<Rightarrow> string \<Rightarrow> (string \<Rightarrow> nat) \<Rightarrow> why_search \<Rightarrow> bool" where
  "tree A root d st \<longleftrightarrow> root \<in> set (why_seen st) \<and> d root = 0 \<and>
     (\<forall>v. why_predecessor st v \<noteq> None \<longleftrightarrow> v \<in> set (why_seen st) - {root}) \<and>
     (\<forall>v e. why_predecessor st v = Some e \<longrightarrow> e \<in> A \<and> edge_target e = v \<and>
        edge_source e \<in> set (why_seen st) \<and> d v = Suc (d (edge_source e)))"

definition frontier :: "(string \<Rightarrow> nat) \<Rightarrow> string list \<Rightarrow> why_search \<Rightarrow> bool" where
  "frontier d waiting st \<longleftrightarrow> sorted (map d waiting) \<and> set waiting \<subseteq> set (why_seen st) \<and>
     (waiting \<noteq> [] \<longrightarrow> (\<forall>x\<in>set (why_seen st). d x \<le> Suc (d (hd waiting))))"

definition explored :: "EdgeRecord set \<Rightarrow> (string \<Rightarrow> nat) \<Rightarrow> string list \<Rightarrow> why_search \<Rightarrow> bool" where
  "explored A d waiting st \<longleftrightarrow>
     (\<forall>e\<in>A. edge_source e \<in> set (why_seen st) - set waiting \<longrightarrow>
        edge_target e \<in> set (why_seen st) \<and> d (edge_target e) \<le> Suc (d (edge_source e)))"

text \<open>A path leads to a seen node that is not deeper than the path is long, or past a waiting node.\<close>

lemma path_depth:
  assumes inv: "tree A root d st" "explored A d waiting st" and path: "is_path A root p v"
  shows "v \<in> set (why_seen st) \<and> d v \<le> length p \<or> (\<exists>x\<in>set waiting. d x < length p)"
  using path
proof (induction p arbitrary: v rule: rev_induct)
  case Nil
  with inv(1) show ?case by (simp add: tree_def)
next
  case (snoc e p)
  then have e: "e \<in> A" "edge_target e = v" and p: "is_path A root p (edge_source e)"
    by (auto simp: is_path_append)
  from snoc.IH [OF p] show ?case
  proof
    assume seen: "edge_source e \<in> set (why_seen st) \<and> d (edge_source e) \<le> length p"
    show ?thesis
    proof (cases "edge_source e \<in> set waiting")
      case True
      with seen show ?thesis by (intro disjI2 bexI [of _ "edge_source e"]) auto
    next
      case False
      with seen e inv(2) show ?thesis by (auto simp: explored_def)
    qed
  qed (force intro: less_SucI)
qed

text \<open>Following one edge of the node \<open>u\<close> that is being expanded.\<close>

lemma discover_tree:
  assumes tree: "tree A root d st" and e: "e \<in> A" "edge_source e \<in> set (why_seen st)"
    and new: "edge_target e \<notin> set (why_seen st)"
  shows "tree A root (d(edge_target e := Suc (d (edge_source e)))) (discover e st)"
    and "tree A root (d(edge_target e := Suc (d (edge_source e)))) (enqueue (edge_target e) (discover e st))"
    and "tree A root (d(edge_target e := Suc (d (edge_source e)))) ((discover e st)\<lparr>why_queue := []\<rparr>)"
proof -
  show "tree A root (d(edge_target e := Suc (d (edge_source e)))) (discover e st)"
    using assms unfolding tree_def discover_def by (auto split: if_splits) (metis+)?
  then show "tree A root (d(edge_target e := Suc (d (edge_source e)))) (enqueue (edge_target e) (discover e st))"
    "tree A root (d(edge_target e := Suc (d (edge_source e)))) ((discover e st)\<lparr>why_queue := []\<rparr>)"
    by (simp_all add: tree_def enqueue_def)
qed

lemma discover_frontier:
  assumes fr: "frontier d (u # q) st" and new: "v \<notin> set (why_seen st)" and seen: "set (why_seen st') = insert v (set (why_seen st))"
  shows "frontier (d(v := Suc (d u))) (u # q @ [v]) st'"
proof -
  have neq: "x \<noteq> v" if "x \<in> set (u # q)" for x
    using fr new that by (auto simp: frontier_def)
  then have same: "map (d(v := Suc (d u))) q = map d q" "u \<noteq> v" by auto
  have "sorted (map (d(v := Suc (d u))) (u # q @ [v]))"
    using fr neq unfolding map_append list.map same by (auto simp: frontier_def sorted_append)
  with fr neq seen show ?thesis by (auto simp: frontier_def)
qed

lemma discover_explored:
  assumes ex: "explored A d (u # q) st" and tree: "tree A root d st" and new: "v \<notin> set (why_seen st)"
    and seen: "set (why_seen st') = insert v (set (why_seen st))"
  shows "explored A (d(v := k)) (u # q @ [v]) st'"
  using assms unfolding explored_def by auto


definition why_inv :: "EdgeRecord set \<Rightarrow> string \<Rightarrow> (string \<Rightarrow> nat) \<Rightarrow> string list \<Rightarrow> why_search \<Rightarrow> bool" where
  "why_inv A root d waiting st \<longleftrightarrow> tree A root d st \<and> frontier d waiting st \<and> explored A d waiting st"

definition finds :: "EdgeRecord set \<Rightarrow> string \<Rightarrow> string \<Rightarrow> why_search \<Rightarrow> bool" where
  "finds A root to_id st \<longleftrightarrow> to_id \<in> set (why_seen st) \<and>
     (\<exists>d. tree A root d st \<and> (\<forall>p. is_path A root p to_id \<longrightarrow> d to_id \<le> length p))"

lemma discover_seen [simp]: "set (why_seen (discover e st)) = insert (edge_target e) (set (why_seen st))"
  "why_queue (discover e st) = why_queue st"
  "set (why_seen (enqueue v st)) = set (why_seen st)" "why_queue (enqueue v st) = why_queue st @ [v]"
  by (simp_all add: discover_def enqueue_def)

lemma discover_inv:
  assumes inv: "why_inv A root d (u # why_queue st) st" and e: "e \<in> A" "edge_source e = u"
    and new: "edge_target e \<notin> set (why_seen st)"
  shows "why_inv A root (d(edge_target e := Suc (d u))) (u # why_queue st @ [edge_target e])
    (enqueue (edge_target e) (discover e st))"
proof -
  have parts: "tree A root d st" "frontier d (u # why_queue st) st" "explored A d (u # why_queue st) st"
    using inv by (simp_all add: why_inv_def)
  then have "u \<in> set (why_seen st)" by (simp add: frontier_def)
  then show ?thesis
    unfolding why_inv_def e(2) [symmetric] using parts e new
    by (intro conjI discover_tree(2) discover_frontier discover_explored [where root = root]) simp_all
qed

lemma discover_finds:
  assumes inv: "why_inv A root d (u # why_queue st) st" and e: "e \<in> A" "edge_source e = u" "edge_target e = to_id"
    and new: "to_id \<notin> set (why_seen st)"
  shows "finds A root to_id ((discover e st)\<lparr>why_queue := []\<rparr>)"
proof -
  let ?d = "d(to_id := Suc (d u))"
  have u: "u \<in> set (why_seen st)" and sorted: "\<forall>x\<in>set (u # why_queue st). d u \<le> d x"
    using inv by (auto simp: why_inv_def frontier_def)
  have "tree A root ?d ((discover e st)\<lparr>why_queue := []\<rparr>)"
    using discover_tree(3) [of A root d st e] inv e new u by (simp add: why_inv_def)
  moreover have "Suc (d u) \<le> length p" if "is_path A root p to_id" for p
    using path_depth [of A root d st "u # why_queue st" p to_id] inv that new sorted
    by (fastforce simp: why_inv_def)
  ultimately show ?thesis using e(3) unfolding finds_def by fastforce
qed

lemma why_visit_inv:
  assumes "why_inv A root d (u # why_queue st) st" and "to_id \<notin> set (why_seen st)"
    and "set es \<subseteq> {e \<in> A. edge_source e = u}"
  shows "(\<exists>d'. why_inv A root d' (u # why_queue (why_visit to_id es st)) (why_visit to_id es st) \<and>
      to_id \<notin> set (why_seen (why_visit to_id es st)) \<and>
      set (why_seen st) \<subseteq> set (why_seen (why_visit to_id es st)) \<and>
      edge_target ` set es \<subseteq> set (why_seen (why_visit to_id es st))) \<or>
    why_queue (why_visit to_id es st) = [] \<and> finds A root to_id (why_visit to_id es st)"
  using assms
proof (induction es arbitrary: d st)
  case (Cons e es)
  have e: "e \<in> A" "edge_source e = u" and es: "set es \<subseteq> {e \<in> A. edge_source e = u}" using Cons.prems by auto
  consider "edge_target e \<in> set (why_seen st)" | "edge_target e \<notin> set (why_seen st)" "edge_target e = to_id"
    | "edge_target e \<notin> set (why_seen st)" "edge_target e \<noteq> to_id" by blast
  then show ?case
  proof cases
    case 1
    with Cons.IH [OF Cons.prems(1,2) es] show ?thesis by (auto simp: bs_contains_def)
  next
    case 2
    with discover_finds [OF Cons.prems(1) e 2(2)] show ?thesis by (simp add: bs_contains_def)
  next
    case 3
    let ?st = "enqueue (edge_target e) (discover e st)"
    have "why_inv A root (d(edge_target e := Suc (d u))) (u # why_queue ?st) ?st"
      using discover_inv [OF Cons.prems(1) e 3(1)] by simp
    moreover have "to_id \<notin> set (why_seen ?st)" using 3(2) Cons.prems(2) by auto
    ultimately show ?thesis
      using Cons.IH [of _ ?st] es 3 by (fastforce simp: bs_contains_def)
  qed
qed auto

lemma why_inv_expanded:
  assumes inv: "why_inv A root d (u # q) st" and targets: "\<And>e. e \<in> A \<Longrightarrow> edge_source e = u \<Longrightarrow> edge_target e \<in> set (why_seen st)"
  shows "why_inv A root d q st"
proof -
  have depth: "d x \<le> Suc (d u)" if "x \<in> set (why_seen st)" for x
    using inv that by (simp add: why_inv_def frontier_def)
  have "explored A d q st"
    unfolding explored_def
  proof (intro ballI impI)
    fix e assume e: "e \<in> A" "edge_source e \<in> set (why_seen st) - set q"
    show "edge_target e \<in> set (why_seen st) \<and> d (edge_target e) \<le> Suc (d (edge_source e))"
    proof (cases "edge_source e = u")
      case True
      with targets [OF e(1)] depth show ?thesis by simp
    next
      case False
      with inv e show ?thesis by (simp add: why_inv_def explored_def)
    qed
  qed
  moreover have "frontier d q st"
    using inv unfolding why_inv_def frontier_def by (cases q) (auto intro: order_trans)
  ultimately show ?thesis using inv by (simp add: why_inv_def)
qed

lemma why_loop_inv:
  assumes dist: "distinct (map edge_id es)"
    and inv: "why_inv (set es) root d (why_queue st) st" and new: "to_id \<notin> set (why_seen st)"
  shows "finds (set es) root to_id (why_loop to_id (adjacency_of False es) st) \<or>
    to_id \<notin> set (why_seen (why_loop to_id (adjacency_of False es) st)) \<and>
    (\<exists>d. why_inv (set es) root d [] (why_loop to_id (adjacency_of False es) st))"
  using inv new
proof (induction to_id "adjacency_of False es" st arbitrary: d rule: why_loop.induct)
  case (1 to_id st)
  show ?case
  proof (cases "why_queue st")
    case Nil
    with 1(2,3) show ?thesis by (subst (1 2 3) why_loop.simps) auto
  next
    case (Cons u q)
    let ?l = "edges_from (adjacency_of False es) u" and ?popped = "st\<lparr>why_queue := q\<rparr>"
    let ?next = "why_visit to_id ?l ?popped"
    have l: "set ?l = {e \<in> set es. edge_source e = u}" by (auto simp: set_edges_from [OF dist] hop_def)
    have popped: "why_inv (set es) root d (u # why_queue ?popped) ?popped"
      using 1(2) Cons by (simp add: why_inv_def tree_def frontier_def explored_def)
    from why_visit_inv [OF popped, of to_id ?l] 1(3) l
    consider d' where "why_inv (set es) root d' (u # why_queue ?next) ?next" "to_id \<notin> set (why_seen ?next)"
        "edge_target ` set ?l \<subseteq> set (why_seen ?next)"
      | "why_queue ?next = []" "finds (set es) root to_id ?next" by auto
    then show ?thesis
    proof cases
      case 1
      from 1(3) have "why_inv (set es) root d' (why_queue ?next) ?next"
        by (intro why_inv_expanded [OF 1(1)]) (auto simp: l)
      from "1.hyps" [OF Cons this 1(2)] Cons show ?thesis by (subst (1 2 3) why_loop.simps) simp
    next
      case 2
      then have "why_loop to_id (adjacency_of False es) st = ?next"
        using Cons by (subst why_loop.simps) (simp, subst why_loop.simps, simp)
      with 2 show ?thesis by simp
    qed
  qed
qed


section \<open>Reading off the path\<close>

lemma tree_root:
  assumes "tree A root d st" and "v \<in> set (why_seen st)" and "d v = 0"
  shows "v = root"
proof (rule ccontr)
  assume "v \<noteq> root"
  with assms obtain e where "why_predecessor st v = Some e" by (force simp: tree_def)
  with assms show False by (auto simp: tree_def)
qed

lemma tree_predecessor:
  assumes tree: "tree A root d st" and "v \<in> set (why_seen st)" and "Suc n = d v"
  obtains e where "why_predecessor st v = Some e" and "v \<noteq> root" and "e \<in> A" and "edge_target e = v"
    and "edge_source e \<in> set (why_seen st)" and "n = d (edge_source e)"
proof -
  have "v \<noteq> root" using assms by (auto simp: tree_def)
  with assms(2) tree obtain e where e: "why_predecessor st v = Some e" by (force simp: tree_def)
  then have "e \<in> A \<and> edge_target e = v \<and> edge_source e \<in> set (why_seen st) \<and> d v = Suc (d (edge_source e))"
    using tree unfolding tree_def by blast
  with that [OF e \<open>v \<noteq> root\<close>] assms(3) show thesis by simp
qed

lemma reconstruct_path:
  assumes tree: "tree A root d st"
  shows "current \<in> set (why_seen st) \<Longrightarrow> length acc + d current \<le> MAX_DEPENDENCY_PATH_STEPS \<Longrightarrow>
    \<exists>q. reconstruct root (why_predecessor st) current acc = Inr (acc @ q) \<and> length q = d current \<and> is_path A root (rev q) current"
proof (induction "d current" arbitrary: current acc)
  case 0
  then have "current = root" using tree_root [OF tree] by simp
  then show ?case using 0 by (subst reconstruct.simps) auto
next
  case (Suc n)
  obtain e where e: "why_predecessor st current = Some e" and root: "current \<noteq> root"
      and step: "e \<in> A" "edge_target e = current" "edge_source e \<in> set (why_seen st)" "n = d (edge_source e)"
    using tree_predecessor [OF tree Suc.prems(1) Suc.hyps(2)] .
  from Suc.hyps(1) [OF step(4,3), of "acc @ [e]"] Suc.prems(2) Suc.hyps(2) step(4) obtain q where
    q: "reconstruct root (why_predecessor st) (edge_source e) (acc @ [e]) = Inr ((acc @ [e]) @ q)"
      "length q = d (edge_source e)" "is_path A root (rev q) (edge_source e)" by auto
  have "\<not> MAX_DEPENDENCY_PATH_STEPS \<le> length acc" using Suc.prems(2) Suc.hyps(2) by simp
  then have "reconstruct root (why_predecessor st) current acc = Inr (acc @ (e # q))"
    by (subst reconstruct.simps) (simp add: root e q)
  moreover have "is_path A root (rev (e # q)) current" using q step by (auto simp: is_path_append)
  ultimately show ?case using q(2) step(4) Suc.hyps(2) by (intro exI [of _ "e # q"]) simp
qed

lemma reconstruct_long:
  assumes tree: "tree A root d st"
  shows "current \<in> set (why_seen st) \<Longrightarrow> length acc \<le> MAX_DEPENDENCY_PATH_STEPS \<Longrightarrow>
    MAX_DEPENDENCY_PATH_STEPS < length acc + d current \<Longrightarrow>
    reconstruct root (why_predecessor st) current acc = Inl QueryPostprocessingExhausted"
proof (induction "d current" arbitrary: current acc)
  case (Suc n)
  obtain e where e: "why_predecessor st current = Some e" and root: "current \<noteq> root"
      and step: "edge_source e \<in> set (why_seen st)" "n = d (edge_source e)"
    using tree_predecessor [OF tree Suc.prems(1) Suc.hyps(2)] .
  show ?case
  proof (cases "length acc \<ge> MAX_DEPENDENCY_PATH_STEPS")
    case True
    then show ?thesis by (subst reconstruct.simps) (simp add: root)
  next
    case False
    with Suc.hyps(1) [OF step(2,1), of "acc @ [e]"] Suc.prems Suc.hyps(2) step(2) show ?thesis
      by (subst reconstruct.simps) (simp add: root e)
  qed
qed simp

section \<open>The whole search\<close>

lemma initial_why_inv: "why_inv A root (\<lambda>_. 0) (why_queue (initial_why root)) (initial_why root)"
  by (auto simp: why_inv_def tree_def frontier_def explored_def initial_why_def)

definition shortest_path :: "EdgeRecord list \<Rightarrow> string \<Rightarrow> EdgeRecord list \<Rightarrow> string \<Rightarrow> bool" where
  "shortest_path es u p v \<longleftrightarrow> is_path (set es) u p v \<and> (\<forall>p'. is_path (set es) u p' v \<longrightarrow> length p \<le> length p')"

lemma tree_path:
  assumes tree: "tree A root d st"
  shows "v \<in> set (why_seen st) \<Longrightarrow> \<exists>q. is_path A root q v \<and> length q = d v"
proof (induction "d v" arbitrary: v)
  case 0
  then have "v = root" using tree_root [OF tree] by simp
  with 0 show ?case by (intro exI [of _ "[]"]) simp
next
  case (Suc n)
  obtain e where e: "e \<in> A" "edge_target e = v" "edge_source e \<in> set (why_seen st)" "n = d (edge_source e)"
    using tree_predecessor [OF tree Suc.prems Suc.hyps(2)] .
  from Suc.hyps(1) [OF e(4,3)] obtain q where "length q = d (edge_source e)" "is_path A root q (edge_source e)" by auto
  with e Suc.hyps(2) show ?case by (intro exI [of _ "q @ [e]"]) (simp add: is_path_append)
qed

text \<open>What the recorded predecessors say about a shortest path.\<close>

definition explains :: "EdgeRecord list \<Rightarrow> string \<Rightarrow> string \<Rightarrow> why_search \<Rightarrow> bool" where
  "explains es root to_id st \<longleftrightarrow>
     (why_predecessor st to_id = None \<longleftrightarrow> to_id \<notin> reach False es root) \<and>
     (\<forall>p. shortest_path es root p to_id \<longrightarrow>
       (if length p \<le> MAX_DEPENDENCY_PATH_STEPS
        then \<exists>q. reconstruct root (why_predecessor st) to_id [] = Inr (rev q) \<and> shortest_path es root q to_id
        else reconstruct root (why_predecessor st) to_id [] = Inl QueryPostprocessingExhausted))"

lemma finds_explains:
  assumes finds: "finds (set es) root to_id st" and neq: "root \<noteq> to_id"
  shows "explains es root to_id st"
proof -
  obtain d where seen: "to_id \<in> set (why_seen st)" and tree: "tree (set es) root d st"
      and low: "\<And>p. is_path (set es) root p to_id \<Longrightarrow> d to_id \<le> length p"
    using finds by (auto simp: finds_def)
  have pred: "why_predecessor st to_id \<noteq> None" using tree seen neq by (auto simp: tree_def)
  obtain q where q: "is_path (set es) root q to_id" "length q = d to_id" using tree_path [OF tree seen] by blast
  have "length p = d to_id" if "shortest_path es root p to_id" for p
    using that q low [of p] by (auto simp: shortest_path_def intro!: antisym)
  moreover have "\<exists>q. reconstruct root (why_predecessor st) to_id [] = Inr (rev q) \<and> shortest_path es root q to_id"
    if "d to_id \<le> MAX_DEPENDENCY_PATH_STEPS"
  proof -
    from reconstruct_path [OF tree seen, of "[]"] that obtain q where
      "reconstruct root (why_predecessor st) to_id [] = Inr q" "length q = d to_id" "is_path (set es) root (rev q) to_id"
      by auto
    with low show ?thesis by (intro exI [of _ "rev q"]) (simp add: shortest_path_def)
  qed
  moreover have "reconstruct root (why_predecessor st) to_id [] = Inl QueryPostprocessingExhausted"
    if "\<not> d to_id \<le> MAX_DEPENDENCY_PATH_STEPS"
    using reconstruct_long [OF tree seen, of "[]"] that by simp
  ultimately show ?thesis using pred q by (auto simp: explains_def is_path_reach)
qed

lemma why_search_explains:
  assumes dist: "distinct (map edge_id es)" and neq: "root \<noteq> to_id"
  shows "explains es root to_id (why_loop to_id (adjacency_of False es) (initial_why root))"
    (is "explains es root to_id ?st")
proof -
  have "to_id \<notin> set (why_seen (initial_why root))" using neq by (simp add: initial_why_def)
  from why_loop_inv [OF dist initial_why_inv this]
  consider "finds (set es) root to_id ?st" | d where "to_id \<notin> set (why_seen ?st)" "why_inv (set es) root d [] ?st"
    by auto
  then show ?thesis
  proof cases
    case 1
    then show ?thesis using neq by (rule finds_explains)
  next
    case 2
    then have "why_predecessor ?st to_id = None" by (auto simp: why_inv_def tree_def)
    moreover have "reach False es root \<subseteq> set (why_seen ?st)"
      using 2(2) by (intro reach_subset) (auto simp: why_inv_def tree_def explored_def hop_def)
    moreover have "to_id \<in> reach False es root" if "shortest_path es root p to_id" for p
      using that by (auto simp: shortest_path_def is_path_reach)
    ultimately show ?thesis using 2(1) by (auto simp: explains_def)
  qed
qed

lemma shortest_path_exists: "v \<in> reach False es u \<Longrightarrow> \<exists>p. shortest_path es u p v"
  unfolding is_path_reach shortest_path_def
  using arg_min_nat_lemma [of "\<lambda>p. is_path (set es) u p v" _ length] by blast

section \<open>The query as a whole\<close>

lemma resolve_selector_denotes:
  "resolve_selector E snapshot selector = Inr n \<Longrightarrow> selector_candidates selector (snap_nodes snapshot) = [n]"
  by (auto simp: resolve_selector_def sum_bind_Inr_iff intro: resolve_denotes)

lemma why_filtered_eq:
  assumes "resolve_selector E snapshot from_sel = Inr f" and "resolve_selector E snapshot to_sel = Inr t"
    and "node_id f \<noteq> node_id t" and edges: "length (snap_edges snapshot) \<le> MAX_INTERACTIVE_QUERY_TRAVERSAL"
  shows "why_filtered E decode snapshot from_sel to_sel qf =
    (let pred = why_predecessor (why_loop (node_id t) (adjacency_of False (followed snapshot qf unrestricted)) (initial_why (node_id f)))
     in if pred (node_id t) = None
        then Inr \<lparr>why_from = f, why_to = t, why_path_found = False, why_steps = []\<rparr>
        else sum_bind (reconstruct (node_id f) pred (node_id t) []) (\<lambda>reversed_edges.
          sum_bind (materialize_path_steps_bounded_cancellable E decode snapshot qf (rev reversed_edges)
            MAX_GRAPH_SERVICE_PREPROCESSING_WORK_ITEMS never 0) (\<lambda>(steps, _).
          Inr \<lparr>why_from = f, why_to = t, why_path_found = True, why_steps = steps\<rparr>)))"
proof -
  obtain adj c p where adj: "adjacency_cancellable never snapshot False qf unrestricted MAX_INTERACTIVE_QUERY_TRAVERSAL 0 = Inr ((adj, c), p)"
    using adjacency_loop_never [of snapshot False qf unrestricted MAX_INTERACTIVE_QUERY_TRAVERSAL 0 "snap_edges snapshot" "[]" 0]
    by (auto simp: adjacency_cancellable_def)
  from adjacency_cancellable_Inr [OF adj] edges have "adj = adjacency_of False (followed snapshot qf unrestricted)" "c"
    by (simp_all add: followed_def)
  with adj assms show ?thesis by (simp add: why_filtered_def Let_def)
qed

lemma why_filtered_large:
  assumes "resolve_selector E snapshot from_sel = Inr f" and "resolve_selector E snapshot to_sel = Inr t"
    and "node_id f \<noteq> node_id t" and edges: "\<not> length (snap_edges snapshot) \<le> MAX_INTERACTIVE_QUERY_TRAVERSAL"
  shows "why_filtered E decode snapshot from_sel to_sel qf = Inl QueryPostprocessingExhausted"
proof -
  obtain adj c p where adj: "adjacency_cancellable never snapshot False qf unrestricted MAX_INTERACTIVE_QUERY_TRAVERSAL 0 = Inr ((adj, c), p)"
    using adjacency_loop_never [of snapshot False qf unrestricted MAX_INTERACTIVE_QUERY_TRAVERSAL 0 "snap_edges snapshot" "[]" 0]
    by (auto simp: adjacency_cancellable_def)
  with adjacency_cancellable_Inr [OF adj] assms show ?thesis by (simp add: why_filtered_def)
qed

lemma resolve_selector_finds:
  assumes nodes: "3 * length (snap_nodes snapshot) + 10 \<le> MAX_GRAPH_SERVICE_PREPROCESSING_WORK_ITEMS"
    and sel: "selector_candidates selector (snap_nodes snapshot) = [n]" "snd (parse_selector selector) \<noteq> []"
  shows "resolve_selector E snapshot selector = Inr n"
proof -
  have "length (snap_nodes snapshot) \<le> u64_max" using nodes by (simp add: limit_simps u64_max_def)
  from resolve_finds [OF nodes this sel(2), of E 0] sel(1) obtain p where
    "resolve_selector_bounded_cancellable E never snapshot selector MAX_GRAPH_SERVICE_PREPROCESSING_WORK_ITEMS 0 = Inr (n, p)"
    by (auto simp: map_sum_def split: sum.splits)
  then show ?thesis by (simp add: resolve_selector_def)
qed

lemma is_path_edges: "is_path A u p v \<Longrightarrow> set p \<subseteq> A"
  by (induction p arbitrary: u) auto

lemma path_steps_affordable:
  assumes wf: "wf_snapshot snapshot" and path: "is_path (set (followed snapshot qf unrestricted)) u p v"
    and len: "length p \<le> MAX_DEPENDENCY_PATH_STEPS"
    and small: "list_all (\<lambda>e. step_within E snapshot qf k (edge_id e)) (followed snapshot qf unrestricted)"
    and once: "list_all (claimed_once snapshot) p"
    and scan: "scan_cost snapshot \<le> MAX_GRAPH_SNAPSHOT_SCAN_WORK_ITEMS"
    and work: "(216 + k) * MAX_DEPENDENCY_PATH_STEPS + length (matrix_entries (snap_profile_matrix snapshot))
      \<le> MAX_GRAPH_SERVICE_PREPROCESSING_WORK_ITEMS"
  shows "\<exists>polls. materialize_path_steps_bounded_cancellable E decode snapshot qf p
    MAX_GRAPH_SERVICE_PREPROCESSING_WORK_ITEMS never 0 = Inr (map (path_step_of E decode snapshot qf) p, polls)"
proof -
  have "list_all (\<lambda>e. step_within E snapshot qf k (edge_id e)) p"
    using is_path_edges [OF path] small by (auto simp: list_all_iff)
  moreover have "(216 + k) * length p + length (matrix_entries (snap_profile_matrix snapshot))
      \<le> MAX_GRAPH_SERVICE_PREPROCESSING_WORK_ITEMS"
    using mult_le_mono2 [OF len, of "216 + k"] work by linarith
  moreover have "wf_matrix (snap_profile_matrix snapshot)" using wf by (simp add: wf_snapshot_def)
  ultimately show ?thesis
    using materialize_path_steps_returns [OF _ len _ once [unfolded claimed_once_distinct] scan, where E = E and qf = qf and k = k]
    by blast
qed

lemma path_steps_claimed:
  assumes "materialize_path_steps_bounded_cancellable E decode snapshot qf p maximum_work cancel polls = Inr r"
  shows "list_all (claimed_once snapshot) p"
proof -
  have "ensures (materialize_all E decode snapshot qf p) (\<lambda>_. list_all (claimed_once snapshot) p)"
    unfolding materialize_all_def claimed_once_distinct by (rule ensures_bind [OF materializer_returns]) (simp add: ensures_def)
  then have "ensures (materialize_all E decode snapshot qf p) (\<lambda>_. list_all (claimed_once snapshot) p)" .
  from ensuresD [OF this] assms show ?thesis
    by (fastforce simp: materialize_path_steps_bounded_cancellable_def run_postprocessing_def sum_bind_Inr_iff split: if_splits)
qed

lemma why_decided:
  assumes wf: "wf_snapshot snapshot"
    and nodes: "3 * length (snap_nodes snapshot) + 10 \<le> MAX_GRAPH_SERVICE_PREPROCESSING_WORK_ITEMS"
    and from_sel: "selector_candidates from_sel (snap_nodes snapshot) = [f]" "snd (parse_selector from_sel) \<noteq> []"
    and to_sel: "selector_candidates to_sel (snap_nodes snapshot) = [t]" "snd (parse_selector to_sel) \<noteq> []"
    and edges: "length (snap_edges snapshot) \<le> MAX_INTERACTIVE_QUERY_TRAVERSAL"
    and small: "list_all (\<lambda>e. step_within E snapshot qf k (edge_id e)) (followed snapshot qf unrestricted)"
    and scan: "scan_cost snapshot \<le> MAX_GRAPH_SNAPSHOT_SCAN_WORK_ITEMS"
    and work: "(216 + k) * MAX_DEPENDENCY_PATH_STEPS + length (matrix_entries (snap_profile_matrix snapshot))
      \<le> MAX_GRAPH_SERVICE_PREPROCESSING_WORK_ITEMS"
  shows "let es = followed snapshot qf unrestricted; answer = why_filtered E decode snapshot from_sel to_sel qf in
    if node_id t \<notin> reach False es (node_id f)
    then answer = Inr \<lparr>why_from = f, why_to = t, why_path_found = False, why_steps = []\<rparr>
    else \<exists>p. shortest_path es (node_id f) p (node_id t) \<and>
      (if MAX_DEPENDENCY_PATH_STEPS < length p then answer = Inl QueryPostprocessingExhausted
       else if list_all (claimed_once snapshot) p
       then answer = Inr \<lparr>why_from = f, why_to = t, why_path_found = True, why_steps = map (path_step_of E decode snapshot qf) p\<rparr>
       else \<exists>e. answer = Inl e)"
proof -
  let ?es = "followed snapshot qf unrestricted"
  let ?short = "\<lambda>p. shortest_path ?es (node_id f) p (node_id t)"
  note f = resolve_selector_finds [OF nodes from_sel, of E] and t = resolve_selector_finds [OF nodes to_sel, of E]
  have de: "distinct (map edge_id ?es)" using wf by (simp add: wf_snapshot_def followed_def distinct_map_filter)
  have same: "length p = length p'" if "?short p" "?short p'" for p p'
    using that by (auto simp: shortest_path_def intro!: antisym)
  consider "node_id f = node_id t" | "node_id f \<noteq> node_id t" "node_id t \<notin> reach False ?es (node_id f)"
    | p where "node_id f \<noteq> node_id t" "node_id t \<in> reach False ?es (node_id f)" "?short p"
    using shortest_path_exists by blast
  then show ?thesis
  proof cases
    case 1
    then have "?short []" by (simp add: shortest_path_def)
    moreover have "why_filtered E decode snapshot from_sel to_sel qf =
        Inr \<lparr>why_from = f, why_to = t, why_path_found = True, why_steps = []\<rparr>"
      using 1 f t by (simp add: why_filtered_def)
    moreover have "node_id t \<in> reach False ?es (node_id f)" using 1 by (simp add: reach_def)
    ultimately show ?thesis by (auto simp: Let_def intro!: exI [of _ "[]"])
  next
    case 2
    with why_search_explains [OF de 2(1)] show ?thesis
      by (simp add: why_filtered_eq [OF f t 2(1) edges] explains_def)
  next
    case (3 p)
    note ex = why_search_explains [OF de 3(1), unfolded explains_def]
    note at_p = ex [THEN conjunct2, THEN spec, of p, THEN mp, OF 3(3)]
    show ?thesis
    proof (cases "length p \<le> MAX_DEPENDENCY_PATH_STEPS")
      case True
      with at_p obtain q where q: "reconstruct (node_id f) (why_predecessor (why_loop (node_id t) (adjacency_of False ?es)
          (initial_why (node_id f)))) (node_id t) [] = Inr (rev q)" "?short q" by auto
      then have path: "is_path (set ?es) (node_id f) q (node_id t)" "length q \<le> MAX_DEPENDENCY_PATH_STEPS"
        using same [OF q(2) 3(3)] True by (auto simp: shortest_path_def)
      let ?steps = "materialize_path_steps_bounded_cancellable E decode snapshot qf q MAX_GRAPH_SERVICE_PREPROCESSING_WORK_ITEMS never 0"
      have answer: "why_filtered E decode snapshot from_sel to_sel qf = sum_bind ?steps (\<lambda>(steps, _).
          Inr \<lparr>why_from = f, why_to = t, why_path_found = True, why_steps = steps\<rparr>)"
        using ex 3(2) q(1) by (auto simp: why_filtered_eq [OF f t 3(1) edges] Let_def)
      show ?thesis
      proof (cases "list_all (claimed_once snapshot) q")
        case once: True
        from path_steps_affordable [OF wf path small once scan work] obtain polls where
          "?steps = Inr (map (path_step_of E decode snapshot qf) q, polls)" by blast
        with answer 3(2) q(2) path(2) once show ?thesis
          by (auto simp: Let_def intro!: exI [of _ q])
      next
        case False
        then obtain e where "?steps = Inl e" using path_steps_claimed [of E decode snapshot qf q] by (cases ?steps) blast+
        with answer 3(2) q(2) path(2) False show ?thesis by (auto simp: Let_def intro!: exI [of _ q])
      qed
    next
      case False
      with at_p ex 3(2,3) show ?thesis
        by (auto simp: why_filtered_eq [OF f t 3(1) edges] Let_def intro!: exI [of _ p])
    qed
  qed
qed

section \<open>An example\<close>

lemma why_example_selectors:
  "selector_candidates ''path:a'' (snap_nodes example_graph) = [example_node ''a'' ''file'']"
  by (simp add: example_graph_simps selector_candidates_def locator_group_def is_exact_def locator_selector_def
      parse_examples kind_matches_def exact_match_def node_values_def example_defs get_str_def)


lemma why_example_ids: "node_id (example_node i kind) = i"
  by (simp add: example_node_def)

lemma why_example_path:
  "is_path (set (followed example_graph empty_filter unrestricted)) ''b'' [example_edge ''e'' ''b'' ''a''] ''a''"
  by (simp add: example_graph_simps(6)) (simp add: example_edge_def)

lemma why_example_short:
  "\<not> (\<exists>p. shortest_path (followed example_graph empty_filter unrestricted) (node_id (example_node ''b'' ''file'')) p
      (node_id (example_node ''a'' ''file'')) \<and> MAX_DEPENDENCY_PATH_STEPS < length p)"
proof -
  have "length p \<le> length [example_edge ''e'' ''b'' ''a'']"
    if "shortest_path (followed example_graph empty_filter unrestricted) ''b'' p ''a''" for p
    using that why_example_path unfolding shortest_path_def by blast
  then show ?thesis by (fastforce simp: why_example_ids limit_simps)
qed

lemma why_example_reached: "''a'' \<in> reach False (followed example_graph empty_filter unrestricted) ''b''"
  using why_example_path unfolding is_path_reach by blast

lemma why_example: "\<exists>r. why_filtered example_externals (\<lambda>_. None) example_graph ''id:b'' ''path:a'' empty_filter = Inr r"
proof -
  note why_decided [OF example_graph_wf _ example_candidates _ why_example_selectors, where k = 0 and qf = empty_filter
      and E = example_externals and decode = "\<lambda>_. None"]
  then show ?thesis
    using why_example_reached why_example_short
    by (fastforce simp: example_facts why_example_ids claimed_once_def list_all_iff Let_def split: if_splits)
qed

section \<open>Correctness\<close>

text \<open>
  C3: an answered path query is right. Both selectors denote exactly the returned end nodes; a path is
  reported exactly if the target is reachable over the edges the filter keeps; and the reported steps are the
  reference steps of a path that leads from the source to the target and that no other path undercuts in length.
\<close>

theorem why_shortest:
  assumes wf: "wf_snapshot snapshot" and run: "why_filtered E decode snapshot from_sel to_sel qf = Inr r"
  shows "let u = node_id (why_from r); v = node_id (why_to r); es = followed snapshot qf unrestricted in
    selector_candidates from_sel (snap_nodes snapshot) = [why_from r] \<and>
    selector_candidates to_sel (snap_nodes snapshot) = [why_to r] \<and>
    (if v \<in> reach False es u
     then why_path_found r \<and> (\<exists>p. shortest_path es u p v \<and> why_steps r = map (path_step_of E decode snapshot qf) p)
     else \<not> why_path_found r \<and> why_steps r = [])"
proof -
  from run obtain f t where f: "resolve_selector E snapshot from_sel = Inr f" and t: "resolve_selector E snapshot to_sel = Inr t"
    by (auto simp: why_filtered_def sum_bind_Inr_iff)
  note sel = resolve_selector_denotes [OF f] resolve_selector_denotes [OF t]
  let ?es = "followed snapshot qf unrestricted"
  have de: "distinct (map edge_id ?es)" using wf by (simp add: wf_snapshot_def followed_def distinct_map_filter)
  show ?thesis
  proof (cases "node_id f = node_id t")
    case True
    with run f t have "r = \<lparr>why_from = f, why_to = t, why_path_found = True, why_steps = []\<rparr>"
      by (simp add: why_filtered_def)
    with True sel show ?thesis by (auto simp: Let_def shortest_path_def)
  next
    case False
    have edges: "length (snap_edges snapshot) \<le> MAX_INTERACTIVE_QUERY_TRAVERSAL"
      using why_filtered_large [OF f t False] run by fastforce
    note run' = run [unfolded why_filtered_eq [OF f t False edges] Let_def]
    note ex = why_search_explains [OF de False, unfolded explains_def]
    show ?thesis
    proof (cases "node_id t \<in> reach False ?es (node_id f)")
      case True
      with ex run' obtain rev_path steps p where
          rec: "reconstruct (node_id f) (why_predecessor (why_loop (node_id t) (adjacency_of False ?es)
            (initial_why (node_id f)))) (node_id t) [] = Inr rev_path" and
          mat: "materialize_path_steps_bounded_cancellable E decode snapshot qf (rev rev_path)
            MAX_GRAPH_SERVICE_PREPROCESSING_WORK_ITEMS never 0 = Inr (steps, p)" and
          r: "r = \<lparr>why_from = f, why_to = t, why_path_found = True, why_steps = steps\<rparr>"
        by (auto simp: sum_bind_Inr_iff)
      from shortest_path_exists [OF True] ex rec obtain q where "rev_path = rev q" "shortest_path ?es (node_id f) q (node_id t)"
        by (auto split: if_splits)
      moreover have "steps = map (path_step_of E decode snapshot qf) (rev rev_path)"
        using materialize_path_steps_Inr [OF _ mat] wf by (simp add: wf_snapshot_def)
      ultimately show ?thesis using True sel by (auto simp: Let_def r)
    next
      case unreachable: False
      with ex run' have "r = \<lparr>why_from = f, why_to = t, why_path_found = False, why_steps = []\<rparr>" by simp
      with unreachable sel show ?thesis by (simp add: Let_def)
    qed
  qed
qed

theorem why_shortest_witness:
  "\<exists>r. why_filtered example_externals (\<lambda>_. None) example_graph ''id:b'' ''path:a'' empty_filter = Inr r \<and>
    why_from r = example_node ''b'' ''file'' \<and> why_path_found r"
proof -
  obtain r where r: "why_filtered example_externals (\<lambda>_. None) example_graph ''id:b'' ''path:a'' empty_filter = Inr r"
    using why_example by blast
  have "''a'' \<in> reach False (followed example_graph empty_filter unrestricted) ''b''"
    using why_example_path unfolding is_path_reach by blast
  moreover have "why_from r = example_node ''b'' ''file''" "why_to r = example_node ''a'' ''file''"
    using why_shortest [OF example_graph_wf r] by (simp_all add: Let_def example_candidates why_example_selectors)
  ultimately show ?thesis
    using why_shortest [OF example_graph_wf r] r by (simp add: Let_def why_example_ids)
qed

text \<open>
  C25: a path query within the limits is always decided. With selectors that denote one node each, at most a
  million edges and records within the public caps and budgets, the answer is fixed: if the target cannot be
  reached over the edges the filter keeps, the query answers that there is no path; otherwise there is a shortest path
  such that the query answers with exactly its steps, unless the path has more than a thousand edges, which is reported
  as a resource exhaustion and never as a missing path, or one of its edges is claimed twice by the profile
  correlations, which is an error.
\<close>

theorem why_decides:
  assumes wf: "wf_snapshot snapshot"
    and nodes: "3 * length (snap_nodes snapshot) + 10 \<le> MAX_GRAPH_SERVICE_PREPROCESSING_WORK_ITEMS"
    and from_sel: "selector_candidates from_sel (snap_nodes snapshot) = [f]" "snd (parse_selector from_sel) \<noteq> []"
    and to_sel: "selector_candidates to_sel (snap_nodes snapshot) = [t]" "snd (parse_selector to_sel) \<noteq> []"
    and edges: "length (snap_edges snapshot) \<le> MAX_INTERACTIVE_QUERY_TRAVERSAL"
    and small: "list_all (\<lambda>e. step_within E snapshot qf k (edge_id e)) (followed snapshot qf unrestricted)"
    and scan: "scan_cost snapshot \<le> MAX_GRAPH_SNAPSHOT_SCAN_WORK_ITEMS"
    and work: "(216 + k) * MAX_DEPENDENCY_PATH_STEPS + length (matrix_entries (snap_profile_matrix snapshot))
      \<le> MAX_GRAPH_SERVICE_PREPROCESSING_WORK_ITEMS"
  shows "let es = followed snapshot qf unrestricted; answer = why_filtered E decode snapshot from_sel to_sel qf in
    if node_id t \<notin> reach False es (node_id f)
    then answer = Inr \<lparr>why_from = f, why_to = t, why_path_found = False, why_steps = []\<rparr>
    else \<exists>p. shortest_path es (node_id f) p (node_id t) \<and>
      (if MAX_DEPENDENCY_PATH_STEPS < length p then answer = Inl QueryPostprocessingExhausted
       else if list_all (claimed_once snapshot) p
       then answer = Inr \<lparr>why_from = f, why_to = t, why_path_found = True, why_steps = map (path_step_of E decode snapshot qf) p\<rparr>
       else \<exists>e. answer = Inl e)"
  using assms by (rule why_decided)

theorem why_decides_witness:
  "\<exists>r. why_filtered example_externals (\<lambda>_. None) example_graph ''id:b'' ''path:a'' empty_filter = Inr r \<and> why_path_found r"
proof -
  note why_decides [OF example_graph_wf _ example_candidates _ why_example_selectors, where k = 0 and qf = empty_filter
      and E = example_externals and decode = "\<lambda>_. None"]
  then show ?thesis
    using why_example_reached why_example_short
    by (fastforce simp: example_facts why_example_ids claimed_once_def list_all_iff Let_def split: if_splits)
qed

end
