(* ===== verification/Cycles.thy ===== *)
theory Cycles
  imports Records
begin

text \<open>
  Dependency cycles: \<open>CycleLevel\<close>, \<open>cycles\<close>, \<open>cycles_from_topology\<close>, \<open>cycles_from_parts\<close> and
  \<open>representative_cycle\<close> in \<^verbatim>\<open>crates/depgraph-core/src/query.rs\<close>.

  The nodes of one level and the edges between them form a graph; every strongly connected component with a
  cycle is reported by one representative, a breadth-first shortest cycle through its smallest node. The
  component search itself is \<open>petgraph\<close>'s \<open>tarjan_scc\<close>, a parameter of the model; \<open>scc_partition\<close> states what
  its documentation promises. An index that would panic is the error \<open>IndexPanic\<close>, and a predecessor chain
  that never reaches the start is \<open>Diverges\<close>; both are shown not to happen.
\<close>

section \<open>The graph of a level\<close>

datatype CycleLevel = Package | File | Symbol | Type | Route

fun level_node_kind :: "CycleLevel \<Rightarrow> string" where
  "level_node_kind Package = ''package_instance''"
| "level_node_kind File = ''file''"
| "level_node_kind Symbol = ''symbol''"
| "level_node_kind Type = ''type''"
| "level_node_kind Route = ''route''"

record CycleResult =
  cycle_level :: string
  cycle_node_ids :: "string list"

record DiGraph =
  graph_nodes :: "string list"
  graph_edges :: "(nat \<times> nat) list"

datatype cycle_fault = IndexPanic | Diverges

type_synonym cycle_adjacency = "(string, string list) bmap"

definition level_allowed :: "(string \<times> string) list \<Rightarrow> CycleLevel \<Rightarrow> string bset" where
  "level_allowed nodes level = bs_of_list (map fst (filter (\<lambda>(_, kind). kind = level_node_kind level) nodes))"

definition add_node :: "string \<Rightarrow> DiGraph \<times> (string, nat) bmap \<Rightarrow> DiGraph \<times> (string, nat) bmap" where
  "add_node node = (\<lambda>(graph, index_map).
     (graph\<lparr>graph_nodes := graph_nodes graph @ [node]\<rparr>, bm_insert node (length (graph_nodes graph)) index_map))"

definition index_nodes :: "string bset \<Rightarrow> DiGraph \<times> (string, nat) bmap" where
  "index_nodes allowed = fold add_node allowed (\<lparr>graph_nodes = [], graph_edges = []\<rparr>, [])"

text \<open>One edge of the snapshot; \<open>index_map[id]\<close> panics on a missing key.\<close>

definition connect ::
  "string bset \<Rightarrow> (string, nat) bmap \<Rightarrow> string \<times> string \<Rightarrow> DiGraph \<times> cycle_adjacency
     \<Rightarrow> cycle_fault + DiGraph \<times> cycle_adjacency" where
  "connect allowed index_map edge = (\<lambda>(graph, adjacency). case edge of (source, target) \<Rightarrow>
     if bs_contains allowed source \<and> bs_contains allowed target then
       case (bm_get index_map source, bm_get index_map target) of
         (Some i, Some j) \<Rightarrow>
           Inr (graph\<lparr>graph_edges := graph_edges graph @ [(i, j)]\<rparr>, bm_entry [] source (\<lambda>ts. ts @ [target]) adjacency)
       | _ \<Rightarrow> Inl IndexPanic
     else Inr (graph, adjacency))"

definition sort_targets :: "cycle_adjacency \<Rightarrow> cycle_adjacency" where
  "sort_targets adjacency = map (\<lambda>(node, targets). (node, sort_dedup targets)) adjacency"

definition targets_of :: "cycle_adjacency \<Rightarrow> string \<Rightarrow> string list" where
  "targets_of adjacency node = (case bm_get adjacency node of None \<Rightarrow> [] | Some targets \<Rightarrow> targets)"

section \<open>The representative of a component\<close>

type_synonym cycle_search = "string list \<times> (string \<rightharpoonup> string)"

text \<open>
  The walk back along the predecessors. \<open>None\<close> is a walk that does not end, \<open>Some None\<close> the missing
  predecessor the code leaves the function with.
\<close>

partial_function (option) cycle_path ::
  "string \<Rightarrow> (string \<rightharpoonup> string) \<Rightarrow> string \<Rightarrow> string list \<Rightarrow> string list option option" where
  "cycle_path start predecessor current path =
     (if current = start then Some (Some path)
      else case predecessor current of
        None \<Rightarrow> Some None
      | Some previous \<Rightarrow> cycle_path start predecessor previous (path @ [previous]))"

definition close_cycle :: "string \<Rightarrow> (string \<rightharpoonup> string) \<Rightarrow> string \<Rightarrow> string list option option" where
  "close_cycle start predecessor node =
     map_option (map_option (\<lambda>path. rev path @ [start])) (cycle_path start predecessor node [node])"

text \<open>The two inner loops; \<open>Inl\<close> is an early return of the whole search.\<close>

fun seed_cycle :: "string \<Rightarrow> string bset \<Rightarrow> string list \<Rightarrow> cycle_search \<Rightarrow> string list option option + cycle_search" where
  "seed_cycle start component [] st = Inr st"
| "seed_cycle start component (nxt # targets) (queue, predecessor) =
     (if \<not> bs_contains component nxt then seed_cycle start component targets (queue, predecessor)
      else if nxt = start then Inl (Some (Some [start, start]))
      else seed_cycle start component targets (queue @ [nxt], predecessor(nxt \<mapsto> start)))"

fun cycle_visit ::
  "string \<Rightarrow> string bset \<Rightarrow> string \<Rightarrow> string list \<Rightarrow> cycle_search \<Rightarrow> string list option option + cycle_search" where
  "cycle_visit start component node [] st = Inr st"
| "cycle_visit start component node (nxt # targets) (queue, predecessor) =
     (if \<not> bs_contains component nxt then cycle_visit start component node targets (queue, predecessor)
      else if nxt = start then Inl (close_cycle start predecessor node)
      else if predecessor nxt = None
      then cycle_visit start component node targets (queue @ [nxt], predecessor(nxt \<mapsto> node))
      else cycle_visit start component node targets (queue, predecessor))"

definition cycle_measure :: "string bset \<Rightarrow> cycle_search \<Rightarrow> nat" where
  "cycle_measure component = (\<lambda>(queue, predecessor). card (set component - dom predecessor) + length queue)"

lemma cycle_visit_measure:
  "cycle_visit start component node targets st = Inr st' \<Longrightarrow> cycle_measure component st' \<le> cycle_measure component st"
proof (induction start component node targets st rule: cycle_visit.induct)
  case (2 start component node nxt targets queue predecessor)
  have "card (set component - insert nxt (dom predecessor)) < card (set component - dom predecessor)"
    if "nxt \<in> set component" "predecessor nxt = None"
    using that by (intro psubset_card_mono) auto
  then have "cycle_measure component (queue @ [nxt], predecessor(nxt \<mapsto> node)) \<le> cycle_measure component (queue, predecessor)"
    if "nxt \<in> set component" "predecessor nxt = None"
    using that by (fastforce simp: cycle_measure_def)
  with 2 show ?case by (auto simp: bs_contains_def split: if_splits)
qed simp

function (sequential) cycle_loop :: "string \<Rightarrow> string bset \<Rightarrow> cycle_adjacency \<Rightarrow> cycle_search \<Rightarrow> string list option option" where
  "cycle_loop start component adjacency ([], predecessor) = Some None"
| "cycle_loop start component adjacency (node # queue, predecessor) =
     (case cycle_visit start component node (targets_of adjacency node) (queue, predecessor) of
        Inl result \<Rightarrow> result
      | Inr st \<Rightarrow> cycle_loop start component adjacency st)"
  by pat_completeness auto
termination
proof (relation "measure (\<lambda>(start, component, adjacency, st). cycle_measure component st)", simp)
  fix start component adjacency node queue predecessor and st :: cycle_search
  assume "cycle_visit start component node (targets_of adjacency node) (queue, predecessor) = Inr st"
  from cycle_visit_measure [OF this]
  show "((start, component, adjacency, st), start, component, adjacency, node # queue, predecessor)
    \<in> measure (\<lambda>(start, component, adjacency, st). cycle_measure component st)"
    by (simp add: cycle_measure_def split: prod.splits)
qed

definition representative_cycle :: "string \<Rightarrow> string bset \<Rightarrow> cycle_adjacency \<Rightarrow> string list option option" where
  "representative_cycle start component adjacency =
     (case seed_cycle start component (targets_of adjacency start) ([], Map.empty) of
        Inl result \<Rightarrow> result
      | Inr st \<Rightarrow> cycle_loop start component adjacency st)"

section \<open>The query\<close>

text \<open>\<open>graph[index]\<close> for every index of a component\<close>

definition component_ids :: "DiGraph \<Rightarrow> nat list \<Rightarrow> cycle_fault + string list" where
  "component_ids graph component =
     fold_m (\<lambda>index ids. if index < length (graph_nodes graph) then Inr (ids @ [graph_nodes graph ! index]) else Inl IndexPanic)
       component []"

definition component_cycle ::
  "CycleLevel \<Rightarrow> DiGraph \<Rightarrow> cycle_adjacency \<Rightarrow> nat list \<Rightarrow> CycleResult list \<Rightarrow> cycle_fault + CycleResult list" where
  "component_cycle level graph adjacency component results =
     sum_bind (component_ids graph component) (\<lambda>unsorted.
     let ids = sort unsorted;
         self_loop = (length ids = 1 \<and> ids ! 0 \<in> set (targets_of adjacency (ids ! 0))) in
     if length ids < 2 \<and> \<not> self_loop then Inr results
     else case representative_cycle (ids ! 0) (bs_of_list ids) adjacency of
         None \<Rightarrow> Inl Diverges
       | Some found \<Rightarrow>
           let cycle = (case found of Some cycle \<Rightarrow> cycle | None \<Rightarrow> ids @ [ids ! 0]) in
           Inr (results @ [\<lparr>cycle_level = level_node_kind level, cycle_node_ids = cycle\<rparr>]))"

definition level_graph ::
  "(string \<times> string) list \<Rightarrow> (string \<times> string) list \<Rightarrow> CycleLevel \<Rightarrow> cycle_fault + DiGraph \<times> cycle_adjacency" where
  "level_graph nodes edges level =
     (let allowed = level_allowed nodes level; (graph, index_map) = index_nodes allowed in
      sum_bind (fold_m (connect allowed index_map) edges (graph, [])) (\<lambda>(graph, adjacency). Inr (graph, sort_targets adjacency)))"

definition cycles_from_parts ::
  "(DiGraph \<Rightarrow> nat list list) \<Rightarrow> (string \<times> string) list \<Rightarrow> (string \<times> string) list \<Rightarrow> CycleLevel
     \<Rightarrow> cycle_fault + CycleResult list" where
  "cycles_from_parts tarjan_scc nodes edges level =
     sum_bind (level_graph nodes edges level) (\<lambda>(graph, adjacency).
     sum_bind (fold_m (component_cycle level graph adjacency) (tarjan_scc graph) []) (\<lambda>results.
     Inr (sort_key cycle_node_ids results)))"

definition cycles :: "(DiGraph \<Rightarrow> nat list list) \<Rightarrow> GraphSnapshot \<Rightarrow> CycleLevel \<Rightarrow> cycle_fault + CycleResult list" where
  "cycles tarjan_scc snapshot level =
     cycles_from_parts tarjan_scc (map (\<lambda>node. (node_id node, node_kind node)) (snap_nodes snapshot))
       (map (\<lambda>edge. (edge_source edge, edge_target edge)) (snap_edges snapshot)) level"

definition cycles_from_topology ::
  "(DiGraph \<Rightarrow> nat list list) \<Rightarrow> GraphTopology \<Rightarrow> CycleLevel \<Rightarrow> cycle_fault + CycleResult list" where
  "cycles_from_topology tarjan_scc topology level =
     cycles_from_parts tarjan_scc (map (\<lambda>node. (topology_node_id node, topology_node_kind node)) (topology_nodes topology))
       (map (\<lambda>edge. (topology_edge_source edge, topology_edge_target edge)) (topology_edges topology)) level"

section \<open>The invariant of the search\<close>

text \<open>
  \<open>component_rel\<close> is the relation the search explores; \<open>d\<close> is the depth at which a node was discovered. A node
  that is not waiting has all its edges explored, and none of them closes a cycle.
\<close>

definition component_rel :: "string set \<Rightarrow> cycle_adjacency \<Rightarrow> (string \<times> string) set" where
  "component_rel component adjacency = {(u, v). v \<in> set (targets_of adjacency u) \<and> v \<in> component}"

definition closed_walk :: "(string \<times> string) set \<Rightarrow> string \<Rightarrow> string list \<Rightarrow> bool" where
  "closed_walk R start c \<longleftrightarrow> 2 \<le> length c \<and> hd c = start \<and> last c = start \<and> successively (\<lambda>a b. (a, b) \<in> R) c"

definition shortest_cycle :: "(string \<times> string) set \<Rightarrow> string \<Rightarrow> string list \<Rightarrow> bool" where
  "shortest_cycle R start c \<longleftrightarrow> closed_walk R start c \<and> distinct (butlast c) \<and>
     (\<forall>c'. closed_walk R start c' \<longrightarrow> length c \<le> length c')"

definition parents :: "(string \<times> string) set \<Rightarrow> string \<Rightarrow> (string \<Rightarrow> nat) \<Rightarrow> (string \<rightharpoonup> string) \<Rightarrow> bool" where
  "parents R start d pred \<longleftrightarrow> d start = 0 \<and> pred start = None \<and>
     (\<forall>v p. pred v = Some p \<longrightarrow> (p, v) \<in> R \<and> p \<in> insert start (dom pred) \<and> d v = Suc (d p))"

definition layered :: "string \<Rightarrow> (string \<Rightarrow> nat) \<Rightarrow> string list \<Rightarrow> (string \<rightharpoonup> string) \<Rightarrow> bool" where
  "layered start d waiting pred \<longleftrightarrow> sorted (map d waiting) \<and> set waiting \<subseteq> insert start (dom pred) \<and>
     (waiting \<noteq> [] \<longrightarrow> (\<forall>x\<in>insert start (dom pred). d x \<le> Suc (d (hd waiting))))"

definition open_edges :: "(string \<times> string) set \<Rightarrow> string \<Rightarrow> (string \<Rightarrow> nat) \<Rightarrow> string list \<Rightarrow> (string \<rightharpoonup> string) \<Rightarrow> bool" where
  "open_edges R start d waiting pred \<longleftrightarrow>
     (\<forall>(u, v)\<in>R. u \<in> insert start (dom pred) - set waiting \<longrightarrow> v \<noteq> start \<and> v \<in> dom pred \<and> d v \<le> Suc (d u))"

definition cycle_inv ::
  "(string \<times> string) set \<Rightarrow> string \<Rightarrow> (string \<Rightarrow> nat) \<Rightarrow> string list \<Rightarrow> (string \<rightharpoonup> string) \<Rightarrow> bool" where
  "cycle_inv R start d waiting pred \<longleftrightarrow>
     parents R start d pred \<and> layered start d waiting pred \<and> open_edges R start d waiting pred"

lemma walk_depth:
  assumes inv: "parents R start d pred" "open_edges R start d waiting pred"
    and walk: "(start, v) \<in> R ^^ n"
  shows "v \<in> insert start (dom pred) \<and> d v \<le> n \<or> (\<exists>x\<in>set waiting. d x < n)"
  using walk
proof (induction n arbitrary: v)
  case 0
  with inv(1) show ?case by (simp add: parents_def)
next
  case (Suc n)
  then obtain u where u: "(start, u) \<in> R ^^ n" "(u, v) \<in> R" by (meson relpow_Suc_E)
  from Suc.IH [OF u(1)] show ?case
  proof
    assume seen: "u \<in> insert start (dom pred) \<and> d u \<le> n"
    show ?thesis
    proof (cases "u \<in> set waiting")
      case True
      with seen show ?thesis by (intro disjI2 bexI [of _ u]) auto
    next
      case False
      with seen u(2) inv(2) show ?thesis by (fastforce simp: open_edges_def)
    qed
  qed (auto intro: less_SucI)
qed

lemma discover_parent:
  assumes inv: "cycle_inv R start d (u # queue) pred" and edge: "(u, v) \<in> R" "v \<noteq> start" "pred v = None"
  shows "cycle_inv R start (d(v := Suc (d u))) (u # queue @ [v]) (pred(v \<mapsto> u))"
proof -
  let ?d = "d(v := Suc (d u))"
  have p: "parents R start d pred" and l: "layered start d (u # queue) pred" and e: "open_edges R start d (u # queue) pred"
    using inv by (simp_all add: cycle_inv_def)
  have new: "v \<notin> insert start (dom pred)" using edge by auto
  then have neq: "x \<noteq> v" if "x \<in> set (u # queue)" for x using l that by (auto simp: layered_def)
  then have same: "map ?d queue = map d queue" "u \<noteq> v" by auto
  have u: "u \<in> insert start (dom pred)" using l by (simp add: layered_def)
  have "parents R start ?d (pred(v \<mapsto> u))"
    using p edge u same(2) unfolding parents_def by (auto split: if_splits)
  moreover have "sorted (map ?d (u # queue @ [v]))"
    using l neq unfolding map_append list.map same by (auto simp: layered_def sorted_append)
  then have "layered start ?d (u # queue @ [v]) (pred(v \<mapsto> u))"
    using l edge(2) same(2) new by (auto simp: layered_def)
  moreover have "open_edges R start ?d (u # queue @ [v]) (pred(v \<mapsto> u))"
    using e new unfolding open_edges_def by fastforce
  ultimately show ?thesis by (simp add: cycle_inv_def)
qed

lemma expand_done:
  assumes inv: "cycle_inv R start d (u # queue) pred"
    and explored: "\<And>v. (u, v) \<in> R \<Longrightarrow> v \<noteq> start \<and> v \<in> dom pred"
  shows "cycle_inv R start d queue pred"
proof -
  have depth: "d x \<le> Suc (d u)" if "x \<in> insert start (dom pred)" for x
    using inv that by (auto simp: cycle_inv_def layered_def)
  have "open_edges R start d queue pred"
    using inv explored depth unfolding cycle_inv_def open_edges_def by fastforce
  moreover have "layered start d queue pred"
    using inv unfolding cycle_inv_def layered_def by (cases queue) (auto intro: order_trans)
  ultimately show ?thesis using inv by (simp add: cycle_inv_def)
qed

section \<open>Closing the cycle\<close>

lemma cycle_path_walk:
  assumes p: "parents R start d pred" and "current \<in> insert start (dom pred)"
  shows "\<exists>q. cycle_path start pred current path = Some (Some (path @ q)) \<and> length q = d current \<and>
    last (current # q) = start \<and> successively (\<lambda>a b. (b, a) \<in> R) (current # q) \<and>
    sorted_wrt (\<lambda>a b. d b < d a) (current # q)"
  using assms(2)
proof (induction "d current" arbitrary: current path)
  case 0
  have "d current \<noteq> 0" if "pred current = Some v" for v using p that by (simp add: parents_def)
  with 0 have "current = start" by auto
  then show ?case using p by (subst cycle_path.simps) (simp add: parents_def)
next
  case (Suc n)
  have "d start = 0" using p by (simp add: parents_def)
  with Suc.hyps(2) have neq: "current \<noteq> start" by auto
  with Suc.prems obtain v where v: "pred current = Some v" by auto
  with p have "(v, current) \<in> R \<and> v \<in> insert start (dom pred) \<and> d current = Suc (d v)" unfolding parents_def by blast
  with Suc.hyps(2) have step: "(v, current) \<in> R" "v \<in> insert start (dom pred)" "n = d v" by simp_all
  from Suc.hyps(1) [OF step(3,2), of "path @ [v]"] obtain q where
    q: "cycle_path start pred v (path @ [v]) = Some (Some (path @ v # q))" "length q = d v"
      "last (v # q) = start" "successively (\<lambda>a b. (b, a) \<in> R) (v # q)" "sorted_wrt (\<lambda>a b. d b < d a) (v # q)"
    unfolding append_assoc append.simps by blast
  have "cycle_path start pred current path = Some (Some (path @ v # q))"
    using q(1) v neq by (subst cycle_path.simps) simp
  moreover have "sorted_wrt (\<lambda>a b. d b < d a) (current # v # q)"
    using q(5) Suc.hyps(2) step(3) by auto
  moreover have "successively (\<lambda>a b. (b, a) \<in> R) (current # v # q)" using q(4) step(1) by simp
  ultimately show ?case
    using q(2,3) step(3) Suc.hyps(2) by (intro exI [of _ "v # q"] conjI) simp_all
qed

lemma closed_walk_relpow:
  assumes "closed_walk R start c"
  obtains x n where "(start, x) \<in> R ^^ n" and "(x, start) \<in> R" and "length c = n + 2"
proof -
  have walk: "(hd xs, last xs) \<in> R ^^ (length xs - 1)" if "xs \<noteq> []" "successively (\<lambda>a b. (a, b) \<in> R) xs" for xs
    using that
  proof (induction xs rule: induct_list012)
    case (3 x y zs)
    then have "(y, last (y # zs)) \<in> R ^^ length zs" "(x, y) \<in> R" by auto
    then have "(x, last (y # zs)) \<in> R ^^ Suc (length zs)" by (rule relpow_Suc_I2 [rotated])
    then show ?case by simp
  qed auto
  from assms have c: "c \<noteq> []" "2 \<le> length c" "hd c = start" "last c = start" "successively (\<lambda>a b. (a, b) \<in> R) c"
    by (auto simp: closed_walk_def)
  with walk [OF c(1,5)] have "(start, start) \<in> R ^^ Suc (length c - 2)" by (simp add: Suc_diff_Suc numeral_2_eq_2)
  then obtain x where "(start, x) \<in> R ^^ (length c - 2)" "(x, start) \<in> R" by (meson relpow_Suc_E)
  with that c(2) show thesis by force
qed

lemma distinct_decreasing:
  assumes "sorted_wrt (\<lambda>a b. (f b :: nat) < f a) xs"
  shows "distinct xs"
  using assms by (induction xs) auto

lemma close_cycle_shortest:
  assumes inv: "cycle_inv R start d (u # queue) pred" and edge: "(u, start) \<in> R"
  shows "\<exists>c. close_cycle start pred u = Some (Some c) \<and> shortest_cycle R start c"
proof -
  have p: "parents R start d pred" and l: "layered start d (u # queue) pred" and e: "open_edges R start d (u # queue) pred"
    using inv by (simp_all add: cycle_inv_def)
  then have u: "u \<in> insert start (dom pred)" and least: "\<forall>x\<in>set (u # queue). d u \<le> d x" by (auto simp: layered_def)
  from cycle_path_walk [OF p u, of "[u]"] obtain q where
    q: "cycle_path start pred u [u] = Some (Some (u # q))" "length q = d u" "last (u # q) = start"
      "successively (\<lambda>a b. (b, a) \<in> R) (u # q)" "sorted_wrt (\<lambda>a b. d b < d a) (u # q)" by auto
  let ?c = "rev (u # q) @ [start]"
  have "hd (rev (u # q)) = start" using q(3) by (simp add: hd_rev del: rev.simps)
  moreover have "successively (\<lambda>a b. (a, b) \<in> R) (rev (u # q))" using q(4) by (simp only: successively_rev)
  ultimately have "closed_walk R start ?c"
    using edge by (auto simp: closed_walk_def successively_append_iff hd_append)
  moreover have "length ?c \<le> length c'" if walk: "closed_walk R start c'" for c'
  proof -
    obtain x n where x: "(start, x) \<in> R ^^ n" "(x, start) \<in> R" "length c' = n + 2" by (rule closed_walk_relpow [OF walk])
    have "x \<in> set (u # queue)" if "x \<in> insert start (dom pred)" using e x(2) that by (auto simp: open_edges_def)
    with walk_depth [OF p e x(1)] least have "d u \<le> n" by (metis less_imp_le order_trans)
    with x(3) q(2) show ?thesis by simp
  qed
  ultimately have "shortest_cycle R start ?c"
    using distinct_decreasing [OF q(5)] by (simp add: shortest_cycle_def butlast_append)
  then show ?thesis using q(1) by (simp add: close_cycle_def)
qed

section \<open>The search is correct\<close>

definition cycle_found :: "(string \<times> string) set \<Rightarrow> string \<Rightarrow> string list option option \<Rightarrow> bool" where
  "cycle_found R start result \<longleftrightarrow> (if (start, start) \<in> R\<^sup>+
     then \<exists>c. result = Some (Some c) \<and> shortest_cycle R start c else result = Some None)"

lemma cycle_foundI:
  assumes "close_cycle start pred u = Some (Some c)" "shortest_cycle R start c"
  shows "cycle_found R start (close_cycle start pred u)"
proof -
  from assms(2) have "closed_walk R start c" by (simp add: shortest_cycle_def)
  then obtain x n where "(start, x) \<in> R ^^ n" "(x, start) \<in> R" by (rule closed_walk_relpow)
  then have "(start, start) \<in> R\<^sup>+" by (meson relpow_imp_rtrancl rtrancl_into_trancl1)
  with assms show ?thesis by (auto simp: cycle_found_def)
qed

lemma cycle_visit_inv:
  assumes "cycle_inv R start d (node # queue) pred" and "R = component_rel (set component) adjacency"
    and "set targets \<subseteq> set (targets_of adjacency node)"
  shows "case cycle_visit start component node targets (queue, pred) of
      Inl result \<Rightarrow> cycle_found R start result
    | Inr (queue', pred') \<Rightarrow> \<exists>d'. cycle_inv R start d' (node # queue') pred' \<and> dom pred \<subseteq> dom pred' \<and>
        (\<forall>v\<in>set targets \<inter> set component. v \<noteq> start \<and> v \<in> dom pred')"
  using assms
proof (induction targets arbitrary: d queue pred)
  case (Cons v targets)
  have targets: "set targets \<subseteq> set (targets_of adjacency node)" using Cons.prems by simp
  have edge: "(node, v) \<in> R" if "v \<in> set component" using that Cons.prems by (auto simp: component_rel_def)
  consider "v \<notin> set component" | "v \<in> set component" "v = start"
    | "v \<in> set component" "v \<noteq> start" "pred v = None" | "v \<in> set component" "v \<noteq> start" "v \<in> dom pred" by blast
  then show ?case
  proof cases
    case 1
    with Cons.IH [OF Cons.prems(1,2) targets] show ?thesis
      by (auto simp: bs_contains_def split: sum.splits)
  next
    case 2
    with close_cycle_shortest [OF Cons.prems(1)] edge obtain c where
      "close_cycle start pred node = Some (Some c)" "shortest_cycle R start c" by auto
    from cycle_foundI [OF this] 2 show ?thesis by (simp add: bs_contains_def)
  next
    case 3
    have "cycle_inv R start (d(v := Suc (d node))) (node # (queue @ [v])) (pred(v \<mapsto> node))"
      using discover_parent [OF Cons.prems(1) edge [OF 3(1)] 3(2,3)] by simp
    note IH = Cons.IH [OF this Cons.prems(2) targets]
    define r where "r = cycle_visit start component node targets (queue @ [v], pred(v \<mapsto> node))"
    have eq: "cycle_visit start component node (v # targets) (queue, pred) = r"
      using 3 by (simp add: bs_contains_def r_def)
    show ?thesis using IH 3(2) unfolding eq r_def [symmetric] dom_fun_upd by (cases r) auto
  next
    case 4
    with Cons.IH [OF Cons.prems(1,2) targets] show ?thesis
      by (cases "cycle_visit start component node targets (queue, pred)") (auto simp: bs_contains_def)
  qed
qed auto

lemma cycle_loop_found:
  assumes "cycle_inv (component_rel (set component) adjacency) start d (fst st) (snd st)"
  shows "cycle_found (component_rel (set component) adjacency) start (cycle_loop start component adjacency st)"
  using assms
proof (induction start component adjacency st arbitrary: d rule: cycle_loop.induct)
  case (1 start component adjacency pred)
  let ?R = "component_rel (set component) adjacency"
  have "False" if "(start, start) \<in> ?R\<^sup>+"
  proof -
    from that obtain x where x: "(start, x) \<in> ?R\<^sup>*" "(x, start) \<in> ?R" by (meson tranclD2)
    then obtain n where "(start, x) \<in> ?R ^^ n" by (meson rtrancl_imp_relpow)
    with walk_depth [of ?R start d pred "[]" x n] 1 have "x \<in> insert start (dom pred)" by (simp add: cycle_inv_def)
    with x(2) 1 show False by (auto simp: cycle_inv_def open_edges_def)
  qed
  then show ?case by (auto simp: cycle_found_def)
next
  case (2 start component adjacency node queue pred)
  let ?R = "component_rel (set component) adjacency"
  from cycle_visit_inv [of ?R start d node queue pred component adjacency "targets_of adjacency node"] 2(2)
  have visit: "case cycle_visit start component node (targets_of adjacency node) (queue, pred) of
      Inl result \<Rightarrow> cycle_found ?R start result
    | Inr (queue', pred') \<Rightarrow> \<exists>d'. cycle_inv ?R start d' (node # queue') pred' \<and> dom pred \<subseteq> dom pred' \<and>
        (\<forall>v\<in>set (targets_of adjacency node) \<inter> set component. v \<noteq> start \<and> v \<in> dom pred')" by simp
  show ?case
  proof (cases "cycle_visit start component node (targets_of adjacency node) (queue, pred)")
    case (Inl result)
    with visit show ?thesis by simp
  next
    case (Inr st)
    with visit obtain d' where d': "cycle_inv ?R start d' (node # fst st) (snd st)"
      "\<forall>v\<in>set (targets_of adjacency node) \<inter> set component. v \<noteq> start \<and> v \<in> dom (snd st)" by (auto split: prod.splits)
    have "cycle_inv ?R start d' (fst st) (snd st)"
      using d'(2) by (intro expand_done [OF d'(1)]) (auto simp: component_rel_def)
    from "2.IH" [OF Inr this] Inr show ?thesis by simp
  qed
qed

text \<open>Seeding the search is the expansion of the start node.\<close>

lemma seed_cycle_visit:
  assumes "distinct targets" and "set targets \<inter> dom pred = {}"
  shows "seed_cycle start component targets (queue, pred) = cycle_visit start component start targets (queue, pred)"
  using assms
proof (induction targets arbitrary: queue pred)
  case (Cons v targets)
  then have "set targets \<inter> dom (pred(v \<mapsto> start)) = {}" by auto
  moreover have "close_cycle start pred start = Some (Some [start, start])"
    by (simp add: close_cycle_def) (subst cycle_path.simps, simp)
  ultimately show ?case using Cons by (auto simp: bs_contains_def)
qed simp

lemma representative_cycle_found:
  assumes "distinct (targets_of adjacency start)"
  shows "cycle_found (component_rel (set component) adjacency) start (representative_cycle start component adjacency)"
proof -
  let ?R = "component_rel (set component) adjacency"
  have "representative_cycle start component adjacency = cycle_loop start component adjacency ([start], Map.empty)"
    using seed_cycle_visit [OF assms, of Map.empty] by (simp add: representative_cycle_def)
  moreover have "cycle_inv ?R start (\<lambda>_. 0) [start] Map.empty"
    by (auto simp: cycle_inv_def parents_def layered_def open_edges_def)
  ultimately show ?thesis using cycle_loop_found [of component adjacency start "\<lambda>_. 0" "([start], Map.empty)"] by simp
qed

section \<open>Strongly connected components\<close>

definition level_rel :: "(string \<times> string) list \<Rightarrow> (string \<times> string) list \<Rightarrow> CycleLevel \<Rightarrow> (string \<times> string) set" where
  "level_rel nodes edges level = set edges \<inter> set (level_allowed nodes level) \<times> set (level_allowed nodes level)"

definition scc_class :: "'a rel \<Rightarrow> 'a \<Rightarrow> 'a set" where
  "scc_class R v = {w. (v, w) \<in> R\<^sup>* \<and> (w, v) \<in> R\<^sup>*}"

text \<open>What \<open>tarjan_scc\<close> documents: a partition of the node indices into the strongly connected components.\<close>

definition scc_partition :: "DiGraph \<Rightarrow> nat list list \<Rightarrow> bool" where
  "scc_partition graph components \<longleftrightarrow>
     distinct (concat components) \<and> set (concat components) = {..<length (graph_nodes graph)} \<and>
     (\<forall>c\<in>set components. c \<noteq> [] \<and> (\<forall>i\<in>set c. set c = scc_class (set (graph_edges graph)) i))"

definition finds_components ::
  "(DiGraph \<Rightarrow> nat list list) \<Rightarrow> (string \<times> string) list \<Rightarrow> (string \<times> string) list \<Rightarrow> CycleLevel \<Rightarrow> bool" where
  "finds_components tarjan_scc nodes edges level \<longleftrightarrow>
     (\<forall>graph adjacency. level_graph nodes edges level = Inr (graph, adjacency) \<longrightarrow> scc_partition graph (tarjan_scc graph))"

lemma scc_class_refl [simp]: "v \<in> scc_class R v"
  by (simp add: scc_class_def)

lemma scc_class_nonempty [simp]: "scc_class R v \<noteq> {}"
  using scc_class_refl [of v R] by (metis empty_iff)

lemma scc_classD: "w \<in> scc_class R v \<Longrightarrow> (v, w) \<in> R\<^sup>*" "w \<in> scc_class R v \<Longrightarrow> (w, v) \<in> R\<^sup>*"
  by (simp_all add: scc_class_def)

lemma scc_class_eq: "w \<in> scc_class R v \<Longrightarrow> scc_class R w = scc_class R v"
  unfolding scc_class_def by (auto intro: rtrancl_trans)

lemma index_nodes_facts:
  assumes "index_nodes allowed = (graph, index_map)"
  shows "graph_nodes graph = allowed" and "graph_edges graph = []" and "bm_invar index_map"
    and "distinct allowed \<Longrightarrow> bm_get index_map x = Some i \<longleftrightarrow> i < length allowed \<and> allowed ! i = x"
proof -
  have "(case fold add_node xs (\<lparr>graph_nodes = [], graph_edges = []\<rparr>, []) of (graph, index_map) \<Rightarrow>
      graph_nodes graph = xs \<and> graph_edges graph = [] \<and> bm_invar index_map \<and>
      (distinct xs \<longrightarrow> (\<forall>x i. bm_get index_map x = Some i \<longleftrightarrow> i < length xs \<and> xs ! i = x)))" for xs
  proof (induction xs rule: rev_induct)
    case (snoc y xs)
    then show ?case
      by (auto simp: add_node_def bm_get_insert nth_append less_Suc_eq split: prod.splits if_splits)
  qed simp
  from this [of allowed] assms show "graph_nodes graph = allowed" "graph_edges graph = []" "bm_invar index_map"
    "distinct allowed \<Longrightarrow> bm_get index_map x = Some i \<longleftrightarrow> i < length allowed \<and> allowed ! i = x"
    by (simp_all add: index_nodes_def)
qed

lemma distinct_level_allowed [simp]: "distinct (level_allowed nodes level)"
  using strict_sorted_bs_of_list by (auto simp: level_allowed_def strict_sorted_iff)

definition built :: "string list \<Rightarrow> (string \<times> string) set \<Rightarrow> DiGraph \<Rightarrow> cycle_adjacency \<Rightarrow> bool" where
  "built allowed R graph adjacency \<longleftrightarrow> graph_nodes graph = allowed \<and>
     set (graph_edges graph) = {(i, j). i < length allowed \<and> j < length allowed \<and> (allowed ! i, allowed ! j) \<in> R} \<and>
     bm_invar adjacency \<and> (\<forall>u. case bm_get adjacency u of None \<Rightarrow> \<forall>v. (u, v) \<notin> R
       | Some ts \<Rightarrow> ts \<noteq> [] \<and> set ts = {v. (u, v) \<in> R})"

lemma connect_built:
  assumes index: "index_nodes allowed = (graph0, index_map)" and dist: "distinct allowed"
    and b: "built allowed (set done \<inter> set allowed \<times> set allowed) graph adjacency"
  shows "\<exists>st. connect allowed index_map (s, t) (graph, adjacency) = Inr st \<and>
    built allowed (set (done @ [(s, t)]) \<inter> set allowed \<times> set allowed) (fst st) (snd st)"
proof (cases "s \<in> set allowed \<and> t \<in> set allowed")
  case True
  then obtain i j where ij: "i < length allowed" "allowed ! i = s" "j < length allowed" "allowed ! j = t"
    by (auto simp: in_set_conv_nth)
  then have "bm_get index_map s = Some i" "bm_get index_map t = Some j"
    using index_nodes_facts(4) [OF index dist] by simp_all
  then have step: "connect allowed index_map (s, t) (graph, adjacency) =
      Inr (graph\<lparr>graph_edges := graph_edges graph @ [(i, j)]\<rparr>, bm_entry [] s (\<lambda>ts. ts @ [t]) adjacency)"
    using True by (simp add: connect_def bs_contains_def)
  let ?R = "set done \<inter> set allowed \<times> set allowed"
  have R: "set (done @ [(s, t)]) \<inter> set allowed \<times> set allowed = insert (s, t) ?R" using True by auto
  have "insert (i, j) {(i, j). i < length allowed \<and> j < length allowed \<and> (allowed ! i, allowed ! j) \<in> ?R} =
    {(i, j). i < length allowed \<and> j < length allowed \<and> (allowed ! i, allowed ! j) \<in> insert (s, t) ?R}"
    using ij dist by (auto simp: nth_eq_iff_index_eq)
  moreover have "case bm_get (bm_entry [] s (\<lambda>ts. ts @ [t]) adjacency) u of None \<Rightarrow> \<forall>v. (u, v) \<notin> insert (s, t) ?R
       | Some ts \<Rightarrow> ts \<noteq> [] \<and> set ts = {v. (u, v) \<in> insert (s, t) ?R}" for u
    using b [unfolded built_def] by (cases "bm_get adjacency u") (auto simp: bm_get_entry dest: spec [of _ u])
  ultimately show ?thesis
    unfolding step R using b by (simp add: built_def)
next
  case False
  then have "set (done @ [(s, t)]) \<inter> set allowed \<times> set allowed = set done \<inter> set allowed \<times> set allowed" by auto
  with False b show ?thesis by (auto simp: connect_def bs_contains_def)
qed

lemma level_graph_built:
  obtains graph adjacency where "level_graph nodes edges level = Inr (graph, sort_targets adjacency)"
    and "built (level_allowed nodes level) (level_rel nodes edges level) graph adjacency"
proof -
  let ?A = "level_allowed nodes level"
  obtain graph0 index_map where index: "index_nodes ?A = (graph0, index_map)" by (cases "index_nodes ?A")
  let ?I = "\<lambda>xs st. built ?A (set xs \<inter> set ?A \<times> set ?A) (fst st) (snd st)"
  have "\<exists>st. fold_m (connect ?A index_map) edges (graph0, []) = Inr st \<and> ?I edges st"
  proof (rule fold_m_total)
    show "?I [] (graph0, [])" using index_nodes_facts(1,2) [OF index] by (simp add: built_def)
  next
    fix xs x rest st
    assume "?I xs st"
    then show "\<exists>v. connect ?A index_map x st = Inr v \<and> ?I (xs @ [x]) v"
      using connect_built [OF index distinct_level_allowed, of xs "fst st" "snd st" "fst x" "snd x"] by simp
  qed
  then obtain st where "fold_m (connect ?A index_map) edges (graph0, []) = Inr st" "?I edges st" by blast
  then show thesis
    using that [of "fst st" "snd st"] index by (auto simp: level_graph_def level_rel_def split: prod.splits)
qed

lemma targets_of_sorted:
  assumes "built allowed R graph adjacency"
  shows "set (targets_of (sort_targets adjacency) u) = {v. (u, v) \<in> R}"
    and "strict_sorted (targets_of (sort_targets adjacency) u)"
proof -
  have get: "bm_get (sort_targets adjacency) u = map_option sort_dedup (bm_get adjacency u)"
    by (simp add: bm_get_def sort_targets_def map_of_map)
  have "case bm_get adjacency u of None \<Rightarrow> \<forall>v. (u, v) \<notin> R | Some ts \<Rightarrow> ts \<noteq> [] \<and> set ts = {v. (u, v) \<in> R}"
    using assms unfolding built_def by blast
  then show "set (targets_of (sort_targets adjacency) u) = {v. (u, v) \<in> R}"
    "strict_sorted (targets_of (sort_targets adjacency) u)"
    by (auto simp: targets_of_def get split: option.splits)
qed

text \<open>The sorted adjacency is determined by the relation alone.\<close>

lemma sort_targets_unique:
  assumes a: "built allowed R graph a" and b: "built allowed R graph' b"
  shows "sort_targets a = sort_targets b"
proof (rule bm_ext)
  have keys: "map fst (sort_targets x) = map fst x" for x by (simp add: sort_targets_def case_prod_unfold)
  show "bm_invar (sort_targets a)" "bm_invar (sort_targets b)"
    using a b by (simp_all add: built_def bm_invar_def keys)
  have at: "case bm_get x u of None \<Rightarrow> \<forall>v. (u, v) \<notin> R | Some ts \<Rightarrow> ts \<noteq> [] \<and> set ts = {v. (u, v) \<in> R}"
    if "built allowed R g x" for g x u
    using that unfolding built_def by blast
  have get: "bm_get (sort_targets x) u = (if \<exists>v. (u, v) \<in> R then Some (sorted_list_of_set {v. (u, v) \<in> R}) else None)"
    if "built allowed R g x" for g x u
  proof (cases "bm_get x u")
    case None
    with at [OF that, of u] show ?thesis by (simp add: bm_get_def sort_targets_def map_of_map)
  next
    case (Some ts)
    with at [OF that, of u] have ts: "ts \<noteq> []" "set ts = {v. (u, v) \<in> R}" by auto
    then have "\<exists>v. (u, v) \<in> R" by (metis list.set_intros(1) mem_Collect_eq neq_Nil_conv)
    moreover have "sort_dedup ts = sorted_list_of_set {v. (u, v) \<in> R}"
      unfolding ts(2) [symmetric]
      by (metis set_sort_dedup strict_sorted_sort_dedup strict_sorted_iff sorted_list_of_set.idem_if_sorted_distinct)
    ultimately show ?thesis using Some by (simp add: bm_get_def sort_targets_def map_of_map)
  qed
  show "bm_get (sort_targets a) u = bm_get (sort_targets b) u" for u by (simp add: get [OF a] get [OF b])
qed

lemma index_class:
  assumes dist: "distinct allowed" and R: "R \<subseteq> set allowed \<times> set allowed" and i: "i < length allowed"
    and E: "E = {(i, j). i < length allowed \<and> j < length allowed \<and> (allowed ! i, allowed ! j) \<in> R}"
  shows "(!) allowed ` scc_class E i = scc_class R (allowed ! i)"
proof -
  have fwd: "(allowed ! a, allowed ! b) \<in> R\<^sup>*" if "(a, b) \<in> E\<^sup>*" for a b
    using that by (induction rule: rtrancl_induct) (auto simp: E intro: rtrancl_into_rtrancl)
  have bwd: "\<exists>b<length allowed. w = allowed ! b \<and> (a, b) \<in> E\<^sup>*" if "(allowed ! a, w) \<in> R\<^sup>*" "a < length allowed" for a w
    using that
  proof (induction rule: rtrancl_induct)
    case (step y z)
    then obtain b where b: "b < length allowed" "y = allowed ! b" "(a, b) \<in> E\<^sup>*" by auto
    from step R obtain c where "c < length allowed" "z = allowed ! c" by (auto simp: in_set_conv_nth subset_iff)
    with b step show ?case by (intro exI [of _ c]) (auto simp: E intro: rtrancl_into_rtrancl)
  qed auto
  show ?thesis
  proof (intro subset_antisym subsetI)
    fix w assume "w \<in> scc_class R (allowed ! i)"
    then have w: "(allowed ! i, w) \<in> R\<^sup>*" "(w, allowed ! i) \<in> R\<^sup>*" by (auto simp: scc_class_def)
    from bwd [OF w(1) i] obtain b where b: "b < length allowed" "w = allowed ! b" "(i, b) \<in> E\<^sup>*" by auto
    from bwd [of b, folded b(2), OF w(2) b(1)] obtain c where "c < length allowed" "allowed ! i = allowed ! c" "(b, c) \<in> E\<^sup>*" by auto
    then have "(b, i) \<in> E\<^sup>*" using dist i by (simp add: nth_eq_iff_index_eq)
    with b show "w \<in> (!) allowed ` scc_class E i" by (auto simp: scc_class_def)
  qed (auto simp: scc_class_def fwd)
qed

section \<open>The report of a component\<close>

lemma closed_walk_class:
  assumes "closed_walk R start c" and "v \<in> set c"
  shows "v \<in> scc_class R start"
proof -
  have walk: "\<forall>v\<in>set xs. (hd xs, v) \<in> R\<^sup>* \<and> (v, last xs) \<in> R\<^sup>*" if "successively (\<lambda>a b. (a, b) \<in> R) xs" for xs
    using that
  proof (induction xs rule: induct_list012)
    case (3 x y zs)
    then have "(x, y) \<in> R" and IH: "\<forall>v\<in>set (y # zs). (y, v) \<in> R\<^sup>* \<and> (v, last (y # zs)) \<in> R\<^sup>*" by auto
    then show ?case by (auto intro: converse_rtrancl_into_rtrancl)
  qed auto
  from assms have "successively (\<lambda>a b. (a, b) \<in> R) c" "hd c = start" "last c = start" by (auto simp: closed_walk_def)
  with walk [OF this(1)] assms(2) show ?thesis by (simp add: scc_class_def)
qed

lemma successively_restrict:
  assumes "set c \<subseteq> C"
  shows "successively (\<lambda>a b. (a, b) \<in> {(u, v). (u, v) \<in> R \<and> v \<in> C}) c = successively (\<lambda>a b. (a, b) \<in> R) c"
  using assms by (induction c rule: induct_list012) auto

lemma closed_walk_restrict:
  "closed_walk {(u, v). (u, v) \<in> R \<and> v \<in> scc_class R start} start c \<longleftrightarrow> closed_walk R start c"
proof
  assume "closed_walk R start c"
  then show "closed_walk {(u, v). (u, v) \<in> R \<and> v \<in> scc_class R start} start c"
    using closed_walk_class [of R start c] successively_restrict [of c "scc_class R start" R]
    by (auto simp: closed_walk_def)
next
  assume "closed_walk {(u, v). (u, v) \<in> R \<and> v \<in> scc_class R start} start c"
  then show "closed_walk R start c"
    unfolding closed_walk_def by (auto elim: successively_mono)
qed

lemma trancl_closed_walk: "(start, start) \<in> R\<^sup>+ \<longleftrightarrow> (\<exists>c. closed_walk R start c)"
proof
  have walk: "\<exists>c. 2 \<le> length c \<and> hd c = start \<and> last c = v \<and> successively (\<lambda>a b. (a, b) \<in> R) c" if "(start, v) \<in> R\<^sup>+" for v
    using that
  proof (induction rule: trancl_induct)
    case (base y)
    then show ?case by (intro exI [of _ "[start, y]"]) simp
  next
    case (step y z)
    then obtain c where "2 \<le> length c" "hd c = start" "last c = y" "successively (\<lambda>a b. (a, b) \<in> R) c" by blast
    moreover from this have "c \<noteq> []" by auto
    ultimately show ?case using step(2) by (intro exI [of _ "c @ [z]"]) (simp add: successively_append_iff hd_append)
  qed
  assume "(start, start) \<in> R\<^sup>+"
  then show "\<exists>c. closed_walk R start c" using walk by (auto simp: closed_walk_def)
next
  assume "\<exists>c. closed_walk R start c"
  then show "(start, start) \<in> R\<^sup>+"
    by (meson closed_walk_relpow relpow_imp_rtrancl rtrancl_into_trancl1)
qed

lemma representative_of_class:
  assumes b: "built allowed R graph adjacency" and component: "set component = scc_class R start"
    and cyclic: "(start, start) \<in> R\<^sup>+"
  shows "\<exists>c. representative_cycle start component (sort_targets adjacency) = Some (Some c) \<and> shortest_cycle R start c"
proof -
  let ?R = "{(u, v). (u, v) \<in> R \<and> v \<in> scc_class R start}"
  have rel: "component_rel (set component) (sort_targets adjacency) = ?R"
    using targets_of_sorted(1) [OF b] component by (auto simp: component_rel_def)
  have "distinct (targets_of (sort_targets adjacency) start)"
    using targets_of_sorted(2) [OF b, of start] by (simp add: strict_sorted_iff)
  from representative_cycle_found [OF this, of component] cyclic
  show ?thesis by (simp add: rel cycle_found_def trancl_closed_walk shortest_cycle_def closed_walk_restrict)
qed

definition component_report :: "CycleLevel \<Rightarrow> (string \<times> string) set \<Rightarrow> cycle_adjacency \<Rightarrow> string set \<Rightarrow> CycleResult list" where
  "component_report level R adjacency C =
     (if (Min C, Min C) \<in> R\<^sup>+
      then [\<lparr>cycle_level = level_node_kind level,
        cycle_node_ids = the (the (representative_cycle (Min C) (sorted_list_of_set C) adjacency))\<rparr>]
      else [])"

lemma component_ids_eq:
  assumes "set component \<subseteq> {..<length (graph_nodes graph)}"
  shows "component_ids graph component = Inr (map ((!) (graph_nodes graph)) component)"
proof -
  have "fold_m (\<lambda>index ids. if index < length (graph_nodes graph) then Inr (ids @ [graph_nodes graph ! index]) else Inl IndexPanic)
      component acc = Inr (acc @ map ((!) (graph_nodes graph)) component)" for acc
    using assms by (induction component arbitrary: acc) auto
  then show ?thesis by (simp add: component_ids_def)
qed

text \<open>The code's test for a cycle: two nodes, or one with a self loop.\<close>

lemma cyclic_class:
  assumes "finite (scc_class R start)"
  shows "(start, start) \<in> R\<^sup>+ \<longleftrightarrow> 2 \<le> card (scc_class R start) \<or> (start, start) \<in> R"
proof
  assume "(start, start) \<in> R\<^sup>+"
  then obtain x where x: "(start, x) \<in> R" "(x, start) \<in> R\<^sup>*" by (meson tranclD)
  show "2 \<le> card (scc_class R start) \<or> (start, start) \<in> R"
  proof (cases "x = start")
    case False
    with x assms have "card {start, x} \<le> card (scc_class R start)" by (intro card_mono) (auto simp: scc_class_def)
    with False show ?thesis by simp
  qed (use x in simp)
next
  assume "2 \<le> card (scc_class R start) \<or> (start, start) \<in> R"
  moreover have "(start, start) \<in> R\<^sup>+" if two: "2 \<le> card (scc_class R start)"
  proof -
    have "scc_class R start \<noteq> {start}" using two by auto
    then obtain w where "w \<noteq> start" "(start, w) \<in> R\<^sup>*" "(w, start) \<in> R\<^sup>*"
      using scc_class_refl [of start R] by (auto simp: scc_class_def)
    then show ?thesis by (metis rtranclD rtrancl_trancl_trancl)
  qed
  ultimately show "(start, start) \<in> R\<^sup>+" by blast
qed

lemma component_cycle_report:
  assumes b: "built allowed R graph adjacency" and dist: "distinct component"
    and range: "set component \<subseteq> {..<length (graph_nodes graph)}"
    and C: "(!) (graph_nodes graph) ` set component = C" "C = scc_class R v" and nodes: "distinct (graph_nodes graph)"
  shows "component_cycle level graph (sort_targets adjacency) component results =
    Inr (results @ component_report level R (sort_targets adjacency) C)"
proof -
  define ids where "ids = sort (map ((!) (graph_nodes graph)) component)"
  have "inj_on ((!) (graph_nodes graph)) (set component)"
    using nodes range by (auto intro!: inj_onI simp: nth_eq_iff_index_eq subset_iff)
  then have d: "distinct ids" using dist by (simp add: distinct_map ids_def)
  have set_ids: "set ids = C" using C by (simp add: ids_def)
  then have ids: "ids = sorted_list_of_set C" "bs_of_list ids = sorted_list_of_set C"
    using d sorted_sort [of "map ((!) (graph_nodes graph)) component"] strict_sorted_bs_of_list [of ids]
    by (auto simp: ids_def [symmetric] strict_sorted_iff intro: sorted_list_of_set.idem_if_sorted_distinct [symmetric]
      sorted_distinct_set_unique)
  have fin: "finite C" unfolding set_ids [symmetric] by (rule finite_set)
  have ne: "C \<noteq> {}" using C(2) by simp
  then have len: "length ids = card C" "C = scc_class R (Min C)" "card C \<noteq> 0"
    using fin C(2) Min_in [of C] scc_class_eq [of "Min C" R v] by (simp_all add: ids)
  have start: "ids ! 0 = Min C" using fin ne by (simp add: ids sorted_list_of_set_nonempty)
  have loop: "Min C \<in> set (targets_of (sort_targets adjacency) (Min C)) \<longleftrightarrow> (Min C, Min C) \<in> R"
    using targets_of_sorted(1) [OF b] by auto
  have skip: "length ids < 2 \<and> \<not> (length ids = 1 \<and> (Min C, Min C) \<in> R) \<longleftrightarrow> (Min C, Min C) \<notin> R\<^sup>+"
    using cyclic_class [of R "Min C", folded len(2), OF fin] len(1,3) by (cases "(Min C, Min C) \<in> R"; linarith)
  have "\<exists>c. representative_cycle (Min C) (sorted_list_of_set C) (sort_targets adjacency) = Some (Some c)"
    if "(Min C, Min C) \<in> R\<^sup>+"
    using representative_of_class [OF b, of "sorted_list_of_set C" "Min C"] that len(2) fin by auto
  then show ?thesis
    unfolding component_cycle_def component_ids_eq [OF range] sum_bind.simps ids_def [symmetric] Let_def start loop skip ids(2)
      component_report_def
    by (cases "(Min C, Min C) \<in> R\<^sup>+") auto
qed

section \<open>All cycles of a level\<close>

lemma scc_partition_classes:
  assumes b: "built allowed R graph adjacency" and part: "scc_partition graph cs" and R: "R \<subseteq> set allowed \<times> set allowed"
    and dist: "distinct allowed"
  shows "\<forall>c\<in>set cs. set c \<subseteq> {..<length allowed} \<and> distinct c \<and> (\<exists>v\<in>set allowed. (!) allowed ` set c = scc_class R v)"
    and "(\<lambda>c. (!) allowed ` set c) ` set cs = scc_class R ` set allowed"
    and "distinct (map (\<lambda>c. (!) allowed ` set c) cs)"
proof -
  let ?n = "length allowed"
  have E: "set (graph_edges graph) = {(i, j). i < ?n \<and> j < ?n \<and> (allowed ! i, allowed ! j) \<in> R}"
    and len: "length (graph_nodes graph) = ?n" using b by (simp_all add: built_def)
  have class_of: "set c \<subseteq> {..<?n} \<and> (!) allowed ` set c = scc_class R (allowed ! i)" if "c \<in> set cs" "i \<in> set c" for c i
  proof -
    have range: "set c \<subseteq> {..<?n}" using part that(1) len by (auto simp: scc_partition_def)
    have "set c = scc_class (set (graph_edges graph)) i" using part that by (simp add: scc_partition_def)
    moreover have "i < ?n" using range that(2) by blast
    ultimately show ?thesis using index_class [OF dist R _ E, of i] range by simp
  qed
  have parts: "distinct (removeAll [] cs)" "\<And>c. c \<in> set cs \<Longrightarrow> distinct c" "\<And>c. c \<in> set cs \<Longrightarrow> c \<noteq> []"
    "\<And>c c'. c \<in> set cs \<Longrightarrow> c' \<in> set cs \<Longrightarrow> c \<noteq> c' \<Longrightarrow> set c \<inter> set c' = {}"
    using part by (simp_all add: scc_partition_def distinct_concat_iff)
  have ne: "\<exists>i. i \<in> set c" if "c \<in> set cs" for c using parts(3) [OF that] by (cases c) auto
  have range: "set c \<subseteq> {..<?n}" if "c \<in> set cs" for c using part that len by (auto simp: scc_partition_def)
  have node_of: "\<exists>v\<in>set allowed. (!) allowed ` set c = scc_class R v" if "c \<in> set cs" for c
  proof -
    from ne [OF that] obtain i where i: "i \<in> set c" by blast
    with range [OF that] have "allowed ! i \<in> set allowed" by (simp add: subset_iff)
    with class_of [OF that i] show ?thesis by blast
  qed
  show "\<forall>c\<in>set cs. set c \<subseteq> {..<?n} \<and> distinct c \<and> (\<exists>v\<in>set allowed. (!) allowed ` set c = scc_class R v)"
    using node_of range parts(2) by simp
  have cover: "\<exists>c\<in>set cs. i \<in> set c" if "i < ?n" for i using part that len by (auto simp: scc_partition_def)
  show "(\<lambda>c. (!) allowed ` set c) ` set cs = scc_class R ` set allowed"
  proof (intro subset_antisym subsetI)
    fix C assume "C \<in> scc_class R ` set allowed"
    then obtain i where "i < ?n" "C = scc_class R (allowed ! i)" by (auto simp: in_set_conv_nth)
    moreover from this cover obtain c where c: "c \<in> set cs" "i \<in> set c" by blast
    ultimately show "C \<in> (\<lambda>c. (!) allowed ` set c) ` set cs" using class_of [OF c] by (intro image_eqI [OF _ c(1)]) simp
  next
    fix C assume "C \<in> (\<lambda>c. (!) allowed ` set c) ` set cs"
    then obtain c where c: "c \<in> set cs" "C = (!) allowed ` set c" by blast
    from node_of [OF c(1)] c(2) show "C \<in> scc_class R ` set allowed" by (metis imageI)
  qed
  have "inj_on (\<lambda>c. (!) allowed ` set c) (set cs)"
  proof (rule inj_onI)
    fix c c' assume c: "c \<in> set cs" "c' \<in> set cs" "(!) allowed ` set c = (!) allowed ` set c'"
    from ne [OF c(1)] obtain i where i: "i \<in> set c" by blast
    then have "allowed ! i \<in> (!) allowed ` set c'" using c(3) by blast
    then obtain j where j: "j \<in> set c'" "allowed ! i = allowed ! j" by blast
    moreover have "i < ?n" "j < ?n" using range c(1,2) i j(1) by auto
    ultimately have "i = j" using dist by (simp add: nth_eq_iff_index_eq)
    with parts(4) [OF c(1,2)] i j(1) show "c = c'" by blast
  qed
  moreover have "[] \<notin> set cs" using parts(3) by blast
  then have "distinct cs" using parts(1) by simp
  ultimately show "distinct (map (\<lambda>c. (!) allowed ` set c) cs)" by (simp add: distinct_map)
qed

lemma component_report_facts:
  assumes b: "built allowed R graph adjacency" and C: "C = scc_class R v" "finite C"
    and r: "r \<in> set (component_report level R (sort_targets adjacency) C)"
  shows "cycle_level r = level_node_kind level" and "hd (cycle_node_ids r) = Min C"
    and "shortest_cycle R (Min C) (cycle_node_ids r)"
proof -
  have "C \<noteq> {}" using C(1) by simp
  then have "scc_class R (Min C) = C" using C Min_in [of C] scc_class_eq [of "Min C" R v] by simp
  with C(2) r representative_of_class [OF b, of "sorted_list_of_set C" "Min C"]
  have "shortest_cycle R (Min C) (cycle_node_ids r) \<and> cycle_level r = level_node_kind level"
    by (auto simp: component_report_def split: if_splits)
  then show "cycle_level r = level_node_kind level" "hd (cycle_node_ids r) = Min C"
    "shortest_cycle R (Min C) (cycle_node_ids r)" by (auto simp: shortest_cycle_def closed_walk_def)
qed

lemma distinct_concat_map:
  assumes "distinct (map f xs)" and "\<And>x. x \<in> set xs \<Longrightarrow> distinct (g x)"
    and "\<And>x y. x \<in> set xs \<Longrightarrow> y \<in> set (g x) \<Longrightarrow> h y = f x"
  shows "distinct (concat (map g xs))"
  using assms
proof (induction xs)
  case (Cons x xs)
  then have "False" if "y \<in> set (g x)" "z \<in> set xs" "y \<in> set (g z)" for y z
    using Cons.prems(1) Cons.prems(3) [of x y] Cons.prems(3) [of z y] that by (auto simp: image_iff)
  with Cons show ?case by auto
qed simp

lemma cycles_from_parts_reports:
  assumes found: "finds_components tarjan_scc nodes edges level"
    and graph: "level_graph nodes edges level = Inr (graph, sort_targets adjacency)"
      "built (level_allowed nodes level) R graph adjacency" "R = level_rel nodes edges level"
  shows "\<exists>rs. cycles_from_parts tarjan_scc nodes edges level = Inr rs \<and> sorted (map cycle_node_ids rs) \<and>
    distinct (map (\<lambda>r. hd (cycle_node_ids r)) rs) \<and>
    set rs = (\<Union>v\<in>set (level_allowed nodes level). set (component_report level R (sort_targets adjacency) (scc_class R v)))"
proof -
  let ?A = "level_allowed nodes level" and ?cs = "tarjan_scc graph"
  let ?report = "component_report level R (sort_targets adjacency)" and ?members = "\<lambda>c. (!) ?A ` set c"
  have nodes: "graph_nodes graph = ?A" using graph(2) by (simp add: built_def)
  have part: "scc_partition graph ?cs" using found graph(1) by (auto simp: finds_components_def)
  have R: "R \<subseteq> set ?A \<times> set ?A" by (auto simp: graph(3) level_rel_def)
  note classes = scc_partition_classes [OF graph(2) part R distinct_level_allowed]
  have run: "fold_m (component_cycle level graph (sort_targets adjacency)) cs results =
      Inr (results @ concat (map (?report \<circ> ?members) cs))" if "set cs \<subseteq> set ?cs" for cs results
    using that
  proof (induction cs arbitrary: results)
    case (Cons c cs)
    then obtain v where "set c \<subseteq> {..<length ?A}" "distinct c" "?members c = scc_class R v" using classes(1) by auto
    with component_cycle_report [OF graph(2), of c "?members c" v level results] Cons show ?case by (simp add: nodes)
  qed simp
  have fin: "finite (?members c)" for c by simp
  have facts: "hd (cycle_node_ids r) = Min (?members c)" if "c \<in> set ?cs" "r \<in> set (?report (?members c))" for c r
  proof -
    from that(1) classes(1) obtain v where "?members c = scc_class R v" by blast
    from component_report_facts(2) [OF graph(2) this fin that(2)] show ?thesis .
  qed
  have Min_inj: "C = C'" if "C \<in> scc_class R ` set ?A" "C' \<in> scc_class R ` set ?A" "Min C = Min C'" "finite C" "finite C'" for C C'
  proof -
    have "C \<noteq> {}" "C' \<noteq> {}" using that(1,2) by auto
    then have "Min C \<in> C" "Min C \<in> C'" using that(3-5) Min_in [of C] Min_in [of C'] by simp_all
    with that(1,2) scc_class_eq [of "Min C" R] show ?thesis by auto
  qed
  have "inj_on (\<lambda>c. Min (?members c)) (set ?cs)"
  proof (rule inj_onI)
    fix c c' assume c: "c \<in> set ?cs" "c' \<in> set ?cs" "Min (?members c) = Min (?members c')"
    then have "?members c = ?members c'" using classes(2) by (intro Min_inj) auto
    with c(1,2) classes(3) show "c = c'" by (auto simp: distinct_map inj_on_def)
  qed
  then have "distinct (map (\<lambda>c. Min (?members c)) ?cs)" using classes(3) by (simp add: distinct_map)
  then have "distinct (concat (map (map (\<lambda>r. hd (cycle_node_ids r)) \<circ> (?report \<circ> ?members)) ?cs))"
    using facts by (intro distinct_concat_map [where f = "\<lambda>c. Min (?members c)" and h = "\<lambda>x :: string. x"])
      (auto simp: component_report_def)
  then have "distinct (map (\<lambda>r. hd (cycle_node_ids r)) (concat (map (?report \<circ> ?members) ?cs)))"
    by (simp add: map_concat)
  then have "distinct (map (\<lambda>r. hd (cycle_node_ids r)) (sort_key cycle_node_ids (concat (map (?report \<circ> ?members) ?cs))))"
    by (simp add: distinct_map)
  moreover have "set (concat (map (?report \<circ> ?members) ?cs)) = (\<Union>C\<in>?members ` set ?cs. set (?report C))" by simp
  ultimately show ?thesis
    using run [of ?cs "[]"] by (simp add: cycles_from_parts_def graph(1) classes(2))
qed

lemma level_class_finite:
  assumes "v \<in> set (level_allowed nodes level)"
  shows "finite (scc_class (level_rel nodes edges level) v)"
proof (rule finite_subset)
  have "w \<in> set (level_allowed nodes level)" if "(v, w) \<in> (level_rel nodes edges level)\<^sup>*" for w
    using that assms by (induction rule: rtrancl_induct) (auto simp: level_rel_def)
  then show "scc_class (level_rel nodes edges level) v \<subseteq> set (level_allowed nodes level)" by (auto simp: scc_class_def)
qed simp

lemma cycles_from_parts_exact:
  assumes found: "finds_components tarjan_scc nodes edges level"
  shows "\<exists>rs. cycles_from_parts tarjan_scc nodes edges level = Inr rs \<and>
    sorted (map cycle_node_ids rs) \<and> distinct rs \<and>
    (\<forall>r\<in>set rs. cycle_level r = level_node_kind level \<and>
       shortest_cycle (level_rel nodes edges level) (hd (cycle_node_ids r)) (cycle_node_ids r) \<and>
       (\<forall>w\<in>scc_class (level_rel nodes edges level) (hd (cycle_node_ids r)). hd (cycle_node_ids r) \<le> w)) \<and>
    (\<forall>v. (v, v) \<in> (level_rel nodes edges level)\<^sup>+ \<longrightarrow>
       (\<exists>!r. r \<in> set rs \<and> hd (cycle_node_ids r) \<in> scc_class (level_rel nodes edges level) v))"
proof -
  let ?A = "level_allowed nodes level" and ?R = "level_rel nodes edges level"
  obtain graph adjacency where g: "level_graph nodes edges level = Inr (graph, sort_targets adjacency)"
    and b: "built ?A ?R graph adjacency" by (rule level_graph_built)
  let ?report = "component_report level ?R (sort_targets adjacency)"
  from cycles_from_parts_reports [OF found g b refl] obtain rs where
    rs: "cycles_from_parts tarjan_scc nodes edges level = Inr rs" "sorted (map cycle_node_ids rs)"
      "distinct (map (\<lambda>r. hd (cycle_node_ids r)) rs)" "set rs = (\<Union>v\<in>set ?A. set (?report (scc_class ?R v)))" by blast
  have each: "\<exists>v\<in>set ?A. hd (cycle_node_ids r) = Min (scc_class ?R v) \<and> cycle_level r = level_node_kind level \<and>
      shortest_cycle ?R (Min (scc_class ?R v)) (cycle_node_ids r)" if "r \<in> set rs" for r
  proof -
    from that rs(4) obtain v where v: "v \<in> set ?A" "r \<in> set (?report (scc_class ?R v))" by blast
    from component_report_facts [OF b refl level_class_finite [OF v(1)] v(2)] v(1) show ?thesis by blast
  qed
  have least: "scc_class ?R (Min (scc_class ?R v)) = scc_class ?R v" "\<forall>w\<in>scc_class ?R v. Min (scc_class ?R v) \<le> w"
    if "v \<in> set ?A" for v
  proof -
    have fin: "finite (scc_class ?R v)" using that by (rule level_class_finite)
    show "scc_class ?R (Min (scc_class ?R v)) = scc_class ?R v" by (rule scc_class_eq, rule Min_in [OF fin scc_class_nonempty])
    show "\<forall>w\<in>scc_class ?R v. Min (scc_class ?R v) \<le> w" using fin by simp
  qed
  have unique: "\<exists>!r. r \<in> set rs \<and> hd (cycle_node_ids r) \<in> scc_class ?R v" if cyc: "(v, v) \<in> ?R\<^sup>+" for v
  proof -
    let ?C = "scc_class ?R v"
    from cyc obtain x where "(v, x) \<in> ?R" by (meson tranclD)
    then have v: "v \<in> set ?A" by (auto simp: level_rel_def)
    have C: "Min ?C \<in> ?C" by (rule Min_in [OF level_class_finite [OF v] scc_class_nonempty])
    have "(Min ?C, Min ?C) \<in> ?R\<^sup>+"
      by (rule trancl_rtrancl_trancl [OF rtrancl_trancl_trancl [OF scc_classD(2) [OF C] cyc] scc_classD(1) [OF C]])
    then have "\<exists>r. r \<in> set (?report ?C)" by (simp add: component_report_def)
    then obtain r where r: "r \<in> set (?report ?C)" ..
    then have rs_r: "r \<in> set rs" unfolding rs(4) by (rule UN_I [OF v])
    have head: "hd (cycle_node_ids r) = Min ?C"
      by (rule component_report_facts(2) [OF b refl level_class_finite [OF v] r])
    have same: "r' = r" if r': "r' \<in> set rs" "hd (cycle_node_ids r') \<in> ?C" for r'
    proof -
      from each [OF r'(1)] obtain u where u: "u \<in> set ?A" "hd (cycle_node_ids r') = Min (scc_class ?R u)" by blast
      with r'(2) have "scc_class ?R (Min (scc_class ?R u)) = ?C" by (intro scc_class_eq) simp
      then have "scc_class ?R u = ?C" unfolding least(1) [OF u(1)] .
      then have "hd (cycle_node_ids r') = hd (cycle_node_ids r)" unfolding u(2) head by (rule arg_cong)
      moreover have "inj_on (\<lambda>r. hd (cycle_node_ids r)) (set rs)" using rs(3) by (simp add: distinct_map)
      ultimately show ?thesis using r'(1) rs_r by (meson inj_onD)
    qed
    have "r \<in> set rs \<and> hd (cycle_node_ids r) \<in> ?C" using rs_r C by (simp add: head)
    then show ?thesis by (rule ex1I) (blast intro: same)
  qed
  have "distinct rs" using rs(3) by (simp add: distinct_map)
  moreover have "cycle_level r = level_node_kind level \<and>
      shortest_cycle ?R (hd (cycle_node_ids r)) (cycle_node_ids r) \<and>
      (\<forall>w\<in>scc_class ?R (hd (cycle_node_ids r)). hd (cycle_node_ids r) \<le> w)" if "r \<in> set rs" for r
  proof -
    from each [OF that] obtain v where v: "v \<in> set ?A" "hd (cycle_node_ids r) = Min (scc_class ?R v)"
      "cycle_level r = level_node_kind level" "shortest_cycle ?R (Min (scc_class ?R v)) (cycle_node_ids r)" by blast
    then show ?thesis using least [OF v(1)] by simp
  qed
  ultimately show ?thesis using rs(1,2) unique by (intro exI [of _ rs] conjI ballI allI impI) blast+
qed

text \<open>
  C4: For every level, when the component search returns the strongly connected components of the graph it is
  given, the cycle query returns a sorted list without repetitions, and never panics or diverges. Every reported
  cycle has the kind of the level, is a closed walk of edges between nodes of that kind, repeats no node, is as
  short as any cycle through its first node, and starts at the smallest node of its component. Every node on a
  cycle has exactly one reported cycle in its component.
\<close>

theorem cycles_exact:
  assumes found: "finds_components tarjan_scc nodes edges level"
  shows "\<exists>rs. cycles_from_parts tarjan_scc nodes edges level = Inr rs \<and>
    sorted (map cycle_node_ids rs) \<and> distinct rs \<and>
    (\<forall>r\<in>set rs. cycle_level r = level_node_kind level \<and>
       shortest_cycle (level_rel nodes edges level) (hd (cycle_node_ids r)) (cycle_node_ids r) \<and>
       (\<forall>w\<in>scc_class (level_rel nodes edges level) (hd (cycle_node_ids r)). hd (cycle_node_ids r) \<le> w)) \<and>
    (\<forall>v. (v, v) \<in> (level_rel nodes edges level)\<^sup>+ \<longrightarrow>
       (\<exists>!r. r \<in> set rs \<and> hd (cycle_node_ids r) \<in> scc_class (level_rel nodes edges level) v))"
  using found by (rule cycles_from_parts_exact)

lemma level_graph_order:
  assumes "set nodes = set nodes'" and "set edges = set edges'"
  shows "level_allowed nodes level = level_allowed nodes' level" and "level_rel nodes edges level = level_rel nodes' edges' level"
proof -
  show "level_allowed nodes level = level_allowed nodes' level"
    using assms(1) by (simp add: level_allowed_def bs_of_list_eq_iff)
  then show "level_rel nodes edges level = level_rel nodes' edges' level"
    using assms(2) by (simp add: level_rel_def)
qed

lemma cycles_from_parts_order:
  assumes same: "set nodes = set nodes'" "set edges = set edges'"
    and found: "finds_components tarjan_scc nodes edges level" "finds_components tarjan_scc' nodes' edges' level"
  shows "cycles_from_parts tarjan_scc nodes edges level = cycles_from_parts tarjan_scc' nodes' edges' level"
proof -
  note parts = level_graph_order [OF same, of level]
  obtain g a where g: "level_graph nodes edges level = Inr (g, sort_targets a)"
    "built (level_allowed nodes level) (level_rel nodes edges level) g a" by (rule level_graph_built)
  obtain g' a' where g': "level_graph nodes' edges' level = Inr (g', sort_targets a')"
    "built (level_allowed nodes' level) (level_rel nodes' edges' level) g' a'" by (rule level_graph_built)
  have a: "sort_targets a' = sort_targets a" using sort_targets_unique [OF g'(2)] g(2) parts by simp
  from cycles_from_parts_reports [OF found(1) g refl] obtain rs where
    rs: "cycles_from_parts tarjan_scc nodes edges level = Inr rs" "sorted (map cycle_node_ids rs)"
      "distinct (map (\<lambda>r. hd (cycle_node_ids r)) rs)"
      "set rs = (\<Union>v\<in>set (level_allowed nodes level). set (component_report level (level_rel nodes edges level)
        (sort_targets a) (scc_class (level_rel nodes edges level) v)))" by blast
  from cycles_from_parts_reports [OF found(2) g' refl] obtain rs' where
    rs': "cycles_from_parts tarjan_scc' nodes' edges' level = Inr rs'" "sorted (map cycle_node_ids rs')"
      "distinct (map (\<lambda>r. hd (cycle_node_ids r)) rs')"
      "set rs' = (\<Union>v\<in>set (level_allowed nodes level). set (component_report level (level_rel nodes edges level)
        (sort_targets a) (scc_class (level_rel nodes edges level) v)))"
    unfolding a parts [symmetric] by blast
  have set: "set rs = set rs'" using rs(4) rs'(4) by simp
  have "inj_on cycle_node_ids (set rs \<union> set rs')" "distinct rs" "distinct rs'"
    using rs(3) rs'(3) set by (auto simp: distinct_map inj_on_def)
  then have "rs = rs'"
    using map_sorted_distinct_set_unique [of cycle_node_ids rs rs'] rs(2) rs'(2) set by (simp add: distinct_map)
  with rs(1) rs'(1) show ?thesis by simp
qed

text \<open>
  The cycle query answers the same for a snapshot and for a topology with the same nodes and edges, in
  whatever order and multiplicity they are listed, and for any two correct component searches, whatever order
  they return components in.
\<close>

theorem cycles_topology_agrees:
  assumes "(\<lambda>n. (node_id n, node_kind n)) ` set (snap_nodes snapshot) =
      (\<lambda>n. (topology_node_id n, topology_node_kind n)) ` set (topology_nodes topology)"
    and "(\<lambda>e. (edge_source e, edge_target e)) ` set (snap_edges snapshot) =
      (\<lambda>e. (topology_edge_source e, topology_edge_target e)) ` set (topology_edges topology)"
    and "finds_components tarjan_scc (map (\<lambda>n. (node_id n, node_kind n)) (snap_nodes snapshot))
      (map (\<lambda>e. (edge_source e, edge_target e)) (snap_edges snapshot)) level"
    and "finds_components tarjan_scc' (map (\<lambda>n. (topology_node_id n, topology_node_kind n)) (topology_nodes topology))
      (map (\<lambda>e. (topology_edge_source e, topology_edge_target e)) (topology_edges topology)) level"
  shows "cycles tarjan_scc snapshot level = cycles_from_topology tarjan_scc' topology level"
  unfolding cycles_def cycles_from_topology_def
  using assms by (intro cycles_from_parts_order) simp_all

section \<open>An example\<close>

text \<open>Two files that import each other, a third with a self loop, and a fourth without a cycle.\<close>

definition example_topology :: GraphTopology where
  "example_topology =
     \<lparr>topology_nodes = map (\<lambda>i. \<lparr>topology_node_id = i, topology_node_kind = ''file''\<rparr>) [''d'', ''b'', ''a'', ''c''],
      topology_edges = map (\<lambda>(s, t). \<lparr>topology_edge_source = s, topology_edge_target = t\<rparr>)
        [(''b'', ''a''), (''a'', ''b''), (''c'', ''c''), (''d'', ''a'')]\<rparr>"

definition example_nodes :: "(string \<times> string) list" where
  "example_nodes = [(''d'', ''file''), (''b'', ''file''), (''a'', ''file''), (''c'', ''file'')]"

definition example_edges :: "(string \<times> string) list" where
  "example_edges = [(''b'', ''a''), (''a'', ''b''), (''c'', ''c''), (''d'', ''a'')]"

definition example_scc :: "DiGraph \<Rightarrow> nat list list" where
  "example_scc graph = [[1, 0], [2], [3]]"

lemma example_level_graph:
  "level_graph example_nodes example_edges File =
     Inr (\<lparr>graph_nodes = [''a'', ''b'', ''c'', ''d''], graph_edges = [(1, 0), (0, 1), (2, 2), (3, 0)]\<rparr>,
       [(''a'', [''b'']), (''b'', [''a'']), (''c'', [''c'']), (''d'', [''a''])])"
  by code_simp

lemma example_finds_components: "finds_components example_scc example_nodes example_edges File"
proof -
  let ?E = "{(1, 0), (0, 1), (2, 2), (3, 0)} :: nat rel"
  have closed: "j \<in> B" if "(i, j) \<in> ?E\<^sup>*" "i \<in> B" "\<forall>(a, b)\<in>?E. a \<in> B \<longrightarrow> b \<in> B" for i j B
    using that by (induction rule: rtrancl_induct) auto
  have pair: "(j = 0 \<or> j = 1) = (i = 0 \<or> i = 1)" if "(i, j) \<in> ?E\<^sup>*" "(j, i) \<in> ?E\<^sup>*" for i j
    using closed [OF that(1), of "{0, 1}"] closed [OF that(2), of "{0, 1}"] by auto
  have two: "j = 2" if "(2, j) \<in> ?E\<^sup>*" for j using closed [OF that, of "{2}"] by auto
  have three: "j = 0 \<or> j = 1 \<or> j = 3" if "(3, j) \<in> ?E\<^sup>*" for j using closed [OF that, of "{0, 1, 3}"] by auto
  have "(0, 1) \<in> ?E\<^sup>*" "(1, 0) \<in> ?E\<^sup>*" by auto
  then have "scc_class ?E 0 = {0, 1}" "scc_class ?E 1 = {0, 1}" using pair by (auto simp: scc_class_def)
  moreover have "scc_class ?E 2 = {2}" using two by (auto simp: scc_class_def)
  moreover have "scc_class ?E 3 = {3}" using pair [of 3] three by (fastforce simp: scc_class_def)
  ultimately show ?thesis
    by (auto simp: finds_components_def example_level_graph example_scc_def scc_partition_def lessThan_Suc eval_nat_numeral)
qed

lemma example_cycles:
  "cycles_from_parts example_scc example_nodes example_edges File =
     Inr [\<lparr>cycle_level = ''file'', cycle_node_ids = [''a'', ''b'', ''a'']\<rparr>,
       \<lparr>cycle_level = ''file'', cycle_node_ids = [''c'', ''c'']\<rparr>]"
  by (simp add: cycles_from_parts_def example_level_graph example_scc_def component_cycle_def component_ids_def
    representative_cycle_def targets_of_def bm_get_def bs_of_list_def bs_contains_def close_cycle_def cycle_path.simps)

text \<open>The two cycles of the example, and that the theorem applies to it.\<close>

theorem cycles_exact_witness:
  "\<exists>rs. cycles_from_parts example_scc example_nodes example_edges File = Inr rs \<and> length rs = 2 \<and>
    (\<forall>r\<in>set rs. shortest_cycle (level_rel example_nodes example_edges File) (hd (cycle_node_ids r)) (cycle_node_ids r))"
  using cycles_exact [OF example_finds_components] by (auto simp: example_cycles)

text \<open>The same files as a snapshot that lists them in another order.\<close>

definition example_cyclic_snapshot :: GraphSnapshot where
  "example_cyclic_snapshot =
     example_snapshot (map (\<lambda>i. example_node i ''file'') [''a'', ''b'', ''c'', ''d''])
       [example_edge ''1'' ''b'' ''a'', example_edge ''2'' ''a'' ''b'', example_edge ''3'' ''c'' ''c'',
        example_edge ''4'' ''d'' ''a''] []"

lemma example_cyclic_parts:
  "map (\<lambda>n. (node_id n, node_kind n)) (snap_nodes example_cyclic_snapshot) =
     [(''a'', ''file''), (''b'', ''file''), (''c'', ''file''), (''d'', ''file'')]"
  "map (\<lambda>e. (edge_source e, edge_target e)) (snap_edges example_cyclic_snapshot) = example_edges"
  "map (\<lambda>n. (topology_node_id n, topology_node_kind n)) (topology_nodes example_topology) = example_nodes"
  "map (\<lambda>e. (topology_edge_source e, topology_edge_target e)) (topology_edges example_topology) = example_edges"
  by (simp_all add: example_cyclic_snapshot_def example_defs example_topology_def example_nodes_def example_edges_def)

theorem cycles_topology_agrees_witness:
  "cycles example_scc example_cyclic_snapshot File = cycles_from_topology example_scc example_topology File"
proof (rule cycles_topology_agrees)
  have "level_allowed [(''a'', ''file''), (''b'', ''file''), (''c'', ''file''), (''d'', ''file'')] File = level_allowed example_nodes File"
    by code_simp
  then show "finds_components example_scc (map (\<lambda>n. (node_id n, node_kind n)) (snap_nodes example_cyclic_snapshot))
      (map (\<lambda>e. (edge_source e, edge_target e)) (snap_edges example_cyclic_snapshot)) File"
    using example_finds_components unfolding example_cyclic_parts by (simp add: finds_components_def level_graph_def)
  show "finds_components example_scc
      (map (\<lambda>n. (topology_node_id n, topology_node_kind n)) (topology_nodes example_topology))
      (map (\<lambda>e. (topology_edge_source e, topology_edge_target e)) (topology_edges example_topology)) File"
    using example_finds_components unfolding example_cyclic_parts .
qed (auto simp: example_cyclic_snapshot_def example_defs example_topology_def)

end
