(* ===== verification/Unresolved.thy ===== *)
theory Unresolved
  imports Postprocess
begin

text \<open>
  The unresolved-dependency query: \<open>unresolved\<close> in \<^verbatim>\<open>crates/depgraph-core/src/query.rs\<close>. It indexes the evidence
  of sites, the phases of their edges and the correlation of each site, and joins the three indexes for the
  sites that are unresolved. The reference \<open>unresolved_of\<close> looks everything up in the snapshot itself.
\<close>

record UnresolvedResult =
  ur_site :: SiteRecord
  ur_evidence :: "EvidenceRecord list"
  ur_phases :: "string list"
  ur_effective_profile_id :: "string option"
  ur_correlation_status :: "string option"
  ur_observed_difference_reasons :: "string list"
  ur_phase_coverage :: "(string, PhaseCoverageRecord) bmap"

definition site_evidence :: "EvidenceRecord list \<Rightarrow> (string, EvidenceRecord list) bmap" where
  "site_evidence items =
     fold (\<lambda>item. bm_entry [] (ev_owner_id item) (\<lambda>owned. owned @ [item]))
       (filter (\<lambda>item. ev_owner_type item = ''site'') items) []"

definition site_phases :: "EdgeRecord list \<Rightarrow> (string, string bset) bmap" where
  "site_phases edges =
     fold (\<lambda>edge map. case edge_site_id edge of
         None \<Rightarrow> map
       | Some sid \<Rightarrow> bm_entry [] sid (bs_insert (edge_phase edge)) map) edges []"

definition unresolved_result ::
  "GraphSnapshot \<Rightarrow> (string, EvidenceRecord list) bmap \<Rightarrow> (string, string bset) bmap
     \<Rightarrow> (string, ProfileCorrelationRecord) bmap \<Rightarrow> SiteRecord \<Rightarrow> UnresolvedResult" where
  "unresolved_result snapshot evidence phases correlations site =
     (let correlation = bm_get correlations (site_id site) in
      \<lparr>ur_site = site,
       ur_evidence = (case bm_get evidence (site_id site) of None \<Rightarrow> [] | Some items \<Rightarrow> items),
       ur_phases = (case bm_get phases (site_id site) of None \<Rightarrow> [] | Some values \<Rightarrow> values),
       ur_effective_profile_id = map_option corr_effective_profile_id correlation,
       ur_correlation_status = map_option corr_status correlation,
       ur_observed_difference_reasons = (case correlation of None \<Rightarrow> [] | Some c \<Rightarrow> corr_difference_reasons c),
       ur_phase_coverage = (case correlation of None \<Rightarrow> []
         | Some c \<Rightarrow> phase_coverage_for_effective_profile (snap_profile_matrix snapshot) (corr_effective_profile_id c))\<rparr>)"

definition unresolved :: "GraphSnapshot \<Rightarrow> UnresolvedResult list" where
  "unresolved snapshot =
     (let evidence = site_evidence (snap_evidence snapshot);
          phases = site_phases (snap_edges snapshot);
          correlations = site_correlation_map (snap_profile_matrix snapshot) in
      map (unresolved_result snapshot evidence phases correlations)
        (filter (\<lambda>site. site_resolution_status site = ''unresolved'') (snap_sites snapshot)))"

section \<open>The reference\<close>

text \<open>The correlations that list a site, in the order of the matrix; the last one counts.\<close>

definition correlations_of :: "ProfileMatrixRecord \<Rightarrow> string \<Rightarrow> ProfileCorrelationRecord list" where
  "correlations_of matrix sid =
     filter (\<lambda>c. \<exists>ids\<in>set (bm_values (corr_site_ids_by_phase c)). sid \<in> set ids) (matrix_correlations matrix)"

definition correlation_of :: "ProfileMatrixRecord \<Rightarrow> string \<Rightarrow> ProfileCorrelationRecord option" where
  "correlation_of matrix sid =
     (if correlations_of matrix sid = [] then None else Some (last (correlations_of matrix sid)))"

definition unresolved_of :: "GraphSnapshot \<Rightarrow> SiteRecord \<Rightarrow> UnresolvedResult" where
  "unresolved_of snapshot site =
     (let matrix = snap_profile_matrix snapshot; correlation = correlation_of matrix (site_id site) in
      \<lparr>ur_site = site,
       ur_evidence = filter (\<lambda>v. ev_owner_type v = ''site'' \<and> ev_owner_id v = site_id site) (snap_evidence snapshot),
       ur_phases = bs_of_list (map edge_phase (filter (\<lambda>e. edge_site_id e = Some (site_id site)) (snap_edges snapshot))),
       ur_effective_profile_id = map_option corr_effective_profile_id correlation,
       ur_correlation_status = map_option corr_status correlation,
       ur_observed_difference_reasons = (case correlation of None \<Rightarrow> [] | Some c \<Rightarrow> corr_difference_reasons c),
       ur_phase_coverage = (case correlation of None \<Rightarrow> []
         | Some c \<Rightarrow> phase_coverage_for_effective_profile matrix (corr_effective_profile_id c))\<rparr>)"

section \<open>The indexes\<close>

lemma site_evidence_get:
  "bm_invar (site_evidence items)"
  "(case bm_get (site_evidence items) sid of None \<Rightarrow> [] | Some vs \<Rightarrow> vs) =
     filter (\<lambda>v. ev_owner_type v = ''site'' \<and> ev_owner_id v = sid) items"
proof -
  let ?f = "\<lambda>item. bm_entry [] (ev_owner_id item) (\<lambda>owned. owned @ [item])"
  have "bm_invar (fold ?f xs []) \<and>
      (case bm_get (fold ?f xs []) sid of None \<Rightarrow> [] | Some vs \<Rightarrow> vs) = filter (\<lambda>v. ev_owner_id v = sid) xs" for xs
  proof (induction xs rule: rev_induct)
    case (snoc x xs)
    then show ?case by (auto simp: bm_get_entry split: option.splits)
  qed simp
  from this [of "filter (\<lambda>v. ev_owner_type v = ''site'') items"]
  show "bm_invar (site_evidence items)"
    "(case bm_get (site_evidence items) sid of None \<Rightarrow> [] | Some vs \<Rightarrow> vs) =
     filter (\<lambda>v. ev_owner_type v = ''site'' \<and> ev_owner_id v = sid) items"
    by (simp_all add: site_evidence_def conj_commute)
qed

lemma bs_of_list_append: "bs_of_list (xs @ [x]) = bs_insert x (bs_of_list xs)"
  by (simp add: bs_of_list_def)

lemma site_phases_get:
  "bm_invar (site_phases es) \<and>
   (case bm_get (site_phases es) sid of None \<Rightarrow> [] | Some ps \<Rightarrow> ps) =
     bs_of_list (map edge_phase (filter (\<lambda>e. edge_site_id e = Some sid) es))"
proof (induction es rule: rev_induct)
  case Nil
  show ?case by (simp add: site_phases_def bs_of_list_def)
next
  case (snoc e es)
  have step: "site_phases (es @ [e]) = (case edge_site_id e of None \<Rightarrow> site_phases es
      | Some sid \<Rightarrow> bm_entry [] sid (bs_insert (edge_phase e)) (site_phases es))"
    by (cases "edge_site_id e") (simp_all add: site_phases_def)
  show ?case using snoc unfolding step
    by (auto simp: bm_get_entry bs_of_list_append split: option.splits)
qed

lemma map_of_last:
  "map_of (rev (concat (map (\<lambda>c. map (\<lambda>i. (i, c)) (f c)) cs))) sid =
     (let hits = filter (\<lambda>c. sid \<in> set (f c)) cs in if hits = [] then None else Some (last hits))"
proof (induction cs rule: rev_induct)
  case (snoc c cs)
  have "map_of (rev (map (\<lambda>i. (i, c)) (f c))) sid = (if sid \<in> set (f c) then Some c else None)"
    by (simp add: rev_map map_of_map_keys map_of_map_restrict restrict_map_def)
  with snoc show ?case by (auto simp: Let_def map_add_def split: option.splits)
qed simp

lemma site_correlation_get: "bm_get (site_correlation_map matrix) sid = correlation_of matrix sid"
  unfolding site_correlation_map_def bm.get_collect_empty map_of_last
  by (simp add: correlation_of_def correlations_of_def Let_def)

text \<open>
  C31: The unresolved query returns one result for every unresolved site, in the order of the snapshot. Each
  result carries exactly the evidence owned by the site, in order, the phases of the edges of the site, sorted
  and without repetitions, and the status, difference reasons and phase coverage of the correlation that lists
  the site.
\<close>

theorem unresolved_exact:
  "unresolved snapshot =
     map (unresolved_of snapshot) (filter (\<lambda>s. site_resolution_status s = ''unresolved'') (snap_sites snapshot))"
  unfolding unresolved_def unresolved_result_def unresolved_of_def Let_def
  by (simp add: site_evidence_get(2) site_phases_get site_correlation_get)

end
