(* ===== verification/Record_Json.thy ===== *)
theory Record_Json
  imports Records
begin

text \<open>
  The derived \<open>Serialize\<close> and \<open>PartialEq\<close> of the snapshot records in
  \<^verbatim>\<open>crates/depgraph-store/src/records.rs\<close>: the JSON object of each record, with its members in the order of
  the fields, and the equality of two records, which compares raw JSON fields as \<open>serde_json\<close> does, that is,
  without regard to the order of object members.
\<close>

section \<open>Serialization\<close>

definition opt_string :: "string option \<Rightarrow> json" where
  "opt_string v = (case v of None \<Rightarrow> Null | Some s \<Rightarrow> String s)"

definition int_value :: "int \<Rightarrow> json" where
  "int_value i = Number (if i < 0 then NegInt i else PosInt (nat i))"

definition strings_value :: "string list \<Rightarrow> json" where
  "strings_value ss = Array (map String ss)"

definition node_value :: "NodeRecord \<Rightarrow> json" where
  "node_value node = Object [(''id'', String (node_id node)), (''kind'', String (node_kind node)),
     (''locator'', String (node_locator node)), (''display_name'', String (node_display_name node)),
     (''properties'', node_properties node)]"

definition site_value :: "SiteRecord \<Rightarrow> json" where
  "site_value site = Object [(''id'', String (site_id site)), (''source'', String (site_source site)),
     (''kind'', String (site_kind site)), (''specifier'', opt_string (site_specifier site)),
     (''profile_id'', String (site_profile_id site)), (''resolution_status'', String (site_resolution_status site)),
     (''precision'', String (site_precision site)), (''condition'', site_condition site),
     (''target_ids'', strings_value (site_target_ids site)), (''reason'', opt_string (site_reason site))]"

definition edge_value :: "EdgeRecord \<Rightarrow> json" where
  "edge_value edge = Object [(''id'', String (edge_id edge)), (''site_id'', opt_string (edge_site_id edge)),
     (''source'', String (edge_source edge)), (''target'', String (edge_target edge)), (''kind'', String (edge_kind edge)),
     (''phase'', String (edge_phase edge)), (''environment'', String (edge_environment edge)),
     (''profile_id'', String (edge_profile_id edge)), (''resolution_status'', String (edge_resolution_status edge)),
     (''precision'', String (edge_precision edge)), (''condition'', edge_condition edge),
     (''generated'', Bool (edge_generated edge))]"

definition evidence_value :: "EvidenceRecord \<Rightarrow> json" where
  "evidence_value v = Object [(''owner_type'', String (ev_owner_type v)), (''owner_id'', String (ev_owner_id v)),
     (''ordinal'', int_value (ev_ordinal v)), (''kind'', String (ev_kind v)), (''extractor'', String (ev_extractor v)),
     (''extractor_version'', String (ev_extractor_version v)), (''path'', String (ev_path v)),
     (''start_line'', Number (PosInt (ev_start_line v))), (''start_column'', Number (PosInt (ev_start_column v))),
     (''end_line'', Number (PosInt (ev_end_line v))), (''end_column'', Number (PosInt (ev_end_column v))),
     (''detail'', opt_string (ev_detail v)), (''properties'', ev_properties v)]"

definition coverage_value :: "CoverageRecord \<Rightarrow> json" where
  "coverage_value c = Object [(''profiles'', Number (PosInt (cov_profiles c))),
     (''files_discovered'', Number (PosInt (cov_files_discovered c))), (''files_analyzed'', Number (PosInt (cov_files_analyzed c))),
     (''files_skipped'', Number (PosInt (cov_files_skipped c))), (''dependency_sites'', Number (PosInt (cov_dependency_sites c))),
     (''resolved'', Number (PosInt (cov_resolved c))), (''candidates'', Number (PosInt (cov_candidates c))),
     (''external'', Number (PosInt (cov_external c))), (''unresolved'', Number (PosInt (cov_unresolved c))),
     (''unsupported_syntax'', Number (PosInt (cov_unsupported_syntax c))),
     (''project_code_executed'', Bool (cov_project_code_executed c)),
     (''completeness'', strings_value (cov_completeness c)), (''reasons'', strings_value (cov_reasons c))]"

definition profile_value :: "ProfileRecord \<Rightarrow> json" where
  "profile_value p = Object ([(''id'', String (profile_id p)), (''language'', String (profile_language p)),
       (''toolchain'', (case profile_toolchain p of None \<Rightarrow> Null | Some v \<Rightarrow> v)),
       (''command'', opt_string (profile_command p)), (''target'', opt_string (profile_target p)),
       (''features'', strings_value (profile_features p)), (''environment'', profile_environment p)]
     @ optional_member ''source_revision'' (profile_source_revision p)
     @ [(''properties'', profile_properties p),
        (''coverage'', (case profile_coverage p of None \<Rightarrow> Null | Some c \<Rightarrow> coverage_value c))])"

section \<open>Equality\<close>

definition node_eq :: "NodeRecord \<Rightarrow> NodeRecord \<Rightarrow> bool" where
  "node_eq a b \<longleftrightarrow> node_id a = node_id b \<and> node_kind a = node_kind b \<and> node_locator a = node_locator b \<and>
     node_display_name a = node_display_name b \<and> json_same (node_properties a) (node_properties b)"

definition site_eq :: "SiteRecord \<Rightarrow> SiteRecord \<Rightarrow> bool" where
  "site_eq a b \<longleftrightarrow> site_id a = site_id b \<and> site_source a = site_source b \<and> site_kind a = site_kind b \<and>
     site_specifier a = site_specifier b \<and> site_profile_id a = site_profile_id b \<and>
     site_resolution_status a = site_resolution_status b \<and> site_precision a = site_precision b \<and>
     json_same (site_condition a) (site_condition b) \<and> site_target_ids a = site_target_ids b \<and> site_reason a = site_reason b"

definition edge_eq :: "EdgeRecord \<Rightarrow> EdgeRecord \<Rightarrow> bool" where
  "edge_eq a b \<longleftrightarrow> edge_id a = edge_id b \<and> edge_site_id a = edge_site_id b \<and> edge_source a = edge_source b \<and>
     edge_target a = edge_target b \<and> edge_kind a = edge_kind b \<and> edge_phase a = edge_phase b \<and>
     edge_environment a = edge_environment b \<and> edge_profile_id a = edge_profile_id b \<and>
     edge_resolution_status a = edge_resolution_status b \<and> edge_precision a = edge_precision b \<and>
     json_same (edge_condition a) (edge_condition b) \<and> edge_generated a = edge_generated b"

definition evidence_eq :: "EvidenceRecord \<Rightarrow> EvidenceRecord \<Rightarrow> bool" where
  "evidence_eq a b \<longleftrightarrow> ev_owner_type a = ev_owner_type b \<and> ev_owner_id a = ev_owner_id b \<and> ev_ordinal a = ev_ordinal b \<and>
     ev_kind a = ev_kind b \<and> ev_extractor a = ev_extractor b \<and> ev_extractor_version a = ev_extractor_version b \<and>
     ev_path a = ev_path b \<and> ev_start_line a = ev_start_line b \<and> ev_start_column a = ev_start_column b \<and>
     ev_end_line a = ev_end_line b \<and> ev_end_column a = ev_end_column b \<and> ev_detail a = ev_detail b \<and>
     json_same (ev_properties a) (ev_properties b)"

text \<open>\<open>Option<Value>\<close> compares the values that are there.\<close>

fun opt_same :: "json option \<Rightarrow> json option \<Rightarrow> bool" where
  "opt_same (Some a) (Some b) = json_same a b"
| "opt_same a b = (a = b)"

definition profile_eq :: "ProfileRecord \<Rightarrow> ProfileRecord \<Rightarrow> bool" where
  "profile_eq a b \<longleftrightarrow> profile_id a = profile_id b \<and> profile_language a = profile_language b \<and>
     opt_same (profile_toolchain a) (profile_toolchain b) \<and> profile_command a = profile_command b \<and>
     profile_target a = profile_target b \<and> profile_features a = profile_features b \<and>
     json_same (profile_environment a) (profile_environment b) \<and> profile_source_revision a = profile_source_revision b \<and>
     json_same (profile_properties a) (profile_properties b) \<and> profile_coverage a = profile_coverage b"

section \<open>Equality is equality of the serialized fields\<close>

lemma json_same_String [simp]: "json_same (String a) (String b) \<longleftrightarrow> a = b"
  and json_same_Bool [simp]: "json_same (Bool p) (Bool q) \<longleftrightarrow> p = q"
  and json_same_Number [simp]: "json_same (Number m) (Number n) \<longleftrightarrow> m = n"
  by auto

lemma json_same_opt_string [simp]: "json_same (opt_string a) (opt_string b) \<longleftrightarrow> a = b"
  by (cases a; cases b) (simp_all add: opt_string_def)

lemma json_same_strings [simp]: "json_same (strings_value a) (strings_value b) \<longleftrightarrow> a = b"
proof -
  have "list_all2 json_same (map String a) (map String b) \<longleftrightarrow> list_all2 (=) a b"
    by (simp add: list_all2_map1 list_all2_map2)
  then show ?thesis by (simp add: strings_value_def list.rel_eq)
qed

lemma json_same_int [simp]: "json_same (int_value a) (int_value b) \<longleftrightarrow> a = b"
  by (auto simp: int_value_def)

text \<open>Two objects differ in a member.\<close>

definition member_differs :: "json \<Rightarrow> json \<Rightarrow> string \<Rightarrow> bool" where
  "member_differs a b k \<longleftrightarrow> \<not> opt_same (json_get a k) (json_get b k)"

lemma same_members:
  assumes "map fst ms = map fst ns" and "distinct (map fst ms)"
  shows "(\<forall>k. \<not> member_differs (Object ms) (Object ns) k) \<longleftrightarrow> list_all2 (\<lambda>m n. json_same (snd m) (snd n)) ms ns"
proof -
  have "length ms = length ns" using assms(1) by (metis length_map)
  then have "(\<forall>k. opt_same (map_of ms k) (map_of ns k)) \<longleftrightarrow> list_all2 (\<lambda>m n. json_same (snd m) (snd n)) ms ns"
    using assms
  proof (induction ms ns rule: list_induct2)
    case (Cons m ms n ns)
    have keys: "map fst ns = map fst ms" "fst m \<notin> set (map fst ms)" and key: "fst n = fst m" using Cons.prems by simp_all
    then have fresh: "map_of ms (fst m) = None" "map_of ns (fst m) = None"
      unfolding map_of_eq_None_iff list.set_map [symmetric] by simp_all
    have look: "map_of (m # ms) k = (if k = fst m then Some (snd m) else map_of ms k)"
      "map_of (n # ns) k = (if k = fst m then Some (snd n) else map_of ns k)" for k
      using key by (cases m; cases n; auto)+
    have "(\<forall>k. opt_same (map_of (m # ms) k) (map_of (n # ns) k)) \<longleftrightarrow>
        json_same (snd m) (snd n) \<and> (\<forall>k. opt_same (map_of ms k) (map_of ns k))"
    proof
      assume all: "\<forall>k. opt_same (map_of (m # ms) k) (map_of (n # ns) k)"
      have "json_same (snd m) (snd n)" using spec [OF all, of "fst m"] by (simp only: look simp_thms if_True opt_same.simps)
      moreover have "opt_same (map_of ms k) (map_of ns k)" for k
        using spec [OF all, of k] fresh by (cases "k = fst m") (simp_all only: look simp_thms if_False opt_same.simps)
      ultimately show "json_same (snd m) (snd n) \<and> (\<forall>k. opt_same (map_of ms k) (map_of ns k))" by blast
    next
      assume "json_same (snd m) (snd n) \<and> (\<forall>k. opt_same (map_of ms k) (map_of ns k))"
      then show "\<forall>k. opt_same (map_of (m # ms) k) (map_of (n # ns) k)" by (simp only: look) simp
    qed
    with Cons show ?case by simp
  qed simp
  then show ?thesis by (simp add: member_differs_def)
qed

lemma node_eq_members: "node_eq a b \<longleftrightarrow> (\<forall>k. \<not> member_differs (node_value a) (node_value b) k)"
  unfolding node_value_def by (subst same_members) (simp_all add: node_eq_def)

lemma site_eq_members: "site_eq a b \<longleftrightarrow> (\<forall>k. \<not> member_differs (site_value a) (site_value b) k)"
  unfolding site_value_def by (subst same_members) (simp_all add: site_eq_def)

lemma edge_eq_members: "edge_eq a b \<longleftrightarrow> (\<forall>k. \<not> member_differs (edge_value a) (edge_value b) k)"
  unfolding edge_value_def by (subst same_members) (simp_all add: edge_eq_def)

lemma evidence_eq_members: "evidence_eq a b \<longleftrightarrow> (\<forall>k. \<not> member_differs (evidence_value a) (evidence_value b) k)"
  unfolding evidence_value_def by (subst same_members) (simp_all add: evidence_eq_def)

end
