(* ===== verification/Pagination.thy ===== *)
theory Pagination
  imports Unresolved Traversal Record_Json
begin

text \<open>
  Interactive paging: \<open>validate_interactive_query_bounds\<close>, the query summaries, \<open>paginate_interactive_query\<close>
  and the page cursors in \<^verbatim>\<open>crates/depgraph-core/src/query.rs\<close>.

  A page is a slice of the canonical result that fits a budget of items and of serialized bytes; a binary
  search chooses how many items fit. The page states its own serialized length, which is found by iteration.
  The cursor of the next page is signed with a digest of the query, so that it is only accepted for the query
  that produced it. The serialization of the items is a parameter (\<open>item_value\<close>), which may fail.
\<close>

section \<open>Bounds\<close>

definition INTERACTIVE_QUERY_PAGE_CONTRACT_VERSION :: string where
  "INTERACTIVE_QUERY_PAGE_CONTRACT_VERSION = ''depgraph-interactive-query-page-v1''"

definition INTERACTIVE_QUERY_CURSOR_PREFIX :: string where
  "INTERACTIVE_QUERY_CURSOR_PREFIX = ''depgraph-query-cursor-v1''"

definition MAX_INTERACTIVE_QUERY_ITEMS :: nat where
  [limit_simps]: "MAX_INTERACTIVE_QUERY_ITEMS = 10000"

definition MAX_INTERACTIVE_QUERY_BYTES :: nat where
  [limit_simps]: "MAX_INTERACTIVE_QUERY_BYTES = 16 * 1024 * 1024"

definition MIN_INTERACTIVE_QUERY_BYTES :: nat where
  [limit_simps]: "MIN_INTERACTIVE_QUERY_BYTES = 4 * 1024"

definition MAX_QUERY_SUMMARY_GROUPS :: nat where
  [limit_simps]: "MAX_QUERY_SUMMARY_GROUPS = 64"

definition validate_interactive_query_bounds :: "nat \<Rightarrow> nat \<Rightarrow> nat option \<Rightarrow> query_error + unit" where
  "validate_interactive_query_bounds max_items max_bytes max_traversal =
     (if \<not> (1 \<le> max_items \<and> max_items \<le> MAX_INTERACTIVE_QUERY_ITEMS)
      then Inl (Message (''interactive query max-items must be in 1..='' @ show_nat MAX_INTERACTIVE_QUERY_ITEMS))
      else if \<not> (MIN_INTERACTIVE_QUERY_BYTES \<le> max_bytes \<and> max_bytes \<le> MAX_INTERACTIVE_QUERY_BYTES)
      then Inl (Message (''interactive query max-bytes must be in '' @ show_nat MIN_INTERACTIVE_QUERY_BYTES @ ''..=''
        @ show_nat MAX_INTERACTIVE_QUERY_BYTES))
      else case max_traversal of
          Some limit \<Rightarrow>
            if \<not> (1 \<le> limit \<and> limit \<le> MAX_INTERACTIVE_QUERY_TRAVERSAL)
            then Inl (Message (''interactive query max-traversal must be in 1..='' @ show_nat MAX_INTERACTIVE_QUERY_TRAVERSAL))
            else Inr ()
        | None \<Rightarrow> Inr ())"

section \<open>Summaries\<close>

record QueryCountGroup =
  group_key :: string
  group_count :: nat

record QueryCountSummary =
  summary_groups :: "QueryCountGroup list"
  omitted_groups :: nat
  omitted_items :: nat

record InteractiveQuerySummary =
  summary_total_items :: nat
  by_status :: QueryCountSummary
  by_phase :: QueryCountSummary
  by_profile :: QueryCountSummary
  by_kind :: QueryCountSummary
  by_reason :: QueryCountSummary

definition count_values :: "string list \<Rightarrow> (string, nat) bmap" where
  "count_values values = fold (\<lambda>value. bm_entry 0 value Suc) values []"

text \<open>\<open>sort_by\<close> with the larger count first: the map is ordered by key and the sort is stable.\<close>

definition group_order :: "QueryCountGroup \<Rightarrow> QueryCountGroup \<Rightarrow> bool" where
  "group_order left right \<longleftrightarrow>
     group_count right < group_count left \<or> group_count right = group_count left \<and> group_key left \<le> group_key right"

fun insert_group :: "QueryCountGroup \<Rightarrow> QueryCountGroup list \<Rightarrow> QueryCountGroup list" where
  "insert_group g [] = [g]"
| "insert_group g (h # hs) = (if group_order g h then g # h # hs else h # insert_group g hs)"

definition sort_groups :: "QueryCountGroup list \<Rightarrow> QueryCountGroup list" where
  "sort_groups groups = foldr insert_group groups []"

definition bounded_count_summary :: "string list \<Rightarrow> QueryCountSummary" where
  "bounded_count_summary values =
     (let groups = sort_groups (map (\<lambda>(key, n). \<lparr>group_key = key, group_count = n\<rparr>) (count_values values));
          keep = min (length groups) MAX_QUERY_SUMMARY_GROUPS;
          omitted = drop keep groups in
      \<lparr>summary_groups = take keep groups,
       omitted_groups = to_u64 (length omitted),
       omitted_items = sum_list (map group_count omitted)\<rparr>)"

definition summarize_query_items ::
  "string list \<Rightarrow> string list \<Rightarrow> string list \<Rightarrow> string list \<Rightarrow> string list \<Rightarrow> nat \<Rightarrow> InteractiveQuerySummary" where
  "summarize_query_items statuses phases profiles kinds reasons total_items =
     \<lparr>summary_total_items = to_u64 total_items, by_status = bounded_count_summary statuses,
      by_phase = bounded_count_summary phases, by_profile = bounded_count_summary profiles,
      by_kind = bounded_count_summary kinds, by_reason = bounded_count_summary reasons\<rparr>"

definition traversal_summary :: "TraversalResult \<Rightarrow> InteractiveQuerySummary" where
  "traversal_summary result =
     summarize_query_items
       (map (\<lambda>step. edge_resolution_status (step_edge step)) (tr_steps result))
       (map (\<lambda>step. edge_phase (step_edge step)) (tr_steps result))
       (map (\<lambda>step. edge_profile_id (step_edge step)) (tr_steps result))
       (map (\<lambda>step. edge_kind (step_edge step)) (tr_steps result))
       [] (length (tr_steps result))"

definition unresolved_summary :: "UnresolvedResult list \<Rightarrow> InteractiveQuerySummary" where
  "unresolved_summary result =
     summarize_query_items
       (map (\<lambda>item. site_resolution_status (ur_site item)) result)
       (concat (map ur_phases result))
       (map (\<lambda>item. site_profile_id (ur_site item)) result)
       (map (\<lambda>item. site_kind (ur_site item)) result)
       (map (\<lambda>item. case site_reason (ur_site item) of None \<Rightarrow> ''unspecified'' | Some reason \<Rightarrow> reason) result)
       (length result)"

record TraversalPageItem =
  item_source :: NodeRecord
  item_target :: NodeRecord
  item_step :: PathStep

definition page_node :: "string \<Rightarrow> (string, NodeRecord) bmap \<Rightarrow> string \<Rightarrow> query_error + NodeRecord" where
  "page_node role nodes i =
     (case bm_get nodes i of
        None \<Rightarrow> Inl (Message (''traversal page '' @ role @ '' node '' @ i @ '' is unavailable''))
      | Some node \<Rightarrow> Inr node)"

definition traversal_page_items :: "TraversalResult \<Rightarrow> query_error + TraversalPageItem list" where
  "traversal_page_items result =
     (let nodes = fold (\<lambda>node. bm_insert (node_id node) node) (tr_root result # tr_nodes result) [] in
      fold_m (\<lambda>step items.
        sum_bind (page_node ''source'' nodes (edge_source (step_edge step))) (\<lambda>source.
        sum_bind (page_node ''target'' nodes (edge_target (step_edge step))) (\<lambda>target.
        Inr (items @ [\<lparr>item_source = source, item_target = target, item_step = step\<rparr>]))))
        (tr_steps result) [])"

section \<open>Pages\<close>

record 'a InteractiveQueryPage =
  page_schema_version :: string
  page_contract_version :: string
  page_command :: string
  page_scan_id :: string
  page_snapshot_id :: string
  page_complete :: bool
  page_returned_items :: nat
  page_total_items :: nat
  page_traversed_items :: nat
  page_serialized_output_bytes :: nat
  page_root :: "NodeRecord option"
  page_summary :: InteractiveQuerySummary
  page_diagnostics :: "QueryPageDiagnostic list"
  page_next_cursor :: "string option"
  page_items :: "'a list"

record InteractiveQueryPageRequest =
  req_command :: string
  req_scan_id :: string
  req_snapshot_id :: string
  req_context :: json
  req_cursor :: "string option"
  req_max_items :: nat
  req_max_bytes :: nat
  req_traversal_complete :: bool
  req_traversed_items :: nat
  req_root :: "NodeRecord option"
  req_diagnostics :: "QueryPageDiagnostic list"

subsection \<open>Cursors\<close>

definition cursor_signature :: "externals \<Rightarrow> string \<Rightarrow> nat \<Rightarrow> string" where
  "cursor_signature E context_digest offset =
     (let signature = stable_id_from_value E ''interactive-query-cursor''
        (Object [(''context_digest'', String context_digest), (''offset'', Number (PosInt offset))]) in
      case rsplit_once (CHR '':'') signature of None \<Rightarrow> signature | Some (_, suffix) \<Rightarrow> suffix)"

definition encode_interactive_query_cursor :: "externals \<Rightarrow> string \<Rightarrow> nat \<Rightarrow> string" where
  "encode_interactive_query_cursor E context_digest offset =
     INTERACTIVE_QUERY_CURSOR_PREFIX @ ''.'' @ show_nat offset @ ''.'' @ cursor_signature E context_digest offset"

definition next_part :: "string list \<Rightarrow> string option" where
  "next_part parts = (case parts of [] \<Rightarrow> None | part # _ \<Rightarrow> Some part)"

definition decode_interactive_query_cursor :: "externals \<Rightarrow> string \<Rightarrow> string \<Rightarrow> query_error + nat" where
  "decode_interactive_query_cursor E cursor context_digest =
     (let parts = split_char (CHR ''.'') cursor;
          prefix = next_part parts;
          raw_offset = next_part (drop 1 parts);
          signature = next_part (drop 2 parts) in
      if prefix \<noteq> Some INTERACTIVE_QUERY_CURSOR_PREFIX \<or> next_part (drop 3 parts) \<noteq> None
        \<or> (case signature of None \<Rightarrow> True
            | Some value \<Rightarrow> length value \<noteq> 64 \<or> \<not> list_all is_lower_hex value)
      then Inl (Message ''interactive query cursor is malformed'')
      else case raw_offset of
          None \<Rightarrow> Inl (Message ''interactive query cursor is malformed'')
        | Some raw \<Rightarrow>
            (case parse_usize raw of
               None \<Rightarrow> Inl (Message ''interactive query cursor has an invalid offset'')
             | Some offset \<Rightarrow>
                 if show_nat offset \<noteq> raw then Inl (Message ''interactive query cursor offset is not canonical'')
                 else if encode_interactive_query_cursor E context_digest offset \<noteq> cursor
                 then Inl (Message ''interactive query cursor does not match this snapshot and query'')
                 else Inr offset))"

definition context_digest_of :: "externals \<Rightarrow> InteractiveQueryPageRequest \<Rightarrow> string" where
  "context_digest_of E request =
     stable_id_from_value E ''interactive-query-context''
       (Object [(''contract_version'', String INTERACTIVE_QUERY_PAGE_CONTRACT_VERSION),
         (''command'', String (req_command request)), (''scan_id'', String (req_scan_id request)),
         (''snapshot_id'', String (req_snapshot_id request)), (''context'', req_context request)])"

subsection \<open>Serialization of a page\<close>

definition count_summary_value :: "QueryCountSummary \<Rightarrow> json" where
  "count_summary_value s = Object [(''groups'', Array (map (\<lambda>g. Object [(''key'', String (group_key g)),
       (''count'', Number (PosInt (group_count g)))]) (summary_groups s))),
     (''omitted_groups'', Number (PosInt (omitted_groups s))), (''omitted_items'', Number (PosInt (omitted_items s)))]"

definition summary_value :: "InteractiveQuerySummary \<Rightarrow> json" where
  "summary_value s = Object [(''total_items'', Number (PosInt (summary_total_items s))),
     (''by_status'', count_summary_value (by_status s)), (''by_phase'', count_summary_value (by_phase s)),
     (''by_profile'', count_summary_value (by_profile s)), (''by_kind'', count_summary_value (by_kind s)),
     (''by_reason'', count_summary_value (by_reason s))]"

definition page_diagnostic_value :: "QueryPageDiagnostic \<Rightarrow> json" where
  "page_diagnostic_value d = Object [(''code'', String (pd_code d)), (''message'', String (pd_message d)),
     (''remediation'', String (pd_remediation d))]"

text \<open>Members up to and after the byte count; the derived serialization skips an absent root and cursor.\<close>

definition page_head :: "('a, 'b) InteractiveQueryPage_scheme \<Rightarrow> (string \<times> json) list" where
  "page_head page = [(''schema_version'', String (page_schema_version page)),
     (''contract_version'', String (page_contract_version page)), (''command'', String (page_command page)),
     (''scan_id'', String (page_scan_id page)), (''snapshot_id'', String (page_snapshot_id page)),
     (''complete'', Bool (page_complete page)), (''returned_items'', Number (PosInt (page_returned_items page))),
     (''total_items'', Number (PosInt (page_total_items page))),
     (''traversed_items'', Number (PosInt (page_traversed_items page)))]"

definition page_tail :: "('a, 'b) InteractiveQueryPage_scheme \<Rightarrow> json list \<Rightarrow> (string \<times> json) list" where
  "page_tail page values =
     (case page_root page of None \<Rightarrow> [] | Some node \<Rightarrow> [(''root'', node_value node)])
     @ [(''summary'', summary_value (page_summary page)),
        (''diagnostics'', Array (map page_diagnostic_value (page_diagnostics page)))]
     @ (case page_next_cursor page of None \<Rightarrow> [] | Some cursor \<Rightarrow> [(''next_cursor'', String cursor)])
     @ [(''items'', Array values)]"

definition items_value :: "('a \<Rightarrow> query_error + json) \<Rightarrow> 'a list \<Rightarrow> query_error + json list" where
  "items_value item_value items = fold_m (\<lambda>item values. sum_bind (item_value item) (\<lambda>v. Inr (values @ [v]))) items []"

definition page_value :: "('a \<Rightarrow> query_error + json) \<Rightarrow> 'a InteractiveQueryPage \<Rightarrow> query_error + json" where
  "page_value item_value page =
     sum_bind (items_value item_value (page_items page)) (\<lambda>values.
     Inr (Object (page_head page @ [(''serialized_output_bytes'', Number (PosInt (page_serialized_output_bytes page)))]
       @ page_tail page values)))"

definition serialized_page_len :: "externals \<Rightarrow> ('a \<Rightarrow> query_error + json) \<Rightarrow> 'a InteractiveQueryPage \<Rightarrow> query_error + nat" where
  "serialized_page_len E item_value page =
     sum_bind (page_value item_value page) (\<lambda>v. Inr (length (canonical_json E v)))"

primrec stabilize_loop ::
  "externals \<Rightarrow> ('a \<Rightarrow> query_error + json) \<Rightarrow> nat \<Rightarrow> 'a InteractiveQueryPage \<Rightarrow> query_error + 'a InteractiveQueryPage" where
  "stabilize_loop E item_value 0 page = Inl (Message ''interactive query output byte accounting did not converge'')"
| "stabilize_loop E item_value (Suc rounds) page =
     sum_bind (serialized_page_len E item_value page) (\<lambda>n.
     if page_serialized_output_bytes page = to_u64 n then Inr page
     else stabilize_loop E item_value rounds (page\<lparr>page_serialized_output_bytes := to_u64 n\<rparr>))"

definition stabilize_serialized_output_bytes ::
  "externals \<Rightarrow> ('a \<Rightarrow> query_error + json) \<Rightarrow> 'a InteractiveQueryPage \<Rightarrow> query_error + 'a InteractiveQueryPage" where
  "stabilize_serialized_output_bytes E item_value page = stabilize_loop E item_value 8 page"

subsection \<open>Building a page\<close>

definition diagnostic_key :: "QueryPageDiagnostic \<Rightarrow> string \<times> string" where
  "diagnostic_key d = (pd_code d, pd_message d)"

definition page_diagnostics_of :: "InteractiveQueryPageRequest \<Rightarrow> nat \<Rightarrow> nat \<Rightarrow> bool \<Rightarrow> bool \<Rightarrow> QueryPageDiagnostic list" where
  "page_diagnostics_of request offset returned remaining_item_exceeds_budget output_truncated =
     remdups_adj (sort_key diagnostic_key (req_diagnostics request
       @ (if remaining_item_exceeds_budget
          then [\<lparr>pd_code = ''QUERY_ITEM_EXCEEDS_BYTE_BUDGET'',
            pd_message = ''the next canonical item does not fit within the '' @ show_nat (req_max_bytes request) @ ''-byte output budget'',
            pd_remediation = ''rerun the same cursor with a larger --max-bytes value''\<rparr>]
          else if output_truncated
          then [\<lparr>pd_code = ''QUERY_OUTPUT_TRUNCATED'',
            pd_message = ''returned '' @ show_nat returned @ '' canonical items from offset '' @ show_nat offset
              @ '' before the configured output limit'',
            pd_remediation = ''resume with next_cursor, or use --all for an explicit full result''\<rparr>]
          else [])))"

definition build_interactive_query_page ::
  "externals \<Rightarrow> 'a list \<Rightarrow> InteractiveQuerySummary \<Rightarrow> InteractiveQueryPageRequest \<Rightarrow> string \<Rightarrow> nat \<Rightarrow> nat \<Rightarrow> bool
     \<Rightarrow> 'a InteractiveQueryPage" where
  "build_interactive_query_page E items summary request context_digest offset returned remaining_item_exceeds_budget =
     (let page_end = offset + returned;
          output_truncated = page_end < length items in
      \<lparr>page_schema_version = ''1.0'',
       page_contract_version = INTERACTIVE_QUERY_PAGE_CONTRACT_VERSION,
       page_command = req_command request,
       page_scan_id = req_scan_id request,
       page_snapshot_id = req_snapshot_id request,
       page_complete = (req_traversal_complete request \<and> \<not> output_truncated),
       page_returned_items = to_u64 returned,
       page_total_items = summary_total_items summary,
       page_traversed_items = req_traversed_items request,
       page_serialized_output_bytes = 0,
       page_root = req_root request,
       page_summary = summary,
       page_diagnostics = page_diagnostics_of request offset returned remaining_item_exceeds_budget output_truncated,
       page_next_cursor = (if output_truncated \<and> \<not> remaining_item_exceeds_budget
         then Some (encode_interactive_query_cursor E context_digest page_end) else None),
       page_items = take returned (drop offset items)\<rparr>)"

text \<open>\<open>sized_page\<close> builds a page and settles its byte count.\<close>

definition sized_page ::
  "externals \<Rightarrow> ('a \<Rightarrow> query_error + json) \<Rightarrow> 'a list \<Rightarrow> InteractiveQuerySummary \<Rightarrow> InteractiveQueryPageRequest \<Rightarrow> string
     \<Rightarrow> nat \<Rightarrow> nat \<Rightarrow> bool \<Rightarrow> query_error + 'a InteractiveQueryPage" where
  "sized_page E item_value items summary request context_digest offset returned exceeds =
     stabilize_serialized_output_bytes E item_value
       (build_interactive_query_page E items summary request context_digest offset returned exceeds)"

function (sequential) search_count ::
  "(nat \<Rightarrow> query_error + 'a InteractiveQueryPage) \<Rightarrow> nat \<Rightarrow> nat \<Rightarrow> nat \<Rightarrow> query_error + nat" where
  "search_count page_of max_bytes low high =
     (if low < high then
        let returned = low + (high - low + 1) div 2 in
        sum_bind (page_of returned) (\<lambda>page.
          if page_serialized_output_bytes page \<le> max_bytes then search_count page_of max_bytes returned high
          else search_count page_of max_bytes low (returned - 1))
      else Inr low)"
  by pat_completeness auto
termination
  by (relation "measure (\<lambda>(_, _, low, high). high - low)") auto

declare search_count.simps [simp del]

definition paginate_interactive_query ::
  "externals \<Rightarrow> ('a \<Rightarrow> query_error + json) \<Rightarrow> 'a list \<Rightarrow> InteractiveQuerySummary \<Rightarrow> InteractiveQueryPageRequest
     \<Rightarrow> query_error + 'a InteractiveQueryPage" where
  "paginate_interactive_query E item_value items summary request =
     sum_bind (validate_interactive_query_bounds (req_max_items request) (req_max_bytes request) None) (\<lambda>_.
     let context_digest = context_digest_of E request in
     sum_bind (case req_cursor request of None \<Rightarrow> Inr 0
         | Some cursor \<Rightarrow> decode_interactive_query_cursor E cursor context_digest) (\<lambda>offset.
     if offset > length items
     then Inl (Message ''interactive query cursor is beyond the available canonical result'')
     else let maximum_count = min (req_max_items request) (length items - offset);
         sized = sized_page E item_value items summary request context_digest offset in
       sum_bind (sized maximum_count False) (\<lambda>maximum_page.
       sum_bind (if page_serialized_output_bytes maximum_page \<le> req_max_bytes request then Inr maximum_count
           else search_count (\<lambda>returned. sized returned False) (req_max_bytes request) 0 (maximum_count - 1)) (\<lambda>low.
       sum_bind (sized low (low = 0 \<and> offset < length items)) (\<lambda>page.
       if page_serialized_output_bytes page > req_max_bytes request
       then Inl (Message ''interactive query max-bytes is too small for the bounded summary metadata; increase --max-bytes'')
       else Inr page)))))"

section \<open>Cursors\<close>

lemma rsplit_once_append:
  assumes "c \<notin> set b"
  shows "rsplit_once c (a @ c # b) = Some (a, b)"
proof -
  have "split_once c (rev b @ c # rev a) = Some (rev b, rev a)" using assms by (intro split_once_append) simp
  then show ?thesis by (simp add: rsplit_once_def)
qed

lemma hex_char_neq: "is_lower_hex c \<Longrightarrow> c \<noteq> CHR '':'' \<and> c \<noteq> CHR ''.''"
  by (auto simp: is_lower_hex_def Let_def)

lemma cursor_signature_hex:
  assumes "digest_is_hex E"
  shows "length (cursor_signature E d n) = 64" and "list_all is_lower_hex (cursor_signature E d n)"
proof -
  let ?h = "sha256_hex E (canonical_json E (Object [(''context_digest'', String d), (''offset'', Number (PosInt n))]))"
  have hex: "length ?h = 64" "list_all is_lower_hex ?h" using assms by (auto simp: digest_is_hex_def)
  then have "CHR '':'' \<notin> set ?h" using hex_char_neq by (auto simp: list_all_iff)
  from rsplit_once_append [OF this, of "''interactive-query-cursor:sha256''"]
  have "cursor_signature E d n = ?h" by (simp add: cursor_signature_def stable_id_from_value_def)
  with hex show "length (cursor_signature E d n) = 64" "list_all is_lower_hex (cursor_signature E d n)" by simp_all
qed

lemma cursor_parts:
  assumes "digest_is_hex E"
  shows "split_char (CHR ''.'') (encode_interactive_query_cursor E d n) =
    [INTERACTIVE_QUERY_CURSOR_PREFIX, show_nat n, cursor_signature E d n]"
proof -
  have "CHR ''.'' \<notin> set (cursor_signature E d n)"
    using cursor_signature_hex(2) [OF assms, of d n] hex_char_neq by (auto simp: list_all_iff)
  moreover have "CHR ''.'' \<notin> set INTERACTIVE_QUERY_CURSOR_PREFIX" by (simp add: INTERACTIVE_QUERY_CURSOR_PREFIX_def)
  ultimately show ?thesis
    by (simp add: encode_interactive_query_cursor_def show_nat_no_special)
qed

lemma decode_cursor_iff:
  assumes "digest_is_hex E"
  shows "decode_interactive_query_cursor E cursor d = Inr n \<longleftrightarrow>
    n \<le> u64_max \<and> cursor = encode_interactive_query_cursor E d n"
proof
  assume "decode_interactive_query_cursor E cursor d = Inr n"
  then show "n \<le> u64_max \<and> cursor = encode_interactive_query_cursor E d n"
    by (auto simp: decode_interactive_query_cursor_def Let_def split: if_splits option.splits intro: parse_usize_bound)
next
  assume "n \<le> u64_max \<and> cursor = encode_interactive_query_cursor E d n"
  then show "decode_interactive_query_cursor E cursor d = Inr n"
    using cursor_parts [OF assms, of d n] cursor_signature_hex [OF assms, of d n]
    by (simp add: decode_interactive_query_cursor_def Let_def next_part_def)
qed

text \<open>
  C27: Decoding a cursor against the digest of a query gives an offset exactly when the cursor is the one that
  encoding that offset for that query produces and the offset fits in 64 bits. So every cursor the service
  hands out decodes to the offset it was made for, and no other text is accepted: no second spelling of the
  number, no changed offset, no other signature.
\<close>

theorem cursor_roundtrip:
  assumes "digest_is_hex E"
  shows "decode_interactive_query_cursor E cursor d = Inr n \<longleftrightarrow>
    n \<le> u64_max \<and> cursor = encode_interactive_query_cursor E d n"
  using assms by (rule decode_cursor_iff)

theorem cursor_roundtrip_witness:
  "decode_interactive_query_cursor example_externals (encode_interactive_query_cursor example_externals ''q'' 42) ''q'' = Inr 42"
  by (simp add: cursor_roundtrip [OF hex_example] u64_max_def)

section \<open>Decimal width\<close>

lemma length_show_nat_le: "0 < k \<Longrightarrow> length (show_nat n) \<le> k \<longleftrightarrow> n < 10 ^ k"
proof (induction n arbitrary: k rule: show_nat.induct)
  case (1 n)
  show ?case
  proof (cases "n < 10")
    case True
    then have "n < 10 ^ k" using 1(2) by (metis less_le_trans one_le_numeral power_increasing power_one_right Suc_leI One_nat_def)
    with True 1(2) show ?thesis by (subst show_nat.simps) simp
  next
    case False
    show ?thesis
    proof (cases "k = 1")
      case True
      with False show ?thesis by (subst show_nat.simps) simp
    next
      case k: False
      with 1(2) obtain j where j: "k = Suc j" "0 < j" by (cases k) auto
      have "n div 10 < 10 ^ j \<longleftrightarrow> n < 10 ^ k" by (simp add: j(1) div_less_iff_less_mult mult.commute)
      with 1(1) [OF False j(2)] False show ?thesis by (subst show_nat.simps) (simp add: j(1))
    qed
  qed
qed

lemma length_show_nat_pos [simp]: "0 < length (show_nat n)"
  by simp

lemma length_show_nat_mono:
  assumes "m \<le> n"
  shows "length (show_nat m) \<le> length (show_nat n)"
proof -
  have "n < 10 ^ length (show_nat n)" using length_show_nat_le [of "length (show_nat n)" n] by simp
  then show ?thesis using assms by (subst length_show_nat_le) auto
qed

text \<open>Adding its own number of digits to a number adds at most one digit.\<close>

lemma show_nat_growth:
  assumes "d = length (show_nat (c + 1))" and "k \<le> d"
  shows "length (show_nat (c + 1 + k)) \<le> d + 1"
proof -
  have "c + 1 < 10 ^ d" "0 < d" using assms(1) length_show_nat_le [of d "c + 1"] by auto
  moreover have "d < 10 ^ d" by (rule less_exp [THEN less_le_trans]) (simp add: power_mono)
  ultimately have "c + 1 + k < 10 ^ (d + 1)" using assms(2) by simp
  then show ?thesis by (subst length_show_nat_le) auto
qed

text \<open>The byte count of a page settles after at most three corrections.\<close>

lemma byte_count_settles:
  assumes f: "\<And>n. f n = min (c + length (show_nat n)) M" and M: "0 < M"
  shows "\<exists>k\<le>3. f ((f ^^ k) 0) = (f ^^ k) 0"
proof -
  let ?D = "\<lambda>n. length (show_nat n)" and ?d = "length (show_nat (c + 1))"
  have one: "(f ^^ 1) 0 = min (c + 1) M" by (simp add: f show_nat.simps [of 0])
  have top: "f M = M" if "n \<le> M" "M \<le> c + ?D n" for n
    using that length_show_nat_mono [OF that(1)] by (simp add: f)
  consider "M \<le> c + 1" | "c + 1 < M" "M \<le> c + ?d" | "c + ?d < M" "?D (c + ?d) = ?d" | "c + ?d < M" "?D (c + ?d) \<noteq> ?d" 
    by linarith
  then show ?thesis
  proof cases
    case 1
    then have "(f ^^ 1) 0 = M" "f M = M" using one M top [of 0] by (auto simp: show_nat.simps [of 0])
    then show ?thesis by (metis one_le_numeral)
  next
    case 2
    then have "(f ^^ 2) 0 = M" using one by (simp add: numeral_2_eq_2 f)
    moreover have "f M = M" using top [of "c + 1"] 2 by simp
    ultimately show ?thesis by (intro exI [of _ 2]) simp
  next
    case 3
    have "?d \<ge> 1" by (simp add: Suc_leI)
    with 3 have "(f ^^ 2) 0 = c + ?d" using one by (simp add: numeral_2_eq_2 f)
    with 3 show ?thesis by (intro exI [of _ 2]) (simp add: f)
  next
    case 4
    have d: "?d \<ge> 1" by (simp add: Suc_leI)
    with 4 have two: "(f ^^ 2) 0 = c + ?d" using one by (simp add: numeral_2_eq_2 f)
    have "?d \<le> ?D (c + ?d)" "?D (c + ?d) \<le> ?d + 1"
      using length_show_nat_mono [of "c + 1" "c + ?d"] show_nat_growth [OF refl, of "?d - 1" c] d by auto
    with 4 have grown: "?D (c + ?d) = ?d + 1" by simp
    have "(f ^^ 3) 0 = f ((f ^^ 2) 0)" by (simp add: numeral_3_eq_3 numeral_2_eq_2)
    then have three: "(f ^^ 3) 0 = min (c + ?d + 1) M" unfolding two f grown by simp
    have "?D (c + ?d + 1) = ?d + 1"
      using length_show_nat_mono [of "c + ?d" "c + ?d + 1"] show_nat_growth [OF refl, of ?d c] grown by simp
    then have "f (c + ?d + 1) = min (c + ?d + 1) M" by (simp add: f)
    moreover have "f M = M" if "M \<le> c + ?d + 1" using top [of "c + ?d"] 4(1) that grown by simp
    ultimately show ?thesis by (intro exI [of _ 3]) (simp add: three min_def)
  qed
qed

section \<open>The stated length of a page\<close>

text \<open>
  What the byte accounting relies on in the JSON printer: changing a number member of an object changes the
  printed length by the number of its decimal digits only.
\<close>

definition prints_decimals :: "externals \<Rightarrow> bool" where
  "prints_decimals E \<longleftrightarrow> (\<forall>pre k post. \<exists>c. \<forall>n.
     length (json_to_string E (Object (pre @ (k, Number (PosInt n)) # post))) = c + length (show_nat n))"

lemma insort_key_uniform: "\<exists>pre post. \<forall>v. insort_key fst (k, v) zs = pre @ (k, v) # post"
proof (induction zs)
  case Nil
  show ?case by (intro exI [of _ "[]"]) simp
next
  case (Cons z zs)
  then obtain pre post where IH: "\<forall>v. insort_key fst (k, v) zs = pre @ (k, v) # post" by blast
  show ?case
  proof (cases "k \<le> fst z")
    case True
    then show ?thesis by (intro exI [of _ "[]"] exI [of _ "z # zs"]) simp
  next
    case False
    with IH show ?thesis by (intro exI [of _ "z # pre"] exI [of _ post]) simp
  qed
qed

lemma insort_key_around: "\<exists>pre' post'. \<forall>v. insort_key fst x (pre @ (k, v) # post) = pre' @ (k, v) # post'"
proof (induction pre)
  case Nil
  show ?case
  proof (cases "fst x \<le> k")
    case True
    then show ?thesis by (intro exI [of _ "[x]"] exI [of _ post]) simp
  next
    case False
    then show ?thesis by (intro exI [of _ "[]"] exI [of _ "insort_key fst x post"]) simp
  qed
next
  case (Cons z pre)
  then obtain pre' post' where IH: "\<forall>v. insort_key fst x (pre @ (k, v) # post) = pre' @ (k, v) # post'" by blast
  show ?case
  proof (cases "fst x \<le> fst z")
    case True
    then show ?thesis by (intro exI [of _ "x # z # pre"] exI [of _ post]) simp
  next
    case False
    with IH show ?thesis by (intro exI [of _ "z # pre'"] exI [of _ post']) simp
  qed
qed

lemma sort_key_uniform: "\<exists>pre post. \<forall>v. sort_key fst (xs @ (k, v) # ys) = pre @ (k, v) # post"
proof (induction xs)
  case Nil
  show ?case using insort_key_uniform [of k "sort_key fst ys"] by simp
next
  case (Cons x xs)
  then obtain pre post where IH: "\<forall>v. sort_key fst (xs @ (k, v) # ys) = pre @ (k, v) # post" by blast
  from insort_key_around [of x pre k post] IH show ?case by simp
qed

lemma page_len_uniform:
  assumes "prints_decimals E" and "items_value item_value (page_items page) = Inr values"
  shows "\<exists>c. \<forall>n. serialized_page_len E item_value (page\<lparr>page_serialized_output_bytes := n\<rparr>) = Inr (c + length (show_nat n))"
proof -
  let ?c = "\<lambda>(k, v). (k :: string, canonical_value v)"
  obtain pre post where sorted: "\<forall>v. sort_key fst (map ?c (page_head page) @ (''serialized_output_bytes'', v) # map ?c (page_tail page values))
      = pre @ (''serialized_output_bytes'', v) # post" using sort_key_uniform by blast
  from assms(1) obtain c where c: "\<forall>n. length (json_to_string E (Object (pre @ (''serialized_output_bytes'', Number (PosInt n)) # post)))
      = c + length (show_nat n)" unfolding prints_decimals_def by blast
  have head: "page_head (page\<lparr>page_serialized_output_bytes := n\<rparr>) = page_head page"
    "page_tail (page\<lparr>page_serialized_output_bytes := n\<rparr>) values = page_tail page values" for n
    by (simp_all add: page_head_def page_tail_def)
  have "serialized_page_len E item_value (page\<lparr>page_serialized_output_bytes := n\<rparr>) = Inr (c + length (show_nat n))" for n
    using assms(2) sorted c by (simp add: serialized_page_len_def page_value_def head canonical_json_def)
  then show ?thesis by blast
qed

lemma stabilize_loop_finds:
  assumes len: "\<And>n. serialized_page_len E item_value (page\<lparr>page_serialized_output_bytes := n\<rparr>) = Inr (g n)"
    and fix_at: "to_u64 (g (((\<lambda>n. to_u64 (g n)) ^^ k) n)) = ((\<lambda>n. to_u64 (g n)) ^^ k) n" and rounds: "k < rounds"
  shows "\<exists>b. stabilize_loop E item_value rounds (page\<lparr>page_serialized_output_bytes := n\<rparr>) = Inr (page\<lparr>page_serialized_output_bytes := b\<rparr>) \<and>
    to_u64 (g b) = b"
  using fix_at rounds
proof (induction k arbitrary: n rounds)
  case 0
  then obtain r where "rounds = Suc r" by (cases rounds) auto
  with 0 len [of n] show ?case by (intro exI [of _ n]) simp
next
  case (Suc k)
  then obtain r where r: "rounds = Suc r" "k < r" by (cases rounds) auto
  from Suc.IH [of "to_u64 (g n)" r] Suc.prems(1) [unfolded funpow_Suc_right comp_apply] r(2)
  obtain b where "stabilize_loop E item_value r (page\<lparr>page_serialized_output_bytes := to_u64 (g n)\<rparr>) = Inr (page\<lparr>page_serialized_output_bytes := b\<rparr>)"
    "to_u64 (g b) = b" by blast
  with r(1) len [of n] show ?case by (cases "n = to_u64 (g n)") auto
qed

lemma stabilize_settles:
  assumes E: "prints_decimals E" and vals: "items_value item_value (page_items page) = Inr values"
    and zero: "page_serialized_output_bytes page = 0"
  shows "\<exists>b len. stabilize_serialized_output_bytes E item_value page = Inr (page\<lparr>page_serialized_output_bytes := b\<rparr>) \<and>
    serialized_page_len E item_value (page\<lparr>page_serialized_output_bytes := b\<rparr>) = Inr len \<and> b = to_u64 len"
proof -
  obtain c where len: "\<forall>n. serialized_page_len E item_value (page\<lparr>page_serialized_output_bytes := n\<rparr>) = Inr (c + length (show_nat n))"
    using page_len_uniform [OF E vals] by blast
  have "\<exists>k\<le>3. to_u64 (c + length (show_nat (((\<lambda>n. to_u64 (c + length (show_nat n))) ^^ k) 0))) =
      ((\<lambda>n. to_u64 (c + length (show_nat n))) ^^ k) 0"
    by (rule byte_count_settles [where M = u64_max]) (simp_all add: to_u64_def u64_max_def)
  then obtain k where k: "k \<le> 3" "to_u64 (c + length (show_nat (((\<lambda>n. to_u64 (c + length (show_nat n))) ^^ k) 0))) =
      ((\<lambda>n. to_u64 (c + length (show_nat n))) ^^ k) 0" by blast
  then have "k < 8" by simp
  from stabilize_loop_finds [OF _ k(2) this, of E item_value page] len
  obtain b where "stabilize_loop E item_value 8 (page\<lparr>page_serialized_output_bytes := 0\<rparr>) = Inr (page\<lparr>page_serialized_output_bytes := b\<rparr>)"
    "to_u64 (c + length (show_nat b)) = b" by blast
  moreover have "page\<lparr>page_serialized_output_bytes := 0\<rparr> = page" using zero by (cases page) simp
  ultimately show ?thesis using len by (auto simp: stabilize_serialized_output_bytes_def)
qed

lemma stabilize_sound:
  assumes "stabilize_loop E item_value rounds page = Inr page'"
  shows "\<exists>b. page' = page\<lparr>page_serialized_output_bytes := b\<rparr>"
    and "\<exists>len. serialized_page_len E item_value page' = Inr len \<and> page_serialized_output_bytes page' = to_u64 len"
proof -
  have "(\<exists>b. page' = page\<lparr>page_serialized_output_bytes := b\<rparr>) \<and>
    (\<exists>len. serialized_page_len E item_value page' = Inr len \<and> page_serialized_output_bytes page' = to_u64 len)"
    using assms
  proof (induction rounds arbitrary: page)
    case (Suc rounds)
    from Suc.prems obtain n where n: "serialized_page_len E item_value page = Inr n" by (auto simp: bind_simps)
    show ?case
    proof (cases "page_serialized_output_bytes page = to_u64 n")
      case True
      with Suc.prems n have "page' = page" by simp
      then have "page' = page\<lparr>page_serialized_output_bytes := page_serialized_output_bytes page\<rparr>" by simp
      with True n \<open>page' = page\<close> show ?thesis by blast
    next
      case False
      with Suc.prems n Suc.IH [of "page\<lparr>page_serialized_output_bytes := to_u64 n\<rparr>"] show ?thesis by auto
    qed
  qed simp
  then show "\<exists>b. page' = page\<lparr>page_serialized_output_bytes := b\<rparr>"
    "\<exists>len. serialized_page_len E item_value page' = Inr len \<and> page_serialized_output_bytes page' = to_u64 len" by blast+
qed

text \<open>
  C28: The byte accounting of a page converges: for every page whose items serialize, the loop of eight rounds
  returns, and the page it returns differs only in its stated length, which is the length of the canonical
  JSON text of that very page, its own digits included. The error for accounting that does not converge is
  never raised.
\<close>

theorem byte_accounting_converges:
  assumes "prints_decimals E" and "items_value item_value (page_items page) = Inr values"
    and "page_serialized_output_bytes page = 0"
  shows "\<exists>b len. stabilize_serialized_output_bytes E item_value page = Inr (page\<lparr>page_serialized_output_bytes := b\<rparr>) \<and>
    serialized_page_len E item_value (page\<lparr>page_serialized_output_bytes := b\<rparr>) = Inr len \<and> b = to_u64 len"
  using assms by (rule stabilize_settles)

section \<open>Choosing how many items fit\<close>

definition page_fits :: "(nat \<Rightarrow> query_error + 'a InteractiveQueryPage) \<Rightarrow> nat \<Rightarrow> nat \<Rightarrow> bool" where
  "page_fits page_of max_bytes n \<longleftrightarrow> (\<exists>p. page_of n = Inr p \<and> page_serialized_output_bytes p \<le> max_bytes)"

definition page_exceeds :: "(nat \<Rightarrow> query_error + 'a InteractiveQueryPage) \<Rightarrow> nat \<Rightarrow> nat \<Rightarrow> bool" where
  "page_exceeds page_of max_bytes n \<longleftrightarrow> (\<exists>p. page_of n = Inr p \<and> max_bytes < page_serialized_output_bytes p)"

lemma search_count_step:
  assumes "low < high" and "k = low + (high - low + 1) div 2"
  shows "search_count page_of max_bytes low high =
    sum_bind (page_of k) (\<lambda>page. if page_serialized_output_bytes page \<le> max_bytes
      then search_count page_of max_bytes k high else search_count page_of max_bytes low (k - 1))"
  unfolding assms(2) by (subst search_count.simps) (simp only: assms(1) if_True Let_def)

lemma search_count_sound:
  assumes "search_count page_of max_bytes low high = Inr n" and "low \<le> high"
  shows "low \<le> n \<and> n \<le> high \<and> (n = low \<or> page_fits page_of max_bytes n) \<and> (n = high \<or> page_exceeds page_of max_bytes (Suc n))"
  using assms
proof (induction page_of max_bytes low high arbitrary: n rule: search_count.induct)
  case (1 page_of max_bytes low high)
  show ?case
  proof (cases "low < high")
    case False
    with 1(3,4) show ?thesis by (subst (asm) search_count.simps) simp
  next
    case True
    define k where "k = low + (high - low + 1) div 2"
    have k: "low < k" "k \<le> high" using True by (auto simp: k_def)
    have run: "sum_bind (page_of k) (\<lambda>page. if page_serialized_output_bytes page \<le> max_bytes
        then search_count page_of max_bytes k high else search_count page_of max_bytes low (k - 1)) = Inr n"
      using 1(3) unfolding search_count_step [OF True k_def] .
    then obtain p where p: "page_of k = Inr p" by (auto simp: bind_simps)
    show ?thesis
    proof (cases "page_serialized_output_bytes p \<le> max_bytes")
      case fits: True
      with run p have "search_count page_of max_bytes k high = Inr n" by simp
      from 1(1) [OF True k_def p fits this k(2)] k fits p show ?thesis
        by (auto simp: page_fits_def)
    next
      case False
      with run p have "search_count page_of max_bytes low (k - 1) = Inr n" by simp
      moreover have "low \<le> k - 1" using k by simp
      ultimately have "low \<le> n \<and> n \<le> k - 1 \<and> (n = low \<or> page_fits page_of max_bytes n) \<and>
          (n = k - 1 \<or> page_exceeds page_of max_bytes (Suc n))" by (rule 1(2) [OF True k_def p False])
      moreover have "page_exceeds page_of max_bytes k" using False p by (auto simp: page_exceeds_def)
      ultimately show ?thesis using k by auto
    qed
  qed
qed

lemma search_count_total:
  assumes "\<And>n. n \<le> high \<Longrightarrow> \<exists>p. page_of n = Inr p"
  shows "\<exists>n. search_count page_of max_bytes low high = Inr n"
  using assms
proof (induction page_of max_bytes low high rule: search_count.induct)
  case (1 page_of max_bytes low high)
  show ?case
  proof (cases "low < high")
    case False
    then show ?thesis by (subst search_count.simps) simp
  next
    case True
    define k where "k = low + (high - low + 1) div 2"
    have "k \<le> high" using True by (auto simp: k_def)
    with 1(3) obtain p where p: "page_of k = Inr p" by blast
    have "\<exists>n. search_count page_of max_bytes k high = Inr n" if "page_serialized_output_bytes p \<le> max_bytes"
      using 1(1) [OF True k_def p that] 1(3) by blast
    moreover have "\<exists>n. search_count page_of max_bytes low (k - 1) = Inr n" if "\<not> page_serialized_output_bytes p \<le> max_bytes"
      using 1(2) [OF True k_def p that] 1(3) \<open>k \<le> high\<close> by (meson diff_le_self le_trans)
    ultimately show ?thesis using p by (simp add: search_count_step [OF True k_def])
  qed
qed

section \<open>Pages\<close>

text \<open>The offset a request asks for.\<close>

definition asks_for :: "externals \<Rightarrow> InteractiveQueryPageRequest \<Rightarrow> nat \<Rightarrow> bool" where
  "asks_for E request offset \<longleftrightarrow> (case req_cursor request of
     None \<Rightarrow> offset = 0
   | Some cursor \<Rightarrow> decode_interactive_query_cursor E cursor (context_digest_of E request) = Inr offset)"

text \<open>Everything a returned page promises, for the page at \<open>offset\<close>.\<close>

definition page_promise ::
  "externals \<Rightarrow> ('a \<Rightarrow> query_error + json) \<Rightarrow> 'a list \<Rightarrow> InteractiveQuerySummary \<Rightarrow> InteractiveQueryPageRequest \<Rightarrow> nat
     \<Rightarrow> 'a InteractiveQueryPage \<Rightarrow> bool" where
  "page_promise E item_value items summary request offset page \<longleftrightarrow>
     (let n = length (page_items page) in
      page_items page = take n (drop offset items) \<and> offset + n \<le> length items \<and> n \<le> req_max_items request \<and>
      page_returned_items page = to_u64 n \<and> page_summary page = summary \<and>
      page_serialized_output_bytes page \<le> req_max_bytes request \<and>
      (\<exists>len. serialized_page_len E item_value page = Inr len \<and> page_serialized_output_bytes page = to_u64 len) \<and>
      (page_complete page \<longleftrightarrow> req_traversal_complete request \<and> offset + n = length items) \<and>
      page_next_cursor page = (if 0 < n \<and> offset + n < length items
        then Some (encode_interactive_query_cursor E (context_digest_of E request) (offset + n)) else None) \<and>
      (n < req_max_items request \<and> offset + n < length items \<longrightarrow>
        page_exceeds (\<lambda>k. sized_page E item_value items summary request (context_digest_of E request) offset k False)
          (req_max_bytes request) (Suc n)))"

lemma sized_page_facts:
  assumes "sized_page E item_value items summary request d offset n exceeds = Inr page"
  shows "\<exists>b. page = (build_interactive_query_page E items summary request d offset n exceeds)\<lparr>page_serialized_output_bytes := b\<rparr>"
    and "\<exists>len. serialized_page_len E item_value page = Inr len \<and> page_serialized_output_bytes page = to_u64 len"
  using stabilize_sound [of E item_value 8] assms
  by (auto simp: sized_page_def stabilize_serialized_output_bytes_def)

lemma paginate_runs:
  assumes run: "paginate_interactive_query E item_value items summary request = Inr page"
  obtains offset n where "asks_for E request offset" and "offset \<le> length items"
    and "1 \<le> req_max_items request" and "n \<le> min (req_max_items request) (length items - offset)"
    and "sized_page E item_value items summary request (context_digest_of E request) offset n (n = 0 \<and> offset < length items) = Inr page"
    and "page_serialized_output_bytes page \<le> req_max_bytes request"
    and "n < min (req_max_items request) (length items - offset) \<longrightarrow>
      page_exceeds (\<lambda>k. sized_page E item_value items summary request (context_digest_of E request) offset k False)
        (req_max_bytes request) (Suc n)"
proof -
  let ?d = "context_digest_of E request"
  let ?sized = "sized_page E item_value items summary request ?d"
  have items: "1 \<le> req_max_items request"
    using run by (auto simp: paginate_interactive_query_def validate_interactive_query_bounds_def bind_simps split: if_splits)
  obtain offset where offset: "asks_for E request offset" "offset \<le> length items"
    and rest: "sum_bind (?sized offset (min (req_max_items request) (length items - offset)) False) (\<lambda>maximum_page.
       sum_bind (if page_serialized_output_bytes maximum_page \<le> req_max_bytes request
           then Inr (min (req_max_items request) (length items - offset))
           else search_count (\<lambda>k. ?sized offset k False) (req_max_bytes request) 0
             (min (req_max_items request) (length items - offset) - 1)) (\<lambda>low.
       sum_bind (?sized offset low (low = 0 \<and> offset < length items)) (\<lambda>page.
       if page_serialized_output_bytes page > req_max_bytes request
       then Inl (Message ''interactive query max-bytes is too small for the bounded summary metadata; increase --max-bytes'')
       else Inr page))) = Inr page"
    using run by (auto simp: paginate_interactive_query_def bind_simps Let_def asks_for_def split: if_splits option.splits)
  let ?max = "min (req_max_items request) (length items - offset)"
  from rest obtain m low page' where m: "?sized offset ?max False = Inr m"
    and low: "(if page_serialized_output_bytes m \<le> req_max_bytes request then Inr ?max
       else search_count (\<lambda>k. ?sized offset k False) (req_max_bytes request) 0 (?max - 1)) = Inr low"
    and page': "?sized offset low (low = 0 \<and> offset < length items) = Inr page'"
    and checked: "(if page_serialized_output_bytes page' > req_max_bytes request
       then Inl (Message ''interactive query max-bytes is too small for the bounded summary metadata; increase --max-bytes'')
       else Inr page') = Inr page"
    unfolding sum_bind_Inr_iff by blast
  from checked have "page' = page" and fits: "page_serialized_output_bytes page \<le> req_max_bytes request"
    by (auto split: if_splits)
  with page' have page: "?sized offset low (low = 0 \<and> offset < length items) = Inr page" by simp
  have "low \<le> ?max \<and> (low < ?max \<longrightarrow> page_exceeds (\<lambda>k. ?sized offset k False) (req_max_bytes request) (Suc low))"
  proof (cases "page_serialized_output_bytes m \<le> req_max_bytes request")
    case True
    with low show ?thesis by simp
  next
    case False
    with low have "search_count (\<lambda>k. ?sized offset k False) (req_max_bytes request) 0 (?max - 1) = Inr low" by simp
    from search_count_sound [OF this] have "low \<le> ?max - 1"
      "low = ?max - 1 \<or> page_exceeds (\<lambda>k. ?sized offset k False) (req_max_bytes request) (Suc low)" by simp_all
    moreover have "page_exceeds (\<lambda>k. ?sized offset k False) (req_max_bytes request) ?max"
      using False m by (auto simp: page_exceeds_def)
    ultimately show ?thesis by (cases "?max = 0") auto
  qed
  then show thesis using that [OF offset items _ page fits] by simp
qed

lemma paginate_promise:
  assumes run: "paginate_interactive_query E item_value items summary request = Inr page"
  shows "\<exists>offset. asks_for E request offset \<and> page_promise E item_value items summary request offset page"
proof -
  obtain offset n where o: "asks_for E request offset" "offset \<le> length items" "1 \<le> req_max_items request"
    and n: "n \<le> min (req_max_items request) (length items - offset)"
    and sized: "sized_page E item_value items summary request (context_digest_of E request) offset n (n = 0 \<and> offset < length items) = Inr page"
    and fits: "page_serialized_output_bytes page \<le> req_max_bytes request"
    and max: "n < min (req_max_items request) (length items - offset) \<longrightarrow>
      page_exceeds (\<lambda>k. sized_page E item_value items summary request (context_digest_of E request) offset k False)
        (req_max_bytes request) (Suc n)"
    by (rule paginate_runs [OF run])
  note facts = sized_page_facts [OF sized]
  obtain b where b: "page = (build_interactive_query_page E items summary request (context_digest_of E request) offset n
      (n = 0 \<and> offset < length items))\<lparr>page_serialized_output_bytes := b\<rparr>" using facts(1) by blast
  have parts: "page_items page = take n (drop offset items)" "page_returned_items page = to_u64 n" "page_summary page = summary"
    "page_complete page = (req_traversal_complete request \<and> \<not> offset + n < length items)"
    "page_next_cursor page = (if offset + n < length items \<and> \<not> (n = 0 \<and> offset < length items)
       then Some (encode_interactive_query_cursor E (context_digest_of E request) (offset + n)) else None)"
    unfolding b by (simp_all add: build_interactive_query_page_def Let_def)
  have len: "length (page_items page) = n" using n by (simp add: parts(1))
  have cursor: "page_next_cursor page = (if 0 < n \<and> offset + n < length items
       then Some (encode_interactive_query_cursor E (context_digest_of E request) (offset + n)) else None)"
    unfolding parts(5) by auto
  have "page_promise E item_value items summary request offset page"
    unfolding page_promise_def Let_def len
  proof (intro conjI)
    show "n < req_max_items request \<and> offset + n < length items \<longrightarrow>
        page_exceeds (\<lambda>k. sized_page E item_value items summary request (context_digest_of E request) offset k False)
          (req_max_bytes request) (Suc n)" using max by (simp add: less_diff_conv add.commute)
    show "page_complete page = (req_traversal_complete request \<and> offset + n = length items)"
      using n o(2) by (auto simp: parts(4))
  qed (use n o(2) fits facts(2) cursor parts in auto)
  with o(1) show ?thesis by blast
qed

text \<open>
  C26: A returned page keeps every promise of the contract: its items are the slice of the canonical result that
  starts at the offset the request asks for; they are at most as many as requested; the page states the length
  of its own serialization, and that length is within the byte budget; it is complete exactly when traversal was
  complete and nothing follows; it has a cursor exactly when it has items and something follows, and the cursor
  is the one for the next item; and when it could have had one item more, the page with that item would exceed
  the byte budget.
\<close>

theorem paginate_page:
  assumes "paginate_interactive_query E item_value items summary request = Inr page"
  shows "\<exists>offset. asks_for E request offset \<and> page_promise E item_value items summary request offset page"
  using assms by (rule paginate_promise)

section \<open>Following the cursors\<close>

definition same_query :: "InteractiveQueryPageRequest \<Rightarrow> InteractiveQueryPageRequest \<Rightarrow> bool" where
  "same_query r r' \<longleftrightarrow> req_command r = req_command r' \<and> req_scan_id r = req_scan_id r' \<and>
     req_snapshot_id r = req_snapshot_id r' \<and> req_context r = req_context r'"

text \<open>
  A client that requests a page, follows its cursor with a request for the same query, possibly with other
  budgets, and stops at a page without a cursor.
\<close>

inductive paging ::
  "externals \<Rightarrow> ('a \<Rightarrow> query_error + json) \<Rightarrow> 'a list \<Rightarrow> InteractiveQuerySummary \<Rightarrow> InteractiveQueryPageRequest
     \<Rightarrow> 'a InteractiveQueryPage list \<Rightarrow> bool" for E item_value items summary where
  stop: "paginate_interactive_query E item_value items summary r = Inr p \<Longrightarrow> page_next_cursor p = None \<Longrightarrow>
    paging E item_value items summary r [p]"
| follow: "paginate_interactive_query E item_value items summary r = Inr p \<Longrightarrow> page_next_cursor p = Some c \<Longrightarrow>
    same_query r r' \<Longrightarrow> req_cursor r' = Some c \<Longrightarrow> paging E item_value items summary r' ps \<Longrightarrow>
    paging E item_value items summary r (p # ps)"

lemma paging_collects:
  assumes "paging E item_value items summary r ps" and hex: "digest_is_hex E" and small: "length items \<le> u64_max"
    and "asks_for E r offset"
  shows "\<exists>n. offset + n \<le> length items \<and> concat (map page_items ps) = take n (drop offset items) \<and>
    length ps \<le> n + 1 \<and> ps \<noteq> [] \<and> (offset + n = length items \<or> page_items (last ps) = []) \<and>
    (page_complete (last ps) \<longrightarrow> offset + n = length items)"
  using assms(1,4)
proof (induction arbitrary: offset rule: paging.induct)
  case (stop r p)
  from paginate_promise [OF stop(1)] obtain o' where o': "asks_for E r o'" "page_promise E item_value items summary r o' p" by blast
  moreover have "o' = offset" using o'(1) stop(3) by (auto simp: asks_for_def split: option.splits)
  ultimately have p: "page_promise E item_value items summary r offset p" by simp
  let ?n = "length (page_items p)"
  have "page_items p = take ?n (drop offset items)" "offset + ?n \<le> length items" "\<not> (0 < ?n \<and> offset + ?n < length items)"
    "page_complete p \<longrightarrow> offset + ?n = length items"
    using p stop(2) by (auto simp: page_promise_def Let_def split: if_splits)
  then show ?case by (intro exI [of _ ?n]) auto
next
  case (follow r p c r' ps)
  from paginate_promise [OF follow(1)] obtain o' where o': "asks_for E r o'" "page_promise E item_value items summary r o' p" by blast
  moreover have "o' = offset" using o'(1) follow.prems by (auto simp: asks_for_def split: option.splits)
  ultimately have p: "page_promise E item_value items summary r offset p" by simp
  let ?n = "length (page_items p)"
  have n: "page_items p = take ?n (drop offset items)" "0 < ?n" "offset + ?n < length items"
    "c = encode_interactive_query_cursor E (context_digest_of E r) (offset + ?n)"
    using p follow(2) by (auto simp: page_promise_def Let_def split: if_splits)
  have "context_digest_of E r' = context_digest_of E r"
    using follow(3) by (simp add: same_query_def context_digest_of_def)
  then have "asks_for E r' (offset + ?n)"
    using follow(4) n(3,4) small by (simp add: asks_for_def decode_cursor_iff [OF hex])
  from follow.IH [OF this] obtain m where m: "offset + ?n + m \<le> length items"
    "concat (map page_items ps) = take m (drop (offset + ?n) items)" "length ps \<le> m + 1" "ps \<noteq> []"
    "offset + ?n + m = length items \<or> page_items (last ps) = []" "page_complete (last ps) \<longrightarrow> offset + ?n + m = length items" by blast
  have "page_items p @ concat (map page_items ps) = take (?n + m) (drop offset items)"
    using n(1) m(2) by (metis take_add drop_drop add.commute)
  moreover have "length (p # ps) \<le> ?n + m + 1" using m(3) n(2) by (cases "page_items p") auto
  ultimately show ?case using m by (intro exI [of _ "?n + m"]) (simp add: add.assoc)
qed

text \<open>
  C5: Paging is lossless. A client that starts without a cursor and follows the cursors of the pages, with
  whatever budgets on each request, reads a prefix of the canonical result, without a gap or a repetition; it
  makes at most one request more than there are items read; it has read the whole result unless the last page
  is empty because the next item exceeds the byte budget; and when the last page says it is complete, the whole
  result was read.
\<close>

theorem paging_lossless:
  assumes "paging E item_value items summary r ps" and "digest_is_hex E" and "length items \<le> u64_max" and "req_cursor r = None"
  shows "\<exists>n\<le>length items. concat (map page_items ps) = take n items \<and> length ps \<le> n + 1 \<and>
    (n = length items \<or> page_items (last ps) = []) \<and> (page_complete (last ps) \<longrightarrow> n = length items)"
  using paging_collects [OF assms(1-3), of 0] assms(4) by (simp add: asks_for_def) blast

section \<open>Requests that are answered\<close>

lemma items_value_total:
  assumes "\<And>x. x \<in> set xs \<Longrightarrow> \<exists>v. item_value x = Inr v"
  shows "\<exists>vs. items_value item_value xs = Inr vs"
proof -
  have "\<exists>vs. fold_m (\<lambda>item vs. sum_bind (item_value item) (\<lambda>v. Inr (vs @ [v]))) xs acc = Inr vs" for acc
    using assms
  proof (induction xs arbitrary: acc)
    case (Cons x xs)
    then obtain v where "item_value x = Inr v" by auto
    with Cons show ?case by simp
  qed simp
  then show ?thesis by (simp add: items_value_def)
qed

lemma sized_page_total:
  assumes "prints_decimals E" and "\<And>x. x \<in> set items \<Longrightarrow> \<exists>v. item_value x = Inr v"
  shows "\<exists>p. sized_page E item_value items summary request d offset n exceeds = Inr p"
proof -
  let ?page = "build_interactive_query_page E items summary request d offset n exceeds"
  have "set (page_items ?page) \<subseteq> set items"
    by (auto simp: build_interactive_query_page_def Let_def dest!: in_set_takeD in_set_dropD)
  then obtain vs where "items_value item_value (page_items ?page) = Inr vs"
    using items_value_total [of "page_items ?page" item_value] assms(2) by blast
  from stabilize_settles [OF assms(1) this] show ?thesis
    by (auto simp: sized_page_def build_interactive_query_page_def Let_def)
qed

lemma paginate_total:
  assumes E: "prints_decimals E" and vals: "\<And>x. x \<in> set items \<Longrightarrow> \<exists>v. item_value x = Inr v"
    and bounds: "validate_interactive_query_bounds (req_max_items request) (req_max_bytes request) None = Inr ()"
    and offset: "asks_for E request offset" "offset \<le> length items"
    and fits: "page_fits (\<lambda>n. sized_page E item_value items summary request (context_digest_of E request) offset n (offset < length items))
      (req_max_bytes request) 0"
  shows "\<exists>page. paginate_interactive_query E item_value items summary request = Inr page"
proof -
  let ?sized = "sized_page E item_value items summary request (context_digest_of E request) offset"
  let ?max = "min (req_max_items request) (length items - offset)" and ?B = "req_max_bytes request"
  have total: "\<exists>p. ?sized n exceeds = Inr p" for n exceeds using E vals by (rule sized_page_total)
  have items: "1 \<le> req_max_items request"
    using bounds by (auto simp: validate_interactive_query_bounds_def split: if_splits)
  obtain m where m: "?sized ?max False = Inr m" using total by blast
  define low_of where "low_of = (if page_serialized_output_bytes m \<le> ?B then Inr ?max
    else search_count (\<lambda>k. ?sized k False) ?B 0 (?max - 1))"
  have "\<exists>low. low_of = Inr low"
    using search_count_total [of "?max - 1" "\<lambda>k. ?sized k False" ?B 0] total by (simp add: low_of_def)
  then obtain low where low: "low_of = Inr low" by blast
  have "page_fits (\<lambda>n. ?sized n (n = 0 \<and> offset < length items)) ?B low"
  proof (cases "low = 0")
    case True
    with fits show ?thesis by (simp add: page_fits_def)
  next
    case False
    have "page_fits (\<lambda>k. ?sized k False) ?B low"
    proof (cases "page_serialized_output_bytes m \<le> ?B")
      case True
      with low m show ?thesis by (auto simp: low_of_def page_fits_def)
    next
      case big: False
      with low search_count_sound [of "\<lambda>k. ?sized k False" ?B 0 "?max - 1" low] False show ?thesis by (simp add: low_of_def)
    qed
    with False show ?thesis by (simp add: page_fits_def)
  qed
  then obtain p where p: "?sized low (low = 0 \<and> offset < length items) = Inr p" "page_serialized_output_bytes p \<le> ?B"
    by (auto simp: page_fits_def)
  have "(case req_cursor request of None \<Rightarrow> Inr 0
      | Some cursor \<Rightarrow> decode_interactive_query_cursor E cursor (context_digest_of E request)) = Inr offset"
    using offset(1) by (auto simp: asks_for_def split: option.splits)
  then show ?thesis
    using bounds offset(2) m low p unfolding low_of_def by (simp add: paginate_interactive_query_def Let_def)
qed

lemma sized_page_cursor [simp]:
  "sized_page E item_value items summary (request\<lparr>req_cursor := c\<rparr>) d offset n exceeds =
     sized_page E item_value items summary request d offset n exceeds"
  by (simp add: sized_page_def build_interactive_query_page_def page_diagnostics_of_def Let_def)

lemma context_digest_cursor [simp]: "context_digest_of E (request\<lparr>req_cursor := c\<rparr>) = context_digest_of E request"
  by (simp add: context_digest_of_def)

text \<open>The page without items fits at every offset.\<close>

definition metadata_fits ::
  "externals \<Rightarrow> ('a \<Rightarrow> query_error + json) \<Rightarrow> 'a list \<Rightarrow> InteractiveQuerySummary \<Rightarrow> InteractiveQueryPageRequest \<Rightarrow> bool" where
  "metadata_fits E item_value items summary request \<longleftrightarrow>
     (\<forall>offset\<le>length items.
        page_fits (\<lambda>n. sized_page E item_value items summary request (context_digest_of E request) offset n (offset < length items))
          (req_max_bytes request) 0)"

lemma paging_exists:
  assumes E: "prints_decimals E" "digest_is_hex E" and vals: "\<And>x. x \<in> set items \<Longrightarrow> \<exists>v. item_value x = Inr v"
    and bounds: "validate_interactive_query_bounds (req_max_items request) (req_max_bytes request) None = Inr ()"
    and small: "length items \<le> u64_max" and fits: "metadata_fits E item_value items summary request"
    and offset: "asks_for E (request\<lparr>req_cursor := c\<rparr>) offset" "offset \<le> length items"
  shows "\<exists>ps. paging E item_value items summary (request\<lparr>req_cursor := c\<rparr>) ps"
  using offset
proof (induction "length items - offset" arbitrary: offset c rule: less_induct)
  case less
  let ?r = "request\<lparr>req_cursor := c\<rparr>"
  have "\<exists>page. paginate_interactive_query E item_value items summary ?r = Inr page"
    using E(1) vals bounds less.prems fits by (intro paginate_total [of E items item_value ?r offset]) (simp_all add: metadata_fits_def)
  then obtain p where p: "paginate_interactive_query E item_value items summary ?r = Inr p" by blast
  show ?case
  proof (cases "page_next_cursor p")
    case None
    with p show ?thesis by (blast intro: paging.stop)
  next
    case (Some c')
    from paginate_promise [OF p] obtain o' where o': "asks_for E ?r o'" "page_promise E item_value items summary ?r o' p" by blast
    moreover have "o' = offset" using o'(1) less.prems(1) by (auto simp: asks_for_def split: option.splits)
    ultimately have "page_promise E item_value items summary ?r offset p" by simp
    then obtain n where n: "0 < n" "offset + n < length items"
      "c' = encode_interactive_query_cursor E (context_digest_of E request) (offset + n)"
      using Some by (auto simp: page_promise_def Let_def split: if_splits)
    then have "asks_for E (request\<lparr>req_cursor := Some c'\<rparr>) (offset + n)"
      using small by (simp add: asks_for_def decode_cursor_iff [OF E(2)])
    moreover have "length items - (offset + n) < length items - offset" using n(1,2) by linarith
    ultimately obtain ps where "paging E item_value items summary (request\<lparr>req_cursor := Some c'\<rparr>) ps"
      using less.hyps [of "offset + n" "Some c'"] n(2) by auto
    then have "paging E item_value items summary ?r (p # ps)"
      by (intro paging.follow [OF p Some, of "request\<lparr>req_cursor := Some c'\<rparr>"]) (simp_all add: same_query_def)
    then show ?thesis by blast
  qed
qed

text \<open>
  C29: Paging answers and ends. For items that serialize and accepted bounds, when the page without items fits the
  byte budget, every request without a cursor is answered, and so is every request that follows: the client
  reaches a page without a cursor.
\<close>

theorem paging_completes:
  assumes "prints_decimals E" and "digest_is_hex E" and "\<And>x. x \<in> set items \<Longrightarrow> \<exists>v. item_value x = Inr v"
    and "validate_interactive_query_bounds (req_max_items request) (req_max_bytes request) None = Inr ()"
    and "length items \<le> u64_max" and "metadata_fits E item_value items summary request" and "req_cursor request = None"
  shows "\<exists>ps. paging E item_value items summary request ps"
proof -
  have same: "request\<lparr>req_cursor := None\<rparr> = request" using assms(7) by (cases request) simp
  have "asks_for E (request\<lparr>req_cursor := None\<rparr>) 0" by (simp add: asks_for_def)
  from paging_exists [OF assms(1-6) this] show ?thesis unfolding same by simp
qed

section \<open>Summaries\<close>

lemma count_values_get:
  "bm_invar (count_values vs) \<and> (case bm_get (count_values vs) k of None \<Rightarrow> 0 | Some n \<Rightarrow> n) = count_list vs k \<and>
    (\<forall>n. bm_get (count_values vs) k = Some n \<longrightarrow> 0 < n)"
proof (induction vs rule: rev_induct)
  case (snoc v vs)
  have "count_values (vs @ [v]) = bm_entry 0 v Suc (count_values vs)" by (simp add: count_values_def)
  with snoc show ?case by (auto simp: bm_get_entry split: option.splits)
qed (simp add: count_values_def)

lemma insert_group_props:
  "mset (insert_group g gs) = add_mset g (mset gs)"
  "sorted_wrt group_order gs \<Longrightarrow> sorted_wrt group_order (insert_group g gs)"
proof -
  show m: "mset (insert_group g gs) = add_mset g (mset gs)" for gs by (induction gs) auto
  then have set: "set (insert_group g gs) = insert g (set gs)" for gs by (metis set_mset_add_mset_insert set_mset_mset)
  have trans: "group_order a c" if "group_order a b" "group_order b c" for a b c
    using that by (auto simp: group_order_def)
  have total: "group_order b a" if "\<not> group_order a b" for a b
    using that by (auto simp: group_order_def)
  show "sorted_wrt group_order gs \<Longrightarrow> sorted_wrt group_order (insert_group g gs)"
    by (induction gs) (auto simp: set intro: trans total)
qed

lemma sort_groups_props: "mset (sort_groups gs) = mset gs" "sorted_wrt group_order (sort_groups gs)"
  unfolding sort_groups_def by (induction gs) (simp_all add: insert_group_props)

text \<open>
  C30: A count summary is exact about what it keeps and what it leaves out: it keeps at most 64 groups; every kept
  group has the number of times its value occurs; the kept groups are ordered by falling count, then by key; no
  value occurs in two groups; no group left out is larger than a kept one; and the counts of the kept groups and
  the omitted items add up to all values.
\<close>

theorem count_summary_exact:
  "let s = bounded_count_summary vs; gs = summary_groups s in
     length gs \<le> 64 \<and> distinct (map group_key gs) \<and> sorted_wrt group_order gs \<and>
     (\<forall>g\<in>set gs. group_count g = count_list vs (group_key g) \<and> 0 < group_count g) \<and>
     (\<forall>v\<in>set vs. v \<notin> group_key ` set gs \<longrightarrow> length gs = 64 \<and> (\<forall>g\<in>set gs. count_list vs v \<le> group_count g)) \<and>
     sum_list (map group_count gs) + omitted_items s = length vs \<and>
     (length (remdups vs) \<le> u64_max \<longrightarrow> length gs + omitted_groups s = length (remdups vs))"
proof -
  let ?raw = "map (\<lambda>(key, n). \<lparr>group_key = key, group_count = n\<rparr>) (count_values vs)"
  define all where "all = sort_groups ?raw"
  have m: "mset all = mset ?raw" and sorted: "sorted_wrt group_order all" by (simp_all add: all_def sort_groups_props)
  have inv: "bm_invar (count_values vs)" using count_values_get by blast
  have pos: "0 < count_list vs k \<longleftrightarrow> k \<in> set vs" for k using count_list_0_iff [of vs k] by auto
  have get: "bm_get (count_values vs) k = (if k \<in> set vs then Some (count_list vs k) else None)" for k
    using count_values_get [of vs k] pos [of k] by (auto split: option.splits)
  have entries: "(k, n) \<in> set (count_values vs) \<longleftrightarrow> k \<in> set vs \<and> n = count_list vs k" for k n
    using bm.in_entries_iff [OF inv, of k n] get [of k] by auto
  have keys: "map group_key ?raw = map fst (count_values vs)" by (simp add: comp_def case_prod_unfold)
  have dist: "distinct (map group_key all)"
    using bm_invar_distinct [OF inv] m keys by (metis mset_eq_imp_distinct_iff mset_map)
  have elems: "g \<in> set all \<longleftrightarrow> group_key g \<in> set vs \<and> group_count g = count_list vs (group_key g)" for g
  proof -
    have "g \<in> set all \<longleftrightarrow> g \<in> set ?raw" using m by (metis set_mset_mset)
    also have "\<dots> \<longleftrightarrow> (group_key g, group_count g) \<in> set (count_values vs)" by (cases g) force
    finally show ?thesis by (simp add: entries)
  qed
  have key_set: "group_key ` set all = set vs"
  proof
    show "set vs \<subseteq> group_key ` set all"
    proof
      fix v assume "v \<in> set vs"
      then have "\<lparr>group_key = v, group_count = count_list vs v\<rparr> \<in> set all" by (simp add: elems)
      then show "v \<in> group_key ` set all" by force
    qed
  qed (auto simp: elems)
  have "sum_list (map group_count all) = (\<Sum>k\<in>set vs. count_list vs k)"
  proof -
    have "map group_count all = map (\<lambda>k. count_list vs k) (map group_key all)" using elems by auto
    then have "sum_list (map group_count all) = sum_list (map (\<lambda>k. count_list vs k) (map group_key all))"
      by (rule arg_cong)
    also have "\<dots> = (\<Sum>k\<in>set (map group_key all). count_list vs k)" using dist by (rule sum_list_distinct_conv_sum_set)
    finally show ?thesis using key_set by simp
  qed
  then have total: "sum_list (map group_count all) = length vs" by (simp add: sum_count_set)
  have "length all = card (set vs)"
    using dist key_set by (metis distinct_card length_map list.set_map)
  then have groups: "length all = length (remdups vs)" by (simp add: length_remdups_card_conv)
  let ?k = "min (length all) 64"
  have s: "bounded_count_summary vs = \<lparr>summary_groups = take ?k all, omitted_groups = to_u64 (length (drop ?k all)),
      omitted_items = sum_list (map group_count (drop ?k all))\<rparr>"
    by (simp add: bounded_count_summary_def Let_def all_def MAX_QUERY_SUMMARY_GROUPS_def)
  have split: "all = take ?k all @ drop ?k all" by simp
  have below: "group_count h \<le> group_count g" if "g \<in> set (take ?k all)" "h \<in> set (drop ?k all)" for g h
  proof -
    have "sorted_wrt group_order (take ?k all @ drop ?k all)" using sorted by simp
    with that have "group_order g h" by (simp only: sorted_wrt_append)
    then show ?thesis by (auto simp: group_order_def)
  qed
  have out: "length (take ?k all) = 64 \<and> (\<forall>g\<in>set (take ?k all). count_list vs v \<le> group_count g)"
    if "v \<in> set vs" "v \<notin> group_key ` set (take ?k all)" for v
  proof -
    from that(1) key_set obtain h where h: "h \<in> set all" "group_key h = v" by force
    then have "h \<in> set (take ?k all) \<union> set (drop ?k all)" by (metis split set_append)
    with h that(2) have "h \<in> set (drop ?k all)" by auto
    moreover from this have "64 \<le> length all" by (cases "length all \<le> 64") auto
    moreover have "\<forall>g\<in>set (take ?k all). count_list vs v \<le> group_count g"
      using below [OF _ \<open>h \<in> set (drop ?k all)\<close>] h elems [of h] by metis
    ultimately show ?thesis by simp
  qed
  have sums: "sum_list (map group_count (take ?k all)) + sum_list (map group_count (drop ?k all)) = length vs"
    using total by (metis split map_append sum_list_append)
  have "distinct (map group_key (take ?k all))" using dist unfolding take_map [symmetric] by (rule distinct_take)
  moreover have "sorted_wrt group_order (take ?k all)" using sorted by (simp add: sorted_wrt_take)
  moreover have "\<forall>g\<in>set (take ?k all). group_count g = count_list vs (group_key g)"
    "\<forall>g\<in>set (take ?k all). 0 < count_list vs (group_key g)"
    using elems by (auto simp: pos dest: in_set_takeD)
  moreover have "length (take ?k all) + to_u64 (length (drop ?k all)) = length (remdups vs)" if "length (remdups vs) \<le> u64_max"
    using that groups by (auto simp: to_u64_def min_def)
  ultimately show ?thesis using out sums unfolding s by (simp add: Let_def)
qed

section \<open>Examples\<close>

text \<open>A compact printer with decimal numbers, and a constant digest.\<close>

fun compact_print :: "json \<Rightarrow> string" where
  "compact_print Null = ''null''"
| "compact_print (Bool b) = (if b then ''true'' else ''false'')"
| "compact_print (Number (PosInt n)) = show_nat n"
| "compact_print (Number (NegInt i)) = ''-'' @ show_nat (nat (- i))"
| "compact_print (Number (Float s)) = s"
| "compact_print (String s) = [CHR 0x22] @ s @ [CHR 0x22]"
| "compact_print (Array vs) = ''['' @ str_join '','' (map compact_print vs) @ '']''"
| "compact_print (Object ms) =
     ''{'' @ str_join '','' (map (\<lambda>(k, v). [CHR 0x22] @ k @ [CHR 0x22] @ '':'' @ compact_print v) ms) @ ''}''"

definition decimal_externals :: externals where
  "decimal_externals = \<lparr>json_to_string = compact_print, sha256_hex = (\<lambda>_. replicate 64 (CHR ''0'')), debug_str = (\<lambda>s. s)\<rparr>"

lemma length_str_join: "length (str_join sep xs) = sum_list (map length xs) + (length xs - 1) * length sep"
  by (induction sep xs rule: str_join.induct) auto

lemma decimal_prints: "prints_decimals decimal_externals"
  unfolding prints_decimals_def
proof (intro allI)
  fix pre post :: "(string \<times> json) list" and k :: string
  let ?p = "\<lambda>(k :: string, v). [CHR 0x22] @ k @ [CHR 0x22] @ '':'' @ compact_print v"
  show "\<exists>c. \<forall>n. length (json_to_string decimal_externals (Object (pre @ (k, Number (PosInt n)) # post))) = c + length (show_nat n)"
    by (rule exI [of _ "5 + length k + sum_list (map (length \<circ> ?p) pre) + sum_list (map (length \<circ> ?p) post) + (length pre + length post)"])
      (simp add: decimal_externals_def length_str_join comp_def)
qed

lemma decimal_hex: "digest_is_hex decimal_externals"
  by (simp add: digest_is_hex_def decimal_externals_def is_lower_hex_def list_all_iff)

definition example_request :: InteractiveQueryPageRequest where
  "example_request = \<lparr>req_command = ''deps'', req_scan_id = ''s'', req_snapshot_id = ''n'', req_context = Null,
     req_cursor = None, req_max_items = 1, req_max_bytes = 4096, req_traversal_complete = True, req_traversed_items = 2,
     req_root = None, req_diagnostics = []\<rparr>"

lemma example_request_simps:
  "req_command example_request = ''deps''" "req_scan_id example_request = ''s''" "req_snapshot_id example_request = ''n''"
  "req_root example_request = None" "req_traversed_items example_request = 2" "req_traversal_complete example_request"
  by (simp_all add: example_request_def)

definition example_summary :: InteractiveQuerySummary where
  "example_summary = summarize_query_items [] [] [] [] [] 2"

lemma sum_list_sort: "sum_list (map f (sort_key k xs)) = (sum_list (map f xs) :: nat)"
  by (metis mset_map mset_sort sum_mset_sum_list)

lemma length_compact_canonical: "length (compact_print (canonical_value v)) = length (compact_print v)"
proof (induction v rule: canonical_value.induct)
  case (1 ms)
  then have "length (compact_print (canonical_value (snd m))) = length (compact_print (snd m))" if "m \<in> set ms" for m
    using that by (cases m) auto
  then show ?case
    by (simp add: length_str_join comp_def case_prod_unfold sum_list_sort cong: map_cong)
next
  case (2 vs)
  then show ?case by (simp add: length_str_join comp_def cong: map_cong)
qed simp_all

lemma example_metadata_fits: "metadata_fits decimal_externals Inr [Null, Bool True] example_summary example_request"
  unfolding metadata_fits_def
proof (intro allI impI)
  fix offset assume offset: "offset \<le> length [Null, Bool True]"
  let ?d = "context_digest_of decimal_externals example_request"
  let ?build = "build_interactive_query_page decimal_externals [Null, Bool True] example_summary example_request ?d offset 0
      (offset < length [Null, Bool True])"
  obtain p where p: "sized_page decimal_externals Inr [Null, Bool True] example_summary example_request ?d offset 0
      (offset < length [Null, Bool True]) = Inr p"
    using sized_page_total [OF decimal_prints, of "[Null, Bool True]" Inr] by fastforce
  from sized_page_facts(1) [OF p] obtain b where b: "p = ?build\<lparr>page_serialized_output_bytes := b\<rparr>" by blast
  from sized_page_facts(2) [OF p] obtain len where len: "serialized_page_len decimal_externals Inr p = Inr len"
    "page_serialized_output_bytes p = to_u64 len" by blast
  have diag: "length (str_join '','' (map (compact_print \<circ> page_diagnostic_value)
      (page_diagnostics_of example_request offset 0 e t))) \<le> 1000" for e t
    using offset
    by (cases e; cases t) (simp_all add: page_diagnostics_of_def example_request_def page_diagnostic_value_def show_nat.simps)
  have "length (show_nat b) \<le> 20"
    using len(2) b to_u64_le [of len] by (simp add: length_show_nat_le u64_max_def)
  moreover have "length (compact_print (summary_value example_summary)) \<le> 1000"
    by (simp add: example_summary_def summarize_query_items_def bounded_count_summary_def count_values_def sort_groups_def
      summary_value_def count_summary_value_def to_u64_def u64_max_def show_nat.simps)
  moreover have "summary_total_items example_summary = 2"
    by (simp add: example_summary_def summarize_query_items_def to_u64_def u64_max_def)
  ultimately have "len \<le> 4096"
    using len(1) diag [of True True] diag [of False False] unfolding b
    by (cases "offset < Suc (Suc 0)")
      (simp_all add: serialized_page_len_def page_value_def items_value_def canonical_json_def decimal_externals_def
        length_compact_canonical build_interactive_query_page_def Let_def page_head_def page_tail_def
        example_request_simps INTERACTIVE_QUERY_PAGE_CONTRACT_VERSION_def to_u64_def show_nat.simps [of 0] show_nat.simps [of 2])
  then show "page_fits (\<lambda>n. sized_page decimal_externals Inr [Null, Bool True] example_summary example_request ?d offset n
      (offset < length [Null, Bool True])) (req_max_bytes example_request) 0"
    using p len(2) by (auto simp: page_fits_def example_request_def to_u64_def)
qed

lemma example_bounds:
  "validate_interactive_query_bounds (req_max_items example_request) (req_max_bytes example_request) None = Inr ()"
  by (simp add: validate_interactive_query_bounds_def example_request_def limit_simps)

lemma example_paging: "\<exists>ps. paging decimal_externals Inr [Null, Bool True] example_summary example_request ps"
proof -
  have "asks_for decimal_externals (example_request\<lparr>req_cursor := None\<rparr>) 0" by (simp add: asks_for_def)
  then have "\<exists>ps. paging decimal_externals Inr [Null, Bool True] example_summary (example_request\<lparr>req_cursor := None\<rparr>) ps"
    using decimal_prints decimal_hex example_bounds example_metadata_fits by (intro paging_exists [where offset = 0]) (simp_all add: u64_max_def)
  moreover have "example_request\<lparr>req_cursor := None\<rparr> = example_request" by (simp add: example_request_def)
  ultimately show ?thesis by simp
qed

theorem paginate_page_witness:
  "\<exists>page offset. paginate_interactive_query decimal_externals Inr [Null, Bool True] example_summary example_request = Inr page \<and>
    asks_for decimal_externals example_request offset \<and>
    page_promise decimal_externals Inr [Null, Bool True] example_summary example_request offset page"
proof -
  obtain page where "paginate_interactive_query decimal_externals Inr [Null, Bool True] example_summary example_request = Inr page"
    using example_paging by (auto elim: paging.cases)
  with paginate_page [OF this] show ?thesis by blast
qed

theorem paging_lossless_witness:
  "\<exists>ps n. paging decimal_externals Inr [Null, Bool True] example_summary example_request ps \<and>
    concat (map page_items ps) = take n [Null, Bool True] \<and> length ps \<le> n + 1"
proof -
  obtain ps where ps: "paging decimal_externals Inr [Null, Bool True] example_summary example_request ps"
    using example_paging by blast
  have "length [Null, Bool True] \<le> u64_max" "req_cursor example_request = None"
    by (simp_all add: u64_max_def example_request_def)
  from paging_lossless [OF ps decimal_hex this] ps show ?thesis by blast
qed

theorem paging_completes_witness:
  "\<exists>ps. paging decimal_externals Inr [Null, Bool True] example_summary example_request ps"
  by (rule paging_completes [OF decimal_prints decimal_hex _ example_bounds _ example_metadata_fits])
    (simp_all add: u64_max_def example_request_def)

theorem byte_accounting_converges_witness:
  "\<exists>b len. stabilize_serialized_output_bytes decimal_externals Inr
      (build_interactive_query_page decimal_externals [Null] example_summary example_request ''d'' 0 1 False) =
      Inr ((build_interactive_query_page decimal_externals [Null] example_summary example_request ''d'' 0 1 False)
        \<lparr>page_serialized_output_bytes := b\<rparr>) \<and> b = to_u64 len"
  using byte_accounting_converges [OF decimal_prints,
    of Inr "build_interactive_query_page decimal_externals [Null] example_summary example_request ''d'' 0 1 False" "[Null]"]
  by (auto simp: build_interactive_query_page_def items_value_def Let_def)

theorem count_summary_exact_witness:
  "sum_list (map group_count (summary_groups (bounded_count_summary [''a'', ''b'', ''a'']))) +
     omitted_items (bounded_count_summary [''a'', ''b'', ''a'']) = 3 \<and>
   length (summary_groups (bounded_count_summary [''a'', ''b'', ''a''])) +
     omitted_groups (bounded_count_summary [''a'', ''b'', ''a'']) = 2"
  using count_summary_exact [of "[''a'', ''b'', ''a'']"] by (simp add: Let_def u64_max_def)

end
