(* ===== verification/Snapshot_Diff.thy ===== *)
theory Snapshot_Diff
  imports Record_Json
begin

text \<open>
  Snapshot comparison: \<open>diff_graph_snapshots\<close> in \<^verbatim>\<open>crates/depgraph-store/src/diff.rs\<close>.

  Records of two snapshots are keyed by identity, sorted and merged into added, removed and changed records.
  Among the removed and added nodes, renames are detected: five key functions, each with a strength, match
  removed with added nodes; a match that is unique on both sides and strong enough is promoted to a rename and
  leaves the two lists, any other match is only reported as a candidate. The equality of records and their
  serialization are those of the theory \<open>Record_Json\<close>.
\<close>

section \<open>Record differences\<close>

datatype diff_error = Diff_Message string | Diff_Panic

record 'a ChangedRecord =
  changed_id :: string
  changed_changed_fields :: "string list"
  changed_before :: 'a
  changed_after :: 'a

record 'a RecordDiff =
  diff_added :: "'a list"
  diff_removed :: "'a list"
  diff_changed :: "'a ChangedRecord list"

definition default_diff :: "'a RecordDiff" where
  "default_diff = \<lparr>diff_added = [], diff_removed = [], diff_changed = []\<rparr>"

definition diff_is_empty :: "'a RecordDiff \<Rightarrow> bool" where
  "diff_is_empty d \<longleftrightarrow> diff_added d = [] \<and> diff_removed d = [] \<and> diff_changed d = []"

definition keyed_records :: "'a list \<Rightarrow> ('a \<Rightarrow> string) \<Rightarrow> (string \<times> 'a) list" where
  "keyed_records records identity = map (\<lambda>r. (identity r, r)) records"

fun ensure_unique_keys :: "externals \<Rightarrow> (string \<times> 'a) list \<Rightarrow> diff_error + unit" where
  "ensure_unique_keys E (a # b # records) =
     (if fst a = fst b
      then Inl (Diff_Message (''snapshot diff input contains duplicate identity '' @ debug_str E (fst a)))
      else ensure_unique_keys E (b # records))"
| "ensure_unique_keys E _ = Inr ()"

definition not_an_object :: diff_error where
  "not_an_object = Diff_Message ''snapshot diff record must serialize as an object''"

definition changed_fields :: "('a \<Rightarrow> json) \<Rightarrow> 'a \<Rightarrow> 'a \<Rightarrow> diff_error + string list" where
  "changed_fields to_value before after =
     (case as_object (to_value before) of
        None \<Rightarrow> Inl not_an_object
      | Some b \<Rightarrow> (case as_object (to_value after) of
          None \<Rightarrow> Inl not_an_object
        | Some a \<Rightarrow> Inr (filter (\<lambda>field. \<not> opt_same (map_of b field) (map_of a field)) (bs_of_list (map fst b @ map fst a)))))"

fun diff_merge ::
  "('a \<Rightarrow> 'a \<Rightarrow> bool) \<Rightarrow> ('a \<Rightarrow> json) \<Rightarrow> (string \<times> 'a) list \<Rightarrow> (string \<times> 'a) list \<Rightarrow> 'a RecordDiff \<Rightarrow> diff_error + 'a RecordDiff" where
  "diff_merge eq to_value [] [] out = Inr out"
| "diff_merge eq to_value from [] out = Inr (out\<lparr>diff_removed := diff_removed out @ map snd from\<rparr>)"
| "diff_merge eq to_value [] to out = Inr (out\<lparr>diff_added := diff_added out @ map snd to\<rparr>)"
| "diff_merge eq to_value ((i, before) # from) ((j, after) # to) out =
     (if i < j then diff_merge eq to_value from ((j, after) # to) (out\<lparr>diff_removed := diff_removed out @ [before]\<rparr>)
      else if j < i then diff_merge eq to_value ((i, before) # from) to (out\<lparr>diff_added := diff_added out @ [after]\<rparr>)
      else if \<not> eq before after then
        sum_bind (changed_fields to_value before after) (\<lambda>names.
        diff_merge eq to_value from to (out\<lparr>diff_changed := diff_changed out
          @ [\<lparr>changed_id = i, changed_changed_fields = names, changed_before = before, changed_after = after\<rparr>]\<rparr>))
      else diff_merge eq to_value from to out)"

definition diff_records ::
  "externals \<Rightarrow> ('a \<Rightarrow> 'a \<Rightarrow> bool) \<Rightarrow> ('a \<Rightarrow> json) \<Rightarrow> 'a list \<Rightarrow> 'a list \<Rightarrow> ('a \<Rightarrow> string) \<Rightarrow> diff_error + 'a RecordDiff" where
  "diff_records E eq to_value from to identity =
     (let from_keyed = sort_key fst (keyed_records from identity); to_keyed = sort_key fst (keyed_records to identity) in
      sum_bind (ensure_unique_keys E from_keyed) (\<lambda>_.
      sum_bind (ensure_unique_keys E to_keyed) (\<lambda>_.
      diff_merge eq to_value from_keyed to_keyed default_diff)))"

definition show_int :: "int \<Rightarrow> string" where
  "show_int i = (if i < 0 then CHR ''-'' # show_nat (nat (- i)) else show_nat (nat i))"

definition evidence_identity :: "EvidenceRecord \<Rightarrow> string" where
  "evidence_identity r = ev_owner_type r @ '':'' @ ev_owner_id r @ '':'' @ show_int (ev_ordinal r)"

section \<open>Evidence for renames\<close>

datatype RenameConfidence = Confidence_Ambiguous | Confidence_Medium | Confidence_High | Confidence_Exact

record NodeRenameEvidence =
  re_node_id :: string
  re_package_owner :: "string option"
  re_content_hash :: "string option"
  re_source_content_hash :: "string option"
  re_semantic_fingerprint :: "string option"
  re_canonical_identity :: "json option"
  re_source_path :: "string option"
  re_source_span :: "json option"
  re_records :: "EvidenceRecord list"

record NodeRename =
  rename_kind :: string
  rename_old_id :: string
  rename_new_id :: string
  rename_confidence :: RenameConfidence
  rename_reasons :: "string list"
  rename_changed_fields :: "string list"
  rename_before :: NodeRecord
  rename_after :: NodeRecord
  rename_old_evidence :: NodeRenameEvidence
  rename_new_evidence :: NodeRenameEvidence

definition non_empty :: "string option \<Rightarrow> string option" where
  "non_empty v = (case v of None \<Rightarrow> None | Some s \<Rightarrow> if s = [] then None else Some s)"

fun string_property :: "json \<Rightarrow> string list \<Rightarrow> string option" where
  "string_property value [] = None"
| "string_property value (field # names) =
     (case non_empty (get_str value field) of Some s \<Rightarrow> Some s | None \<Rightarrow> string_property value names)"

definition is_sha256_fingerprint :: "string \<Rightarrow> bool" where
  "is_sha256_fingerprint value =
     (case strip_prefix value ''sha256:'' of
        None \<Rightarrow> False
      | Some digest \<Rightarrow> length digest = 64 \<and> list_all is_lower_hex digest)"

definition fingerprint_property :: "json \<Rightarrow> string list \<Rightarrow> string option" where
  "fingerprint_property value names =
     (case string_property value names of
        None \<Rightarrow> None
      | Some s \<Rightarrow> if is_sha256_fingerprint s then Some s else None)"

fun owner_field :: "json \<Rightarrow> string list \<Rightarrow> string option" where
  "owner_field properties [] = None"
| "owner_field properties (field # names) =
     (case non_empty (get_str properties field) of
        Some value \<Rightarrow> Some (field @ '':'' @ value)
      | None \<Rightarrow> owner_field properties names)"

definition package_owner :: "NodeRecord \<Rightarrow> string option" where
  "package_owner node =
     (case owner_field (node_properties node) [''package_locator'', ''package_id'', ''package_path'', ''package''] of
        Some owner \<Rightarrow> Some owner
      | None \<Rightarrow> map_option (\<lambda>value. ''package_locator:'' @ value)
          (non_empty (Option.bind (json_get (node_properties node) ''canonical_identity'')
            (\<lambda>identity. get_str identity ''package_locator''))))"

definition or_else :: "'a option \<Rightarrow> 'a option \<Rightarrow> 'a option" where
  "or_else a b = (case a of Some x \<Rightarrow> Some x | None \<Rightarrow> b)"

definition first_record :: "EvidenceRecord list \<Rightarrow> EvidenceRecord option" where
  "first_record records = (case records of [] \<Rightarrow> None | r # _ \<Rightarrow> Some r)"

definition record_span :: "EvidenceRecord \<Rightarrow> json" where
  "record_span r = Object [(''start_line'', Number (PosInt (ev_start_line r))),
     (''start_column'', Number (PosInt (ev_start_column r))), (''end_line'', Number (PosInt (ev_end_line r))),
     (''end_column'', Number (PosInt (ev_end_column r)))]"

definition rename_evidence :: "NodeRecord \<Rightarrow> EvidenceRecord list option \<Rightarrow> (string, string) bmap \<Rightarrow> NodeRenameEvidence" where
  "rename_evidence node owned source_hashes =
     (let records = (case owned of None \<Rightarrow> [] | Some rs \<Rightarrow> rs);
          canonical_identity = json_get (node_properties node) ''canonical_identity'';
          source_record = first_record records;
          source_path = or_else (string_property (node_properties node) [''source_path'', ''path''])
            (or_else (Option.bind canonical_identity (\<lambda>identity. string_property identity [''relative_path'']))
              (map_option ev_path source_record));
          source_span = or_else (json_get (node_properties node) ''source_span'')
            (or_else (Option.bind canonical_identity (\<lambda>identity. json_get identity ''span''))
              (map_option record_span source_record)) in
      \<lparr>re_node_id = node_id node,
       re_package_owner = package_owner node,
       re_content_hash = fingerprint_property (node_properties node) [''content_hash'', ''content_digest''],
       re_source_content_hash = Option.bind source_path (bm_get source_hashes),
       re_semantic_fingerprint = fingerprint_property (node_properties node) [''semantic_hash'', ''declaration_hash''],
       re_canonical_identity = canonical_identity,
       re_source_path = source_path,
       re_source_span = source_span,
       re_records = records\<rparr>)"

definition node_source_evidence :: "GraphSnapshot \<Rightarrow> (string, EvidenceRecord list) bmap" where
  "node_source_evidence snapshot =
     (let owner_targets = fold (\<lambda>edge targets.
            if edge_kind edge \<in> {''declares'', ''contains''}
            then bm_insert (''edge'', edge_id edge) (edge_target edge) targets else targets) (snap_edges snapshot) [];
          output = fold (\<lambda>record output.
            case bm_get owner_targets (ev_owner_type record, ev_owner_id record) of
              None \<Rightarrow> output
            | Some target \<Rightarrow> bm_entry [] target (\<lambda>records. records @ [record]) output) (snap_evidence snapshot) [] in
      map (\<lambda>(target, records). (target, sort_key evidence_identity records)) output)"

definition file_hash :: "NodeRecord \<Rightarrow> (string \<times> string) option" where
  "file_hash node =
     Option.bind (or_else (string_property (node_properties node) [''source_path'', ''path''])
         (or_else (strip_prefix (node_locator node) ''file://'') (strip_prefix (node_locator node) ''file:''))) (\<lambda>path.
     Option.bind (fingerprint_property (node_properties node) [''content_hash'', ''content_digest'']) (\<lambda>hash.
     Some (path, hash)))"

definition source_file_content_hashes :: "GraphSnapshot \<Rightarrow> (string, string) bmap" where
  "source_file_content_hashes snapshot =
     (let by_path = fold (\<lambda>node by_path.
            case file_hash node of
              None \<Rightarrow> by_path
            | Some (path, hash) \<Rightarrow>
                (case bm_get by_path path of
                   None \<Rightarrow> bm_insert path (Some hash) by_path
                 | Some existing \<Rightarrow> if existing = Some hash then by_path else bm_insert path None by_path))
          (filter (\<lambda>node. node_kind node = ''file'') (snap_nodes snapshot)) [] in
      concat (map (\<lambda>(path, hash). case hash of None \<Rightarrow> [] | Some h \<Rightarrow> [(path, h)]) by_path))"

section \<open>Match keys\<close>

definition is_semantic_rename_kind :: "NodeRecord \<Rightarrow> bool" where
  "is_semantic_rename_kind node \<longleftrightarrow> node_kind node \<in> {''symbol'', ''type'', ''route''}"

definition is_local_or_anonymous :: "NodeRecord \<Rightarrow> bool" where
  "is_local_or_anonymous node \<longleftrightarrow> node_kind node = ''symbol'' \<and>
     (case Option.bind (json_get (node_properties node) ''canonical_identity'') (\<lambda>identity. get_str identity ''identity_kind'') of
        None \<Rightarrow> False | Some kind \<Rightarrow> kind \<in> {''local'', ''anonymous''})"

text \<open>\<open>Map::remove\<close> of an insertion-ordered object puts the last member in the place of the removed one.\<close>

definition swap_remove :: "string \<Rightarrow> (string \<times> json) list \<Rightarrow> (string \<times> json) list" where
  "swap_remove k ms =
     (if map_of ms k = None then ms
      else let i = length (takeWhile (\<lambda>m. fst m \<noteq> k) ms) in butlast (ms[i := last ms]))"

definition semantic_identity_shape :: "json \<Rightarrow> json option" where
  "semantic_identity_shape identity =
     map_option (\<lambda>ms. Object (fold swap_remove [''resolver_identity'', ''relative_path'', ''route_pattern'', ''span''] ms))
       (as_object identity)"

definition identity_shape :: "NodeRenameEvidence \<Rightarrow> json option" where
  "identity_shape evidence = Option.bind (re_canonical_identity evidence) semantic_identity_shape"

definition file_content_key :: "externals \<Rightarrow> NodeRecord \<Rightarrow> NodeRenameEvidence \<Rightarrow> string option" where
  "file_content_key E node evidence =
     (if node_kind node \<noteq> ''file'' then None
      else Option.bind (re_package_owner evidence) (\<lambda>owner. Option.bind (re_content_hash evidence) (\<lambda>hash.
        Some (canonical_json E (Object [(''kind'', String (node_kind node)), (''package_owner'', String owner),
          (''content_hash'', String hash)])))))"

definition semantic_fingerprint_key :: "externals \<Rightarrow> NodeRecord \<Rightarrow> NodeRenameEvidence \<Rightarrow> string option" where
  "semantic_fingerprint_key E node evidence =
     (if \<not> is_semantic_rename_kind node then None
      else Option.bind (re_package_owner evidence) (\<lambda>owner. Option.bind (re_semantic_fingerprint evidence) (\<lambda>fingerprint.
        Option.bind (identity_shape evidence) (\<lambda>shape.
        Some (canonical_json E (Object [(''kind'', String (node_kind node)), (''package_owner'', String owner),
          (''semantic_fingerprint'', String fingerprint), (''identity_shape'', shape)]))))))"

definition semantic_source_content_key :: "externals \<Rightarrow> NodeRecord \<Rightarrow> NodeRenameEvidence \<Rightarrow> string option" where
  "semantic_source_content_key E node evidence =
     (if \<not> is_semantic_rename_kind node then None
      else Option.bind (re_package_owner evidence) (\<lambda>owner. Option.bind (re_source_content_hash evidence) (\<lambda>hash.
        Option.bind (identity_shape evidence) (\<lambda>shape.
        Some (canonical_json E (Object [(''kind'', String (node_kind node)),
          (''display_name'', if node_kind node \<noteq> ''route'' then String (node_display_name node) else Null),
          (''package_owner'', String owner), (''source_content_hash'', String hash), (''identity_shape'', shape)]))))))"

definition semantic_source_anchor_key :: "externals \<Rightarrow> NodeRecord \<Rightarrow> NodeRenameEvidence \<Rightarrow> string option" where
  "semantic_source_anchor_key E node evidence =
     (if \<not> is_semantic_rename_kind node \<or> is_local_or_anonymous node then None
      else Option.bind (Option.bind (re_source_span evidence) as_object) (\<lambda>span.
        Option.bind (re_package_owner evidence) (\<lambda>owner. Option.bind (identity_shape evidence) (\<lambda>shape.
        Option.bind (re_source_path evidence) (\<lambda>path. Option.bind (map_of span ''start_line'') (\<lambda>line.
        Option.bind (map_of span ''start_column'') (\<lambda>column.
        Some (canonical_json E (Object [(''kind'', String (node_kind node)), (''package_owner'', String owner),
          (''identity_shape'', shape), (''source_path'', String path), (''start_line'', line), (''start_column'', column)])))))))))"

definition local_or_anonymous_span_key :: "externals \<Rightarrow> NodeRecord \<Rightarrow> NodeRenameEvidence \<Rightarrow> string option" where
  "local_or_anonymous_span_key E node evidence =
     (if \<not> is_local_or_anonymous node then None
      else Option.bind (re_package_owner evidence) (\<lambda>owner. Option.bind (identity_shape evidence) (\<lambda>shape.
        Option.bind (re_source_path evidence) (\<lambda>path.
        Some (canonical_json E (Object [(''kind'', String (node_kind node)), (''display_name'', String (node_display_name node)),
          (''package_owner'', String owner), (''identity_shape'', shape), (''source_path'', String path)]))))))"

section \<open>Matching\<close>

definition MAX_RENAME_CANDIDATE_PAIRS_PER_KEY :: nat where
  [limit_simps]: "MAX_RENAME_CANDIDATE_PAIRS_PER_KEY = 4096"

datatype MatchStrength = Strength_Medium | Strength_High | Strength_Exact

text \<open>The derived order of the strengths.\<close>

fun strength_rank :: "MatchStrength \<Rightarrow> nat" where
  "strength_rank Strength_Medium = 0"
| "strength_rank Strength_High = 1"
| "strength_rank Strength_Exact = 2"

record MatchSignals =
  signal_strength :: "MatchStrength option"
  signal_reasons :: "string bset"

definition no_signals :: MatchSignals where
  "no_signals = \<lparr>signal_strength = None, signal_reasons = []\<rparr>"

definition add_signal :: "MatchStrength \<Rightarrow> string \<Rightarrow> MatchSignals \<Rightarrow> MatchSignals" where
  "add_signal strength reason signals =
     signals\<lparr>signal_strength := Some (case signal_strength signals of
         None \<Rightarrow> strength
       | Some current \<Rightarrow> if strength_rank current \<le> strength_rank strength then strength else current),
       signal_reasons := bs_insert reason (signal_reasons signals)\<rparr>"

record RenameSides =
  side_removed :: "NodeRecord list"
  side_removed_evidence :: "NodeRenameEvidence list"
  side_added :: "NodeRecord list"
  side_added_evidence :: "NodeRenameEvidence list"

type_synonym match_signals = "(nat \<times> nat, MatchSignals) bmap"
type_synonym match_key = "NodeRecord \<Rightarrow> NodeRenameEvidence \<Rightarrow> string option"

definition indices_by_key :: "match_key \<Rightarrow> NodeRecord list \<Rightarrow> NodeRenameEvidence list \<Rightarrow> (string, nat list) bmap" where
  "indices_by_key key nodes evidence =
     fold (\<lambda>i by_key. case key (nodes ! i) (evidence ! i) of
         None \<Rightarrow> by_key
       | Some k \<Rightarrow> bm_entry [] k (\<lambda>is. is @ [i]) by_key) [0..<length nodes] []"

definition signal_pairs :: "nat list \<Rightarrow> nat list \<Rightarrow> MatchStrength \<Rightarrow> string \<Rightarrow> match_signals \<Rightarrow> match_signals" where
  "signal_pairs removed_indices added_indices strength reason signals =
     fold (\<lambda>r. fold (\<lambda>a. bm_entry no_signals (r, a) (add_signal strength reason)) added_indices) removed_indices signals"

definition add_match_signal :: "RenameSides \<Rightarrow> match_key \<Rightarrow> MatchStrength \<Rightarrow> string \<Rightarrow> match_signals \<Rightarrow> match_signals" where
  "add_match_signal sides key strength reason signals =
     (let removed_by_key = indices_by_key key (side_removed sides) (side_removed_evidence sides);
          added_by_key = indices_by_key key (side_added sides) (side_added_evidence sides) in
      fold (\<lambda>(k, removed_indices) signals.
        case bm_get added_by_key k of
          None \<Rightarrow> signals
        | Some added_indices \<Rightarrow>
            (case checked_mul (length removed_indices) (length added_indices) of
               None \<Rightarrow> signals
             | Some pairs \<Rightarrow> if pairs > MAX_RENAME_CANDIDATE_PAIRS_PER_KEY then signals
                 else signal_pairs removed_indices added_indices strength reason signals)) removed_by_key signals)"

definition collect_signals :: "externals \<Rightarrow> RenameSides \<Rightarrow> match_signals" where
  "collect_signals E sides =
     add_match_signal sides (local_or_anonymous_span_key E) Strength_Medium ''same_local_or_anonymous_origin_source_and_package''
     (add_match_signal sides (semantic_source_anchor_key E) Strength_High ''same_source_anchor_semantic_identity_shape_and_package''
     (add_match_signal sides (semantic_source_content_key E) Strength_Exact
       ''same_source_content_semantic_identity_shape_name_and_package''
     (add_match_signal sides (semantic_fingerprint_key E) Strength_Exact ''same_semantic_fingerprint_identity_shape_and_package''
     (add_match_signal sides (file_content_key E) Strength_Exact ''same_file_content_hash_and_package'' []))))"

definition count_degree :: "nat list \<Rightarrow> nat \<Rightarrow> nat list" where
  "count_degree indices n = fold (\<lambda>i degree. degree[i := degree ! i + 1]) indices (replicate n 0)"

fun confidence_of :: "MatchStrength \<Rightarrow> RenameConfidence" where
  "confidence_of Strength_Medium = Confidence_Medium"
| "confidence_of Strength_High = Confidence_High"
| "confidence_of Strength_Exact = Confidence_Exact"

record rename_state =
  renamed_removed :: "string bset"
  renamed_added :: "string bset"
  found_renames :: "NodeRename list"
  found_candidates :: "NodeRename list"

text \<open>The label of a match with a branching side; the code marks the last case unreachable.\<close>

definition ambiguity_reason :: "bool \<Rightarrow> bool \<Rightarrow> diff_error + string" where
  "ambiguity_reason removed_branches added_branches =
     (if removed_branches \<and> added_branches then Inr ''ambiguous_many_to_many''
      else if removed_branches then Inr ''ambiguous_one_to_many''
      else if added_branches then Inr ''ambiguous_many_to_one''
      else Inl Diff_Panic)"

definition judge_match ::
  "RenameSides \<Rightarrow> nat list \<Rightarrow> nat list \<Rightarrow> (nat \<times> nat) \<times> MatchSignals \<Rightarrow> rename_state \<Rightarrow> diff_error + rename_state" where
  "judge_match sides removed_degree added_degree entry st = (case entry of ((r, a), signal) \<Rightarrow>
     let before = side_removed sides ! r; after = side_added sides ! a;
         old_evidence = side_removed_evidence sides ! r; new_evidence = side_added_evidence sides ! a;
         unique = (removed_degree ! r = 1 \<and> added_degree ! a = 1) in
     case signal_strength signal of
       None \<Rightarrow> Inl Diff_Panic
     | Some strength \<Rightarrow>
         let promoted = (unique \<and> strength_rank Strength_High \<le> strength_rank strength);
             reasons = (if \<not> opt_same (re_source_span old_evidence) (re_source_span new_evidence)
                 \<and> is_local_or_anonymous before \<and> is_local_or_anonymous after
               then bs_insert ''local_or_anonymous_source_span_changed'' (signal_reasons signal) else signal_reasons signal) in
         sum_bind (if unique then Inr reasons
             else sum_bind (ambiguity_reason (removed_degree ! r > 1) (added_degree ! a > 1)) (\<lambda>label. Inr (bs_insert label reasons)))
           (\<lambda>reasons.
         sum_bind (changed_fields node_value before after) (\<lambda>names.
         let renamed = \<lparr>rename_kind = node_kind before, rename_old_id = node_id before, rename_new_id = node_id after,
           rename_confidence = (if unique then confidence_of strength else Confidence_Ambiguous),
           rename_reasons = reasons, rename_changed_fields = names, rename_before = before, rename_after = after,
           rename_old_evidence = old_evidence, rename_new_evidence = new_evidence\<rparr> in
         Inr (if promoted
           then st\<lparr>renamed_removed := bs_insert (node_id before) (renamed_removed st),
             renamed_added := bs_insert (node_id after) (renamed_added st), found_renames := found_renames st @ [renamed]\<rparr>
           else st\<lparr>found_candidates := found_candidates st @ [renamed]\<rparr>))))"

definition rename_sides ::
  "NodeRecord RecordDiff \<Rightarrow> (string, EvidenceRecord list) bmap \<Rightarrow> (string, EvidenceRecord list) bmap
     \<Rightarrow> (string, string) bmap \<Rightarrow> (string, string) bmap \<Rightarrow> RenameSides" where
  "rename_sides nodes from_records to_records from_source_hashes to_source_hashes =
     \<lparr>side_removed = diff_removed nodes,
      side_removed_evidence = map (\<lambda>node. rename_evidence node (bm_get from_records (node_id node)) from_source_hashes) (diff_removed nodes),
      side_added = diff_added nodes,
      side_added_evidence = map (\<lambda>node. rename_evidence node (bm_get to_records (node_id node)) to_source_hashes) (diff_added nodes)\<rparr>"

definition detect_node_renames ::
  "externals \<Rightarrow> NodeRecord RecordDiff \<Rightarrow> (string, EvidenceRecord list) bmap \<Rightarrow> (string, EvidenceRecord list) bmap
     \<Rightarrow> (string, string) bmap \<Rightarrow> (string, string) bmap
     \<Rightarrow> diff_error + NodeRecord RecordDiff \<times> NodeRename list \<times> NodeRename list" where
  "detect_node_renames E nodes from_records to_records from_source_hashes to_source_hashes =
     (let sides = rename_sides nodes from_records to_records from_source_hashes to_source_hashes;
          signals = collect_signals E sides;
          removed_degree = count_degree (map (\<lambda>e. fst (fst e)) signals) (length (diff_removed nodes));
          added_degree = count_degree (map (\<lambda>e. snd (fst e)) signals) (length (diff_added nodes)) in
      sum_bind (fold_m (judge_match sides removed_degree added_degree) signals
        \<lparr>renamed_removed = [], renamed_added = [], found_renames = [], found_candidates = []\<rparr>) (\<lambda>st.
      Inr (nodes\<lparr>diff_removed := filter (\<lambda>node. \<not> bs_contains (renamed_removed st) (node_id node)) (diff_removed nodes),
             diff_added := filter (\<lambda>node. \<not> bs_contains (renamed_added st) (node_id node)) (diff_added nodes)\<rparr>,
           found_renames st, found_candidates st)))"

section \<open>The comparison of two snapshots\<close>

definition SNAPSHOT_DIFF_SCHEMA_VERSION :: string where
  "SNAPSHOT_DIFF_SCHEMA_VERSION = ''1.0''"

record GraphSnapshotDiff =
  gd_schema_version :: string
  gd_from_snapshot_id :: string
  gd_to_snapshot_id :: string
  gd_nodes :: "NodeRecord RecordDiff"
  gd_sites :: "SiteRecord RecordDiff"
  gd_edges :: "EdgeRecord RecordDiff"
  gd_evidence :: "EvidenceRecord RecordDiff"
  gd_profiles :: "ProfileRecord RecordDiff"
  gd_coverage :: "CoverageRecord ChangedRecord option"
  gd_renames :: "NodeRename list"
  gd_rename_candidates :: "NodeRename list"

definition empty_snapshot_diff :: "string \<Rightarrow> string \<Rightarrow> GraphSnapshotDiff" where
  "empty_snapshot_diff from_snapshot_id to_snapshot_id =
     \<lparr>gd_schema_version = SNAPSHOT_DIFF_SCHEMA_VERSION, gd_from_snapshot_id = from_snapshot_id,
      gd_to_snapshot_id = to_snapshot_id, gd_nodes = default_diff, gd_sites = default_diff, gd_edges = default_diff,
      gd_evidence = default_diff, gd_profiles = default_diff, gd_coverage = None, gd_renames = [], gd_rename_candidates = []\<rparr>"

definition snapshot_diff_is_empty :: "GraphSnapshotDiff \<Rightarrow> bool" where
  "snapshot_diff_is_empty d \<longleftrightarrow> diff_is_empty (gd_nodes d) \<and> diff_is_empty (gd_sites d) \<and> diff_is_empty (gd_edges d) \<and>
     diff_is_empty (gd_evidence d) \<and> diff_is_empty (gd_profiles d) \<and> gd_coverage d = None \<and> gd_renames d = [] \<and>
     gd_rename_candidates d = []"

definition diff_graph_snapshots ::
  "externals \<Rightarrow> string \<Rightarrow> string \<Rightarrow> GraphSnapshot \<Rightarrow> GraphSnapshot \<Rightarrow> diff_error + GraphSnapshotDiff" where
  "diff_graph_snapshots E from_snapshot_id to_snapshot_id from to =
     sum_bind (diff_records E node_eq node_value (snap_nodes from) (snap_nodes to) node_id) (\<lambda>all_nodes.
     sum_bind (detect_node_renames E all_nodes (node_source_evidence from) (node_source_evidence to)
       (source_file_content_hashes from) (source_file_content_hashes to)) (\<lambda>(nodes, renames, rename_candidates).
     sum_bind (diff_records E site_eq site_value (snap_sites from) (snap_sites to) site_id) (\<lambda>sites.
     sum_bind (diff_records E edge_eq edge_value (snap_edges from) (snap_edges to) edge_id) (\<lambda>edges.
     sum_bind (diff_records E evidence_eq evidence_value (snap_evidence from) (snap_evidence to) evidence_identity) (\<lambda>evidence.
     sum_bind (diff_records E profile_eq profile_value (snap_profiles from) (snap_profiles to) profile_id) (\<lambda>profiles.
     sum_bind (if snap_coverage from = snap_coverage to then Inr None
       else sum_bind (changed_fields coverage_value (snap_coverage from) (snap_coverage to)) (\<lambda>names.
         Inr (Some \<lparr>changed_id = ''coverage'', changed_changed_fields = names,
           changed_before = snap_coverage from, changed_after = snap_coverage to\<rparr>))) (\<lambda>coverage.
     Inr \<lparr>gd_schema_version = SNAPSHOT_DIFF_SCHEMA_VERSION, gd_from_snapshot_id = from_snapshot_id,
      gd_to_snapshot_id = to_snapshot_id, gd_nodes = nodes, gd_sites = sites, gd_edges = edges, gd_evidence = evidence,
      gd_profiles = profiles, gd_coverage = coverage, gd_renames = renames, gd_rename_candidates = rename_candidates\<rparr>)))))))"

section \<open>Record differences are exact\<close>

text \<open>The reference: records of \<open>xs\<close> whose key is not in \<open>ys\<close>, and the pairs that differ.\<close>

definition only_in :: "(string \<times> 'a) list \<Rightarrow> (string \<times> 'a) list \<Rightarrow> 'a list" where
  "only_in xs ys = map snd (filter (\<lambda>x. map_of ys (fst x) = None) xs)"

definition differing_fields :: "('a \<Rightarrow> json) \<Rightarrow> 'a \<Rightarrow> 'a \<Rightarrow> string list" where
  "differing_fields to_value a b =
     sorted_list_of_set {k. member_differs (to_value a) (to_value b) k}"

definition change_of :: "('a \<Rightarrow> 'a \<Rightarrow> bool) \<Rightarrow> ('a \<Rightarrow> json) \<Rightarrow> (string \<times> 'a) list \<Rightarrow> string \<times> 'a \<Rightarrow> 'a ChangedRecord list" where
  "change_of eq to_value ys x = (case map_of ys (fst x) of
     None \<Rightarrow> []
   | Some b \<Rightarrow> if eq (snd x) b then []
       else [\<lparr>changed_id = fst x, changed_changed_fields = differing_fields to_value (snd x) b,
         changed_before = snd x, changed_after = b\<rparr>])"

definition changes :: "('a \<Rightarrow> 'a \<Rightarrow> bool) \<Rightarrow> ('a \<Rightarrow> json) \<Rightarrow> (string \<times> 'a) list \<Rightarrow> (string \<times> 'a) list \<Rightarrow> 'a ChangedRecord list" where
  "changes eq to_value xs ys = concat (map (change_of eq to_value ys) xs)"

definition serializes_objects :: "('a \<Rightarrow> json) \<Rightarrow> bool" where
  "serializes_objects to_value \<longleftrightarrow> (\<forall>x. \<exists>ms. to_value x = Object ms)"

lemma changed_fields_eq:
  assumes "serializes_objects to_value"
  shows "changed_fields to_value a b = Inr (differing_fields to_value a b)"
proof -
  obtain ms ns where v: "to_value a = Object ms" "to_value b = Object ns"
    using assms unfolding serializes_objects_def by metis
  let ?keys = "bs_of_list (map fst ms @ map fst ns)"
  let ?changed = "filter (\<lambda>k. \<not> opt_same (map_of ms k) (map_of ns k)) ?keys"
  have "map_of ms k = None \<and> map_of ns k = None" if "k \<notin> set ?keys" for k
    using that by (auto simp: map_of_eq_None_iff)
  then have set: "set ?changed = {k. member_differs (to_value a) (to_value b) k}"
    unfolding member_differs_def v by (auto) (metis opt_same.simps(2))
  have "strict_sorted ?changed" by (intro sorted_wrt_filter strict_sorted_bs_of_list)
  then have "sorted ?changed" "distinct ?changed" unfolding strict_sorted_iff by simp_all
  then have "?changed = differing_fields to_value a b"
    unfolding differing_fields_def set [symmetric] by (rule sorted_list_of_set.idem_if_sorted_distinct [symmetric])
  then show ?thesis by (simp add: changed_fields_def v)
qed

lemma only_in_skip: "j \<notin> fst ` set xs \<Longrightarrow> only_in xs ((j, b) # ys) = only_in xs ys"
  unfolding only_in_def by (intro arg_cong [where f = "map snd"] filter_cong) auto

lemma changes_skip: "j \<notin> fst ` set xs \<Longrightarrow> changes eq to_value xs ((j, b) # ys) = changes eq to_value xs ys"
  unfolding changes_def by (intro arg_cong [where f = concat] map_cong) (auto simp: change_of_def)

lemma only_in_simps:
  "only_in [] ys = []" "only_in xs [] = map snd xs" "changes eq to_value [] ys = []" "changes eq to_value xs [] = []"
  "only_in (x # xs) ys = (if map_of ys (fst x) = None then snd x # only_in xs ys else only_in xs ys)"
  "changes eq to_value (x # xs) ys = change_of eq to_value ys x @ changes eq to_value xs ys"
  by (auto simp: only_in_def changes_def change_of_def)

lemma diff_merge_eq:
  assumes tv: "serializes_objects to_value"
  shows "strict_sorted (map fst xs) \<Longrightarrow> strict_sorted (map fst ys) \<Longrightarrow>
    diff_merge eq to_value xs ys out =
      Inr \<lparr>diff_added = diff_added out @ only_in ys xs, diff_removed = diff_removed out @ only_in xs ys,
        diff_changed = diff_changed out @ changes eq to_value xs ys\<rparr>"
  using tv
proof (induction eq to_value xs ys out rule: diff_merge.induct)
  case (4 eq to_value i a xs j b ys out)
  let ?xs = "(i, a) # xs" and ?ys = "(j, b) # ys"
  have sorted: "strict_sorted (map fst xs)" "strict_sorted (map fst ys)" using "4.prems" by simp_all
  have above: "\<forall>k\<in>fst ` set xs. i < k" "\<forall>k\<in>fst ` set ys. j < k" using "4.prems" by auto
  consider "i < j" | "j < i" | "i = j" by fastforce
  then show ?case
  proof cases
    case 1
    then have fresh: "i \<notin> fst ` set ?ys" using above(2) by auto
    then have none: "map_of ?ys i = None" by (simp only: map_of_eq_None_iff not_False_eq_True)
    have "only_in ?ys ?xs = only_in ?ys xs" using fresh by (rule only_in_skip)
    moreover have "only_in ?xs ?ys = a # only_in xs ?ys" "changes eq to_value ?xs ?ys = changes eq to_value xs ?ys"
      unfolding only_in_simps(5,6) by (simp_all only: fst_conv snd_conv none simp_thms if_True change_of_def option.case append_Nil)
    moreover have "diff_merge eq to_value ?xs ?ys out = diff_merge eq to_value xs ?ys (out\<lparr>diff_removed := diff_removed out @ [a]\<rparr>)"
      using 1 by simp
    ultimately show ?thesis
      using "4.IH"(1) [OF 1 sorted(1) "4.prems"(2,3)] by simp
  next
    case 2
    then have fresh: "j \<notin> fst ` set ?xs" using above(1) by auto
    then have none: "map_of ?xs j = None" by (simp only: map_of_eq_None_iff not_False_eq_True)
    have "only_in ?xs ?ys = only_in ?xs ys" "changes eq to_value ?xs ?ys = changes eq to_value ?xs ys"
      using fresh by (rule only_in_skip, rule changes_skip)
    moreover have "only_in ?ys ?xs = b # only_in ys ?xs"
      unfolding only_in_simps(5) by (simp only: fst_conv snd_conv none simp_thms if_True)
    moreover have not: "\<not> i < j" using 2 by simp
    moreover have "diff_merge eq to_value ?xs ?ys out = diff_merge eq to_value ?xs ys (out\<lparr>diff_added := diff_added out @ [b]\<rparr>)"
      using 2 not by simp
    ultimately show ?thesis
      using "4.IH"(2) [OF not 2 "4.prems"(1) sorted(2) "4.prems"(3)] by simp
  next
    case 3
    have fresh: "i \<notin> fst ` set xs" "i \<notin> fst ` set ys" using above 3 by auto
    have skip: "only_in xs ((i, b) # ys) = only_in xs ys" "changes eq to_value xs ((i, b) # ys) = changes eq to_value xs ys"
      "only_in ys ((i, a) # xs) = only_in ys xs"
      by (rule only_in_skip [OF fresh(1)], rule changes_skip [OF fresh(1)], rule only_in_skip [OF fresh(2)])
    have step: "only_in ?xs ?ys = only_in xs ys" "only_in ?ys ?xs = only_in ys xs"
      "changes eq to_value ?xs ?ys = change_of eq to_value ?ys (i, a) @ changes eq to_value xs ys"
      using skip by (simp_all only: only_in_simps(5,6) 3 [symmetric] fst_conv map_of_Cons_code(2) if_True) auto
    have not: "\<not> i < j" "\<not> j < i" using 3 by simp_all
    show ?thesis
    proof (cases "eq a b")
      case True
      then show ?thesis using 3 "4.IH"(4) [OF not _ sorted "4.prems"(3)] by (simp add: step [unfolded 3] change_of_def)
    next
      case False
      then show ?thesis
        using 3 "4.IH"(3) [OF not False _ sorted "4.prems"(3)] changed_fields_eq [OF "4.prems"(3), of a b]
        by (simp add: step [unfolded 3] change_of_def)
    qed
  qed
qed (simp_all add: only_in_simps)

lemma ensure_unique_keys_iff:
  "sorted (map fst xs) \<Longrightarrow> ensure_unique_keys E xs = Inr () \<longleftrightarrow> distinct (map fst xs)"
proof (induction E xs rule: ensure_unique_keys.induct)
  case (1 E a b xs)
  then have "fst a \<notin> set (map fst (b # xs))" if "fst a \<noteq> fst b" using that by (auto simp: less_le)
  with 1 show ?case by auto
qed simp_all

lemma ensure_unique_keys_Inl:
  "ensure_unique_keys E xs = Inl e \<Longrightarrow>
    \<exists>k. e = Diff_Message (''snapshot diff input contains duplicate identity '' @ debug_str E k) \<and> 2 \<le> count_list (map fst xs) k"
proof (induction E xs rule: ensure_unique_keys.induct)
  case (1 E a b xs)
  show ?case
  proof (cases "fst a = fst b")
    case True
    with 1(2) show ?thesis by (intro exI [of _ "fst a"]) simp
  next
    case False
    with 1(2) have "ensure_unique_keys E (b # xs) = Inl e" by simp
    from 1(1) [OF False this] obtain k where k: "e = Diff_Message (''snapshot diff input contains duplicate identity '' @ debug_str E k)"
      "2 \<le> count_list (map fst (b # xs)) k" by blast
    moreover have "count_list (map fst (b # xs)) k \<le> count_list (map fst (a # b # xs)) k" by simp
    ultimately show ?thesis using order_trans by blast
  qed
qed simp_all

text \<open>The keyed records in key order.\<close>

definition keyed :: "('a \<Rightarrow> string) \<Rightarrow> 'a list \<Rightarrow> (string \<times> 'a) list" where
  "keyed identity xs = sort_key fst (keyed_records xs identity)"

lemma keyed_props:
  "sorted (map fst (keyed identity xs))" "set (keyed identity xs) = (\<lambda>x. (identity x, x)) ` set xs"
  "distinct (map fst (keyed identity xs)) \<longleftrightarrow> distinct (map identity xs)"
  "count_list (map fst (keyed identity xs)) k = count_list (map identity xs) k"
proof -
  show "sorted (map fst (keyed identity xs))" by (simp add: keyed_def)
  show "set (keyed identity xs) = (\<lambda>x. (identity x, x)) ` set xs" by (simp add: keyed_def keyed_records_def)
  have m: "mset (map fst (keyed identity xs)) = mset (map identity xs)"
    by (simp add: keyed_def keyed_records_def mset_map [symmetric] comp_def del: mset_map) (simp add: multiset.map_comp comp_def)
  then show "distinct (map fst (keyed identity xs)) \<longleftrightarrow> distinct (map identity xs)" by (rule mset_eq_imp_distinct_iff)
  show "count_list (map fst (keyed identity xs)) k = count_list (map identity xs) k"
    using m by (metis count_mset)
qed

lemma diff_records_eq:
  assumes tv: "serializes_objects to_value" and d: "distinct (map identity xs)" "distinct (map identity ys)"
  shows "diff_records E eq to_value xs ys identity = Inr
    \<lparr>diff_added = only_in (keyed identity ys) (keyed identity xs), diff_removed = only_in (keyed identity xs) (keyed identity ys),
     diff_changed = changes eq to_value (keyed identity xs) (keyed identity ys)\<rparr>"
proof -
  have "strict_sorted (map fst (keyed identity xs))" "strict_sorted (map fst (keyed identity ys))"
    using d by (simp_all add: strict_sorted_iff keyed_props)
  moreover have "ensure_unique_keys E (keyed identity xs) = Inr ()" "ensure_unique_keys E (keyed identity ys) = Inr ()"
    using d by (simp_all add: ensure_unique_keys_iff keyed_props)
  ultimately show ?thesis
    using diff_merge_eq [OF tv] by (simp add: diff_records_def keyed_def [symmetric] default_diff_def Let_def)
qed

lemma diff_records_duplicate:
  assumes "\<not> (distinct (map identity xs) \<and> distinct (map identity ys))"
  shows "\<exists>k. diff_records E eq to_value xs ys identity =
      Inl (Diff_Message (''snapshot diff input contains duplicate identity '' @ debug_str E k)) \<and>
    (2 \<le> count_list (map identity xs) k \<or> 2 \<le> count_list (map identity ys) k)"
proof (cases "ensure_unique_keys E (keyed identity xs)")
  case (Inl e)
  with ensure_unique_keys_Inl [OF Inl] show ?thesis
    by (auto simp: diff_records_def keyed_def [symmetric] keyed_props)
next
  case (Inr u)
  then have "distinct (map identity xs)" using ensure_unique_keys_iff [of "keyed identity xs" E] keyed_props by (simp add: keyed_props)
  with assms have "ensure_unique_keys E (keyed identity ys) \<noteq> Inr ()"
    by (simp add: ensure_unique_keys_iff keyed_props)
  then obtain e where e: "ensure_unique_keys E (keyed identity ys) = Inl e"
    by (cases "ensure_unique_keys E (keyed identity ys)") auto
  from ensure_unique_keys_Inl [OF e] Inr e show ?thesis
    by (auto simp: diff_records_def keyed_def [symmetric] keyed_props)
qed

text \<open>
  C10: Comparing two lists of records is exact. With unique identities the added and removed records are those
  whose identity occurs on one side only, in the order of their identity, and a changed record is reported for
  exactly the identities on both sides whose records differ, with the fields that differ, sorted; a repeated
  identity on either side is refused with an error that names it.
\<close>

theorem diff_records_exact:
  assumes "serializes_objects to_value"
  shows "if distinct (map identity xs) \<and> distinct (map identity ys)
    then diff_records E eq to_value xs ys identity = Inr
      \<lparr>diff_added = only_in (keyed identity ys) (keyed identity xs), diff_removed = only_in (keyed identity xs) (keyed identity ys),
       diff_changed = changes eq to_value (keyed identity xs) (keyed identity ys)\<rparr>
    else \<exists>k. diff_records E eq to_value xs ys identity =
        Inl (Diff_Message (''snapshot diff input contains duplicate identity '' @ debug_str E k)) \<and>
      (2 \<le> count_list (map identity xs) k \<or> 2 \<le> count_list (map identity ys) k)"
  using diff_records_eq [OF assms, of identity xs ys E eq] diff_records_duplicate [of identity xs ys E eq to_value] by auto

lemma node_value_object: "serializes_objects node_value"
  by (simp add: serializes_objects_def node_value_def)

theorem diff_records_exact_witness:
  "diff_records example_externals node_eq node_value [example_node ''b'' ''file'', example_node ''a'' ''file'']
      [example_node ''b'' ''type'', example_node ''c'' ''file''] node_id = Inr
    \<lparr>diff_added = [example_node ''c'' ''file''], diff_removed = [example_node ''a'' ''file''],
     diff_changed = [\<lparr>changed_id = ''b'',
       changed_changed_fields = differing_fields node_value (example_node ''b'' ''file'') (example_node ''b'' ''type''),
       changed_before = example_node ''b'' ''file'', changed_after = example_node ''b'' ''type''\<rparr>]\<rparr>"
  using diff_records_exact [OF node_value_object, of node_id "[example_node ''b'' ''file'', example_node ''a'' ''file'']"
      "[example_node ''b'' ''type'', example_node ''c'' ''file'']" example_externals node_eq]
  by (simp add: keyed_def keyed_records_def only_in_def changes_def change_of_def example_node_def node_eq_def)

lemma set_differing_fields:
  assumes "serializes_objects to_value"
  shows "set (differing_fields to_value a b) = {k. member_differs (to_value a) (to_value b) k}"
proof -
  obtain ms ns where v: "to_value a = Object ms" "to_value b = Object ns"
    using assms unfolding serializes_objects_def by metis
  have "map_of ms k = None \<and> map_of ns k = None" if "k \<notin> fst ` set (ms @ ns)" for k
    using that by (simp add: map_of_eq_None_iff image_Un)
  then have "{k. member_differs (to_value a) (to_value b) k} \<subseteq> fst ` set (ms @ ns)"
    unfolding member_differs_def v by (auto) (metis opt_same.simps(2))
  then have "finite {k. member_differs (to_value a) (to_value b) k}" by (rule finite_subset) simp
  then show ?thesis by (simp add: differing_fields_def)
qed

lemma changed_fields_Nil_iff:
  assumes "serializes_objects to_value"
  shows "changed_fields to_value a b = Inr [] \<longleftrightarrow> (\<forall>k. \<not> member_differs (to_value a) (to_value b) k)"
  using set_differing_fields [OF assms, of a b] by (simp add: changed_fields_eq [OF assms] flip: set_empty)

text \<open>
  C37: The changed fields of two records are faithful to the equality of the records: no field is named exactly when
  the records are equal, so a changed node, site, edge or evidence record always names the fields that changed.
\<close>

theorem changed_fields_faithful:
  "(changed_fields node_value n n' = Inr [] \<longleftrightarrow> node_eq n n') \<and> (changed_fields site_value s s' = Inr [] \<longleftrightarrow> site_eq s s') \<and>
   (changed_fields edge_value e e' = Inr [] \<longleftrightarrow> edge_eq e e') \<and> (changed_fields evidence_value v v' = Inr [] \<longleftrightarrow> evidence_eq v v')"
  by (simp add: changed_fields_Nil_iff serializes_objects_def node_value_def site_value_def edge_value_def evidence_value_def
    node_eq_members [unfolded node_value_def] site_eq_members [unfolded site_value_def] edge_eq_members [unfolded edge_value_def]
    evidence_eq_members [unfolded evidence_value_def])

section \<open>Applying a difference\<close>

text \<open>Patching the old records with a difference: drop the removed and changed ones, add the new ones.\<close>

definition apply_diff :: "('a \<Rightarrow> string) \<Rightarrow> 'a RecordDiff \<Rightarrow> 'a list \<Rightarrow> 'a list" where
  "apply_diff identity d xs =
     filter (\<lambda>x. identity x \<notin> identity ` set (diff_removed d) \<and> identity x \<notin> changed_id ` set (diff_changed d)) xs
     @ map changed_after (diff_changed d) @ diff_added d"

lemma keyed_get: "distinct (map identity xs) \<Longrightarrow> map_of (keyed identity xs) k = Some x \<longleftrightarrow> x \<in> set xs \<and> identity x = k"
  using map_of_eq_Some_iff [of "keyed identity xs" k x] by (auto simp: keyed_props)

lemma keyed_None: "map_of (keyed identity xs) k = None \<longleftrightarrow> k \<notin> identity ` set xs"
  by (auto simp: map_of_eq_None_iff keyed_props image_image)

lemma set_only_in: "set (only_in (keyed identity xs) (keyed identity ys)) = {x \<in> set xs. identity x \<notin> identity ` set ys}"
  by (force simp: only_in_def keyed_None keyed_props)

lemma set_changes:
  assumes "distinct (map identity xs)" and "distinct (map identity ys)"
  shows "set (changes eq to_value (keyed identity xs) (keyed identity ys)) =
    (\<lambda>(x, y). \<lparr>changed_id = identity x, changed_changed_fields = differing_fields to_value x y, changed_before = x, changed_after = y\<rparr>) `
      {(x, y). x \<in> set xs \<and> y \<in> set ys \<and> identity x = identity y \<and> \<not> eq x y}"
proof -
  have member: "c \<in> set (change_of eq to_value (keyed identity ys) (identity x, x)) \<longleftrightarrow>
      (\<exists>y. y \<in> set ys \<and> identity x = identity y \<and> \<not> eq x y \<and>
        c = \<lparr>changed_id = identity x, changed_changed_fields = differing_fields to_value x y, changed_before = x, changed_after = y\<rparr>)"
    for c x
  proof (cases "map_of (keyed identity ys) (identity x)")
    case None
    then have "identity x \<notin> identity ` set ys" by (simp add: keyed_None)
    with None show ?thesis by (auto simp: change_of_def)
  next
    case (Some y)
    then have y: "y \<in> set ys" "identity y = identity x" using keyed_get [OF assms(2)] by auto
    have uniq: "y' = y" if "y' \<in> set ys" "identity x = identity y'" for y'
      using that Some keyed_get [OF assms(2), of "identity x" y'] by simp
    have "c \<in> set (change_of eq to_value (keyed identity ys) (identity x, x)) \<longleftrightarrow> \<not> eq x y \<and>
        c = \<lparr>changed_id = identity x, changed_changed_fields = differing_fields to_value x y, changed_before = x, changed_after = y\<rparr>"
      using Some by (simp add: change_of_def)
    then show ?thesis using y(1) y(2) [symmetric] by (blast dest: uniq)
  qed
  have "set (changes eq to_value (keyed identity xs) (keyed identity ys)) =
      (\<Union>x\<in>set xs. set (change_of eq to_value (keyed identity ys) (identity x, x)))"
    by (simp add: changes_def keyed_props)
  then show ?thesis by (simp only: set_eq_iff UN_iff member mem_Collect_eq image_iff) auto
qed

text \<open>What a patch keeps and what it brings in, for identities that are unique on both sides.\<close>

lemma patch_kept:
  assumes inj: "inj_on f X" "inj_on f Y"
  shows "{x \<in> X. f x \<notin> f ` {x \<in> X. f x \<notin> f ` Y} \<and> f x \<notin> {f x | x y. x \<in> X \<and> y \<in> Y \<and> f x = f y \<and> \<not> eq x y}} =
    {x \<in> X. \<exists>y\<in>Y. f x = f y \<and> eq x y}" (is "?L = ?R")
proof (rule Collect_cong, rule conj_cong [OF refl])
  fix x assume x: "x \<in> X"
  have removed: "f x \<in> f ` {x \<in> X. f x \<notin> f ` Y} \<longleftrightarrow> f x \<notin> f ` Y"
  proof
    assume "f x \<notin> f ` Y"
    with x have "x \<in> {x \<in> X. f x \<notin> f ` Y}" by simp
    then show "f x \<in> f ` {x \<in> X. f x \<notin> f ` Y}" by (rule imageI)
  qed (elim imageE, simp)
  have changed: "f x \<in> {f x | x y. x \<in> X \<and> y \<in> Y \<and> f x = f y \<and> \<not> eq x y} \<longleftrightarrow> (\<exists>y\<in>Y. f x = f y \<and> \<not> eq x y)"
  proof
    assume "f x \<in> {f x | x y. x \<in> X \<and> y \<in> Y \<and> f x = f y \<and> \<not> eq x y}"
    then obtain x' y where x': "f x = f x'" "x' \<in> X" "y \<in> Y" "f x' = f y" "\<not> eq x' y" by auto
    have "x = x'" using inj_onD [OF inj(1) x'(1) x x'(2)] .
    with x' show "\<exists>y\<in>Y. f x = f y \<and> \<not> eq x y" by auto
  qed (use x in auto)
  have one: "eq x y'" if "y \<in> Y" "f x = f y" "eq x y" "y' \<in> Y" "f x = f y'" for y y'
    using inj_onD [OF inj(2), of y y'] that by simp
  show "(f x \<notin> f ` {x \<in> X. f x \<notin> f ` Y} \<and> f x \<notin> {f x | x y. x \<in> X \<and> y \<in> Y \<and> f x = f y \<and> \<not> eq x y}) \<longleftrightarrow>
      (\<exists>y\<in>Y. f x = f y \<and> eq x y)"
    unfolding removed changed
  proof
    assume l: "\<not> f x \<notin> f ` Y \<and> \<not> (\<exists>y\<in>Y. f x = f y \<and> \<not> eq x y)"
    then have "f x \<in> f ` Y" by simp
    then obtain y where "y \<in> Y" "f x = f y" by (rule imageE) simp
    with l show "\<exists>y\<in>Y. f x = f y \<and> eq x y" by blast
  next
    assume "\<exists>y\<in>Y. f x = f y \<and> eq x y"
    then obtain y where y: "y \<in> Y" "f x = f y" "eq x y" by blast
    then have "f x \<in> f ` Y" by (simp add: image_iff) blast
    moreover have "\<not> (\<exists>y\<in>Y. f x = f y \<and> \<not> eq x y)" using one [OF y] by blast
    ultimately show "\<not> f x \<notin> f ` Y \<and> \<not> (\<exists>y\<in>Y. f x = f y \<and> \<not> eq x y)" by simp
  qed
qed

lemma patch_new:
  assumes inj: "inj_on f X"
  shows "{y. \<exists>x. x \<in> X \<and> y \<in> Y \<and> f x = f y \<and> \<not> eq x y} \<union> {y \<in> Y. f y \<notin> f ` X} =
    {y \<in> Y. \<forall>x\<in>X. f x = f y \<longrightarrow> \<not> eq x y}" (is "?L = ?R")
proof (intro subset_antisym subsetI)
  fix y assume y: "y \<in> ?L"
  have "\<not> eq x y" if x: "x \<in> X" "f x = f y" for x
  proof -
    from x have "f y \<in> f ` X" by (metis imageI)
    with y obtain x' where x': "x' \<in> X" "f x' = f y" "\<not> eq x' y" by auto
    have "x' = x" using inj_onD [OF inj, of x' x] x x' by simp
    with x'(3) show ?thesis by simp
  qed
  with y show "y \<in> ?R" by blast
next
  fix y assume "y \<in> ?R"
  then show "y \<in> ?L" by (cases "f y \<in> f ` X") auto
qed

lemma patch_inj:
  assumes inj: "inj_on f X" "inj_on f Y"
  shows "inj_on f ({x \<in> X. \<exists>y\<in>Y. f x = f y \<and> eq x y} \<union> {y \<in> Y. \<forall>x\<in>X. f x = f y \<longrightarrow> \<not> eq x y})" (is "inj_on f (?K \<union> ?N)")
proof -
  have apart: "f a \<noteq> f b" if "a \<in> ?K" "b \<in> ?N" for a b
  proof
    assume ab: "f a = f b"
    from that(1) obtain y where y: "a \<in> X" "y \<in> Y" "f a = f y" "eq a y" by blast
    have "y = b" using inj_onD [OF inj(2), of y b] y ab that(2) by simp
 
    with y ab that(2) show False by auto
  qed
  have "inj_on f ?K" "inj_on f ?N" using inj by (auto intro: inj_on_subset)
  moreover have "f ` (?K - ?N) \<inter> f ` (?N - ?K) = {}"
  proof (rule equals0I, elim IntE imageE)
    fix k a b assume "k = f a" "a \<in> ?K - ?N" "k = f b" "b \<in> ?N - ?K"
    with apart [of a b] show False by simp
  qed
  ultimately show ?thesis by (simp add: inj_on_Un)
qed

text \<open>
  C36: A difference is a patch. Applied to the old records, the difference of two lists of records with unique
  identities yields exactly one record for every identity of the new records and no other, and that record is
  the new one, or an old one that is equal to it.
\<close>

theorem diff_records_patch:
  assumes "serializes_objects to_value" and "distinct (map identity xs)" and "distinct (map identity ys)"
    and "diff_records E eq to_value xs ys identity = Inr d"
  shows "identity ` set (apply_diff identity d xs) = identity ` set ys \<and>
    (\<forall>z\<in>set (apply_diff identity d xs). \<exists>y\<in>set ys. identity y = identity z \<and> (z = y \<or> eq z y)) \<and>
    inj_on identity (set (apply_diff identity d xs))"
proof -
  have d: "d = \<lparr>diff_added = only_in (keyed identity ys) (keyed identity xs), diff_removed = only_in (keyed identity xs) (keyed identity ys),
     diff_changed = changes eq to_value (keyed identity xs) (keyed identity ys)\<rparr>"
    using assms(4) by (simp add: diff_records_eq [OF assms(1-3)])
  have inj: "inj_on identity (set xs)" "inj_on identity (set ys)" using assms(2,3) by (simp_all add: distinct_map)
  have patched: "set (apply_diff identity d xs) =
      {x \<in> set xs. \<exists>y\<in>set ys. identity x = identity y \<and> eq x y} \<union>
      {y \<in> set ys. \<forall>x\<in>set xs. identity x = identity y \<longrightarrow> \<not> eq x y}"
  proof -
    have removed: "set (diff_removed d) = {x \<in> set xs. identity x \<notin> identity ` set ys}" by (simp add: d set_only_in)
    have added: "set (diff_added d) = {y \<in> set ys. identity y \<notin> identity ` set xs}" by (simp add: d set_only_in)
    have changed: "changed_id ` set (diff_changed d) = {identity x | x y. x \<in> set xs \<and> y \<in> set ys \<and> identity x = identity y \<and> \<not> eq x y}"
      "changed_after ` set (diff_changed d) = {y. \<exists>x. x \<in> set xs \<and> y \<in> set ys \<and> identity x = identity y \<and> \<not> eq x y}"
      unfolding d RecordDiff.simps set_changes [OF assms(2,3)] image_image case_prod_beta
      by (simp_all add: image_def) metis
    show ?thesis
      unfolding apply_diff_def set_append set_map set_filter removed changed added patch_kept [OF inj] patch_new [OF inj(1)] by (rule refl)
  qed
  show ?thesis
  proof (intro conjI)
    show "identity ` set (apply_diff identity d xs) = identity ` set ys"
    proof (intro subset_antisym subsetI)
      fix k assume "k \<in> identity ` set ys"
      then obtain y where y: "y \<in> set ys" "k = identity y" by blast
      show "k \<in> identity ` set (apply_diff identity d xs)"
      proof (cases "\<exists>x\<in>set xs. identity x = identity y \<and> eq x y")
        case True
        then obtain x where "x \<in> set xs" "identity x = identity y" "eq x y" by blast
        with y show ?thesis unfolding patched by (intro image_eqI [of _ _ x]) auto
      next
        case False
        with y show ?thesis unfolding patched by (intro image_eqI [of _ _ y]) auto
      qed
    qed (auto simp: patched)
    show "\<forall>z\<in>set (apply_diff identity d xs). \<exists>y\<in>set ys. identity y = identity z \<and> (z = y \<or> eq z y)"
      unfolding patched by auto
    show "inj_on identity (set (apply_diff identity d xs))" unfolding patched by (rule patch_inj [OF inj])
  qed
qed

theorem diff_records_patch_witness:
  "\<exists>d. diff_records example_externals node_eq node_value [example_node ''b'' ''file'', example_node ''a'' ''file'']
      [example_node ''b'' ''type'', example_node ''c'' ''file''] node_id = Inr d \<and>
    node_id ` set (apply_diff node_id d [example_node ''b'' ''file'', example_node ''a'' ''file'']) = {''b'', ''c''}"
proof -
  let ?xs = "[example_node ''b'' ''file'', example_node ''a'' ''file'']" and ?ys = "[example_node ''b'' ''type'', example_node ''c'' ''file'']"
  have d: "distinct (map node_id ?xs)" "distinct (map node_id ?ys)" by (simp_all add: example_node_def)
  obtain d where run: "diff_records example_externals node_eq node_value ?xs ?ys node_id = Inr d"
    using diff_records_eq [OF node_value_object d] by blast
  from diff_records_patch [OF node_value_object d run]
  have "node_id ` set (apply_diff node_id d ?xs) = {''b'', ''c''}" by (simp add: example_node_def)
  with run show ?thesis by blast
qed

end
