(* ===== verification/Node_Rename.thy ===== *)
theory Node_Rename
  imports Snapshot_Diff
begin

text \<open>
  Correctness of the rename detection of \<^verbatim>\<open>crates/depgraph-store/src/diff.rs\<close>. \<open>pair_matches\<close> is the reference
  for one key function: both nodes have the same key and the key does not stand for too many pairs. A match is
  promoted to a rename exactly when it is the only match of both nodes and some strong key supports it.
\<close>

section \<open>Signals of one key function\<close>

definition key_indices :: "match_key \<Rightarrow> NodeRecord list \<Rightarrow> NodeRenameEvidence list \<Rightarrow> string \<Rightarrow> nat list" where
  "key_indices key nodes evidence k = filter (\<lambda>i. key (nodes ! i) (evidence ! i) = Some k) [0..<length nodes]"

definition pair_matches :: "RenameSides \<Rightarrow> match_key \<Rightarrow> nat \<Rightarrow> nat \<Rightarrow> bool" where
  "pair_matches sides key r a \<longleftrightarrow>
     (\<exists>k. r \<in> set (key_indices key (side_removed sides) (side_removed_evidence sides) k) \<and>
        a \<in> set (key_indices key (side_added sides) (side_added_evidence sides) k) \<and>
        length (key_indices key (side_removed sides) (side_removed_evidence sides) k)
          * length (key_indices key (side_added sides) (side_added_evidence sides) k) \<le> MAX_RENAME_CANDIDATE_PAIRS_PER_KEY)"

lemma indices_by_key_get:
  "bm_invar (indices_by_key key nodes evidence)"
  "bm_get (indices_by_key key nodes evidence) k =
     (if key_indices key nodes evidence k = [] then None else Some (key_indices key nodes evidence k))"
proof -
  let ?f = "\<lambda>i by_key. case key (nodes ! i) (evidence ! i) of None \<Rightarrow> by_key | Some k \<Rightarrow> bm_entry [] k (\<lambda>is. is @ [i]) by_key"
  have "bm_invar (fold ?f is []) \<and> bm_get (fold ?f is []) k =
      (let hits = filter (\<lambda>i. key (nodes ! i) (evidence ! i) = Some k) is in if hits = [] then None else Some hits)" for "is"
  proof (induction "is" rule: rev_induct)
    case (snoc i "is")
    then show ?case by (auto simp: bm_get_entry Let_def split: option.splits)
  qed simp
  from this [of "[0..<length nodes]"] show "bm_invar (indices_by_key key nodes evidence)"
    "bm_get (indices_by_key key nodes evidence) k =
     (if key_indices key nodes evidence k = [] then None else Some (key_indices key nodes evidence k))"
    by (simp_all add: indices_by_key_def key_indices_def Let_def)
qed

text \<open>Signals are added for a list of distinct pairs.\<close>

definition signal_all :: "MatchStrength \<Rightarrow> string \<Rightarrow> (nat \<times> nat) list \<Rightarrow> match_signals \<Rightarrow> match_signals" where
  "signal_all strength reason pairs signals = fold (\<lambda>p. bm_entry no_signals p (add_signal strength reason)) pairs signals"

lemma signal_pairs_all: "signal_pairs rs as strength reason = signal_all strength reason (List.product rs as)"
proof
  fix signals
  show "signal_pairs rs as strength reason signals = signal_all strength reason (List.product rs as) signals"
    by (induction rs arbitrary: signals) (simp_all add: signal_pairs_def signal_all_def fold_map comp_def)
qed

lemma signal_all_get:
  assumes "distinct pairs" and "bm_invar signals"
  shows "bm_invar (signal_all strength reason pairs signals)"
    and "bm_get (signal_all strength reason pairs signals) p = (if p \<in> set pairs
      then Some (add_signal strength reason (case bm_get signals p of None \<Rightarrow> no_signals | Some s \<Rightarrow> s)) else bm_get signals p)"
proof -
  have "bm_invar (signal_all strength reason pairs signals) \<and>
    bm_get (signal_all strength reason pairs signals) p = (if p \<in> set pairs
      then Some (add_signal strength reason (case bm_get signals p of None \<Rightarrow> no_signals | Some s \<Rightarrow> s)) else bm_get signals p)"
    using assms
  proof (induction pairs arbitrary: signals)
    case (Cons q pairs)
    have step: "signal_all strength reason (q # pairs) signals =
        signal_all strength reason pairs (bm_entry no_signals q (add_signal strength reason) signals)"
      by (simp add: signal_all_def)
    show ?case
      unfolding step using Cons.prems Cons.IH [of "bm_entry no_signals q (add_signal strength reason) signals"]
      by (auto simp: bm_get_entry)
  qed (simp add: signal_all_def)
  then show "bm_invar (signal_all strength reason pairs signals)"
    "bm_get (signal_all strength reason pairs signals) p = (if p \<in> set pairs
      then Some (add_signal strength reason (case bm_get signals p of None \<Rightarrow> no_signals | Some s \<Rightarrow> s)) else bm_get signals p)"
    by blast+
qed

definition key_pairs :: "RenameSides \<Rightarrow> match_key \<Rightarrow> string \<times> nat list \<Rightarrow> (nat \<times> nat) list" where
  "key_pairs sides key entry =
     (case bm_get (indices_by_key key (side_added sides) (side_added_evidence sides)) (fst entry) of
        None \<Rightarrow> []
      | Some added \<Rightarrow> if length (snd entry) * length added \<le> MAX_RENAME_CANDIDATE_PAIRS_PER_KEY
          then List.product (snd entry) added else [])"

definition matched_pairs :: "RenameSides \<Rightarrow> match_key \<Rightarrow> (nat \<times> nat) list" where
  "matched_pairs sides key =
     concat (map (key_pairs sides key) (indices_by_key key (side_removed sides) (side_removed_evidence sides)))"

lemma add_match_signal_all:
  "add_match_signal sides key strength reason = signal_all strength reason (matched_pairs sides key)"
proof
  fix signals
  let ?added = "indices_by_key key (side_added sides) (side_added_evidence sides)"
  let ?f = "\<lambda>(k, removed_indices) signals. case bm_get ?added k of None \<Rightarrow> signals
    | Some added_indices \<Rightarrow> (case checked_mul (length removed_indices) (length added_indices) of
        None \<Rightarrow> signals
      | Some pairs \<Rightarrow> if pairs > MAX_RENAME_CANDIDATE_PAIRS_PER_KEY then signals
          else signal_pairs removed_indices added_indices strength reason signals)"
  have step: "?f entry signals = signal_all strength reason (key_pairs sides key entry) signals" for entry signals
    by (cases entry) (auto simp: key_pairs_def signal_pairs_all checked_mul_def u64_max_def limit_simps signal_all_def
      split: option.splits if_splits)
  have "fold ?f entries signals = signal_all strength reason (concat (map (key_pairs sides key) entries)) signals" for entries signals
    by (induction entries arbitrary: signals) (simp_all add: step, simp_all add: signal_all_def)
  then show "add_match_signal sides key strength reason signals = signal_all strength reason (matched_pairs sides key) signals"
    by (simp add: add_match_signal_def matched_pairs_def)
qed

lemma set_matched_pairs: "set (matched_pairs sides key) = {(r, a). pair_matches sides key r a}"
proof -
  let ?R = "key_indices key (side_removed sides) (side_removed_evidence sides)"
  let ?A = "key_indices key (side_added sides) (side_added_evidence sides)"
  have entries: "(k, rs) \<in> set (indices_by_key key (side_removed sides) (side_removed_evidence sides)) \<longleftrightarrow> ?R k \<noteq> [] \<and> rs = ?R k" for k rs
    using bm.in_entries_iff [OF indices_by_key_get(1), of k rs key "side_removed sides" "side_removed_evidence sides"]
      indices_by_key_get(2) [of key "side_removed sides" "side_removed_evidence sides" k] by auto
  have pairs: "set (key_pairs sides key (k, rs)) =
      (if length rs * length (?A k) \<le> MAX_RENAME_CANDIDATE_PAIRS_PER_KEY then set rs \<times> set (?A k) else {})" for k rs
    by (simp add: key_pairs_def indices_by_key_get(2))
  have "(r, a) \<in> set (matched_pairs sides key) \<longleftrightarrow> pair_matches sides key r a" for r a
  proof -
    have "(r, a) \<in> set (matched_pairs sides key) \<longleftrightarrow> (\<exists>k. ?R k \<noteq> [] \<and> (r, a) \<in> set (key_pairs sides key (k, ?R k)))"
      unfolding matched_pairs_def using entries by (auto simp: set_concat)
    also have "\<dots> \<longleftrightarrow> pair_matches sides key r a"
    proof -
      have "?R k \<noteq> [] \<and> (r, a) \<in> set (key_pairs sides key (k, ?R k)) \<longleftrightarrow>
          r \<in> set (?R k) \<and> a \<in> set (?A k) \<and> length (?R k) * length (?A k) \<le> MAX_RENAME_CANDIDATE_PAIRS_PER_KEY" for k
        unfolding pairs by auto
      then show ?thesis by (simp only: pair_matches_def)
    qed
    finally show ?thesis .
  qed
  then show ?thesis by auto
qed

lemma distinct_matched_pairs: "distinct (matched_pairs sides key)"
proof -
  let ?E = "indices_by_key key (side_removed sides) (side_removed_evidence sides)"
  let ?R = "key_indices key (side_removed sides) (side_removed_evidence sides)"
  have entry: "snd e = ?R (fst e)" if "e \<in> set ?E" for e
    using bm.in_entries_iff [OF indices_by_key_get(1), of "fst e" "snd e" key "side_removed sides" "side_removed_evidence sides"]
      indices_by_key_get(2) [of key "side_removed sides" "side_removed_evidence sides" "fst e"] that by (auto split: if_splits)
  have "distinct (concat (map (key_pairs sides key) es))" if "distinct (map fst es)" "set es \<subseteq> set ?E" for es
    using that
  proof (induction es)
    case (Cons e es)
    have own: "r \<in> set (?R (fst f))" if "f \<in> set (e # es)" "(r, a) \<in> set (key_pairs sides key f)" for f r a
      using that entry [of f] Cons.prems(2) by (auto simp: key_pairs_def split: option.splits if_splits)
    have "distinct (key_pairs sides key e)"
      using entry [of e] Cons.prems(2)
      by (auto simp: key_pairs_def indices_by_key_get(2) key_indices_def distinct_product split: if_splits)
    moreover have "set (key_pairs sides key e) \<inter> set (key_pairs sides key f) = {}" if "f \<in> set es" for f
    proof -
      have "fst e \<noteq> fst f" using Cons.prems(1) that by auto
      then have "set (?R (fst e)) \<inter> set (?R (fst f)) = {}" by (auto simp: key_indices_def)
      then show ?thesis using own [of e] own [of f] that by fastforce
    qed
    ultimately show ?case using Cons by auto
  qed simp
  then show ?thesis
    using bm_invar_distinct [OF indices_by_key_get(1)] by (simp add: matched_pairs_def)
qed

lemma add_match_signal_get:
  assumes "bm_invar signals"
  shows "bm_invar (add_match_signal sides key strength reason signals)"
    and "bm_get (add_match_signal sides key strength reason signals) (r, a) = (if pair_matches sides key r a
      then Some (add_signal strength reason (case bm_get signals (r, a) of None \<Rightarrow> no_signals | Some s \<Rightarrow> s)) else bm_get signals (r, a))"
  using signal_all_get [OF distinct_matched_pairs assms, of strength reason sides key]
  by (simp_all add: add_match_signal_all set_matched_pairs)

section \<open>Signals of all key functions\<close>

definition rename_rules :: "externals \<Rightarrow> (match_key \<times> MatchStrength \<times> string) list" where
  "rename_rules E =
     [(file_content_key E, Strength_Exact, ''same_file_content_hash_and_package''),
      (semantic_fingerprint_key E, Strength_Exact, ''same_semantic_fingerprint_identity_shape_and_package''),
      (semantic_source_content_key E, Strength_Exact, ''same_source_content_semantic_identity_shape_name_and_package''),
      (semantic_source_anchor_key E, Strength_High, ''same_source_anchor_semantic_identity_shape_and_package''),
      (local_or_anonymous_span_key E, Strength_Medium, ''same_local_or_anonymous_origin_source_and_package'')]"

text \<open>The rules that match a pair.\<close>

definition hits :: "externals \<Rightarrow> RenameSides \<Rightarrow> nat \<times> nat \<Rightarrow> (match_key \<times> MatchStrength \<times> string) list" where
  "hits E sides p = filter (\<lambda>rule. pair_matches sides (fst rule) (fst p) (snd p)) (rename_rules E)"

definition matches :: "externals \<Rightarrow> RenameSides \<Rightarrow> (nat \<times> nat) set" where
  "matches E sides = {p. hits E sides p \<noteq> []}"

definition strong :: "externals \<Rightarrow> RenameSides \<Rightarrow> nat \<times> nat \<Rightarrow> bool" where
  "strong E sides p \<longleftrightarrow> (\<exists>rule\<in>set (hits E sides p). strength_rank Strength_High \<le> strength_rank (fst (snd rule)))"

definition signals_of :: "(match_key \<times> MatchStrength \<times> string) list \<Rightarrow> MatchSignals" where
  "signals_of rules = fold (\<lambda>(_, strength, reason). add_signal strength reason) rules no_signals"

lemma signals_of_Nil [simp]: "signals_of [] = no_signals"
  by (simp add: signals_of_def)

lemma signals_of_snoc: "signals_of (rules @ [(key, strength, reason)]) = add_signal strength reason (signals_of rules)"
  by (simp add: signals_of_def)

lemma fold_rules_get:
  "bm_invar (fold (\<lambda>(key, strength, reason). add_match_signal sides key strength reason) rules []) \<and>
   bm_get (fold (\<lambda>(key, strength, reason). add_match_signal sides key strength reason) rules []) (r, a) =
     (let hit = filter (\<lambda>rule. pair_matches sides (fst rule) r a) rules in if hit = [] then None else Some (signals_of hit))"
proof (induction rules rule: rev_induct)
  case (snoc rule rules)
  obtain key strength reason where rule: "rule = (key, strength, reason)" by (cases rule)
  let ?s = "fold (\<lambda>(key, strength, reason). add_match_signal sides key strength reason) rules []"
  have inv: "bm_invar ?s" using snoc by blast
  have "signals_of [(key, strength, reason)] = add_signal strength reason no_signals"
    using signals_of_snoc [of "[]"] by simp
  then show ?case
    using snoc add_match_signal_get [OF inv, of sides key strength reason]
    by (auto simp: rule Let_def signals_of_snoc)
qed simp

lemma collect_signals_get:
  "bm_invar (collect_signals E sides)"
  "bm_get (collect_signals E sides) p = (if hits E sides p = [] then None else Some (signals_of (hits E sides p)))"
proof -
  have "collect_signals E sides = fold (\<lambda>(key, strength, reason). add_match_signal sides key strength reason) (rename_rules E) []"
    by (simp add: collect_signals_def rename_rules_def)
  then show "bm_invar (collect_signals E sides)"
    "bm_get (collect_signals E sides) p = (if hits E sides p = [] then None else Some (signals_of (hits E sides p)))"
    using fold_rules_get [of sides "rename_rules E" "fst p" "snd p"] by (simp_all add: hits_def Let_def)
qed

lemma signals_of_strength:
  assumes "rules \<noteq> []"
  shows "\<exists>s. signal_strength (signals_of rules) = Some s \<and>
    (strength_rank Strength_High \<le> strength_rank s \<longleftrightarrow> (\<exists>rule\<in>set rules. strength_rank Strength_High \<le> strength_rank (fst (snd rule))))"
  using assms
proof (induction rules rule: rev_induct)
  case (snoc rule rules)
  obtain key strength reason where rule: "rule = (key, strength, reason)" by (cases rule)
  show ?case
  proof (cases "rules = []")
    case True
    then show ?thesis by (simp add: rule signals_of_def add_signal_def no_signals_def)
  next
    case False
    with snoc.IH obtain s where s: "signal_strength (signals_of rules) = Some s"
      "strength_rank Strength_High \<le> strength_rank s \<longleftrightarrow> (\<exists>rule\<in>set rules. strength_rank Strength_High \<le> strength_rank (fst (snd rule)))"
      by blast
    show ?thesis
      unfolding rule signals_of_snoc by (auto simp: add_signal_def s(1)) (use s(2) in \<open>fastforce simp: rule\<close>)+
  qed
qed simp

section \<open>Degrees\<close>

lemma count_degree_nth:
  assumes "\<forall>i\<in>set is. i < n" and "j < n"
  shows "count_degree is n ! j = count_list is j"
proof -
  have "length (fold (\<lambda>i degree. degree[i := degree ! i + 1]) is ds) = length ds \<and>
      fold (\<lambda>i degree. degree[i := degree ! i + 1]) is ds ! j = ds ! j + count_list is j"
    if "\<forall>i\<in>set is. i < length ds" "j < length ds" for "is" and ds :: "nat list"
    using that
  proof (induction "is" arbitrary: ds)
    case (Cons i "is")
    then show ?case by (cases "i = j") auto
  qed simp
  from this [of "is" "replicate n 0"] assms show ?thesis by (simp add: count_degree_def)
qed

lemma count_list_card: "distinct xs \<Longrightarrow> count_list (map f xs) j = card {x \<in> set xs. f x = j}"
proof (induction xs)
  case (Cons x xs)
  have "{y \<in> set (x # xs). f y = j} = (if f x = j then insert x {y \<in> set xs. f y = j} else {y \<in> set xs. f y = j})" by auto
  with Cons show ?case by (simp add: card_insert_if)
qed simp

lemma keys_signals:
  "set (map fst (collect_signals E sides)) = matches E sides" "distinct (map fst (collect_signals E sides))"
proof -
  show "distinct (map fst (collect_signals E sides))" by (rule bm_invar_distinct [OF collect_signals_get(1)])
  have "p \<in> set (map fst (collect_signals E sides)) \<longleftrightarrow> bm_get (collect_signals E sides) p \<noteq> None" for p
    by (auto simp: bm_get_def map_of_eq_None_iff)
  also have "bm_get (collect_signals E sides) p \<noteq> None \<longleftrightarrow> p \<in> matches E sides" for p
    by (simp add: collect_signals_get(2) matches_def)
  finally show "set (map fst (collect_signals E sides)) = matches E sides" by blast
qed

lemma matches_range:
  assumes "(r, a) \<in> matches E sides"
  shows "r < length (side_removed sides)" and "a < length (side_added sides)"
  using assms by (auto simp: matches_def hits_def pair_matches_def key_indices_def filter_empty_conv)

definition removed_degree_of :: "externals \<Rightarrow> RenameSides \<Rightarrow> nat list" where
  "removed_degree_of E sides = count_degree (map (\<lambda>e. fst (fst e)) (collect_signals E sides)) (length (side_removed sides))"

definition added_degree_of :: "externals \<Rightarrow> RenameSides \<Rightarrow> nat list" where
  "added_degree_of E sides = count_degree (map (\<lambda>e. snd (fst e)) (collect_signals E sides)) (length (side_added sides))"

definition sole :: "externals \<Rightarrow> RenameSides \<Rightarrow> nat \<times> nat \<Rightarrow> bool" where
  "sole E sides p \<longleftrightarrow> (\<forall>q\<in>matches E sides. fst q = fst p \<or> snd q = snd p \<longrightarrow> q = p)"

lemma degrees:
  assumes "(r, a) \<in> matches E sides"
  shows "removed_degree_of E sides ! r = card {q \<in> matches E sides. fst q = r}"
    and "added_degree_of E sides ! a = card {q \<in> matches E sides. snd q = a}"
proof -
  let ?keys = "map fst (collect_signals E sides)"
  have range: "\<forall>i\<in>set (map fst ?keys). i < length (side_removed sides)" "\<forall>i\<in>set (map snd ?keys). i < length (side_added sides)"
    using matches_range keys_signals(1) [of E sides] by (metis imageE list.set_map prod.collapse)+
  have "removed_degree_of E sides ! r = count_list (map fst ?keys) r"
    unfolding removed_degree_of_def using count_degree_nth [OF range(1) matches_range(1) [OF assms]] by (simp add: comp_def)
  also have "\<dots> = card {q \<in> set ?keys. fst q = r}" using keys_signals(2) by (rule count_list_card)
  finally show "removed_degree_of E sides ! r = card {q \<in> matches E sides. fst q = r}" unfolding keys_signals(1) .
  have "added_degree_of E sides ! a = count_list (map snd ?keys) a"
    unfolding added_degree_of_def using count_degree_nth [OF range(2) matches_range(2) [OF assms]] by (simp add: comp_def)
  also have "\<dots> = card {q \<in> set ?keys. snd q = a}" using keys_signals(2) by (rule count_list_card)
  finally show "added_degree_of E sides ! a = card {q \<in> matches E sides. snd q = a}" unfolding keys_signals(1) .
qed

lemma card_one_iff:
  assumes "finite A" and "p \<in> A"
  shows "card A = 1 \<longleftrightarrow> (\<forall>q\<in>A. q = p)" and "card A \<noteq> 1 \<longleftrightarrow> 1 < card A"
proof -
  show "card A = 1 \<longleftrightarrow> (\<forall>q\<in>A. q = p)"
  proof
    assume "card A = 1"
    then obtain x where "A = {x}" by (rule card_1_singletonE)
    with assms(2) show "\<forall>q\<in>A. q = p" by simp
  next
    assume "\<forall>q\<in>A. q = p"
    then have "A = {p}" using assms(2) by blast
    then show "card A = 1" by simp
  qed
  have "card A \<noteq> 0" using assms by auto
  then show "card A \<noteq> 1 \<longleftrightarrow> 1 < card A" by auto
qed

lemma degrees_sole:
  assumes m: "(r, a) \<in> matches E sides"
  shows "removed_degree_of E sides ! r = 1 \<and> added_degree_of E sides ! a = 1 \<longleftrightarrow> sole E sides (r, a)"
    and "\<not> sole E sides (r, a) \<Longrightarrow> 1 < removed_degree_of E sides ! r \<or> 1 < added_degree_of E sides ! a"
proof -
  have fin: "finite (matches E sides)" unfolding keys_signals(1) [symmetric] by simp
  let ?R = "{q \<in> matches E sides. fst q = r}" and ?A = "{q \<in> matches E sides. snd q = a}"
  have R: "finite ?R" "(r, a) \<in> ?R" and A: "finite ?A" "(r, a) \<in> ?A" using fin m by auto
  have sole: "sole E sides (r, a) \<longleftrightarrow> (\<forall>q\<in>?R. q = (r, a)) \<and> (\<forall>q\<in>?A. q = (r, a))"
    unfolding sole_def fst_conv snd_conv by blast
  have one: "card ?R = 1 \<and> card ?A = 1 \<longleftrightarrow> sole E sides (r, a)"
    unfolding sole card_one_iff(1) [OF R] card_one_iff(1) [OF A] by (rule refl)
  show "removed_degree_of E sides ! r = 1 \<and> added_degree_of E sides ! a = 1 \<longleftrightarrow> sole E sides (r, a)"
    unfolding degrees [OF m] by (rule one)
  assume "\<not> sole E sides (r, a)"
  then have "card ?R \<noteq> 1 \<or> card ?A \<noteq> 1" unfolding one [symmetric] by (simp only: de_Morgan_conj)
  then show "1 < removed_degree_of E sides ! r \<or> 1 < added_degree_of E sides ! a"
    unfolding degrees [OF m] card_one_iff(2) [OF R] card_one_iff(2) [OF A] .
qed

section \<open>Renames\<close>

definition promoted :: "externals \<Rightarrow> RenameSides \<Rightarrow> nat \<times> nat \<Rightarrow> bool" where
  "promoted E sides p \<longleftrightarrow> sole E sides p \<and> strong E sides p"

text \<open>What the report of a matched pair says.\<close>

definition reports :: "externals \<Rightarrow> RenameSides \<Rightarrow> nat \<times> nat \<Rightarrow> NodeRename \<Rightarrow> bool" where
  "reports E sides p n \<longleftrightarrow>
     rename_before n = side_removed sides ! fst p \<and> rename_after n = side_added sides ! snd p \<and>
     rename_old_id n = node_id (side_removed sides ! fst p) \<and> rename_new_id n = node_id (side_added sides ! snd p) \<and>
     rename_changed_fields n = differing_fields node_value (side_removed sides ! fst p) (side_added sides ! snd p) \<and>
     (rename_confidence n = Confidence_Ambiguous \<longleftrightarrow> \<not> sole E sides p)"

lemma confidence_of_not_ambiguous [simp]: "confidence_of s \<noteq> Confidence_Ambiguous"
  by (cases s) simp_all

definition after_match :: "externals \<Rightarrow> RenameSides \<Rightarrow> nat \<times> nat \<Rightarrow> NodeRename \<Rightarrow> rename_state \<Rightarrow> rename_state" where
  "after_match E sides p n st = (if promoted E sides p
     then st\<lparr>renamed_removed := bs_insert (rename_old_id n) (renamed_removed st),
       renamed_added := bs_insert (rename_new_id n) (renamed_added st), found_renames := found_renames st @ [n]\<rparr>
     else st\<lparr>found_candidates := found_candidates st @ [n]\<rparr>)"

definition rename_entry :: "RenameSides \<Rightarrow> nat \<times> nat \<Rightarrow> RenameConfidence \<Rightarrow> string list \<Rightarrow> NodeRename" where
  "rename_entry sides p confidence reasons =
     (let before = side_removed sides ! fst p; after = side_added sides ! snd p in
      \<lparr>rename_kind = node_kind before, rename_old_id = node_id before, rename_new_id = node_id after,
       rename_confidence = confidence, rename_reasons = reasons, rename_changed_fields = differing_fields node_value before after,
       rename_before = before, rename_after = after, rename_old_evidence = side_removed_evidence sides ! fst p,
       rename_new_evidence = side_added_evidence sides ! snd p\<rparr>)"

lemma reports_entry:
  "reports E sides p (rename_entry sides p confidence reasons) \<longleftrightarrow> (confidence = Confidence_Ambiguous \<longleftrightarrow> \<not> sole E sides p)"
  by (simp add: reports_def rename_entry_def Let_def)

lemma judge_match_reports:
  assumes e: "(p, signal) \<in> set (collect_signals E sides)"
  shows "\<exists>n. reports E sides p n \<and>
    judge_match sides (removed_degree_of E sides) (added_degree_of E sides) (p, signal) st = Inr (after_match E sides p n st)"
proof -
  obtain r a where p: "p = (r, a)" by (cases p)
  have get: "bm_get (collect_signals E sides) p = Some signal"
    using e bm.in_entries_iff [OF collect_signals_get(1)] by simp
  then have hit: "hits E sides p \<noteq> []" and signal: "signal = signals_of (hits E sides p)"
    by (auto simp: collect_signals_get(2) split: if_splits)
  then have m: "(r, a) \<in> matches E sides" by (simp add: matches_def p)
  obtain s where s: "signal_strength signal = Some s" "strength_rank Strength_High \<le> strength_rank s \<longleftrightarrow> strong E sides p"
    using signals_of_strength [OF hit] unfolding signal strong_def by blast
  note unique = degrees_sole [OF m]
  show ?thesis
  proof (cases "sole E sides (r, a)")
    case True
    then have deg: "removed_degree_of E sides ! r = 1" "added_degree_of E sides ! a = 1" using unique(1) by simp_all
    have "\<exists>reasons. judge_match sides (removed_degree_of E sides) (added_degree_of E sides) (p, signal) st =
        Inr (after_match E sides p (rename_entry sides p (confidence_of s) reasons) st)"
      using s(2) True
      by (simp add: p judge_match_def deg s(1) changed_fields_eq [OF node_value_object] Let_def after_match_def promoted_def rename_entry_def)
        blast
    then show ?thesis using True reports_entry [of E sides p "confidence_of s"] by (auto simp: p)
  next
    case False
    then have deg: "\<not> (removed_degree_of E sides ! r = 1 \<and> added_degree_of E sides ! a = 1)" using unique(1) by simp
    have "\<exists>label. ambiguity_reason x y = Inr label" if "x \<or> y" for x y
      using that by (simp add: ambiguity_reason_def) blast
    then obtain label where label:
      "ambiguity_reason (removed_degree_of E sides ! r > 1) (added_degree_of E sides ! a > 1) = Inr label"
      using unique(2) [OF False] by blast
    have "\<exists>reasons. judge_match sides (removed_degree_of E sides) (added_degree_of E sides) (p, signal) st =
        Inr (after_match E sides p (rename_entry sides p Confidence_Ambiguous reasons) st)"
      unfolding p judge_match_def prod.case Let_def s(1) option.case if_not_P [OF deg] label sum_bind.simps
        changed_fields_eq [OF node_value_object]
      using deg False
      by (intro exI [of _ "bs_insert label (if \<not> opt_same (re_source_span (side_removed_evidence sides ! r))
            (re_source_span (side_added_evidence sides ! a)) \<and>
          is_local_or_anonymous (side_removed sides ! r) \<and> is_local_or_anonymous (side_added sides ! a)
        then bs_insert ''local_or_anonymous_source_span_changed'' (signal_reasons signal) else signal_reasons signal)"])
        (simp add: after_match_def promoted_def rename_entry_def Let_def del: de_Morgan_conj)
    then show ?thesis using False reports_entry [of E sides p Confidence_Ambiguous] by (auto simp: p)
  qed
qed

lemma judge_all:
  assumes "set entries \<subseteq> set (collect_signals E sides)"
  shows "\<exists>ns. list_all2 (reports E sides) (map fst entries) ns \<and>
    fold_m (judge_match sides (removed_degree_of E sides) (added_degree_of E sides)) entries st =
      Inr (fold (\<lambda>(p, n). after_match E sides p n) (zip (map fst entries) ns) st)"
  using assms
proof (induction entries arbitrary: st)
  case (Cons e entries)
  obtain p signal where e: "e = (p, signal)" by (cases e)
  obtain n where n: "reports E sides p n"
    "judge_match sides (removed_degree_of E sides) (added_degree_of E sides) e st = Inr (after_match E sides p n st)"
    using judge_match_reports [of p signal E sides st] Cons.prems unfolding e by auto
  obtain ns where "list_all2 (reports E sides) (map fst entries) ns"
    "fold_m (judge_match sides (removed_degree_of E sides) (added_degree_of E sides)) entries (after_match E sides p n st) =
      Inr (fold (\<lambda>(p, n). after_match E sides p n) (zip (map fst entries) ns) (after_match E sides p n st))"
    using Cons.IH [of "after_match E sides p n st"] Cons.prems by auto
  with n show ?case by (intro exI [of _ "n # ns"]) (simp add: e)
qed simp

text \<open>The state after all matches: promoted pairs are renames, the others candidates.\<close>

lemma after_matches:
  fixes st :: rename_state
  assumes "list_all2 (reports E sides) ps ns"
  defines "st' \<equiv> fold (\<lambda>(p, n). after_match E sides p n) (zip ps ns) st"
  shows "\<exists>rs cs. list_all2 (reports E sides) (filter (promoted E sides) ps) rs \<and>
    list_all2 (reports E sides) (filter (\<lambda>p. \<not> promoted E sides p) ps) cs \<and>
    found_renames st' = found_renames st @ rs \<and> found_candidates st' = found_candidates st @ cs \<and>
    set (renamed_removed st') = set (renamed_removed st) \<union> rename_old_id ` set rs \<and>
    set (renamed_added st') = set (renamed_added st) \<union> rename_new_id ` set rs"
  using assms(1) unfolding st'_def
proof (induction arbitrary: st rule: list_all2_induct)
  case (Cons p ps n ns)
  from Cons.IH [of "after_match E sides p n st"] obtain rs cs where
    IH: "list_all2 (reports E sides) (filter (promoted E sides) ps) rs"
      "list_all2 (reports E sides) (filter (\<lambda>p. \<not> promoted E sides p) ps) cs" and
    st: "found_renames (fold (\<lambda>(p, n). after_match E sides p n) (zip ps ns) (after_match E sides p n st)) =
        found_renames (after_match E sides p n st) @ rs"
      "found_candidates (fold (\<lambda>(p, n). after_match E sides p n) (zip ps ns) (after_match E sides p n st)) =
        found_candidates (after_match E sides p n st) @ cs"
      "set (renamed_removed (fold (\<lambda>(p, n). after_match E sides p n) (zip ps ns) (after_match E sides p n st))) =
        set (renamed_removed (after_match E sides p n st)) \<union> rename_old_id ` set rs"
      "set (renamed_added (fold (\<lambda>(p, n). after_match E sides p n) (zip ps ns) (after_match E sides p n st))) =
        set (renamed_added (after_match E sides p n st)) \<union> rename_new_id ` set rs"
    by blast
  show ?case
  proof (cases "promoted E sides p")
    case True
    have "found_renames (after_match E sides p n st) = found_renames st @ [n]"
      "found_candidates (after_match E sides p n st) = found_candidates st"
      "set (renamed_removed (after_match E sides p n st)) = insert (rename_old_id n) (set (renamed_removed st))"
      "set (renamed_added (after_match E sides p n st)) = insert (rename_new_id n) (set (renamed_added st))"
      using True by (simp_all add: after_match_def)
    with True Cons.hyps(1) IH st show ?thesis
      by - (rule exI [of _ "n # rs"], rule exI [of _ cs], simp)
  next
    case False
    have "found_renames (after_match E sides p n st) = found_renames st"
      "found_candidates (after_match E sides p n st) = found_candidates st @ [n]"
      "set (renamed_removed (after_match E sides p n st)) = set (renamed_removed st)"
      "set (renamed_added (after_match E sides p n st)) = set (renamed_added st)"
      using False by (simp_all add: after_match_def)
    with False Cons.hyps(1) IH st show ?thesis
      by - (rule exI [of _ rs], rule exI [of _ "n # cs"], simp)
  qed
qed simp

lemma signals_keys_sorted: "map fst (collect_signals E sides) = sorted_list_of_set (matches E sides)"
proof -
  have "strict_sorted (map fst (collect_signals E sides))"
    using collect_signals_get(1) [of E sides] by (simp add: bm_invar_def)
  then have "sorted (map fst (collect_signals E sides))" "distinct (map fst (collect_signals E sides))"
    unfolding strict_sorted_iff by simp_all
  then show ?thesis using keys_signals(1) [of E sides] by (metis sorted_list_of_set.idem_if_sorted_distinct)
qed

lemma detect_node_renames_eq:
  fixes nodes :: "NodeRecord RecordDiff" and from_records to_records :: "(string, EvidenceRecord list) bmap"
    and from_hashes to_hashes :: "(string, string) bmap"
  defines "sides \<equiv> rename_sides nodes from_records to_records from_hashes to_hashes"
  shows "\<exists>renames candidates.
    list_all2 (reports E sides) (filter (promoted E sides) (sorted_list_of_set (matches E sides))) renames \<and>
    list_all2 (reports E sides) (filter (\<lambda>p. \<not> promoted E sides p) (sorted_list_of_set (matches E sides))) candidates \<and>
    detect_node_renames E nodes from_records to_records from_hashes to_hashes =
      Inr (nodes\<lparr>diff_removed := filter (\<lambda>node. node_id node \<notin> rename_old_id ` set renames) (diff_removed nodes),
        diff_added := filter (\<lambda>node. node_id node \<notin> rename_new_id ` set renames) (diff_added nodes)\<rparr>, renames, candidates)"
proof -
  let ?st = "\<lparr>renamed_removed = [], renamed_added = [], found_renames = [], found_candidates = []\<rparr>"
  obtain ns where ns: "list_all2 (reports E sides) (map fst (collect_signals E sides)) ns"
    and run: "fold_m (judge_match sides (removed_degree_of E sides) (added_degree_of E sides)) (collect_signals E sides) ?st =
      Inr (fold (\<lambda>(p, n). after_match E sides p n) (zip (map fst (collect_signals E sides)) ns) ?st)"
    using judge_all [OF subset_refl] by blast
  have side: "side_removed sides = diff_removed nodes" "side_added sides = diff_added nodes"
    by (simp_all add: sides_def rename_sides_def)
  have code: "detect_node_renames E nodes from_records to_records from_hashes to_hashes =
      (let st = fold (\<lambda>(p, n). after_match E sides p n) (zip (map fst (collect_signals E sides)) ns) ?st in
       Inr (nodes\<lparr>diff_removed := filter (\<lambda>node. node_id node \<notin> set (renamed_removed st)) (diff_removed nodes),
             diff_added := filter (\<lambda>node. node_id node \<notin> set (renamed_added st)) (diff_added nodes)\<rparr>,
           found_renames st, found_candidates st))"
    unfolding detect_node_renames_def Let_def sides_def [symmetric] side [symmetric]
      removed_degree_of_def [symmetric] added_degree_of_def [symmetric] run
    by (simp add: bs_contains_def)
  from after_matches [OF ns, of ?st] obtain rs cs where
    "list_all2 (reports E sides) (filter (promoted E sides) (map fst (collect_signals E sides))) rs"
    "list_all2 (reports E sides) (filter (\<lambda>p. \<not> promoted E sides p) (map fst (collect_signals E sides))) cs"
    "found_renames (fold (\<lambda>(p, n). after_match E sides p n) (zip (map fst (collect_signals E sides)) ns) ?st) = rs"
    "found_candidates (fold (\<lambda>(p, n). after_match E sides p n) (zip (map fst (collect_signals E sides)) ns) ?st) = cs"
    "set (renamed_removed (fold (\<lambda>(p, n). after_match E sides p n) (zip (map fst (collect_signals E sides)) ns) ?st)) = rename_old_id ` set rs"
    "set (renamed_added (fold (\<lambda>(p, n). after_match E sides p n) (zip (map fst (collect_signals E sides)) ns) ?st)) = rename_new_id ` set rs"
    by auto
  then show ?thesis
    unfolding code signals_keys_sorted by - (rule exI [of _ rs], rule exI [of _ cs], simp add: Let_def)
qed

text \<open>
  C9: Rename detection never fails and is exact. It reports one entry for every matched pair of a removed and an
  added node, in order: the pairs that are the only match of both nodes and that a strong key supports are renames,
  and their nodes leave the removed and added lists; every other pair is a candidate. Each entry carries the
  two nodes, their identities and the fields that differ, and it is marked ambiguous exactly when one of the nodes
  has another match.
\<close>

theorem node_renames_exact:
  fixes nodes :: "NodeRecord RecordDiff" and from_records to_records :: "(string, EvidenceRecord list) bmap"
    and from_hashes to_hashes :: "(string, string) bmap"
  defines "sides \<equiv> rename_sides nodes from_records to_records from_hashes to_hashes"
  shows "\<exists>renames candidates.
    list_all2 (reports E sides) (filter (promoted E sides) (sorted_list_of_set (matches E sides))) renames \<and>
    list_all2 (reports E sides) (filter (\<lambda>p. \<not> promoted E sides p) (sorted_list_of_set (matches E sides))) candidates \<and>
    detect_node_renames E nodes from_records to_records from_hashes to_hashes =
      Inr (nodes\<lparr>diff_removed := filter (\<lambda>node. node_id node \<notin> rename_old_id ` set renames) (diff_removed nodes),
        diff_added := filter (\<lambda>node. node_id node \<notin> rename_new_id ` set renames) (diff_added nodes)\<rparr>, renames, candidates)"
  unfolding sides_def by (rule detect_node_renames_eq)

section \<open>Renames consume nodes one by one\<close>

lemma length_filter_ids:
  assumes "distinct (map f xs)" and "K \<subseteq> f ` set xs"
  shows "length (filter (\<lambda>x. f x \<notin> K) xs) + card K = length xs"
proof -
  have inj: "inj_on f (set xs)" and d: "distinct xs" using assms(1) by (simp_all add: distinct_map)
  let ?A = "set (filter (\<lambda>x. f x \<notin> K) xs)" and ?B = "set (filter (\<lambda>x. f x \<in> K) xs)"
  have "card ?B = card (f ` ?B)" using inj by (intro card_image [symmetric]) (auto intro: inj_on_subset)
  also have "f ` ?B = K" using assms(2) by auto
  finally have "length (filter (\<lambda>x. f x \<in> K) xs) = card K"
    by (simp only: distinct_card [OF distinct_filter [OF d]])
  then show ?thesis using sum_length_filter_compl [of "\<lambda>x. f x \<notin> K" xs] by simp
qed

lemma reports_ids:
  assumes "list_all2 (reports E sides) ps ns"
  shows "map rename_old_id ns = map (\<lambda>p. node_id (side_removed sides ! fst p)) ps"
    and "map rename_new_id ns = map (\<lambda>p. node_id (side_added sides ! snd p)) ps"
  using assms by (induction rule: list_all2_induct) (auto simp: reports_def)

lemma ids_of_pairs:
  assumes "distinct (map node_id xs)" and "distinct ps" and "inj_on g (set ps)" and "\<forall>p\<in>set ps. g p < length xs"
  shows "distinct (map (\<lambda>p. node_id (xs ! g p)) ps)" and "(\<lambda>p. node_id (xs ! g p)) ` set ps \<subseteq> node_id ` set xs"
proof -
  have "inj_on (\<lambda>p. node_id (xs ! g p)) (set ps)"
  proof (rule inj_onI)
    fix p q assume pq: "p \<in> set ps" "q \<in> set ps" "node_id (xs ! g p) = node_id (xs ! g q)"
    then have "g p = g q" using assms(1,4) nth_eq_iff_index_eq [OF assms(1), of "g p" "g q"] by simp
    then show "p = q" using inj_onD [OF assms(3)] pq by blast
  qed
  then show "distinct (map (\<lambda>p. node_id (xs ! g p)) ps)" using assms(2) by (simp add: distinct_map)
  show "(\<lambda>p. node_id (xs ! g p)) ` set ps \<subseteq> node_id ` set xs" using assms(4) by auto
qed

lemma renames_consume:
  assumes d: "distinct (map node_id xs)" and ids: "map f ns = map (\<lambda>p. node_id (xs ! g p)) ps"
    and ps: "distinct ps" "inj_on g (set ps)" "\<forall>p\<in>set ps. g p < length xs"
  shows "distinct (map f ns)" and "length (filter (\<lambda>x. node_id x \<notin> f ` set ns) xs) + length ns = length xs"
proof -
  show distinct: "distinct (map f ns)" unfolding ids by (rule ids_of_pairs(1) [OF d ps])
  have "f ` set ns = (\<lambda>p. node_id (xs ! g p)) ` set ps" using arg_cong [OF ids, of set] by simp
  then have "f ` set ns \<subseteq> node_id ` set xs" using ids_of_pairs(2) [OF d ps] by simp
  moreover have "card (f ` set ns) = length ns" using distinct distinct_card [OF distinct] by simp
  ultimately show "length (filter (\<lambda>x. node_id x \<notin> f ` set ns) xs) + length ns = length xs"
    using length_filter_ids [OF d, of "f ` set ns"] by simp
qed

text \<open>
  C38: Renames consume nodes one for one. When the removed and the added identities are unique, no node is the old
  or the new end of two renames, and every rename takes exactly one node out of the removed list and one out of the
  added list; the changed records are left alone.
\<close>

theorem node_renames_conserve:
  assumes "distinct (map node_id (diff_removed nodes))" and "distinct (map node_id (diff_added nodes))"
    and "detect_node_renames E nodes from_records to_records from_hashes to_hashes = Inr (nodes', renames, candidates)"
  shows "distinct (map rename_old_id renames) \<and> distinct (map rename_new_id renames) \<and>
    length (diff_removed nodes') + length renames = length (diff_removed nodes) \<and>
    length (diff_added nodes') + length renames = length (diff_added nodes) \<and>
    diff_changed nodes' = diff_changed nodes"
proof -
  let ?sides = "rename_sides nodes from_records to_records from_hashes to_hashes"
  let ?ps = "filter (promoted E ?sides) (sorted_list_of_set (matches E ?sides))"
  have side: "side_removed ?sides = diff_removed nodes" "side_added ?sides = diff_added nodes"
    by (simp_all add: rename_sides_def)
  from detect_node_renames_eq [of E nodes from_records to_records from_hashes to_hashes] assms(3)
  have ns: "list_all2 (reports E ?sides) ?ps renames" and
    nodes': "nodes' = nodes\<lparr>diff_removed := filter (\<lambda>node. node_id node \<notin> rename_old_id ` set renames) (diff_removed nodes),
        diff_added := filter (\<lambda>node. node_id node \<notin> rename_new_id ` set renames) (diff_added nodes)\<rparr>"
    by auto
  have "finite (matches E ?sides)" unfolding keys_signals(1) [symmetric] by (rule finite_set)
  then have p: "p \<in> matches E ?sides \<and> sole E ?sides p" if "p \<in> set ?ps" for p
    using that by (simp add: promoted_def)
  have inj: "inj_on fst (set ?ps)" "inj_on snd (set ?ps)"
    by (rule inj_onI, use p in \<open>unfold sole_def, blast\<close>)+
  have range: "\<forall>q\<in>set ?ps. fst q < length (diff_removed nodes)" "\<forall>q\<in>set ?ps. snd q < length (diff_added nodes)"
    using p matches_range [of "fst q" "snd q" E ?sides for q] unfolding side by simp_all
  have d: "distinct ?ps" by simp
  note old = renames_consume [OF assms(1) reports_ids(1) [OF ns, unfolded side] d inj(1) range(1)]
  note new = renames_consume [OF assms(2) reports_ids(2) [OF ns, unfolded side] d inj(2) range(2)]
  show ?thesis using old new by (simp add: nodes')
qed

theorem node_renames_conserve_witness:
  "\<exists>nodes' renames candidates. detect_node_renames example_externals
      \<lparr>diff_added = [example_node ''b'' ''file''], diff_removed = [example_node ''a'' ''file''], diff_changed = []\<rparr> [] [] [] [] =
      Inr (nodes', renames, candidates) \<and>
    length (diff_removed nodes') + length renames = 1"
proof -
  let ?nodes = "\<lparr>diff_added = [example_node ''b'' ''file''], diff_removed = [example_node ''a'' ''file''], diff_changed = []\<rparr>"
  obtain nodes' renames candidates where
    run: "detect_node_renames example_externals ?nodes [] [] [] [] = Inr (nodes', renames, candidates)"
    using detect_node_renames_eq [of example_externals ?nodes "[]" "[]" "[]" "[]"] by blast
  have "distinct (map node_id (diff_removed ?nodes))" "distinct (map node_id (diff_added ?nodes))" by simp_all
  from node_renames_conserve [OF this run] run show ?thesis by auto
qed

section \<open>Two snapshots are compared completely\<close>

definition unique_records :: "GraphSnapshot \<Rightarrow> bool" where
  "unique_records s \<longleftrightarrow> distinct (map node_id (snap_nodes s)) \<and> distinct (map site_id (snap_sites s)) \<and>
     distinct (map edge_id (snap_edges s)) \<and> distinct (map evidence_identity (snap_evidence s)) \<and>
     distinct (map profile_id (snap_profiles s))"

definition same_records :: "('a \<Rightarrow> 'a \<Rightarrow> bool) \<Rightarrow> ('a \<Rightarrow> string) \<Rightarrow> 'a list \<Rightarrow> 'a list \<Rightarrow> bool" where
  "same_records eq identity xs ys \<longleftrightarrow> identity ` set xs = identity ` set ys \<and>
     (\<forall>x\<in>set xs. \<forall>y\<in>set ys. identity x = identity y \<longrightarrow> eq x y)"

definition same_snapshots :: "GraphSnapshot \<Rightarrow> GraphSnapshot \<Rightarrow> bool" where
  "same_snapshots s t \<longleftrightarrow> same_records node_eq node_id (snap_nodes s) (snap_nodes t) \<and>
     same_records site_eq site_id (snap_sites s) (snap_sites t) \<and> same_records edge_eq edge_id (snap_edges s) (snap_edges t) \<and>
     same_records evidence_eq evidence_identity (snap_evidence s) (snap_evidence t) \<and>
     same_records profile_eq profile_id (snap_profiles s) (snap_profiles t) \<and> snap_coverage s = snap_coverage t"

lemma other_values_objects:
  "serializes_objects site_value" "serializes_objects edge_value" "serializes_objects evidence_value"
  "serializes_objects profile_value" "serializes_objects coverage_value"
  by (simp_all add: serializes_objects_def site_value_def edge_value_def evidence_value_def profile_value_def coverage_value_def)

lemma diff_records_empty:
  assumes "serializes_objects to_value" and "distinct (map identity xs)" and "distinct (map identity ys)"
  shows "\<exists>d. diff_records E eq to_value xs ys identity = Inr d \<and> (diff_is_empty d \<longleftrightarrow> same_records eq identity xs ys)"
proof -
  let ?xs = "keyed identity xs" and ?ys = "keyed identity ys"
  have "set (only_in ?ys ?xs) = {} \<and> set (only_in ?xs ?ys) = {} \<longleftrightarrow> identity ` set xs = identity ` set ys"
    unfolding set_only_in by blast
  moreover have "set (changes eq to_value ?xs ?ys) = {} \<longleftrightarrow>
      (\<forall>x\<in>set xs. \<forall>y\<in>set ys. identity x = identity y \<longrightarrow> eq x y)"
    unfolding set_changes [OF assms(2,3)] by blast
  ultimately show ?thesis
    by (simp add: diff_records_eq [OF assms] diff_is_empty_def same_records_def) (simp only: conj_assoc [symmetric])
qed

lemma no_sides_no_renames:
  assumes "diff_removed nodes = []" and "diff_added nodes = []"
  shows "detect_node_renames E nodes from_records to_records from_hashes to_hashes = Inr (nodes, [], [])"
proof -
  let ?sides = "rename_sides nodes from_records to_records from_hashes to_hashes"
  have "matches E ?sides = {}"
    using matches_range [of _ _ E ?sides] assms(1) by (auto simp: rename_sides_def)
  then show ?thesis
    using detect_node_renames_eq [of E nodes from_records to_records from_hashes to_hashes] assms by auto
qed

lemma renames_empty_iff:
  assumes "detect_node_renames E nodes from_records to_records from_hashes to_hashes = Inr (nodes', renames, candidates)"
  shows "diff_is_empty nodes' \<and> renames = [] \<and> candidates = [] \<longleftrightarrow> diff_is_empty nodes"
proof
  assume empty: "diff_is_empty nodes' \<and> renames = [] \<and> candidates = []"
  then show "diff_is_empty nodes"
    using detect_node_renames_eq [of E nodes from_records to_records from_hashes to_hashes] assms
    by (auto simp: diff_is_empty_def)
next
  assume "diff_is_empty nodes"
  then show "diff_is_empty nodes' \<and> renames = [] \<and> candidates = []"
    using assms no_sides_no_renames [of nodes E from_records to_records from_hashes to_hashes] by (auto simp: diff_is_empty_def)
qed

text \<open>
  C35: The comparison of two snapshots with unique record identities always succeeds, and it is empty exactly when
  the two snapshots hold the same nodes, sites, edges, evidence, profiles and coverage, in any order; in particular a
  rename or a candidate is reported only when something differs.
\<close>

theorem snapshot_diff_empty_iff:
  assumes "unique_records from_snapshot" and "unique_records to_snapshot"
  shows "\<exists>d. diff_graph_snapshots E from_id to_id from_snapshot to_snapshot = Inr d \<and>
    (snapshot_diff_is_empty d \<longleftrightarrow> same_snapshots from_snapshot to_snapshot)"
proof -
  note u = assms [unfolded unique_records_def]
  obtain all_nodes where nodes: "diff_records E node_eq node_value (snap_nodes from_snapshot) (snap_nodes to_snapshot) node_id = Inr all_nodes"
    "diff_is_empty all_nodes \<longleftrightarrow> same_records node_eq node_id (snap_nodes from_snapshot) (snap_nodes to_snapshot)"
    using diff_records_empty [OF node_value_object] u by blast
  obtain sites where sites: "diff_records E site_eq site_value (snap_sites from_snapshot) (snap_sites to_snapshot) site_id = Inr sites"
    "diff_is_empty sites \<longleftrightarrow> same_records site_eq site_id (snap_sites from_snapshot) (snap_sites to_snapshot)"
    using diff_records_empty [OF other_values_objects(1)] u by blast
  obtain edges where edges: "diff_records E edge_eq edge_value (snap_edges from_snapshot) (snap_edges to_snapshot) edge_id = Inr edges"
    "diff_is_empty edges \<longleftrightarrow> same_records edge_eq edge_id (snap_edges from_snapshot) (snap_edges to_snapshot)"
    using diff_records_empty [OF other_values_objects(2)] u by blast
  obtain evidence where evidence:
    "diff_records E evidence_eq evidence_value (snap_evidence from_snapshot) (snap_evidence to_snapshot) evidence_identity = Inr evidence"
    "diff_is_empty evidence \<longleftrightarrow> same_records evidence_eq evidence_identity (snap_evidence from_snapshot) (snap_evidence to_snapshot)"
    using diff_records_empty [OF other_values_objects(3)] u by blast
  obtain profiles where profiles:
    "diff_records E profile_eq profile_value (snap_profiles from_snapshot) (snap_profiles to_snapshot) profile_id = Inr profiles"
    "diff_is_empty profiles \<longleftrightarrow> same_records profile_eq profile_id (snap_profiles from_snapshot) (snap_profiles to_snapshot)"
    using diff_records_empty [OF other_values_objects(4)] u by blast
  obtain nodes' renames candidates where renames:
    "detect_node_renames E all_nodes (node_source_evidence from_snapshot) (node_source_evidence to_snapshot)
      (source_file_content_hashes from_snapshot) (source_file_content_hashes to_snapshot) = Inr (nodes', renames, candidates)"
    using detect_node_renames_eq by blast
  show ?thesis
    using renames_empty_iff [OF renames] nodes(2) sites(2) edges(2) evidence(2) profiles(2)
    by (cases "snap_coverage from_snapshot = snap_coverage to_snapshot")
      (simp_all add: diff_graph_snapshots_def nodes(1) sites(1) edges(1) evidence(1) profiles(1) renames
        changed_fields_eq [OF other_values_objects(5)] snapshot_diff_is_empty_def same_snapshots_def, blast)
qed

theorem snapshot_diff_empty_iff_witness:
  "\<exists>d. diff_graph_snapshots example_externals ''s'' ''t''
      (example_snapshot [example_node ''a'' ''file'', example_node ''b'' ''file''] [] [])
      (example_snapshot [example_node ''b'' ''file''] [] []) = Inr d \<and> \<not> snapshot_diff_is_empty d"
proof -
  let ?s = "example_snapshot [example_node ''a'' ''file'', example_node ''b'' ''file''] [] []" and ?t = "example_snapshot [example_node ''b'' ''file''] [] []"
  have "unique_records ?s" "unique_records ?t" by (simp_all add: unique_records_def example_defs)
  moreover have "\<not> same_snapshots ?s ?t" by (simp add: same_snapshots_def same_records_def example_defs)
  ultimately show ?thesis using snapshot_diff_empty_iff [of ?s ?t example_externals "''s''" "''t''"] by auto
qed

end
