(* ===== verification/Query_Ast.thy ===== *)
theory Query_Ast
  imports Json
begin

text \<open>
  The syntax tree of the bounded query language: the types of \<^verbatim>\<open>crates/depgraph-core/src/bounded_query.rs\<close>
  (a path pattern with a depth range, a \<open>WHERE\<close> expression with quantifiers over the edges, sites and evidence of
  the path, projections, an order and a limit), its diagnostics, and the derived order of literals.
\<close>

section \<open>Diagnostics\<close>

datatype QueryFailureClass =
    Failure_Input | Failure_Security | Failure_Syntax | Failure_Limit | Failure_Binding | Failure_Type

record QueryOrigin =
  origin_line :: nat
  origin_column :: nat
  origin_byte_offset :: nat

record QueryDiagnostic =
  qd_code :: string
  qd_class :: QueryFailureClass
  qd_clause :: string
  qd_token_class :: string
  qd_origin :: QueryOrigin
  qd_message :: string

definition semantic_diagnostic :: "string \<Rightarrow> QueryFailureClass \<Rightarrow> string \<Rightarrow> string \<Rightarrow> string \<Rightarrow> QueryDiagnostic" where
  "semantic_diagnostic code failure clause token_class message =
     \<lparr>qd_code = code, qd_class = failure, qd_clause = clause, qd_token_class = token_class,
      qd_origin = \<lparr>origin_line = 1, origin_column = 1, origin_byte_offset = 0\<rparr>, qd_message = message\<rparr>"

section \<open>Literals and scalar predicates\<close>

datatype Literal = Lit_String string | Lit_Unsigned nat | Lit_Boolean bool | Lit_Null

text \<open>The derived order: by constructor, then by value.\<close>

fun literal_key :: "Literal \<Rightarrow> nat \<times> string \<times> nat \<times> bool" where
  "literal_key (Lit_String s) = (0, s, 0, False)"
| "literal_key (Lit_Unsigned n) = (1, [], n, False)"
| "literal_key (Lit_Boolean b) = (2, [], 0, b)"
| "literal_key Lit_Null = (3, [], 0, False)"

lemma literal_key_inj: "literal_key a = literal_key b \<longleftrightarrow> a = b"
  by (cases a; cases b) simp_all

instantiation Literal :: linorder
begin

definition less_eq_Literal :: "Literal \<Rightarrow> Literal \<Rightarrow> bool" where
  "less_eq_Literal a b \<longleftrightarrow> literal_key a \<le> literal_key b"

definition less_Literal :: "Literal \<Rightarrow> Literal \<Rightarrow> bool" where
  "less_Literal a b \<longleftrightarrow> literal_key a < literal_key b"

instance
  by standard (auto simp: less_eq_Literal_def less_Literal_def literal_key_inj less_le_not_le)

end

datatype ScalarOperator =
    Op_Equal Literal | Op_NotEqual Literal | Op_Less Literal | Op_LessOrEqual Literal
  | Op_Greater Literal | Op_GreaterOrEqual Literal | Op_StartsWith Literal | Op_In "Literal list"

record FieldReference =
  ref_binding :: string
  ref_field :: string

record ScalarPredicate =
  pred_field :: FieldReference
  pred_operator :: ScalarOperator

section \<open>Expressions\<close>

datatype QuantifierKind = EveryEdge | SomeSite | SomeEvidence

datatype EntityExpression =
    Entity_Or "EntityExpression list" | Entity_And "EntityExpression list"
  | Entity_Not EntityExpression | Entity_Scalar ScalarPredicate

record QuantifierPredicate =
  quant_kind :: QuantifierKind
  quant_binding :: string
  quant_path_binding :: string
  quant_expression :: EntityExpression

datatype Expression =
    Expr_Or "Expression list" | Expr_And "Expression list" | Expr_Not Expression
  | Expr_Scalar ScalarPredicate | Expr_Quantifier QuantifierPredicate

section \<open>Clauses\<close>

datatype QueryDirection = Direction_Forward | Direction_Reverse

record NodePattern =
  pattern_binding :: string
  pattern_kind :: "string option"

record RelationshipPattern =
  rel_direction :: QueryDirection
  rel_kinds :: "string list"
  rel_min_depth :: nat
  rel_max_depth :: nat

record MatchClause =
  match_path_binding :: string
  match_source :: NodePattern
  match_relationship :: RelationshipPattern
  match_target :: NodePattern

datatype Projection = Project_Binding string | Project_Field FieldReference

record ReturnClause =
  return_distinct :: bool
  return_projections :: "Projection list"

datatype SortDirection = Ascending | Descending

record OrderItem =
  order_projection :: Projection
  order_direction :: SortDirection

record QueryAst =
  ast_contract_version :: string
  ast_match_clause :: MatchClause
  ast_where_clause :: "Expression option"
  ast_return_clause :: ReturnClause
  ast_order_by :: "OrderItem list"
  ast_limit :: nat

definition BOUNDED_QUERY_CONTRACT_VERSION :: string where
  "BOUNDED_QUERY_CONTRACT_VERSION = ''bounded-graph-query-v1''"

end
