(* ===== verification/Query_Type.thy ===== *)
theory Query_Type
  imports Query_Ast
begin

text \<open>
  The type checker of the bounded query language: \<^verbatim>\<open>crates/depgraph-core/src/bounded_query_type.rs\<close>.

  \<open>type_check_bounded_query\<close> resolves every binding and field against the closed field registry, checks operators
  against field types and quantifiers against shadowing, and returns the typed tree in canonical form: nested
  conjunctions and disjunctions are flattened and sorted by their serialization, literal lists and relationship
  kinds are sorted. Its digest is taken of the serialized typed tree.
\<close>

section \<open>Types and the field registry\<close>

definition BOUNDED_QUERY_TYPE_CONTRACT_VERSION :: string where
  "BOUNDED_QUERY_TYPE_CONTRACT_VERSION = ''bounded-query-types-v1''"

definition RESERVED_BINDING_WORDS :: "string list" where
  "RESERVED_BINDING_WORDS = [''AND'', ''ASC'', ''BY'', ''DESC'', ''DISTINCT'', ''EVERY'', ''FALSE'', ''IN'', ''LIMIT'',
     ''MATCH'', ''NOT'', ''NULL'', ''OR'', ''ORDER'', ''RETURN'', ''SATISFIES'', ''SOME'', ''STARTS'', ''TRUE'',
     ''WHERE'', ''WITH'']"

datatype EntityType = Type_Node | Type_Path | Type_Edge | Type_Site | Type_Evidence

datatype ScalarType = Type_String | Type_UnsignedInteger | Type_Boolean

datatype QueryType = Query_Entity EntityType | Query_Scalar ScalarType | Query_List ScalarType

record FieldDefinition =
  fd_entity_type :: EntityType
  fd_name :: string
  fd_scalar_type :: ScalarType
  fd_nullable :: bool
  fd_where_allowed :: bool

definition field_def :: "EntityType \<Rightarrow> string \<Rightarrow> ScalarType \<Rightarrow> bool \<Rightarrow> bool \<Rightarrow> FieldDefinition" where
  "field_def entity_type name scalar_type nullable where_allowed =
     \<lparr>fd_entity_type = entity_type, fd_name = name, fd_scalar_type = scalar_type, fd_nullable = nullable,
      fd_where_allowed = where_allowed\<rparr>"

definition FIELD_REGISTRY :: "FieldDefinition list" where
  "FIELD_REGISTRY =
     [field_def Type_Node ''id'' Type_String False True,
      field_def Type_Node ''kind'' Type_String False True,
      field_def Type_Node ''locator'' Type_String False True,
      field_def Type_Node ''display_name'' Type_String False True,
      field_def Type_Path ''id'' Type_String False False,
      field_def Type_Path ''depth'' Type_UnsignedInteger False True,
      field_def Type_Path ''direction'' Type_String False True,
      field_def Type_Edge ''id'' Type_String False True,
      field_def Type_Edge ''kind'' Type_String False True,
      field_def Type_Edge ''phase'' Type_String False True,
      field_def Type_Edge ''environment'' Type_String False True,
      field_def Type_Edge ''profile_id'' Type_String False True,
      field_def Type_Edge ''resolution_status'' Type_String False True,
      field_def Type_Edge ''precision'' Type_String False True,
      field_def Type_Edge ''condition'' Type_String False True,
      field_def Type_Edge ''generated'' Type_Boolean False True,
      field_def Type_Site ''id'' Type_String True True,
      field_def Type_Site ''kind'' Type_String True True,
      field_def Type_Site ''specifier'' Type_String True True,
      field_def Type_Site ''profile_id'' Type_String True True,
      field_def Type_Site ''resolution_status'' Type_String True True,
      field_def Type_Site ''precision'' Type_String True True,
      field_def Type_Site ''condition'' Type_String True True,
      field_def Type_Site ''reason'' Type_String True True,
      field_def Type_Evidence ''owner_type'' Type_String False True,
      field_def Type_Evidence ''kind'' Type_String False True,
      field_def Type_Evidence ''extractor'' Type_String False True,
      field_def Type_Evidence ''extractor_version'' Type_String False True,
      field_def Type_Evidence ''path'' Type_String False True,
      field_def Type_Evidence ''start_line'' Type_UnsignedInteger False True,
      field_def Type_Evidence ''start_column'' Type_UnsignedInteger False True,
      field_def Type_Evidence ''end_line'' Type_UnsignedInteger False True,
      field_def Type_Evidence ''end_column'' Type_UnsignedInteger False True,
      field_def Type_Evidence ''ordinal'' Type_UnsignedInteger False True]"

section \<open>The typed tree\<close>

record BindingDefinition =
  bind_name :: string
  bind_entity_type :: EntityType

record TypedFieldReference =
  tf_binding :: string
  tf_entity_type :: EntityType
  tf_field :: string
  tf_scalar_type :: ScalarType
  tf_nullable :: bool

record TypedScalarPredicate =
  tp_field :: TypedFieldReference
  tp_operator :: ScalarOperator
  tp_operand_type :: QueryType

datatype TypedEntityExpression =
    TEntity_Or "TypedEntityExpression list" | TEntity_And "TypedEntityExpression list"
  | TEntity_Not TypedEntityExpression | TEntity_Scalar TypedScalarPredicate

record TypedQuantifierPredicate =
  tq_binding :: BindingDefinition
  tq_path_binding :: string
  tq_expression :: TypedEntityExpression

datatype TypedExpression =
    TExpr_Or "TypedExpression list" | TExpr_And "TypedExpression list" | TExpr_Not TypedExpression
  | TExpr_Scalar TypedScalarPredicate | TExpr_Quantifier TypedQuantifierPredicate

record TypedNodePattern =
  tn_binding :: BindingDefinition
  tn_kind :: "string option"

record TypedMatchClause =
  tm_path :: BindingDefinition
  tm_source :: TypedNodePattern
  tm_relationship :: RelationshipPattern
  tm_target :: TypedNodePattern

datatype TypedProjection = TProject_Binding BindingDefinition | TProject_Field TypedFieldReference

record TypedReturnClause =
  tr_distinct :: bool
  tr_projections :: "TypedProjection list"

record TypedOrderItem =
  to_projection :: TypedProjection
  to_direction :: SortDirection

record TypedQueryAst =
  ta_contract_version :: string
  ta_type_contract_version :: string
  ta_match_clause :: TypedMatchClause
  ta_where_clause :: "TypedExpression option"
  ta_return_clause :: TypedReturnClause
  ta_order_by :: "TypedOrderItem list"
  ta_limit :: nat

record TypedQuery =
  tq_ast :: TypedQueryAst
  tq_digest :: string

section \<open>Serialization of the typed tree\<close>

definition tagged :: "string \<Rightarrow> json \<Rightarrow> json" where
  "tagged kind value = Object [(''kind'', String kind), (''value'', value)]"

fun entity_type_value :: "EntityType \<Rightarrow> json" where
  "entity_type_value Type_Node = String ''node''"
| "entity_type_value Type_Path = String ''path''"
| "entity_type_value Type_Edge = String ''edge''"
| "entity_type_value Type_Site = String ''site''"
| "entity_type_value Type_Evidence = String ''evidence''"

fun scalar_type_value :: "ScalarType \<Rightarrow> json" where
  "scalar_type_value Type_String = String ''string''"
| "scalar_type_value Type_UnsignedInteger = String ''unsigned_integer''"
| "scalar_type_value Type_Boolean = String ''boolean''"

fun query_type_value :: "QueryType \<Rightarrow> json" where
  "query_type_value (Query_Entity t) = tagged ''entity'' (entity_type_value t)"
| "query_type_value (Query_Scalar t) = tagged ''scalar'' (scalar_type_value t)"
| "query_type_value (Query_List t) = tagged ''list'' (scalar_type_value t)"

fun literal_json :: "Literal \<Rightarrow> json" where
  "literal_json (Lit_String s) = tagged ''string'' (String s)"
| "literal_json (Lit_Unsigned n) = tagged ''unsigned'' (Number (PosInt n))"
| "literal_json (Lit_Boolean b) = tagged ''boolean'' (Bool b)"
| "literal_json Lit_Null = Object [(''kind'', String ''null'')]"

fun operator_json :: "ScalarOperator \<Rightarrow> json" where
  "operator_json (Op_Equal l) = tagged ''equal'' (literal_json l)"
| "operator_json (Op_NotEqual l) = tagged ''not_equal'' (literal_json l)"
| "operator_json (Op_Less l) = tagged ''less'' (literal_json l)"
| "operator_json (Op_LessOrEqual l) = tagged ''less_or_equal'' (literal_json l)"
| "operator_json (Op_Greater l) = tagged ''greater'' (literal_json l)"
| "operator_json (Op_GreaterOrEqual l) = tagged ''greater_or_equal'' (literal_json l)"
| "operator_json (Op_StartsWith l) = tagged ''starts_with'' (literal_json l)"
| "operator_json (Op_In ls) = tagged ''in'' (Array (map literal_json ls))"

definition binding_json :: "BindingDefinition \<Rightarrow> json" where
  "binding_json b = Object [(''name'', String (bind_name b)), (''entity_type'', entity_type_value (bind_entity_type b))]"

definition typed_field_json :: "TypedFieldReference \<Rightarrow> json" where
  "typed_field_json f = Object [(''binding'', String (tf_binding f)), (''entity_type'', entity_type_value (tf_entity_type f)),
     (''field'', String (tf_field f)), (''scalar_type'', scalar_type_value (tf_scalar_type f)), (''nullable'', Bool (tf_nullable f))]"

definition typed_scalar_json :: "TypedScalarPredicate \<Rightarrow> json" where
  "typed_scalar_json p = Object [(''field'', typed_field_json (tp_field p)), (''operator'', operator_json (tp_operator p)),
     (''operand_type'', query_type_value (tp_operand_type p))]"

fun typed_entity_json :: "TypedEntityExpression \<Rightarrow> json" where
  "typed_entity_json (TEntity_Or ts) = tagged ''or'' (Array (map typed_entity_json ts))"
| "typed_entity_json (TEntity_And ts) = tagged ''and'' (Array (map typed_entity_json ts))"
| "typed_entity_json (TEntity_Not t) = tagged ''not'' (typed_entity_json t)"
| "typed_entity_json (TEntity_Scalar p) = tagged ''scalar'' (typed_scalar_json p)"

definition typed_quantifier_json :: "TypedQuantifierPredicate \<Rightarrow> json" where
  "typed_quantifier_json q = Object [(''binding'', binding_json (tq_binding q)), (''path_binding'', String (tq_path_binding q)),
     (''expression'', typed_entity_json (tq_expression q))]"

fun typed_expression_json :: "TypedExpression \<Rightarrow> json" where
  "typed_expression_json (TExpr_Or ts) = tagged ''or'' (Array (map typed_expression_json ts))"
| "typed_expression_json (TExpr_And ts) = tagged ''and'' (Array (map typed_expression_json ts))"
| "typed_expression_json (TExpr_Not t) = tagged ''not'' (typed_expression_json t)"
| "typed_expression_json (TExpr_Scalar p) = tagged ''scalar'' (typed_scalar_json p)"
| "typed_expression_json (TExpr_Quantifier q) = tagged ''quantifier'' (typed_quantifier_json q)"

fun direction_name :: "QueryDirection \<Rightarrow> string" where
  "direction_name Direction_Forward = ''forward''"
| "direction_name Direction_Reverse = ''reverse''"

definition relationship_json :: "RelationshipPattern \<Rightarrow> json" where
  "relationship_json r = Object [(''direction'', String (direction_name (rel_direction r))),
     (''kinds'', Array (map String (rel_kinds r))), (''min_depth'', Number (PosInt (rel_min_depth r))),
     (''max_depth'', Number (PosInt (rel_max_depth r)))]"

definition typed_pattern_json :: "TypedNodePattern \<Rightarrow> json" where
  "typed_pattern_json p = Object [(''binding'', binding_json (tn_binding p)),
     (''kind'', (case tn_kind p of None \<Rightarrow> Null | Some k \<Rightarrow> String k))]"

definition typed_match_json :: "TypedMatchClause \<Rightarrow> json" where
  "typed_match_json m = Object [(''path'', binding_json (tm_path m)), (''source'', typed_pattern_json (tm_source m)),
     (''relationship'', relationship_json (tm_relationship m)), (''target'', typed_pattern_json (tm_target m))]"

fun typed_projection_json :: "TypedProjection \<Rightarrow> json" where
  "typed_projection_json (TProject_Binding b) = tagged ''binding'' (binding_json b)"
| "typed_projection_json (TProject_Field f) = tagged ''field'' (typed_field_json f)"

fun sort_direction_json :: "SortDirection \<Rightarrow> json" where
  "sort_direction_json Ascending = String ''ascending''"
| "sort_direction_json Descending = String ''descending''"

definition typed_order_json :: "TypedOrderItem \<Rightarrow> json" where
  "typed_order_json i = Object [(''projection'', typed_projection_json (to_projection i)),
     (''direction'', sort_direction_json (to_direction i))]"

definition typed_return_json :: "TypedReturnClause \<Rightarrow> json" where
  "typed_return_json r = Object [(''distinct'', Bool (tr_distinct r)),
     (''projections'', Array (map typed_projection_json (tr_projections r)))]"

definition typed_ast_json :: "TypedQueryAst \<Rightarrow> json" where
  "typed_ast_json a = Object [(''contract_version'', String (ta_contract_version a)),
     (''type_contract_version'', String (ta_type_contract_version a)), (''match_clause'', typed_match_json (ta_match_clause a)),
     (''where_clause'', (case ta_where_clause a of None \<Rightarrow> Null | Some e \<Rightarrow> typed_expression_json e)),
     (''return_clause'', typed_return_json (ta_return_clause a)),
     (''order_by'', Array (map typed_order_json (ta_order_by a))), (''limit'', Number (PosInt (ta_limit a)))]"

definition canonical_typed_query_ast_json :: "externals \<Rightarrow> TypedQueryAst \<Rightarrow> string" where
  "canonical_typed_query_ast_json E a = json_to_string E (typed_ast_json a)"

definition typed_query_ast_digest :: "externals \<Rightarrow> TypedQueryAst \<Rightarrow> string" where
  "typed_query_ast_digest E a = ''typed-query-ast:sha256:'' @ sha256_hex E (canonical_typed_query_ast_json E a)"

section \<open>Canonical conjunctions and disjunctions\<close>

definition canonical_sort :: "externals \<Rightarrow> ('a \<Rightarrow> json) \<Rightarrow> 'a list \<Rightarrow> 'a list" where
  "canonical_sort E to_value values = sort_key (\<lambda>v. json_to_string E (to_value v)) values"

text \<open>A single term stands for itself.\<close>

definition collapse :: "('a list \<Rightarrow> 'a) \<Rightarrow> 'a list \<Rightarrow> 'a" where
  "collapse f terms = (case terms of [t] \<Rightarrow> t | _ \<Rightarrow> f terms)"

fun or_children :: "TypedExpression \<Rightarrow> TypedExpression list" where
  "or_children (TExpr_Or children) = children"
| "or_children t = [t]"

fun and_children :: "TypedExpression \<Rightarrow> TypedExpression list" where
  "and_children (TExpr_And children) = children"
| "and_children t = [t]"

definition canonical_expression_or :: "externals \<Rightarrow> TypedExpression list \<Rightarrow> TypedExpression" where
  "canonical_expression_or E terms =
     collapse TExpr_Or (canonical_sort E typed_expression_json (concat (map or_children terms)))"

definition canonical_expression_and :: "externals \<Rightarrow> TypedExpression list \<Rightarrow> TypedExpression" where
  "canonical_expression_and E terms =
     collapse TExpr_And (canonical_sort E typed_expression_json (concat (map and_children terms)))"

fun entity_or_children :: "TypedEntityExpression \<Rightarrow> TypedEntityExpression list" where
  "entity_or_children (TEntity_Or children) = children"
| "entity_or_children t = [t]"

fun entity_and_children :: "TypedEntityExpression \<Rightarrow> TypedEntityExpression list" where
  "entity_and_children (TEntity_And children) = children"
| "entity_and_children t = [t]"

definition canonical_entity_or :: "externals \<Rightarrow> TypedEntityExpression list \<Rightarrow> TypedEntityExpression" where
  "canonical_entity_or E terms =
     collapse TEntity_Or (canonical_sort E typed_entity_json (concat (map entity_or_children terms)))"

definition canonical_entity_and :: "externals \<Rightarrow> TypedEntityExpression list \<Rightarrow> TypedEntityExpression" where
  "canonical_entity_and E terms =
     collapse TEntity_And (canonical_sort E typed_entity_json (concat (map entity_and_children terms)))"

section \<open>Fields and operators\<close>

definition ascii_upper :: "string \<Rightarrow> string" where
  "ascii_upper = map (\<lambda>c. if is_ascii_lowercase c then char_of ((of_char c :: nat) - 32) else c)"

definition eq_ignore_ascii_case :: "string \<Rightarrow> string \<Rightarrow> bool" where
  "eq_ignore_ascii_case a b \<longleftrightarrow> ascii_upper a = ascii_upper b"

definition validate_binding_name :: "string \<Rightarrow> string \<Rightarrow> QueryDiagnostic + unit" where
  "validate_binding_name name clause =
     (if list_ex (eq_ignore_ascii_case name) RESERVED_BINDING_WORDS
      then Inl (semantic_diagnostic ''query_binding_reserved'' Failure_Binding clause ''identifier''
        ''binding uses a reserved keyword'')
      else Inr ())"

definition shadowed :: "string \<Rightarrow> QueryDiagnostic" where
  "shadowed clause = semantic_diagnostic ''query_binding_shadowed'' Failure_Binding clause ''identifier''
     ''query binding shadows another binding''"

definition operator_type_error :: QueryDiagnostic where
  "operator_type_error = semantic_diagnostic ''query_operator_type_invalid'' Failure_Type ''where'' ''scalar_operator''
     ''operator and literal are incompatible with the field type''"

definition resolve_field :: "FieldReference \<Rightarrow> EntityType \<Rightarrow> bool \<Rightarrow> QueryDiagnostic + TypedFieldReference" where
  "resolve_field reference entity_type where_context =
     (case find (\<lambda>field. fd_entity_type field = entity_type \<and> fd_name field = ref_field reference) FIELD_REGISTRY of
        None \<Rightarrow> Inl (semantic_diagnostic ''query_field_unknown'' Failure_Type
          (if where_context then ''where'' else ''projection'') ''field'' ''field is not present in the closed field registry'')
      | Some d \<Rightarrow>
          if where_context \<and> \<not> fd_where_allowed d
          then Inl (semantic_diagnostic ''query_path_id_where_forbidden'' Failure_Type ''where'' ''field''
            ''field is not available to WHERE predicates'')
          else Inr \<lparr>tf_binding = ref_binding reference, tf_entity_type = entity_type, tf_field = ref_field reference,
            tf_scalar_type = fd_scalar_type d, tf_nullable = fd_nullable d\<rparr>)"

fun literal_scalar_type :: "Literal \<Rightarrow> ScalarType option" where
  "literal_scalar_type (Lit_String _) = Some Type_String"
| "literal_scalar_type (Lit_Unsigned _) = Some Type_UnsignedInteger"
| "literal_scalar_type (Lit_Boolean _) = Some Type_Boolean"
| "literal_scalar_type Lit_Null = None"

definition check_equality_literal :: "TypedFieldReference \<Rightarrow> Literal \<Rightarrow> QueryDiagnostic + unit" where
  "check_equality_literal field l =
     (if l = Lit_Null then (if tf_nullable field then Inr () else Inl operator_type_error)
      else if literal_scalar_type l = Some (tf_scalar_type field) then Inr ()
      else Inl operator_type_error)"

definition check_ordering_literal :: "TypedFieldReference \<Rightarrow> Literal \<Rightarrow> QueryDiagnostic + unit" where
  "check_ordering_literal field l =
     (if tf_scalar_type field \<notin> {Type_String, Type_UnsignedInteger} \<or> literal_scalar_type l \<noteq> Some (tf_scalar_type field)
      then Inl operator_type_error else Inr ())"

text \<open>\<open>windows(2).any(|pair| pair[0] == pair[1])\<close>\<close>

fun has_adjacent_duplicate :: "'a list \<Rightarrow> bool" where
  "has_adjacent_duplicate (x # y # xs) \<longleftrightarrow> x = y \<or> has_adjacent_duplicate (y # xs)"
| "has_adjacent_duplicate _ \<longleftrightarrow> False"

fun check_operator :: "TypedFieldReference \<Rightarrow> ScalarOperator \<Rightarrow> QueryDiagnostic + ScalarOperator \<times> QueryType" where
  "check_operator field (Op_Equal l) =
     sum_bind (check_equality_literal field l) (\<lambda>_. Inr (Op_Equal l, Query_Scalar (tf_scalar_type field)))"
| "check_operator field (Op_NotEqual l) =
     sum_bind (check_equality_literal field l) (\<lambda>_. Inr (Op_NotEqual l, Query_Scalar (tf_scalar_type field)))"
| "check_operator field (Op_Less l) =
     sum_bind (check_ordering_literal field l) (\<lambda>_. Inr (Op_Less l, Query_Scalar (tf_scalar_type field)))"
| "check_operator field (Op_LessOrEqual l) =
     sum_bind (check_ordering_literal field l) (\<lambda>_. Inr (Op_LessOrEqual l, Query_Scalar (tf_scalar_type field)))"
| "check_operator field (Op_Greater l) =
     sum_bind (check_ordering_literal field l) (\<lambda>_. Inr (Op_Greater l, Query_Scalar (tf_scalar_type field)))"
| "check_operator field (Op_GreaterOrEqual l) =
     sum_bind (check_ordering_literal field l) (\<lambda>_. Inr (Op_GreaterOrEqual l, Query_Scalar (tf_scalar_type field)))"
| "check_operator field (Op_StartsWith l) =
     (case l of
        Lit_String prefix \<Rightarrow>
          if tf_scalar_type field \<noteq> Type_String then Inl operator_type_error
          else if prefix = [] then Inl (semantic_diagnostic ''query_prefix_empty'' Failure_Type ''where'' ''string''
            ''STARTS WITH requires a non-empty normalized prefix'')
          else Inr (Op_StartsWith l, Query_Scalar Type_String)
      | _ \<Rightarrow> Inl operator_type_error)"
| "check_operator field (Op_In ls) =
     (if ls = [] \<or> list_ex (\<lambda>l. literal_scalar_type l \<noteq> Some (tf_scalar_type field)) ls then Inl operator_type_error
      else if has_adjacent_duplicate (sort ls)
      then Inl (semantic_diagnostic ''query_duplicate_list_literal'' Failure_Type ''where'' ''literal_list''
        ''IN list contains a duplicate literal'')
      else Inr (Op_In (sort ls), Query_List (tf_scalar_type field)))"

definition check_scalar :: "ScalarPredicate \<Rightarrow> EntityType \<Rightarrow> bool \<Rightarrow> QueryDiagnostic + TypedScalarPredicate" where
  "check_scalar predicate entity_type where_context =
     sum_bind (resolve_field (pred_field predicate) entity_type where_context) (\<lambda>field.
     sum_bind (check_operator field (pred_operator predicate)) (\<lambda>(operator, operand_type).
     Inr \<lparr>tp_field = field, tp_operator = operator, tp_operand_type = operand_type\<rparr>))"

section \<open>Expressions\<close>

fun check_entity_expression :: "externals \<Rightarrow> string \<Rightarrow> EntityType \<Rightarrow> EntityExpression \<Rightarrow> QueryDiagnostic + TypedEntityExpression"
  and check_entity_terms :: "externals \<Rightarrow> string \<Rightarrow> EntityType \<Rightarrow> EntityExpression list \<Rightarrow> QueryDiagnostic + TypedEntityExpression list" where
  "check_entity_expression E binding entity_type (Entity_Or terms) =
     sum_bind (check_entity_terms E binding entity_type terms) (\<lambda>ts. Inr (canonical_entity_or E ts))"
| "check_entity_expression E binding entity_type (Entity_And terms) =
     sum_bind (check_entity_terms E binding entity_type terms) (\<lambda>ts. Inr (canonical_entity_and E ts))"
| "check_entity_expression E binding entity_type (Entity_Not e) =
     sum_bind (check_entity_expression E binding entity_type e) (\<lambda>t. Inr (TEntity_Not t))"
| "check_entity_expression E binding entity_type (Entity_Scalar predicate) =
     (if ref_binding (pred_field predicate) \<noteq> binding
      then Inl (semantic_diagnostic ''query_quantifier_binding_capture'' Failure_Binding ''where'' ''field''
        ''quantifier expression may reference only its introduced binding'')
      else sum_bind (check_scalar predicate entity_type True) (\<lambda>t. Inr (TEntity_Scalar t)))"
| "check_entity_terms E binding entity_type [] = Inr []"
| "check_entity_terms E binding entity_type (e # es) =
     sum_bind (check_entity_expression E binding entity_type e) (\<lambda>t.
     sum_bind (check_entity_terms E binding entity_type es) (\<lambda>ts. Inr (t # ts)))"

type_synonym top_level = "(string, EntityType) bmap"

definition check_top_level_scalar :: "top_level \<Rightarrow> ScalarPredicate \<Rightarrow> QueryDiagnostic + TypedScalarPredicate" where
  "check_top_level_scalar tops predicate =
     (case bm_get tops (ref_binding (pred_field predicate)) of
        None \<Rightarrow> Inl (semantic_diagnostic ''query_binding_unknown'' Failure_Binding ''where'' ''field''
          ''predicate references an unknown binding'')
      | Some entity_type \<Rightarrow> check_scalar predicate entity_type True)"

fun quantified_type :: "QuantifierKind \<Rightarrow> EntityType" where
  "quantified_type EveryEdge = Type_Edge"
| "quantified_type SomeSite = Type_Site"
| "quantified_type SomeEvidence = Type_Evidence"

definition check_quantifier ::
  "externals \<Rightarrow> top_level \<Rightarrow> string bset \<Rightarrow> QuantifierPredicate \<Rightarrow> QueryDiagnostic + TypedQuantifierPredicate \<times> string bset" where
  "check_quantifier E tops quantified predicate =
     (if bm_get tops (quant_path_binding predicate) \<noteq> Some Type_Path
      then Inl (semantic_diagnostic ''query_quantifier_path_binding_invalid'' Failure_Binding ''where'' ''identifier''
        ''quantifier collection must reference the matched path binding'')
      else sum_bind (validate_binding_name (quant_binding predicate) ''where'') (\<lambda>_.
        if bm_contains_key tops (quant_binding predicate) \<or> bs_contains quantified (quant_binding predicate)
        then Inl (shadowed ''where'')
        else
          let entity_type = quantified_type (quant_kind predicate) in
          sum_bind (check_entity_expression E (quant_binding predicate) entity_type (quant_expression predicate)) (\<lambda>expression.
          Inr (\<lparr>tq_binding = \<lparr>bind_name = quant_binding predicate, bind_entity_type = entity_type\<rparr>,
                tq_path_binding = quant_path_binding predicate, tq_expression = expression\<rparr>,
               bs_insert (quant_binding predicate) quantified))))"

fun check_expression :: "externals \<Rightarrow> top_level \<Rightarrow> Expression \<Rightarrow> string bset \<Rightarrow> QueryDiagnostic + TypedExpression \<times> string bset"
  and check_terms :: "externals \<Rightarrow> top_level \<Rightarrow> Expression list \<Rightarrow> string bset \<Rightarrow> QueryDiagnostic + TypedExpression list \<times> string bset" where
  "check_expression E tops (Expr_Or terms) quantified =
     sum_bind (check_terms E tops terms quantified) (\<lambda>(ts, quantified). Inr (canonical_expression_or E ts, quantified))"
| "check_expression E tops (Expr_And terms) quantified =
     sum_bind (check_terms E tops terms quantified) (\<lambda>(ts, quantified). Inr (canonical_expression_and E ts, quantified))"
| "check_expression E tops (Expr_Not e) quantified =
     sum_bind (check_expression E tops e quantified) (\<lambda>(t, quantified). Inr (TExpr_Not t, quantified))"
| "check_expression E tops (Expr_Scalar predicate) quantified =
     sum_bind (check_top_level_scalar tops predicate) (\<lambda>t. Inr (TExpr_Scalar t, quantified))"
| "check_expression E tops (Expr_Quantifier predicate) quantified =
     sum_bind (check_quantifier E tops quantified predicate) (\<lambda>(t, quantified). Inr (TExpr_Quantifier t, quantified))"
| "check_terms E tops [] quantified = Inr ([], quantified)"
| "check_terms E tops (e # es) quantified =
     sum_bind (check_expression E tops e quantified) (\<lambda>(t, quantified).
     sum_bind (check_terms E tops es quantified) (\<lambda>(ts, quantified). Inr (t # ts, quantified)))"

section \<open>Clauses\<close>

fun bind_top_level :: "(string \<times> EntityType) list \<Rightarrow> top_level \<Rightarrow> QueryDiagnostic + top_level" where
  "bind_top_level [] tops = Inr tops"
| "bind_top_level ((name, entity_type) # bindings) tops =
     sum_bind (validate_binding_name name ''match'') (\<lambda>_.
     if bm_contains_key tops name then Inl (shadowed ''match'')
     else bind_top_level bindings (bm_insert name entity_type tops))"

definition new_type_checker :: "MatchClause \<Rightarrow> QueryDiagnostic + top_level" where
  "new_type_checker m = bind_top_level
     [(pattern_binding (match_source m), Type_Node), (match_path_binding m, Type_Path),
      (pattern_binding (match_target m), Type_Node)] []"

definition typed_node_pattern :: "NodePattern \<Rightarrow> TypedNodePattern" where
  "typed_node_pattern p =
     \<lparr>tn_binding = \<lparr>bind_name = pattern_binding p, bind_entity_type = Type_Node\<rparr>, tn_kind = pattern_kind p\<rparr>"

definition check_match_clause :: "MatchClause \<Rightarrow> QueryDiagnostic + TypedMatchClause" where
  "check_match_clause m =
     (let relationship = (match_relationship m)\<lparr>rel_kinds := sort (rel_kinds (match_relationship m))\<rparr> in
      if has_adjacent_duplicate (rel_kinds relationship)
      then Inl (semantic_diagnostic ''query_duplicate_relationship_kind'' Failure_Type ''match'' ''string''
        ''relationship kind set contains a duplicate'')
      else Inr \<lparr>tm_path = \<lparr>bind_name = match_path_binding m, bind_entity_type = Type_Path\<rparr>,
        tm_source = typed_node_pattern (match_source m), tm_relationship = relationship,
        tm_target = typed_node_pattern (match_target m)\<rparr>)"

definition invalid_projection :: "string \<Rightarrow> QueryDiagnostic" where
  "invalid_projection clause = semantic_diagnostic ''query_projection_binding_invalid'' Failure_Binding clause ''projection''
     ''projection references a non-top-level binding''"

fun check_projection :: "top_level \<Rightarrow> string \<Rightarrow> Projection \<Rightarrow> QueryDiagnostic + TypedProjection" where
  "check_projection tops clause (Project_Binding binding) =
     (case bm_get tops binding of
        None \<Rightarrow> Inl (invalid_projection clause)
      | Some entity_type \<Rightarrow> Inr (TProject_Binding \<lparr>bind_name = binding, bind_entity_type = entity_type\<rparr>))"
| "check_projection tops clause (Project_Field reference) =
     (case bm_get tops (ref_binding reference) of
        None \<Rightarrow> Inl (invalid_projection clause)
      | Some entity_type \<Rightarrow> sum_bind (resolve_field reference entity_type False) (\<lambda>f. Inr (TProject_Field f)))"

text \<open>\<open>iter().map(f).collect::<Result<Vec<_>>>()\<close>: the first error wins.\<close>

fun collect_results :: "('a \<Rightarrow> 'e + 'b) \<Rightarrow> 'a list \<Rightarrow> 'e + 'b list" where
  "collect_results f [] = Inr []"
| "collect_results f (x # xs) = sum_bind (f x) (\<lambda>y. sum_bind (collect_results f xs) (\<lambda>ys. Inr (y # ys)))"

definition check_return_clause :: "top_level \<Rightarrow> ReturnClause \<Rightarrow> QueryDiagnostic + TypedReturnClause" where
  "check_return_clause tops c =
     sum_bind (collect_results (check_projection tops ''return'') (return_projections c)) (\<lambda>projections.
     Inr \<lparr>tr_distinct = return_distinct c, tr_projections = projections\<rparr>)"

definition check_order_item :: "top_level \<Rightarrow> TypedProjection list \<Rightarrow> OrderItem \<Rightarrow> QueryDiagnostic + TypedOrderItem" where
  "check_order_item tops projections item =
     sum_bind (check_projection tops ''order_by'' (order_projection item)) (\<lambda>projection.
     if projection \<notin> set projections
     then Inl (semantic_diagnostic ''query_order_projection_missing'' Failure_Type ''order_by'' ''projection''
       ''ORDER BY item is not present in RETURN'')
     else Inr \<lparr>to_projection = projection, to_direction = order_direction item\<rparr>)"

definition check_where :: "externals \<Rightarrow> top_level \<Rightarrow> Expression option \<Rightarrow> QueryDiagnostic + TypedExpression option" where
  "check_where E tops clause =
     (case clause of
        None \<Rightarrow> Inr None
      | Some e \<Rightarrow> sum_bind (check_expression E tops e []) (\<lambda>(t, _). Inr (Some t)))"

definition check_query :: "externals \<Rightarrow> top_level \<Rightarrow> QueryAst \<Rightarrow> QueryDiagnostic + TypedQueryAst" where
  "check_query E tops ast =
     sum_bind (check_match_clause (ast_match_clause ast)) (\<lambda>match_clause.
     sum_bind (check_where E tops (ast_where_clause ast)) (\<lambda>where_clause.
     sum_bind (check_return_clause tops (ast_return_clause ast)) (\<lambda>return_clause.
     sum_bind (collect_results (check_order_item tops (tr_projections return_clause)) (ast_order_by ast)) (\<lambda>order_by.
     Inr \<lparr>ta_contract_version = BOUNDED_QUERY_CONTRACT_VERSION,
      ta_type_contract_version = BOUNDED_QUERY_TYPE_CONTRACT_VERSION, ta_match_clause = match_clause,
      ta_where_clause = where_clause, ta_return_clause = return_clause, ta_order_by = order_by,
      ta_limit = ast_limit ast\<rparr>))))"

definition type_check_bounded_query :: "externals \<Rightarrow> QueryAst \<Rightarrow> QueryDiagnostic + TypedQuery" where
  "type_check_bounded_query E ast =
     (if ast_contract_version ast \<noteq> BOUNDED_QUERY_CONTRACT_VERSION
      then Inl (semantic_diagnostic ''query_contract_version_invalid'' Failure_Type ''query'' ''contract_version''
        ''query contract version is not supported'')
      else sum_bind (new_type_checker (ast_match_clause ast)) (\<lambda>tops.
        sum_bind (check_query E tops ast) (\<lambda>typed.
        Inr \<lparr>tq_ast = typed, tq_digest = typed_query_ast_digest E typed\<rparr>)))"

end
