(* ===== verification/Query_Typing.thy ===== *)
theory Query_Typing
  imports Query_Type
begin

text \<open>
  The type system of the bounded query language, stated apart from the checker: \<open>query_typed\<close> says which syntax
  trees are queries, by inductive judgements over an environment of top-level bindings, \<open>query_form\<close> says which typed
  tree stands for a query, by annotation judgements, and \<open>typed_ast_ok\<close> says what a typed tree promises to its
  consumers. The checker accepts exactly the typed queries, and returns their typed form, which keeps the promise.
\<close>

section \<open>Lists\<close>

lemma sort_eq_Nil [simp]: "sort xs = [] \<longleftrightarrow> xs = []"
  by (metis set_empty set_sort)

lemma list_all2_set:
  assumes "list_all2 P xs ys"
  shows "x \<in> set xs \<Longrightarrow> \<exists>y\<in>set ys. P x y" and "y \<in> set ys \<Longrightarrow> \<exists>x\<in>set xs. P x y"
  using assms by (induction rule: list_all2_induct) auto

lemma collapse_keeps:
  assumes "\<forall>x\<in>set xs. P x" and "P (f xs)"
  shows "P (collapse f xs)"
  using assms by (auto simp: collapse_def split: list.splits)

lemma set_canonical_sort [simp]: "set (canonical_sort E f xs) = set xs"
  by (simp add: canonical_sort_def)

section \<open>Fields and operators\<close>

definition registered :: "EntityType \<Rightarrow> string \<Rightarrow> FieldDefinition \<Rightarrow> bool" where
  "registered t name d \<longleftrightarrow> d \<in> set FIELD_REGISTRY \<and> fd_entity_type d = t \<and> fd_name d = name"

lemma registry_distinct: "distinct (map (\<lambda>d. (fd_entity_type d, fd_name d)) FIELD_REGISTRY)"
  by (simp add: FIELD_REGISTRY_def field_def_def)

lemma registered_unique: "registered t name d \<Longrightarrow> registered t name d' \<Longrightarrow> d = d'"
  using registry_distinct unfolding distinct_map registered_def by (auto dest: inj_onD)

lemma resolve_field_Inr:
  "resolve_field r t w = Inr f \<longleftrightarrow> (\<exists>d. registered t (ref_field r) d \<and> (w \<longrightarrow> fd_where_allowed d) \<and>
     f = \<lparr>tf_binding = ref_binding r, tf_entity_type = t, tf_field = ref_field r, tf_scalar_type = fd_scalar_type d, tf_nullable = fd_nullable d\<rparr>)"
proof (cases "find (\<lambda>field. fd_entity_type field = t \<and> fd_name field = ref_field r) FIELD_REGISTRY")
  case None
  then have "\<not> registered t (ref_field r) d" for d by (auto simp: find_None_iff registered_def)
  with None show ?thesis by (simp add: resolve_field_def)
next
  case (Some d)
  then have d: "registered t (ref_field r) d" by (auto simp: find_Some_iff registered_def)
  have "registered t (ref_field r) d' \<longleftrightarrow> d' = d" for d' using registered_unique [OF d] d by blast
  with Some show ?thesis by (auto simp: resolve_field_def)
qed

fun operator_ok :: "ScalarType \<Rightarrow> bool \<Rightarrow> ScalarOperator \<Rightarrow> bool" where
  "operator_ok t nullable (Op_Equal l) \<longleftrightarrow> (l = Lit_Null \<and> nullable) \<or> literal_scalar_type l = Some t"
| "operator_ok t nullable (Op_NotEqual l) \<longleftrightarrow> (l = Lit_Null \<and> nullable) \<or> literal_scalar_type l = Some t"
| "operator_ok t nullable (Op_StartsWith l) \<longleftrightarrow> t = Type_String \<and> (\<exists>p. p \<noteq> [] \<and> l = Lit_String p)"
| "operator_ok t nullable (Op_In ls) \<longleftrightarrow> ls \<noteq> [] \<and> (\<forall>l\<in>set ls. literal_scalar_type l = Some t) \<and> distinct ls"
| "operator_ok t nullable (Op_Less l) \<longleftrightarrow> t \<noteq> Type_Boolean \<and> literal_scalar_type l = Some t"
| "operator_ok t nullable (Op_LessOrEqual l) \<longleftrightarrow> t \<noteq> Type_Boolean \<and> literal_scalar_type l = Some t"
| "operator_ok t nullable (Op_Greater l) \<longleftrightarrow> t \<noteq> Type_Boolean \<and> literal_scalar_type l = Some t"
| "operator_ok t nullable (Op_GreaterOrEqual l) \<longleftrightarrow> t \<noteq> Type_Boolean \<and> literal_scalar_type l = Some t"

fun canonical_operator :: "ScalarOperator \<Rightarrow> ScalarOperator" where
  "canonical_operator (Op_In ls) = Op_In (sort ls)"
| "canonical_operator op = op"

fun operand_type :: "ScalarType \<Rightarrow> ScalarOperator \<Rightarrow> QueryType" where
  "operand_type t (Op_In ls) = Query_List t"
| "operand_type t op = Query_Scalar t"

lemma adjacent_duplicate_sort: "has_adjacent_duplicate (sort xs) \<longleftrightarrow> \<not> distinct (xs :: 'a::linorder list)"
proof -
  have "has_adjacent_duplicate ys \<longleftrightarrow> \<not> distinct ys" if "sorted ys" for ys :: "'a list"
    using that
  proof (induction ys rule: has_adjacent_duplicate.induct)
    case (1 x y ys)
    then have "x \<in> set (y # ys) \<longleftrightarrow> x = y" by (auto simp: antisym)
    with 1 show ?case by auto
  qed simp_all
  from this [of "sort xs"] show ?thesis by simp
qed

lemma check_operator_Inr:
  "check_operator f op = Inr (op', ty) \<longleftrightarrow> operator_ok (tf_scalar_type f) (tf_nullable f) op \<and>
     op' = canonical_operator op \<and> ty = operand_type (tf_scalar_type f) op"
proof (cases op)
  case (Op_StartsWith l)
  then show ?thesis by (cases l) auto
next
  case (Op_In ls)
  then show ?thesis by (auto simp: adjacent_duplicate_sort list_ex_iff)
qed (auto simp: check_equality_literal_def check_ordering_literal_def sum_bind_Inr_iff
    split: if_splits, (cases "tf_scalar_type f", auto)+)

text \<open>A scalar predicate over an entity, and its typed form.\<close>

definition scalar_typed :: "EntityType \<Rightarrow> ScalarPredicate \<Rightarrow> bool" where
  "scalar_typed t p \<longleftrightarrow> (\<exists>d. registered t (ref_field (pred_field p)) d \<and> fd_where_allowed d \<and>
     operator_ok (fd_scalar_type d) (fd_nullable d) (pred_operator p))"

definition field_ok :: "TypedFieldReference \<Rightarrow> bool" where
  "field_ok f \<longleftrightarrow> (\<exists>d. registered (tf_entity_type f) (tf_field f) d \<and> tf_scalar_type f = fd_scalar_type d \<and> tf_nullable f = fd_nullable d)"

definition typed_scalar_ok :: "EntityType \<Rightarrow> TypedScalarPredicate \<Rightarrow> bool" where
  "typed_scalar_ok t p \<longleftrightarrow> field_ok (tp_field p) \<and> tf_entity_type (tp_field p) = t \<and>
     operator_ok (tf_scalar_type (tp_field p)) (tf_nullable (tp_field p)) (tp_operator p)"

lemma operator_ok_canonical [simp]: "operator_ok t n (canonical_operator op) \<longleftrightarrow> operator_ok t n op"
  by (cases op) auto

lemma check_scalar_Inr:
  assumes "check_scalar p t True = Inr q"
  shows "scalar_typed t p" and "typed_scalar_ok t q" and "tf_binding (tp_field q) = ref_binding (pred_field p)"
    and "tf_field (tp_field q) = ref_field (pred_field p)" and "tp_operator q = canonical_operator (pred_operator p)"
  using assms
  by (auto simp: check_scalar_def sum_bind_Inr_iff resolve_field_Inr check_operator_Inr scalar_typed_def typed_scalar_ok_def field_ok_def)

lemma check_scalar_iff: "(\<exists>q. check_scalar p t True = Inr q) \<longleftrightarrow> scalar_typed t p"
proof
  assume "scalar_typed t p"
  then obtain d where d: "registered t (ref_field (pred_field p)) d" "fd_where_allowed d"
    "operator_ok (fd_scalar_type d) (fd_nullable d) (pred_operator p)"
    unfolding scalar_typed_def by blast
  then have "resolve_field (pred_field p) t True = Inr \<lparr>tf_binding = ref_binding (pred_field p), tf_entity_type = t,
      tf_field = ref_field (pred_field p), tf_scalar_type = fd_scalar_type d, tf_nullable = fd_nullable d\<rparr>"
    by (auto simp: resolve_field_Inr)
  moreover have "check_operator \<lparr>tf_binding = ref_binding (pred_field p), tf_entity_type = t,
      tf_field = ref_field (pred_field p), tf_scalar_type = fd_scalar_type d, tf_nullable = fd_nullable d\<rparr> (pred_operator p) =
      Inr (canonical_operator (pred_operator p), operand_type (fd_scalar_type d) (pred_operator p))"
    using d(3) by (simp add: check_operator_Inr)
  ultimately show "\<exists>q. check_scalar p t True = Inr q" by (simp add: check_scalar_def)
qed (auto dest: check_scalar_Inr)

section \<open>Entity expressions\<close>

inductive entity_typed :: "string \<Rightarrow> EntityType \<Rightarrow> EntityExpression \<Rightarrow> bool" for b t where
  entity_or: "\<forall>e\<in>set es. entity_typed b t e \<Longrightarrow> entity_typed b t (Entity_Or es)"
| entity_and: "\<forall>e\<in>set es. entity_typed b t e \<Longrightarrow> entity_typed b t (Entity_And es)"
| entity_not: "entity_typed b t e \<Longrightarrow> entity_typed b t (Entity_Not e)"
| entity_scalar: "ref_binding (pred_field p) = b \<Longrightarrow> scalar_typed t p \<Longrightarrow> entity_typed b t (Entity_Scalar p)"

inductive_simps entity_typed_simps [simp]:
  "entity_typed b t (Entity_Or es)" "entity_typed b t (Entity_And es)" "entity_typed b t (Entity_Not e)"
  "entity_typed b t (Entity_Scalar p)"

fun typed_entity_ok :: "EntityType \<Rightarrow> TypedEntityExpression \<Rightarrow> bool" where
  "typed_entity_ok t (TEntity_Or es) \<longleftrightarrow> (\<forall>e\<in>set es. typed_entity_ok t e)"
| "typed_entity_ok t (TEntity_And es) \<longleftrightarrow> (\<forall>e\<in>set es. typed_entity_ok t e)"
| "typed_entity_ok t (TEntity_Not e) \<longleftrightarrow> typed_entity_ok t e"
| "typed_entity_ok t (TEntity_Scalar p) \<longleftrightarrow> typed_scalar_ok t p"

lemma entity_children_ok:
  "typed_entity_ok t e \<Longrightarrow> c \<in> set (entity_or_children e) \<Longrightarrow> typed_entity_ok t c"
  "typed_entity_ok t e \<Longrightarrow> c \<in> set (entity_and_children e) \<Longrightarrow> typed_entity_ok t c"
  by (cases e; simp)+

lemma canonical_entity_ok:
  assumes "\<forall>e\<in>set es. typed_entity_ok t e"
  shows "typed_entity_ok t (canonical_entity_or E es)" and "typed_entity_ok t (canonical_entity_and E es)"
proof -
  have or: "\<forall>c\<in>set (canonical_sort E typed_entity_json (concat (map entity_or_children es))). typed_entity_ok t c"
    and "and": "\<forall>c\<in>set (canonical_sort E typed_entity_json (concat (map entity_and_children es))). typed_entity_ok t c"
    unfolding set_canonical_sort set_concat set_map using assms by (blast dest: entity_children_ok)+
  show "typed_entity_ok t (canonical_entity_or E es)"
    unfolding canonical_entity_or_def using or by (rule collapse_keeps) (use or in simp)
  show "typed_entity_ok t (canonical_entity_and E es)"
    unfolding canonical_entity_and_def using "and" by (rule collapse_keeps) (use "and" in simp)
qed

lemma check_entity_iff:
  "(\<exists>x. check_entity_expression E b t e = Inr x) \<longleftrightarrow> entity_typed b t e"
  "(\<exists>xs. check_entity_terms E b t es = Inr xs) \<longleftrightarrow> (\<forall>e\<in>set es. entity_typed b t e)"
proof (induction E b t e and E b t es rule: check_entity_expression_check_entity_terms.induct)
  case (4 E b t p)
  then show ?case using check_scalar_iff [of p t] by (auto simp: sum_bind_Inr_iff)
qed (auto simp: sum_bind_Inr_iff)

lemma check_entity_ok:
  "check_entity_expression E b t e = Inr x \<Longrightarrow> typed_entity_ok t x"
  "check_entity_terms E b t es = Inr xs \<Longrightarrow> (\<forall>x\<in>set xs. typed_entity_ok t x)"
proof (induction E b t e and E b t es arbitrary: x and xs rule: check_entity_expression_check_entity_terms.induct)
  case (1 E b t es)
  then show ?case by (auto simp: sum_bind_Inr_iff intro!: canonical_entity_ok)
next
  case (2 E b t es)
  then show ?case by (auto simp: sum_bind_Inr_iff intro!: canonical_entity_ok)
next
  case (4 E b t p)
  then show ?case by (auto simp: sum_bind_Inr_iff check_scalar_Inr split: if_splits)
qed (fastforce simp: sum_bind_Inr_iff)+

section \<open>Expressions\<close>

definition reserved :: "string \<Rightarrow> bool" where
  "reserved name \<longleftrightarrow> (\<exists>w\<in>set RESERVED_BINDING_WORDS. eq_ignore_ascii_case name w)"

inductive expr_typed :: "(string \<rightharpoonup> EntityType) \<Rightarrow> Expression \<Rightarrow> bool" for \<Gamma> where
  expr_or: "\<forall>e\<in>set es. expr_typed \<Gamma> e \<Longrightarrow> expr_typed \<Gamma> (Expr_Or es)"
| expr_and: "\<forall>e\<in>set es. expr_typed \<Gamma> e \<Longrightarrow> expr_typed \<Gamma> (Expr_And es)"
| expr_not: "expr_typed \<Gamma> e \<Longrightarrow> expr_typed \<Gamma> (Expr_Not e)"
| expr_scalar: "\<Gamma> (ref_binding (pred_field p)) = Some t \<Longrightarrow> scalar_typed t p \<Longrightarrow> expr_typed \<Gamma> (Expr_Scalar p)"
| expr_quantifier: "\<Gamma> (quant_path_binding q) = Some Type_Path \<Longrightarrow> \<not> reserved (quant_binding q) \<Longrightarrow>
    \<Gamma> (quant_binding q) = None \<Longrightarrow> entity_typed (quant_binding q) (quantified_type (quant_kind q)) (quant_expression q) \<Longrightarrow>
    expr_typed \<Gamma> (Expr_Quantifier q)"

inductive_simps expr_typed_simps [simp]:
  "expr_typed \<Gamma> (Expr_Or es)" "expr_typed \<Gamma> (Expr_And es)" "expr_typed \<Gamma> (Expr_Not e)"
  "expr_typed \<Gamma> (Expr_Scalar p)" "expr_typed \<Gamma> (Expr_Quantifier q)"

text \<open>The names the quantifiers of an expression introduce.\<close>

fun introduced :: "Expression \<Rightarrow> string list" where
  "introduced (Expr_Or es) = concat (map introduced es)"
| "introduced (Expr_And es) = concat (map introduced es)"
| "introduced (Expr_Not e) = introduced e"
| "introduced (Expr_Scalar p) = []"
| "introduced (Expr_Quantifier q) = [quant_binding q]"

definition typed_quantifier_ok :: "(string \<rightharpoonup> EntityType) \<Rightarrow> TypedQuantifierPredicate \<Rightarrow> bool" where
  "typed_quantifier_ok \<Gamma> q \<longleftrightarrow> bind_entity_type (tq_binding q) \<in> {Type_Edge, Type_Site, Type_Evidence} \<and>
     \<Gamma> (tq_path_binding q) = Some Type_Path \<and> typed_entity_ok (bind_entity_type (tq_binding q)) (tq_expression q)"

fun typed_expr_ok :: "(string \<rightharpoonup> EntityType) \<Rightarrow> TypedExpression \<Rightarrow> bool" where
  "typed_expr_ok \<Gamma> (TExpr_Or es) \<longleftrightarrow> (\<forall>e\<in>set es. typed_expr_ok \<Gamma> e)"
| "typed_expr_ok \<Gamma> (TExpr_And es) \<longleftrightarrow> (\<forall>e\<in>set es. typed_expr_ok \<Gamma> e)"
| "typed_expr_ok \<Gamma> (TExpr_Not e) \<longleftrightarrow> typed_expr_ok \<Gamma> e"
| "typed_expr_ok \<Gamma> (TExpr_Scalar p) \<longleftrightarrow> (\<exists>t. \<Gamma> (tf_binding (tp_field p)) = Some t \<and> typed_scalar_ok t p)"
| "typed_expr_ok \<Gamma> (TExpr_Quantifier q) \<longleftrightarrow> typed_quantifier_ok \<Gamma> q"

lemma children_ok:
  "typed_expr_ok \<Gamma> e \<Longrightarrow> c \<in> set (or_children e) \<Longrightarrow> typed_expr_ok \<Gamma> c"
  "typed_expr_ok \<Gamma> e \<Longrightarrow> c \<in> set (and_children e) \<Longrightarrow> typed_expr_ok \<Gamma> c"
  by (cases e; simp)+

lemma canonical_expression_ok:
  assumes "\<forall>e\<in>set es. typed_expr_ok \<Gamma> e"
  shows "typed_expr_ok \<Gamma> (canonical_expression_or E es)" and "typed_expr_ok \<Gamma> (canonical_expression_and E es)"
proof -
  have or: "\<forall>c\<in>set (canonical_sort E typed_expression_json (concat (map or_children es))). typed_expr_ok \<Gamma> c"
    and "and": "\<forall>c\<in>set (canonical_sort E typed_expression_json (concat (map and_children es))). typed_expr_ok \<Gamma> c"
    unfolding set_canonical_sort set_concat set_map using assms by (blast dest: children_ok)+
  show "typed_expr_ok \<Gamma> (canonical_expression_or E es)"
    unfolding canonical_expression_or_def using or by (rule collapse_keeps) (use or in simp)
  show "typed_expr_ok \<Gamma> (canonical_expression_and E es)"
    unfolding canonical_expression_and_def using "and" by (rule collapse_keeps) (use "and" in simp)
qed

lemma validate_binding_name_Inr: "validate_binding_name name clause = Inr u \<longleftrightarrow> \<not> reserved name"
  by (simp add: validate_binding_name_def reserved_def list_ex_iff)

lemma check_quantifier_iff:
  "(\<exists>t q. check_quantifier E tops quantified p = Inr (t, q)) \<longleftrightarrow>
     expr_typed (bm_get tops) (Expr_Quantifier p) \<and> quant_binding p \<notin> set quantified"
  using check_entity_iff(1) [of E "quant_binding p" "quantified_type (quant_kind p)" "quant_expression p"]
  by (auto simp: check_quantifier_def sum_bind_Inr_iff validate_binding_name_Inr bm_contains_key_def bs_contains_def Let_def)

lemma quantified_type_range: "quantified_type k \<in> {Type_Edge, Type_Site, Type_Evidence}"
  by (cases k) simp_all

lemma check_quantifier_Inr:
  assumes "check_quantifier E tops quantified p = Inr (t, q)"
  shows "typed_quantifier_ok (bm_get tops) t" and "set q = insert (quant_binding p) (set quantified)"
  using assms quantified_type_range [of "quant_kind p"]
  by (auto simp: check_quantifier_def sum_bind_Inr_iff typed_quantifier_ok_def Let_def check_entity_ok split: if_splits)

definition fresh :: "string list \<Rightarrow> string bset \<Rightarrow> bool" where
  "fresh names quantified \<longleftrightarrow> distinct names \<and> set names \<inter> set quantified = {}"

lemma check_expression_Inr:
  "check_expression E tops e quantified = Inr (t, q) \<Longrightarrow>
     typed_expr_ok (bm_get tops) t \<and> set q = set quantified \<union> set (introduced e)"
  "check_terms E tops es quantified = Inr (ts, q) \<Longrightarrow>
     (\<forall>t\<in>set ts. typed_expr_ok (bm_get tops) t) \<and> set q = set quantified \<union> set (concat (map introduced es))"
proof (induction E tops e quantified and E tops es quantified arbitrary: t q and ts q
    rule: check_expression_check_terms.induct)
  case (1 E tops es quantified)
  then show ?case by (fastforce simp: sum_bind_Inr_iff intro!: canonical_expression_ok)
next
  case (2 E tops es quantified)
  then show ?case by (fastforce simp: sum_bind_Inr_iff intro!: canonical_expression_ok)
next
  case (3 E tops e quantified)
  then show ?case by (fastforce simp: sum_bind_Inr_iff)
next
  case (4 E tops p quantified)
  then show ?case
    by (auto simp: sum_bind_Inr_iff check_top_level_scalar_def check_scalar_Inr split: option.splits)
next
  case (5 E tops p quantified)
  then show ?case by (auto simp: sum_bind_Inr_iff check_quantifier_Inr)
next
  case (7 E tops e es quantified)
  then show ?case by (fastforce simp: sum_bind_Inr_iff)
qed simp

lemma check_expression_iff:
  "(\<exists>t q. check_expression E tops e quantified = Inr (t, q)) \<longleftrightarrow>
     expr_typed (bm_get tops) e \<and> fresh (introduced e) quantified"
  "(\<exists>ts q. check_terms E tops es quantified = Inr (ts, q)) \<longleftrightarrow>
     (\<forall>e\<in>set es. expr_typed (bm_get tops) e) \<and> fresh (concat (map introduced es)) quantified"
proof (induction E tops e quantified and E tops es quantified rule: check_expression_check_terms.induct)
  case (4 E tops p quantified)
  show ?case using check_scalar_iff [of p]
    by (auto simp: sum_bind_Inr_iff check_top_level_scalar_def fresh_def split: option.splits)
next
  case (5 E tops p quantified)
  show ?case using check_quantifier_iff [of E tops quantified p]
    by (auto simp: sum_bind_Inr_iff fresh_def)
next
  case (7 E tops e es quantified)
  have "(\<exists>ts q. check_terms E tops (e # es) quantified = Inr (ts, q)) \<longleftrightarrow>
      (\<exists>t q. check_expression E tops e quantified = Inr (t, q) \<and> (\<exists>ts q'. check_terms E tops es q = Inr (ts, q')))"
    by (fastforce simp: sum_bind_Inr_iff)
  also have "\<dots> \<longleftrightarrow> (\<exists>t q. check_expression E tops e quantified = Inr (t, q) \<and>
      (\<forall>e\<in>set es. expr_typed (bm_get tops) e) \<and> fresh (concat (map introduced es)) q)"
    using "7.IH"(2) by fastforce
  also have "\<dots> \<longleftrightarrow> (\<exists>t q. check_expression E tops e quantified = Inr (t, q)) \<and>
      (\<forall>e\<in>set es. expr_typed (bm_get tops) e) \<and> distinct (concat (map introduced es)) \<and>
      set (concat (map introduced es)) \<inter> (set quantified \<union> set (introduced e)) = {}"
    using check_expression_Inr(1) unfolding fresh_def by fastforce
  also have "\<dots> \<longleftrightarrow> (\<forall>f\<in>set (e # es). expr_typed (bm_get tops) f) \<and> fresh (concat (map introduced (e # es))) quantified"
    unfolding "7.IH"(1) fresh_def by auto
  finally show ?case .
qed (auto simp: sum_bind_Inr_iff fresh_def)

section \<open>Queries\<close>

definition bindings_of :: "MatchClause \<Rightarrow> (string \<times> EntityType) list" where
  "bindings_of m = [(pattern_binding (match_source m), Type_Node), (match_path_binding m, Type_Path),
     (pattern_binding (match_target m), Type_Node)]"

fun projection_typed :: "(string \<rightharpoonup> EntityType) \<Rightarrow> Projection \<Rightarrow> bool" where
  "projection_typed \<Gamma> (Project_Binding b) \<longleftrightarrow> \<Gamma> b \<noteq> None"
| "projection_typed \<Gamma> (Project_Field r) \<longleftrightarrow> (\<exists>t d. \<Gamma> (ref_binding r) = Some t \<and> registered t (ref_field r) d)"

definition where_typed :: "(string \<rightharpoonup> EntityType) \<Rightarrow> Expression option \<Rightarrow> bool" where
  "where_typed \<Gamma> clause \<longleftrightarrow> (\<forall>e. clause = Some e \<longrightarrow> expr_typed \<Gamma> e \<and> distinct (introduced e))"

definition query_typed :: "QueryAst \<Rightarrow> bool" where
  "query_typed ast \<longleftrightarrow>
     (let bindings = bindings_of (ast_match_clause ast); \<Gamma> = map_of bindings;
          projections = return_projections (ast_return_clause ast) in
      ast_contract_version ast = BOUNDED_QUERY_CONTRACT_VERSION \<and>
      distinct (map fst bindings) \<and> (\<forall>b\<in>set bindings. \<not> reserved (fst b)) \<and>
      distinct (rel_kinds (match_relationship (ast_match_clause ast))) \<and>
      where_typed \<Gamma> (ast_where_clause ast) \<and> (\<forall>p\<in>set projections. projection_typed \<Gamma> p) \<and>
      order_projection ` set (ast_order_by ast) \<subseteq> set projections)"

text \<open>What consumers of a typed tree rely on.\<close>

definition typed_env :: "TypedMatchClause \<Rightarrow> string \<rightharpoonup> EntityType" where
  "typed_env m = map_of [(bind_name (tn_binding (tm_source m)), Type_Node), (bind_name (tm_path m), Type_Path),
     (bind_name (tn_binding (tm_target m)), Type_Node)]"

fun typed_projection_ok :: "(string \<rightharpoonup> EntityType) \<Rightarrow> TypedProjection \<Rightarrow> bool" where
  "typed_projection_ok \<Gamma> (TProject_Binding b) \<longleftrightarrow> \<Gamma> (bind_name b) = Some (bind_entity_type b)"
| "typed_projection_ok \<Gamma> (TProject_Field f) \<longleftrightarrow> \<Gamma> (tf_binding f) = Some (tf_entity_type f) \<and> field_ok f"

definition typed_ast_ok :: "TypedQueryAst \<Rightarrow> bool" where
  "typed_ast_ok ast \<longleftrightarrow>
     (let m = ta_match_clause ast; \<Gamma> = typed_env m in
      distinct [bind_name (tn_binding (tm_source m)), bind_name (tm_path m), bind_name (tn_binding (tm_target m))] \<and>
      (\<forall>e. ta_where_clause ast = Some e \<longrightarrow> typed_expr_ok \<Gamma> e) \<and>
      (\<forall>p\<in>set (tr_projections (ta_return_clause ast)). typed_projection_ok \<Gamma> p) \<and>
      to_projection ` set (ta_order_by ast) \<subseteq> set (tr_projections (ta_return_clause ast)) \<and>
      strict_sorted (rel_kinds (tm_relationship m)))"

lemma bind_top_level_Inr:
  "bm_invar tops \<Longrightarrow> bind_top_level bs tops = Inr tops' \<longleftrightarrow>
     distinct (map fst bs) \<and> (\<forall>b\<in>set bs. \<not> reserved (fst b) \<and> bm_get tops (fst b) = None) \<and>
     tops' = fold (\<lambda>(name, t). bm_insert name t) bs tops"
proof (induction bs tops rule: bind_top_level.induct)
  case (2 name t bs tops)
  have "(\<forall>b\<in>set bs. \<not> reserved (fst b) \<and> bm_get (bm_insert name t tops) (fst b) = None) \<longleftrightarrow>
      name \<notin> fst ` set bs \<and> (\<forall>b\<in>set bs. \<not> reserved (fst b) \<and> bm_get tops (fst b) = None)"
    using 2(2) by (auto simp: bm_get_insert split: if_splits)
  with 2 show ?case
    by (auto simp: sum_bind_Inr_iff validate_binding_name_Inr bm_contains_key_def)
qed auto

lemma fold_bind_get:
  "bm_invar tops \<Longrightarrow> bm_invar (fold (\<lambda>(name, t). bm_insert name t) bs tops) \<and>
     (distinct (map fst bs) \<longrightarrow> (\<forall>b\<in>set bs. bm_get tops (fst b) = None) \<longrightarrow>
       bm_get (fold (\<lambda>(name, t). bm_insert name t) bs tops) = bm_get tops ++ map_of bs)"
proof (induction bs arbitrary: tops)
  case (Cons b bs)
  obtain name t where b: "b = (name, t)" by (cases b)
  from Cons.IH [of "bm_insert name t tops"] Cons.prems show ?case
    by (auto simp: b bm_get_insert fun_eq_iff map_add_def map_of_eq_None_iff split: option.splits if_splits)
qed simp

lemma new_type_checker_Inr:
  "new_type_checker m = Inr tops \<Longrightarrow> bm_get tops = map_of (bindings_of m)"
  "(\<exists>tops. new_type_checker m = Inr tops) \<longleftrightarrow> distinct (map fst (bindings_of m)) \<and> (\<forall>b\<in>set (bindings_of m). \<not> reserved (fst b))"
proof -
  have new: "new_type_checker m = bind_top_level (bindings_of m) []" by (simp add: new_type_checker_def bindings_of_def)
  show "new_type_checker m = Inr tops \<Longrightarrow> bm_get tops = map_of (bindings_of m)"
    using fold_bind_get [of "[]" "bindings_of m"] unfolding new by (auto simp: bind_top_level_Inr fun_eq_iff map_add_def split: option.splits)
  show "(\<exists>tops. new_type_checker m = Inr tops) \<longleftrightarrow> distinct (map fst (bindings_of m)) \<and> (\<forall>b\<in>set (bindings_of m). \<not> reserved (fst b))"
    unfolding new by (auto simp: bind_top_level_Inr)
qed

lemma collect_results_iff: "(\<exists>ys. collect_results f xs = Inr ys) \<longleftrightarrow> (\<forall>x\<in>set xs. \<exists>y. f x = Inr y)"
  by (induction xs) (auto simp: sum_bind_Inr_iff)

lemma collect_results_Inr: "collect_results f xs = Inr ys \<longleftrightarrow> list_all2 (\<lambda>x y. f x = Inr y) xs ys"
  by (induction xs arbitrary: ys) (auto simp: sum_bind_Inr_iff list_all2_Cons1)

lemma check_projection_iff: "(\<exists>p'. check_projection tops clause p = Inr p') \<longleftrightarrow> projection_typed (bm_get tops) p"
  by (cases p) (auto simp: sum_bind_Inr_iff resolve_field_Inr split: option.splits)

lemma check_projection_ok: "check_projection tops clause p = Inr p' \<Longrightarrow> typed_projection_ok (bm_get tops) p'"
  by (cases p) (auto simp: sum_bind_Inr_iff resolve_field_Inr field_ok_def split: option.splits)

text \<open>The clause only names the error, and the typed projection determines the projection.\<close>

lemma check_projection_clause: "check_projection tops c p = Inr p' \<longleftrightarrow> check_projection tops c' p = Inr p'"
  by (cases p) (auto split: option.splits)

lemma check_projection_inj: "check_projection tops c p = Inr r \<Longrightarrow> check_projection tops c q = Inr r \<Longrightarrow> p = q"
  by (cases p; cases q) (auto simp: sum_bind_Inr_iff resolve_field_Inr split: option.splits)

lemma check_order_items_iff:
  assumes "list_all2 (\<lambda>p p'. check_projection tops ''return'' p = Inr p') ps ps'"
  shows "(\<exists>xs. collect_results (check_order_item tops ps') items = Inr xs) \<longleftrightarrow> order_projection ` set items \<subseteq> set ps"
proof -
  have "(\<exists>x. check_order_item tops ps' item = Inr x) \<longleftrightarrow> order_projection item \<in> set ps" for item
  proof
    assume "\<exists>x. check_order_item tops ps' item = Inr x"
    then obtain p' where p': "check_projection tops ''order_by'' (order_projection item) = Inr p'" "p' \<in> set ps'"
      by (auto simp: check_order_item_def sum_bind_Inr_iff split: if_splits)
    then obtain p where p: "p \<in> set ps" "check_projection tops ''return'' p = Inr p'"
      using list_all2_set(2) [OF assms] by blast
    then have "p = order_projection item"
      using check_projection_inj [OF p(2)] p'(1) check_projection_clause by blast
    with p(1) show "order_projection item \<in> set ps" by simp
  next
    assume "order_projection item \<in> set ps"
    then obtain p' where "p' \<in> set ps' \<and> check_projection tops ''return'' (order_projection item) = Inr p'"
      using list_all2_set(1) [OF assms] by blast
    then have "p' \<in> set ps'" "check_projection tops ''order_by'' (order_projection item) = Inr p'"
      using check_projection_clause by blast+
    then show "\<exists>x. check_order_item tops ps' item = Inr x" by (simp add: check_order_item_def)
  qed
  then show ?thesis by (auto simp: collect_results_iff)
qed

lemma check_where_iff: "(\<exists>w. check_where E tops clause = Inr w) \<longleftrightarrow> where_typed (bm_get tops) clause"
proof (cases clause)
  case (Some e)
  show ?thesis using check_expression_iff(1) [of E tops e "[]"]
    by (auto simp: Some check_where_def where_typed_def sum_bind_Inr_iff fresh_def)
qed (simp add: check_where_def where_typed_def)

lemma check_query_iff:
  assumes "new_type_checker (ast_match_clause ast) = Inr tops" and "ast_contract_version ast = BOUNDED_QUERY_CONTRACT_VERSION"
  shows "(\<exists>typed. check_query E tops ast = Inr typed) \<longleftrightarrow> query_typed ast"
proof -
  have env: "bm_get tops = map_of (bindings_of (ast_match_clause ast))" by (rule new_type_checker_Inr(1) [OF assms(1)])
  let ?ps = "return_projections (ast_return_clause ast)"
  have match: "(\<exists>m. check_match_clause (ast_match_clause ast) = Inr m) \<longleftrightarrow> distinct (rel_kinds (match_relationship (ast_match_clause ast)))"
    by (simp add: check_match_clause_def adjacent_duplicate_sort Let_def)
  have returns: "(\<exists>r items. check_return_clause tops (ast_return_clause ast) = Inr r \<and>
      collect_results (check_order_item tops (tr_projections r)) (ast_order_by ast) = Inr items) \<longleftrightarrow>
    (\<forall>p\<in>set ?ps. projection_typed (bm_get tops) p) \<and> order_projection ` set (ast_order_by ast) \<subseteq> set ?ps"
  proof (cases "\<exists>ps'. collect_results (check_projection tops ''return'') ?ps = Inr ps'")
    case True
    then obtain ps' where ps': "collect_results (check_projection tops ''return'') ?ps = Inr ps'" by blast
    then have "list_all2 (\<lambda>p p'. check_projection tops ''return'' p = Inr p') ?ps ps'" by (simp add: collect_results_Inr)
    from check_order_items_iff [OF this] show ?thesis
      using True [unfolded collect_results_iff check_projection_iff] by (simp add: check_return_clause_def ps')
  next
    case False
    then have "\<not> (\<forall>p\<in>set ?ps. projection_typed (bm_get tops) p)" by (simp add: collect_results_iff check_projection_iff)
    with False show ?thesis by (auto simp only: check_return_clause_def sum_bind_Inr_iff)
  qed
  have "(\<exists>typed. check_query E tops ast = Inr typed) \<longleftrightarrow>
      (\<exists>m. check_match_clause (ast_match_clause ast) = Inr m) \<and> (\<exists>w. check_where E tops (ast_where_clause ast) = Inr w) \<and>
      (\<exists>r items. check_return_clause tops (ast_return_clause ast) = Inr r \<and>
        collect_results (check_order_item tops (tr_projections r)) (ast_order_by ast) = Inr items)"
    by (auto simp: check_query_def sum_bind_Inr_iff)
  also have "\<dots> \<longleftrightarrow> query_typed ast"
    using assms new_type_checker_Inr(2) [of "ast_match_clause ast"]
    unfolding match returns check_where_iff env query_typed_def Let_def by blast
  finally show ?thesis .
qed

section \<open>The typed form of a query\<close>

text \<open>
  Which typed tree stands for a syntax tree, as annotation judgements. Fields are annotated with their registered
  type and nullability and literal lists are sorted. A conjunction (or disjunction) stands for the terms of its
  operands, where an operand that is itself a conjunction contributes its terms, ordered by their canonical text;
  a single term stands for itself.
\<close>

definition field_form :: "EntityType \<Rightarrow> FieldReference \<Rightarrow> TypedFieldReference \<Rightarrow> bool" where
  "field_form t r f \<longleftrightarrow> (\<exists>d. registered t (ref_field r) d \<and>
     f = \<lparr>tf_binding = ref_binding r, tf_entity_type = t, tf_field = ref_field r, tf_scalar_type = fd_scalar_type d, tf_nullable = fd_nullable d\<rparr>)"

definition scalar_form :: "EntityType \<Rightarrow> ScalarPredicate \<Rightarrow> TypedScalarPredicate \<Rightarrow> bool" where
  "scalar_form t p q \<longleftrightarrow> field_form t (pred_field p) (tp_field q) \<and> tp_operator q = canonical_operator (pred_operator p) \<and>
     tp_operand_type q = operand_type (tf_scalar_type (tp_field q)) (pred_operator p)"

definition joins :: "externals \<Rightarrow> ('a \<Rightarrow> json) \<Rightarrow> ('a list \<Rightarrow> 'a) \<Rightarrow> 'a list \<Rightarrow> 'a \<Rightarrow> bool" where
  "joins E to_value join terms x \<longleftrightarrow>
     (\<exists>ordered. mset ordered = mset terms \<and> sorted (map (\<lambda>t. json_to_string E (to_value t)) ordered) \<and>
        x = (if length ordered = 1 then hd ordered else join ordered))"

inductive entity_form :: "externals \<Rightarrow> EntityType \<Rightarrow> EntityExpression \<Rightarrow> TypedEntityExpression \<Rightarrow> bool"
  and entity_forms :: "externals \<Rightarrow> EntityType \<Rightarrow> EntityExpression list \<Rightarrow> TypedEntityExpression list \<Rightarrow> bool" for E t where
  form_entity_or: "entity_forms E t es xs \<Longrightarrow> joins E typed_entity_json TEntity_Or (concat (map entity_or_children xs)) x \<Longrightarrow>
    entity_form E t (Entity_Or es) x"
| form_entity_and: "entity_forms E t es xs \<Longrightarrow> joins E typed_entity_json TEntity_And (concat (map entity_and_children xs)) x \<Longrightarrow>
    entity_form E t (Entity_And es) x"
| form_entity_not: "entity_form E t e x \<Longrightarrow> entity_form E t (Entity_Not e) (TEntity_Not x)"
| form_entity_scalar: "scalar_form t p q \<Longrightarrow> entity_form E t (Entity_Scalar p) (TEntity_Scalar q)"
| form_entity_Nil: "entity_forms E t [] []"
| form_entity_Cons: "entity_form E t e x \<Longrightarrow> entity_forms E t es xs \<Longrightarrow> entity_forms E t (e # es) (x # xs)"

definition quantifier_form :: "externals \<Rightarrow> QuantifierPredicate \<Rightarrow> TypedQuantifierPredicate \<Rightarrow> bool" where
  "quantifier_form E p q \<longleftrightarrow>
     tq_binding q = \<lparr>bind_name = quant_binding p, bind_entity_type = quantified_type (quant_kind p)\<rparr> \<and>
     tq_path_binding q = quant_path_binding p \<and>
     entity_form E (quantified_type (quant_kind p)) (quant_expression p) (tq_expression q)"

inductive expr_form :: "externals \<Rightarrow> (string \<rightharpoonup> EntityType) \<Rightarrow> Expression \<Rightarrow> TypedExpression \<Rightarrow> bool"
  and expr_forms :: "externals \<Rightarrow> (string \<rightharpoonup> EntityType) \<Rightarrow> Expression list \<Rightarrow> TypedExpression list \<Rightarrow> bool" for E \<Gamma> where
  form_or: "expr_forms E \<Gamma> es xs \<Longrightarrow> joins E typed_expression_json TExpr_Or (concat (map or_children xs)) x \<Longrightarrow>
    expr_form E \<Gamma> (Expr_Or es) x"
| form_and: "expr_forms E \<Gamma> es xs \<Longrightarrow> joins E typed_expression_json TExpr_And (concat (map and_children xs)) x \<Longrightarrow>
    expr_form E \<Gamma> (Expr_And es) x"
| form_not: "expr_form E \<Gamma> e x \<Longrightarrow> expr_form E \<Gamma> (Expr_Not e) (TExpr_Not x)"
| form_scalar: "\<Gamma> (ref_binding (pred_field p)) = Some t \<Longrightarrow> scalar_form t p q \<Longrightarrow> expr_form E \<Gamma> (Expr_Scalar p) (TExpr_Scalar q)"
| form_quantifier: "quantifier_form E p q \<Longrightarrow> expr_form E \<Gamma> (Expr_Quantifier p) (TExpr_Quantifier q)"
| form_Nil: "expr_forms E \<Gamma> [] []"
| form_Cons: "expr_form E \<Gamma> e x \<Longrightarrow> expr_forms E \<Gamma> es xs \<Longrightarrow> expr_forms E \<Gamma> (e # es) (x # xs)"

fun projection_form :: "(string \<rightharpoonup> EntityType) \<Rightarrow> Projection \<Rightarrow> TypedProjection \<Rightarrow> bool" where
  "projection_form \<Gamma> (Project_Binding b) (TProject_Binding d) \<longleftrightarrow> bind_name d = b \<and> \<Gamma> b = Some (bind_entity_type d)"
| "projection_form \<Gamma> (Project_Field r) (TProject_Field f) \<longleftrightarrow> (\<exists>t. \<Gamma> (ref_binding r) = Some t \<and> field_form t r f)"
| "projection_form \<Gamma> _ _ \<longleftrightarrow> False"

definition node_form :: "NodePattern \<Rightarrow> TypedNodePattern \<Rightarrow> bool" where
  "node_form p q \<longleftrightarrow> tn_binding q = \<lparr>bind_name = pattern_binding p, bind_entity_type = Type_Node\<rparr> \<and> tn_kind q = pattern_kind p"

definition match_form :: "MatchClause \<Rightarrow> TypedMatchClause \<Rightarrow> bool" where
  "match_form m q \<longleftrightarrow> tm_path q = \<lparr>bind_name = match_path_binding m, bind_entity_type = Type_Path\<rparr> \<and>
     node_form (match_source m) (tm_source q) \<and> node_form (match_target m) (tm_target q) \<and>
     rel_direction (tm_relationship q) = rel_direction (match_relationship m) \<and>
     mset (rel_kinds (tm_relationship q)) = mset (rel_kinds (match_relationship m)) \<and> sorted (rel_kinds (tm_relationship q)) \<and>
     rel_min_depth (tm_relationship q) = rel_min_depth (match_relationship m) \<and>
     rel_max_depth (tm_relationship q) = rel_max_depth (match_relationship m)"

definition query_form :: "externals \<Rightarrow> QueryAst \<Rightarrow> TypedQueryAst \<Rightarrow> bool" where
  "query_form E ast q \<longleftrightarrow>
     (let \<Gamma> = map_of (bindings_of (ast_match_clause ast)) in
      ta_contract_version q = BOUNDED_QUERY_CONTRACT_VERSION \<and> ta_type_contract_version q = BOUNDED_QUERY_TYPE_CONTRACT_VERSION \<and>
      match_form (ast_match_clause ast) (ta_match_clause q) \<and>
      rel_option (expr_form E \<Gamma>) (ast_where_clause ast) (ta_where_clause q) \<and>
      tr_distinct (ta_return_clause q) = return_distinct (ast_return_clause ast) \<and>
      list_all2 (projection_form \<Gamma>) (return_projections (ast_return_clause ast)) (tr_projections (ta_return_clause q)) \<and>
      list_all2 (\<lambda>i j. projection_form \<Gamma> (order_projection i) (to_projection j) \<and> to_direction j = order_direction i)
        (ast_order_by ast) (ta_order_by q) \<and>
      ta_limit q = ast_limit ast)"

lemma collapse_joins: "joins E f c xs (collapse c (canonical_sort E f xs))"
proof -
  have "collapse c ys = (if length ys = 1 then hd ys else c ys)" for ys
    by (auto simp: collapse_def split: list.split)
  moreover have "mset (canonical_sort E f xs) = mset xs" "sorted (map (\<lambda>t. json_to_string E (f t)) (canonical_sort E f xs))"
    by (simp_all add: canonical_sort_def)
  ultimately show ?thesis unfolding joins_def by blast
qed

lemma check_scalar_form: "check_scalar p t True = Inr q \<Longrightarrow> scalar_form t p q"
  by (auto simp: check_scalar_def sum_bind_Inr_iff resolve_field_Inr check_operator_Inr scalar_form_def field_form_def)

lemma check_entity_form:
  "check_entity_expression E b t e = Inr x \<Longrightarrow> entity_form E t e x"
  "check_entity_terms E b t es = Inr xs \<Longrightarrow> entity_forms E t es xs"
proof (induction E b t e and E b t es arbitrary: x and xs rule: check_entity_expression_check_entity_terms.induct)
  case (1 E b t es)
  then obtain xs where "entity_forms E t es xs" "x = canonical_entity_or E xs" by (auto simp: sum_bind_Inr_iff)
  then show ?case by (auto simp: canonical_entity_or_def intro: form_entity_or collapse_joins)
next
  case (2 E b t es)
  then obtain xs where "entity_forms E t es xs" "x = canonical_entity_and E xs" by (auto simp: sum_bind_Inr_iff)
  then show ?case by (auto simp: canonical_entity_and_def intro: form_entity_and collapse_joins)
qed (auto simp: sum_bind_Inr_iff split: if_splits intro: entity_form_entity_forms.intros check_scalar_form)

lemma check_quantifier_form:
  assumes "check_quantifier E tops quantified p = Inr (t, q)"
  shows "quantifier_form E p t"
  using assms
  by (auto simp: check_quantifier_def sum_bind_Inr_iff Let_def quantifier_form_def split: if_splits intro: check_entity_form)

lemma check_expression_form:
  "check_expression E tops e quantified = Inr (x, q) \<Longrightarrow> expr_form E (bm_get tops) e x"
  "check_terms E tops es quantified = Inr (xs, q) \<Longrightarrow> expr_forms E (bm_get tops) es xs"
proof (induction E tops e quantified and E tops es quantified arbitrary: x q and xs q
    rule: check_expression_check_terms.induct)
  case (1 E tops es quantified)
  then obtain xs where "expr_forms E (bm_get tops) es xs" "x = canonical_expression_or E xs" by (auto simp: sum_bind_Inr_iff)
  then show ?case by (auto simp: canonical_expression_or_def intro: form_or collapse_joins)
next
  case (2 E tops es quantified)
  then obtain xs where "expr_forms E (bm_get tops) es xs" "x = canonical_expression_and E xs" by (auto simp: sum_bind_Inr_iff)
  then show ?case by (auto simp: canonical_expression_and_def intro: form_and collapse_joins)
next
  case (4 E tops p quantified)
  then show ?case
    by (auto simp: sum_bind_Inr_iff check_top_level_scalar_def split: option.splits intro: form_scalar check_scalar_form)
next
  case (5 E tops p quantified)
  then show ?case by (auto simp: sum_bind_Inr_iff intro: form_quantifier check_quantifier_form)
qed (fastforce simp: sum_bind_Inr_iff intro: expr_form_expr_forms.intros)+

lemma check_projection_form: "check_projection tops c p = Inr q \<Longrightarrow> projection_form (bm_get tops) p q"
  by (cases p) (auto simp: sum_bind_Inr_iff resolve_field_Inr field_form_def split: option.splits)

lemma check_query_form:
  assumes tops: "new_type_checker (ast_match_clause ast) = Inr tops" and typed: "check_query E tops ast = Inr q"
  shows "query_form E ast q"
proof -
  let ?\<Gamma> = "map_of (bindings_of (ast_match_clause ast))"
  have env: "bm_get tops = ?\<Gamma>" by (rule new_type_checker_Inr(1) [OF tops])
  obtain m w r items where parts: "check_match_clause (ast_match_clause ast) = Inr m" "check_where E tops (ast_where_clause ast) = Inr w"
    "check_return_clause tops (ast_return_clause ast) = Inr r"
    "collect_results (check_order_item tops (tr_projections r)) (ast_order_by ast) = Inr items"
    and q: "q = \<lparr>ta_contract_version = BOUNDED_QUERY_CONTRACT_VERSION,
      ta_type_contract_version = BOUNDED_QUERY_TYPE_CONTRACT_VERSION, ta_match_clause = m,
      ta_where_clause = w, ta_return_clause = r, ta_order_by = items, ta_limit = ast_limit ast\<rparr>"
    using typed by (auto simp: check_query_def sum_bind_Inr_iff)
  have "match_form (ast_match_clause ast) m"
    using parts(1) by (auto simp: check_match_clause_def Let_def match_form_def node_form_def typed_node_pattern_def split: if_splits)
  moreover have "rel_option (expr_form E ?\<Gamma>) (ast_where_clause ast) w"
    using parts(2) check_expression_form(1) [of E tops]
    by (auto simp: check_where_def sum_bind_Inr_iff env split: option.splits)
  moreover have "tr_distinct r = return_distinct (ast_return_clause ast)"
      "list_all2 (projection_form ?\<Gamma>) (return_projections (ast_return_clause ast)) (tr_projections r)"
    using parts(3) check_projection_form [of tops]
    by (auto simp: check_return_clause_def sum_bind_Inr_iff collect_results_Inr env elim!: list_all2_mono)
  moreover have "list_all2 (\<lambda>i j. projection_form ?\<Gamma> (order_projection i) (to_projection j) \<and> to_direction j = order_direction i)
      (ast_order_by ast) items"
    using parts(4) check_projection_form [of tops] unfolding collect_results_Inr
    by (auto simp: check_order_item_def sum_bind_Inr_iff env split: if_splits elim!: list_all2_mono)
  ultimately show ?thesis by (simp add: query_form_def Let_def q)
qed

lemma type_check_iff: "(\<exists>q. type_check_bounded_query E ast = Inr q) \<longleftrightarrow> query_typed ast"
proof (cases "ast_contract_version ast = BOUNDED_QUERY_CONTRACT_VERSION \<and> (\<exists>tops. new_type_checker (ast_match_clause ast) = Inr tops)")
  case True
  then obtain tops where "new_type_checker (ast_match_clause ast) = Inr tops" by blast
  with check_query_iff [OF this, of E] True show ?thesis by (simp add: type_check_bounded_query_def sum_bind_Inr_iff)
next
  case False
  then have "\<not> query_typed ast" unfolding new_type_checker_Inr(2) query_typed_def Let_def by blast
  with False show ?thesis by (auto simp: type_check_bounded_query_def sum_bind_Inr_iff)
qed

lemma type_check_ok:
  assumes "type_check_bounded_query E ast = Inr q"
  shows "typed_ast_ok (tq_ast q)" and "tq_digest q = typed_query_ast_digest E (tq_ast q)" and "query_form E ast (tq_ast q)"
proof -
  obtain tops typed where tops: "new_type_checker (ast_match_clause ast) = Inr tops" and typed: "check_query E tops ast = Inr typed"
    and q: "q = \<lparr>tq_ast = typed, tq_digest = typed_query_ast_digest E typed\<rparr>"
    using assms by (auto simp: type_check_bounded_query_def sum_bind_Inr_iff split: if_splits)
  obtain m w r items where parts: "check_match_clause (ast_match_clause ast) = Inr m" "check_where E tops (ast_where_clause ast) = Inr w"
    "check_return_clause tops (ast_return_clause ast) = Inr r"
    "collect_results (check_order_item tops (tr_projections r)) (ast_order_by ast) = Inr items" and
    fields: "ta_match_clause typed = m" "ta_where_clause typed = w" "ta_return_clause typed = r" "ta_order_by typed = items"
    using typed by (auto simp: check_query_def sum_bind_Inr_iff)
  let ?c = "ast_match_clause ast"
  have m: "distinct (rel_kinds (match_relationship ?c))"
    "m = \<lparr>tm_path = \<lparr>bind_name = match_path_binding ?c, bind_entity_type = Type_Path\<rparr>, tm_source = typed_node_pattern (match_source ?c),
      tm_relationship = (match_relationship ?c)\<lparr>rel_kinds := sort (rel_kinds (match_relationship ?c))\<rparr>,
      tm_target = typed_node_pattern (match_target ?c)\<rparr>"
    using parts(1) by (simp_all add: check_match_clause_def adjacent_duplicate_sort Let_def split: if_splits)
  have env: "bm_get tops = typed_env m"
    unfolding new_type_checker_Inr(1) [OF tops] by (simp add: m(2) typed_env_def typed_node_pattern_def bindings_of_def)
  have "distinct (map fst (bindings_of ?c))" using new_type_checker_Inr(2) [of ?c] tops by blast
  then have names: "distinct [bind_name (tn_binding (tm_source m)), bind_name (tm_path m), bind_name (tn_binding (tm_target m))]"
    by (simp add: m(2) typed_node_pattern_def bindings_of_def)
  have kinds: "strict_sorted (rel_kinds (tm_relationship m))"
    using m(1) by (simp add: m(2) strict_sorted_iff)
  have "typed_expr_ok (typed_env m) e" if "w = Some e" for e
  proof -
    obtain e' q where "check_expression E tops e' [] = Inr (e, q)"
      using parts(2) \<open>w = Some e\<close> by (auto simp: check_where_def sum_bind_Inr_iff split: option.splits)
    from check_expression_Inr(1) [OF this] show ?thesis by (simp add: env)
  qed
  moreover have "list_all2 (\<lambda>p p'. check_projection tops ''return'' p = Inr p') (return_projections (ast_return_clause ast)) (tr_projections r)"
    using parts(3) by (auto simp: check_return_clause_def sum_bind_Inr_iff collect_results_Inr)
  from list_all2_set(2) [OF this] have "\<forall>p\<in>set (tr_projections r). typed_projection_ok (typed_env m) p"
    using check_projection_ok [of tops "''return''"] unfolding env by blast
  moreover have "to_projection ` set items \<subseteq> set (tr_projections r)"
  proof
    fix p assume "p \<in> to_projection ` set items"
    then obtain i where i: "i \<in> set items" "p = to_projection i" by blast
    obtain item where "check_order_item tops (tr_projections r) item = Inr i"
      using list_all2_set(2) [OF parts(4) [unfolded collect_results_Inr] i(1)] by blast
    then show "p \<in> set (tr_projections r)"
      by (auto simp: i(2) check_order_item_def sum_bind_Inr_iff split: if_splits)
  qed
  ultimately show "typed_ast_ok (tq_ast q)"
    using names kinds by (simp add: q typed_ast_ok_def fields Let_def)
  show "tq_digest q = typed_query_ast_digest E (tq_ast q)" by (simp add: q)
  show "query_form E ast (tq_ast q)" using check_query_form [OF tops typed] by (simp add: q)
qed

text \<open>
  C6: The type checker is sound and complete. It accepts exactly the trees that the type system calls queries. The
  tree it returns is the typed form of the query: the same pattern with its relationship kinds sorted, the same
  projections, order items, distinctness and limit, and the \<open>WHERE\<close> condition with every field annotated, nested
  conjunctions and disjunctions flattened and their terms ordered by their canonical text. That tree is well typed:
  every field is one of the registry with the type and nullability recorded for it, every operator fits the field,
  every quantifier ranges over the edges, sites or evidence of the path, every projection names a top-level binding,
  and every order item is projected. Its digest is taken of its canonical text.
\<close>

theorem type_check_exact:
  "case type_check_bounded_query E ast of
     Inl _ \<Rightarrow> \<not> query_typed ast
   | Inr q \<Rightarrow> query_typed ast \<and> query_form E ast (tq_ast q) \<and> typed_ast_ok (tq_ast q) \<and>
       tq_digest q = typed_query_ast_digest E (tq_ast q)"
  using type_check_iff [of E ast] type_check_ok [of E ast] by (cases "type_check_bounded_query E ast") auto

end
