(* ===== verification/Query_Eval.thy ===== *)
theory Query_Eval
  imports Query_Typing Record_Json Postprocess "HOL-Library.Word"
begin

text \<open>
  Evaluation of typed query predicates on entities and paths: the second half of
  \<^verbatim>\<open>crates/depgraph-core/src/bounded_query_execute.rs\<close>.

  A predicate reads one field of an entity view and compares it with its literal. A \<open>WHERE\<close> expression is evaluated
  on a witness, which carries the edges of a path and one bit per quantifier over sites or evidence that the path
  has satisfied so far; the quantifiers are numbered in the order the evaluation visits them, so the evaluation
  never short-circuits. The meaning \<open>holds\<close> of a typed expression is stated on the path alone.
\<close>

unbundle bit_operations_syntax

section \<open>Entity views\<close>

datatype EntityView =
    View_Node NodeRecord | View_Path "string option" nat string | View_Edge EdgeRecord
  | View_Site SiteRecord | View_Evidence EvidenceRecord

type_synonym decoder = "json \<Rightarrow> condition option"

fun entity_field_value :: "externals \<Rightarrow> decoder \<Rightarrow> EntityView \<Rightarrow> string \<Rightarrow> json option" where
  "entity_field_value E decode (View_Node node) field = map_of
     [(''id'', String (node_id node)), (''kind'', String (node_kind node)), (''locator'', String (node_locator node)),
      (''display_name'', String (node_display_name node))] field"
| "entity_field_value E decode (View_Path path_id depth direction) field = map_of
     [(''id'', (case path_id of None \<Rightarrow> Null | Some i \<Rightarrow> String i)), (''depth'', Number (PosInt depth)),
      (''direction'', String direction)] field"
| "entity_field_value E decode (View_Edge edge) field = map_of
     [(''id'', String (edge_id edge)), (''kind'', String (edge_kind edge)), (''phase'', String (edge_phase edge)),
      (''environment'', String (edge_environment edge)), (''profile_id'', String (edge_profile_id edge)),
      (''resolution_status'', String (edge_resolution_status edge)), (''precision'', String (edge_precision edge)),
      (''condition'', String (render_condition E decode (edge_condition edge))), (''generated'', Bool (edge_generated edge))] field"
| "entity_field_value E decode (View_Site site) field = map_of
     [(''id'', String (site_id site)), (''kind'', String (site_kind site)), (''specifier'', opt_string (site_specifier site)),
      (''profile_id'', String (site_profile_id site)), (''resolution_status'', String (site_resolution_status site)),
      (''precision'', String (site_precision site)), (''condition'', String (render_condition E decode (site_condition site))),
      (''reason'', opt_string (site_reason site))] field"
| "entity_field_value E decode (View_Evidence v) field =
     (if field = ''ordinal'' then (if ev_ordinal v < 0 then None else Some (Number (PosInt (nat (ev_ordinal v)))))
      else map_of
     [(''owner_type'', String (ev_owner_type v)), (''kind'', String (ev_kind v)), (''extractor'', String (ev_extractor v)),
      (''extractor_version'', String (ev_extractor_version v)), (''path'', String (ev_path v)),
      (''start_line'', Number (PosInt (ev_start_line v))), (''start_column'', Number (PosInt (ev_start_column v))),
      (''end_line'', Number (PosInt (ev_end_line v))), (''end_column'', Number (PosInt (ev_end_column v)))] field)"

section \<open>Scalar predicates\<close>

fun literal_value :: "Literal \<Rightarrow> json" where
  "literal_value (Lit_String s) = String s"
| "literal_value (Lit_Unsigned n) = Number (PosInt n)"
| "literal_value (Lit_Boolean b) = Bool b"
| "literal_value Lit_Null = Null"

datatype ordering = Order_Less | Order_Equal | Order_Greater

definition compare :: "'a::linorder \<Rightarrow> 'a \<Rightarrow> ordering" where
  "compare a b = (if a < b then Order_Less else if a = b then Order_Equal else Order_Greater)"

fun scalar_order :: "json \<Rightarrow> json \<Rightarrow> ordering option" where
  "scalar_order (String a) (String b) = Some (compare a b)"
| "scalar_order (Number a) (Number b) =
     Option.bind (as_u64 (Number a)) (\<lambda>m. Option.bind (as_u64 (Number b)) (\<lambda>n. Some (compare m n)))"
| "scalar_order _ _ = None"

fun operator_holds :: "json \<Rightarrow> ScalarOperator \<Rightarrow> bool" where
  "operator_holds left (Op_Equal l) \<longleftrightarrow> json_same left (literal_value l)"
| "operator_holds left (Op_NotEqual l) \<longleftrightarrow> \<not> json_same left (literal_value l)"
| "operator_holds left (Op_Less l) \<longleftrightarrow> scalar_order left (literal_value l) = Some Order_Less"
| "operator_holds left (Op_LessOrEqual l) \<longleftrightarrow> scalar_order left (literal_value l) \<in> {Some Order_Less, Some Order_Equal}"
| "operator_holds left (Op_Greater l) \<longleftrightarrow> scalar_order left (literal_value l) = Some Order_Greater"
| "operator_holds left (Op_GreaterOrEqual l) \<longleftrightarrow> scalar_order left (literal_value l) \<in> {Some Order_Greater, Some Order_Equal}"
| "operator_holds left (Op_StartsWith (Lit_String prefix)) \<longleftrightarrow>
     (case as_str left of None \<Rightarrow> False | Some value \<Rightarrow> starts_with value prefix)"
| "operator_holds left (Op_StartsWith _) \<longleftrightarrow> False"
| "operator_holds left (Op_In ls) \<longleftrightarrow> list_ex (\<lambda>l. json_same left (literal_value l)) ls"

definition field_holds :: "externals \<Rightarrow> decoder \<Rightarrow> string \<Rightarrow> ScalarOperator \<Rightarrow> EntityView \<Rightarrow> bool" where
  "field_holds E decode field op view =
     (case entity_field_value E decode view field of None \<Rightarrow> False | Some left \<Rightarrow> operator_holds left op)"

definition evaluate_scalar_predicate :: "externals \<Rightarrow> decoder \<Rightarrow> TypedScalarPredicate \<Rightarrow> EntityView \<Rightarrow> bool" where
  "evaluate_scalar_predicate E decode predicate view =
     field_holds E decode (tf_field (tp_field predicate)) (tp_operator predicate) view"

fun evaluate_entity_expression :: "externals \<Rightarrow> decoder \<Rightarrow> TypedEntityExpression \<Rightarrow> EntityView \<Rightarrow> bool" where
  "evaluate_entity_expression E decode (TEntity_Or ts) view \<longleftrightarrow> list_ex (\<lambda>t. evaluate_entity_expression E decode t view) ts"
| "evaluate_entity_expression E decode (TEntity_And ts) view \<longleftrightarrow> list_all (\<lambda>t. evaluate_entity_expression E decode t view) ts"
| "evaluate_entity_expression E decode (TEntity_Not t) view \<longleftrightarrow> \<not> evaluate_entity_expression E decode t view"
| "evaluate_entity_expression E decode (TEntity_Scalar p) view \<longleftrightarrow> evaluate_scalar_predicate E decode p view"

section \<open>Expressions on a witness\<close>

record Witness =
  wit_node_ids :: "string list"
  wit_edge_ids :: "string list"
  wit_used_edges :: "string bset"
  wit_site_ids :: "string bset"
  wit_existential_bits :: "64 word"

record EvaluationContext =
  ec_query :: TypedQuery
  ec_source :: NodeRecord
  ec_target :: NodeRecord
  ec_witness :: Witness
  ec_edges :: "(string, EdgeRecord) bmap"

text \<open>\<open>1_u64 << index\<close>, as the release profile computes it: the shift amount is taken modulo the width.\<close>

definition some_bit :: "nat \<Rightarrow> 64 word" where
  "some_bit index = push_bit (index mod 64) 1"

definition has_bit :: "64 word \<Rightarrow> nat \<Rightarrow> bool" where
  "has_bit bits index \<longleftrightarrow> bits AND some_bit index \<noteq> 0"

definition scalar_view :: "EvaluationContext \<Rightarrow> string \<Rightarrow> EntityView" where
  "scalar_view c binding =
     (let m = ta_match_clause (tq_ast (ec_query c)) in
      if binding = bind_name (tn_binding (tm_source m)) then View_Node (ec_source c)
      else if binding = bind_name (tn_binding (tm_target m)) then View_Node (ec_target c)
      else View_Path None (length (wit_edge_ids (ec_witness c))) (direction_name (rel_direction (tm_relationship m))))"

definition evaluate_quantifier ::
  "externals \<Rightarrow> decoder \<Rightarrow> EvaluationContext \<Rightarrow> TypedQuantifierPredicate \<Rightarrow> nat \<Rightarrow> bool \<times> nat" where
  "evaluate_quantifier E decode c q some_index =
     (case bind_entity_type (tq_binding q) of
        Type_Edge \<Rightarrow>
          (list_all (\<lambda>eid. case bm_get (ec_edges c) eid of
             None \<Rightarrow> False
           | Some edge \<Rightarrow> evaluate_entity_expression E decode (tq_expression q) (View_Edge edge)) (wit_edge_ids (ec_witness c)), some_index)
      | Type_Site \<Rightarrow> (has_bit (wit_existential_bits (ec_witness c)) some_index, some_index + 1)
      | Type_Evidence \<Rightarrow> (has_bit (wit_existential_bits (ec_witness c)) some_index, some_index + 1)
      | _ \<Rightarrow> (False, some_index))"

fun evaluate_expression :: "externals \<Rightarrow> decoder \<Rightarrow> EvaluationContext \<Rightarrow> TypedExpression \<Rightarrow> nat \<Rightarrow> bool \<times> nat"
  and evaluate_any :: "externals \<Rightarrow> decoder \<Rightarrow> EvaluationContext \<Rightarrow> bool \<Rightarrow> TypedExpression list \<Rightarrow> nat \<Rightarrow> bool \<times> nat"
  and evaluate_all :: "externals \<Rightarrow> decoder \<Rightarrow> EvaluationContext \<Rightarrow> bool \<Rightarrow> TypedExpression list \<Rightarrow> nat \<Rightarrow> bool \<times> nat" where
  "evaluate_expression E decode c (TExpr_Or ts) some_index = evaluate_any E decode c False ts some_index"
| "evaluate_expression E decode c (TExpr_And ts) some_index = evaluate_all E decode c True ts some_index"
| "evaluate_expression E decode c (TExpr_Not t) some_index =
     (case evaluate_expression E decode c t some_index of (b, some_index) \<Rightarrow> (\<not> b, some_index))"
| "evaluate_expression E decode c (TExpr_Scalar p) some_index =
     (evaluate_scalar_predicate E decode p (scalar_view c (tf_binding (tp_field p))), some_index)"
| "evaluate_expression E decode c (TExpr_Quantifier q) some_index = evaluate_quantifier E decode c q some_index"
| "evaluate_any E decode c matched [] some_index = (matched, some_index)"
| "evaluate_any E decode c matched (t # ts) some_index =
     (case evaluate_expression E decode c t some_index of (b, some_index) \<Rightarrow> evaluate_any E decode c (matched \<or> b) ts some_index)"
| "evaluate_all E decode c matched [] some_index = (matched, some_index)"
| "evaluate_all E decode c matched (t # ts) some_index =
     (case evaluate_expression E decode c t some_index of (b, some_index) \<Rightarrow> evaluate_all E decode c (matched \<and> b) ts some_index)"

fun collect_some_predicates :: "TypedExpression \<Rightarrow> TypedQuantifierPredicate list" where
  "collect_some_predicates (TExpr_Or ts) = concat (map collect_some_predicates ts)"
| "collect_some_predicates (TExpr_And ts) = concat (map collect_some_predicates ts)"
| "collect_some_predicates (TExpr_Not t) = collect_some_predicates t"
| "collect_some_predicates (TExpr_Quantifier q) = (if bind_entity_type (tq_binding q) \<in> {Type_Site, Type_Evidence} then [q] else [])"
| "collect_some_predicates (TExpr_Scalar p) = []"

fun expression_references_only_source :: "TypedExpression \<Rightarrow> string \<Rightarrow> bool" where
  "expression_references_only_source (TExpr_Or ts) b \<longleftrightarrow> list_all (\<lambda>t. expression_references_only_source t b) ts"
| "expression_references_only_source (TExpr_And ts) b \<longleftrightarrow> list_all (\<lambda>t. expression_references_only_source t b) ts"
| "expression_references_only_source (TExpr_Not t) b \<longleftrightarrow> expression_references_only_source t b"
| "expression_references_only_source (TExpr_Scalar p) b \<longleftrightarrow> tf_binding (tp_field p) = b"
| "expression_references_only_source (TExpr_Quantifier q) b \<longleftrightarrow> False"

text \<open>\<open>find_map\<close>: the first term that gives an identity.\<close>

fun find_source_id :: "string \<Rightarrow> TypedExpression \<Rightarrow> string option"
  and find_source_id_in :: "string \<Rightarrow> TypedExpression list \<Rightarrow> string option" where
  "find_source_id b (TExpr_Scalar p) =
     (if tf_binding (tp_field p) = b \<and> tf_field (tp_field p) = ''id''
      then (case tp_operator p of Op_Equal (Lit_String value) \<Rightarrow> Some value | _ \<Rightarrow> None) else None)"
| "find_source_id b (TExpr_And ts) = find_source_id_in b ts"
| "find_source_id b (TExpr_Or ts) = None"
| "find_source_id b (TExpr_Not t) = None"
| "find_source_id b (TExpr_Quantifier q) = None"
| "find_source_id_in b [] = None"
| "find_source_id_in b (t # ts) = (case find_source_id b t of Some value \<Rightarrow> Some value | None \<Rightarrow> find_source_id_in b ts)"

definition source_id_lookup :: "TypedQuery \<Rightarrow> string option" where
  "source_id_lookup query =
     Option.bind (ta_where_clause (tq_ast query))
       (find_source_id (bind_name (tn_binding (tm_source (ta_match_clause (tq_ast query))))))"

definition source_name :: "TypedQuery \<Rightarrow> string" where
  "source_name query = bind_name (tn_binding (tm_source (ta_match_clause (tq_ast query))))"

definition target_name :: "TypedQuery \<Rightarrow> string" where
  "target_name query = bind_name (tn_binding (tm_target (ta_match_clause (tq_ast query))))"

section \<open>Projections\<close>

definition closed_node_value :: "NodeRecord \<Rightarrow> json" where
  "closed_node_value node = Object [(''id'', String (node_id node)), (''kind'', String (node_kind node)),
     (''locator'', String (node_locator node)), (''display_name'', String (node_display_name node))]"

definition closed_edge_value :: "externals \<Rightarrow> decoder \<Rightarrow> EdgeRecord \<Rightarrow> json" where
  "closed_edge_value E decode edge = Object [(''id'', String (edge_id edge)), (''kind'', String (edge_kind edge)),
     (''phase'', String (edge_phase edge)), (''environment'', String (edge_environment edge)),
     (''profile_id'', String (edge_profile_id edge)), (''resolution_status'', String (edge_resolution_status edge)),
     (''precision'', String (edge_precision edge)), (''condition'', String (render_condition E decode (edge_condition edge))),
     (''generated'', Bool (edge_generated edge))]"

definition closed_site_value :: "externals \<Rightarrow> decoder \<Rightarrow> SiteRecord \<Rightarrow> json" where
  "closed_site_value E decode site = Object [(''id'', String (site_id site)), (''kind'', String (site_kind site)),
     (''specifier'', opt_string (site_specifier site)), (''profile_id'', String (site_profile_id site)),
     (''resolution_status'', String (site_resolution_status site)), (''precision'', String (site_precision site)),
     (''condition'', String (render_condition E decode (site_condition site))), (''reason'', opt_string (site_reason site))]"

definition closed_evidence_value :: "EvidenceRecord \<Rightarrow> json" where
  "closed_evidence_value v = Object [(''owner_type'', String (ev_owner_type v)), (''kind'', String (ev_kind v)),
     (''extractor'', String (ev_extractor v)), (''extractor_version'', String (ev_extractor_version v)),
     (''path'', String (ev_path v)), (''start_line'', Number (PosInt (ev_start_line v))),
     (''start_column'', Number (PosInt (ev_start_column v))), (''end_line'', Number (PosInt (ev_end_line v))),
     (''end_column'', Number (PosInt (ev_end_column v))), (''ordinal'', Number (PosInt (nat (max (ev_ordinal v) 0))))]"

end
