(* ===== verification/Query_Plan.thy ===== *)
theory Query_Plan
  imports Query_Eval
begin

text \<open>
  The planner of the bounded query language: \<^verbatim>\<open>crates/depgraph-core/src/bounded_query_plan.rs\<close>.

  The planner takes cardinality statistics of a snapshot, computes worst-case resource bounds of a typed query in
  saturating \<open>u64\<close> arithmetic, and admits the query when every bound is within its limit. Plan, statistics and graph
  are identified by digests of their serialization.
\<close>

section \<open>Arithmetic\<close>

definition saturating_mul :: "nat \<Rightarrow> nat \<Rightarrow> nat" where
  "saturating_mul a b = min (a * b) u64_max"

definition multiply_then_div :: "nat \<Rightarrow> nat \<Rightarrow> nat \<Rightarrow> nat" where
  "multiply_then_div value multiplier divisor =
     (case checked_mul value multiplier of Some product \<Rightarrow> product div divisor | None \<Rightarrow> u64_max)"

definition ceil_div :: "nat \<Rightarrow> nat \<Rightarrow> nat" where
  "ceil_div value divisor = value div divisor + (if value mod divisor = 0 then 0 else 1)"

definition sum_saturating :: "nat list \<Rightarrow> nat" where
  "sum_saturating xs = fold (\<lambda>x acc. saturating_add acc x) xs 0"

section \<open>Constants and records\<close>

definition BOUNDED_QUERY_PLAN_SCHEMA_VERSION :: string where
  "BOUNDED_QUERY_PLAN_SCHEMA_VERSION = ''bounded-query-plan-v1''"

definition BOUNDED_QUERY_LIMIT_VERSION :: string where
  "BOUNDED_QUERY_LIMIT_VERSION = ''bounded-query-limits-v1''"

definition BOUNDED_QUERY_STATISTICS_VERSION :: string where
  "BOUNDED_QUERY_STATISTICS_VERSION = ''bounded-query-statistics-v1''"

definition STATE_BYTES :: nat where
  [limit_simps]: "STATE_BYTES = 256"
definition ADJACENCY_EDGE_BYTES :: nat where
  [limit_simps]: "ADJACENCY_EDGE_BYTES = 64"
definition NODE_INDEX_BYTES :: nat where
  [limit_simps]: "NODE_INDEX_BYTES = 32"
definition SITE_INDEX_BYTES :: nat where
  [limit_simps]: "SITE_INDEX_BYTES = 32"
definition EVIDENCE_INDEX_BYTES :: nat where
  [limit_simps]: "EVIDENCE_INDEX_BYTES = 32"
definition SCALAR_PROJECTION_WEIGHT :: nat where
  [limit_simps]: "SCALAR_PROJECTION_WEIGHT = 1"
definition NODE_PROJECTION_WEIGHT :: nat where
  [limit_simps]: "NODE_PROJECTION_WEIGHT = 4"
definition PATH_PROJECTION_WEIGHT :: nat where
  [limit_simps]: "PATH_PROJECTION_WEIGHT = 16"

record BoundedQueryLimits =
  ql_source_node_tests :: nat
  ql_traversal_states :: nat
  ql_edge_tests :: nat
  ql_site_tests :: nat
  ql_evidence_tests :: nat
  ql_result_rows :: nat
  ql_serialized_output_bytes :: nat
  ql_deterministic_cost :: nat
  ql_working_memory_bytes :: nat
  ql_deadline_milliseconds :: nat

definition default_query_limits :: BoundedQueryLimits where
  "default_query_limits =
     \<lparr>ql_source_node_tests = 10000, ql_traversal_states = 50000, ql_edge_tests = 200000, ql_site_tests = 100000,
      ql_evidence_tests = 200000, ql_result_rows = 10000, ql_serialized_output_bytes = 16 * 1024 * 1024,
      ql_deterministic_cost = 1000000, ql_working_memory_bytes = 128 * 1024 * 1024, ql_deadline_milliseconds = 5000\<rparr>"

record ClosedFieldByteBounds =
  cb_node :: "(string, nat) bmap"
  cb_edge :: "(string, nat) bmap"
  cb_site :: "(string, nat) bmap"
  cb_evidence :: "(string, nat) bmap"
  cb_node_entity :: nat
  cb_edge_entity :: nat
  cb_site_entity :: nat
  cb_evidence_entity :: nat

record SnapshotCardinalityStatistics =
  st_statistics_version :: string
  st_snapshot_id :: string
  st_graph_digest :: string
  st_node_count :: nat
  st_profile_count :: nat
  st_edge_count :: nat
  st_site_count :: nat
  st_evidence_count :: nat
  st_nodes_by_kind :: "(string, nat) bmap"
  st_edges_by_kind :: "(string, nat) bmap"
  st_edges_by_profile :: "(string, nat) bmap"
  st_edges_by_phase :: "(string, nat) bmap"
  st_maximum_forward_degree_by_kind :: "(string, nat) bmap"
  st_maximum_reverse_degree_by_kind :: "(string, nat) bmap"
  st_sites_by_kind :: "(string, nat) bmap"
  st_sites_by_profile :: "(string, nat) bmap"
  st_evidence_by_kind :: "(string, nat) bmap"
  st_max_evidence_per_edge :: nat
  st_max_evidence_per_site :: nat
  st_closed_field_byte_bounds :: ClosedFieldByteBounds
  st_metadata_digest :: string

record QueryCardinalityInputs =
  ci_source_nodes :: nat
  ci_target_nodes :: nat
  ci_eligible_edges :: nat
  ci_maximum_adjacency_degree :: nat
  ci_existential_predicates :: nat
  ci_site_predicates :: nat
  ci_evidence_predicates :: nat
  ci_maximum_associated_evidence_per_edge :: nat
  ci_endpoint_pairs :: nat
  ci_projection_width :: nat

datatype BoundedQueryOperatorKind =
    NodeIdLookup | NodeKindScan | BoundedNodeScan | CanonicalAdjacencyBuild | BoundedForwardBfs | BoundedReverseBfs
  | AssociatedSiteFilter | AssociatedEvidenceFilter | Project_Operator | Distinct_Operator | CanonicalSort | Limit_Operator

record BoundedQueryOperatorPlan =
  op_operator :: BoundedQueryOperatorKind
  op_worst_case_rows :: nat
  op_worst_case_visits :: nat
  op_worst_case_tests :: nat
  op_worst_case_serialized_bytes :: nat
  op_cost :: nat

record BoundedQueryResourceBounds =
  rb_source_node_tests :: nat
  rb_traversal_states :: nat
  rb_edge_tests :: nat
  rb_site_tests :: nat
  rb_evidence_tests :: nat
  rb_result_rows :: nat
  rb_serialized_output_bytes :: nat
  rb_working_memory_bytes :: nat
  rb_deterministic_cost :: nat

record QueryAdmissionReason =
  ar_code :: string
  ar_resource :: string
  ar_observed :: nat
  ar_limit :: nat
  ar_remediation :: string

record BoundedQueryPlan =
  plan_schema_version :: string
  plan_contract_version :: string
  plan_limit_version :: string
  plan_typed_ast_digest :: string
  plan_snapshot_id :: string
  plan_graph_digest :: string
  plan_redacted_typed_ast_shape :: json
  plan_snapshot_statistics :: SnapshotCardinalityStatistics
  plan_cardinality_inputs :: QueryCardinalityInputs
  plan_operators :: "BoundedQueryOperatorPlan list"
  plan_bounds :: BoundedQueryResourceBounds
  plan_limits :: BoundedQueryLimits
  plan_admitted :: bool
  plan_reasons :: "QueryAdmissionReason list"
  plan_plan_digest :: string

record BoundedQueryPlanningError =
  pe_code :: string
  pe_message :: string

section \<open>Digests of the closed graph\<close>

definition digest_json :: "externals \<Rightarrow> string \<Rightarrow> json \<Rightarrow> string" where
  "digest_json E namespace value = namespace @ '':sha256:'' @ sha256_hex E (json_to_string E value)"

definition digest_bytes :: "externals \<Rightarrow> string \<Rightarrow> string \<Rightarrow> string" where
  "digest_bytes E namespace bytes = namespace @ '':sha256:'' @ sha256_hex E bytes"

fun canonicalize_json :: "json \<Rightarrow> json" where
  "canonicalize_json (Object ms) = Object (sort_key fst (map (\<lambda>(k, v). (k, canonicalize_json v)) ms))"
| "canonicalize_json (Array vs) = Array (map canonicalize_json vs)"
| "canonicalize_json v = v"

definition canonical_condition :: "externals \<Rightarrow> decoder \<Rightarrow> json \<Rightarrow> string" where
  "canonical_condition E decode condition = render_condition E decode (canonicalize_json condition)"

definition closed_edge :: "externals \<Rightarrow> decoder \<Rightarrow> EdgeRecord \<Rightarrow> json" where
  "closed_edge E decode edge = Object [(''id'', String (edge_id edge)), (''kind'', String (edge_kind edge)),
     (''phase'', String (edge_phase edge)), (''environment'', String (edge_environment edge)),
     (''profile_id'', String (edge_profile_id edge)), (''resolution_status'', String (edge_resolution_status edge)),
     (''precision'', String (edge_precision edge)), (''condition'', String (canonical_condition E decode (edge_condition edge))),
     (''generated'', Bool (edge_generated edge)), (''source'', String (edge_source edge)),
     (''target'', String (edge_target edge)), (''site_id'', opt_string (edge_site_id edge))]"

definition closed_site :: "externals \<Rightarrow> decoder \<Rightarrow> SiteRecord \<Rightarrow> json" where
  "closed_site E decode site = Object [(''id'', String (site_id site)), (''kind'', String (site_kind site)),
     (''specifier'', opt_string (site_specifier site)), (''profile_id'', String (site_profile_id site)),
     (''resolution_status'', String (site_resolution_status site)), (''precision'', String (site_precision site)),
     (''condition'', String (canonical_condition E decode (site_condition site))), (''reason'', opt_string (site_reason site)),
     (''source'', String (site_source site)), (''target_ids'', strings_value (sort_dedup (site_target_ids site)))]"

definition closed_evidence :: "EvidenceRecord \<Rightarrow> json" where
  "closed_evidence v = Object [(''owner_type'', String (ev_owner_type v)), (''owner_id'', String (ev_owner_id v)),
     (''ordinal'', int_value (ev_ordinal v)), (''kind'', String (ev_kind v)), (''extractor'', String (ev_extractor v)),
     (''extractor_version'', String (ev_extractor_version v)), (''path'', String (ev_path v)),
     (''start_line'', Number (PosInt (ev_start_line v))), (''start_column'', Number (PosInt (ev_start_column v))),
     (''end_line'', Number (PosInt (ev_end_line v))), (''end_column'', Number (PosInt (ev_end_column v)))]"

definition sort_values :: "externals \<Rightarrow> json list \<Rightarrow> json list" where
  "sort_values E values = sort_key (json_to_string E) values"

definition bounded_query_graph_digest :: "externals \<Rightarrow> decoder \<Rightarrow> GraphSnapshot \<Rightarrow> string" where
  "bounded_query_graph_digest E decode snapshot =
     digest_json E ''bounded-query-graph'' (Object
       [(''schema'', String BOUNDED_QUERY_STATISTICS_VERSION),
        (''nodes'', Array (sort_values E (map closed_node_value (snap_nodes snapshot)))),
        (''edges'', Array (sort_values E (map (closed_edge E decode) (snap_edges snapshot)))),
        (''sites'', Array (sort_values E (map (closed_site E decode) (snap_sites snapshot)))),
        (''evidence'', Array (sort_values E (map closed_evidence (snap_evidence snapshot))))])"

text \<open>The prefix is that of every graph digest; the code panics without it.\<close>

definition bounded_query_snapshot_id :: "string \<Rightarrow> string" where
  "bounded_query_snapshot_id graph_digest =
     ''snapshot:sha256:'' @ the (strip_prefix graph_digest ''bounded-query-graph:sha256:'')"

section \<open>Statistics\<close>

definition counts :: "string list \<Rightarrow> (string, nat) bmap" where
  "counts items = fold (\<lambda>item. bm_entry 0 item Suc) items []"

definition json_bytes :: "externals \<Rightarrow> json \<Rightarrow> nat" where
  "json_bytes E value = to_u64 (length (json_to_string E value))"

definition max_or_zero :: "nat list \<Rightarrow> nat" where
  "max_or_zero xs = (if xs = [] then 0 else Max (set xs))"

definition maximum_json_bytes :: "externals \<Rightarrow> json list \<Rightarrow> nat" where
  "maximum_json_bytes E values = max_or_zero (map (json_bytes E) values)"

definition maximum_evidence_per_owner :: "EvidenceRecord list \<Rightarrow> string \<Rightarrow> nat" where
  "maximum_evidence_per_owner evidence owner_type =
     max_or_zero (bm_values (fold (\<lambda>item. bm_entry 0 (ev_owner_id item) Suc)
       (filter (\<lambda>item. ev_owner_type item = owner_type) evidence) []))"

fun anchor_node :: "QueryDirection \<Rightarrow> EdgeRecord \<Rightarrow> string" where
  "anchor_node Direction_Forward edge = edge_source edge"
| "anchor_node Direction_Reverse edge = edge_target edge"

definition maximum_degree_cardinalities :: "EdgeRecord list \<Rightarrow> QueryDirection \<Rightarrow> (string, nat) bmap" where
  "maximum_degree_cardinalities edges direction =
     (let cardinalities = fold (\<lambda>edge. bm_entry [] (anchor_node direction edge) (bm_entry 0 (edge_kind edge) Suc)) edges [] in
      fold (\<lambda>by_kind. fold (\<lambda>(kind, count). bm_entry 0 kind (\<lambda>maximum. max maximum count)) by_kind) (bm_values cardinalities) [])"

definition field_bounds :: "externals \<Rightarrow> json list \<Rightarrow> string list \<Rightarrow> bool \<Rightarrow> (string, nat) bmap" where
  "field_bounds E values names nullable =
     fold (\<lambda>field. bm_insert field (fold (\<lambda>value maximum. case json_get value field of
          None \<Rightarrow> maximum
        | Some v \<Rightarrow> max maximum (json_bytes E v)) values (if nullable then 4 else 0))) names []"

definition closed_field_byte_bounds :: "externals \<Rightarrow> decoder \<Rightarrow> GraphSnapshot \<Rightarrow> ClosedFieldByteBounds" where
  "closed_field_byte_bounds E decode snapshot =
     (let node_values = map closed_node_value (snap_nodes snapshot);
          edge_values = map (closed_edge E decode) (snap_edges snapshot);
          site_values = map (closed_site E decode) (snap_sites snapshot);
          evidence_values = map closed_evidence (snap_evidence snapshot) in
      \<lparr>cb_node = field_bounds E node_values [''id'', ''kind'', ''locator'', ''display_name''] False,
       cb_edge = field_bounds E edge_values [''id'', ''kind'', ''phase'', ''environment'', ''profile_id'',
         ''resolution_status'', ''precision'', ''condition'', ''generated''] False,
       cb_site = field_bounds E site_values [''id'', ''kind'', ''specifier'', ''profile_id'', ''resolution_status'',
         ''precision'', ''condition'', ''reason''] True,
       cb_evidence = field_bounds E evidence_values [''owner_type'', ''kind'', ''extractor'', ''extractor_version'',
         ''path'', ''start_line'', ''start_column'', ''end_line'', ''end_column'', ''ordinal''] False,
       cb_node_entity = maximum_json_bytes E node_values,
       cb_edge_entity = maximum_json_bytes E edge_values,
       cb_site_entity = max (maximum_json_bytes E site_values) 4,
       cb_evidence_entity = maximum_json_bytes E evidence_values\<rparr>)"

definition number :: "nat \<Rightarrow> json" where
  "number n = Number (PosInt n)"

definition counts_value :: "(string, nat) bmap \<Rightarrow> json" where
  "counts_value m = Object (map (\<lambda>(k, n). (k, number n)) m)"

definition byte_bounds_value :: "ClosedFieldByteBounds \<Rightarrow> json" where
  "byte_bounds_value b = Object [(''node'', counts_value (cb_node b)), (''edge'', counts_value (cb_edge b)),
     (''site'', counts_value (cb_site b)), (''evidence'', counts_value (cb_evidence b)),
     (''node_entity'', number (cb_node_entity b)), (''edge_entity'', number (cb_edge_entity b)),
     (''site_entity'', number (cb_site_entity b)), (''evidence_entity'', number (cb_evidence_entity b))]"

definition statistics_value :: "SnapshotCardinalityStatistics \<Rightarrow> json" where
  "statistics_value s = Object [(''statistics_version'', String (st_statistics_version s)),
     (''snapshot_id'', String (st_snapshot_id s)), (''graph_digest'', String (st_graph_digest s)),
     (''node_count'', number (st_node_count s)), (''profile_count'', number (st_profile_count s)),
     (''edge_count'', number (st_edge_count s)), (''site_count'', number (st_site_count s)),
     (''evidence_count'', number (st_evidence_count s)), (''nodes_by_kind'', counts_value (st_nodes_by_kind s)),
     (''edges_by_kind'', counts_value (st_edges_by_kind s)), (''edges_by_profile'', counts_value (st_edges_by_profile s)),
     (''edges_by_phase'', counts_value (st_edges_by_phase s)),
     (''maximum_forward_degree_by_kind'', counts_value (st_maximum_forward_degree_by_kind s)),
     (''maximum_reverse_degree_by_kind'', counts_value (st_maximum_reverse_degree_by_kind s)),
     (''sites_by_kind'', counts_value (st_sites_by_kind s)), (''sites_by_profile'', counts_value (st_sites_by_profile s)),
     (''evidence_by_kind'', counts_value (st_evidence_by_kind s)),
     (''max_evidence_per_edge'', number (st_max_evidence_per_edge s)),
     (''max_evidence_per_site'', number (st_max_evidence_per_site s)),
     (''closed_field_byte_bounds'', byte_bounds_value (st_closed_field_byte_bounds s)),
     (''metadata_digest'', String (st_metadata_digest s))]"

definition statistics_digest :: "externals \<Rightarrow> SnapshotCardinalityStatistics \<Rightarrow> string" where
  "statistics_digest E s = digest_json E ''bounded-query-statistics'' (statistics_value (s\<lparr>st_metadata_digest := []\<rparr>))"

definition collect_bounded_query_statistics :: "externals \<Rightarrow> decoder \<Rightarrow> GraphSnapshot \<Rightarrow> SnapshotCardinalityStatistics" where
  "collect_bounded_query_statistics E decode snapshot =
     (let graph_digest = bounded_query_graph_digest E decode snapshot;
          statistics =
            \<lparr>st_statistics_version = BOUNDED_QUERY_STATISTICS_VERSION,
             st_snapshot_id = bounded_query_snapshot_id graph_digest,
             st_graph_digest = graph_digest,
             st_node_count = to_u64 (length (snap_nodes snapshot)),
             st_profile_count = to_u64 (length (snap_profiles snapshot)),
             st_edge_count = to_u64 (length (snap_edges snapshot)),
             st_site_count = to_u64 (length (snap_sites snapshot)),
             st_evidence_count = to_u64 (length (snap_evidence snapshot)),
             st_nodes_by_kind = counts (map node_kind (snap_nodes snapshot)),
             st_edges_by_kind = counts (map edge_kind (snap_edges snapshot)),
             st_edges_by_profile = counts (map edge_profile_id (snap_edges snapshot)),
             st_edges_by_phase = counts (map edge_phase (snap_edges snapshot)),
             st_maximum_forward_degree_by_kind = maximum_degree_cardinalities (snap_edges snapshot) Direction_Forward,
             st_maximum_reverse_degree_by_kind = maximum_degree_cardinalities (snap_edges snapshot) Direction_Reverse,
             st_sites_by_kind = counts (map site_kind (snap_sites snapshot)),
             st_sites_by_profile = counts (map site_profile_id (snap_sites snapshot)),
             st_evidence_by_kind = counts (map ev_kind (snap_evidence snapshot)),
             st_max_evidence_per_edge = maximum_evidence_per_owner (snap_evidence snapshot) ''edge'',
             st_max_evidence_per_site = maximum_evidence_per_owner (snap_evidence snapshot) ''site'',
             st_closed_field_byte_bounds = closed_field_byte_bounds E decode snapshot,
             st_metadata_digest = []\<rparr> in
      statistics\<lparr>st_metadata_digest := statistics_digest E statistics\<rparr>)"

definition planning_error :: "string \<Rightarrow> string \<Rightarrow> BoundedQueryPlanningError" where
  "planning_error code message = \<lparr>pe_code = code, pe_message = message\<rparr>"

definition validate_statistics ::
  "externals \<Rightarrow> decoder \<Rightarrow> GraphSnapshot \<Rightarrow> SnapshotCardinalityStatistics \<Rightarrow> BoundedQueryPlanningError + unit" where
  "validate_statistics E decode snapshot statistics =
     (if st_statistics_version statistics \<noteq> BOUNDED_QUERY_STATISTICS_VERSION
      then Inl (planning_error ''query_statistics_version_invalid'' ''snapshot statistics version is not supported'')
      else if st_metadata_digest statistics \<noteq> statistics_digest E statistics
      then Inl (planning_error ''query_statistics_digest_mismatch'' ''snapshot statistics digest does not match its canonical payload'')
      else let observed = collect_bounded_query_statistics E decode snapshot in
        if st_graph_digest statistics \<noteq> st_graph_digest observed
        then Inl (planning_error ''query_snapshot_graph_digest_mismatch'' ''snapshot graph digest does not match its canonical closed graph'')
        else if observed \<noteq> statistics
        then Inl (planning_error ''query_statistics_cardinality_mismatch'' ''snapshot statistics do not match the selected snapshot'')
        else Inr ())"

section \<open>Cardinality inputs\<close>

fun conjunct_has_source_id_lookup :: "TypedExpression \<Rightarrow> string \<Rightarrow> bool" where
  "conjunct_has_source_id_lookup (TExpr_Scalar p) source \<longleftrightarrow>
     tf_binding (tp_field p) = source \<and> tf_field (tp_field p) = ''id'' \<and>
     (case tp_operator p of Op_Equal (Lit_String _) \<Rightarrow> True | _ \<Rightarrow> False)"
| "conjunct_has_source_id_lookup (TExpr_And ts) source \<longleftrightarrow> list_ex (\<lambda>t. conjunct_has_source_id_lookup t source) ts"
| "conjunct_has_source_id_lookup (TExpr_Or ts) source \<longleftrightarrow> False"
| "conjunct_has_source_id_lookup (TExpr_Not t) source \<longleftrightarrow> False"
| "conjunct_has_source_id_lookup (TExpr_Quantifier q) source \<longleftrightarrow> False"

definition has_source_id_lookup :: "TypedQueryAst \<Rightarrow> bool" where
  "has_source_id_lookup ast = (case ta_where_clause ast of
     None \<Rightarrow> False
   | Some e \<Rightarrow> conjunct_has_source_id_lookup e (bind_name (tn_binding (tm_source (ta_match_clause ast)))))"

definition choose_source_operator :: "TypedQueryAst \<Rightarrow> BoundedQueryOperatorKind" where
  "choose_source_operator ast =
     (if has_source_id_lookup ast then NodeIdLookup
      else if tn_kind (tm_source (ta_match_clause ast)) \<noteq> None then NodeKindScan else BoundedNodeScan)"

definition add_counts :: "nat \<times> nat \<times> nat \<Rightarrow> nat \<times> nat \<times> nat \<Rightarrow> nat \<times> nat \<times> nat" where
  "add_counts l r = (case (l, r) of ((a, b, c), (a', b', c')) \<Rightarrow> (saturating_add a a', saturating_add b b', saturating_add c c'))"

fun quantifier_counts :: "TypedExpression \<Rightarrow> nat \<times> nat \<times> nat" where
  "quantifier_counts (TExpr_Or ts) = fold (\<lambda>r l. add_counts l r) (map quantifier_counts ts) (0, 0, 0)"
| "quantifier_counts (TExpr_And ts) = fold (\<lambda>r l. add_counts l r) (map quantifier_counts ts) (0, 0, 0)"
| "quantifier_counts (TExpr_Not t) = quantifier_counts t"
| "quantifier_counts (TExpr_Scalar p) = (0, 0, 0)"
| "quantifier_counts (TExpr_Quantifier q) = (case bind_entity_type (tq_binding q) of
     Type_Site \<Rightarrow> (1, 1, 0) | Type_Evidence \<Rightarrow> (1, 0, 1) | _ \<Rightarrow> (0, 0, 0))"

definition where_quantifier_counts :: "TypedQueryAst \<Rightarrow> nat \<times> nat \<times> nat" where
  "where_quantifier_counts ast = (case ta_where_clause ast of None \<Rightarrow> (0, 0, 0) | Some e \<Rightarrow> quantifier_counts e)"

definition nodes_of_kind :: "SnapshotCardinalityStatistics \<Rightarrow> string option \<Rightarrow> nat" where
  "nodes_of_kind statistics kind =
     (case Option.bind kind (bm_get (st_nodes_by_kind statistics)) of
        Some n \<Rightarrow> n
      | None \<Rightarrow> if kind \<noteq> None then 0 else st_node_count statistics)"

fun projection_weight :: "TypedProjection \<Rightarrow> nat" where
  "projection_weight (TProject_Binding b) = (case bind_entity_type b of
     Type_Node \<Rightarrow> NODE_PROJECTION_WEIGHT | Type_Path \<Rightarrow> PATH_PROJECTION_WEIGHT | _ \<Rightarrow> SCALAR_PROJECTION_WEIGHT)"
| "projection_weight (TProject_Field f) = SCALAR_PROJECTION_WEIGHT"

definition get_or_zero :: "(string, nat) bmap \<Rightarrow> string \<Rightarrow> nat" where
  "get_or_zero m k = (case bm_get m k of None \<Rightarrow> 0 | Some n \<Rightarrow> n)"

definition query_cardinality_inputs :: "TypedQueryAst \<Rightarrow> SnapshotCardinalityStatistics \<Rightarrow> QueryCardinalityInputs" where
  "query_cardinality_inputs ast statistics =
     (let m = ta_match_clause ast;
          source_nodes = (if has_source_id_lookup ast then min 1 (st_node_count statistics)
            else nodes_of_kind statistics (tn_kind (tm_source m)));
          target_nodes = nodes_of_kind statistics (tn_kind (tm_target m));
          kinds = bs_of_list (rel_kinds (tm_relationship m));
          eligible_edges = sum_saturating (map (get_or_zero (st_edges_by_kind statistics)) kinds);
          maximum_degrees = (case rel_direction (tm_relationship m) of
              Direction_Forward \<Rightarrow> st_maximum_forward_degree_by_kind statistics
            | Direction_Reverse \<Rightarrow> st_maximum_reverse_degree_by_kind statistics);
          (existential_predicates, site_predicates, evidence_predicates) = where_quantifier_counts ast in
      \<lparr>ci_source_nodes = source_nodes,
       ci_target_nodes = target_nodes,
       ci_eligible_edges = eligible_edges,
       ci_maximum_adjacency_degree = min (sum_saturating (map (get_or_zero maximum_degrees) kinds)) eligible_edges,
       ci_existential_predicates = existential_predicates,
       ci_site_predicates = site_predicates,
       ci_evidence_predicates = evidence_predicates,
       ci_maximum_associated_evidence_per_edge =
         saturating_add (st_max_evidence_per_edge statistics) (st_max_evidence_per_site statistics),
       ci_endpoint_pairs = saturating_mul source_nodes target_nodes,
       ci_projection_width = sum_saturating (map projection_weight (tr_projections (ta_return_clause ast)))\<rparr>)"

section \<open>Bounds\<close>

definition predicate_states :: "nat \<Rightarrow> nat" where
  "predicate_states existential_predicates = (if existential_predicates \<ge> 63 then u64_max else 2 ^ existential_predicates)"

definition traversal_state_bound :: "nat \<Rightarrow> nat \<Rightarrow> nat \<Rightarrow> nat \<Rightarrow> nat \<Rightarrow> nat" where
  "traversal_state_bound sources nodes edges maximum_depth existential_predicates =
     (if sources = 0 \<or> nodes = 0 then 0
      else
        let (used_edge_sets, _) = fold (\<lambda>depth (used_edge_sets, combinations).
              let combinations = multiply_then_div combinations (edges - depth + 1) depth in
              (saturating_add used_edge_sets combinations, combinations)) [1..<min maximum_depth edges + 1] (1, 1) in
        saturating_mul sources (saturating_mul nodes (saturating_mul (predicate_states existential_predicates) used_edge_sets)))"

definition stable_id_json_byte_bound :: "externals \<Rightarrow> string \<Rightarrow> nat" where
  "stable_id_json_byte_bound E namespace = json_bytes E (String (namespace @ '':sha256:'' @ replicate 64 (CHR ''0'')))"

definition heterogeneous_json_array_byte_bound :: "nat \<Rightarrow> nat \<Rightarrow> nat" where
  "heterogeneous_json_array_byte_bound item_count item_bytes = saturating_add (saturating_add 2 item_bytes) (item_count - 1)"

definition uniform_json_array_byte_bound :: "nat \<Rightarrow> nat \<Rightarrow> nat" where
  "uniform_json_array_byte_bound item_count item_byte_bound =
     heterogeneous_json_array_byte_bound item_count (saturating_mul item_count item_byte_bound)"

definition json_object_byte_bound :: "externals \<Rightarrow> (string \<times> nat) list \<Rightarrow> nat" where
  "json_object_byte_bound E members =
     saturating_add (saturating_add 2 (sum_saturating (map (\<lambda>(key, value_bytes).
       saturating_add (saturating_add (json_bytes E (String key)) 1) value_bytes) members))) (to_u64 (length members) - 1)"

definition path_byte_bound :: "externals \<Rightarrow> TypedQueryAst \<Rightarrow> ClosedFieldByteBounds \<Rightarrow> QueryCardinalityInputs \<Rightarrow> nat" where
  "path_byte_bound E ast names cardinality =
     (let depth = rel_max_depth (tm_relationship (ta_match_clause ast));
          evidence_count = saturating_mul depth (ci_maximum_associated_evidence_per_edge cardinality) in
      json_object_byte_bound E
       [(''id'', stable_id_json_byte_bound E ''query-path''),
        (''depth'', json_bytes E (number depth)),
        (''direction'', max (json_bytes E (String (direction_name Direction_Forward))) (json_bytes E (String (direction_name Direction_Reverse)))),
        (''nodes'', uniform_json_array_byte_bound (saturating_add depth 1) (cb_node_entity names)),
        (''edges'', uniform_json_array_byte_bound depth (cb_edge_entity names)),
        (''sites'', uniform_json_array_byte_bound depth (cb_site_entity names)),
        (''evidence'', uniform_json_array_byte_bound evidence_count (cb_evidence_entity names))])"

definition get_or_four :: "(string, nat) bmap \<Rightarrow> string \<Rightarrow> nat" where
  "get_or_four m k = (case bm_get m k of None \<Rightarrow> 4 | Some n \<Rightarrow> n)"

fun projection_byte_bound ::
  "externals \<Rightarrow> TypedQueryAst \<Rightarrow> SnapshotCardinalityStatistics \<Rightarrow> QueryCardinalityInputs \<Rightarrow> TypedProjection \<Rightarrow> nat" where
  "projection_byte_bound E ast statistics cardinality (TProject_Binding b) =
     (case bind_entity_type b of
        Type_Node \<Rightarrow> cb_node_entity (st_closed_field_byte_bounds statistics)
      | Type_Path \<Rightarrow> path_byte_bound E ast (st_closed_field_byte_bounds statistics) cardinality
      | _ \<Rightarrow> 4)"
| "projection_byte_bound E ast statistics cardinality (TProject_Field f) =
     (let names = st_closed_field_byte_bounds statistics in
      case tf_entity_type f of
        Type_Node \<Rightarrow> get_or_four (cb_node names) (tf_field f)
      | Type_Edge \<Rightarrow> get_or_four (cb_edge names) (tf_field f)
      | Type_Site \<Rightarrow> get_or_four (cb_site names) (tf_field f)
      | Type_Evidence \<Rightarrow> get_or_four (cb_evidence names) (tf_field f)
      | Type_Path \<Rightarrow> (if tf_field f = ''id'' then 87 else if tf_field f = ''depth'' then 20
          else if tf_field f = ''direction'' then 9 else 4))"

definition projected_row_byte_bound :: "externals \<Rightarrow> TypedQueryAst \<Rightarrow> SnapshotCardinalityStatistics \<Rightarrow> QueryCardinalityInputs \<Rightarrow> nat" where
  "projected_row_byte_bound E ast statistics cardinality =
     (let projections = tr_projections (ta_return_clause ast) in
      heterogeneous_json_array_byte_bound (to_u64 (length projections))
        (sum_saturating (map (projection_byte_bound E ast statistics cardinality) projections)))"

definition admission_reasons :: "BoundedQueryResourceBounds \<Rightarrow> BoundedQueryLimits \<Rightarrow> QueryAdmissionReason list" where
  "admission_reasons bounds limits =
     map (\<lambda>(resource, observed, limit, remediation). \<lparr>ar_code = ''query_plan_budget_exceeded'', ar_resource = resource,
         ar_observed = observed, ar_limit = limit, ar_remediation = remediation\<rparr>)
     (filter (\<lambda>(_, observed, limit, _). observed > limit)
       [(''source_node_tests'', rb_source_node_tests bounds, ql_source_node_tests limits,
          ''add an exact source id or source kind predicate''),
        (''traversal_states'', rb_traversal_states bounds, ql_traversal_states limits,
          ''reduce path depth, edge kinds, or existential path predicates''),
        (''edge_tests'', rb_edge_tests bounds, ql_edge_tests limits, ''reduce path depth or relationship kinds''),
        (''site_tests'', rb_site_tests bounds, ql_site_tests limits, ''reduce path depth or site predicates''),
        (''evidence_tests'', rb_evidence_tests bounds, ql_evidence_tests limits, ''reduce path depth or evidence predicates''),
        (''result_rows'', rb_result_rows bounds, ql_result_rows limits, ''lower LIMIT''),
        (''serialized_output_bytes'', rb_serialized_output_bytes bounds, ql_serialized_output_bytes limits,
          ''lower LIMIT or project fewer fields''),
        (''working_memory_bytes'', rb_working_memory_bytes bounds, ql_working_memory_bytes limits,
          ''reduce path depth, relationship kinds, or output width''),
        (''deterministic_cost'', rb_deterministic_cost bounds, ql_deterministic_cost limits,
          ''reduce path depth, relationship kinds, or path predicates'')])"

section \<open>The redacted shape\<close>

definition redacted_literal :: "externals \<Rightarrow> string \<Rightarrow> json" where
  "redacted_literal E literal = Object [(''scalar_type'', String ''string''), (''byte_length'', number (length literal)),
     (''digest'', String (digest_bytes E ''query-literal'' literal))]"

text \<open>\<open>Map::insert\<close> of a key that is there keeps its place.\<close>

definition replace_member :: "string \<Rightarrow> json \<Rightarrow> (string \<times> json) list \<Rightarrow> (string \<times> json) list" where
  "replace_member k v ms = map (\<lambda>m. if fst m = k then (k, v) else m) ms"

fun redact_string_literals :: "externals \<Rightarrow> json \<Rightarrow> json" where
  "redact_string_literals E (Object ms) =
     (case (map_of ms ''kind'', map_of ms ''value'') of
        (Some (String kind), Some (String literal)) \<Rightarrow>
          if kind = ''string'' then Object (replace_member ''value'' (redacted_literal E literal) ms)
          else Object (map (\<lambda>(k, v). (k, redact_string_literals E v)) ms)
      | _ \<Rightarrow> Object (map (\<lambda>(k, v). (k, redact_string_literals E v)) ms))"
| "redact_string_literals E (Array vs) = Array (map (redact_string_literals E) vs)"
| "redact_string_literals E v = v"

fun redact_string_slot :: "externals \<Rightarrow> json \<Rightarrow> json" where
  "redact_string_slot E (String literal) = redacted_literal E literal"
| "redact_string_slot E v = v"

fun redact_string_slots :: "externals \<Rightarrow> json \<Rightarrow> json" where
  "redact_string_slots E (Array vs) = Array (map (redact_string_slot E) vs)"
| "redact_string_slots E v = v"

text \<open>\<open>pointer_mut\<close> along object members.\<close>

fun update_at :: "string list \<Rightarrow> (json \<Rightarrow> json) \<Rightarrow> json \<Rightarrow> json" where
  "update_at [] f v = f v"
| "update_at (k # ks) f (Object ms) = Object (map (\<lambda>(k', v). (k', if k' = k then update_at ks f v else v)) ms)"
| "update_at (k # ks) f v = v"

definition redacted_typed_query_shape :: "externals \<Rightarrow> TypedQueryAst \<Rightarrow> json" where
  "redacted_typed_query_shape E ast =
     (let shape = redact_string_literals E (typed_ast_json ast);
          shape = update_at [''match_clause'', ''source'', ''kind''] (redact_string_slot E) shape;
          shape = update_at [''match_clause'', ''target'', ''kind''] (redact_string_slot E) shape in
      update_at [''match_clause'', ''relationship'', ''kinds''] (redact_string_slots E) shape)"

section \<open>Plans\<close>

definition cardinality_value :: "QueryCardinalityInputs \<Rightarrow> json" where
  "cardinality_value c = Object [(''source_nodes'', number (ci_source_nodes c)), (''target_nodes'', number (ci_target_nodes c)),
     (''eligible_edges'', number (ci_eligible_edges c)), (''maximum_adjacency_degree'', number (ci_maximum_adjacency_degree c)),
     (''existential_predicates'', number (ci_existential_predicates c)), (''site_predicates'', number (ci_site_predicates c)),
     (''evidence_predicates'', number (ci_evidence_predicates c)),
     (''maximum_associated_evidence_per_edge'', number (ci_maximum_associated_evidence_per_edge c)),
     (''endpoint_pairs'', number (ci_endpoint_pairs c)), (''projection_width'', number (ci_projection_width c))]"

fun operator_kind_name :: "BoundedQueryOperatorKind \<Rightarrow> string" where
  "operator_kind_name NodeIdLookup = ''node_id_lookup''"
| "operator_kind_name NodeKindScan = ''node_kind_scan''"
| "operator_kind_name BoundedNodeScan = ''bounded_node_scan''"
| "operator_kind_name CanonicalAdjacencyBuild = ''canonical_adjacency_build''"
| "operator_kind_name BoundedForwardBfs = ''bounded_forward_bfs''"
| "operator_kind_name BoundedReverseBfs = ''bounded_reverse_bfs''"
| "operator_kind_name AssociatedSiteFilter = ''associated_site_filter''"
| "operator_kind_name AssociatedEvidenceFilter = ''associated_evidence_filter''"
| "operator_kind_name Project_Operator = ''project''"
| "operator_kind_name Distinct_Operator = ''distinct''"
| "operator_kind_name CanonicalSort = ''canonical_sort''"
| "operator_kind_name Limit_Operator = ''limit''"

definition operator_plan_value :: "BoundedQueryOperatorPlan \<Rightarrow> json" where
  "operator_plan_value p = Object [(''operator'', String (operator_kind_name (op_operator p))),
     (''worst_case_rows'', number (op_worst_case_rows p)), (''worst_case_visits'', number (op_worst_case_visits p)),
     (''worst_case_tests'', number (op_worst_case_tests p)),
     (''worst_case_serialized_bytes'', number (op_worst_case_serialized_bytes p)), (''cost'', number (op_cost p))]"

definition bounds_value :: "BoundedQueryResourceBounds \<Rightarrow> json" where
  "bounds_value b = Object [(''source_node_tests'', number (rb_source_node_tests b)),
     (''traversal_states'', number (rb_traversal_states b)), (''edge_tests'', number (rb_edge_tests b)),
     (''site_tests'', number (rb_site_tests b)), (''evidence_tests'', number (rb_evidence_tests b)),
     (''result_rows'', number (rb_result_rows b)), (''serialized_output_bytes'', number (rb_serialized_output_bytes b)),
     (''working_memory_bytes'', number (rb_working_memory_bytes b)), (''deterministic_cost'', number (rb_deterministic_cost b))]"

definition limits_value :: "BoundedQueryLimits \<Rightarrow> json" where
  "limits_value l = Object [(''source_node_tests'', number (ql_source_node_tests l)),
     (''traversal_states'', number (ql_traversal_states l)), (''edge_tests'', number (ql_edge_tests l)),
     (''site_tests'', number (ql_site_tests l)), (''evidence_tests'', number (ql_evidence_tests l)),
     (''result_rows'', number (ql_result_rows l)), (''serialized_output_bytes'', number (ql_serialized_output_bytes l)),
     (''deterministic_cost'', number (ql_deterministic_cost l)), (''working_memory_bytes'', number (ql_working_memory_bytes l)),
     (''deadline_milliseconds'', number (ql_deadline_milliseconds l))]"

definition admission_reason_value :: "QueryAdmissionReason \<Rightarrow> json" where
  "admission_reason_value r = Object [(''code'', String (ar_code r)), (''resource'', String (ar_resource r)),
     (''observed'', number (ar_observed r)), (''limit'', number (ar_limit r)), (''remediation'', String (ar_remediation r))]"

definition plan_value :: "BoundedQueryPlan \<Rightarrow> json" where
  "plan_value p = Object [(''schema_version'', String (plan_schema_version p)),
     (''contract_version'', String (plan_contract_version p)), (''limit_version'', String (plan_limit_version p)),
     (''typed_ast_digest'', String (plan_typed_ast_digest p)), (''snapshot_id'', String (plan_snapshot_id p)),
     (''graph_digest'', String (plan_graph_digest p)), (''redacted_typed_ast_shape'', plan_redacted_typed_ast_shape p),
     (''snapshot_statistics'', statistics_value (plan_snapshot_statistics p)),
     (''cardinality_inputs'', cardinality_value (plan_cardinality_inputs p)),
     (''operators'', Array (map operator_plan_value (plan_operators p))), (''bounds'', bounds_value (plan_bounds p)),
     (''limits'', limits_value (plan_limits p)), (''admitted'', Bool (plan_admitted p)),
     (''reasons'', Array (map admission_reason_value (plan_reasons p))), (''plan_digest'', String (plan_plan_digest p))]"

definition bounded_query_plan_digest :: "externals \<Rightarrow> BoundedQueryPlan \<Rightarrow> string" where
  "bounded_query_plan_digest E p = digest_json E ''bounded-query-plan'' (plan_value (p\<lparr>plan_plan_digest := []\<rparr>))"

definition canonical_bounded_query_plan_json :: "externals \<Rightarrow> BoundedQueryPlan \<Rightarrow> string" where
  "canonical_bounded_query_plan_json E p = json_to_string E (plan_value p)"

definition operator_plan ::
  "BoundedQueryOperatorKind \<Rightarrow> nat \<Rightarrow> nat \<Rightarrow> nat \<Rightarrow> nat \<Rightarrow> nat \<Rightarrow> BoundedQueryOperatorPlan" where
  "operator_plan kind rows visits tests bytes cost =
     \<lparr>op_operator = kind, op_worst_case_rows = rows, op_worst_case_visits = visits, op_worst_case_tests = tests,
      op_worst_case_serialized_bytes = bytes, op_cost = cost\<rparr>"

definition query_bounds ::
  "externals \<Rightarrow> TypedQueryAst \<Rightarrow> SnapshotCardinalityStatistics \<Rightarrow> QueryCardinalityInputs \<Rightarrow> BoundedQueryResourceBounds" where
  "query_bounds E ast statistics cardinality =
     (let relationship = tm_relationship (ta_match_clause ast);
          traversal_states = traversal_state_bound (ci_source_nodes cardinality) (st_node_count statistics)
            (ci_eligible_edges cardinality) (rel_max_depth relationship) (ci_existential_predicates cardinality);
          states_before_last_depth = traversal_state_bound (ci_source_nodes cardinality) (st_node_count statistics)
            (ci_eligible_edges cardinality) (rel_max_depth relationship - 1) (ci_existential_predicates cardinality);
          edge_tests = saturating_mul states_before_last_depth (ci_maximum_adjacency_degree cardinality);
          site_tests = (if ci_site_predicates cardinality = 0 then 0 else saturating_mul edge_tests (ci_site_predicates cardinality));
          evidence_tests = (if ci_evidence_predicates cardinality = 0 then 0
            else saturating_mul (saturating_mul edge_tests (ci_maximum_associated_evidence_per_edge cardinality))
              (ci_evidence_predicates cardinality));
          result_rows = min (ta_limit ast) (ci_endpoint_pairs cardinality);
          row_bytes = projected_row_byte_bound E ast statistics cardinality;
          serialized_output_bytes = uniform_json_array_byte_bound result_rows row_bytes;
          projection_cost = saturating_mul (ci_projection_width cardinality) (ta_limit ast);
          sort_cost = saturating_mul 2 (min (ta_limit ast) (ci_endpoint_pairs cardinality));
          serialization_cost = ceil_div serialized_output_bytes 64;
          deterministic_cost = sum_saturating [ci_source_nodes cardinality, saturating_mul 2 traversal_states,
            saturating_mul 4 edge_tests, saturating_mul 4 site_tests, saturating_mul 8 evidence_tests, projection_cost,
            sort_cost, serialization_cost];
          working_memory_bytes = sum_saturating [saturating_mul traversal_states STATE_BYTES,
            saturating_mul (ci_eligible_edges cardinality) ADJACENCY_EDGE_BYTES,
            saturating_mul (st_node_count statistics) NODE_INDEX_BYTES,
            saturating_mul (st_site_count statistics) SITE_INDEX_BYTES,
            saturating_mul (st_evidence_count statistics) EVIDENCE_INDEX_BYTES, serialized_output_bytes] in
      \<lparr>rb_source_node_tests = ci_source_nodes cardinality, rb_traversal_states = traversal_states, rb_edge_tests = edge_tests,
       rb_site_tests = site_tests, rb_evidence_tests = evidence_tests, rb_result_rows = result_rows,
       rb_serialized_output_bytes = serialized_output_bytes, rb_working_memory_bytes = working_memory_bytes,
       rb_deterministic_cost = deterministic_cost\<rparr>)"

definition query_operators ::
  "TypedQueryAst \<Rightarrow> QueryCardinalityInputs \<Rightarrow> BoundedQueryResourceBounds \<Rightarrow> BoundedQueryOperatorPlan list" where
  "query_operators ast cardinality bounds =
     (let relationship = tm_relationship (ta_match_clause ast);
          pairs = ci_endpoint_pairs cardinality; rows = rb_result_rows bounds; bytes = rb_serialized_output_bytes bounds;
          sort_rows = min (ta_limit ast) pairs in
      [operator_plan (choose_source_operator ast) (ci_source_nodes cardinality) 0 (ci_source_nodes cardinality) 0 (ci_source_nodes cardinality),
       operator_plan CanonicalAdjacencyBuild (ci_eligible_edges cardinality) 0 (rb_edge_tests bounds) 0 (saturating_mul 4 (rb_edge_tests bounds)),
       operator_plan (case rel_direction relationship of Direction_Forward \<Rightarrow> BoundedForwardBfs | Direction_Reverse \<Rightarrow> BoundedReverseBfs)
         pairs (rb_traversal_states bounds) 0 0 (saturating_mul 2 (rb_traversal_states bounds))]
      @ (if ci_site_predicates cardinality > 0
         then [operator_plan AssociatedSiteFilter pairs 0 (rb_site_tests bounds) 0 (saturating_mul 4 (rb_site_tests bounds))] else [])
      @ (if ci_evidence_predicates cardinality > 0
         then [operator_plan AssociatedEvidenceFilter pairs 0 (rb_evidence_tests bounds) 0 (saturating_mul 8 (rb_evidence_tests bounds))] else [])
      @ [operator_plan Project_Operator rows 0 0 bytes (saturating_mul (ci_projection_width cardinality) (ta_limit ast))]
      @ (if tr_distinct (ta_return_clause ast) then [operator_plan Distinct_Operator rows 0 0 bytes 0] else [])
      @ [operator_plan CanonicalSort sort_rows 0 0 bytes (saturating_mul 2 sort_rows),
         operator_plan Limit_Operator rows 0 0 bytes (ceil_div bytes 64)])"

definition plan_bounded_query_from_verified_statistics ::
  "externals \<Rightarrow> TypedQuery \<Rightarrow> SnapshotCardinalityStatistics \<Rightarrow> BoundedQueryLimits \<Rightarrow> BoundedQueryPlanningError + BoundedQueryPlan" where
  "plan_bounded_query_from_verified_statistics E query statistics limits =
     (if tq_digest query \<noteq> typed_query_ast_digest E (tq_ast query)
      then Inl (planning_error ''query_typed_ast_digest_mismatch'' ''typed query AST digest does not match its canonical payload'')
      else
        let ast = tq_ast query;
            cardinality = query_cardinality_inputs ast statistics;
            bounds = query_bounds E ast statistics cardinality;
            reasons = admission_reasons bounds limits;
            plan = \<lparr>plan_schema_version = BOUNDED_QUERY_PLAN_SCHEMA_VERSION,
              plan_contract_version = BOUNDED_QUERY_CONTRACT_VERSION, plan_limit_version = BOUNDED_QUERY_LIMIT_VERSION,
              plan_typed_ast_digest = tq_digest query, plan_snapshot_id = st_snapshot_id statistics,
              plan_graph_digest = st_graph_digest statistics,
              plan_redacted_typed_ast_shape = redacted_typed_query_shape E ast,
              plan_snapshot_statistics = statistics, plan_cardinality_inputs = cardinality,
              plan_operators = query_operators ast cardinality bounds, plan_bounds = bounds, plan_limits = limits,
              plan_admitted = (reasons = []), plan_reasons = reasons, plan_plan_digest = []\<rparr> in
        Inr (plan\<lparr>plan_plan_digest := bounded_query_plan_digest E plan\<rparr>))"

definition plan_bounded_query_with_limits ::
  "externals \<Rightarrow> decoder \<Rightarrow> TypedQuery \<Rightarrow> GraphSnapshot \<Rightarrow> BoundedQueryLimits \<Rightarrow> BoundedQueryPlanningError + BoundedQueryPlan" where
  "plan_bounded_query_with_limits E decode query snapshot limits =
     plan_bounded_query_from_verified_statistics E query (collect_bounded_query_statistics E decode snapshot) limits"

definition plan_bounded_query ::
  "externals \<Rightarrow> decoder \<Rightarrow> TypedQuery \<Rightarrow> GraphSnapshot \<Rightarrow> BoundedQueryPlanningError + BoundedQueryPlan" where
  "plan_bounded_query E decode query snapshot = plan_bounded_query_with_limits E decode query snapshot default_query_limits"

definition plan_bounded_query_with_statistics ::
  "externals \<Rightarrow> decoder \<Rightarrow> TypedQuery \<Rightarrow> GraphSnapshot \<Rightarrow> SnapshotCardinalityStatistics \<Rightarrow> BoundedQueryPlanningError + BoundedQueryPlan" where
  "plan_bounded_query_with_statistics E decode query snapshot statistics =
     sum_bind (validate_statistics E decode snapshot statistics) (\<lambda>_.
     plan_bounded_query_from_verified_statistics E query statistics default_query_limits)"

end
