(* ===== verification/Query_Execute.thy ===== *)
theory Query_Execute
  imports Query_Plan
begin

text \<open>
  The executor of the bounded query language: \<^verbatim>\<open>crates/depgraph-core/src/bounded_query_execute.rs\<close>.

  After checking that query, plan and snapshot belong together, the executor indexes the snapshot and searches, for
  every source node, the edge-simple walks along the relationship kinds, one depth at a time. Walks that agree on the
  node, the depth, the satisfied existential quantifiers and the set of used edges are represented by the least of
  them; the least walk of the first depth at which a target satisfies the \<open>WHERE\<close> condition is projected to a row.
  Every step is charged to a resource limit and guarded by cancellation and a deadline.

  Cancellation and the clock are parameters: \<open>cancelled_at n\<close> and \<open>elapsed_at n\<close> are what the \<open>n\<close>-th check sees.
\<close>

section \<open>Results, errors and limits\<close>

definition BOUNDED_QUERY_RESULT_SCHEMA_VERSION :: string where
  "BOUNDED_QUERY_RESULT_SCHEMA_VERSION = ''bounded-query-result-v1''"

definition EXECUTION_STATE_BYTES :: nat where
  [limit_simps]: "EXECUTION_STATE_BYTES = 256"

definition EXECUTION_ADJACENCY_EDGE_BYTES :: nat where
  [limit_simps]: "EXECUTION_ADJACENCY_EDGE_BYTES = 64"

definition EXECUTION_NODE_INDEX_BYTES :: nat where
  [limit_simps]: "EXECUTION_NODE_INDEX_BYTES = 32"

definition EXECUTION_SITE_INDEX_BYTES :: nat where
  [limit_simps]: "EXECUTION_SITE_INDEX_BYTES = 32"

definition EXECUTION_EVIDENCE_INDEX_BYTES :: nat where
  [limit_simps]: "EXECUTION_EVIDENCE_INDEX_BYTES = 32"

record BoundedQueryExecutionMetrics =
  em_source_node_tests :: nat
  em_traversal_states :: nat
  em_edge_tests :: nat
  em_site_tests :: nat
  em_evidence_tests :: nat
  em_result_rows :: nat
  em_serialized_output_bytes :: nat
  em_working_memory_bytes :: nat

record BoundedQueryResult =
  br_schema_version :: string
  br_contract_version :: string
  br_plan_digest :: string
  br_snapshot_id :: string
  br_graph_digest :: string
  br_complete :: bool
  br_rows :: "json list list"
  br_metrics :: BoundedQueryExecutionMetrics
  br_result_digest :: string

record BoundedQueryExecutionError =
  xe_code :: string
  xe_resource :: "string option"
  xe_observed :: "nat option"
  xe_limit :: "nat option"
  xe_message :: string

definition execution_error :: "string \<Rightarrow> string \<Rightarrow> BoundedQueryExecutionError" where
  "execution_error code message =
     \<lparr>xe_code = code, xe_resource = None, xe_observed = None, xe_limit = None, xe_message = message\<rparr>"

definition resource_error :: "string \<Rightarrow> nat \<Rightarrow> nat \<Rightarrow> BoundedQueryExecutionError" where
  "resource_error resource observed limit =
     \<lparr>xe_code = ''query_execution_resource_exhausted'', xe_resource = Some resource, xe_observed = Some observed,
      xe_limit = Some limit, xe_message = ''bounded query execution exhausted an admitted resource limit''\<rparr>"

definition cancelled_error :: BoundedQueryExecutionError where
  "cancelled_error = execution_error ''query_execution_cancelled'' ''bounded query execution was cancelled''"

definition deadline_error :: "nat \<Rightarrow> BoundedQueryExecutionError" where
  "deadline_error limit =
     \<lparr>xe_code = ''query_execution_deadline_exceeded'', xe_resource = Some ''deadline_milliseconds'', xe_observed = None,
      xe_limit = Some limit, xe_message = ''bounded query execution exceeded the monotonic deadline''\<rparr>"

definition snapshot_mismatch :: "string \<Rightarrow> BoundedQueryExecutionError" where
  "snapshot_mismatch message = execution_error ''query_execution_snapshot_mismatch'' message"

record environment =
  cancelled_at :: "nat \<Rightarrow> bool"
  elapsed_at :: "nat \<Rightarrow> nat"

definition cancellation_check :: "environment \<Rightarrow> nat \<Rightarrow> BoundedQueryExecutionError + nat" where
  "cancellation_check R n = (if cancelled_at R n then Inl cancelled_error else Inr (n + 1))"

definition construction_guard :: "environment \<Rightarrow> nat \<Rightarrow> nat \<Rightarrow> BoundedQueryExecutionError + nat" where
  "construction_guard R deadline_milliseconds n =
     (if cancelled_at R n then Inl cancelled_error
      else if elapsed_at R n \<ge> deadline_milliseconds then Inl (deadline_error deadline_milliseconds)
      else Inr (n + 1))"

definition validate_lowered_limits :: "BoundedQueryLimits \<Rightarrow> BoundedQueryLimits \<Rightarrow> BoundedQueryExecutionError + unit" where
  "validate_lowered_limits requested hard =
     (if list_ex (\<lambda>(requested, hard). requested > hard)
         [(ql_source_node_tests requested, ql_source_node_tests hard), (ql_traversal_states requested, ql_traversal_states hard),
          (ql_edge_tests requested, ql_edge_tests hard), (ql_site_tests requested, ql_site_tests hard),
          (ql_evidence_tests requested, ql_evidence_tests hard), (ql_result_rows requested, ql_result_rows hard),
          (ql_serialized_output_bytes requested, ql_serialized_output_bytes hard),
          (ql_deterministic_cost requested, ql_deterministic_cost hard),
          (ql_working_memory_bytes requested, ql_working_memory_bytes hard),
          (ql_deadline_milliseconds requested, ql_deadline_milliseconds hard)]
      then Inl (execution_error ''query_execution_limits_invalid'' ''execution limits may lower but never raise the planned hard limits'')
      else Inr ())"

definition validate_execution_inputs ::
  "externals \<Rightarrow> decoder \<Rightarrow> TypedQuery \<Rightarrow> BoundedQueryPlan \<Rightarrow> GraphSnapshot \<Rightarrow> BoundedQueryLimits
     \<Rightarrow> BoundedQueryExecutionError + unit" where
  "validate_execution_inputs E decode query plan snapshot limits =
     (if tq_digest query \<noteq> typed_query_ast_digest E (tq_ast query) \<or> plan_plan_digest plan \<noteq> bounded_query_plan_digest E plan
      then Inl (execution_error ''query_execution_contract_mismatch''
        ''typed query or plan digest does not match its canonical payload'')
      else
        let graph_digest = bounded_query_graph_digest E decode snapshot in
        if graph_digest \<noteq> plan_graph_digest plan \<or> plan_snapshot_id plan \<noteq> bounded_query_snapshot_id graph_digest
          \<or> st_graph_digest (plan_snapshot_statistics plan) \<noteq> graph_digest
          \<or> st_snapshot_id (plan_snapshot_statistics plan) \<noteq> plan_snapshot_id plan
        then Inl (snapshot_mismatch ''selected snapshot does not match the validated query plan'')
        else sum_bind (validate_lowered_limits limits (plan_limits plan)) (\<lambda>_.
          if rb_deterministic_cost (plan_bounds plan) > ql_deterministic_cost limits
          then Inl (resource_error ''deterministic_cost'' (rb_deterministic_cost (plan_bounds plan)) (ql_deterministic_cost limits))
          else Inr ()))"

section \<open>The executor\<close>

record Executor =
  ex_query :: TypedQuery
  ex_plan :: BoundedQueryPlan
  ex_limits :: BoundedQueryLimits
  ex_nodes :: "(string, NodeRecord) bmap"
  ex_edges :: "(string, EdgeRecord) bmap"
  ex_sites :: "(string, SiteRecord) bmap"
  ex_evidence :: "(string \<times> string, EvidenceRecord list) bmap"
  ex_adjacency :: "(string, EdgeRecord list) bmap"
  ex_some_predicates :: "TypedQuantifierPredicate list"

record RowStager =
  rs_projections :: "TypedProjection list"
  rs_order_by :: "TypedOrderItem list"
  rs_distinct :: bool
  rs_limit :: nat
  rs_rows :: "json list list"

text \<open>The mutable part of the executor, with the number of guard checks so far.\<close>

record exec_state =
  xs_polls :: nat
  xs_metrics :: BoundedQueryExecutionMetrics
  xs_staged :: RowStager

abbreviation ex_match :: "Executor \<Rightarrow> TypedMatchClause" where
  "ex_match x \<equiv> ta_match_clause (tq_ast (ex_query x))"

abbreviation ex_direction :: "Executor \<Rightarrow> QueryDirection" where
  "ex_direction x \<equiv> rel_direction (tm_relationship (ex_match x))"

definition guard :: "environment \<Rightarrow> Executor \<Rightarrow> exec_state \<Rightarrow> BoundedQueryExecutionError + exec_state" where
  "guard R x st = sum_bind (construction_guard R (ql_deadline_milliseconds (ex_limits x)) (xs_polls st)) (\<lambda>n. Inr (st\<lparr>xs_polls := n\<rparr>))"

definition check_resource :: "string \<Rightarrow> nat \<Rightarrow> nat \<Rightarrow> BoundedQueryExecutionError + unit" where
  "check_resource resource observed limit = (if observed > limit then Inl (resource_error resource observed limit) else Inr ())"

definition refresh_memory :: "Executor \<Rightarrow> exec_state \<Rightarrow> BoundedQueryExecutionError + exec_state" where
  "refresh_memory x st =
     (let adjacency = saturating_mul (to_u64 (sum_list (map length (bm_values (ex_adjacency x))))) EXECUTION_ADJACENCY_EDGE_BYTES;
          indexes = saturating_add (saturating_add (saturating_mul (to_u64 (length (ex_nodes x))) EXECUTION_NODE_INDEX_BYTES)
            (saturating_mul (to_u64 (length (ex_sites x))) EXECUTION_SITE_INDEX_BYTES))
            (saturating_mul (to_u64 (sum_list (map length (bm_values (ex_evidence x))))) EXECUTION_EVIDENCE_INDEX_BYTES);
          states = saturating_mul (em_traversal_states (xs_metrics st)) EXECUTION_STATE_BYTES;
          memory = saturating_add (saturating_add (saturating_add adjacency indexes) states) (em_serialized_output_bytes (xs_metrics st)) in
      sum_bind (check_resource ''working_memory_bytes'' memory (ql_working_memory_bytes (ex_limits x))) (\<lambda>_.
      Inr (st\<lparr>xs_metrics := (xs_metrics st)\<lparr>em_working_memory_bytes := memory\<rparr>\<rparr>)))"

definition increment_source_tests :: "Executor \<Rightarrow> exec_state \<Rightarrow> BoundedQueryExecutionError + exec_state" where
  "increment_source_tests x st =
     (let n = saturating_add (em_source_node_tests (xs_metrics st)) 1 in
      sum_bind (check_resource ''source_node_tests'' n (ql_source_node_tests (ex_limits x))) (\<lambda>_.
      Inr (st\<lparr>xs_metrics := (xs_metrics st)\<lparr>em_source_node_tests := n\<rparr>\<rparr>)))"

definition increment_state :: "Executor \<Rightarrow> exec_state \<Rightarrow> BoundedQueryExecutionError + exec_state" where
  "increment_state x st =
     (let n = saturating_add (em_traversal_states (xs_metrics st)) 1 in
      sum_bind (check_resource ''traversal_states'' n (ql_traversal_states (ex_limits x))) (\<lambda>_.
      refresh_memory x (st\<lparr>xs_metrics := (xs_metrics st)\<lparr>em_traversal_states := n\<rparr>\<rparr>)))"

definition increment_edge_tests :: "environment \<Rightarrow> Executor \<Rightarrow> exec_state \<Rightarrow> BoundedQueryExecutionError + exec_state" where
  "increment_edge_tests R x st = sum_bind (guard R x st) (\<lambda>st.
     let n = saturating_add (em_edge_tests (xs_metrics st)) 1 in
     sum_bind (check_resource ''edge_tests'' n (ql_edge_tests (ex_limits x))) (\<lambda>_.
     Inr (st\<lparr>xs_metrics := (xs_metrics st)\<lparr>em_edge_tests := n\<rparr>\<rparr>)))"

definition increment_site_tests :: "Executor \<Rightarrow> exec_state \<Rightarrow> BoundedQueryExecutionError + exec_state" where
  "increment_site_tests x st =
     (let n = saturating_add (em_site_tests (xs_metrics st)) 1 in
      sum_bind (check_resource ''site_tests'' n (ql_site_tests (ex_limits x))) (\<lambda>_.
      Inr (st\<lparr>xs_metrics := (xs_metrics st)\<lparr>em_site_tests := n\<rparr>\<rparr>)))"

definition increment_evidence_tests :: "Executor \<Rightarrow> exec_state \<Rightarrow> BoundedQueryExecutionError + exec_state" where
  "increment_evidence_tests x st =
     (let n = saturating_add (em_evidence_tests (xs_metrics st)) 1 in
      sum_bind (check_resource ''evidence_tests'' n (ql_evidence_tests (ex_limits x))) (\<lambda>_.
      Inr (st\<lparr>xs_metrics := (xs_metrics st)\<lparr>em_evidence_tests := n\<rparr>\<rparr>)))"

section \<open>Rows\<close>

definition serialized_rows_bytes :: "externals \<Rightarrow> json list list \<Rightarrow> nat" where
  "serialized_rows_bytes E rows = to_u64 (length (json_to_string E (Array (map Array rows))))"

definition new_row_stager :: "TypedQuery \<Rightarrow> RowStager" where
  "new_row_stager query =
     \<lparr>rs_projections = tr_projections (ta_return_clause (tq_ast query)), rs_order_by = ta_order_by (tq_ast query),
      rs_distinct = tr_distinct (ta_return_clause (tq_ast query)), rs_limit = ta_limit (tq_ast query), rs_rows = []\<rparr>"

fun reverse_ordering :: "ordering \<Rightarrow> ordering" where
  "reverse_ordering Order_Less = Order_Greater"
| "reverse_ordering Order_Equal = Order_Equal"
| "reverse_ordering Order_Greater = Order_Less"

definition compare_values :: "externals \<Rightarrow> json \<Rightarrow> json \<Rightarrow> ordering" where
  "compare_values E left right =
     (case (left, right) of
        (String a, String b) \<Rightarrow> compare a b
      | (Number a, Number b) \<Rightarrow> compare (as_u64 left) (as_u64 right)
      | (Bool a, Bool b) \<Rightarrow> compare a b
      | _ \<Rightarrow> compare (canonical_json E left) (canonical_json E right))"

definition ordered_value :: "externals \<Rightarrow> json \<Rightarrow> json \<Rightarrow> SortDirection \<Rightarrow> ordering" where
  "ordered_value E left right direction =
     (if left = Null \<and> right \<noteq> Null then Order_Less
      else if left \<noteq> Null \<and> right = Null then Order_Greater
      else case direction of
          Ascending \<Rightarrow> compare_values E left right
        | Descending \<Rightarrow> reverse_ordering (compare_values E left right))"

definition canonical_row_order :: "externals \<Rightarrow> json list \<Rightarrow> json list \<Rightarrow> ordering" where
  "canonical_row_order E left right = compare (canonical_json E (Array left)) (canonical_json E (Array right))"

text \<open>\<open>iter().position(..)\<close>\<close>

fun position :: "('a \<Rightarrow> bool) \<Rightarrow> 'a list \<Rightarrow> nat option" where
  "position P [] = None"
| "position P (x # xs) = (if P x then Some 0 else map_option Suc (position P xs))"

fun row_order :: "externals \<Rightarrow> TypedProjection list \<Rightarrow> TypedOrderItem list \<Rightarrow> json list \<Rightarrow> json list \<Rightarrow> ordering" where
  "row_order E projections [] left right = canonical_row_order E left right"
| "row_order E projections (item # order_by) left right =
     (case position (\<lambda>projection. projection = to_projection item) projections of
        None \<Rightarrow> row_order E projections order_by left right
      | Some index \<Rightarrow>
          (case ordered_value E (left ! index) (right ! index) (to_direction item) of
             Order_Equal \<Rightarrow> row_order E projections order_by left right
           | other \<Rightarrow> other))"

text \<open>A stable insertion sort by a comparison, as \<open>sort_by\<close>.\<close>

fun insert_by :: "('a \<Rightarrow> 'a \<Rightarrow> ordering) \<Rightarrow> 'a \<Rightarrow> 'a list \<Rightarrow> 'a list" where
  "insert_by cmp x [] = [x]"
| "insert_by cmp x (y # ys) = (if cmp x y = Order_Greater then y # insert_by cmp x ys else x # y # ys)"

definition sort_by :: "('a \<Rightarrow> 'a \<Rightarrow> ordering) \<Rightarrow> 'a list \<Rightarrow> 'a list" where
  "sort_by cmp xs = foldr (insert_by cmp) xs []"

definition stage_row :: "externals \<Rightarrow> json list \<Rightarrow> RowStager \<Rightarrow> RowStager" where
  "stage_row E row s =
     (if rs_distinct s \<and> list_ex (\<lambda>existing. list_all2 json_same existing row) (rs_rows s) then s
      else s\<lparr>rs_rows := take (rs_limit s) (sort_by (row_order E (rs_projections s) (rs_order_by s)) (rs_rows s @ [row]))\<rparr>)"

definition refresh_staged_metrics :: "externals \<Rightarrow> Executor \<Rightarrow> exec_state \<Rightarrow> BoundedQueryExecutionError + exec_state" where
  "refresh_staged_metrics E x st =
     (let rows = to_u64 (length (rs_rows (xs_staged st))); bytes = serialized_rows_bytes E (rs_rows (xs_staged st)) in
      sum_bind (check_resource ''result_rows'' rows (ql_result_rows (ex_limits x))) (\<lambda>_.
      sum_bind (check_resource ''serialized_output_bytes'' bytes (ql_serialized_output_bytes (ex_limits x))) (\<lambda>_.
      refresh_memory x (st\<lparr>xs_metrics := (xs_metrics st)\<lparr>em_result_rows := rows, em_serialized_output_bytes := bytes\<rparr>\<rparr>))))"

section \<open>Projection\<close>

definition contract_mismatch :: "string \<Rightarrow> BoundedQueryExecutionError" where
  "contract_mismatch message = execution_error ''query_execution_contract_mismatch'' message"

fun project_value ::
  "externals \<Rightarrow> decoder \<Rightarrow> TypedQuery \<Rightarrow> NodeRecord \<Rightarrow> NodeRecord \<Rightarrow> Witness \<Rightarrow> json \<Rightarrow> TypedProjection
     \<Rightarrow> BoundedQueryExecutionError + json" where
  "project_value E decode query source target witness path (TProject_Binding b) =
     (case bind_entity_type b of
        Type_Node \<Rightarrow> Inr (if bind_name b = source_name query then closed_node_value source else closed_node_value target)
      | Type_Path \<Rightarrow> Inr path
      | _ \<Rightarrow> Inl (contract_mismatch ''projection contains a non-top-level binding''))"
| "project_value E decode query source target witness path (TProject_Field f) =
     (let project = (\<lambda>view. case entity_field_value E decode view (tf_field f) of
          None \<Rightarrow> Inl (contract_mismatch ''projection field is not available'')
        | Some v \<Rightarrow> Inr v) in
      case tf_entity_type f of
        Type_Node \<Rightarrow> project (View_Node (if tf_binding f = source_name query then source else target))
      | Type_Path \<Rightarrow> project (View_Path (get_str path ''id'') (length (wit_edge_ids witness))
          (direction_name (rel_direction (tm_relationship (ta_match_clause (tq_ast query))))))
      | _ \<Rightarrow> Inl (contract_mismatch ''projection contains a quantified field''))"

definition path_evidence_order ::
  "EvidenceRecord \<Rightarrow> string \<times> string \<times> int \<times> string \<times> string \<times> nat \<times> nat \<times> nat \<times> nat \<times> string \<times> string" where
  "path_evidence_order v =
     (ev_owner_type v, ev_owner_id v, ev_ordinal v, ev_kind v, ev_path v, ev_start_line v, ev_start_column v,
      ev_end_line v, ev_end_column v, ev_extractor v, ev_extractor_version v)"

definition evidence_of :: "Executor \<Rightarrow> string \<Rightarrow> string \<Rightarrow> EvidenceRecord list" where
  "evidence_of x owner_type owner = (case bm_get (ex_evidence x) (owner_type, owner) of None \<Rightarrow> [] | Some vs \<Rightarrow> vs)"

definition lookup_or :: "BoundedQueryExecutionError \<Rightarrow> (string, 'a) bmap \<Rightarrow> ('a \<Rightarrow> json) \<Rightarrow> string \<Rightarrow> BoundedQueryExecutionError + json" where
  "lookup_or e m f k = (case bm_get m k of None \<Rightarrow> Inl e | Some v \<Rightarrow> Inr (f v))"

definition path_id :: "externals \<Rightarrow> Executor \<Rightarrow> NodeRecord \<Rightarrow> NodeRecord \<Rightarrow> Witness \<Rightarrow> string" where
  "path_id E x source target witness = stable_id_from_value E ''query-path'' (Object
     [(''contract_version'', String BOUNDED_QUERY_CONTRACT_VERSION), (''snapshot_id'', String (plan_snapshot_id (ex_plan x))),
      (''direction'', String (direction_name (ex_direction x))), (''source_id'', String (node_id source)),
      (''target_id'', String (node_id target)), (''edge_ids'', strings_value (wit_edge_ids witness))])"

definition path_value :: "externals \<Rightarrow> decoder \<Rightarrow> Executor \<Rightarrow> NodeRecord \<Rightarrow> NodeRecord \<Rightarrow> Witness \<Rightarrow> BoundedQueryExecutionError + json" where
  "path_value E decode x source target witness =
     sum_bind (collect_results (lookup_or (snapshot_mismatch ''witness references a missing node'') (ex_nodes x) closed_node_value)
       (wit_node_ids witness)) (\<lambda>nodes.
     sum_bind (collect_results (lookup_or (snapshot_mismatch ''witness references a missing edge'') (ex_edges x) (closed_edge_value E decode))
       (wit_edge_ids witness)) (\<lambda>edges.
     let sites = concat (map (\<lambda>i. case bm_get (ex_sites x) i of None \<Rightarrow> [] | Some site \<Rightarrow> [closed_site_value E decode site]) (wit_site_ids witness));
         evidence = concat (map (evidence_of x ''edge'') (wit_edge_ids witness)) @ concat (map (evidence_of x ''site'') (wit_site_ids witness));
         evidence = dedup_on path_evidence_order (sort_key path_evidence_order evidence) in
     Inr (Object [(''id'', String (path_id E x source target witness)), (''depth'', number (length (wit_edge_ids witness))),
       (''direction'', String (direction_name (ex_direction x))), (''nodes'', Array nodes), (''edges'', Array edges),
       (''sites'', Array sites), (''evidence'', Array (map closed_evidence_value evidence))])))"

definition project_row :: "externals \<Rightarrow> decoder \<Rightarrow> Executor \<Rightarrow> NodeRecord \<Rightarrow> NodeRecord \<Rightarrow> Witness \<Rightarrow> BoundedQueryExecutionError + json list" where
  "project_row E decode x source target witness =
     sum_bind (path_value E decode x source target witness) (\<lambda>path.
     collect_results (project_value E decode (ex_query x) source target witness path) (tr_projections (ta_return_clause (tq_ast (ex_query x)))))"

section \<open>Conditions\<close>

definition initial_witness :: "NodeRecord \<Rightarrow> Witness" where
  "initial_witness source =
     \<lparr>wit_node_ids = [node_id source], wit_edge_ids = [], wit_used_edges = [], wit_site_ids = [], wit_existential_bits = 0\<rparr>"

definition expression_matches :: "externals \<Rightarrow> decoder \<Rightarrow> Executor \<Rightarrow> NodeRecord \<Rightarrow> NodeRecord \<Rightarrow> Witness \<Rightarrow> TypedExpression \<Rightarrow> bool" where
  "expression_matches E decode x source target witness expression =
     fst (evaluate_expression E decode
       \<lparr>ec_query = ex_query x, ec_source = source, ec_target = target, ec_witness = witness, ec_edges = ex_edges x\<rparr> expression 0)"

definition where_matches :: "externals \<Rightarrow> decoder \<Rightarrow> Executor \<Rightarrow> NodeRecord \<Rightarrow> NodeRecord \<Rightarrow> Witness \<Rightarrow> bool" where
  "where_matches E decode x source target witness =
     (case ta_where_clause (tq_ast (ex_query x)) of None \<Rightarrow> True | Some e \<Rightarrow> expression_matches E decode x source target witness e)"

definition source_predicates_match :: "externals \<Rightarrow> decoder \<Rightarrow> Executor \<Rightarrow> NodeRecord \<Rightarrow> bool" where
  "source_predicates_match E decode x source =
     (let matches = expression_matches E decode x source source (initial_witness source); b = source_name (ex_query x) in
      case ta_where_clause (tq_ast (ex_query x)) of
        None \<Rightarrow> True
      | Some (TExpr_And terms) \<Rightarrow> list_all matches (filter (\<lambda>t. expression_references_only_source t b) terms)
      | Some e \<Rightarrow> if expression_references_only_source e b then matches e else True)"

definition kind_allows :: "string option \<Rightarrow> NodeRecord \<Rightarrow> bool" where
  "kind_allows kind node = (case kind of None \<Rightarrow> True | Some k \<Rightarrow> node_kind node = k)"

definition source_nodes :: "externals \<Rightarrow> decoder \<Rightarrow> Executor \<Rightarrow> exec_state \<Rightarrow> BoundedQueryExecutionError + NodeRecord list \<times> exec_state" where
  "source_nodes E decode x st =
     (let kind = tn_kind (tm_source (ex_match x)) in
      if ci_source_nodes (plan_cardinality_inputs (ex_plan x)) = 0 then Inr ([], st)
      else case source_id_lookup (ex_query x) of
        Some source_id \<Rightarrow>
          sum_bind (increment_source_tests x st) (\<lambda>st.
          Inr (case bm_get (ex_nodes x) source_id of
              None \<Rightarrow> []
            | Some node \<Rightarrow> if kind_allows kind node \<and> source_predicates_match E decode x node then [node] else [], st))
      | None \<Rightarrow>
          sum_bind (fold_m (\<lambda>node (sources, st).
            if \<not> kind_allows kind node then Inr (sources, st)
            else sum_bind (increment_source_tests x st) (\<lambda>st.
              Inr (if source_predicates_match E decode x node then sources @ [node] else sources, st)))
            (bm_values (ex_nodes x)) ([], st)) (\<lambda>(sources, st).
          Inr (sort_key node_id sources, st)))"

section \<open>The search\<close>

type_synonym StateKey = "string \<times> nat \<times> 64 word \<times> string list"

definition state_key :: "Witness \<Rightarrow> StateKey" where
  "state_key w = (last (wit_node_ids w), length (wit_edge_ids w), wit_existential_bits w, wit_used_edges w)"

definition witness_order :: "Witness \<Rightarrow> Witness \<Rightarrow> ordering" where
  "witness_order l r = compare (wit_edge_ids l, wit_node_ids l) (wit_edge_ids r, wit_node_ids r)"

fun traversed_node_id :: "EdgeRecord \<Rightarrow> QueryDirection \<Rightarrow> string" where
  "traversed_node_id edge Direction_Forward = edge_target edge"
| "traversed_node_id edge Direction_Reverse = edge_source edge"

definition insert_least :: "'k::linorder \<Rightarrow> Witness \<Rightarrow> ('k, Witness) bmap \<Rightarrow> ('k, Witness) bmap" where
  "insert_least k w m = (case bm_get m k of
     None \<Rightarrow> bm_insert k w m
   | Some existing \<Rightarrow> if witness_order w existing = Order_Less then bm_insert k w m else m)"

text \<open>The first evidence record that satisfies the predicate ends the loop.\<close>

fun some_evidence :: "externals \<Rightarrow> decoder \<Rightarrow> Executor \<Rightarrow> TypedEntityExpression \<Rightarrow> EvidenceRecord list \<Rightarrow> exec_state
     \<Rightarrow> BoundedQueryExecutionError + bool \<times> exec_state" where
  "some_evidence E decode x expression [] st = Inr (False, st)"
| "some_evidence E decode x expression (v # vs) st = sum_bind (increment_evidence_tests x st) (\<lambda>st.
     if evaluate_entity_expression E decode expression (View_Evidence v) then Inr (True, st)
     else some_evidence E decode x expression vs st)"

definition test_predicate ::
  "externals \<Rightarrow> decoder \<Rightarrow> Executor \<Rightarrow> SiteRecord option \<Rightarrow> EvidenceRecord list \<Rightarrow> nat \<Rightarrow> 64 word \<times> exec_state
     \<Rightarrow> BoundedQueryExecutionError + 64 word \<times> exec_state" where
  "test_predicate E decode x new_site evidence index acc = (case acc of (bits, st) \<Rightarrow>
     if has_bit bits index then Inr (bits, st)
     else
       let predicate = ex_some_predicates x ! index in
       sum_bind (case bind_entity_type (tq_binding predicate) of
           Type_Site \<Rightarrow> (case new_site of
               Some site \<Rightarrow> sum_bind (increment_site_tests x st) (\<lambda>st.
                 Inr (evaluate_entity_expression E decode (tq_expression predicate) (View_Site site), st))
             | None \<Rightarrow> Inr (False, st))
         | Type_Evidence \<Rightarrow> some_evidence E decode x (tq_expression predicate) evidence st
         | _ \<Rightarrow> Inr (False, st)) (\<lambda>(matched, st).
       Inr (if matched then bits OR some_bit index else bits, st)))"

definition new_site_of :: "Executor \<Rightarrow> Witness \<Rightarrow> EdgeRecord \<Rightarrow> SiteRecord option" where
  "new_site_of x witness edge = (case edge_site_id edge of
     None \<Rightarrow> None
   | Some i \<Rightarrow> if bs_contains (wit_site_ids witness) i then None else bm_get (ex_sites x) i)"

definition extend_witness ::
  "externals \<Rightarrow> decoder \<Rightarrow> Executor \<Rightarrow> Witness \<Rightarrow> EdgeRecord \<Rightarrow> string \<Rightarrow> exec_state
     \<Rightarrow> BoundedQueryExecutionError + Witness \<times> exec_state" where
  "extend_witness E decode x witness edge next_node_id st =
     (let new_site = new_site_of x witness edge;
          evidence = evidence_of x ''edge'' (edge_id edge) @
            (case new_site of None \<Rightarrow> [] | Some site \<Rightarrow> evidence_of x ''site'' (site_id site)) in
      sum_bind (fold_m (test_predicate E decode x new_site evidence) [0..<length (ex_some_predicates x)]
        (wit_existential_bits witness, st)) (\<lambda>(bits, st).
      Inr (\<lparr>wit_node_ids = wit_node_ids witness @ [next_node_id],
            wit_edge_ids = wit_edge_ids witness @ [edge_id edge],
            wit_used_edges = bs_insert (edge_id edge) (wit_used_edges witness),
            wit_site_ids = (case new_site of None \<Rightarrow> wit_site_ids witness | Some site \<Rightarrow> bs_insert (site_id site) (wit_site_ids witness)),
            wit_existential_bits = bits\<rparr>, st)))"

definition expand_edge ::
  "externals \<Rightarrow> decoder \<Rightarrow> environment \<Rightarrow> Executor \<Rightarrow> Witness \<Rightarrow> EdgeRecord \<Rightarrow> (StateKey, Witness) bmap \<times> exec_state
     \<Rightarrow> BoundedQueryExecutionError + (StateKey, Witness) bmap \<times> exec_state" where
  "expand_edge E decode R x witness edge acc = (case acc of (nxt, st) \<Rightarrow>
     sum_bind (increment_edge_tests R x st) (\<lambda>st.
     let next_node_id = traversed_node_id edge (ex_direction x) in
     if bs_contains (wit_used_edges witness) (edge_id edge) then Inr (nxt, st)
     else if \<not> bm_contains_key (ex_nodes x) next_node_id then Inr (nxt, st)
     else
       sum_bind (extend_witness E decode x witness edge next_node_id st) (\<lambda>(candidate, st).
       sum_bind (if bm_contains_key nxt (state_key candidate) then Inr st else increment_state x st) (\<lambda>st.
       Inr (insert_least (state_key candidate) candidate nxt, st)))))"

definition expand_witness ::
  "externals \<Rightarrow> decoder \<Rightarrow> environment \<Rightarrow> Executor \<Rightarrow> Witness \<Rightarrow> (StateKey, Witness) bmap \<times> exec_state
     \<Rightarrow> BoundedQueryExecutionError + (StateKey, Witness) bmap \<times> exec_state" where
  "expand_witness E decode R x witness acc = (case acc of (nxt, st) \<Rightarrow>
     sum_bind (guard R x st) (\<lambda>st.
     fold_m (expand_edge E decode R x witness)
       (case bm_get (ex_adjacency x) (last (wit_node_ids witness)) of None \<Rightarrow> [] | Some outgoing \<Rightarrow> outgoing) (nxt, st)))"

definition match_witness ::
  "externals \<Rightarrow> decoder \<Rightarrow> Executor \<Rightarrow> NodeRecord \<Rightarrow> string bset \<Rightarrow> Witness \<Rightarrow> (string, Witness) bmap \<Rightarrow> (string, Witness) bmap" where
  "match_witness E decode x source resolved witness layer =
     (let target_id = last (wit_node_ids witness) in
      if bs_contains resolved target_id then layer
      else case bm_get (ex_nodes x) target_id of
        None \<Rightarrow> layer
      | Some target \<Rightarrow>
          if \<not> kind_allows (tn_kind (tm_target (ex_match x))) target \<or> \<not> where_matches E decode x source target witness then layer
          else insert_least (node_id target) witness layer)"

text \<open>\<open>self.nodes[target_id]\<close> panics without the node; the loop that built the layer found it.\<close>

definition emit_match ::
  "externals \<Rightarrow> decoder \<Rightarrow> Executor \<Rightarrow> NodeRecord \<Rightarrow> string \<times> Witness \<Rightarrow> string bset \<times> exec_state
     \<Rightarrow> BoundedQueryExecutionError + string bset \<times> exec_state" where
  "emit_match E decode x source entry acc = (case (entry, acc) of ((target_id, witness), (resolved, st)) \<Rightarrow>
     sum_bind (project_row E decode x source (the (bm_get (ex_nodes x) target_id)) witness) (\<lambda>row.
     sum_bind (refresh_staged_metrics E x (st\<lparr>xs_staged := stage_row E row (xs_staged st)\<rparr>)) (\<lambda>st.
     Inr (bs_insert target_id resolved, st))))"

definition emit_layer ::
  "externals \<Rightarrow> decoder \<Rightarrow> Executor \<Rightarrow> NodeRecord \<Rightarrow> (StateKey, Witness) bmap \<Rightarrow> string bset \<Rightarrow> exec_state
     \<Rightarrow> BoundedQueryExecutionError + string bset \<times> exec_state" where
  "emit_layer E decode x source current resolved st =
     fold_m (emit_match E decode x source) (fold (match_witness E decode x source resolved) (bm_values current) []) (resolved, st)"

function run_depths ::
  "externals \<Rightarrow> decoder \<Rightarrow> environment \<Rightarrow> Executor \<Rightarrow> NodeRecord \<Rightarrow> nat \<Rightarrow> (StateKey, Witness) bmap \<Rightarrow> string bset \<Rightarrow> exec_state
     \<Rightarrow> BoundedQueryExecutionError + exec_state" where
  "run_depths E decode R x source depth current resolved st =
     sum_bind (guard R x st) (\<lambda>st.
     sum_bind (if depth \<ge> rel_min_depth (tm_relationship (ex_match x)) then emit_layer E decode x source current resolved st
       else Inr (resolved, st)) (\<lambda>(resolved, st).
     if depth \<ge> rel_max_depth (tm_relationship (ex_match x)) then Inr st
     else
       sum_bind (fold_m (expand_witness E decode R x) (bm_values current) ([], st)) (\<lambda>(nxt, st).
       if nxt = [] then Inr st else run_depths E decode R x source (depth + 1) nxt resolved st)))"
  by pat_completeness auto
termination
  by (relation "measure (\<lambda>(E, decode, R, x, source, depth, current, resolved, st). rel_max_depth (tm_relationship (ex_match x)) - depth)") auto

definition run_source ::
  "externals \<Rightarrow> decoder \<Rightarrow> environment \<Rightarrow> Executor \<Rightarrow> NodeRecord \<Rightarrow> exec_state \<Rightarrow> BoundedQueryExecutionError + exec_state" where
  "run_source E decode R x source st =
     (let initial = initial_witness source in
      sum_bind (increment_state x st) (\<lambda>st. run_depths E decode R x source 0 [(state_key initial, initial)] [] st))"

section \<open>Construction\<close>

definition index_unique ::
  "environment \<Rightarrow> nat \<Rightarrow> string \<Rightarrow> ('a \<Rightarrow> string) \<Rightarrow> 'a list \<Rightarrow> nat \<Rightarrow> BoundedQueryExecutionError + (string, 'a) bmap \<times> nat" where
  "index_unique R deadline message identity records n =
     fold_m (\<lambda>r (m, n). sum_bind (construction_guard R deadline n) (\<lambda>n.
       if bm_contains_key m (identity r) then Inl (snapshot_mismatch message)
       else Inr (bm_insert (identity r) r m, n))) records ([], n)"

definition index_evidence ::
  "environment \<Rightarrow> nat \<Rightarrow> EvidenceRecord list \<Rightarrow> nat \<Rightarrow> BoundedQueryExecutionError + (string \<times> string, EvidenceRecord list) bmap \<times> nat" where
  "index_evidence R deadline evidence n =
     sum_bind (fold_m (\<lambda>v (m, n). sum_bind (construction_guard R deadline n) (\<lambda>n.
       Inr (bm_entry [] (ev_owner_type v, ev_owner_id v) (\<lambda>vs. vs @ [v]) m, n))) evidence ([], n)) (\<lambda>(m, n).
     Inr (map (\<lambda>(owner, vs). (owner, sort_key path_evidence_order vs)) m, n))"

definition index_edges ::
  "environment \<Rightarrow> nat \<Rightarrow> string bset \<Rightarrow> QueryDirection \<Rightarrow> EdgeRecord list \<Rightarrow> nat
     \<Rightarrow> BoundedQueryExecutionError + ((string, EdgeRecord) bmap \<times> (string, EdgeRecord list) bmap) \<times> nat" where
  "index_edges R deadline kinds direction edges n =
     sum_bind (fold_m (\<lambda>edge ((m, adjacency), n). sum_bind (construction_guard R deadline n) (\<lambda>n.
       if \<not> bs_contains kinds (edge_kind edge) then Inr ((m, adjacency), n)
       else if bm_contains_key m (edge_id edge)
       then Inl (snapshot_mismatch ''selected snapshot contains duplicate edge identifiers'')
       else Inr ((bm_insert (edge_id edge) edge m,
          bm_entry [] (anchor_node direction edge) (\<lambda>es. es @ [edge]) adjacency), n))) edges (([], []), n)) (\<lambda>((m, adjacency), n).
     Inr ((m, map (\<lambda>(node, es). (node, sort_key (\<lambda>edge. (edge_id edge, traversed_node_id edge direction)) es)) adjacency), n))"

definition count_eligible ::
  "environment \<Rightarrow> nat \<Rightarrow> string bset \<Rightarrow> EdgeRecord list \<Rightarrow> nat \<Rightarrow> BoundedQueryExecutionError + nat \<times> nat" where
  "count_eligible R deadline kinds edges n =
     fold_m (\<lambda>edge (eligible, n). sum_bind (construction_guard R deadline n) (\<lambda>n.
       Inr (if bs_contains kinds (edge_kind edge) then saturating_add eligible 1 else eligible, n))) edges (0, n)"

definition new_executor ::
  "environment \<Rightarrow> TypedQuery \<Rightarrow> BoundedQueryPlan \<Rightarrow> GraphSnapshot \<Rightarrow> BoundedQueryLimits \<Rightarrow> nat
     \<Rightarrow> BoundedQueryExecutionError + Executor \<times> exec_state" where
  "new_executor R query plan snapshot limits n =
     (let deadline = ql_deadline_milliseconds limits;
          relationship = tm_relationship (ta_match_clause (tq_ast query));
          kinds = bs_of_list (rel_kinds relationship) in
      sum_bind (construction_guard R deadline n) (\<lambda>n.
      sum_bind (count_eligible R deadline kinds (snap_edges snapshot) n) (\<lambda>(eligible_edge_count, n).
      let initial_memory = saturating_add (saturating_add (saturating_add
              (saturating_mul eligible_edge_count EXECUTION_ADJACENCY_EDGE_BYTES)
              (saturating_mul (to_u64 (length (snap_nodes snapshot))) EXECUTION_NODE_INDEX_BYTES))
              (saturating_mul (to_u64 (length (snap_sites snapshot))) EXECUTION_SITE_INDEX_BYTES))
              (saturating_mul (to_u64 (length (snap_evidence snapshot))) EXECUTION_EVIDENCE_INDEX_BYTES) in
      if initial_memory > ql_working_memory_bytes limits
      then Inl (resource_error ''working_memory_bytes'' initial_memory (ql_working_memory_bytes limits))
      else
        sum_bind (index_unique R deadline ''selected snapshot contains duplicate node identifiers'' node_id (snap_nodes snapshot) n) (\<lambda>(nodes, n).
        sum_bind (index_unique R deadline ''selected snapshot contains duplicate site identifiers'' site_id (snap_sites snapshot) n) (\<lambda>(sites, n).
        sum_bind (index_evidence R deadline (snap_evidence snapshot) n) (\<lambda>(evidence, n).
        sum_bind (index_edges R deadline kinds (rel_direction relationship) (snap_edges snapshot) n) (\<lambda>((edges, adjacency), n).
        sum_bind (construction_guard R deadline n) (\<lambda>n.
        Inr (\<lparr>ex_query = query, ex_plan = plan, ex_limits = limits, ex_nodes = nodes, ex_edges = edges, ex_sites = sites,
              ex_evidence = evidence, ex_adjacency = adjacency,
              ex_some_predicates = (case ta_where_clause (tq_ast query) of None \<Rightarrow> [] | Some e \<Rightarrow> collect_some_predicates e)\<rparr>,
             \<lparr>xs_polls = n,
              xs_metrics = \<lparr>em_source_node_tests = 0, em_traversal_states = 0, em_edge_tests = 0, em_site_tests = 0,
                em_evidence_tests = 0, em_result_rows = 0, em_serialized_output_bytes = 2, em_working_memory_bytes = initial_memory\<rparr>,
              xs_staged = new_row_stager query\<rparr>)))))))))"

section \<open>Execution\<close>

definition metrics_value :: "BoundedQueryExecutionMetrics \<Rightarrow> json" where
  "metrics_value m = Object [(''source_node_tests'', number (em_source_node_tests m)),
     (''traversal_states'', number (em_traversal_states m)), (''edge_tests'', number (em_edge_tests m)),
     (''site_tests'', number (em_site_tests m)), (''evidence_tests'', number (em_evidence_tests m)),
     (''result_rows'', number (em_result_rows m)), (''serialized_output_bytes'', number (em_serialized_output_bytes m)),
     (''working_memory_bytes'', number (em_working_memory_bytes m))]"

definition result_value :: "BoundedQueryResult \<Rightarrow> json" where
  "result_value r = Object [(''schema_version'', String (br_schema_version r)), (''contract_version'', String (br_contract_version r)),
     (''plan_digest'', String (br_plan_digest r)), (''snapshot_id'', String (br_snapshot_id r)),
     (''graph_digest'', String (br_graph_digest r)), (''complete'', Bool (br_complete r)),
     (''rows'', Array (map Array (br_rows r))), (''metrics'', metrics_value (br_metrics r)),
     (''result_digest'', String (br_result_digest r))]"

definition bounded_query_result_digest :: "externals \<Rightarrow> BoundedQueryResult \<Rightarrow> string" where
  "bounded_query_result_digest E r =
     stable_id_from_value E ''bounded-query-result'' (result_value (r\<lparr>br_result_digest := []\<rparr>))"

definition run_executor ::
  "externals \<Rightarrow> decoder \<Rightarrow> environment \<Rightarrow> Executor \<Rightarrow> exec_state \<Rightarrow> BoundedQueryExecutionError + BoundedQueryResult" where
  "run_executor E decode R x st =
     sum_bind (guard R x st) (\<lambda>st.
     sum_bind (source_nodes E decode x st) (\<lambda>(sources, st).
     sum_bind (fold_m (\<lambda>source st. sum_bind (guard R x st) (run_source E decode R x source)) sources st) (\<lambda>st.
     sum_bind (guard R x st) (\<lambda>st.
     let rows = rs_rows (xs_staged st); bytes = serialized_rows_bytes E rows in
     sum_bind (check_resource ''result_rows'' (to_u64 (length rows)) (ql_result_rows (ex_limits x))) (\<lambda>_.
     sum_bind (check_resource ''serialized_output_bytes'' bytes (ql_serialized_output_bytes (ex_limits x))) (\<lambda>_.
     sum_bind (refresh_memory x (st\<lparr>xs_metrics := (xs_metrics st)\<lparr>em_result_rows := to_u64 (length rows),
       em_serialized_output_bytes := bytes\<rparr>\<rparr>)) (\<lambda>st.
     let result = \<lparr>br_schema_version = BOUNDED_QUERY_RESULT_SCHEMA_VERSION, br_contract_version = BOUNDED_QUERY_CONTRACT_VERSION,
           br_plan_digest = plan_plan_digest (ex_plan x), br_snapshot_id = plan_snapshot_id (ex_plan x),
           br_graph_digest = plan_graph_digest (ex_plan x), br_complete = True, br_rows = rows,
           br_metrics = xs_metrics st, br_result_digest = []\<rparr> in
     sum_bind (cancellation_check R (xs_polls st)) (\<lambda>_.
     Inr (result\<lparr>br_result_digest := bounded_query_result_digest E result\<rparr>)))))))))"

definition execute_bounded_query_with_options ::
  "externals \<Rightarrow> decoder \<Rightarrow> environment \<Rightarrow> TypedQuery \<Rightarrow> BoundedQueryPlan \<Rightarrow> GraphSnapshot \<Rightarrow> BoundedQueryLimits
     \<Rightarrow> BoundedQueryExecutionError + BoundedQueryResult" where
  "execute_bounded_query_with_options E decode R query plan snapshot limits =
     sum_bind (cancellation_check R 0) (\<lambda>n.
     sum_bind (validate_execution_inputs E decode query plan snapshot limits) (\<lambda>_.
     if \<not> plan_admitted plan
     then Inl (execution_error ''query_plan_not_admitted'' ''bounded query plan was rejected before execution'')
     else
       sum_bind (new_executor R query plan snapshot limits n) (\<lambda>(x, st).
       run_executor E decode R x st)))"

definition execute_bounded_query ::
  "externals \<Rightarrow> decoder \<Rightarrow> environment \<Rightarrow> TypedQuery \<Rightarrow> BoundedQueryPlan \<Rightarrow> GraphSnapshot
     \<Rightarrow> BoundedQueryExecutionError + BoundedQueryResult" where
  "execute_bounded_query E decode R query plan snapshot =
     execute_bounded_query_with_options E decode R query plan snapshot default_query_limits"

end
