(* ===== verification/Query_Meaning.thy ===== *)
theory Query_Meaning
  imports Query_Eval
begin

text \<open>
  What typed expressions mean. A registered field of an entity has a value of its declared type; the canonical
  typed \<open>WHERE\<close> expression means what the source expression says; and the evaluation on a witness agrees with the
  meaning on the path, given that the bits of the witness record the satisfied quantifiers.
\<close>

section \<open>Fields have values of their type\<close>

fun view_type :: "EntityView \<Rightarrow> EntityType" where
  "view_type (View_Node _) = Type_Node"
| "view_type (View_Path _ _ _) = Type_Path"
| "view_type (View_Edge _) = Type_Edge"
| "view_type (View_Site _) = Type_Site"
| "view_type (View_Evidence _) = Type_Evidence"

fun has_scalar_type :: "json \<Rightarrow> ScalarType \<Rightarrow> bool" where
  "has_scalar_type (String s) t \<longleftrightarrow> t = Type_String"
| "has_scalar_type (Number (PosInt n)) t \<longleftrightarrow> t = Type_UnsignedInteger"
| "has_scalar_type (Bool b) t \<longleftrightarrow> t = Type_Boolean"
| "has_scalar_type _ t \<longleftrightarrow> False"

definition value_of_field :: "FieldDefinition \<Rightarrow> json \<Rightarrow> bool" where
  "value_of_field d v \<longleftrightarrow> has_scalar_type v (fd_scalar_type d) \<or> (fd_nullable d \<and> v = Null)"

text \<open>A view that names its path, of evidence with a proper ordinal.\<close>

fun complete_view :: "EntityView \<Rightarrow> bool" where
  "complete_view (View_Path path_id depth direction) \<longleftrightarrow> path_id \<noteq> None"
| "complete_view (View_Evidence v) \<longleftrightarrow> 0 \<le> ev_ordinal v"
| "complete_view _ \<longleftrightarrow> True"

lemma opt_string_typed [simp]: "has_scalar_type (opt_string v) Type_String \<or> opt_string v = Null"
  by (cases v) (simp_all add: opt_string_def)

lemma registry_values:
  assumes "complete_view view"
  shows "\<forall>d\<in>set FIELD_REGISTRY. fd_entity_type d = view_type view \<longrightarrow>
    (\<exists>v. entity_field_value E decode view (fd_name d) = Some v \<and> value_of_field d v)"
  using assms by (cases view) (simp_all add: FIELD_REGISTRY_def field_def_def value_of_field_def, auto)

lemma field_value_registered:
  assumes "complete_view view" and "registered (view_type view) field d"
  shows "\<exists>v. entity_field_value E decode view field = Some v \<and> value_of_field d v"
  using registry_values [OF assms(1)] assms(2) unfolding registered_def by blast

lemma field_value_unregistered:
  assumes "\<forall>d. \<not> registered (view_type view) field d"
  shows "entity_field_value E decode view field = None"
proof -
  have names: "field \<notin> set (map fd_name (filter (\<lambda>d. fd_entity_type d = view_type view) FIELD_REGISTRY))"
    using assms by (auto simp: registered_def)
  then show ?thesis by (cases view) (simp_all add: FIELD_REGISTRY_def field_def_def)
qed

text \<open>
  C39: The field registry and the evaluator agree. Every registered field of an entity has a value of the type the
  registry declares, which is null only when the field is nullable, and no other field has a value; a view of a path
  must know its identity and evidence must have a proper ordinal for that.
\<close>

theorem registry_agrees_with_evaluator:
  assumes "complete_view view"
  shows "case entity_field_value E decode view field of
      None \<Rightarrow> \<forall>d. \<not> registered (view_type view) field d
    | Some v \<Rightarrow> \<exists>d. registered (view_type view) field d \<and> value_of_field d v"
proof (cases "\<exists>d. registered (view_type view) field d")
  case True
  then obtain d where d: "registered (view_type view) field d" by blast
  from field_value_registered [OF assms d, of E decode] d show ?thesis by auto
next
  case False
  then show ?thesis using field_value_unregistered [of view field E decode] by simp
qed

theorem registry_agrees_with_evaluator_witness:
  "complete_view (View_Evidence (example_evidence ''e'' 7)) \<and>
   entity_field_value example_externals (\<lambda>_. None) (View_Evidence (example_evidence ''e'' 7)) ''ordinal'' = Some (Number (PosInt 7)) \<and>
   (\<exists>d. registered Type_Evidence ''ordinal'' d \<and> value_of_field d (Number (PosInt 7)))"
  using registry_agrees_with_evaluator [where view = "View_Evidence (example_evidence ''e'' 7)" and E = example_externals
    and decode = "\<lambda>_. None" and field = "''ordinal''"]
  by (simp add: example_evidence_def)

section \<open>The meaning of expressions\<close>

record path_facts =
  pf_source :: NodeRecord
  pf_target :: NodeRecord
  pf_direction :: QueryDirection
  pf_edges :: "EdgeRecord list"
  pf_sites :: "SiteRecord set"
  pf_evidence :: "EvidenceRecord set"

text \<open>The names of the source and of the target; every other binding of a query is its path.\<close>

definition path_view :: "string \<Rightarrow> string \<Rightarrow> path_facts \<Rightarrow> string \<Rightarrow> EntityView" where
  "path_view source target pf b =
     (if b = source then View_Node (pf_source pf) else if b = target then View_Node (pf_target pf)
      else View_Path None (length (pf_edges pf)) (direction_name (pf_direction pf)))"

definition quantifies :: "EntityType \<Rightarrow> path_facts \<Rightarrow> (EntityView \<Rightarrow> bool) \<Rightarrow> bool" where
  "quantifies t pf P = (case t of
     Type_Edge \<Rightarrow> (\<forall>edge\<in>set (pf_edges pf). P (View_Edge edge))
   | Type_Site \<Rightarrow> (\<exists>site\<in>pf_sites pf. P (View_Site site))
   | Type_Evidence \<Rightarrow> (\<exists>v\<in>pf_evidence pf. P (View_Evidence v))
   | _ \<Rightarrow> False)"

fun entity_holds :: "externals \<Rightarrow> decoder \<Rightarrow> EntityExpression \<Rightarrow> EntityView \<Rightarrow> bool" where
  "entity_holds E decode (Entity_Or es) view \<longleftrightarrow> (\<exists>e\<in>set es. entity_holds E decode e view)"
| "entity_holds E decode (Entity_And es) view \<longleftrightarrow> (\<forall>e\<in>set es. entity_holds E decode e view)"
| "entity_holds E decode (Entity_Not e) view \<longleftrightarrow> \<not> entity_holds E decode e view"
| "entity_holds E decode (Entity_Scalar p) view \<longleftrightarrow> field_holds E decode (ref_field (pred_field p)) (pred_operator p) view"

fun source_holds :: "externals \<Rightarrow> decoder \<Rightarrow> string \<Rightarrow> string \<Rightarrow> path_facts \<Rightarrow> Expression \<Rightarrow> bool" where
  "source_holds E decode s t pf (Expr_Or es) \<longleftrightarrow> (\<exists>e\<in>set es. source_holds E decode s t pf e)"
| "source_holds E decode s t pf (Expr_And es) \<longleftrightarrow> (\<forall>e\<in>set es. source_holds E decode s t pf e)"
| "source_holds E decode s t pf (Expr_Not e) \<longleftrightarrow> \<not> source_holds E decode s t pf e"
| "source_holds E decode s t pf (Expr_Scalar p) \<longleftrightarrow>
     field_holds E decode (ref_field (pred_field p)) (pred_operator p) (path_view s t pf (ref_binding (pred_field p)))"
| "source_holds E decode s t pf (Expr_Quantifier q) \<longleftrightarrow>
     quantifies (quantified_type (quant_kind q)) pf (entity_holds E decode (quant_expression q))"

fun holds :: "externals \<Rightarrow> decoder \<Rightarrow> string \<Rightarrow> string \<Rightarrow> path_facts \<Rightarrow> TypedExpression \<Rightarrow> bool" where
  "holds E decode s t pf (TExpr_Or es) \<longleftrightarrow> (\<exists>e\<in>set es. holds E decode s t pf e)"
| "holds E decode s t pf (TExpr_And es) \<longleftrightarrow> (\<forall>e\<in>set es. holds E decode s t pf e)"
| "holds E decode s t pf (TExpr_Not e) \<longleftrightarrow> \<not> holds E decode s t pf e"
| "holds E decode s t pf (TExpr_Scalar p) \<longleftrightarrow>
     evaluate_scalar_predicate E decode p (path_view s t pf (tf_binding (tp_field p)))"
| "holds E decode s t pf (TExpr_Quantifier q) \<longleftrightarrow>
     quantifies (bind_entity_type (tq_binding q)) pf (evaluate_entity_expression E decode (tq_expression q))"

section \<open>The typed expression means what the source says\<close>

lemma operator_holds_canonical [simp]: "operator_holds v (canonical_operator op) \<longleftrightarrow> operator_holds v op"
  by (cases op) (simp_all add: list_ex_iff)

lemma field_holds_canonical [simp]: "field_holds E decode f (canonical_operator op) = field_holds E decode f op"
  by (simp add: field_holds_def fun_eq_iff split: option.splits)

lemma check_scalar_meaning:
  "check_scalar p t True = Inr q \<Longrightarrow>
     evaluate_scalar_predicate E decode q = field_holds E decode (ref_field (pred_field p)) (pred_operator p)"
  using check_scalar_Inr(4,5) [of p t q] by (simp add: evaluate_scalar_predicate_def fun_eq_iff)

lemma evaluate_collapse:
  "evaluate_entity_expression E decode (collapse TEntity_Or ts) v \<longleftrightarrow> (\<exists>t\<in>set ts. evaluate_entity_expression E decode t v)"
  "evaluate_entity_expression E decode (collapse TEntity_And ts) v \<longleftrightarrow> (\<forall>t\<in>set ts. evaluate_entity_expression E decode t v)"
  by (auto simp: collapse_def list_ex_iff list_all_iff split: list.splits)

lemma evaluate_children:
  "(\<exists>c\<in>set (entity_or_children t). evaluate_entity_expression E decode c v) \<longleftrightarrow> evaluate_entity_expression E decode t v"
  "(\<forall>c\<in>set (entity_and_children t). evaluate_entity_expression E decode c v) \<longleftrightarrow> evaluate_entity_expression E decode t v"
  by (cases t; simp add: list_ex_iff list_all_iff)+

lemma evaluate_canonical:
  "evaluate_entity_expression E decode (canonical_entity_or E' ts) v \<longleftrightarrow> (\<exists>t\<in>set ts. evaluate_entity_expression E decode t v)"
  "evaluate_entity_expression E decode (canonical_entity_and E' ts) v \<longleftrightarrow> (\<forall>t\<in>set ts. evaluate_entity_expression E decode t v)"
  unfolding canonical_entity_or_def canonical_entity_and_def evaluate_collapse set_canonical_sort set_concat set_map
  by (simp_all add: evaluate_children)

lemma check_entity_meaning:
  "check_entity_expression E' b t e = Inr x \<Longrightarrow> evaluate_entity_expression E decode x v \<longleftrightarrow> entity_holds E decode e v"
  "check_entity_terms E' b t es = Inr xs \<Longrightarrow> list_all2 (\<lambda>e x. evaluate_entity_expression E decode x v \<longleftrightarrow> entity_holds E decode e v) es xs"
proof (induction E' b t e and E' b t es arbitrary: x and xs rule: check_entity_expression_check_entity_terms.induct)
  case (1 E' b t es)
  then obtain xs where "x = canonical_entity_or E' xs"
    "list_all2 (\<lambda>e x. evaluate_entity_expression E decode x v \<longleftrightarrow> entity_holds E decode e v) es xs"
    by (auto simp: sum_bind_Inr_iff)
  then show ?case by (auto simp: evaluate_canonical dest: list_all2_set)
next
  case (2 E' b t es)
  then obtain xs where "x = canonical_entity_and E' xs"
    "list_all2 (\<lambda>e x. evaluate_entity_expression E decode x v \<longleftrightarrow> entity_holds E decode e v) es xs"
    by (auto simp: sum_bind_Inr_iff)
  then show ?case by (auto simp: evaluate_canonical dest: list_all2_set)
next
  case (4 E' b t p)
  then show ?case by (auto simp: sum_bind_Inr_iff check_scalar_meaning split: if_splits)
qed (auto simp: sum_bind_Inr_iff)

lemma holds_collapse:
  "holds E decode s t pf (collapse TExpr_Or ts) \<longleftrightarrow> (\<exists>x\<in>set ts. holds E decode s t pf x)"
  "holds E decode s t pf (collapse TExpr_And ts) \<longleftrightarrow> (\<forall>x\<in>set ts. holds E decode s t pf x)"
  by (auto simp: collapse_def split: list.splits)

lemma holds_children:
  "(\<exists>c\<in>set (or_children x). holds E decode s t pf c) \<longleftrightarrow> holds E decode s t pf x"
  "(\<forall>c\<in>set (and_children x). holds E decode s t pf c) \<longleftrightarrow> holds E decode s t pf x"
  by (cases x; simp)+

lemma holds_canonical:
  "holds E decode s t pf (canonical_expression_or E' ts) \<longleftrightarrow> (\<exists>x\<in>set ts. holds E decode s t pf x)"
  "holds E decode s t pf (canonical_expression_and E' ts) \<longleftrightarrow> (\<forall>x\<in>set ts. holds E decode s t pf x)"
  unfolding canonical_expression_or_def canonical_expression_and_def holds_collapse set_canonical_sort set_concat set_map
  by (simp_all add: holds_children)

lemma check_quantifier_meaning:
  assumes "check_quantifier E' tops quantified q = Inr (x, quantified')"
  shows "holds E decode s t pf (TExpr_Quantifier x) \<longleftrightarrow> source_holds E decode s t pf (Expr_Quantifier q)"
proof -
  obtain y where "check_entity_expression E' (quant_binding q) (quantified_type (quant_kind q)) (quant_expression q) = Inr y"
    and x: "bind_entity_type (tq_binding x) = quantified_type (quant_kind q)" "tq_expression x = y"
    using assms by (auto simp: check_quantifier_def sum_bind_Inr_iff Let_def split: if_splits)
  then have "evaluate_entity_expression E decode y = entity_holds E decode (quant_expression q)"
    using check_entity_meaning(1) by blast
  then show ?thesis by (simp add: x)
qed

lemma check_expression_meaning:
  "check_expression E' tops e quantified = Inr (x, q) \<Longrightarrow> holds E decode s t pf x \<longleftrightarrow> source_holds E decode s t pf e"
  "check_terms E' tops es quantified = Inr (xs, q) \<Longrightarrow>
     list_all2 (\<lambda>e x. holds E decode s t pf x \<longleftrightarrow> source_holds E decode s t pf e) es xs"
proof (induction E' tops e quantified and E' tops es quantified arbitrary: x q and xs q
    rule: check_expression_check_terms.induct)
  case (1 E' tops es quantified)
  then obtain xs where "x = canonical_expression_or E' xs"
    "list_all2 (\<lambda>e x. holds E decode s t pf x \<longleftrightarrow> source_holds E decode s t pf e) es xs"
    by (auto simp: sum_bind_Inr_iff)
  then show ?case by (auto simp: holds_canonical dest: list_all2_set)
next
  case (2 E' tops es quantified)
  then obtain xs where "x = canonical_expression_and E' xs"
    "list_all2 (\<lambda>e x. holds E decode s t pf x \<longleftrightarrow> source_holds E decode s t pf e) es xs"
    by (auto simp: sum_bind_Inr_iff)
  then show ?case by (auto simp: holds_canonical dest: list_all2_set)
next
  case (4 E' tops p quantified)
  then obtain y ty where y: "x = TExpr_Scalar y" "check_scalar p ty True = Inr y"
    by (auto simp: sum_bind_Inr_iff check_top_level_scalar_def split: option.splits)
  then show ?case using check_scalar_Inr(3) [OF y(2)] by (simp add: check_scalar_meaning)
next
  case (5 E' tops p quantified)
  then obtain y where y: "x = TExpr_Quantifier y" "check_quantifier E' tops quantified p = Inr (y, q)"
    by (auto simp: sum_bind_Inr_iff)
  show ?case unfolding y(1) by (rule check_quantifier_meaning [OF y(2)])
qed (auto simp: sum_bind_Inr_iff)

section \<open>The evaluation on a witness\<close>

text \<open>A context shows a path: same endpoints and direction, and the edges of the witness are those of the path.\<close>

definition shows_path :: "EvaluationContext \<Rightarrow> path_facts \<Rightarrow> bool" where
  "shows_path c pf \<longleftrightarrow> ec_source c = pf_source pf \<and> ec_target c = pf_target pf \<and>
     rel_direction (tm_relationship (ta_match_clause (tq_ast (ec_query c)))) = pf_direction pf \<and>
     wit_edge_ids (ec_witness c) = map edge_id (pf_edges pf) \<and>
     (\<forall>edge\<in>set (pf_edges pf). bm_get (ec_edges c) (edge_id edge) = Some edge)"

text \<open>The bits from \<open>i\<close> on record which of the quantifiers the path satisfies.\<close>

definition satisfied :: "externals \<Rightarrow> decoder \<Rightarrow> path_facts \<Rightarrow> TypedQuantifierPredicate \<Rightarrow> bool" where
  "satisfied E decode pf q \<longleftrightarrow> quantifies (bind_entity_type (tq_binding q)) pf (evaluate_entity_expression E decode (tq_expression q))"

definition bits_record :: "externals \<Rightarrow> decoder \<Rightarrow> path_facts \<Rightarrow> 64 word \<Rightarrow> nat \<Rightarrow> TypedQuantifierPredicate list \<Rightarrow> bool" where
  "bits_record E decode pf bits i qs \<longleftrightarrow> (\<forall>k<length qs. has_bit bits (i + k) \<longleftrightarrow> satisfied E decode pf (qs ! k))"

lemma bits_record_append:
  "bits_record E decode pf bits i (qs @ rs) \<longleftrightarrow> bits_record E decode pf bits i qs \<and> bits_record E decode pf bits (i + length qs) rs"
proof
  assume l: "bits_record E decode pf bits i (qs @ rs)"
  have "has_bit bits (i + k) \<longleftrightarrow> satisfied E decode pf ((qs @ rs) ! k)" if "k < length qs + length rs" for k
    using l that by (simp add: bits_record_def)
  note this [of "length qs + k" for k] this
  then show "bits_record E decode pf bits i qs \<and> bits_record E decode pf bits (i + length qs) rs"
    by (auto simp: bits_record_def nth_append add.assoc)
next
  assume r: "bits_record E decode pf bits i qs \<and> bits_record E decode pf bits (i + length qs) rs"
  show "bits_record E decode pf bits i (qs @ rs)"
    unfolding bits_record_def
  proof (intro allI impI)
    fix k assume k: "k < length (qs @ rs)"
    show "has_bit bits (i + k) \<longleftrightarrow> satisfied E decode pf ((qs @ rs) ! k)"
    proof (cases "k < length qs")
      case False
      then have "has_bit bits (i + length qs + (k - length qs)) \<longleftrightarrow> satisfied E decode pf (rs ! (k - length qs))"
        using r k unfolding bits_record_def by (metis add_diff_inverse_nat length_append nat_add_left_cancel_less)
      with False show ?thesis by (simp add: nth_append)
    qed (use r in \<open>simp add: bits_record_def nth_append\<close>)
  qed
qed

lemma evaluate_edges:
  assumes "\<forall>edge\<in>set es. bm_get edges (edge_id edge) = Some edge"
  shows "list_all (\<lambda>eid. case bm_get edges eid of None \<Rightarrow> False | Some edge \<Rightarrow> P edge) (map edge_id es) \<longleftrightarrow> (\<forall>edge\<in>set es. P edge)"
  using assms by (induction es) auto

lemma evaluate_quantifier_holds:
  assumes "shows_path c pf"
    and "bits_record E decode pf (wit_existential_bits (ec_witness c)) i (collect_some_predicates (TExpr_Quantifier q))"
  shows "evaluate_quantifier E decode c q i = (satisfied E decode pf q, i + length (collect_some_predicates (TExpr_Quantifier q)))"
  using assms evaluate_edges [of "pf_edges pf" "ec_edges c"]
  by (cases "bind_entity_type (tq_binding q)")
    (auto simp: evaluate_quantifier_def shows_path_def bits_record_def satisfied_def quantifies_def)

lemma scalar_view_path: "shows_path c pf \<Longrightarrow> scalar_view c b = path_view (source_name (ec_query c)) (target_name (ec_query c)) pf b"
  by (simp add: shows_path_def scalar_view_def path_view_def source_name_def target_name_def Let_def)

lemma evaluate_expression_holds:
  "shows_path c pf \<Longrightarrow> bits_record E decode pf (wit_existential_bits (ec_witness c)) i (collect_some_predicates e) \<Longrightarrow>
     evaluate_expression E decode c e i =
       (holds E decode (source_name (ec_query c)) (target_name (ec_query c)) pf e, i + length (collect_some_predicates e))"
  "shows_path c pf \<Longrightarrow> bits_record E decode pf (wit_existential_bits (ec_witness c)) i (concat (map collect_some_predicates es)) \<Longrightarrow>
     evaluate_any E decode c b es i =
       (b \<or> (\<exists>e\<in>set es. holds E decode (source_name (ec_query c)) (target_name (ec_query c)) pf e),
        i + length (concat (map collect_some_predicates es)))"
  "shows_path c pf \<Longrightarrow> bits_record E decode pf (wit_existential_bits (ec_witness c)) i (concat (map collect_some_predicates fs)) \<Longrightarrow>
     evaluate_all E decode c b fs i =
       (b \<and> (\<forall>e\<in>set fs. holds E decode (source_name (ec_query c)) (target_name (ec_query c)) pf e),
        i + length (concat (map collect_some_predicates fs)))"
proof (induction E decode c e i and E decode c b es i and E decode c b fs i
    rule: evaluate_expression_evaluate_any_evaluate_all.induct)
  case (4 E decode c p i)
  then show ?case by (simp add: scalar_view_path)
next
  case (5 E decode c q i)
  then show ?case using evaluate_quantifier_holds [of c pf E decode i q] by (simp add: satisfied_def)
next
  case (7 E decode c b e es i)
  then have "bits_record E decode pf (wit_existential_bits (ec_witness c)) i (collect_some_predicates e)"
    "bits_record E decode pf (wit_existential_bits (ec_witness c)) (i + length (collect_some_predicates e)) (concat (map collect_some_predicates es))"
    by (simp_all add: bits_record_append)
  with 7 show ?case by simp
next
  case (9 E decode c b e es i)
  then have "bits_record E decode pf (wit_existential_bits (ec_witness c)) i (collect_some_predicates e)"
    "bits_record E decode pf (wit_existential_bits (ec_witness c)) (i + length (collect_some_predicates e)) (concat (map collect_some_predicates es))"
    by (simp_all add: bits_record_append)
  with 9 show ?case by simp
qed simp_all

text \<open>What the evaluation says does not depend on the path for a condition on the source alone.\<close>

lemma holds_only_source:
  assumes "pf_source pf = pf_source pf'" and "expression_references_only_source e s"
  shows "holds E decode s t pf e \<longleftrightarrow> holds E decode s t' pf' e"
  using assms(2) by (induction e) (auto simp: list_all_iff path_view_def assms(1))

lemma only_source_no_bits: "expression_references_only_source e s \<Longrightarrow> collect_some_predicates e = []"
  by (induction e) (auto simp: list_all_iff)

text \<open>An identity found by the lookup is the identity of the source of every path that satisfies the condition.\<close>

lemma find_source_id_sound:
  "find_source_id s e = Some v \<Longrightarrow> holds E decode s t pf e \<Longrightarrow> node_id (pf_source pf) = v"
  "find_source_id_in s es = Some v \<Longrightarrow> \<forall>e\<in>set es. holds E decode s t pf e \<Longrightarrow> node_id (pf_source pf) = v"
proof (induction s e and s es rule: find_source_id_find_source_id_in.induct)
  case (1 b p)
  then show ?case
    by (auto simp: path_view_def evaluate_scalar_predicate_def field_holds_def split: if_splits ScalarOperator.splits Literal.splits)
qed (auto split: option.splits)

end
