(* ===== verification/Query_Search.thy ===== *)
theory Query_Search
  imports Query_Execute Query_Meaning
begin

text \<open>
  Correctness of the search of the bounded query executor, stated on the snapshot alone. A trail is an edge-simple
  walk along the relationship kinds; \<open>satisfies\<close> is the meaning of the \<open>WHERE\<close> condition on it. The search keeps, per
  state key, the least witness of all trails with that key, and so reports for every target the shortest and then
  least trail that satisfies the condition.
\<close>

section \<open>The least witness per key\<close>

definition wit_key :: "Witness \<Rightarrow> string list \<times> string list" where
  "wit_key w = (wit_edge_ids w, wit_node_ids w)"

lemma witness_order_less: "witness_order l r = Order_Less \<longleftrightarrow> wit_key l < wit_key r"
  by (simp add: witness_order_def compare_def wit_key_def)

definition least_by :: "('k::linorder, Witness) bmap \<Rightarrow> Witness set \<Rightarrow> (Witness \<Rightarrow> 'k) \<Rightarrow> bool" where
  "least_by m W key \<longleftrightarrow> bm_invar m \<and> (\<forall>k. case bm_get m k of
     None \<Rightarrow> \<forall>w\<in>W. key w \<noteq> k
   | Some v \<Rightarrow> v \<in> W \<and> key v = k \<and> (\<forall>w\<in>W. key w = k \<longrightarrow> wit_key v \<le> wit_key w))"

lemma least_by_empty [simp]: "least_by [] {} key"
  by (simp add: least_by_def)

lemma least_by_insert:
  assumes "least_by m W key"
  shows "least_by (insert_least (key w) w m) (insert w W) key"
proof -
  have inv: "bm_invar m" and get: "case bm_get m k of None \<Rightarrow> \<forall>w\<in>W. key w \<noteq> k
      | Some v \<Rightarrow> v \<in> W \<and> key v = k \<and> (\<forall>w\<in>W. key w = k \<longrightarrow> wit_key v \<le> wit_key w)" for k
    using assms by (simp_all add: least_by_def)
  show ?thesis
  proof (cases "bm_get m (key w)")
    case None
    then have m: "insert_least (key w) w m = bm_insert (key w) w m" by (simp add: insert_least_def)
    have "case bm_get (bm_insert (key w) w m) k of None \<Rightarrow> \<forall>u\<in>insert w W. key u \<noteq> k
      | Some v \<Rightarrow> v \<in> insert w W \<and> key v = k \<and> (\<forall>u\<in>insert w W. key u = k \<longrightarrow> wit_key v \<le> wit_key u)" for k
      using get [of k] get [of "key w"] None by (auto simp: bm_get_insert [OF inv] split: option.splits)
    then show ?thesis by (simp add: least_by_def m inv)
  next
    case (Some v)
    show ?thesis
    proof (cases "wit_key w < wit_key v")
      case True
      then have m: "insert_least (key w) w m = bm_insert (key w) w m" by (simp add: insert_least_def Some witness_order_less)
      have least: "wit_key w \<le> wit_key u" if "u \<in> W" "key u = key w" for u
        using get [of "key w"] that True by (auto simp: Some)
      have "case bm_get (bm_insert (key w) w m) k of None \<Rightarrow> \<forall>u\<in>insert w W. key u \<noteq> k
        | Some v \<Rightarrow> v \<in> insert w W \<and> key v = k \<and> (\<forall>u\<in>insert w W. key u = k \<longrightarrow> wit_key v \<le> wit_key u)" for k
        using get [of k] least by (auto simp: bm_get_insert [OF inv] split: option.splits)
      then show ?thesis by (simp add: least_by_def m inv)
    next
      case False
      then have m: "insert_least (key w) w m = m" by (simp add: insert_least_def Some witness_order_less)
      have "case bm_get m k of None \<Rightarrow> \<forall>u\<in>insert w W. key u \<noteq> k
        | Some v \<Rightarrow> v \<in> insert w W \<and> key v = k \<and> (\<forall>u\<in>insert w W. key u = k \<longrightarrow> wit_key v \<le> wit_key u)" for k
        using get [of k] False Some by (auto split: option.splits)
      then show ?thesis by (simp add: least_by_def m inv)
    qed
  qed
qed

lemma least_by_coarser:
  assumes "least_by m C key" and "C \<subseteq> W" and "\<forall>w\<in>W. \<exists>c\<in>C. key c = key w \<and> wit_key c \<le> wit_key w"
  shows "least_by m W key"
proof -
  have get: "case bm_get m k of None \<Rightarrow> \<forall>w\<in>C. key w \<noteq> k
      | Some v \<Rightarrow> v \<in> C \<and> key v = k \<and> (\<forall>w\<in>C. key w = k \<longrightarrow> wit_key v \<le> wit_key w)" for k
    using assms(1) by (simp add: least_by_def)
  have "case bm_get m k of None \<Rightarrow> \<forall>w\<in>W. key w \<noteq> k
      | Some v \<Rightarrow> v \<in> W \<and> key v = k \<and> (\<forall>w\<in>W. key w = k \<longrightarrow> wit_key v \<le> wit_key w)" for k
  proof (cases "bm_get m k")
    case None
    have "\<forall>c\<in>C. key c \<noteq> k" using get [of k] by (simp add: None)
    with None assms(3) show ?thesis by force
  next
    case (Some v)
    have v: "v \<in> C" "key v = k" "\<forall>c\<in>C. key c = k \<longrightarrow> wit_key v \<le> wit_key c"
      using get [of k] by (simp_all add: Some)
    have "wit_key v \<le> wit_key w" if "w \<in> W" "key w = k" for w
    proof -
      from assms(3) that(1) obtain c where "c \<in> C" "key c = key w" "wit_key c \<le> wit_key w" by blast
      with v(3) that(2) show ?thesis by (blast intro: order_trans)
    qed
    with Some v assms(2) show ?thesis by auto
  qed
  with assms(1) show ?thesis by (simp add: least_by_def)
qed

lemma least_by_values:
  assumes "least_by m W key"
  shows "v \<in> set (bm_values m) \<longleftrightarrow> v \<in> W \<and> (\<forall>w\<in>W. key w = key v \<longrightarrow> wit_key v \<le> wit_key w) \<and> bm_get m (key v) = Some v"
proof -
  have inv: "bm_invar m" and get: "case bm_get m k of None \<Rightarrow> \<forall>w\<in>W. key w \<noteq> k
      | Some v \<Rightarrow> v \<in> W \<and> key v = k \<and> (\<forall>w\<in>W. key w = k \<longrightarrow> wit_key v \<le> wit_key w)" for k
    using assms by (simp_all add: least_by_def)
  have "v \<in> set (bm_values m) \<longleftrightarrow> (\<exists>k. bm_get m k = Some v)" by (rule set_bm_values [OF inv])
  also have "\<dots> \<longleftrightarrow> bm_get m (key v) = Some v"
  proof
    assume "\<exists>k. bm_get m k = Some v"
    then obtain k where k: "bm_get m k = Some v" by blast
    with get [of k] have "key v = k" by simp
    with k show "bm_get m (key v) = Some v" by simp
  qed blast
  also have "\<dots> \<longleftrightarrow> v \<in> W \<and> (\<forall>w\<in>W. key w = key v \<longrightarrow> wit_key v \<le> wit_key w) \<and> bm_get m (key v) = Some v"
    using get [of "key v"] by auto
  finally show ?thesis .
qed

text \<open>Every element of \<open>W\<close> has a representative.\<close>

lemma least_by_rep:
  assumes "least_by m W key" and "w \<in> W"
  shows "\<exists>v\<in>set (bm_values m). v \<in> W \<and> key v = key w \<and> wit_key v \<le> wit_key w"
proof -
  have inv: "bm_invar m" and get: "case bm_get m (key w) of None \<Rightarrow> \<forall>u\<in>W. key u \<noteq> key w
      | Some v \<Rightarrow> v \<in> W \<and> key v = key w \<and> (\<forall>u\<in>W. key u = key w \<longrightarrow> wit_key v \<le> wit_key u)"
    using assms(1) by (simp_all add: least_by_def)
  from get assms(2) obtain v where v: "bm_get m (key w) = Some v" by (cases "bm_get m (key w)") auto
  then have "v \<in> set (bm_values m)" unfolding set_bm_values [OF inv] by blast
  with v get assms(2) show ?thesis by auto
qed

section \<open>Orders of sequences\<close>

lemma snoc_less:
  fixes xs ys :: "'a::linorder list"
  assumes "length xs = length ys" and "xs < ys"
  shows "xs @ [a] < ys @ [b]"
  using assms by (induction xs ys rule: list_induct2) auto

lemma snoc_le:
  fixes xs ys :: "'a::linorder list"
  assumes "length xs = length ys" and "xs \<le> ys"
  shows "xs @ [a] \<le> ys @ [a]"
  using assms snoc_less [of xs ys a a] by (cases "xs = ys") (auto simp: order_le_less)

section \<open>What a step keeps\<close>

text \<open>The charges and guards change the metrics and the number of checks, never the staged rows.\<close>

lemma charges_keep_staged:
  "guard R x st = Inr st' \<Longrightarrow> xs_staged st' = xs_staged st"
  "refresh_memory x st = Inr st' \<Longrightarrow> xs_staged st' = xs_staged st"
  "increment_source_tests x st = Inr st' \<Longrightarrow> xs_staged st' = xs_staged st"
  "increment_site_tests x st = Inr st' \<Longrightarrow> xs_staged st' = xs_staged st"
  "increment_evidence_tests x st = Inr st' \<Longrightarrow> xs_staged st' = xs_staged st"
  by (auto simp: guard_def refresh_memory_def increment_source_tests_def increment_site_tests_def
    increment_evidence_tests_def sum_bind_Inr_iff Let_def)

lemma increments_keep_staged:
  "increment_state x st = Inr st' \<Longrightarrow> xs_staged st' = xs_staged st"
  "increment_edge_tests R x st = Inr st' \<Longrightarrow> xs_staged st' = xs_staged st"
  "refresh_staged_metrics E x st = Inr st' \<Longrightarrow> xs_staged st' = xs_staged st"
  by (auto simp: increment_state_def increment_edge_tests_def refresh_staged_metrics_def sum_bind_Inr_iff Let_def
    dest!: charges_keep_staged(1,2))

lemmas keep_staged = charges_keep_staged increments_keep_staged

lemma some_evidence_Inr:
  "some_evidence E decode x e vs st = Inr (m, st') \<Longrightarrow>
     m = (\<exists>v\<in>set vs. evaluate_entity_expression E decode e (View_Evidence v)) \<and> xs_staged st' = xs_staged st"
proof (induction vs arbitrary: st)
  case (Cons v vs)
  then obtain st1 where st1: "increment_evidence_tests x st = Inr st1"
    and rest: "(if evaluate_entity_expression E decode e (View_Evidence v) then Inr (True, st1)
      else some_evidence E decode x e vs st1) = Inr (m, st')"
    by (auto simp: sum_bind_Inr_iff)
  show ?case using rest Cons.IH [of st1] keep_staged(5) [OF st1] by (auto split: if_splits)
qed simp

definition predicate_met ::
  "externals \<Rightarrow> decoder \<Rightarrow> TypedQuantifierPredicate \<Rightarrow> SiteRecord option \<Rightarrow> EvidenceRecord list \<Rightarrow> bool" where
  "predicate_met E decode q new_site evidence = (case bind_entity_type (tq_binding q) of
     Type_Site \<Rightarrow> (\<exists>site\<in>set_option new_site. evaluate_entity_expression E decode (tq_expression q) (View_Site site))
   | Type_Evidence \<Rightarrow> (\<exists>v\<in>set evidence. evaluate_entity_expression E decode (tq_expression q) (View_Evidence v))
   | _ \<Rightarrow> False)"

definition record_bit :: "externals \<Rightarrow> decoder \<Rightarrow> Executor \<Rightarrow> SiteRecord option \<Rightarrow> EvidenceRecord list \<Rightarrow> nat \<Rightarrow> 64 word \<Rightarrow> 64 word" where
  "record_bit E decode x new_site evidence i bits =
     (if predicate_met E decode (ex_some_predicates x ! i) new_site evidence \<and> \<not> has_bit bits i then bits OR some_bit i else bits)"

lemma test_predicate_Inr:
  assumes "test_predicate E decode x new_site evidence i (bits, st) = Inr (bits', st')"
  shows "bits' = record_bit E decode x new_site evidence i bits \<and> xs_staged st' = xs_staged st"
  using assms
  by (cases "bind_entity_type (tq_binding (ex_some_predicates x ! i))"; cases new_site)
    (auto simp: test_predicate_def record_bit_def predicate_met_def sum_bind_Inr_iff split: if_splits
      dest!: keep_staged some_evidence_Inr)

lemma test_predicates_Inr:
  assumes "fold_m (test_predicate E decode x new_site evidence) is (bits, st) = Inr (bits', st')"
  shows "bits' = fold (record_bit E decode x new_site evidence) is bits \<and> xs_staged st' = xs_staged st"
  using assms
proof (induction "is" arbitrary: bits st)
  case (Cons i "is")
  then obtain b1 s1 where one: "test_predicate E decode x new_site evidence i (bits, st) = Inr (b1, s1)"
    and rest: "fold_m (test_predicate E decode x new_site evidence) is (b1, s1) = Inr (bits', st')"
    by (auto simp: sum_bind_Inr_iff)
  show ?case using Cons.IH [OF rest] test_predicate_Inr [OF one] by simp
qed simp

section \<open>Bits\<close>

lemma has_bit_iff: "k < 64 \<Longrightarrow> has_bit bits k \<longleftrightarrow> bit bits k"
  by (simp add: has_bit_def some_bit_def and_exp_eq_0_iff_not_bit push_bit_eq_mult)

lemma has_bit_or: "i < 64 \<Longrightarrow> k < 64 \<Longrightarrow> has_bit (bits OR some_bit i) k \<longleftrightarrow> has_bit bits k \<or> k = i"
  by (auto simp: has_bit_iff bit_or_iff some_bit_def push_bit_eq_mult bit_exp_iff)

lemma has_bit_zero [simp]: "\<not> has_bit 0 k"
  by (simp add: has_bit_def)

lemma bits_ext: "(\<And>k. k < 64 \<Longrightarrow> has_bit b k \<longleftrightarrow> has_bit c k) \<Longrightarrow> b = c"
  by (rule bit_word_eqI) (simp add: has_bit_iff)

lemma has_bit_recorded:
  assumes "n \<le> 64" and "k < 64"
  shows "has_bit (fold (record_bit E decode x new_site evidence) [0..<n] bits) k \<longleftrightarrow>
    has_bit bits k \<or> (k < n \<and> predicate_met E decode (ex_some_predicates x ! k) new_site evidence)"
  using assms(1)
proof (induction n)
  case (Suc n)
  then have "n < 64" by simp
  with Suc assms(2) show ?case by (auto simp: record_bit_def has_bit_or less_Suc_eq)
qed simp

section \<open>Trails\<close>

definition eligible_edges :: "RelationshipPattern \<Rightarrow> GraphSnapshot \<Rightarrow> EdgeRecord set" where
  "eligible_edges rel S = {edge \<in> set (snap_edges S). edge_kind edge \<in> set (rel_kinds rel)}"

text \<open>The edge-simple walks from \<open>s\<close> along the relationship, with the node they end at.\<close>

inductive trail :: "RelationshipPattern \<Rightarrow> GraphSnapshot \<Rightarrow> string \<Rightarrow> EdgeRecord list \<Rightarrow> string \<Rightarrow> bool" for rel S s where
  trail_empty: "trail rel S s [] s"
| trail_step: "\<lbrakk>trail rel S s es n; edge \<in> eligible_edges rel S; edge \<notin> set es; anchor_node (rel_direction rel) edge = n;
     traversed_node_id edge (rel_direction rel) \<in> node_id ` set (snap_nodes S)\<rbrakk>
     \<Longrightarrow> trail rel S s (es @ [edge]) (traversed_node_id edge (rel_direction rel))"

inductive_cases trail_snocE: "trail rel S s (es @ [edge]) n"

inductive_simps trail_Nil [simp]: "trail rel S s [] n"

definition path_sites :: "GraphSnapshot \<Rightarrow> EdgeRecord list \<Rightarrow> SiteRecord set" where
  "path_sites S es = {site \<in> set (snap_sites S). \<exists>edge\<in>set es. edge_site_id edge = Some (site_id site)}"

definition owns :: "string \<Rightarrow> string \<Rightarrow> EvidenceRecord \<Rightarrow> bool" where
  "owns owner_type owner v \<longleftrightarrow> ev_owner_type v = owner_type \<and> ev_owner_id v = owner"

definition path_evidence :: "GraphSnapshot \<Rightarrow> EdgeRecord list \<Rightarrow> EvidenceRecord set" where
  "path_evidence S es = {v \<in> set (snap_evidence S).
     (\<exists>edge\<in>set es. owns ''edge'' (edge_id edge) v) \<or> (\<exists>site\<in>path_sites S es. owns ''site'' (site_id site) v)}"

definition trail_facts :: "RelationshipPattern \<Rightarrow> GraphSnapshot \<Rightarrow> NodeRecord \<Rightarrow> NodeRecord \<Rightarrow> EdgeRecord list \<Rightarrow> path_facts" where
  "trail_facts rel S source target es =
     \<lparr>pf_source = source, pf_target = target, pf_direction = rel_direction rel, pf_edges = es,
      pf_sites = path_sites S es, pf_evidence = path_evidence S es\<rparr>"

text \<open>The condition of the query holds on the trail.\<close>

definition satisfies ::
  "externals \<Rightarrow> decoder \<Rightarrow> TypedQuery \<Rightarrow> GraphSnapshot \<Rightarrow> NodeRecord \<Rightarrow> NodeRecord \<Rightarrow> EdgeRecord list \<Rightarrow> bool" where
  "satisfies E decode q S source target es = (case ta_where_clause (tq_ast q) of
     None \<Rightarrow> True
   | Some e \<Rightarrow> holds E decode (source_name q) (target_name q)
       (trail_facts (tm_relationship (ta_match_clause (tq_ast q))) S source target es) e)"

text \<open>A match of the query: two nodes of the asked kinds and a trail between them, of an admitted length, that satisfies the condition.\<close>

definition query_match ::
  "externals \<Rightarrow> decoder \<Rightarrow> TypedQuery \<Rightarrow> GraphSnapshot \<Rightarrow> NodeRecord \<Rightarrow> NodeRecord \<Rightarrow> EdgeRecord list \<Rightarrow> bool" where
  "query_match E decode q S source target es \<longleftrightarrow>
     (let m = ta_match_clause (tq_ast q); rel = tm_relationship m in
      source \<in> set (snap_nodes S) \<and> target \<in> set (snap_nodes S) \<and> kind_allows (tn_kind (tm_source m)) source \<and>
      kind_allows (tn_kind (tm_target m)) target \<and> trail rel S (node_id source) es (node_id target) \<and>
      rel_min_depth rel \<le> length es \<and> length es \<le> rel_max_depth rel \<and> satisfies E decode q S source target es)"

text \<open>The answer for two nodes is their shortest match, and the least of these by the identities of its edges.\<close>

definition query_answer ::
  "externals \<Rightarrow> decoder \<Rightarrow> TypedQuery \<Rightarrow> GraphSnapshot \<Rightarrow> NodeRecord \<Rightarrow> NodeRecord \<Rightarrow> EdgeRecord list \<Rightarrow> bool" where
  "query_answer E decode q S source target es \<longleftrightarrow> query_match E decode q S source target es \<and>
     (\<forall>es'. query_match E decode q S source target es' \<longrightarrow>
        (length es, map edge_id es) \<le> (length es', map edge_id es'))"

section \<open>The indexes\<close>

definition outgoing :: "Executor \<Rightarrow> string \<Rightarrow> EdgeRecord list" where
  "outgoing x n = (case bm_get (ex_adjacency x) n of None \<Rightarrow> [] | Some es \<Rightarrow> es)"

definition identifies :: "(string, 'a) bmap \<Rightarrow> ('a \<Rightarrow> string) \<Rightarrow> 'a set \<Rightarrow> bool" where
  "identifies m identity X \<longleftrightarrow> bm_invar m \<and> (\<forall>i r. bm_get m i = Some r \<longleftrightarrow> r \<in> X \<and> identity r = i)"

definition indexed :: "Executor \<Rightarrow> GraphSnapshot \<Rightarrow> bool" where
  "indexed x S \<longleftrightarrow>
     identifies (ex_nodes x) node_id (set (snap_nodes S)) \<and> identifies (ex_sites x) site_id (set (snap_sites S)) \<and>
     identifies (ex_edges x) edge_id (eligible_edges (tm_relationship (ex_match x)) S) \<and>
     (\<forall>n. set (outgoing x n) = {edge \<in> eligible_edges (tm_relationship (ex_match x)) S. anchor_node (ex_direction x) edge = n}) \<and>
     (\<forall>t i. set (evidence_of x t i) = {v \<in> set (snap_evidence S). owns t i v}) \<and>
     ex_some_predicates x = (case ta_where_clause (tq_ast (ex_query x)) of None \<Rightarrow> [] | Some e \<Rightarrow> collect_some_predicates e)"

lemma identifies_get: "identifies m identity X \<Longrightarrow> bm_get m i = Some r \<longleftrightarrow> r \<in> X \<and> identity r = i"
  by (simp add: identifies_def)

lemma identifies_inj: "identifies m identity X \<Longrightarrow> inj_on identity X"
proof (rule inj_onI)
  fix r s assume m: "identifies m identity X" and "r \<in> X" "s \<in> X" "identity r = identity s"
  then have "bm_get m (identity r) = Some r" "bm_get m (identity r) = Some s" by (simp_all add: identifies_get)
  then show "r = s" by simp
qed

lemma identifies_contains: "identifies m identity X \<Longrightarrow> bm_contains_key m i \<longleftrightarrow> i \<in> identity ` X"
proof -
  assume m: "identifies m identity X"
  have "bm_contains_key m i \<longleftrightarrow> (\<exists>r. bm_get m i = Some r)" by (auto simp: bm_contains_key_def)
  also have "\<dots> \<longleftrightarrow> i \<in> identity ` X" by (auto simp: identifies_get [OF m])
  finally show ?thesis .
qed

lemma indexed_parts:
  assumes "indexed x S"
  shows "identifies (ex_nodes x) node_id (set (snap_nodes S))"
    and "identifies (ex_sites x) site_id (set (snap_sites S))"
    and "identifies (ex_edges x) edge_id (eligible_edges (tm_relationship (ex_match x)) S)"
    and "set (outgoing x n) = {edge \<in> eligible_edges (tm_relationship (ex_match x)) S. anchor_node (ex_direction x) edge = n}"
    and "set (evidence_of x t i) = {v \<in> set (snap_evidence S). owns t i v}"
  using assms by (simp_all add: indexed_def)

section \<open>The witness of a trail\<close>

definition grow :: "externals \<Rightarrow> decoder \<Rightarrow> Executor \<Rightarrow> Witness \<Rightarrow> EdgeRecord \<Rightarrow> Witness" where
  "grow E decode x witness edge =
     (let new_site = new_site_of x witness edge;
          evidence = evidence_of x ''edge'' (edge_id edge) @
            (case new_site of None \<Rightarrow> [] | Some site \<Rightarrow> evidence_of x ''site'' (site_id site)) in
      \<lparr>wit_node_ids = wit_node_ids witness @ [traversed_node_id edge (ex_direction x)],
       wit_edge_ids = wit_edge_ids witness @ [edge_id edge],
       wit_used_edges = bs_insert (edge_id edge) (wit_used_edges witness),
       wit_site_ids = (case new_site of None \<Rightarrow> wit_site_ids witness | Some site \<Rightarrow> bs_insert (site_id site) (wit_site_ids witness)),
       wit_existential_bits = fold (record_bit E decode x new_site evidence) [0..<length (ex_some_predicates x)]
         (wit_existential_bits witness)\<rparr>)"

lemma extend_witness_Inr:
  assumes "extend_witness E decode x witness edge (traversed_node_id edge (ex_direction x)) st = Inr (candidate, st')"
  shows "candidate = grow E decode x witness edge \<and> xs_staged st' = xs_staged st"
  using assms by (auto simp: extend_witness_def grow_def sum_bind_Inr_iff Let_def dest!: test_predicates_Inr)

definition trail_witness :: "externals \<Rightarrow> decoder \<Rightarrow> Executor \<Rightarrow> NodeRecord \<Rightarrow> EdgeRecord list \<Rightarrow> Witness" where
  "trail_witness E decode x source es = foldl (grow E decode x) (initial_witness source) es"

lemma trail_witness_simps [simp]:
  "trail_witness E decode x source [] = initial_witness source"
  "trail_witness E decode x source (es @ [edge]) = grow E decode x (trail_witness E decode x source es) edge"
  by (simp_all add: trail_witness_def)

lemma grow_simps [simp]:
  "wit_node_ids (grow E decode x w edge) = wit_node_ids w @ [traversed_node_id edge (ex_direction x)]"
  "wit_edge_ids (grow E decode x w edge) = wit_edge_ids w @ [edge_id edge]"
  "wit_used_edges (grow E decode x w edge) = bs_insert (edge_id edge) (wit_used_edges w)"
  by (simp_all add: grow_def Let_def)

lemma trail_witness_edges [simp]: "wit_edge_ids (trail_witness E decode x source es) = map edge_id es"
  by (induction es rule: rev_induct) (simp_all add: initial_witness_def)

lemma trail_witness_used:
  "set (wit_used_edges (trail_witness E decode x source es)) = edge_id ` set es \<and> strict_sorted (wit_used_edges (trail_witness E decode x source es))"
  by (induction es rule: rev_induct) (simp_all add: initial_witness_def)

lemma trail_witness_nodes: "length (wit_node_ids (trail_witness E decode x source es)) = Suc (length es)"
  by (induction es rule: rev_induct) (simp_all add: initial_witness_def)

lemma trail_witness_last:
  "trail (tm_relationship (ex_match x)) S (node_id source) es n \<Longrightarrow> last (wit_node_ids (trail_witness E decode x source es)) = n"
  by (induction rule: trail.cases) (simp_all add: initial_witness_def)

text \<open>The sites and the evidence that a step adds.\<close>

lemma path_sites_Nil [simp]: "path_sites S [] = {}"
  by (simp add: path_sites_def)

lemma path_evidence_Nil [simp]: "path_evidence S [] = {}"
  by (simp add: path_evidence_def)

lemma path_sites_snoc:
  "path_sites S (es @ [edge]) = path_sites S es \<union> {site \<in> set (snap_sites S). edge_site_id edge = Some (site_id site)}"
  by (auto simp: path_sites_def)

lemma new_site_adds:
  assumes "indexed x S" and "set (wit_site_ids w) = site_id ` path_sites S es"
  shows "path_sites S (es @ [edge]) = path_sites S es \<union> set_option (new_site_of x w edge)"
proof (cases "edge_site_id edge")
  case None
  then show ?thesis by (simp add: path_sites_snoc new_site_of_def)
next
  case (Some i)
  note sites = indexed_parts(2) [OF assms(1)]
  have inj: "inj_on site_id (set (snap_sites S))" using sites by (rule identifies_inj)
  have sub: "path_sites S es \<subseteq> set (snap_sites S)" by (auto simp: path_sites_def)
  have this_site: "{site \<in> set (snap_sites S). edge_site_id edge = Some (site_id site)} = set_option (bm_get (ex_sites x) i)"
    unfolding set_eq_iff by (auto simp: Some identifies_get [OF sites])
  show ?thesis
  proof (cases "i \<in> site_id ` path_sites S es")
    case True
    then obtain site where site: "site \<in> path_sites S es" "site_id site = i" by blast
    then have "bm_get (ex_sites x) i = Some site" using sub by (auto simp: identifies_get [OF sites])
    with True site show ?thesis
      unfolding path_sites_snoc this_site by (auto simp: new_site_of_def Some bs_contains_def assms(2))
  next
    case False
    then show ?thesis
      unfolding path_sites_snoc this_site by (simp add: new_site_of_def Some bs_contains_def assms(2))
  qed
qed

lemma path_evidence_snoc:
  assumes "path_sites S (es @ [edge]) = path_sites S es \<union> N"
  shows "path_evidence S (es @ [edge]) = path_evidence S es \<union>
    {v \<in> set (snap_evidence S). owns ''edge'' (edge_id edge) v \<or> (\<exists>site\<in>N. owns ''site'' (site_id site) v)}"
  by (auto simp: path_evidence_def assms)

lemma trail_witness_sites:
  assumes "indexed x S"
  shows "set (wit_site_ids (trail_witness E decode x source es)) = site_id ` path_sites S es \<and>
    strict_sorted (wit_site_ids (trail_witness E decode x source es))"
proof (induction es rule: rev_induct)
  case Nil
  then show ?case by (simp add: initial_witness_def)
next
  case (snoc edge es)
  then have "path_sites S (es @ [edge]) = path_sites S es \<union> set_option (new_site_of x (trail_witness E decode x source es) edge)"
    using new_site_adds [OF assms] by blast
  with snoc show ?case
    by (cases "new_site_of x (trail_witness E decode x source es) edge") (auto simp: grow_def Let_def)
qed

lemma collect_some_types: "q \<in> set (collect_some_predicates e) \<Longrightarrow> bind_entity_type (tq_binding q) \<in> {Type_Site, Type_Evidence}"
  by (induction e) (auto split: if_splits)

lemma some_predicate_types:
  assumes "indexed x S" and "k < length (ex_some_predicates x)"
  shows "bind_entity_type (tq_binding (ex_some_predicates x ! k)) \<in> {Type_Site, Type_Evidence}"
proof -
  have "ex_some_predicates x ! k \<in> set (ex_some_predicates x)" using assms(2) by simp
  then show ?thesis
    using assms(1) collect_some_types by (auto simp: indexed_def split: option.splits)
qed

abbreviation ex_facts :: "Executor \<Rightarrow> GraphSnapshot \<Rightarrow> NodeRecord \<Rightarrow> NodeRecord \<Rightarrow> EdgeRecord list \<Rightarrow> path_facts" where
  "ex_facts x \<equiv> trail_facts (tm_relationship (ex_match x))"

lemma satisfied_snoc:
  assumes x: "indexed x S" and t: "bind_entity_type (tq_binding q) \<in> {Type_Site, Type_Evidence}"
    and sites: "set (wit_site_ids w) = site_id ` path_sites S es"
  shows "satisfied E decode (ex_facts x S source target (es @ [edge])) q \<longleftrightarrow>
    satisfied E decode (ex_facts x S source target es) q \<or>
    predicate_met E decode q (new_site_of x w edge) (evidence_of x ''edge'' (edge_id edge) @
      (case new_site_of x w edge of None \<Rightarrow> [] | Some site \<Rightarrow> evidence_of x ''site'' (site_id site)))"
proof -
  note adds = new_site_adds [OF x sites, of edge]
  note evidence = path_evidence_snoc [OF adds]
  have new: "set (evidence_of x ''edge'' (edge_id edge) @
      (case new_site_of x w edge of None \<Rightarrow> [] | Some site \<Rightarrow> evidence_of x ''site'' (site_id site))) =
    {v \<in> set (snap_evidence S). owns ''edge'' (edge_id edge) v \<or> (\<exists>site\<in>set_option (new_site_of x w edge). owns ''site'' (site_id site) v)}"
    by (cases "new_site_of x w edge") (auto simp: indexed_parts(5) [OF x])
  from t consider "bind_entity_type (tq_binding q) = Type_Site" | "bind_entity_type (tq_binding q) = Type_Evidence" by blast
  then show ?thesis
    by cases (auto simp: satisfied_def quantifies_def trail_facts_def predicate_met_def adds evidence new simp del: set_append)
qed

lemma trail_witness_bits:
  assumes x: "indexed x S" and few: "length (ex_some_predicates x) \<le> 64" and k: "k < 64"
  shows "has_bit (wit_existential_bits (trail_witness E decode x source es)) k \<longleftrightarrow>
    k < length (ex_some_predicates x) \<and> satisfied E decode (ex_facts x S source target es) (ex_some_predicates x ! k)"
proof (induction es rule: rev_induct)
  case Nil
  then show ?case
    using some_predicate_types [OF x, of k]
    by (auto simp: initial_witness_def satisfied_def quantifies_def trail_facts_def)
next
  case (snoc edge es)
  show ?case
  proof (cases "k < length (ex_some_predicates x)")
    case True
    note types = some_predicate_types [OF x True]
    note sites = trail_witness_sites [OF x, THEN conjunct1, of E decode source es]
    show ?thesis
      unfolding satisfied_snoc [OF x types sites]
      using snoc True by (simp add: grow_def Let_def has_bit_recorded [OF few k])
  next
    case False
    with snoc show ?thesis by (simp add: grow_def Let_def has_bit_recorded [OF few k])
  qed
qed

section \<open>Trails with the same key\<close>

lemma trail_edges: "trail rel S s es n \<Longrightarrow> set es \<subseteq> eligible_edges rel S \<and> distinct es"
  by (induction rule: trail.induct) auto

lemma trail_end: "trail rel S s es n \<Longrightarrow> n = (if es = [] then s else traversed_node_id (last es) (rel_direction rel))"
  by (induction rule: trail.induct) simp_all

lemma path_sites_cong: "set es = set es' \<Longrightarrow> path_sites S es = path_sites S es'"
  by (simp add: path_sites_def)

lemma path_evidence_cong: "set es = set es' \<Longrightarrow> path_evidence S es = path_evidence S es'"
  by (simp add: path_evidence_def path_sites_cong [of es es'])

lemma satisfied_cong:
  "set es = set es' \<Longrightarrow> satisfied E decode (trail_facts rel S source target es) q = satisfied E decode (trail_facts rel S source' target' es') q"
  by (cases "bind_entity_type (tq_binding q)")
    (simp_all add: satisfied_def quantifies_def trail_facts_def path_sites_cong [of es es'] path_evidence_cong [of es es'])

lemma holds_cong:
  assumes "set es = set es'" and "length es = length es'"
  shows "holds E decode s t (trail_facts rel S source target es) e = holds E decode s t (trail_facts rel S source target es') e"
proof (induction e)
  case (TExpr_Quantifier q)
  have "satisfied E decode (trail_facts rel S source target es) q = satisfied E decode (trail_facts rel S source target es') q"
    by (rule satisfied_cong [OF assms(1)])
  then show ?case by (simp add: satisfied_def)
next
  case (TExpr_Scalar p)
  have "path_view s t (trail_facts rel S source target es) = path_view s t (trail_facts rel S source target es')"
    by (simp add: fun_eq_iff path_view_def trail_facts_def assms(2))
  then show ?case by simp
qed simp_all

abbreviation ex_trail :: "Executor \<Rightarrow> GraphSnapshot \<Rightarrow> NodeRecord \<Rightarrow> EdgeRecord list \<Rightarrow> string \<Rightarrow> bool" where
  "ex_trail x S source \<equiv> trail (tm_relationship (ex_match x)) S (node_id source)"

lemma same_key:
  assumes x: "indexed x S" and t: "ex_trail x S source es n" and t': "ex_trail x S source es' n'"
    and key: "state_key (trail_witness E decode x source es) = state_key (trail_witness E decode x source es')"
  shows "n = n' \<and> length es = length es' \<and> set es = set es'"
proof -
  note inj = identifies_inj [OF indexed_parts(3) [OF x]]
  have "edge_id ` set es = edge_id ` set es'"
    using key trail_witness_used [of E decode x source es] trail_witness_used [of E decode x source es'] by (simp add: state_key_def)
  then have "set es = set es'"
    using inj_on_image_eq_iff [OF inj] trail_edges [OF t] trail_edges [OF t'] by blast
  then show ?thesis
    using key trail_witness_last [OF t, of E decode] trail_witness_last [OF t', of E decode] by (simp add: state_key_def)
qed

lemma equal_parts:
  assumes x: "indexed x S" and few: "length (ex_some_predicates x) \<le> 64" and eq: "set es = set es'"
  shows "wit_used_edges (trail_witness E decode x source es) = wit_used_edges (trail_witness E decode x source es')"
    and "wit_site_ids (trail_witness E decode x source es) = wit_site_ids (trail_witness E decode x source es')"
    and "wit_existential_bits (trail_witness E decode x source es) = wit_existential_bits (trail_witness E decode x source es')"
proof -
  show "wit_used_edges (trail_witness E decode x source es) = wit_used_edges (trail_witness E decode x source es')"
    using trail_witness_used [of E decode x source es] trail_witness_used [of E decode x source es'] eq by (metis strict_sorted_equal)
  show "wit_site_ids (trail_witness E decode x source es) = wit_site_ids (trail_witness E decode x source es')"
    using trail_witness_sites [OF x, of E decode source es] trail_witness_sites [OF x, of E decode source es'] path_sites_cong [OF eq]
    by (metis strict_sorted_equal)
  show "wit_existential_bits (trail_witness E decode x source es) = wit_existential_bits (trail_witness E decode x source es')"
  proof (rule bits_ext)
    fix k :: nat
    assume "k < 64"
    note bits = trail_witness_bits [OF x few this, of E decode source _ source]
    have "satisfied E decode (ex_facts x S source source es) q = satisfied E decode (ex_facts x S source source es') q" for q
      by (rule satisfied_cong [OF eq])
    then show "has_bit (wit_existential_bits (trail_witness E decode x source es)) k \<longleftrightarrow>
        has_bit (wit_existential_bits (trail_witness E decode x source es')) k"
      by (simp add: bits)
  qed
qed

lemma equal_key:
  assumes "indexed x S" and "length (ex_some_predicates x) \<le> 64"
    and "ex_trail x S source es n" and "ex_trail x S source es' n" and "length es = length es'" and "set es = set es'"
  shows "state_key (trail_witness E decode x source es) = state_key (trail_witness E decode x source es')"
  unfolding state_key_def trail_witness_last [OF assms(3)] trail_witness_last [OF assms(4)]
    equal_parts [OF assms(1,2,6)] trail_witness_edges by (simp add: assms(5))

section \<open>Expanding a layer\<close>

definition successors :: "externals \<Rightarrow> decoder \<Rightarrow> Executor \<Rightarrow> Witness \<Rightarrow> Witness set" where
  "successors E decode x w = grow E decode x w ` {edge \<in> set (outgoing x (last (wit_node_ids w))).
     \<not> bs_contains (wit_used_edges w) (edge_id edge) \<and> bm_contains_key (ex_nodes x) (traversed_node_id edge (ex_direction x))}"

lemma expand_edge_Inr:
  assumes "expand_edge E decode R x w edge (nxt, st) = Inr (nxt', st')"
  shows "xs_staged st' = xs_staged st \<and> nxt' =
    (if bs_contains (wit_used_edges w) (edge_id edge) \<or> \<not> bm_contains_key (ex_nodes x) (traversed_node_id edge (ex_direction x)) then nxt
     else insert_least (state_key (grow E decode x w edge)) (grow E decode x w edge) nxt)"
proof -
  let ?stay = "bs_contains (wit_used_edges w) (edge_id edge) \<or> \<not> bm_contains_key (ex_nodes x) (traversed_node_id edge (ex_direction x))"
  obtain s1 where s1: "increment_edge_tests R x st = Inr s1"
    using assms by (auto simp: expand_edge_def sum_bind_Inr_iff)
  show ?thesis
  proof (cases ?stay)
    case True
    then have "nxt' = nxt \<and> st' = s1" using assms by (auto simp: expand_edge_def s1 Let_def split: if_splits)
    with True keep_staged(7) [OF s1] show ?thesis by simp
  next
    case False
    then have f: "bs_contains (wit_used_edges w) (edge_id edge) = False"
        "bm_contains_key (ex_nodes x) (traversed_node_id edge (ex_direction x)) = True" by simp_all
    obtain c s2 where s2: "extend_witness E decode x w edge (traversed_node_id edge (ex_direction x)) s1 = Inr (c, s2)"
        and s3: "(if bm_contains_key nxt (state_key c) then Inr s2 else increment_state x s2) = Inr st'"
        and nxt': "nxt' = insert_least (state_key c) c nxt"
      using assms unfolding expand_edge_def Let_def prod.case s1 f sum_bind.simps if_False if_True not_True_eq_False
      by (auto simp: sum_bind_Inr_iff)
    from s3 have "xs_staged st' = xs_staged s2" by (auto split: if_splits dest: keep_staged(6))
    with False nxt' extend_witness_Inr [OF s2] keep_staged(7) [OF s1] show ?thesis by simp
  qed
qed

lemma expand_edges_Inr:
  assumes "fold_m (expand_edge E decode R x w) edges (nxt, st) = Inr (nxt', st')" and "least_by nxt C state_key"
  shows "xs_staged st' = xs_staged st \<and> least_by nxt' (C \<union> grow E decode x w ` {edge \<in> set edges.
     \<not> bs_contains (wit_used_edges w) (edge_id edge) \<and> bm_contains_key (ex_nodes x) (traversed_node_id edge (ex_direction x))}) state_key"
  using assms
proof (induction edges arbitrary: nxt st C)
  case (Cons edge edges)
  then obtain n1 s1 where one: "expand_edge E decode R x w edge (nxt, st) = Inr (n1, s1)"
    and rest: "fold_m (expand_edge E decode R x w) edges (n1, s1) = Inr (nxt', st')"
    by (auto simp: sum_bind_Inr_iff)
  let ?ok = "\<lambda>edge. \<not> bs_contains (wit_used_edges w) (edge_id edge) \<and> bm_contains_key (ex_nodes x) (traversed_node_id edge (ex_direction x))"
  have layer: "least_by n1 (C \<union> grow E decode x w ` {e \<in> {edge}. ?ok e}) state_key"
  proof (cases "?ok edge")
    case True
    then have set: "C \<union> grow E decode x w ` {e \<in> {edge}. ?ok e} = insert (grow E decode x w edge) C" by auto
    have "n1 = insert_least (state_key (grow E decode x w edge)) (grow E decode x w edge) nxt"
      using expand_edge_Inr [OF one] True by simp
    then show ?thesis unfolding set by (simp add: least_by_insert [OF Cons.prems(2)])
  next
    case False
    then have set: "C \<union> grow E decode x w ` {e \<in> {edge}. ?ok e} = C" by auto
    have "n1 = nxt" using expand_edge_Inr [OF one] False by auto
    then show ?thesis unfolding set by (simp add: Cons.prems(2))
  qed
  have "{e \<in> set (edge # edges). ?ok e} = {e \<in> {edge}. ?ok e} \<union> {e \<in> set edges. ?ok e}" by auto
  then have set: "C \<union> grow E decode x w ` {e \<in> set (edge # edges). ?ok e} =
      C \<union> grow E decode x w ` {e \<in> {edge}. ?ok e} \<union> grow E decode x w ` {e \<in> set edges. ?ok e}"
    unfolding Un_assoc image_Un [symmetric] by (rule arg_cong)
  show ?case unfolding set using Cons.IH [OF rest layer] expand_edge_Inr [OF one] by simp
qed simp

lemma expand_witnesses_Inr:
  assumes "fold_m (expand_witness E decode R x) ws (nxt, st) = Inr (nxt', st')" and "least_by nxt C state_key"
  shows "xs_staged st' = xs_staged st \<and> least_by nxt' (C \<union> (\<Union>w\<in>set ws. successors E decode x w)) state_key"
  using assms
proof (induction ws arbitrary: nxt st C)
  case (Cons w ws)
  then obtain n1 s1 where one: "expand_witness E decode R x w (nxt, st) = Inr (n1, s1)"
    and rest: "fold_m (expand_witness E decode R x) ws (n1, s1) = Inr (nxt', st')"
    by (auto simp: sum_bind_Inr_iff)
  obtain s0 where s0: "guard R x st = Inr s0"
    and edges: "fold_m (expand_edge E decode R x w) (outgoing x (last (wit_node_ids w))) (nxt, s0) = Inr (n1, s1)"
    using one by (auto simp: expand_witness_def outgoing_def sum_bind_Inr_iff)
  note step = expand_edges_Inr [OF edges Cons.prems(2), folded successors_def]
  show ?case
    using Cons.IH [OF rest step [THEN conjunct2]] step keep_staged(1) [OF s0] by (simp add: Un_assoc)
qed simp

definition layer_witnesses :: "externals \<Rightarrow> decoder \<Rightarrow> Executor \<Rightarrow> GraphSnapshot \<Rightarrow> NodeRecord \<Rightarrow> nat \<Rightarrow> Witness set" where
  "layer_witnesses E decode x S source d = {trail_witness E decode x source es |es. \<exists>n. ex_trail x S source es n \<and> length es = d}"

lemma successors_sound:
  assumes x: "indexed x S" and w: "w \<in> layer_witnesses E decode x S source d" and u: "u \<in> successors E decode x w"
  shows "u \<in> layer_witnesses E decode x S source (Suc d)"
proof -
  obtain es n where es: "ex_trail x S source es n" "length es = d" and w': "w = trail_witness E decode x source es"
    using w by (auto simp: layer_witnesses_def)
  obtain edge where edge: "edge \<in> set (outgoing x n)" "edge_id edge \<notin> edge_id ` set es"
      "bm_contains_key (ex_nodes x) (traversed_node_id edge (ex_direction x))" and u': "u = grow E decode x w edge"
    using u trail_witness_last [OF es(1), of E decode] trail_witness_used [of E decode x source es]
    by (auto simp: successors_def w' bs_contains_def)
  have "ex_trail x S source (es @ [edge]) (traversed_node_id edge (ex_direction x))"
  proof (rule trail_step [OF es(1)])
    show "edge \<in> eligible_edges (tm_relationship (ex_match x)) S" "anchor_node (ex_direction x) edge = n"
      using edge(1) by (simp_all add: indexed_parts(4) [OF x])
    show "edge \<notin> set es" using edge(2) by blast
    show "traversed_node_id edge (ex_direction x) \<in> node_id ` set (snap_nodes S)"
      using edge(3) by (simp add: identifies_contains [OF indexed_parts(1) [OF x]])
  qed
  moreover have "u = trail_witness E decode x source (es @ [edge])" by (simp add: u' w')
  moreover have "length (es @ [edge]) = Suc d" by (simp add: es(2))
  ultimately show ?thesis unfolding layer_witnesses_def by blast
qed

lemma grow_le:
  assumes "wit_key (trail_witness E decode x source es) \<le> wit_key (trail_witness E decode x source es')"
    and "length es = length es'"
  shows "wit_key (trail_witness E decode x source (es @ [edge])) \<le> wit_key (trail_witness E decode x source (es' @ [edge]))"
proof -
  let ?w = "trail_witness E decode x source es" and ?w' = "trail_witness E decode x source es'"
  have l: "length (wit_edge_ids ?w) = length (wit_edge_ids ?w')" "length (wit_node_ids ?w) = length (wit_node_ids ?w')"
    by (simp_all add: assms(2) trail_witness_nodes)
  consider "wit_edge_ids ?w < wit_edge_ids ?w'" | "wit_edge_ids ?w = wit_edge_ids ?w'" "wit_node_ids ?w \<le> wit_node_ids ?w'"
    using assms(1) unfolding wit_key_def by (cases "wit_edge_ids ?w < wit_edge_ids ?w'") auto
  then show ?thesis
  proof cases
    case 1
    then have "wit_edge_ids ?w @ [edge_id edge] < wit_edge_ids ?w' @ [edge_id edge]" using l(1) by (intro snoc_less)
    then show ?thesis by (simp add: wit_key_def)
  next
    case 2
    then have "wit_node_ids ?w @ [n] \<le> wit_node_ids ?w' @ [n]" for n using l(2) by (intro snoc_le)
    with 2 show ?thesis by (simp add: wit_key_def)
  qed
qed

lemma successors_cover:
  assumes x: "indexed x S" and few: "length (ex_some_predicates x) \<le> 64"
    and current: "least_by current (layer_witnesses E decode x S source d) state_key"
    and w: "w \<in> layer_witnesses E decode x S source (Suc d)"
  shows "\<exists>c\<in>(\<Union>v\<in>set (bm_values current). successors E decode x v). state_key c = state_key w \<and> wit_key c \<le> wit_key w"
proof -
  obtain es' m where es': "ex_trail x S source es' m" "length es' = Suc d" and w': "w = trail_witness E decode x source es'"
    using w by (auto simp: layer_witnesses_def)
  obtain es edge where snoc: "es' = es @ [edge]" using es'(2) by (cases es' rule: rev_cases) auto
  note trail' = es'(1) [unfolded snoc]
  obtain n where es: "ex_trail x S source es n" and edge: "edge \<in> eligible_edges (tm_relationship (ex_match x)) S" "edge \<notin> set es"
      "anchor_node (ex_direction x) edge = n" "traversed_node_id edge (ex_direction x) \<in> node_id ` set (snap_nodes S)"
    using trail' by (rule trail_snocE) blast
  have "trail_witness E decode x source es \<in> layer_witnesses E decode x S source d"
    using es es'(2) by (auto simp: layer_witnesses_def snoc)
  from least_by_rep [OF current this] obtain v where v: "v \<in> set (bm_values current)" "v \<in> layer_witnesses E decode x S source d"
      "state_key v = state_key (trail_witness E decode x source es)" "wit_key v \<le> wit_key (trail_witness E decode x source es)"
    by blast
  obtain fs k where fs: "ex_trail x S source fs k" "length fs = d" and v': "v = trail_witness E decode x source fs"
    using v(2) by (auto simp: layer_witnesses_def)
  have same: "k = n" "length fs = length es" "set fs = set es"
    using same_key [OF x fs(1) es] v(3) by (simp_all add: v')
  have new: "edge_id edge \<notin> edge_id ` set es"
  proof
    assume "edge_id edge \<in> edge_id ` set es"
    then obtain e where "e \<in> set es" "edge_id e = edge_id edge" by auto
    with edge(1,2) trail_edges [OF es] identifies_inj [OF indexed_parts(3) [OF x]] show False
      by (auto dest: inj_onD)
  qed
  have succ: "grow E decode x v edge \<in> successors E decode x v"
    using edge trail_witness_last [OF fs(1), of E decode] trail_witness_used [of E decode x source fs] new
    by (simp add: successors_def v' same bs_contains_def indexed_parts(4) [OF x] identifies_contains [OF indexed_parts(1) [OF x]])
  have fs_trail: "ex_trail x S source (fs @ [edge]) (traversed_node_id edge (ex_direction x))"
    by (rule trail_step [OF fs(1)]) (use edge same in auto)
  have es_trail: "ex_trail x S source (es @ [edge]) (traversed_node_id edge (ex_direction x))"
    by (rule trail_step [OF es]) (use edge in auto)
  have "state_key (grow E decode x v edge) = state_key w"
    using equal_key [OF x few fs_trail es_trail] same by (simp add: v' w' snoc)
  moreover have "wit_key (grow E decode x v edge) \<le> wit_key w"
    using grow_le [of E decode x source fs es edge] v(4) same(2) by (simp add: v' w' snoc)
  ultimately show ?thesis using v(1) succ by blast
qed

lemma expand_layer:
  assumes x: "indexed x S" and few: "length (ex_some_predicates x) \<le> 64"
    and current: "least_by current (layer_witnesses E decode x S source d) state_key"
    and run: "fold_m (expand_witness E decode R x) (bm_values current) ([], st) = Inr (nxt, st')"
  shows "xs_staged st' = xs_staged st \<and> least_by nxt (layer_witnesses E decode x S source (Suc d)) state_key"
proof -
  note step = expand_witnesses_Inr [OF run least_by_empty]
  have sub: "(\<Union>w\<in>set (bm_values current). successors E decode x w) \<subseteq> layer_witnesses E decode x S source (Suc d)"
    using successors_sound [OF x] least_by_values [OF current] by blast
  have "least_by nxt (\<Union>w\<in>set (bm_values current). successors E decode x w) state_key" using step by simp
  from least_by_coarser [OF this sub] successors_cover [OF x few current] step show ?thesis by blast
qed

section \<open>Emitting a layer\<close>

lemma trail_edge_lookup:
  assumes "indexed x S" and "ex_trail x S source es n" and "edge \<in> set es"
  shows "bm_get (ex_edges x) (edge_id edge) = Some edge"
  using trail_edges [OF assms(2)] assms(3) by (auto simp: identifies_get [OF indexed_parts(3) [OF assms(1)]])

lemma where_matches_iff:
  assumes x: "indexed x S" and few: "length (ex_some_predicates x) \<le> 64" and t: "ex_trail x S source es n"
  shows "where_matches E decode x source target (trail_witness E decode x source es) \<longleftrightarrow> satisfies E decode (ex_query x) S source target es"
proof (cases "ta_where_clause (tq_ast (ex_query x))")
  case None
  then show ?thesis by (simp add: where_matches_def satisfies_def)
next
  case (Some e)
  let ?c = "\<lparr>ec_query = ex_query x, ec_source = source, ec_target = target,
    ec_witness = trail_witness E decode x source es, ec_edges = ex_edges x\<rparr>"
  have preds: "ex_some_predicates x = collect_some_predicates e" using x by (simp add: indexed_def Some)
  have "shows_path ?c (ex_facts x S source target es)"
    using trail_edge_lookup [OF x t] by (simp add: shows_path_def trail_facts_def)
  moreover have "bits_record E decode (ex_facts x S source target es) (wit_existential_bits (ec_witness ?c)) 0 (collect_some_predicates e)"
    unfolding bits_record_def
  proof (intro allI impI)
    fix k
    assume k: "k < length (collect_some_predicates e)"
    with few have "k < 64" by (simp add: preds)
    from trail_witness_bits [OF x few this, of E decode source es target] k
    show "has_bit (wit_existential_bits (ec_witness ?c)) (0 + k) \<longleftrightarrow>
        satisfied E decode (ex_facts x S source target es) (collect_some_predicates e ! k)" by (simp add: preds)
  qed
  ultimately show ?thesis
    using evaluate_expression_holds(1) [of ?c "ex_facts x S source target es" E decode 0 e]
    by (simp add: where_matches_def satisfies_def expression_matches_def Some)
qed

abbreviation end_node :: "Witness \<Rightarrow> string" where
  "end_node w \<equiv> last (wit_node_ids w)"

definition accepts :: "externals \<Rightarrow> decoder \<Rightarrow> Executor \<Rightarrow> NodeRecord \<Rightarrow> string set \<Rightarrow> Witness \<Rightarrow> bool" where
  "accepts E decode x source resolved w \<longleftrightarrow> end_node w \<notin> resolved \<and>
     (\<exists>target. bm_get (ex_nodes x) (end_node w) = Some target \<and> kind_allows (tn_kind (tm_target (ex_match x))) target \<and>
        where_matches E decode x source target w)"

lemma match_witness_accepts:
  assumes "identifies (ex_nodes x) node_id X"
  shows "match_witness E decode x source resolved w m =
    (if accepts E decode x source (set resolved) w then insert_least (end_node w) w m else m)"
proof (cases "bm_get (ex_nodes x) (end_node w)")
  case None
  then show ?thesis by (simp add: match_witness_def accepts_def Let_def)
next
  case (Some target)
  then have "node_id target = end_node w" using identifies_get [OF assms] by blast
  then show ?thesis by (simp add: match_witness_def accepts_def Let_def Some bs_contains_def)
qed

lemma match_witnesses:
  assumes "identifies (ex_nodes x) node_id X" and "least_by m M end_node"
  shows "least_by (fold (match_witness E decode x source resolved) ws m)
    (M \<union> {w \<in> set ws. accepts E decode x source (set resolved) w}) end_node"
  using assms(2)
proof (induction ws arbitrary: m M)
  case (Cons w ws)
  have "least_by (match_witness E decode x source resolved w m) (M \<union> {u \<in> {w}. accepts E decode x source (set resolved) u}) end_node"
  proof (cases "accepts E decode x source (set resolved) w")
    case True
    then have "M \<union> {u \<in> {w}. accepts E decode x source (set resolved) u} = insert w M" by auto
    with True show ?thesis by (simp add: match_witness_accepts [OF assms(1)] least_by_insert [OF Cons.prems])
  next
    case False
    then have "M \<union> {u \<in> {w}. accepts E decode x source (set resolved) u} = M" by auto
    with False show ?thesis by (simp add: match_witness_accepts [OF assms(1)] Cons.prems)
  qed
  moreover have "M \<union> {u \<in> {w}. accepts E decode x source (set resolved) u} \<union> {u \<in> set ws. accepts E decode x source (set resolved) u} =
      M \<union> {u \<in> set (w # ws). accepts E decode x source (set resolved) u}" by auto
  ultimately show ?case using Cons.IH by fastforce
qed simp

definition accepted :: "externals \<Rightarrow> decoder \<Rightarrow> Executor \<Rightarrow> GraphSnapshot \<Rightarrow> NodeRecord \<Rightarrow> string set \<Rightarrow> nat \<Rightarrow> Witness set" where
  "accepted E decode x S source resolved d =
     {w \<in> layer_witnesses E decode x S source d. accepts E decode x source resolved w}"

text \<open>What a target is accepted for depends on the key of the witness only.\<close>

lemma accepts_cong:
  assumes x: "indexed x S" and few: "length (ex_some_predicates x) \<le> 64"
    and w: "w \<in> layer_witnesses E decode x S source d" "v \<in> layer_witnesses E decode x S source d"
    and key: "state_key w = state_key v"
  shows "accepts E decode x source resolved w \<longleftrightarrow> accepts E decode x source resolved v"
proof -
  obtain es n where es: "ex_trail x S source es n" and w': "w = trail_witness E decode x source es"
    using w(1) by (auto simp: layer_witnesses_def)
  obtain fs m where fs: "ex_trail x S source fs m" and v': "v = trail_witness E decode x source fs"
    using w(2) by (auto simp: layer_witnesses_def)
  have same: "n = m" "length es = length fs" "set es = set fs"
    using same_key [OF x es fs] key by (simp_all add: w' v')
  have "satisfies E decode (ex_query x) S source target es \<longleftrightarrow> satisfies E decode (ex_query x) S source target fs" for target
    using holds_cong [OF same(3,2)] by (simp add: satisfies_def split: option.splits)
  then show ?thesis
    unfolding accepts_def w' v' trail_witness_last [OF es] trail_witness_last [OF fs] same(1)
      where_matches_iff [OF x few es] where_matches_iff [OF x few fs] by simp
qed

lemma match_layer:
  assumes x: "indexed x S" and few: "length (ex_some_predicates x) \<le> 64"
    and current: "least_by current (layer_witnesses E decode x S source d) state_key"
  shows "least_by (fold (match_witness E decode x source resolved) (bm_values current) [])
    (accepted E decode x S source (set resolved) d) end_node"
proof -
  let ?C = "{w \<in> set (bm_values current). accepts E decode x source (set resolved) w}"
  note m = match_witnesses [OF indexed_parts(1) [OF x] least_by_empty, of E decode source resolved "bm_values current", simplified]
  have "?C \<subseteq> accepted E decode x S source (set resolved) d"
    using least_by_values [OF current] by (auto simp: accepted_def)
  moreover have "\<forall>w\<in>accepted E decode x S source (set resolved) d. \<exists>c\<in>?C. end_node c = end_node w \<and> wit_key c \<le> wit_key w"
  proof
    fix w assume w: "w \<in> accepted E decode x S source (set resolved) d"
    then have w': "w \<in> layer_witnesses E decode x S source d" "accepts E decode x source (set resolved) w"
      by (simp_all add: accepted_def)
    from least_by_rep [OF current w'(1)] obtain v where v: "v \<in> set (bm_values current)"
      "v \<in> layer_witnesses E decode x S source d" "state_key v = state_key w" "wit_key v \<le> wit_key w" by blast
    moreover have "accepts E decode x source (set resolved) v"
      using accepts_cong [OF x few v(2) w'(1) v(3)] w'(2) by simp
    moreover have "end_node v = end_node w" using v(3) by (simp add: state_key_def)
    ultimately show "\<exists>c\<in>?C. end_node c = end_node w \<and> wit_key c \<le> wit_key w" by blast
  qed
  ultimately show ?thesis by (rule least_by_coarser [OF m])
qed

section \<open>The answers of a layer\<close>

lemma accepts_trail:
  assumes x: "indexed x S" and few: "length (ex_some_predicates x) \<le> 64" and t: "ex_trail x S source es n"
  shows "accepts E decode x source resolved (trail_witness E decode x source es) \<longleftrightarrow> n \<notin> resolved \<and>
    (\<exists>target\<in>set (snap_nodes S). node_id target = n \<and> kind_allows (tn_kind (tm_target (ex_match x))) target \<and>
       satisfies E decode (ex_query x) S source target es)"
  unfolding accepts_def trail_witness_last [OF t] where_matches_iff [OF x few t] identifies_get [OF indexed_parts(1) [OF x]]
  by blast

definition asks_from :: "externals \<Rightarrow> decoder \<Rightarrow> Executor \<Rightarrow> GraphSnapshot \<Rightarrow> NodeRecord \<Rightarrow> NodeRecord \<Rightarrow> EdgeRecord list \<Rightarrow> bool" where
  "asks_from E decode x S source target es \<longleftrightarrow>
     target \<in> set (snap_nodes S) \<and> kind_allows (tn_kind (tm_target (ex_match x))) target \<and>
     ex_trail x S source es (node_id target) \<and> satisfies E decode (ex_query x) S source target es"

lemma accepted_iff:
  assumes "indexed x S" and "length (ex_some_predicates x) \<le> 64"
  shows "w \<in> accepted E decode x S source resolved d \<longleftrightarrow> (\<exists>target es. w = trail_witness E decode x source es \<and>
    length es = d \<and> asks_from E decode x S source target es \<and> node_id target \<notin> resolved)"
  (is "?l \<longleftrightarrow> ?r")
proof
  assume ?l
  then obtain es n where es: "w = trail_witness E decode x source es" "ex_trail x S source es n" "length es = d"
      and a: "accepts E decode x source resolved w"
    unfolding accepted_def layer_witnesses_def by (elim CollectE conjE exE)
  from a obtain target where "target \<in> set (snap_nodes S)" "node_id target = n"
      "kind_allows (tn_kind (tm_target (ex_match x))) target" "satisfies E decode (ex_query x) S source target es" "n \<notin> resolved"
    unfolding es(1) accepts_trail [OF assms es(2)] by (elim conjE bexE)
  then have "asks_from E decode x S source target es \<and> node_id target \<notin> resolved" using es(2) by (simp add: asks_from_def)
  with es(1,3) show ?r by - (rule exI [of _ target], rule exI [of _ es], simp)
next
  assume ?r
  then obtain target es where es: "w = trail_witness E decode x source es" "length es = d"
      "asks_from E decode x S source target es" "node_id target \<notin> resolved" by (elim exE conjE)
  then have t: "ex_trail x S source es (node_id target)" by (simp add: asks_from_def)
  have "accepts E decode x source resolved w"
    unfolding es(1) accepts_trail [OF assms t] using es(3,4) unfolding asks_from_def by (intro conjI bexI [of _ target]) simp_all
  moreover have "w \<in> layer_witnesses E decode x S source d" unfolding layer_witnesses_def using t es(1,2) by blast
  ultimately show ?l by (simp add: accepted_def)
qed

definition row_of ::
  "externals \<Rightarrow> decoder \<Rightarrow> Executor \<Rightarrow> NodeRecord \<Rightarrow> NodeRecord \<times> EdgeRecord list \<Rightarrow> json list \<Rightarrow> bool" where
  "row_of E decode x source answer row \<longleftrightarrow>
     project_row E decode x source (fst answer) (trail_witness E decode x source (snd answer)) = Inr row"

definition answer_of :: "Executor \<Rightarrow> string \<times> Witness \<Rightarrow> NodeRecord \<times> EdgeRecord list" where
  "answer_of x entry = (the (bm_get (ex_nodes x) (fst entry)), map (\<lambda>i. the (bm_get (ex_edges x) i)) (wit_edge_ids (snd entry)))"

text \<open>What an entry of the layer stands for.\<close>

lemma answer_of_entry:
  assumes x: "indexed x S" and few: "length (ex_some_predicates x) \<le> 64"
    and m: "least_by m (accepted E decode x S source resolved d) end_node" and entry: "(t, w) \<in> set m"
  shows "\<exists>target es. answer_of x (t, w) = (target, es) \<and> node_id target = t \<and> w = trail_witness E decode x source es \<and>
    length es = d \<and> asks_from E decode x S source target es \<and> t \<notin> resolved \<and>
    (\<forall>es'. length es' = d \<and> asks_from E decode x S source target es' \<longrightarrow> map edge_id es \<le> map edge_id es')"
proof -
  have inv: "bm_invar m" using m by (simp add: least_by_def)
  have "bm_get m t = Some w" using entry by (simp add: bm.in_entries_iff [OF inv])
  moreover have "case bm_get m t of None \<Rightarrow> \<forall>w\<in>accepted E decode x S source resolved d. end_node w \<noteq> t
      | Some v \<Rightarrow> v \<in> accepted E decode x S source resolved d \<and> end_node v = t \<and>
          (\<forall>w\<in>accepted E decode x S source resolved d. end_node w = t \<longrightarrow> wit_key v \<le> wit_key w)"
    using m by (simp add: least_by_def)
  ultimately have w: "w \<in> accepted E decode x S source resolved d" "end_node w = t"
    and least: "\<And>v. v \<in> accepted E decode x S source resolved d \<Longrightarrow> end_node v = t \<Longrightarrow> wit_key w \<le> wit_key v" by simp_all
  obtain target es where es: "w = trail_witness E decode x source es" "length es = d"
      "asks_from E decode x S source target es" "node_id target \<notin> resolved"
    using w(1) accepted_iff [OF x few] by blast
  have trail: "ex_trail x S source es (node_id target)" and target: "target \<in> set (snap_nodes S)"
    using es(3) by (simp_all add: asks_from_def)
  have t: "node_id target = t" using w(2) trail_witness_last [OF trail, of E decode] by (simp add: es(1))
  have "map (\<lambda>i. the (bm_get (ex_edges x) i)) (map edge_id es) = es"
    using trail_edge_lookup [OF x trail] by (simp add: map_idI)
  moreover have "bm_get (ex_nodes x) t = Some target" using t target by (simp add: identifies_get [OF indexed_parts(1) [OF x]])
  ultimately have "answer_of x (t, w) = (target, es)" by (simp add: answer_of_def es(1))
  moreover have "map edge_id es \<le> map edge_id es'" if es': "length es' = d" "asks_from E decode x S source target es'" for es'
  proof -
    have trail': "ex_trail x S source es' (node_id target)" using es'(2) by (simp add: asks_from_def)
    have "trail_witness E decode x source es' \<in> accepted E decode x S source resolved d"
      using es' es(4) accepted_iff [OF x few] by blast
    from least [OF this] trail_witness_last [OF trail', of E decode] t show ?thesis
      by (auto simp: wit_key_def es(1))
  qed
  ultimately show ?thesis using es t by blast
qed

lemma answers_of_layer:
  assumes x: "indexed x S" and few: "length (ex_some_predicates x) \<le> 64"
    and m: "least_by m (accepted E decode x S source resolved d) end_node"
  shows "set (map (answer_of x) m) = {(target, es). length es = d \<and> asks_from E decode x S source target es \<and> node_id target \<notin> resolved \<and>
      (\<forall>es'. length es' = d \<and> asks_from E decode x S source target es' \<longrightarrow> map edge_id es \<le> map edge_id es')}"
    (is "_ = ?A")
    and "fst ` set m = {node_id target |target. (\<exists>es. length es = d \<and> asks_from E decode x S source target es) \<and> node_id target \<notin> resolved}"
      (is "_ = ?T")
    and "map (node_id \<circ> fst \<circ> answer_of x) m = map fst m"
proof -
  have inv: "bm_invar m" using m by (simp add: least_by_def)
  have found: "\<exists>v. (node_id target, v) \<in> set m" if "length es = d" "asks_from E decode x S source target es" "node_id target \<notin> resolved"
    for target es
  proof -
    have trail: "ex_trail x S source es (node_id target)" using that(2) by (simp add: asks_from_def)
    have "trail_witness E decode x source es \<in> accepted E decode x S source resolved d"
      using that accepted_iff [OF x few] by blast
    moreover have "case bm_get m (node_id target) of None \<Rightarrow> \<forall>w\<in>accepted E decode x S source resolved d. end_node w \<noteq> node_id target
        | Some v \<Rightarrow> v \<in> accepted E decode x S source resolved d \<and> end_node v = node_id target \<and>
          (\<forall>w\<in>accepted E decode x S source resolved d. end_node w = node_id target \<longrightarrow> wit_key v \<le> wit_key w)"
      using m by (simp add: least_by_def)
    ultimately have "bm_get m (node_id target) \<noteq> None"
      using trail_witness_last [OF trail, of E decode] by (cases "bm_get m (node_id target)") auto
    then show ?thesis by (auto simp: bm.in_entries_iff [OF inv])
  qed
  show "set (map (answer_of x) m) = ?A"
  proof (intro subset_antisym subsetI)
    fix a assume "a \<in> set (map (answer_of x) m)"
    then obtain t w where "(t, w) \<in> set m" "a = answer_of x (t, w)" by auto
    with answer_of_entry [OF x few m] show "a \<in> ?A" by fastforce
  next
    fix a assume a: "a \<in> ?A"
    then obtain target es where es: "a = (target, es)" "length es = d" "asks_from E decode x S source target es"
        "node_id target \<notin> resolved" and least: "\<forall>es'. length es' = d \<and> asks_from E decode x S source target es' \<longrightarrow> map edge_id es \<le> map edge_id es'"
      by blast
    from found [OF es(2-4)] obtain v where v: "(node_id target, v) \<in> set m" by blast
    from answer_of_entry [OF x few m v] obtain target' fs where fs: "answer_of x (node_id target, v) = (target', fs)"
        "node_id target' = node_id target" "length fs = d" "asks_from E decode x S source target' fs"
        "\<forall>es'. length es' = d \<and> asks_from E decode x S source target' es' \<longrightarrow> map edge_id fs \<le> map edge_id es'" by blast
    have "target' = target"
      using fs(2,4) es(3) identifies_inj [OF indexed_parts(1) [OF x]] by (auto simp: asks_from_def dest: inj_onD)
    with fs es least have ids: "map edge_id fs = map edge_id es" by (simp add: order_antisym)
    have sub: "set fs \<subseteq> eligible_edges (tm_relationship (ex_match x)) S" "set es \<subseteq> eligible_edges (tm_relationship (ex_match x)) S"
      using fs(4) es(3) trail_edges unfolding asks_from_def by blast+
    have "fs = es"
      using ids by (rule map_inj_on) (rule inj_on_subset [OF identifies_inj [OF indexed_parts(3) [OF x]] Un_least [OF sub]])
    with \<open>target' = target\<close> fs(1) es(1) v show "a \<in> set (map (answer_of x) m)" by force
  qed
  show "fst ` set m = ?T"
  proof (intro subset_antisym subsetI)
    fix t assume "t \<in> fst ` set m"
    then obtain w where "(t, w) \<in> set m" by auto
    with answer_of_entry [OF x few m] show "t \<in> ?T" by blast
  next
    fix t assume "t \<in> ?T"
    with found show "t \<in> fst ` set m" by force
  qed
  show "map (node_id \<circ> fst \<circ> answer_of x) m = map fst m"
  proof (rule map_cong [OF refl])
    fix e assume "e \<in> set m"
    with answer_of_entry [OF x few m, of "fst e" "snd e"] show "(node_id \<circ> fst \<circ> answer_of x) e = fst e" by auto
  qed
qed

section \<open>One source\<close>

lemma emit_matches_Inr:
  assumes "fold_m (emit_match E decode x source) entries (resolved, st) = Inr (resolved', st')"
  shows "\<exists>rows. list_all2 (\<lambda>(t, w) row. project_row E decode x source (the (bm_get (ex_nodes x) t)) w = Inr row) entries rows \<and>
    xs_staged st' = fold (stage_row E) rows (xs_staged st) \<and> set resolved' = set resolved \<union> fst ` set entries"
  using assms
proof (induction entries arbitrary: resolved st)
  case Nil
  then show ?case by simp
next
  case (Cons entry entries)
  obtain t w where entry: "entry = (t, w)" by (cases entry)
  obtain r1 st1 where one: "emit_match E decode x source entry (resolved, st) = Inr (r1, st1)"
    and more: "fold_m (emit_match E decode x source) entries (r1, st1) = Inr (resolved', st')"
    using Cons.prems by (auto simp: sum_bind_Inr_iff)
  obtain row where row: "project_row E decode x source (the (bm_get (ex_nodes x) t)) w = Inr row"
    and st1: "refresh_staged_metrics E x (st\<lparr>xs_staged := stage_row E row (xs_staged st)\<rparr>) = Inr st1" and r1: "r1 = bs_insert t resolved"
    using one by (auto simp: entry emit_match_def sum_bind_Inr_iff)
  note rest = more [unfolded r1]
  have staged: "xs_staged st1 = stage_row E row (xs_staged st)" using keep_staged(8) [OF st1] by simp
  from Cons.IH [OF rest] obtain rows where
    "list_all2 (\<lambda>(t, w) row. project_row E decode x source (the (bm_get (ex_nodes x) t)) w = Inr row) entries rows"
    "xs_staged st' = fold (stage_row E) rows (xs_staged st1)" "set resolved' = set (bs_insert t resolved) \<union> fst ` set entries"
    by blast
  then show ?case by (intro exI [of _ "row # rows"]) (simp add: entry row staged)
qed

lemma emit_layer_Inr:
  assumes x: "indexed x S" and few: "length (ex_some_predicates x) \<le> 64"
    and current: "least_by current (layer_witnesses E decode x S source d) state_key"
    and run: "emit_layer E decode x source current resolved st = Inr (resolved', st')"
  shows "\<exists>answers rows. list_all2 (row_of E decode x source) answers rows \<and>
    xs_staged st' = fold (stage_row E) rows (xs_staged st) \<and> strict_sorted (map (node_id \<circ> fst) answers) \<and>
    set answers = {(target, es). length es = d \<and> asks_from E decode x S source target es \<and> node_id target \<notin> set resolved \<and>
      (\<forall>es'. length es' = d \<and> asks_from E decode x S source target es' \<longrightarrow> map edge_id es \<le> map edge_id es')} \<and>
    set resolved' = set resolved \<union> {node_id target |target. \<exists>es. length es = d \<and> asks_from E decode x S source target es}"
proof -
  define m where "m = fold (match_witness E decode x source resolved) (bm_values current) []"
  have m: "least_by m (accepted E decode x S source (set resolved) d) end_node"
    unfolding m_def by (rule match_layer [OF x few current])
  then have inv: "bm_invar m" by (simp add: least_by_def)
  obtain rows where rows: "list_all2 (\<lambda>(t, w) row. project_row E decode x source (the (bm_get (ex_nodes x) t)) w = Inr row) m rows"
    and staged: "xs_staged st' = fold (stage_row E) rows (xs_staged st)" and resolved: "set resolved' = set resolved \<union> fst ` set m"
    using emit_matches_Inr run unfolding emit_layer_def m_def by blast
  have entry: "row_of E decode x source (answer_of x e) row"
    if "e \<in> set m" "project_row E decode x source (the (bm_get (ex_nodes x) (fst e))) (snd e) = Inr row" for e row
    using answer_of_entry [OF x few m, of "fst e" "snd e"] that by (auto simp: row_of_def answer_of_def)
  have "list_all2 (row_of E decode x source) (map (answer_of x) m) rows"
    unfolding list_all2_map1
    by (rule list.rel_mono_strong [OF rows]) (use entry in \<open>auto split: prod.splits\<close>)
  moreover have "strict_sorted (map (node_id \<circ> fst) (map (answer_of x) m))"
    using inv unfolding map_map answers_of_layer(3) [OF x few m] bm_invar_def .
  moreover have "set resolved' = set resolved \<union> {node_id target |target. \<exists>es. length es = d \<and> asks_from E decode x S source target es}"
    unfolding resolved answers_of_layer(2) [OF x few m] by blast
  ultimately show ?thesis using staged answers_of_layer(1) [OF x few m] by blast
qed

text \<open>A trail has the trails it passes through.\<close>

lemma trail_prefix: "trail rel S s es n \<Longrightarrow> k \<le> length es \<Longrightarrow> \<exists>fs m. trail rel S s fs m \<and> length fs = k"
proof (induction rule: trail.induct)
  case trail_empty
  then show ?case using trail.trail_empty by fastforce
next
  case (trail_step es n edge)
  show ?case
  proof (cases "k = length (es @ [edge])")
    case True
    then show ?thesis using trail.trail_step [OF trail_step(1-5)] by blast
  next
    case False
    then show ?thesis using trail_step by simp
  qed
qed

lemma least_by_Nil: "least_by [] W key \<Longrightarrow> W = {}"
  by (auto simp: least_by_def)

text \<open>The answers from a source, given what the executor looks for.\<close>

definition asked :: "externals \<Rightarrow> decoder \<Rightarrow> Executor \<Rightarrow> GraphSnapshot \<Rightarrow> NodeRecord \<Rightarrow> NodeRecord \<Rightarrow> EdgeRecord list \<Rightarrow> bool" where
  "asked E decode x S source target es \<longleftrightarrow> asks_from E decode x S source target es \<and>
     rel_min_depth (tm_relationship (ex_match x)) \<le> length es \<and> length es \<le> rel_max_depth (tm_relationship (ex_match x))"

definition answered :: "externals \<Rightarrow> decoder \<Rightarrow> Executor \<Rightarrow> GraphSnapshot \<Rightarrow> NodeRecord \<Rightarrow> NodeRecord \<Rightarrow> EdgeRecord list \<Rightarrow> bool" where
  "answered E decode x S source target es \<longleftrightarrow> asked E decode x S source target es \<and>
     (\<forall>es'. asked E decode x S source target es' \<longrightarrow> (length es, map edge_id es) \<le> (length es', map edge_id es'))"

definition answer_rank :: "NodeRecord \<times> EdgeRecord list \<Rightarrow> nat \<times> string" where
  "answer_rank answer = (length (snd answer), node_id (fst answer))"

definition answers_from ::
  "externals \<Rightarrow> decoder \<Rightarrow> Executor \<Rightarrow> GraphSnapshot \<Rightarrow> NodeRecord \<Rightarrow> nat \<Rightarrow> (NodeRecord \<times> EdgeRecord list) list \<Rightarrow> bool" where
  "answers_from E decode x S source d answers \<longleftrightarrow> strict_sorted (map answer_rank answers) \<and>
     set answers = {(target, es). answered E decode x S source target es \<and> d \<le> length es}"

definition found_before :: "externals \<Rightarrow> decoder \<Rightarrow> Executor \<Rightarrow> GraphSnapshot \<Rightarrow> NodeRecord \<Rightarrow> nat \<Rightarrow> string set" where
  "found_before E decode x S source d = {node_id target |target. \<exists>es. asked E decode x S source target es \<and> length es < d}"

lemma answered_at:
  assumes x: "indexed x S" and d: "rel_min_depth (tm_relationship (ex_match x)) \<le> d" "d \<le> rel_max_depth (tm_relationship (ex_match x))"
    and l: "length es = d"
  shows "answered E decode x S source target es \<longleftrightarrow> asks_from E decode x S source target es \<and>
    node_id target \<notin> found_before E decode x S source d \<and>
    (\<forall>es'. length es' = d \<and> asks_from E decode x S source target es' \<longrightarrow> map edge_id es \<le> map edge_id es')"
proof -
  have node: "target' = target" if "asked E decode x S source target' es'" "node_id target' = node_id target" "target \<in> set (snap_nodes S)" for target' es'
    using that identifies_inj [OF indexed_parts(1) [OF x]] by (auto simp: asked_def asks_from_def dest: inj_onD)
  have later: "(\<forall>es'. asked E decode x S source target es' \<longrightarrow> (length es, map edge_id es) \<le> (length es', map edge_id es')) \<longleftrightarrow>
      node_id target \<notin> found_before E decode x S source d \<and>
      (\<forall>es'. length es' = d \<and> asks_from E decode x S source target es' \<longrightarrow> map edge_id es \<le> map edge_id es')"
    if t: "target \<in> set (snap_nodes S)"
  proof (intro iffI conjI allI impI)
    assume least: "\<forall>es'. asked E decode x S source target es' \<longrightarrow> (length es, map edge_id es) \<le> (length es', map edge_id es')"
    show "node_id target \<notin> found_before E decode x S source d"
    proof
      assume "node_id target \<in> found_before E decode x S source d"
      then obtain target' es' where e: "asked E decode x S source target' es'" "node_id target' = node_id target" "length es' < d"
        by (auto simp: found_before_def)
      have "asked E decode x S source target es'" using node [OF e(1,2) t] e(1) by simp
      with least have "(length es, map edge_id es) \<le> (length es', map edge_id es')" by blast
      with e(3) l show False by simp
    qed
    fix es' assume "length es' = d \<and> asks_from E decode x S source target es'"
    then have "asked E decode x S source target es'" "length es' = length es" using d l by (simp_all add: asked_def)
    with least have "(length es, map edge_id es) \<le> (length es, map edge_id es')" by metis
    then show "map edge_id es \<le> map edge_id es'" by simp
  next
    fix es'
    assume h: "node_id target \<notin> found_before E decode x S source d \<and>
      (\<forall>es'. length es' = d \<and> asks_from E decode x S source target es' \<longrightarrow> map edge_id es \<le> map edge_id es')"
      and a: "asked E decode x S source target es'"
    from h a have "\<not> length es' < d" by (auto simp: found_before_def)
    then consider "d < length es'" | "length es' = d" by linarith
    then show "(length es, map edge_id es) \<le> (length es', map edge_id es')"
    proof cases
      case 1
      then show ?thesis using l by simp
    next
      case 2
      moreover have "asks_from E decode x S source target es'" using a by (simp add: asked_def)
      ultimately show ?thesis using h l by simp
    qed
  qed
  show ?thesis
  proof (cases "asks_from E decode x S source target es")
    case True
    then have "target \<in> set (snap_nodes S)" by (simp add: asks_from_def)
    moreover have "asked E decode x S source target es" using True d l by (simp add: asked_def)
    ultimately show ?thesis unfolding answered_def using later True by simp
  next
    case False
    then show ?thesis by (simp add: answered_def asked_def)
  qed
qed

lemma found_before_Suc:
  assumes "rel_min_depth (tm_relationship (ex_match x)) \<le> d" and "d \<le> rel_max_depth (tm_relationship (ex_match x))"
  shows "found_before E decode x S source (Suc d) = found_before E decode x S source d \<union>
    {node_id target |target. \<exists>es. length es = d \<and> asks_from E decode x S source target es}"
proof -
  have "asked E decode x S source target es \<and> length es < Suc d \<longleftrightarrow>
      asked E decode x S source target es \<and> length es < d \<or> length es = d \<and> asks_from E decode x S source target es" for target es
    using assms by (auto simp: asked_def less_Suc_eq)
  then show ?thesis unfolding found_before_def by blast
qed

lemma emission_Inr:
  assumes x: "indexed x S" and few: "length (ex_some_predicates x) \<le> 64"
    and current: "least_by current (layer_witnesses E decode x S source d) state_key"
    and resolved: "set resolved = found_before E decode x S source d"
    and max: "d \<le> rel_max_depth (tm_relationship (ex_match x))"
    and run: "(if d \<ge> rel_min_depth (tm_relationship (ex_match x)) then emit_layer E decode x source current resolved st
      else Inr (resolved, st)) = Inr (resolved', st')"
  shows "\<exists>answers rows. list_all2 (row_of E decode x source) answers rows \<and> xs_staged st' = fold (stage_row E) rows (xs_staged st) \<and>
    strict_sorted (map answer_rank answers) \<and>
    set answers = {(target, es). answered E decode x S source target es \<and> length es = d} \<and>
    set resolved' = found_before E decode x S source (Suc d)"
proof (cases "rel_min_depth (tm_relationship (ex_match x)) \<le> d")
  case True
  with run have "emit_layer E decode x source current resolved st = Inr (resolved', st')" by simp
  from emit_layer_Inr [OF x few current this] obtain answers rows
    where rows: "list_all2 (row_of E decode x source) answers rows" "xs_staged st' = fold (stage_row E) rows (xs_staged st)"
      and sorted: "strict_sorted (map (node_id \<circ> fst) answers)"
      and set: "set answers = {(target, es). length es = d \<and> asks_from E decode x S source target es \<and> node_id target \<notin> set resolved \<and>
        (\<forall>es'. length es' = d \<and> asks_from E decode x S source target es' \<longrightarrow> map edge_id es \<le> map edge_id es')}"
      and resolved': "set resolved' = set resolved \<union> {node_id target |target. \<exists>es. length es = d \<and> asks_from E decode x S source target es}"
    by blast
  have "set answers = {(target, es). answered E decode x S source target es \<and> length es = d}"
  proof -
    have "(length es = d \<and> asks_from E decode x S source target es \<and> node_id target \<notin> found_before E decode x S source d \<and>
        (\<forall>es'. length es' = d \<and> asks_from E decode x S source target es' \<longrightarrow> map edge_id es \<le> map edge_id es')) \<longleftrightarrow>
        answered E decode x S source target es \<and> length es = d" for target es
      using answered_at [OF x True max, of es E decode source target] by blast
    then show ?thesis unfolding set resolved by (simp only:)
  qed
  moreover have "strict_sorted (map answer_rank answers)"
  proof -
    have "length (snd a) = d" if "a \<in> set answers" for a using that unfolding set by auto
    then have "map answer_rank answers = map (\<lambda>i. (d, i)) (map (node_id \<circ> fst) answers)"
      by (simp add: answer_rank_def)
    also have "strict_sorted \<dots>"
      using sorted unfolding sorted_wrt_map by simp
    finally show ?thesis .
  qed
  moreover have "set resolved' = found_before E decode x S source (Suc d)"
    unfolding resolved' resolved found_before_Suc [OF True max] ..
  ultimately show ?thesis using rows by (intro exI [of _ answers] exI [of _ rows]) simp
next
  case False
  then have "{(target, es). answered E decode x S source target es \<and> length es = d} = {}" by (auto simp: answered_def asked_def)
  moreover have "found_before E decode x S source (Suc d) = found_before E decode x S source d"
    using False by (auto simp: found_before_def asked_def)
  moreover have "resolved' = resolved" "st' = st" using run False by simp_all
  ultimately show ?thesis using resolved by (intro exI [of _ "[]"]) simp
qed

lemma no_answers:
  assumes "\<And>target es. asks_from E decode x S source target es \<Longrightarrow> d \<le> length es \<Longrightarrow>
    length es \<le> rel_max_depth (tm_relationship (ex_match x)) \<Longrightarrow> False"
  shows "answers_from E decode x S source d []"
  using assms by (auto simp: answers_from_def answered_def asked_def)

lemma run_depths_Inr:
  assumes x: "indexed x S" and few: "length (ex_some_predicates x) \<le> 64"
  shows "\<lbrakk>run_depths E decode R x source d current resolved st = Inr st';
     least_by current (layer_witnesses E decode x S source d) state_key;
     set resolved = found_before E decode x S source d; d \<le> rel_max_depth (tm_relationship (ex_match x))\<rbrakk> \<Longrightarrow>
   \<exists>answers rows. answers_from E decode x S source d answers \<and> list_all2 (row_of E decode x source) answers rows \<and>
     xs_staged st' = fold (stage_row E) rows (xs_staged st)"
proof (induction "rel_max_depth (tm_relationship (ex_match x)) - d" arbitrary: d current resolved st rule: less_induct)
  case (less d)
  let ?max = "rel_max_depth (tm_relationship (ex_match x))"
  obtain s0 resolved1 s1 where s0: "guard R x st = Inr s0"
    and emit: "(if d \<ge> rel_min_depth (tm_relationship (ex_match x)) then emit_layer E decode x source current resolved s0
      else Inr (resolved, s0)) = Inr (resolved1, s1)"
    and rest: "(if d \<ge> ?max then Inr s1
       else sum_bind (fold_m (expand_witness E decode R x) (bm_values current) ([], s1)) (\<lambda>(nxt, st).
         if nxt = [] then Inr st else run_depths E decode R x source (d + 1) nxt resolved1 st)) = Inr st'"
    using less.prems(1) unfolding run_depths.simps [of E decode R x source d]
    by (elim sum_bind_Inr_iff [THEN iffD1, elim_format] exE conjE) (simp split: prod.splits)
  from emission_Inr [OF x few less.prems(2-4) emit] obtain A rowsA
    where A: "list_all2 (row_of E decode x source) A rowsA" "xs_staged s1 = fold (stage_row E) rowsA (xs_staged s0)"
      "strict_sorted (map answer_rank A)" "set A = {(target, es). answered E decode x S source target es \<and> length es = d}"
      "set resolved1 = found_before E decode x S source (Suc d)" by blast
  have "\<exists>B rowsB. answers_from E decode x S source (Suc d) B \<and> list_all2 (row_of E decode x source) B rowsB \<and>
     xs_staged st' = fold (stage_row E) rowsB (xs_staged s1)"
  proof (cases "d \<ge> ?max")
    case True
    then have "answers_from E decode x S source (Suc d) []" by (intro no_answers) simp
    moreover have "st' = s1" using rest True by simp
    ultimately show ?thesis by (intro exI [of _ "[]"]) simp
  next
    case False
    then obtain nxt s2 where expand: "fold_m (expand_witness E decode R x) (bm_values current) ([], s1) = Inr (nxt, s2)"
      and last: "(if nxt = [] then Inr s2 else run_depths E decode R x source (d + 1) nxt resolved1 s2) = Inr st'"
      using rest by (auto simp: sum_bind_Inr_iff)
    from expand_layer [OF x few less.prems(2) expand] have s2: "xs_staged s2 = xs_staged s1"
      and nxt: "least_by nxt (layer_witnesses E decode x S source (Suc d)) state_key" by blast+
    show ?thesis
    proof (cases "nxt = []")
      case True
      with nxt have none: "layer_witnesses E decode x S source (Suc d) = {}" using least_by_Nil by blast
      have "answers_from E decode x S source (Suc d) []"
      proof (rule no_answers)
        fix target es assume "asks_from E decode x S source target es" "Suc d \<le> length es"
        then have "ex_trail x S source es (node_id target)" by (simp add: asks_from_def)
        from trail_prefix [OF this \<open>Suc d \<le> length es\<close>] none show False by (auto simp: layer_witnesses_def)
      qed
      moreover have "st' = s2" using last True by simp
      ultimately show ?thesis using s2 by (intro exI [of _ "[]"]) simp
    next
      case nonempty: False
      then have "run_depths E decode R x source (Suc d) nxt resolved1 s2 = Inr st'" using last by simp
      from less.hyps [OF _ this nxt A(5)] False s2 show ?thesis by simp
    qed
  qed
  then obtain B rowsB where B: "answers_from E decode x S source (Suc d) B" "list_all2 (row_of E decode x source) B rowsB"
     "xs_staged st' = fold (stage_row E) rowsB (xs_staged s1)" by blast
  have "answers_from E decode x S source d (A @ B)"
  proof -
    have "set (A @ B) = {(target, es). answered E decode x S source target es \<and> d \<le> length es}"
      using A(4) B(1) by (auto simp: answers_from_def)
    moreover have "strict_sorted (map answer_rank (A @ B))"
    proof -
      have "answer_rank a < answer_rank b" if "a \<in> set A" "b \<in> set B" for a b
        using that A(4) B(1) by (auto simp: answers_from_def answer_rank_def)
      with A(3) B(1) show ?thesis by (simp add: answers_from_def sorted_wrt_append)
    qed
    ultimately show ?thesis by (simp add: answers_from_def)
  qed
  moreover have "list_all2 (row_of E decode x source) (A @ B) (rowsA @ rowsB)"
    using A(1) B(2) by (rule list_all2_appendI)
  moreover have "xs_staged st' = fold (stage_row E) (rowsA @ rowsB) (xs_staged st)"
    using A(2) B(3) keep_staged(1) [OF s0] by simp
  ultimately show ?case by blast
qed

lemma run_source_Inr:
  assumes x: "indexed x S" and few: "length (ex_some_predicates x) \<le> 64" and run: "run_source E decode R x source st = Inr st'"
  shows "\<exists>answers rows. answers_from E decode x S source 0 answers \<and> list_all2 (row_of E decode x source) answers rows \<and>
     xs_staged st' = fold (stage_row E) rows (xs_staged st)"
proof -
  obtain s0 where s0: "increment_state x st = Inr s0"
    and depths: "run_depths E decode R x source 0 [(state_key (initial_witness source), initial_witness source)] [] s0 = Inr st'"
    using run by (auto simp: run_source_def sum_bind_Inr_iff Let_def)
  have zero: "ex_trail x S source es n \<and> length es = 0 \<longleftrightarrow> es = [] \<and> n = node_id source" for es n by auto
  have layer: "layer_witnesses E decode x S source 0 = {initial_witness source}"
    unfolding layer_witnesses_def zero by auto
  have "least_by (insert_least (state_key (initial_witness source)) (initial_witness source) []) {initial_witness source} state_key"
    by (rule least_by_insert [OF least_by_empty])
  then have "least_by [(state_key (initial_witness source), initial_witness source)] (layer_witnesses E decode x S source 0) state_key"
    unfolding layer by (simp add: insert_least_def)
  moreover have "set [] = found_before E decode x S source 0" by (simp add: found_before_def)
  ultimately show ?thesis using run_depths_Inr [OF x few depths] keep_staged(6) [OF s0] by simp
qed

section \<open>The sources\<close>

lemma source_expression_matches:
  assumes "expression_references_only_source e (source_name (ex_query x))"
    and "pf_source pf = source"
  shows "expression_matches E decode x source source (initial_witness source) e \<longleftrightarrow>
    holds E decode (source_name (ex_query x)) (target_name (ex_query x)) pf e"
proof -
  let ?c = "\<lparr>ec_query = ex_query x, ec_source = source, ec_target = source, ec_witness = initial_witness source, ec_edges = ex_edges x\<rparr>"
  let ?pf = "\<lparr>pf_source = source, pf_target = source, pf_direction = ex_direction x, pf_edges = [], pf_sites = {}, pf_evidence = {}\<rparr>"
  have "shows_path ?c ?pf" by (simp add: shows_path_def initial_witness_def)
  moreover have "bits_record E decode ?pf (wit_existential_bits (ec_witness ?c)) 0 (collect_some_predicates e)"
    by (simp add: only_source_no_bits [OF assms(1)] bits_record_def)
  ultimately have "expression_matches E decode x source source (initial_witness source) e \<longleftrightarrow>
      holds E decode (source_name (ex_query x)) (target_name (ex_query x)) ?pf e"
    using evaluate_expression_holds(1) [of ?c ?pf E decode 0 e] by (simp add: expression_matches_def)
  also have "\<dots> \<longleftrightarrow> holds E decode (source_name (ex_query x)) (target_name (ex_query x)) pf e"
    by (rule holds_only_source) (simp_all add: assms)
  finally show ?thesis .
qed

lemma prefilter_sound:
  assumes "satisfies E decode (ex_query x) S source target es"
  shows "source_predicates_match E decode x source"
proof (cases "ta_where_clause (tq_ast (ex_query x))")
  case None
  then show ?thesis by (simp add: source_predicates_match_def)
next
  case (Some e)
  let ?pf = "ex_facts x S source target es"
  have h: "holds E decode (source_name (ex_query x)) (target_name (ex_query x)) ?pf e"
    using assms by (simp add: satisfies_def Some)
  have part: "expression_matches E decode x source source (initial_witness source) t"
    if "holds E decode (source_name (ex_query x)) (target_name (ex_query x)) ?pf t"
      "expression_references_only_source t (source_name (ex_query x))" for t
    using source_expression_matches [OF that(2), of ?pf source E decode] that(1) by (simp add: trail_facts_def)
  have "\<forall>t\<in>set ts. expression_references_only_source t (source_name (ex_query x)) \<longrightarrow>
      expression_matches E decode x source source (initial_witness source) t" if "e = TExpr_And ts" for ts
    using h part that by simp
  with part [OF h] show ?thesis
    by (auto simp: source_predicates_match_def Some Let_def list_all_iff split: TypedExpression.split)
qed

lemma lookup_sound:
  assumes "source_id_lookup q = Some v" and "satisfies E decode q S source target es"
  shows "node_id source = v"
proof -
  obtain e where e: "ta_where_clause (tq_ast q) = Some e" "find_source_id (source_name q) e = Some v"
    using assms(1) by (auto simp: source_id_lookup_def source_name_def bind_eq_Some_conv)
  have "holds E decode (source_name q) (target_name q) (trail_facts (tm_relationship (ta_match_clause (tq_ast q))) S source target es) e"
    using assms(2) by (simp add: satisfies_def e)
  from find_source_id_sound(1) [OF e(2) this] show ?thesis by (simp add: trail_facts_def)
qed

lemma scan_sources_Inr:
  assumes "fold_m (\<lambda>node (sources, st).
      if \<not> kind_allows kind node then Inr (sources, st)
      else sum_bind (increment_source_tests x st) (\<lambda>st.
        Inr (if source_predicates_match E decode x node then sources @ [node] else sources, st))) nodes (sources, st) = Inr (sources', st')"
  shows "sources' = sources @ filter (\<lambda>node. kind_allows kind node \<and> source_predicates_match E decode x node) nodes \<and>
    xs_staged st' = xs_staged st"
  using assms
proof (induction nodes arbitrary: sources st)
  case (Cons node nodes)
  show ?case
  proof (cases "kind_allows kind node")
    case False
    then show ?thesis using Cons.IH [of sources st] Cons.prems by simp
  next
    case True
    then obtain s1 where "increment_source_tests x st = Inr s1"
      using Cons.prems by (auto simp: sum_bind_Inr_iff)
    with True show ?thesis
      using Cons.IH [of "if source_predicates_match E decode x node then sources @ [node] else sources" s1] Cons.prems
        keep_staged(3) [of x st s1] by (simp split: if_splits)
  qed
qed simp

lemma identifies_values:
  assumes "identifies m identity X"
  shows "set (bm_values m) = X" and "distinct (map identity (bm_values m))"
proof -
  have inv: "bm_invar m" using assms by (simp add: identifies_def)
  show "set (bm_values m) = X" using identifies_get [OF assms] by (auto simp: set_bm_values [OF inv])
  have "identity (snd e) = fst e" if "e \<in> set m" for e
    using that bm.in_entries_iff [OF inv, of "fst e" "snd e"] identifies_get [OF assms, of "fst e" "snd e"] by simp
  then have "map identity (bm_values m) = map fst m" by (simp add: bm_values_def)
  then show "distinct (map identity (bm_values m))" using bm_invar_distinct [OF inv] by simp
qed

lemma source_nodes_Inr:
  assumes x: "indexed x S" and run: "source_nodes E decode x st = Inr (sources, st')"
    and none: "ci_source_nodes (plan_cardinality_inputs (ex_plan x)) = 0 \<Longrightarrow>
      \<forall>node\<in>set (snap_nodes S). \<not> kind_allows (tn_kind (tm_source (ex_match x))) node"
  shows "xs_staged st' = xs_staged st \<and> strict_sorted (map node_id sources) \<and>
    set sources \<subseteq> {node \<in> set (snap_nodes S). kind_allows (tn_kind (tm_source (ex_match x))) node} \<and>
    (\<forall>node\<in>set (snap_nodes S). \<forall>target es. kind_allows (tn_kind (tm_source (ex_match x))) node \<and>
       satisfies E decode (ex_query x) S node target es \<longrightarrow> node \<in> set sources)"
proof -
  note nodes = indexed_parts(1) [OF x]
  let ?kind = "tn_kind (tm_source (ex_match x))"
  consider (empty) "ci_source_nodes (plan_cardinality_inputs (ex_plan x)) = 0"
    | (lookup) v where "ci_source_nodes (plan_cardinality_inputs (ex_plan x)) \<noteq> 0" "source_id_lookup (ex_query x) = Some v"
    | (scan) "ci_source_nodes (plan_cardinality_inputs (ex_plan x)) \<noteq> 0" "source_id_lookup (ex_query x) = None"
    by (cases "source_id_lookup (ex_query x)") auto
  then show ?thesis
  proof cases
    case empty
    then have "sources = []" "st' = st" using run by (simp_all add: source_nodes_def Let_def)
    then show ?thesis using none [OF empty] by simp
  next
    case lookup
    have "sum_bind (increment_source_tests x st) (\<lambda>st. Inr (case bm_get (ex_nodes x) v of None \<Rightarrow> []
        | Some node \<Rightarrow> if kind_allows ?kind node \<and> source_predicates_match E decode x node then [node] else [], st)) = Inr (sources, st')"
      using run lookup by (simp only: source_nodes_def Let_def if_False option.case)
    then obtain s1 where s1: "increment_source_tests x st = Inr s1" "st' = s1" and sources: "sources = (case bm_get (ex_nodes x) v of None \<Rightarrow> []
        | Some node \<Rightarrow> if kind_allows ?kind node \<and> source_predicates_match E decode x node then [node] else [])"
      by (rule sum_bind_Inr_iff [THEN iffD1, elim_format]) auto
    have found: "node \<in> set sources" if "node \<in> set (snap_nodes S)" "kind_allows ?kind node"
        "satisfies E decode (ex_query x) S node target es" for node target es
    proof -
      have "bm_get (ex_nodes x) v = Some node"
        using lookup_sound [OF lookup(2) that(3)] that(1) by (simp add: identifies_get [OF nodes])
      then show ?thesis using that(2) prefilter_sound [OF that(3)] by (simp add: sources)
    qed
    have "strict_sorted (map node_id sources)" unfolding sources by (simp split: option.split)
    moreover have "node \<in> set (snap_nodes S) \<and> kind_allows ?kind node" if "node \<in> set sources" for node
    proof (cases "bm_get (ex_nodes x) v")
      case None
      then show ?thesis using that by (simp add: sources)
    next
      case (Some found)
      then have "node = found" "kind_allows ?kind node" using that by (simp_all add: sources split: if_splits)
      with Some show ?thesis by (simp add: identifies_get [OF nodes])
    qed
    then have "set sources \<subseteq> {node \<in> set (snap_nodes S). kind_allows ?kind node}" by blast
    moreover have "xs_staged st' = xs_staged st" using keep_staged(3) [OF s1(1)] s1(2) by simp
    moreover have "\<forall>node\<in>set (snap_nodes S). \<forall>target es. kind_allows ?kind node \<and> satisfies E decode (ex_query x) S node target es \<longrightarrow>
        node \<in> set sources" using found by blast
    ultimately show ?thesis by (intro conjI)
  next
    case scan
    have "sum_bind (fold_m (\<lambda>node (sources, st).
        if \<not> kind_allows ?kind node then Inr (sources, st)
        else sum_bind (increment_source_tests x st) (\<lambda>st.
          Inr (if source_predicates_match E decode x node then sources @ [node] else sources, st)))
        (bm_values (ex_nodes x)) ([], st)) (\<lambda>(sources, st). Inr (sort_key node_id sources, st)) = Inr (sources, st')"
      using run scan by (simp only: source_nodes_def Let_def if_False option.case)
    then obtain found where scanned: "fold_m (\<lambda>node (sources, st).
        if \<not> kind_allows ?kind node then Inr (sources, st)
        else sum_bind (increment_source_tests x st) (\<lambda>st.
          Inr (if source_predicates_match E decode x node then sources @ [node] else sources, st)))
        (bm_values (ex_nodes x)) ([], st) = Inr (found, st')" and sources: "sources = sort_key node_id found"
      by (rule sum_bind_Inr_iff [THEN iffD1, elim_format]) auto
    from scan_sources_Inr [OF scanned] have f: "found = filter (\<lambda>node. kind_allows ?kind node \<and> source_predicates_match E decode x node) (bm_values (ex_nodes x))"
      and staged: "xs_staged st' = xs_staged st" by simp_all
    have "distinct (map node_id found)"
      unfolding f using identifies_values(2) [OF nodes] by (rule distinct_map_filter)
    moreover have "mset (map node_id sources) = mset (map node_id found)" by (simp add: sources)
    ultimately have "distinct (map node_id sources)" using mset_eq_imp_distinct_iff by blast
    then have "strict_sorted (map node_id sources)" by (simp add: strict_sorted_iff sources)
    moreover have set: "set sources = {node \<in> set (snap_nodes S). kind_allows ?kind node \<and> source_predicates_match E decode x node}"
      using identifies_values(1) [OF nodes] by (auto simp: sources f)
    moreover have "node \<in> set sources" if "node \<in> set (snap_nodes S)" "kind_allows ?kind node"
        "satisfies E decode (ex_query x) S node target es" for node target es
      using that(1,2) prefilter_sound [OF that(3)] by (simp add: set)
    then have "\<forall>node\<in>set (snap_nodes S). \<forall>target es. kind_allows ?kind node \<and> satisfies E decode (ex_query x) S node target es \<longrightarrow>
        node \<in> set sources" by blast
    moreover have "set sources \<subseteq> {node \<in> set (snap_nodes S). kind_allows ?kind node}" unfolding set by blast
    ultimately show ?thesis using staged by (intro conjI)
  qed
qed

end
