(* ===== verification/Query_Answer.thy ===== *)
theory Query_Answer
  imports Query_Search
begin

text \<open>
  The result of a bounded query: what the executor returns for an admitted plan, stated on the snapshot. The indexes
  of the executor hold exactly the records of the snapshot; the rows are those of the query's answers, projected and
  staged in the order of the sources, path lengths and targets.
\<close>

section \<open>Construction\<close>

lemma identifies_insert:
  assumes m: "identifies m identity X" and new: "\<not> bm_contains_key m (identity r)"
  shows "identifies (bm_insert (identity r) r m) identity (insert r X)"
proof -
  have inv: "bm_invar m" using m by (simp add: identifies_def)
  have none: "bm_get m (identity r) = None" using new by (simp add: bm_contains_key_def)
  have "s \<notin> X" if "identity s = identity r" for s
    using none identifies_get [OF m, of "identity r" s] that by auto
  then show ?thesis
    using inv identifies_get [OF m] by (auto simp: identifies_def bm_get_insert [OF inv])
qed

lemma index_unique_Inr:
  assumes "index_unique R deadline message identity records n = Inr (m, n')"
  shows "identifies m identity (set records)"
proof -
  have "case (m, n') of (m, n) \<Rightarrow> identifies m identity (set records)"
    using assms unfolding index_unique_def
  proof (rule fold_m_induct)
    show "case ([], n) of (m, n) \<Rightarrow> identifies m identity (set [])" by (simp add: identifies_def)
  next
    fix "done" r rest u v
    assume u: "case u of (m, n) \<Rightarrow> identifies m identity (set done)"
      and step: "(case u of (m, n) \<Rightarrow> sum_bind (construction_guard R deadline n) (\<lambda>n.
        if bm_contains_key m (identity r) then Inl (snapshot_mismatch message) else Inr (bm_insert (identity r) r m, n))) = Inr v"
    obtain m n where "u = (m, n)" by (cases u)
    with u step identifies_insert [of m identity "set done" r] show "case v of (m, n) \<Rightarrow> identifies m identity (set (done @ [r]))"
      by (auto simp: sum_bind_Inr_iff split: if_splits)
  qed
  then show ?thesis by simp
qed

text \<open>Grouping by a key, as \<open>entry(..).or_default().push(..)\<close> does.\<close>

definition group_of :: "('k, 'a list) bmap \<Rightarrow> 'k \<Rightarrow> 'a list" where
  "group_of m k = (case bm_get m k of None \<Rightarrow> [] | Some xs \<Rightarrow> xs)"

lemma group_of_push:
  "bm_invar m \<Longrightarrow> group_of (bm_entry [] k (\<lambda>xs. xs @ [x]) m) k' = (if k' = k then group_of m k @ [x] else group_of m k')"
  by (simp add: group_of_def bm_get_entry split: option.split)

lemma group_of_map: "set (group_of (map (\<lambda>(k, xs). (k, sort_key f xs)) m) k) = set (group_of m k)"
  by (simp add: group_of_def bm_get_def map_of_map comp_def split: option.split)

lemma push_groups:
  assumes "bm_invar a" and "\<And>k. set (group_of a k) = {e \<in> X. f e = k}"
  shows "set (group_of (bm_entry [] (f r) (\<lambda>es. es @ [r]) a) k) = {e \<in> insert r X. f e = k}"
  using assms by (auto simp: group_of_push)

lemma index_evidence_Inr:
  assumes "index_evidence R deadline evidence n = Inr (m, n')"
  shows "set (group_of m (t, i)) = {v \<in> set evidence. owns t i v}"
proof -
  obtain m0 where groups: "fold_m (\<lambda>v (m, n). sum_bind (construction_guard R deadline n) (\<lambda>n.
       Inr (bm_entry [] (ev_owner_type v, ev_owner_id v) (\<lambda>vs. vs @ [v]) m, n))) evidence ([], n) = Inr (m0, n')"
    and m: "m = map (\<lambda>(owner, vs). (owner, sort_key path_evidence_order vs)) m0"
    using assms unfolding index_evidence_def by (rule sum_bind_Inr_iff [THEN iffD1, elim_format]) auto
  have "case (m0, n') of (m, n) \<Rightarrow> bm_invar m \<and> (\<forall>t i. group_of m (t, i) = filter (owns t i) evidence)"
    using groups
  proof (rule fold_m_induct)
    show "case ([], n) of (m, n) \<Rightarrow> bm_invar m \<and> (\<forall>t i. group_of m (t, i) = filter (owns t i) [])" by (simp add: group_of_def)
  next
    fix "done" v rest u w
    assume u: "case u of (m, n) \<Rightarrow> bm_invar m \<and> (\<forall>t i. group_of m (t, i) = filter (owns t i) done)"
      and step: "(case u of (m, n) \<Rightarrow> sum_bind (construction_guard R deadline n) (\<lambda>n.
       Inr (bm_entry [] (ev_owner_type v, ev_owner_id v) (\<lambda>vs. vs @ [v]) m, n))) = Inr w"
    obtain m n where "u = (m, n)" by (cases u)
    with u step show "case w of (m, n) \<Rightarrow> bm_invar m \<and> (\<forall>t i. group_of m (t, i) = filter (owns t i) (done @ [v]))"
      by (auto simp: sum_bind_Inr_iff group_of_push owns_def)
  qed
  then have "group_of m0 (t, i) = filter (owns t i) evidence" by simp
  then show ?thesis by (simp add: m group_of_map)
qed

lemma index_edges_Inr:
  assumes run: "index_edges R deadline (bs_of_list (rel_kinds rel)) direction edges n = Inr ((m, adjacency), n')"
    and S: "edges = snap_edges S"
  shows "identifies m edge_id (eligible_edges rel S)"
    and "set (group_of adjacency k) = {edge \<in> eligible_edges rel S. anchor_node direction edge = k}"
proof -
  let ?kinds = "bs_of_list (rel_kinds rel)"
  let ?eligible = "\<lambda>edges. {edge \<in> set edges. edge_kind edge \<in> set (rel_kinds rel)}"
  obtain a0 where scan: "fold_m (\<lambda>edge ((m, adjacency), n). sum_bind (construction_guard R deadline n) (\<lambda>n.
       if \<not> bs_contains ?kinds (edge_kind edge) then Inr ((m, adjacency), n)
       else if bm_contains_key m (edge_id edge)
       then Inl (snapshot_mismatch ''selected snapshot contains duplicate edge identifiers'')
       else Inr ((bm_insert (edge_id edge) edge m,
          bm_entry [] (anchor_node direction edge) (\<lambda>es. es @ [edge]) adjacency), n))) edges (([], []), n) = Inr ((m, a0), n')"
    and a: "adjacency = map (\<lambda>(node, es). (node, sort_key (\<lambda>edge. (edge_id edge, traversed_node_id edge direction)) es)) a0"
    using run unfolding index_edges_def by (rule sum_bind_Inr_iff [THEN iffD1, elim_format]) auto
  define ok where "ok = (\<lambda>es (u :: ((string, EdgeRecord) bmap \<times> (string, EdgeRecord list) bmap) \<times> nat).
    bm_invar (snd (fst u)) \<and> identifies (fst (fst u)) edge_id (?eligible es) \<and>
    (\<forall>k. set (group_of (snd (fst u)) k) = {e \<in> ?eligible es. anchor_node direction e = k}))"
  have "ok edges ((m, a0), n')"
    using scan
  proof (rule fold_m_induct [where P = ok])
    show "ok [] (([], []), n)" by (simp add: ok_def identifies_def group_of_def)
  next
    fix "done" edge rest u v
    assume u: "ok done u"
      and step: "(\<lambda>((m, adjacency), n). sum_bind (construction_guard R deadline n) (\<lambda>n.
         if \<not> bs_contains ?kinds (edge_kind edge) then Inr ((m, adjacency), n)
         else if bm_contains_key m (edge_id edge)
         then Inl (snapshot_mismatch ''selected snapshot contains duplicate edge identifiers'')
         else Inr ((bm_insert (edge_id edge) edge m,
            bm_entry [] (anchor_node direction edge) (\<lambda>es. es @ [edge]) adjacency), n))) u = Inr v"
    obtain m a n where u_def: "u = ((m, a), n)" by (cases u) (metis surj_pair)
    note u' = u [unfolded ok_def u_def fst_conv snd_conv]
    show "ok (done @ [edge]) v"
    proof (cases "edge_kind edge \<in> set (rel_kinds rel)")
      case True
      then have eq: "?eligible (done @ [edge]) = insert edge (?eligible done)" by auto
      from step True obtain n2 where new: "\<not> bm_contains_key m (edge_id edge)"
        and v: "v = ((bm_insert (edge_id edge) edge m, bm_entry [] (anchor_node direction edge) (\<lambda>es. es @ [edge]) a), n2)"
        by (auto simp: u_def sum_bind_Inr_iff bs_contains_def split: if_splits)
      show ?thesis
        unfolding eq v ok_def fst_conv snd_conv
        using identifies_insert [OF u' [THEN conjunct2, THEN conjunct1] new] push_groups [of a "?eligible done" "anchor_node direction"] u'
        by (intro conjI allI bm_entry_invar) blast+
    next
      case False
      then have eq: "?eligible (done @ [edge]) = ?eligible done" by auto
      have "fst v = (m, a)" using step False by (auto simp: u_def sum_bind_Inr_iff bs_contains_def)
      then show ?thesis using u' unfolding eq ok_def by simp
    qed
  qed
  then have "identifies m edge_id (eligible_edges rel S) \<and> set (group_of a0 k) = {edge \<in> eligible_edges rel S. anchor_node direction edge = k}"
    by (simp add: ok_def eligible_edges_def S)
  then show "identifies m edge_id (eligible_edges rel S)"
    and "set (group_of adjacency k) = {edge \<in> eligible_edges rel S. anchor_node direction edge = k}"
    by (simp_all add: a group_of_map)
qed

lemma new_executor_Inr:
  assumes "new_executor R q plan S limits n = Inr (x, st)"
  shows "indexed x S \<and> ex_query x = q \<and> ex_plan x = plan \<and> ex_limits x = limits \<and> xs_staged st = new_row_stager q"
proof -
  let ?rel = "tm_relationship (ta_match_clause (tq_ast q))"
  obtain nodes sites evidence edges adjacency n1 n2 n3 n4 n5 n6 n7 n8 d
    where "index_unique R d ''selected snapshot contains duplicate node identifiers'' node_id (snap_nodes S) n1 = Inr (nodes, n2)"
      and "index_unique R d ''selected snapshot contains duplicate site identifiers'' site_id (snap_sites S) n3 = Inr (sites, n4)"
      and "index_evidence R d (snap_evidence S) n5 = Inr (evidence, n6)"
      and "index_edges R d (bs_of_list (rel_kinds ?rel)) (rel_direction ?rel) (snap_edges S) n7 = Inr ((edges, adjacency), n8)"
      and x: "x = \<lparr>ex_query = q, ex_plan = plan, ex_limits = limits, ex_nodes = nodes, ex_edges = edges, ex_sites = sites,
              ex_evidence = evidence, ex_adjacency = adjacency,
              ex_some_predicates = (case ta_where_clause (tq_ast q) of None \<Rightarrow> [] | Some e \<Rightarrow> collect_some_predicates e)\<rparr>"
      and st: "xs_staged st = new_row_stager q"
    using assms unfolding new_executor_def by (auto simp: sum_bind_Inr_iff Let_def split: if_splits)
  note parts = this
  have "outgoing x k = group_of adjacency k" "evidence_of x t i = group_of evidence (t, i)" for k t i
    by (simp_all add: x outgoing_def evidence_of_def group_of_def)
  then have "indexed x S"
    using index_unique_Inr [OF parts(1)] index_unique_Inr [OF parts(2)] index_evidence_Inr [OF parts(3)]
      index_edges_Inr [OF parts(4) refl]
    unfolding indexed_def by (simp add: x)
  then show ?thesis by (simp add: x st)
qed

section \<open>The row of an answer\<close>

definition path_document ::
  "externals \<Rightarrow> decoder \<Rightarrow> TypedQuery \<Rightarrow> BoundedQueryPlan \<Rightarrow> GraphSnapshot \<Rightarrow> NodeRecord \<Rightarrow> NodeRecord \<Rightarrow> EdgeRecord list \<Rightarrow> json \<Rightarrow> bool" where
  "path_document E decode q plan S source target es path \<longleftrightarrow>
     (let direction = rel_direction (tm_relationship (ta_match_clause (tq_ast q))) in
      \<exists>nodes sites evidence.
        set nodes \<subseteq> set (snap_nodes S) \<and>
        map node_id nodes = node_id source # map (\<lambda>edge. traversed_node_id edge direction) es \<and>
        strict_sorted (map site_id sites) \<and> set sites = path_sites S es \<and>
        strict_sorted (map path_evidence_order evidence) \<and> set evidence \<subseteq> path_evidence S es \<and>
        path_evidence_order ` set evidence = path_evidence_order ` path_evidence S es \<and>
        path = Object
          [(''id'', String (stable_id_from_value E ''query-path'' (Object
             [(''contract_version'', String BOUNDED_QUERY_CONTRACT_VERSION), (''snapshot_id'', String (plan_snapshot_id plan)),
              (''direction'', String (direction_name direction)), (''source_id'', String (node_id source)),
              (''target_id'', String (node_id target)), (''edge_ids'', strings_value (map edge_id es))]))),
           (''depth'', number (length es)), (''direction'', String (direction_name direction)),
           (''nodes'', Array (map closed_node_value nodes)), (''edges'', Array (map (closed_edge_value E decode) es)),
           (''sites'', Array (map (closed_site_value E decode) sites)),
           (''evidence'', Array (map closed_evidence_value evidence))])"

definition answer_row ::
  "externals \<Rightarrow> decoder \<Rightarrow> TypedQuery \<Rightarrow> BoundedQueryPlan \<Rightarrow> GraphSnapshot \<Rightarrow> NodeRecord \<Rightarrow> NodeRecord \<Rightarrow> EdgeRecord list
     \<Rightarrow> json list \<Rightarrow> bool" where
  "answer_row E decode q plan S source target es row \<longleftrightarrow> (\<exists>path w. path_document E decode q plan S source target es path \<and>
     wit_edge_ids w = map edge_id es \<and>
     list_all2 (\<lambda>p v. project_value E decode q source target w path p = Inr v) (tr_projections (ta_return_clause (tq_ast q))) row)"

lemma trail_witness_node_ids:
  "wit_node_ids (trail_witness E decode x source es) = node_id source # map (\<lambda>edge. traversed_node_id edge (ex_direction x)) es"
  by (induction es rule: rev_induct) (simp_all add: initial_witness_def)

lemma lookups_Inr:
  assumes m: "identifies m identity X" and run: "collect_results (lookup_or e m f) ids = Inr vs"
  shows "\<exists>rs. set rs \<subseteq> X \<and> map identity rs = ids \<and> vs = map f rs"
proof -
  have "list_all2 (\<lambda>i v. lookup_or e m f i = Inr v) ids vs" using run by (simp add: collect_results_Inr)
  then show ?thesis
  proof (induction rule: list_all2_induct)
    case Nil
    then show ?case by simp
  next
    case (Cons i ids v vs)
    then obtain rs where rs: "set rs \<subseteq> X" "map identity rs = ids" "vs = map f rs" by blast
    from Cons(1) obtain r where "bm_get m i = Some r" "v = f r" by (auto simp: lookup_or_def split: option.splits)
    with rs show ?case by (intro exI [of _ "r # rs"]) (simp add: identifies_get [OF m])
  qed
qed

lemma lookup_present:
  "(\<And>r. r \<in> set rs \<Longrightarrow> bm_get m (identity r) = Some r) \<Longrightarrow> collect_results (lookup_or e m f) (map identity rs) = Inr (map f rs)"
  by (induction rs) (simp_all add: lookup_or_def)

lemma site_lookups:
  assumes m: "identifies m site_id (set (snap_sites S))" and ids: "strict_sorted ids" "set ids = site_id ` X" and X: "X \<subseteq> set (snap_sites S)"
  shows "\<exists>sites. strict_sorted (map site_id sites) \<and> set sites = X \<and>
    concat (map (\<lambda>i. case bm_get m i of None \<Rightarrow> [] | Some site \<Rightarrow> [f site]) ids) = map f sites"
proof -
  define sites where "sites = map (\<lambda>i. the (bm_get m i)) ids"
  have found: "bm_get m (site_id site) = Some site" if "site \<in> X" for site
    using that X by (auto simp: identifies_get [OF m])
  have ids_found: "\<exists>site\<in>X. bm_get m i = Some site \<and> site_id site = i" if "i \<in> set ids" for i
    using that ids(2) found by auto
  have "site_id (the (bm_get m i)) = i" if "i \<in> set ids" for i using ids_found [OF that] by auto
  then have "map site_id sites = ids" unfolding sites_def map_map by (intro map_idI) simp
  moreover have "set sites = X"
  proof -
    have "set sites = (\<lambda>i. the (bm_get m i)) ` site_id ` X" by (simp add: sites_def ids(2))
    also have "\<dots> = (\<lambda>site. site) ` X" unfolding image_image by (rule image_cong [OF refl]) (simp add: found)
    also have "\<dots> = X" by simp
    finally show ?thesis .
  qed
  moreover have "concat (map (\<lambda>i. case bm_get m i of None \<Rightarrow> [] | Some site \<Rightarrow> [f site]) js) = map f (map (\<lambda>i. the (bm_get m i)) js)"
    if "set js \<subseteq> set ids" for js
    using that
  proof (induction js)
    case (Cons i js)
    from Cons.prems ids_found [of i] obtain site where "bm_get m i = Some site" by auto
    with Cons show ?case by simp
  qed simp
  ultimately show ?thesis using ids(1) by (intro exI [of _ sites]) (simp add: sites_def)
qed

lemma strict_sorted_dedup_on: "strict_sorted (map f (dedup_on f (sort_key f xs)))"
  by (intro sorted_distinct_adj_strict sorted_dedup_on distinct_adj_dedup_on) simp

lemma path_value_Inr:
  assumes x: "indexed x S" and t: "ex_trail x S source es n"
    and run: "path_value E decode x source target (trail_witness E decode x source es) = Inr path"
  shows "path_document E decode (ex_query x) (ex_plan x) S source target es path"
proof -
  let ?w = "trail_witness E decode x source es"
  let ?evidence = "concat (map (evidence_of x ''edge'') (wit_edge_ids ?w)) @ concat (map (evidence_of x ''site'') (wit_site_ids ?w))"
  obtain nodes edges where n: "collect_results (lookup_or (snapshot_mismatch ''witness references a missing node'') (ex_nodes x) closed_node_value)
        (wit_node_ids ?w) = Inr nodes"
    and e: "collect_results (lookup_or (snapshot_mismatch ''witness references a missing edge'') (ex_edges x) (closed_edge_value E decode))
        (wit_edge_ids ?w) = Inr edges"
    and path: "path = Object [(''id'', String (path_id E x source target ?w)), (''depth'', number (length (wit_edge_ids ?w))),
       (''direction'', String (direction_name (ex_direction x))), (''nodes'', Array nodes), (''edges'', Array edges),
       (''sites'', Array (concat (map (\<lambda>i. case bm_get (ex_sites x) i of None \<Rightarrow> [] | Some site \<Rightarrow> [closed_site_value E decode site]) (wit_site_ids ?w)))),
       (''evidence'', Array (map closed_evidence_value (dedup_on path_evidence_order (sort_key path_evidence_order ?evidence))))]"
    using run unfolding path_value_def Let_def by (auto simp only: sum_bind_Inr_iff sum.inject)
  obtain ns where ns: "set ns \<subseteq> set (snap_nodes S)" "map node_id ns = wit_node_ids ?w" "nodes = map closed_node_value ns"
    using lookups_Inr [OF indexed_parts(1) [OF x] n] by blast
  have "collect_results (lookup_or er (ex_edges x) f) (map edge_id es) = Inr (map f es)" for er f
    by (rule lookup_present) (use trail_edge_lookup [OF x t] in blast)
  with e have edges: "edges = map (closed_edge_value E decode) es" by simp
  have sub: "path_sites S es \<subseteq> set (snap_sites S)" by (auto simp: path_sites_def)
  note site_ids = trail_witness_sites [OF x, of E decode source es]
  obtain sites where sites: "strict_sorted (map site_id sites)" "set sites = path_sites S es"
      "concat (map (\<lambda>i. case bm_get (ex_sites x) i of None \<Rightarrow> [] | Some site \<Rightarrow> [closed_site_value E decode site]) (wit_site_ids ?w)) =
        map (closed_site_value E decode) sites"
    using site_lookups [OF indexed_parts(2) [OF x] site_ids [THEN conjunct2] site_ids [THEN conjunct1] sub, of "closed_site_value E decode"] by blast
  have evidence: "set ?evidence = path_evidence S es"
    using trail_witness_sites [OF x, of E decode source es]
    by (auto simp: path_evidence_def indexed_parts(5) [OF x])
  let ?kept = "dedup_on path_evidence_order (sort_key path_evidence_order ?evidence)"
  have kept: "strict_sorted (map path_evidence_order ?kept)" "set ?kept \<subseteq> path_evidence S es"
      "path_evidence_order ` set ?kept = path_evidence_order ` path_evidence S es"
    using set_dedup_on_subset [of path_evidence_order "sort_key path_evidence_order ?evidence"]
    unfolding key_dedup_on set_sort evidence by (simp_all add: strict_sorted_dedup_on)
  show ?thesis
    unfolding path_document_def Let_def
    by (rule exI [of _ ns], rule exI [of _ sites], rule exI [of _ ?kept], intro conjI ns(1) sites(1,2) kept)
      (simp_all only: ns(2,3) path edges sites(3) path_id_def trail_witness_node_ids trail_witness_edges length_map)
qed

lemma project_row_Inr:
  assumes "indexed x S" and "ex_trail x S source es n"
    and "project_row E decode x source target (trail_witness E decode x source es) = Inr row"
  shows "answer_row E decode (ex_query x) (ex_plan x) S source target es row"
proof -
  let ?w = "trail_witness E decode x source es"
  obtain path where path: "path_value E decode x source target ?w = Inr path"
    and row: "list_all2 (\<lambda>p v. project_value E decode (ex_query x) source target ?w path p = Inr v)
      (tr_projections (ta_return_clause (tq_ast (ex_query x)))) row"
    using assms(3) by (auto simp: project_row_def sum_bind_Inr_iff collect_results_Inr)
  show ?thesis
    unfolding answer_row_def
    by (rule exI [of _ path], rule exI [of _ ?w]) (simp add: path_value_Inr [OF assms(1,2) path] row)
qed

section \<open>The result\<close>

definition query_answers ::
  "externals \<Rightarrow> decoder \<Rightarrow> TypedQuery \<Rightarrow> GraphSnapshot \<Rightarrow> (NodeRecord \<times> NodeRecord \<times> EdgeRecord list) list \<Rightarrow> bool" where
  "query_answers E decode q S answers \<longleftrightarrow>
     strict_sorted (map (\<lambda>(source, target, es). (node_id source, length es, node_id target)) answers) \<and>
     set answers = {(source, target, es). query_answer E decode q S source target es}"

lemma query_answer_from:
  assumes "source \<in> set (snap_nodes S)" and "kind_allows (tn_kind (tm_source (ex_match x))) source"
  shows "query_answer E decode (ex_query x) S source target es \<longleftrightarrow> answered E decode x S source target es"
proof -
  have "query_match E decode (ex_query x) S source target es \<longleftrightarrow> asked E decode x S source target es" for es
    using assms by (auto simp: query_match_def asked_def asks_from_def Let_def)
  then show ?thesis by (simp add: query_answer_def answered_def)
qed

text \<open>The sources one after the other.\<close>

lemma run_sources_Inr:
  assumes x: "indexed x S" and few: "length (ex_some_predicates x) \<le> 64"
  shows "fold_m (\<lambda>source st. sum_bind (guard R x st) (run_source E decode R x source)) sources st = Inr st' \<Longrightarrow>
    strict_sorted (map node_id sources) \<Longrightarrow>
    set sources \<subseteq> {node \<in> set (snap_nodes S). kind_allows (tn_kind (tm_source (ex_match x))) node} \<Longrightarrow>
    \<exists>answers rows. strict_sorted (map (\<lambda>(source, target, es). (node_id source, length es, node_id target)) answers) \<and>
      set answers = {(source, target, es). source \<in> set sources \<and> query_answer E decode (ex_query x) S source target es} \<and>
      list_all2 (\<lambda>(source, target, es). answer_row E decode (ex_query x) (ex_plan x) S source target es) answers rows \<and>
      xs_staged st' = fold (stage_row E) rows (xs_staged st)"
proof (induction sources arbitrary: st)
  case Nil
  then show ?case by (intro exI [of _ "[]"]) simp
next
  case (Cons source sources)
  let ?rank = "\<lambda>(source, target, es). (node_id source, length es, node_id target)"
  obtain s0 s1 where s0: "guard R x st = Inr s0" and one: "run_source E decode R x source s0 = Inr s1"
    and rest: "fold_m (\<lambda>source st. sum_bind (guard R x st) (run_source E decode R x source)) sources s1 = Inr st'"
    using Cons.prems(1) by (auto simp: sum_bind_Inr_iff)
  have source: "source \<in> set (snap_nodes S)" "kind_allows (tn_kind (tm_source (ex_match x))) source" using Cons.prems(3) by auto
  obtain B rowsB where B: "strict_sorted (map ?rank B)"
      "set B = {(source, target, es). source \<in> set sources \<and> query_answer E decode (ex_query x) S source target es}"
      "list_all2 (\<lambda>(source, target, es). answer_row E decode (ex_query x) (ex_plan x) S source target es) B rowsB"
      "xs_staged st' = fold (stage_row E) rowsB (xs_staged s1)"
    using Cons.IH [OF rest] Cons.prems(2,3) by auto
  obtain A rowsA where A: "answers_from E decode x S source 0 A" "list_all2 (row_of E decode x source) A rowsA"
      "xs_staged s1 = fold (stage_row E) rowsA (xs_staged s0)"
    using run_source_Inr [OF x few one] by blast
  let ?A = "map (\<lambda>(target, es). (source, target, es)) A"
  have set_A: "set A = {(target, es). query_answer E decode (ex_query x) S source target es}"
    using A(1) query_answer_from [OF source] by (simp add: answers_from_def)
  have "set (?A @ B) = {(s, target, es). s \<in> set (source # sources) \<and> query_answer E decode (ex_query x) S s target es}"
    unfolding set_append B(2) set_map set_A by auto
  moreover have "strict_sorted (map ?rank (?A @ B))"
  proof -
    have ranks: "map ?rank ?A = map (\<lambda>r. (node_id source, r)) (map answer_rank A)" by (simp add: answer_rank_def split_beta)
    have "strict_sorted (map ?rank ?A)"
      using A(1) unfolding ranks sorted_wrt_map answers_from_def by simp
    moreover have "?rank a < ?rank b" if ab: "a \<in> set ?A" "b \<in> set B" for a b
    proof -
      obtain t es where a: "a = (source, t, es)" using ab(1) by auto
      obtain s' t' es' where b: "b = (s', t', es')" by (cases b)
      have "s' \<in> set sources" using ab(2) unfolding b B(2) by simp
      then have "node_id source < node_id s'" using Cons.prems(2) by simp
      then show ?thesis by (simp add: a b)
    qed
    ultimately show ?thesis using B(1) unfolding map_append sorted_wrt_append set_map by blast
  qed
  moreover have "list_all2 (\<lambda>(source, target, es). answer_row E decode (ex_query x) (ex_plan x) S source target es) (?A @ B) (rowsA @ rowsB)"
  proof (rule list_all2_appendI [OF _ B(3)])
    have "answer_row E decode (ex_query x) (ex_plan x) S source (fst a) (snd a) row" if "a \<in> set A" "row_of E decode x source a row" for a row
    proof -
      have "ex_trail x S source (snd a) (node_id (fst a))"
        using that(1) A(1) by (auto simp: answers_from_def answered_def asked_def asks_from_def)
      then show ?thesis using that(2) project_row_Inr [OF x] by (simp add: row_of_def)
    qed
    then show "list_all2 (\<lambda>(source, target, es). answer_row E decode (ex_query x) (ex_plan x) S source target es) ?A rowsA"
      unfolding list_all2_map1 by (intro list.rel_mono_strong [OF A(2)]) (simp add: split_beta)
  qed
  moreover have "xs_staged st' = fold (stage_row E) (rowsA @ rowsB) (xs_staged st)"
    using A(3) B(4) keep_staged(1) [OF s0] by simp
  ultimately show ?case by blast
qed

text \<open>The plan knows when no node can be a source.\<close>

lemma counts_positive: "k \<in> set items \<Longrightarrow> \<exists>n > 0. bm_get (counts items) k = Some n"
proof -
  have "bm_invar m \<Longrightarrow> bm_invar (fold (\<lambda>item. bm_entry 0 item Suc) items m) \<and>
     (k \<in> set items \<or> (\<exists>n > 0. bm_get m k = Some n) \<longrightarrow> (\<exists>n > 0. bm_get (fold (\<lambda>item. bm_entry 0 item Suc) items m) k = Some n))"
    for m :: "(string, nat) bmap"
  proof (induction items arbitrary: m)
    case (Cons item items)
    then have "bm_invar (bm_entry 0 item Suc m)" by simp
    from Cons.IH [OF this] Cons.prems show ?case by (auto simp: bm_get_entry split: if_splits)
  qed simp
  then show "k \<in> set items \<Longrightarrow> ?thesis" unfolding counts_def by simp
qed

lemma no_sources:
  assumes "plan_bounded_query_with_limits E decode q S plimits = Inr plan" and "ci_source_nodes (plan_cardinality_inputs plan) = 0"
  shows "\<forall>node\<in>set (snap_nodes S). \<not> kind_allows (tn_kind (tm_source (ta_match_clause (tq_ast q)))) node"
proof -
  let ?st = "collect_bounded_query_statistics E decode S" and ?kind = "tn_kind (tm_source (ta_match_clause (tq_ast q)))"
  have "plan_cardinality_inputs plan = query_cardinality_inputs (tq_ast q) ?st"
    using assms(1)
    by (auto simp: plan_bounded_query_with_limits_def plan_bounded_query_from_verified_statistics_def Let_def split: if_splits)
  moreover have "ci_source_nodes (query_cardinality_inputs (tq_ast q) ?st) =
      (if has_source_id_lookup (tq_ast q) then min 1 (st_node_count ?st) else nodes_of_kind ?st ?kind)"
    by (cases "where_quantifier_counts (tq_ast q)") (simp add: query_cardinality_inputs_def Let_def)
  ultimately have zero: "(if has_source_id_lookup (tq_ast q) then min 1 (st_node_count ?st) else nodes_of_kind ?st ?kind) = 0"
    using assms(2) by metis
  have count: "st_node_count ?st = to_u64 (length (snap_nodes S))" and kinds: "st_nodes_by_kind ?st = counts (map node_kind (snap_nodes S))"
    by (simp_all add: collect_bounded_query_statistics_def Let_def)
  have empty: "snap_nodes S = []" if "st_node_count ?st = 0"
    using that by (simp add: count to_u64_def u64_max_def min_def split: if_splits)
  show ?thesis
  proof (cases "has_source_id_lookup (tq_ast q) \<or> ?kind = None")
    case True
    then have "st_node_count ?st = 0" using zero by (auto simp: nodes_of_kind_def split: if_splits)
    then show ?thesis using empty by simp
  next
    case False
    then obtain k where k: "?kind = Some k" by auto
    show ?thesis
    proof
      fix node assume "node \<in> set (snap_nodes S)"
      then have "k \<noteq> node_kind node"
        using counts_positive [of "node_kind node" "map node_kind (snap_nodes S)"] zero False
        by (auto simp: nodes_of_kind_def k kinds split: option.splits)
      then show "\<not> kind_allows ?kind node" by (simp add: kind_allows_def k)
    qed
  qed
qed

lemma run_executor_Inr:
  assumes "run_executor E decode R x st = Inr result"
  shows "\<exists>s0 sources s1 s2. guard R x st = Inr s0 \<and> source_nodes E decode x s0 = Inr (sources, s1) \<and>
    fold_m (\<lambda>source st. sum_bind (guard R x st) (run_source E decode R x source)) sources s1 = Inr s2 \<and>
    br_rows result = rs_rows (xs_staged s2)"
proof -
  obtain s0 where s0: "guard R x st = Inr s0" using assms by (auto simp: run_executor_def sum_bind_Inr_iff)
  obtain sources s1 where s1: "source_nodes E decode x s0 = Inr (sources, s1)"
    using assms by (auto simp: run_executor_def s0 sum_bind_Inr_iff)
  obtain s2 where s2: "fold_m (\<lambda>source st. sum_bind (guard R x st) (run_source E decode R x source)) sources s1 = Inr s2"
    using assms by (auto simp: run_executor_def s0 s1 sum_bind_Inr_iff)
  have "br_rows result = rs_rows (xs_staged s2)"
    using assms unfolding run_executor_def s0 s1 s2 sum_bind.simps prod.case Let_def
    by (auto simp: sum_bind_Inr_iff dest!: keep_staged(1))
  with s0 s1 s2 show ?thesis by blast
qed

lemma executed_answers:
  assumes plan: "plan_bounded_query_with_limits E decode q S planned = Inr plan"
    and few: "length (case ta_where_clause (tq_ast q) of None \<Rightarrow> [] | Some e \<Rightarrow> collect_some_predicates e) \<le> 64"
    and run: "execute_bounded_query_with_options E decode R q plan S limits = Inr result"
  shows "\<exists>answers rows. query_answers E decode q S answers \<and>
    list_all2 (\<lambda>(source, target, es). answer_row E decode q plan S source target es) answers rows \<and>
    br_rows result = rs_rows (fold (stage_row E) rows (new_row_stager q))"
proof -
  obtain n x st where new: "new_executor R q plan S limits n = Inr (x, st)" and exec: "run_executor E decode R x st = Inr result"
    using run unfolding execute_bounded_query_with_options_def by (auto simp: sum_bind_Inr_iff split: if_splits)
  have x: "indexed x S" and q: "ex_query x = q" and p: "ex_plan x = plan" and st: "xs_staged st = new_row_stager q"
    using new_executor_Inr [OF new] by simp_all
  have few': "length (ex_some_predicates x) \<le> 64" using few x by (simp add: indexed_def q)
  obtain s0 sources s1 s2 where s0: "guard R x st = Inr s0" and s1: "source_nodes E decode x s0 = Inr (sources, s1)"
    and s2: "fold_m (\<lambda>source st. sum_bind (guard R x st) (run_source E decode R x source)) sources s1 = Inr s2"
    and rows: "br_rows result = rs_rows (xs_staged s2)"
    using run_executor_Inr [OF exec] by blast
  have none: "\<forall>node\<in>set (snap_nodes S). \<not> kind_allows (tn_kind (tm_source (ex_match x))) node"
    if "ci_source_nodes (plan_cardinality_inputs (ex_plan x)) = 0"
    using no_sources [OF plan] that by (simp add: p q)
  note sources = source_nodes_Inr [OF x s1 none]
  obtain answers rws where a: "strict_sorted (map (\<lambda>(source, target, es). (node_id source, length es, node_id target)) answers)"
      "set answers = {(source, target, es). source \<in> set sources \<and> query_answer E decode q S source target es}"
      "list_all2 (\<lambda>(source, target, es). answer_row E decode q plan S source target es) answers rws"
      "xs_staged s2 = fold (stage_row E) rws (xs_staged s1)"
    using run_sources_Inr [OF x few' s2] sources unfolding p q by blast
  have "source \<in> set sources" if "query_answer E decode q S source target es" for source target es
  proof -
    have "source \<in> set (snap_nodes S)" "kind_allows (tn_kind (tm_source (ex_match x))) source"
        "satisfies E decode (ex_query x) S source target es"
      using that by (auto simp: query_answer_def query_match_def Let_def q)
    then show ?thesis using sources by blast
  qed
  then have "query_answers E decode q S answers" using a(1,2) by (auto simp: query_answers_def)
  moreover have "xs_staged s2 = fold (stage_row E) rws (new_row_stager q)"
    using a(4) sources keep_staged(1) [OF s0] st by simp
  ultimately show ?thesis using a(3) rows by (intro exI [of _ answers] exI [of _ rws]) simp
qed

text \<open>
  C11: The executor is correct. For a plan made for the snapshot, a result has exactly the rows of the answers of the
  query: every pair of nodes of the asked kinds that a trail of an admitted length satisfying the condition joins has
  one row, projected from its shortest such trail (the least by edge identities among these), and nothing else has a
  row. The rows are staged in the order of source, length and target. The pruning of the search by state keys, the
  depth at which a target is settled, the source prefilter and the identity lookup lose and add nothing.
\<close>

theorem execute_exact:
  assumes plan: "plan_bounded_query_with_limits E decode q S planned = Inr plan"
    and few: "length (case ta_where_clause (tq_ast q) of None \<Rightarrow> [] | Some e \<Rightarrow> collect_some_predicates e) \<le> 64"
    and run: "execute_bounded_query_with_options E decode R q plan S limits = Inr result"
  shows "\<exists>answers rows. query_answers E decode q S answers \<and>
    list_all2 (\<lambda>(source, target, es). answer_row E decode q plan S source target es) answers rows \<and>
    br_rows result = rs_rows (fold (stage_row E) rows (new_row_stager q))"
  by (rule executed_answers [OF plan few run])

section \<open>An example\<close>

text \<open>A graph with two nodes and an edge, and the query for the nodes that \<open>b\<close> reaches.\<close>

definition example_field :: "string \<Rightarrow> string \<Rightarrow> TypedFieldReference" where
  "example_field b f = \<lparr>tf_binding = b, tf_entity_type = Type_Node, tf_field = f, tf_scalar_type = Type_String, tf_nullable = False\<rparr>"

definition example_typed_ast :: TypedQueryAst where
  "example_typed_ast =
     \<lparr>ta_contract_version = BOUNDED_QUERY_CONTRACT_VERSION, ta_type_contract_version = BOUNDED_QUERY_TYPE_CONTRACT_VERSION,
      ta_match_clause = \<lparr>tm_path = \<lparr>bind_name = ''p'', bind_entity_type = Type_Path\<rparr>,
        tm_source = \<lparr>tn_binding = \<lparr>bind_name = ''a'', bind_entity_type = Type_Node\<rparr>, tn_kind = None\<rparr>,
        tm_relationship = \<lparr>rel_direction = Direction_Forward, rel_kinds = [''imports''], rel_min_depth = 1, rel_max_depth = 2\<rparr>,
        tm_target = \<lparr>tn_binding = \<lparr>bind_name = ''b'', bind_entity_type = Type_Node\<rparr>, tn_kind = Some ''file''\<rparr>\<rparr>,
      ta_where_clause = Some (TExpr_Scalar \<lparr>tp_field = example_field ''a'' ''id'', tp_operator = Op_Equal (Lit_String ''b''),
        tp_operand_type = Query_Scalar Type_String\<rparr>),
      ta_return_clause = \<lparr>tr_distinct = False, tr_projections = [TProject_Field (example_field ''b'' ''id'')]\<rparr>,
      ta_order_by = [], ta_limit = 10\<rparr>"

definition quiet_externals :: externals where
  "quiet_externals = example_externals\<lparr>json_to_string := (\<lambda>_. [])\<rparr>"

definition example_query :: TypedQuery where
  "example_query = \<lparr>tq_ast = example_typed_ast, tq_digest = typed_query_ast_digest quiet_externals example_typed_ast\<rparr>"

definition example_pair :: GraphSnapshot where
  "example_pair = example_snapshot [example_node ''a'' ''file'', example_node ''b'' ''file''] [example_edge ''e'' ''b'' ''a''] []"

definition example_statistics :: SnapshotCardinalityStatistics where
  "example_statistics = collect_bounded_query_statistics quiet_externals (\<lambda>_. None) example_pair"

definition example_environment :: environment where
  "example_environment = \<lparr>cancelled_at = (\<lambda>_. False), elapsed_at = (\<lambda>_. 0)\<rparr>"



text \<open>The evaluation unfolds one depth at a time.\<close>

declare run_depths.simps [simp del]

definition example_plan :: BoundedQueryPlan where
  "example_plan = projr (plan_bounded_query quiet_externals (\<lambda>_. None) example_query example_pair)"

lemma json_bytes_quiet [simp]: "json_bytes quiet_externals v = 0" "maximum_json_bytes quiet_externals vs = 0"
  by (simp_all add: json_bytes_def quiet_externals_def to_u64_def maximum_json_bytes_def max_or_zero_def)

lemmas query_example_defs = example_typed_ast_def example_field_def example_pair_def example_node_def example_edge_def
  example_snapshot_def

definition example_executor :: "Executor" where
  "example_executor =
     \<lparr>ex_query = example_query, ex_plan = example_plan, ex_limits = default_query_limits,
      ex_nodes = [(''a'', example_node ''a'' ''file''), (''b'', example_node ''b'' ''file'')],
      ex_edges = [(''e'', example_edge ''e'' ''b'' ''a'')], ex_sites = [], ex_evidence = [],
      ex_adjacency = [(''b'', [example_edge ''e'' ''b'' ''a''])], ex_some_predicates = []\<rparr>"

lemma example_new_executor: "\<exists>st. new_executor example_environment example_query example_plan example_pair default_query_limits 1 = Inr (example_executor, st)
    \<and> xs_staged st = new_row_stager example_query \<and> xs_metrics st =
     \<lparr>em_source_node_tests = 0, em_traversal_states = 0, em_edge_tests = 0, em_site_tests = 0,
                em_evidence_tests = 0, em_result_rows = 0, em_serialized_output_bytes = 2, em_working_memory_bytes = 128\<rparr>"
  by (simp add: new_executor_def construction_guard_def example_environment_def default_query_limits_def
    count_eligible_def index_unique_def index_edges_def index_evidence_def example_pair_def example_snapshot_def
    bs_contains_def example_executor_def example_query_def example_typed_ast_def example_node_def example_edge_def bm_contains_key_def bm_get_def
    saturating_add_def saturating_mul_def u64_max_def limit_simps to_u64_def bm_entry_def example_field_def Let_def)

lemma run_depths_last: "rel_max_depth (tm_relationship (ex_match x)) \<le> depth \<Longrightarrow> run_depths E decode R x source depth current resolved st =
     sum_bind (guard R x st) (\<lambda>st.
     sum_bind (if depth \<ge> rel_min_depth (tm_relationship (ex_match x)) then emit_layer E decode x source current resolved st
       else Inr (resolved, st)) (\<lambda>(resolved, st). Inr st))"
  by (subst run_depths.simps) simp

lemma run_depths_step: "depth < rel_max_depth (tm_relationship (ex_match x)) \<Longrightarrow> run_depths E decode R x source depth current resolved st =
     sum_bind (guard R x st) (\<lambda>st.
     sum_bind (if depth \<ge> rel_min_depth (tm_relationship (ex_match x)) then emit_layer E decode x source current resolved st
       else Inr (resolved, st)) (\<lambda>(resolved, st).
       sum_bind (fold_m (expand_witness E decode R x) (bm_values current) ([], st)) (\<lambda>(nxt, st).
       if nxt = [] then Inr st else run_depths E decode R x source (depth + 1) nxt resolved st)))"
  by (subst run_depths.simps) simp

lemma example_guard_ok: "guard example_environment example_executor st = Inr (st\<lparr>xs_polls := xs_polls st + 1\<rparr>)"
  by (simp add: guard_def construction_guard_def example_environment_def example_executor_def default_query_limits_def)

lemma example_charge_ok: "em_traversal_states (xs_metrics st) \<le> 10 \<Longrightarrow> em_serialized_output_bytes (xs_metrics st) \<le> 10 \<Longrightarrow>
  increment_state example_executor st = Inr (st\<lparr>xs_metrics := (xs_metrics st)\<lparr>em_traversal_states := em_traversal_states (xs_metrics st) + 1,
    em_working_memory_bytes := 128 + 256 * (em_traversal_states (xs_metrics st) + 1) + em_serialized_output_bytes (xs_metrics st)\<rparr>\<rparr>)"
  by (simp add: increment_state_def refresh_memory_def check_resource_def example_executor_def default_query_limits_def limit_simps
   saturating_add_def saturating_mul_def to_u64_def u64_max_def bm_values_def)


lemma example_poll_ok: "cancellation_check example_environment n = Inr (n + 1)"
  by (simp add: cancellation_check_def example_environment_def)

lemma example_limits: "ex_limits example_executor = default_query_limits" "ql_edge_tests default_query_limits = 200000"
  "ql_result_rows default_query_limits = 10000" "ql_serialized_output_bytes default_query_limits = 16777216"
  by (simp_all add: example_executor_def default_query_limits_def)

lemma example_edge_charge_ok: "em_edge_tests (xs_metrics st) \<le> 10 \<Longrightarrow>
  increment_edge_tests example_environment example_executor st =
    Inr (st\<lparr>xs_polls := xs_polls st + 1, xs_metrics := (xs_metrics st)\<lparr>em_edge_tests := em_edge_tests (xs_metrics st) + 1\<rparr>\<rparr>)"
  by (simp add: increment_edge_tests_def example_guard_ok check_resource_def Let_def saturating_add_def u64_max_def
   example_limits)

definition example_source :: NodeRecord where "example_source = example_node ''b'' ''file''"
definition example_target :: NodeRecord where "example_target = example_node ''a'' ''file''"
definition example_hop :: EdgeRecord where "example_hop = example_edge ''e'' ''b'' ''a''"

lemma example_executor_simps:
  "ex_query example_executor = example_query" "ex_plan example_executor = example_plan"
  "bm_get (ex_nodes example_executor) ''a'' = Some example_target"
  "bm_get (ex_nodes example_executor) ''b'' = Some example_source"
  "bm_contains_key (ex_nodes example_executor) ''a''"
  "bm_get (ex_edges example_executor) ''e'' = Some example_hop"
  "bm_get (ex_adjacency example_executor) ''b'' = Some [example_hop]"
  "bm_get (ex_adjacency example_executor) ''a'' = None"
  "ex_some_predicates example_executor = []" "ex_sites example_executor = []" "ex_evidence example_executor = []"
  "ex_limits example_executor = default_query_limits"
  by (simp_all add: example_executor_def bm_get_def bm_contains_key_def example_source_def example_target_def example_hop_def)

lemma example_record_simps:
  "node_id example_source = ''b''" "node_id example_target = ''a''" "node_kind example_target = ''file''"
  "edge_id example_hop = ''e''" "edge_source example_hop = ''b''" "edge_target example_hop = ''a''" "edge_site_id example_hop = None"
  by (simp_all add: example_source_def example_target_def example_hop_def example_node_def example_edge_def)

lemma example_query_simps:
  "tm_source (ta_match_clause (tq_ast example_query)) = \<lparr>tn_binding = \<lparr>bind_name = ''a'', bind_entity_type = Type_Node\<rparr>, tn_kind = None\<rparr>"
  "tm_target (ta_match_clause (tq_ast example_query)) = \<lparr>tn_binding = \<lparr>bind_name = ''b'', bind_entity_type = Type_Node\<rparr>, tn_kind = Some ''file''\<rparr>"
  "tm_relationship (ta_match_clause (tq_ast example_query)) =
    \<lparr>rel_direction = Direction_Forward, rel_kinds = [''imports''], rel_min_depth = 1, rel_max_depth = 2\<rparr>"
  "ta_where_clause (tq_ast example_query) = Some (TExpr_Scalar \<lparr>tp_field = example_field ''a'' ''id'', tp_operator = Op_Equal (Lit_String ''b''),
        tp_operand_type = Query_Scalar Type_String\<rparr>)"
  "ta_return_clause (tq_ast example_query) = \<lparr>tr_distinct = False, tr_projections = [TProject_Field (example_field ''b'' ''id'')]\<rparr>"
  "ta_order_by (tq_ast example_query) = []" "ta_limit (tq_ast example_query) = 10"
  by (simp_all add: example_query_def example_typed_ast_def)

lemma example_matches_ok: "expression_matches quiet_externals (\<lambda>_. None) example_executor example_source target w
  (TExpr_Scalar \<lparr>tp_field = example_field ''a'' ''id'', tp_operator = Op_Equal (Lit_String ''b''),
        tp_operand_type = Query_Scalar Type_String\<rparr>)"
  by (simp add: expression_matches_def evaluate_scalar_predicate_def field_holds_def scalar_view_def example_executor_simps
   example_query_simps example_field_def example_record_simps Let_def)

lemma example_sources_ok: "ci_source_nodes (plan_cardinality_inputs example_plan) = 1 \<Longrightarrow> em_source_node_tests (xs_metrics st) = 0 \<Longrightarrow>
  source_nodes quiet_externals (\<lambda>_. None) example_executor st =
  Inr ([example_source], st\<lparr>xs_metrics := (xs_metrics st)\<lparr>em_source_node_tests := 1\<rparr>\<rparr>)"
 by (simp add: source_nodes_def example_executor_simps example_query_simps source_id_lookup_def Let_def example_field_def
   increment_source_tests_def check_resource_def saturating_add_def default_query_limits_def u64_max_def kind_allows_def
   source_predicates_match_def example_matches_ok [unfolded example_field_def] source_name_def)


lemma quiet_rows [simp]: "serialized_rows_bytes quiet_externals rows = 0"
  by (simp add: serialized_rows_bytes_def quiet_externals_def to_u64_def)

lemma example_staged_ok: "length (rs_rows (xs_staged st)) = 1 \<Longrightarrow> em_traversal_states (xs_metrics st) \<le> 10 \<Longrightarrow>
  refresh_staged_metrics quiet_externals example_executor st = Inr (st\<lparr>xs_metrics := (xs_metrics st)\<lparr>em_result_rows := 1,
    em_serialized_output_bytes := 0, em_working_memory_bytes := 128 + 256 * em_traversal_states (xs_metrics st)\<rparr>\<rparr>)"
  by (simp add: refresh_staged_metrics_def refresh_memory_def check_resource_def example_executor_def default_query_limits_def limit_simps
   saturating_add_def saturating_mul_def to_u64_def u64_max_def bm_values_def)

lemma example_project_ok: "project_row quiet_externals (\<lambda>_. None) example_executor example_source example_target
   \<lparr>wit_node_ids = [''b'', ''a''], wit_edge_ids = [''e''], wit_used_edges = [''e''], wit_site_ids = [], wit_existential_bits = 0\<rparr> = Inr [String ''a'']"
  by (simp add: project_row_def path_value_def lookup_or_def example_executor_simps example_query_simps Let_def example_field_def
    source_name_def example_record_simps)


lemma example_memory_ok: "em_traversal_states (xs_metrics st) = 2 \<Longrightarrow> em_serialized_output_bytes (xs_metrics st) = 0 \<Longrightarrow>
   refresh_memory example_executor st = Inr (st\<lparr>xs_metrics := (xs_metrics st)\<lparr>em_working_memory_bytes := 640\<rparr>\<rparr>)"
  by (simp add: refresh_memory_def check_resource_def example_executor_def default_query_limits_def limit_simps
   saturating_add_def saturating_mul_def to_u64_def u64_max_def bm_values_def)

lemma example_run_ok: "em_traversal_states (xs_metrics st) = 0 \<Longrightarrow> em_serialized_output_bytes (xs_metrics st) = 2 \<Longrightarrow>
   em_edge_tests (xs_metrics st) = 0 \<Longrightarrow> xs_staged st = new_row_stager example_query \<Longrightarrow>
   \<exists>st'. run_source quiet_externals (\<lambda>_. None) example_environment example_executor example_source st = Inr st' \<and>
     em_traversal_states (xs_metrics st') = 2 \<and> rs_rows (xs_staged st') = [[String ''a'']]"
  by (simp add: run_source_def example_charge_ok run_depths_step run_depths_last example_executor_simps example_query_simps example_guard_ok
    initial_witness_def bm_values_def expand_witness_def expand_edge_def example_edge_charge_ok example_record_simps bs_contains_def
    extend_witness_def new_site_of_def insert_least_def emit_layer_def match_witness_def Let_def kind_allows_def where_matches_def
    example_matches_ok emit_match_def example_project_ok example_staged_ok stage_row_def new_row_stager_def sort_by_def bm_contains_key_def)

lemma example_execute_ok: "ci_source_nodes (plan_cardinality_inputs example_plan) = 1 \<Longrightarrow>
  xs_staged st = new_row_stager example_query \<Longrightarrow>
  xs_metrics st = \<lparr>em_source_node_tests = 0, em_traversal_states = 0, em_edge_tests = 0, em_site_tests = 0,
     em_evidence_tests = 0, em_result_rows = 0, em_serialized_output_bytes = 2, em_working_memory_bytes = 128\<rparr> \<Longrightarrow>
  \<exists>result. run_executor quiet_externals (\<lambda>_. None) example_environment example_executor st = Inr result \<and> br_rows result = [[String ''a'']]"
  using example_run_ok [of "st\<lparr>xs_metrics := (xs_metrics st)\<lparr>em_source_node_tests := 1\<rparr>, xs_polls := xs_polls st + 1 + 1\<rparr>"]
  by (auto simp: run_executor_def example_guard_ok example_sources_ok Let_def check_resource_def example_limits to_u64_def u64_max_def example_memory_ok
    example_poll_ok)

lemmas plan_arith = sum_saturating_def saturating_add_def saturating_mul_def u64_max_def

lemma example_statistics_simps:
  "st_node_count example_statistics = 2" "st_site_count example_statistics = 0" "st_evidence_count example_statistics = 0"
  "st_nodes_by_kind example_statistics = [(''file'', 2)]"
  "st_edges_by_kind example_statistics = [(''imports'', 1)]"
  "st_maximum_forward_degree_by_kind example_statistics = [(''imports'', 1)]"
  "st_max_evidence_per_edge example_statistics = 0" "st_max_evidence_per_site example_statistics = 0"
  "bm_get (cb_node (st_closed_field_byte_bounds example_statistics)) ''id'' = Some 0"
  by (simp_all add: example_statistics_def collect_bounded_query_statistics_def Let_def query_example_defs to_u64_def u64_max_def counts_def
    bm_entry_def bm_get_def maximum_degree_cardinalities_def bm_values_def maximum_evidence_per_owner_def max_or_zero_def
    closed_field_byte_bounds_def field_bounds_def closed_node_value_def)

lemma example_cardinality_inputs:
  "query_cardinality_inputs (tq_ast example_query) example_statistics =
     \<lparr>ci_source_nodes = 1, ci_target_nodes = 2, ci_eligible_edges = 1, ci_maximum_adjacency_degree = 1,
      ci_existential_predicates = 0, ci_site_predicates = 0, ci_evidence_predicates = 0,
      ci_maximum_associated_evidence_per_edge = 0, ci_endpoint_pairs = 2, ci_projection_width = 1\<rparr>"
  by (simp add: query_cardinality_inputs_def example_query_simps example_field_def has_source_id_lookup_def
    example_statistics_simps nodes_of_kind_def plan_arith get_or_zero_def bm_get_def Let_def where_quantifier_counts_def bs_of_list_def limit_simps)

lemma example_states: "traversal_state_bound 1 2 1 2 0 = 4" "traversal_state_bound 1 2 1 (2 - 1) 0 = 4"
  by (simp_all add: traversal_state_bound_def multiply_then_div_def checked_mul_def predicate_states_def plan_arith Let_def upt_rec)

lemma example_row: "projected_row_byte_bound quiet_externals (tq_ast example_query) example_statistics c = 2"
  by (simp add: projected_row_byte_bound_def example_query_simps example_field_def heterogeneous_json_array_byte_bound_def
    get_or_four_def example_statistics_simps plan_arith to_u64_def Let_def)

lemma example_query_bounds:
  "query_bounds quiet_externals (tq_ast example_query) example_statistics (query_cardinality_inputs (tq_ast example_query) example_statistics) =
     \<lparr>rb_source_node_tests = 1, rb_traversal_states = 4, rb_edge_tests = 4, rb_site_tests = 0, rb_evidence_tests = 0,
      rb_result_rows = 2, rb_serialized_output_bytes = 7, rb_working_memory_bytes = 1159, rb_deterministic_cost = 40\<rparr>"
  unfolding example_cardinality_inputs query_bounds_def example_row example_statistics_simps example_query_simps
  apply (simp only: QueryCardinalityInputs.simps RelationshipPattern.simps example_states if_True Let_def)
  apply (simp add: saturating_mul_def u64_max_def limit_simps)
  apply (simp add: heterogeneous_json_array_byte_bound_def uniform_json_array_byte_bound_def saturating_mul_def
    saturating_add_def u64_max_def ceil_div_def)
  apply (simp add: sum_saturating_def saturating_add_def u64_max_def)
  done

lemma example_planned:
  "plan_bounded_query_with_limits quiet_externals (\<lambda>_. None) example_query example_pair default_query_limits = Inr example_plan"
  "plan_admitted example_plan" "ci_source_nodes (plan_cardinality_inputs example_plan) = 1"
  "rb_deterministic_cost (plan_bounds example_plan) = 40" "plan_limits example_plan = default_query_limits"
  "plan_snapshot_statistics example_plan = example_statistics"
  "plan_graph_digest example_plan = st_graph_digest example_statistics" "plan_snapshot_id example_plan = st_snapshot_id example_statistics"
  "plan_plan_digest example_plan = bounded_query_plan_digest quiet_externals example_plan"
proof -
  have digest: "tq_digest example_query = typed_query_ast_digest quiet_externals (tq_ast example_query)"
    by (simp add: example_query_def)
  have admitted: "admission_reasons b default_query_limits = []"
    if "b = \<lparr>rb_source_node_tests = Suc 0, rb_traversal_states = 4, rb_edge_tests = 4, rb_site_tests = 0, rb_evidence_tests = 0,
      rb_result_rows = 2, rb_serialized_output_bytes = 7, rb_working_memory_bytes = 1159, rb_deterministic_cost = 40\<rparr>" for b
    unfolding that by (simp add: admission_reasons_def default_query_limits_def)
  have plan_digest: "bounded_query_plan_digest quiet_externals p = bounded_query_plan_digest quiet_externals p'" for p p'
    by (simp add: bounded_query_plan_digest_def digest_json_def stable_id_from_value_def quiet_externals_def example_externals_def)
  note defs = plan_bounded_query_def plan_bounded_query_with_limits_def plan_bounded_query_from_verified_statistics_def
    example_plan_def digest Let_def example_statistics_def [symmetric]
  show "plan_bounded_query_with_limits quiet_externals (\<lambda>_. None) example_query example_pair default_query_limits = Inr example_plan"
    by (simp add: defs)
  show "ci_source_nodes (plan_cardinality_inputs example_plan) = 1"
    by (simp add: defs example_cardinality_inputs)
  show "plan_admitted example_plan"
    "rb_deterministic_cost (plan_bounds example_plan) = 40" "plan_limits example_plan = default_query_limits"
    "plan_snapshot_statistics example_plan = example_statistics"
    "plan_graph_digest example_plan = st_graph_digest example_statistics" "plan_snapshot_id example_plan = st_snapshot_id example_statistics"
    by (simp_all add: defs admitted example_query_bounds)
  show "plan_plan_digest example_plan = bounded_query_plan_digest quiet_externals example_plan"
    by (simp add: defs) (rule plan_digest)
qed

lemma example_valid: "validate_execution_inputs quiet_externals (\<lambda>_. None) example_query example_plan example_pair default_query_limits = Inr ()"
proof -
  have "st_graph_digest example_statistics = bounded_query_graph_digest quiet_externals (\<lambda>_. None) example_pair"
    "st_snapshot_id example_statistics = bounded_query_snapshot_id (bounded_query_graph_digest quiet_externals (\<lambda>_. None) example_pair)"
    by (simp_all add: example_statistics_def collect_bounded_query_statistics_def Let_def)
  moreover have "tq_digest example_query = typed_query_ast_digest quiet_externals (tq_ast example_query)"
    by (simp add: example_query_def)
  ultimately show ?thesis
    by (simp add: validate_execution_inputs_def example_planned(3-8) example_planned(9) [symmetric] Let_def validate_lowered_limits_def default_query_limits_def)
qed

lemma example_executed:
  "\<exists>result. execute_bounded_query_with_options quiet_externals (\<lambda>_. None) example_environment example_query example_plan example_pair
     default_query_limits = Inr result \<and> br_rows result = [[String ''a'']]"
proof -
  obtain st where new: "new_executor example_environment example_query example_plan example_pair default_query_limits 1 = Inr (example_executor, st)"
    and "xs_staged st = new_row_stager example_query" "xs_metrics st =
     \<lparr>em_source_node_tests = 0, em_traversal_states = 0, em_edge_tests = 0, em_site_tests = 0,
                em_evidence_tests = 0, em_result_rows = 0, em_serialized_output_bytes = 2, em_working_memory_bytes = 128\<rparr>"
    using example_new_executor by blast
  then obtain result where "run_executor quiet_externals (\<lambda>_. None) example_environment example_executor st = Inr result"
      "br_rows result = [[String ''a'']]"
    using example_execute_ok [OF example_planned(3)] by blast
  with new show ?thesis
    by (simp add: execute_bounded_query_with_options_def example_poll_ok example_valid example_planned(2))
qed

theorem execute_exact_witness:
  "\<exists>result answers rows.
    execute_bounded_query_with_options quiet_externals (\<lambda>_. None) example_environment example_query example_plan example_pair
      default_query_limits = Inr result \<and>
    query_answers quiet_externals (\<lambda>_. None) example_query example_pair answers \<and>
    list_all2 (\<lambda>(source, target, es). answer_row quiet_externals (\<lambda>_. None) example_query example_plan example_pair source target es) answers rows \<and>
    br_rows result = rs_rows (fold (stage_row quiet_externals) rows (new_row_stager example_query)) \<and> br_rows result = [[String ''a'']]"
proof -
  obtain result where run: "execute_bounded_query_with_options quiet_externals (\<lambda>_. None) example_environment example_query example_plan
      example_pair default_query_limits = Inr result" and rows: "br_rows result = [[String ''a'']]"
    using example_executed by blast
  have "length (case ta_where_clause (tq_ast example_query) of None \<Rightarrow> [] | Some e \<Rightarrow> collect_some_predicates e) \<le> 64"
    by (simp add: example_query_simps)
  from execute_exact [OF example_planned(1) this run] run rows show ?thesis by metis
qed

end
