(* ===== verification/Query_Lex.thy ===== *)
theory Query_Lex
  imports Query_Answer
begin

text \<open>
  The lexer of the bounded query language: \<^verbatim>\<open>Lexer\<close> and \<^verbatim>\<open>parse_bounded_query_bytes\<close> of
  \<^verbatim>\<open>crates/depgraph-core/src/bounded_query.rs\<close>. A text is the list of its UTF-8 bytes. The lexer keeps the bytes
  it has not read and the position of the first of them; every step reads at least one byte. The JSON string parser
  is a parameter: \<open>unquote raw\<close> is the value of the string literal \<open>raw\<close>, if it is one.
\<close>

section \<open>Limits and diagnostics\<close>

definition MAX_QUERY_BYTES :: nat where [limit_simps]: "MAX_QUERY_BYTES = 64 * 1024"

definition MAX_QUERY_TOKENS :: nat where [limit_simps]: "MAX_QUERY_TOKENS = 4096"

definition query_diagnostic ::
  "string \<Rightarrow> QueryFailureClass \<Rightarrow> string \<Rightarrow> string \<Rightarrow> QueryOrigin \<Rightarrow> string \<Rightarrow> QueryDiagnostic" where
  "query_diagnostic code failure clause token_class origin message =
     \<lparr>qd_code = code, qd_class = failure, qd_clause = clause, qd_token_class = token_class, qd_origin = origin,
      qd_message = message\<rparr>"

definition input_diagnostic :: "string \<Rightarrow> QueryFailureClass \<Rightarrow> string \<Rightarrow> QueryDiagnostic" where
  "input_diagnostic code failure message =
     query_diagnostic code failure ''input'' ''query_input''
       \<lparr>origin_line = 1, origin_column = 1, origin_byte_offset = 0\<rparr> message"

section \<open>UTF-8\<close>

text \<open>\<open>len_utf8\<close> of the character that a leading byte opens.\<close>

definition utf8_len :: "char \<Rightarrow> nat" where
  "utf8_len c = (let b = of_char c :: nat in if b < 128 then 1 else if b < 224 then 2 else if b < 240 then 3 else 4)"

lemma utf8_len_pos [simp]: "0 < utf8_len c"
  by (simp add: utf8_len_def Let_def)

section \<open>Credential shapes\<close>

definition ascii_lower :: "string \<Rightarrow> string" where
  "ascii_lower = map (\<lambda>c. if is_ascii_uppercase c then char_of ((of_char c :: nat) + 32) else c)"

text \<open>\<open>value.find(needle)\<close>\<close>

fun str_find :: "string \<Rightarrow> string \<Rightarrow> nat option" where
  "str_find needle s =
     (if starts_with s needle then Some 0
      else case s of [] \<Rightarrow> None | c # cs \<Rightarrow> map_option Suc (str_find needle cs))"

definition url_authority_has_userinfo :: "string \<Rightarrow> bool" where
  "url_authority_has_userinfo value =
     (case str_find ''://'' value of
        None \<Rightarrow> False
      | Some scheme_end \<Rightarrow>
          if scheme_end = 0 \<or> \<not> list_all (\<lambda>c. is_ascii_alphanumeric c \<or> c \<in> set ''+-.'') (take scheme_end value) then False
          else CHR ''@'' \<in> set (takeWhile (\<lambda>c. c \<notin> set ''/?#'') (drop (scheme_end + 3) value)))"

definition looks_like_query_credential :: "string \<Rightarrow> bool" where
  "looks_like_query_credential value =
     (let lower = ascii_lower value in
      starts_with lower ''bearer '' \<or> starts_with lower ''basic '' \<or> starts_with lower ''ghp_''
      \<or> starts_with lower ''github_pat_'' \<or> starts_with lower ''sk-'' \<or> starts_with lower ''xoxb-''
      \<or> starts_with lower ''xoxp-'' \<or> starts_with lower ''xoxa-'' \<or> starts_with lower ''xoxr-''
      \<or> starts_with value ''AKIA'' \<or> starts_with value ''AIza''
      \<or> (starts_with value ''eyJ'' \<and> count_list value (CHR ''.'') = 2)
      \<or> (str_contains lower ''-----begin '' \<and> str_contains lower ''private key-----'')
      \<or> list_ex (str_contains lower) [''token='', ''secret='', ''password='', ''api_key='', ''apikey='']
      \<or> url_authority_has_userinfo value)"

section \<open>Tokens\<close>

datatype TokenKind =
    Tok_Identifier string | Tok_String string | Tok_Unsigned nat
  | Tok_LeftParen | Tok_RightParen | Tok_LeftBracket | Tok_RightBracket | Tok_Comma | Tok_Colon | Tok_Dot
  | Tok_Equal | Tok_NotEqual | Tok_Less | Tok_LessOrEqual | Tok_Greater | Tok_GreaterOrEqual
  | Tok_Pipe | Tok_Star | Tok_Range | Tok_Dash | Tok_ArrowRight | Tok_ArrowLeft | Tok_Semicolon | Tok_End

fun token_class :: "TokenKind \<Rightarrow> string" where
  "token_class (Tok_Identifier _) = ''identifier''"
| "token_class (Tok_String _) = ''string''"
| "token_class (Tok_Unsigned _) = ''unsigned_integer''"
| "token_class Tok_LeftParen = ''left_parenthesis''"
| "token_class Tok_RightParen = ''right_parenthesis''"
| "token_class Tok_LeftBracket = ''left_bracket''"
| "token_class Tok_RightBracket = ''right_bracket''"
| "token_class Tok_Comma = ''comma''"
| "token_class Tok_Colon = ''colon''"
| "token_class Tok_Dot = ''dot''"
| "token_class Tok_Equal = ''equal''"
| "token_class Tok_NotEqual = ''not_equal''"
| "token_class Tok_Less = ''less''"
| "token_class Tok_LessOrEqual = ''less_or_equal''"
| "token_class Tok_Greater = ''greater''"
| "token_class Tok_GreaterOrEqual = ''greater_or_equal''"
| "token_class Tok_Pipe = ''pipe''"
| "token_class Tok_Star = ''star''"
| "token_class Tok_Range = ''range''"
| "token_class Tok_Dash = ''dash''"
| "token_class Tok_ArrowRight = ''right_arrow''"
| "token_class Tok_ArrowLeft = ''left_arrow''"
| "token_class Tok_Semicolon = ''semicolon''"
| "token_class Tok_End = ''end_of_input''"

record Token =
  tok_kind :: TokenKind
  tok_origin :: QueryOrigin

section \<open>The lexer\<close>

record Lexer =
  lx_rest :: string
  lx_offset :: nat
  lx_line :: nat
  lx_column :: nat
  lx_tokens :: "Token list"

definition new_lexer :: "string \<Rightarrow> Lexer" where
  "new_lexer input = \<lparr>lx_rest = input, lx_offset = 0, lx_line = 1, lx_column = 1, lx_tokens = []\<rparr>"

definition lexer_origin :: "Lexer \<Rightarrow> QueryOrigin" where
  "lexer_origin lx = \<lparr>origin_line = lx_line lx, origin_column = lx_column lx, origin_byte_offset = lx_offset lx\<rparr>"

text \<open>\<open>advance_ascii\<close>, \<open>n\<close> times.\<close>

definition advance_ascii :: "nat \<Rightarrow> Lexer \<Rightarrow> Lexer" where
  "advance_ascii n lx = lx\<lparr>lx_rest := drop n (lx_rest lx), lx_offset := lx_offset lx + n, lx_column := lx_column lx + n\<rparr>"

definition advance_newline :: "Lexer \<Rightarrow> Lexer" where
  "advance_newline lx = lx\<lparr>lx_rest := tl (lx_rest lx), lx_offset := lx_offset lx + 1, lx_line := lx_line lx + 1, lx_column := 1\<rparr>"

definition advance_character :: "nat \<Rightarrow> Lexer \<Rightarrow> Lexer" where
  "advance_character n lx = lx\<lparr>lx_rest := drop n (lx_rest lx), lx_offset := lx_offset lx + n, lx_column := lx_column lx + 1\<rparr>"

definition push_token :: "TokenKind \<Rightarrow> QueryOrigin \<Rightarrow> Lexer \<Rightarrow> QueryDiagnostic + Lexer" where
  "push_token kind origin lx =
     (if length (lx_tokens lx) \<ge> MAX_QUERY_TOKENS
      then Inl (query_diagnostic ''query_token_limit_exceeded'' Failure_Limit ''lexer'' (token_class kind) origin
        ''query exceeds the token limit'')
      else Inr (lx\<lparr>lx_tokens := lx_tokens lx @ [\<lparr>tok_kind = kind, tok_origin = origin\<rparr>]\<rparr>))"

definition lex_fixed :: "nat \<Rightarrow> TokenKind \<Rightarrow> Lexer \<Rightarrow> QueryDiagnostic + Lexer" where
  "lex_fixed n kind lx = push_token kind (lexer_origin lx) (advance_ascii n lx)"

definition is_identifier_byte :: "char \<Rightarrow> bool" where
  "is_identifier_byte c \<longleftrightarrow> is_ascii_alphanumeric c \<or> c = CHR ''_''"

definition lex_identifier :: "Lexer \<Rightarrow> QueryDiagnostic + Lexer" where
  "lex_identifier lx =
     (let value = takeWhile is_identifier_byte (lx_rest lx) in
      if length value > 64
      then Inl (query_diagnostic ''query_identifier_too_long'' Failure_Limit ''lexer'' ''identifier'' (lexer_origin lx)
        ''identifier exceeds its length limit'')
      else push_token (Tok_Identifier value) (lexer_origin lx) (advance_ascii (length value) lx))"

definition lex_unsigned :: "Lexer \<Rightarrow> QueryDiagnostic + Lexer" where
  "lex_unsigned lx =
     (let raw = takeWhile is_ascii_digit (lx_rest lx) in
      if length raw > 1 \<and> starts_with raw ''0''
      then Inl (query_diagnostic ''query_integer_not_canonical'' Failure_Syntax ''lexer'' ''unsigned_integer'' (lexer_origin lx)
        ''unsigned integer is not canonical'')
      else case parse_usize raw of
          None \<Rightarrow> Inl (query_diagnostic ''query_integer_out_of_range'' Failure_Limit ''lexer'' ''unsigned_integer'' (lexer_origin lx)
            ''unsigned integer exceeds its range'')
        | Some value \<Rightarrow> push_token (Tok_Unsigned value) (lexer_origin lx) (advance_ascii (length raw) lx))"

type_synonym unquoter = "string \<Rightarrow> string option"

definition string_invalid :: "QueryOrigin \<Rightarrow> QueryDiagnostic" where
  "string_invalid origin = query_diagnostic ''query_string_invalid'' Failure_Syntax ''lexer'' ''string'' origin
     ''string literal is not valid JSON string syntax''"

text \<open>The end of a string literal, whose text with the quotes is \<open>raw\<close>.\<close>

definition finish_string :: "unquoter \<Rightarrow> QueryOrigin \<Rightarrow> string \<Rightarrow> Lexer \<Rightarrow> QueryDiagnostic + Lexer" where
  "finish_string unquote origin raw lx =
     (case unquote raw of
        None \<Rightarrow> Inl (string_invalid origin)
      | Some value \<Rightarrow>
          if looks_like_query_credential value
          then Inl (query_diagnostic ''query_literal_credential_shape'' Failure_Security ''lexer'' ''string'' origin
            ''string literal matches the credential-shape policy'')
          else push_token (Tok_String value) origin lx)"

function lex_string_body :: "unquoter \<Rightarrow> QueryOrigin \<Rightarrow> string \<Rightarrow> bool \<Rightarrow> Lexer \<Rightarrow> QueryDiagnostic + Lexer" where
  "lex_string_body unquote origin raw escaped lx =
     (case lx_rest lx of
        [] \<Rightarrow> Inl (query_diagnostic ''query_string_unterminated'' Failure_Syntax ''lexer'' ''string'' origin
            ''string literal is unterminated'')
      | byte # _ \<Rightarrow>
          if \<not> escaped \<and> byte = CHR 0x22 then finish_string unquote origin (raw @ [byte]) (advance_ascii 1 lx)
          else if byte_in 0 31 byte then Inl (string_invalid origin)
          else
            let escaped = (\<not> escaped \<and> byte = CHR 0x5C) in
            if byte_in 0 127 byte then lex_string_body unquote origin (raw @ [byte]) escaped (advance_ascii 1 lx)
            else lex_string_body unquote origin (raw @ take (utf8_len byte) (lx_rest lx)) escaped
              (advance_character (utf8_len byte) lx))"
  by pat_completeness auto
termination
  by (relation "measure (\<lambda>(unquote, origin, raw, escaped, lx). length (lx_rest lx))")
    (auto simp: advance_ascii_def advance_character_def)

declare lex_string_body.simps [simp del]

definition lex_string :: "unquoter \<Rightarrow> Lexer \<Rightarrow> QueryDiagnostic + Lexer" where
  "lex_string unquote lx = lex_string_body unquote (lexer_origin lx) (take 1 (lx_rest lx)) False (advance_ascii 1 lx)"

text \<open>The arms of the match for punctuation: how many bytes, and which token.\<close>

definition fixed_token :: "char \<Rightarrow> char option \<Rightarrow> (nat \<times> TokenKind) option" where
  "fixed_token c ahead =
     (if c = CHR ''('' then Some (1, Tok_LeftParen)
      else if c = CHR '')'' then Some (1, Tok_RightParen)
      else if c = CHR ''['' then Some (1, Tok_LeftBracket)
      else if c = CHR '']'' then Some (1, Tok_RightBracket)
      else if c = CHR '','' then Some (1, Tok_Comma)
      else if c = CHR '':'' then Some (1, Tok_Colon)
      else if c = CHR '';'' then Some (1, Tok_Semicolon)
      else if c = CHR ''|'' then Some (1, Tok_Pipe)
      else if c = CHR ''*'' then Some (1, Tok_Star)
      else if c = CHR ''='' then Some (1, Tok_Equal)
      else if c = CHR ''!'' \<and> ahead = Some (CHR ''='') then Some (2, Tok_NotEqual)
      else if c = CHR ''<'' \<and> ahead = Some (CHR ''='') then Some (2, Tok_LessOrEqual)
      else if c = CHR ''<'' \<and> ahead = Some (CHR ''-'') then Some (2, Tok_ArrowLeft)
      else if c = CHR ''<'' then Some (1, Tok_Less)
      else if c = CHR ''>'' \<and> ahead = Some (CHR ''='') then Some (2, Tok_GreaterOrEqual)
      else if c = CHR ''>'' then Some (1, Tok_Greater)
      else if c = CHR ''-'' \<and> ahead = Some (CHR ''>'') then Some (2, Tok_ArrowRight)
      else if c = CHR ''-'' then Some (1, Tok_Dash)
      else if c = CHR ''.'' \<and> ahead = Some (CHR ''.'') then Some (2, Tok_Range)
      else if c = CHR ''.'' then Some (1, Tok_Dot)
      else None)"

text \<open>One round of the loop, for the first byte and the one after it.\<close>

definition lex_step :: "unquoter \<Rightarrow> char \<Rightarrow> char option \<Rightarrow> Lexer \<Rightarrow> QueryDiagnostic + Lexer" where
  "lex_step unquote c ahead lx =
     (if c = CHR 0x20 \<or> c = CHR 0x09 \<or> c = CHR 0x0D then Inr (advance_ascii 1 lx)
      else if c = CHR 0x0A then Inr (advance_newline lx)
      else if is_ascii_alphabetic c \<or> c = CHR ''_'' then lex_identifier lx
      else if is_ascii_digit c then lex_unsigned lx
      else if c = CHR 0x22 then lex_string unquote lx
      else case fixed_token c ahead of
          Some (n, kind) \<Rightarrow> lex_fixed n kind lx
        | None \<Rightarrow> Inl (query_diagnostic ''query_lex_invalid_character'' Failure_Syntax ''lexer'' ''invalid_character''
            (lexer_origin lx) ''query contains a character outside the grammar''))"

text \<open>Every round that succeeds reads at least one byte.\<close>

lemma push_token_Inr: "push_token kind origin lx = Inr lx' \<Longrightarrow> lx_rest lx' = lx_rest lx"
  by (auto simp: push_token_def split: if_splits)

lemma lex_string_body_Inr: "lex_string_body unquote origin raw escaped lx = Inr lx' \<Longrightarrow> length (lx_rest lx') \<le> length (lx_rest lx)"
proof (induction unquote origin raw escaped lx rule: lex_string_body.induct)
  case (1 unquote origin raw escaped lx)
  show ?case
  proof (cases "lx_rest lx")
    case Nil
    then show ?thesis using "1.prems" by (simp add: lex_string_body.simps)
  next
    case (Cons byte rest)
    note run = "1.prems" [unfolded lex_string_body.simps [of unquote origin raw escaped lx] Cons list.case Let_def]
    show ?thesis
    proof (cases "\<not> escaped \<and> byte = CHR 0x22")
      case True
      have "finish_string unquote origin (raw @ [byte]) (advance_ascii 1 lx) = Inr lx'"
        using run unfolding if_P [OF True] .
      then show ?thesis
        by (auto simp: finish_string_def advance_ascii_def split: option.splits if_splits dest!: push_token_Inr)
    next
      case quote: False
      note run = run [unfolded if_not_P [OF quote]]
      show ?thesis
      proof (cases "byte_in 0 31 byte")
        case True
        then show ?thesis using run by simp
      next
        case control: False
        note run = run [unfolded if_not_P [OF control]]
        show ?thesis
        proof (cases "byte_in 0 127 byte")
          case True
          have "length (lx_rest lx') \<le> length (lx_rest (advance_ascii 1 lx))"
            by (rule "1.IH"(1) [OF Cons quote control refl True]) (use run in \<open>simp only: True if_True\<close>)
          then show ?thesis by (simp add: advance_ascii_def)
        next
          case False
          have "length (lx_rest lx') \<le> length (lx_rest (advance_character (utf8_len byte) lx))"
            by (rule "1.IH"(2) [OF Cons quote control refl False]) (use run Cons in \<open>simp only: False if_False\<close>)
          then show ?thesis by (simp add: advance_character_def)
        qed
      qed
    qed
  qed
qed

lemma fixed_token_pos: "fixed_token c ahead = Some (n, kind) \<Longrightarrow> 0 < n"
  by (simp add: fixed_token_def split: if_splits)

lemma lex_step_reads:
  assumes "lex_step unquote c ahead lx = Inr lx'" and "lx_rest lx = c # cs"
  shows "length (lx_rest lx') < length (lx_rest lx)"
proof -
  have fixed: "length (lx_rest lx') < length (lx_rest lx)" if "lex_fixed n kind lx = Inr lx'" "fixed_token c ahead = Some (n, kind)" for n kind
    using that fixed_token_pos [OF that(2)] assms(2) by (auto simp: lex_fixed_def advance_ascii_def dest!: push_token_Inr)
  have ident: "length (lx_rest lx') < length (lx_rest lx)" if "lex_identifier lx = Inr lx'" "is_ascii_alphabetic c \<or> c = CHR ''_''"
    using that assms(2)
    by (auto simp: lex_identifier_def advance_ascii_def is_identifier_byte_def is_ascii_alphanumeric_def Let_def
      split: if_splits dest!: push_token_Inr)
  have unsigned: "length (lx_rest lx') < length (lx_rest lx)" if "lex_unsigned lx = Inr lx'" "is_ascii_digit c"
    using that assms(2)
    by (auto simp: lex_unsigned_def advance_ascii_def Let_def split: if_splits option.splits dest!: push_token_Inr)
  have str: "length (lx_rest lx') < length (lx_rest lx)" if "lex_string unquote lx = Inr lx'"
    using lex_string_body_Inr [OF that [unfolded lex_string_def]] assms(2) by (simp add: advance_ascii_def)
  have step: "(if c = CHR 0x20 \<or> c = CHR 0x09 \<or> c = CHR 0x0D then Inr (advance_ascii 1 lx)
      else if c = CHR 0x0A then Inr (advance_newline lx)
      else if is_ascii_alphabetic c \<or> c = CHR ''_'' then lex_identifier lx
      else if is_ascii_digit c then lex_unsigned lx
      else if c = CHR 0x22 then lex_string unquote lx
      else case fixed_token c ahead of Some (n, kind) \<Rightarrow> lex_fixed n kind lx
        | None \<Rightarrow> Inl (query_diagnostic ''query_lex_invalid_character'' Failure_Syntax ''lexer'' ''invalid_character''
            (lexer_origin lx) ''query contains a character outside the grammar'')) = Inr lx'"
    using assms(1) by (simp only: lex_step_def)
  show ?thesis
  proof (cases "c = CHR 0x20 \<or> c = CHR 0x09 \<or> c = CHR 0x0D")
    case True
    have "lx' = advance_ascii 1 lx" using step unfolding if_P [OF True] by simp
    then show ?thesis using assms(2) by (simp add: advance_ascii_def)
  next
    case blank: False
    note step = step [unfolded if_not_P [OF blank]]
    show ?thesis
    proof (cases "c = CHR 0x0A")
      case True
      have "lx' = advance_newline lx" using step unfolding if_P [OF True] by simp
      then show ?thesis using assms(2) by (simp add: advance_newline_def)
    next
      case newline: False
      note step = step [unfolded if_not_P [OF newline]]
      show ?thesis
      proof (cases "is_ascii_alphabetic c \<or> c = CHR ''_''")
        case True
        have "lex_identifier lx = Inr lx'" using step unfolding if_P [OF True] .
        then show ?thesis using True by (rule ident)
      next
        case word: False
        note step = step [unfolded if_not_P [OF word]]
        show ?thesis
        proof (cases "is_ascii_digit c")
          case True
          have "lex_unsigned lx = Inr lx'" using step unfolding if_P [OF True] .
          then show ?thesis using True by (rule unsigned)
        next
          case digit: False
          note step = step [unfolded if_not_P [OF digit]]
          show ?thesis
          proof (cases "c = CHR 0x22")
            case True
            show ?thesis using step unfolding if_P [OF True] by (rule str)
          next
            case False
            show ?thesis
              using step [unfolded if_not_P [OF False]] by (cases "fixed_token c ahead") (auto intro: fixed)
          qed
        qed
      qed
    qed
  qed
qed

function lex_loop :: "unquoter \<Rightarrow> Lexer \<Rightarrow> QueryDiagnostic + Token list" where
  "lex_loop unquote lx =
     (case lx_rest lx of
        [] \<Rightarrow> Inr (lx_tokens lx @ [\<lparr>tok_kind = Tok_End, tok_origin = lexer_origin lx\<rparr>])
      | c # cs \<Rightarrow> sum_bind (lex_step unquote c (if cs = [] then None else Some (hd cs)) lx) (lex_loop unquote))"
  by pat_completeness auto
termination
  by (relation "measure (\<lambda>(unquote, lx). length (lx_rest lx))") (auto dest: lex_step_reads)

declare lex_loop.simps [simp del]

definition lex :: "unquoter \<Rightarrow> string \<Rightarrow> QueryDiagnostic + Token list" where
  "lex unquote input = lex_loop unquote (new_lexer input)"

end
