(* ===== verification/Query_Parse.thy ===== *)
theory Query_Parse
  imports Query_Lex
begin

text \<open>
  The parser of the bounded query language: \<^verbatim>\<open>Parser\<close> and \<^verbatim>\<open>parse_bounded_query_bytes\<close> of
  \<^verbatim>\<open>crates/depgraph-core/src/bounded_query.rs\<close>. The parser keeps the tokens from its index on and the number of
  existential quantifiers read; \<open>consume_\<close> operations return the advanced parser where the code returns true.
\<close>

section \<open>Limits\<close>

definition MAX_QUERY_AST_NODES :: nat where [limit_simps]: "MAX_QUERY_AST_NODES = 512"

definition MAX_QUERY_EXPRESSION_NESTING :: nat where [limit_simps]: "MAX_QUERY_EXPRESSION_NESTING = 16"

definition MAX_QUERY_EXISTENTIAL_PREDICATES :: nat where [limit_simps]: "MAX_QUERY_EXISTENTIAL_PREDICATES = 16"

definition MAX_QUERY_LIST_LITERALS :: nat where [limit_simps]: "MAX_QUERY_LIST_LITERALS = 64"

definition MAX_QUERY_PROJECTIONS :: nat where [limit_simps]: "MAX_QUERY_PROJECTIONS = 32"

definition MAX_QUERY_DEPTH :: nat where [limit_simps]: "MAX_QUERY_DEPTH = 8"

definition MAX_QUERY_LIMIT :: nat where [limit_simps]: "MAX_QUERY_LIMIT = 10000"

section \<open>Canonical source expressions\<close>

definition field_json :: "FieldReference \<Rightarrow> json" where
  "field_json f = Object [(''binding'', String (ref_binding f)), (''field'', String (ref_field f))]"

definition scalar_json :: "ScalarPredicate \<Rightarrow> json" where
  "scalar_json p = Object [(''field'', field_json (pred_field p)), (''operator'', operator_json (pred_operator p))]"

fun entity_json :: "EntityExpression \<Rightarrow> json" where
  "entity_json (Entity_Or es) = tagged ''or'' (Array (map entity_json es))"
| "entity_json (Entity_And es) = tagged ''and'' (Array (map entity_json es))"
| "entity_json (Entity_Not e) = tagged ''not'' (entity_json e)"
| "entity_json (Entity_Scalar p) = tagged ''scalar'' (scalar_json p)"

fun quantifier_kind_name :: "QuantifierKind \<Rightarrow> string" where
  "quantifier_kind_name EveryEdge = ''every_edge''"
| "quantifier_kind_name SomeSite = ''some_site''"
| "quantifier_kind_name SomeEvidence = ''some_evidence''"

definition quantifier_json :: "QuantifierPredicate \<Rightarrow> json" where
  "quantifier_json q = Object [(''kind'', String (quantifier_kind_name (quant_kind q))), (''binding'', String (quant_binding q)),
     (''path_binding'', String (quant_path_binding q)), (''expression'', entity_json (quant_expression q))]"

fun expression_json :: "Expression \<Rightarrow> json" where
  "expression_json (Expr_Or es) = tagged ''or'' (Array (map expression_json es))"
| "expression_json (Expr_And es) = tagged ''and'' (Array (map expression_json es))"
| "expression_json (Expr_Not e) = tagged ''not'' (expression_json e)"
| "expression_json (Expr_Scalar p) = tagged ''scalar'' (scalar_json p)"
| "expression_json (Expr_Quantifier q) = tagged ''quantifier'' (quantifier_json q)"

fun source_or_children :: "Expression \<Rightarrow> Expression list" where
  "source_or_children (Expr_Or children) = children"
| "source_or_children e = [e]"

fun source_and_children :: "Expression \<Rightarrow> Expression list" where
  "source_and_children (Expr_And children) = children"
| "source_and_children e = [e]"

fun source_entity_or_children :: "EntityExpression \<Rightarrow> EntityExpression list" where
  "source_entity_or_children (Entity_Or children) = children"
| "source_entity_or_children e = [e]"

fun source_entity_and_children :: "EntityExpression \<Rightarrow> EntityExpression list" where
  "source_entity_and_children (Entity_And children) = children"
| "source_entity_and_children e = [e]"

definition source_expression_or :: "externals \<Rightarrow> Expression list \<Rightarrow> Expression" where
  "source_expression_or E terms = collapse Expr_Or (canonical_sort E expression_json (concat (map source_or_children terms)))"

definition source_expression_and :: "externals \<Rightarrow> Expression list \<Rightarrow> Expression" where
  "source_expression_and E terms = collapse Expr_And (canonical_sort E expression_json (concat (map source_and_children terms)))"

definition source_entity_or :: "externals \<Rightarrow> EntityExpression list \<Rightarrow> EntityExpression" where
  "source_entity_or E terms = collapse Entity_Or (canonical_sort E entity_json (concat (map source_entity_or_children terms)))"

definition source_entity_and :: "externals \<Rightarrow> EntityExpression list \<Rightarrow> EntityExpression" where
  "source_entity_and E terms = collapse Entity_And (canonical_sort E entity_json (concat (map source_entity_and_children terms)))"

section \<open>Node counts\<close>

definition node_pattern_count :: "NodePattern \<Rightarrow> nat" where
  "node_pattern_count pattern = 1 + (if pattern_kind pattern \<noteq> None then 1 else 0)"

definition relationship_count :: "RelationshipPattern \<Rightarrow> nat" where
  "relationship_count pattern = 1 + length (rel_kinds pattern) + 2"

fun operator_count :: "ScalarOperator \<Rightarrow> nat" where
  "operator_count (Op_In literals) = 1 + length literals"
| "operator_count _ = 1"

definition scalar_predicate_count :: "ScalarPredicate \<Rightarrow> nat" where
  "scalar_predicate_count predicate = 2 + operator_count (pred_operator predicate)"

fun entity_expression_count :: "EntityExpression \<Rightarrow> nat" where
  "entity_expression_count (Entity_Or terms) = 1 + sum_list (map entity_expression_count terms)"
| "entity_expression_count (Entity_And terms) = 1 + sum_list (map entity_expression_count terms)"
| "entity_expression_count (Entity_Not e) = 1 + entity_expression_count e"
| "entity_expression_count (Entity_Scalar predicate) = 1 + scalar_predicate_count predicate"

fun expression_count :: "Expression \<Rightarrow> nat" where
  "expression_count (Expr_Or terms) = 1 + sum_list (map expression_count terms)"
| "expression_count (Expr_And terms) = 1 + sum_list (map expression_count terms)"
| "expression_count (Expr_Not e) = 1 + expression_count e"
| "expression_count (Expr_Scalar predicate) = 1 + scalar_predicate_count predicate"
| "expression_count (Expr_Quantifier predicate) = 1 + (1 + entity_expression_count (quant_expression predicate))"

fun projection_count :: "Projection \<Rightarrow> nat" where
  "projection_count (Project_Binding _) = 1"
| "projection_count (Project_Field _) = 2"

definition order_item_count :: "OrderItem \<Rightarrow> nat" where
  "order_item_count item = 1 + projection_count (order_projection item)"

definition ast_node_count :: "QueryAst \<Rightarrow> nat" where
  "ast_node_count ast =
     1 + 1
     + node_pattern_count (match_source (ast_match_clause ast))
     + relationship_count (match_relationship (ast_match_clause ast))
     + node_pattern_count (match_target (ast_match_clause ast))
     + (case ast_where_clause ast of None \<Rightarrow> 0 | Some e \<Rightarrow> expression_count e)
     + 1
     + sum_list (map projection_count (return_projections (ast_return_clause ast)))
     + sum_list (map order_item_count (ast_order_by ast))
     + 1"

section \<open>The parser state\<close>

record Parser =
  pr_rest :: "Token list"
  pr_existential :: nat

type_synonym 'a parses = "QueryDiagnostic + 'a \<times> Parser"

definition new_parser :: "Token list \<Rightarrow> Parser" where
  "new_parser tokens = \<lparr>pr_rest = tokens, pr_existential = 0\<rparr>"

text \<open>
  The lexer closes the tokens with \<open>Tok_End\<close>, which no operation consumes: there is always a current token.
\<close>

definition end_token :: Token where
  "end_token = \<lparr>tok_kind = Tok_End, tok_origin = \<lparr>origin_line = 1, origin_column = 1, origin_byte_offset = 0\<rparr>\<rparr>"

definition current :: "Parser \<Rightarrow> Token" where
  "current p = (case pr_rest p of [] \<Rightarrow> end_token | t # _ \<Rightarrow> t)"

definition advance :: "Parser \<Rightarrow> Parser" where
  "advance p = p\<lparr>pr_rest := tl (pr_rest p)\<rparr>"

definition parser_error :: "string \<Rightarrow> QueryFailureClass \<Rightarrow> string \<Rightarrow> string \<Rightarrow> Parser \<Rightarrow> QueryDiagnostic" where
  "parser_error code failure clause message p =
     query_diagnostic code failure clause (token_class (tok_kind (current p))) (tok_origin (current p)) message"

fun is_keyword :: "string \<Rightarrow> TokenKind \<Rightarrow> bool" where
  "is_keyword keyword (Tok_Identifier v) \<longleftrightarrow> eq_ignore_ascii_case v keyword"
| "is_keyword keyword _ \<longleftrightarrow> False"

definition current_keyword :: "string \<Rightarrow> Parser \<Rightarrow> bool" where
  "current_keyword keyword p \<longleftrightarrow> is_keyword keyword (tok_kind (current p))"

definition consume_keyword :: "string \<Rightarrow> Parser \<Rightarrow> Parser option" where
  "consume_keyword keyword p = (if current_keyword keyword p then Some (advance p) else None)"

definition expect_keyword :: "string \<Rightarrow> string \<Rightarrow> Parser \<Rightarrow> QueryDiagnostic + Parser" where
  "expect_keyword keyword clause p =
     (case consume_keyword keyword p of
        Some p \<Rightarrow> Inr p
      | None \<Rightarrow> Inl (parser_error ''query_keyword_expected'' Failure_Syntax clause ''required keyword is missing'' p))"

definition expect_identifier :: "string \<Rightarrow> Parser \<Rightarrow> string parses" where
  "expect_identifier clause p =
     (case tok_kind (current p) of
        Tok_Identifier v \<Rightarrow> Inr (v, advance p)
      | _ \<Rightarrow> Inl (parser_error ''query_identifier_expected'' Failure_Syntax clause ''identifier is missing'' p))"

definition expect_string :: "string \<Rightarrow> Parser \<Rightarrow> string parses" where
  "expect_string clause p =
     (case tok_kind (current p) of
        Tok_String v \<Rightarrow> Inr (v, advance p)
      | _ \<Rightarrow> Inl (parser_error ''query_string_expected'' Failure_Syntax clause ''string literal is missing'' p))"

definition expect_unsigned :: "string \<Rightarrow> Parser \<Rightarrow> (nat \<times> QueryOrigin) parses" where
  "expect_unsigned clause p =
     (case tok_kind (current p) of
        Tok_Unsigned v \<Rightarrow> Inr ((v, tok_origin (current p)), advance p)
      | _ \<Rightarrow> Inl (parser_error ''query_unsigned_expected'' Failure_Syntax clause ''unsigned integer is missing'' p))"

text \<open>\<open>mem::discriminant\<close>: the classes name the constructors.\<close>

definition consume_simple :: "TokenKind \<Rightarrow> Parser \<Rightarrow> Parser option" where
  "consume_simple expected p = (if token_class (tok_kind (current p)) = token_class expected then Some (advance p) else None)"

definition expect_simple :: "TokenKind \<Rightarrow> string \<Rightarrow> Parser \<Rightarrow> QueryDiagnostic + Parser" where
  "expect_simple expected clause p =
     (case consume_simple expected p of
        Some p \<Rightarrow> Inr p
      | None \<Rightarrow> Inl (parser_error ''query_token_expected'' Failure_Syntax clause ''required grammar token is missing'' p))"

definition ensure_nesting :: "nat \<Rightarrow> string \<Rightarrow> Parser \<Rightarrow> QueryDiagnostic + unit" where
  "ensure_nesting nesting clause p =
     (if nesting > MAX_QUERY_EXPRESSION_NESTING
      then Inl (parser_error ''query_expression_nesting_exceeded'' Failure_Limit clause
        ''query exceeds the expression nesting limit'' p)
      else Inr ())"

text \<open>
  The loops \<open>while separator { items.push(item) }\<close>: \<open>separator\<close> is the parser after the separator, if there is one, and
  \<open>item\<close> sees the items so far. Every round consumes a token, so that the number of tokens bounds the rounds.
\<close>

fun parse_more :: "nat \<Rightarrow> (Parser \<Rightarrow> Parser option) \<Rightarrow> ('a list \<Rightarrow> Parser \<Rightarrow> 'a parses) \<Rightarrow> 'a list \<Rightarrow> Parser \<Rightarrow> 'a list parses" where
  "parse_more 0 separator item items p = Inr (items, p)"
| "parse_more (Suc rounds) separator item items p =
     (case separator p of
        None \<Rightarrow> Inr (items, p)
      | Some p \<Rightarrow> sum_bind (item items p) (\<lambda>(x, p). parse_more rounds separator item (items @ [x]) p))"

definition parse_list :: "(Parser \<Rightarrow> Parser option) \<Rightarrow> ('a list \<Rightarrow> Parser \<Rightarrow> 'a parses) \<Rightarrow> Parser \<Rightarrow> 'a list parses" where
  "parse_list separator item p =
     sum_bind (item [] p) (\<lambda>(x, p). parse_more (length (pr_rest p)) separator item [x] p)"

lemma parse_more_cong [fundef_cong]:
  assumes "rounds = rounds'" "separator = separator'" "\<And>xs q. item xs q = item' xs q" "items = items'" "p = p'"
  shows "parse_more rounds separator item items p = parse_more rounds' separator' item' items' p'"
proof -
  have "item = item'" by (intro ext) (rule assms(3))
  with assms show ?thesis by simp
qed

lemma parse_list_cong [fundef_cong]:
  assumes "separator = separator'" "\<And>xs q. item xs q = item' xs q" "p = p'"
  shows "parse_list separator item p = parse_list separator' item' p'"
proof -
  have "item = item'" by (intro ext) (rule assms(2))
  with assms show ?thesis by simp
qed

section \<open>Patterns\<close>

definition parse_node :: "string \<Rightarrow> Parser \<Rightarrow> NodePattern parses" where
  "parse_node clause p =
     sum_bind (expect_simple Tok_LeftParen clause p) (\<lambda>p.
     sum_bind (expect_identifier clause p) (\<lambda>(binding, p).
     sum_bind (case consume_simple Tok_Colon p of
         Some p \<Rightarrow> sum_bind (expect_string clause p) (\<lambda>(kind, p). Inr (Some kind, p))
       | None \<Rightarrow> Inr (None, p)) (\<lambda>(kind, p).
     sum_bind (expect_simple Tok_RightParen clause p) (\<lambda>p.
     Inr (\<lparr>pattern_binding = binding, pattern_kind = kind\<rparr>, p)))))"

definition checked_depth :: "nat \<Rightarrow> QueryOrigin \<Rightarrow> string \<Rightarrow> QueryDiagnostic + nat" where
  "checked_depth depth origin message =
     (if depth < 2 ^ 8 \<and> 1 \<le> depth \<and> depth \<le> MAX_QUERY_DEPTH then Inr depth
      else Inl (query_diagnostic ''query_depth_out_of_range'' Failure_Limit ''match'' ''unsigned_integer'' origin message))"

definition parse_relationship :: "Parser \<Rightarrow> RelationshipPattern parses" where
  "parse_relationship p =
     sum_bind (case consume_simple Tok_ArrowLeft p of
         Some p \<Rightarrow> Inr (Direction_Reverse, p)
       | None \<Rightarrow> sum_bind (expect_simple Tok_Dash ''match'' p) (\<lambda>p. Inr (Direction_Forward, p))) (\<lambda>(direction, p).
     sum_bind (expect_simple Tok_LeftBracket ''match'' p) (\<lambda>p.
     sum_bind (parse_list (consume_simple Tok_Pipe) (\<lambda>_. expect_string ''match'') p) (\<lambda>(kinds, p).
     if has_adjacent_duplicate (sort kinds)
     then Inl (parser_error ''query_duplicate_relationship_kind'' Failure_Syntax ''match''
       ''relationship kind set contains a duplicate'' p)
     else
     sum_bind (expect_simple Tok_Star ''match'' p) (\<lambda>p.
     sum_bind (expect_unsigned ''match'' p) (\<lambda>((min_depth, min_origin), p).
     sum_bind (expect_simple Tok_Range ''match'' p) (\<lambda>p.
     sum_bind (expect_unsigned ''match'' p) (\<lambda>((max_depth, max_origin), p).
     sum_bind (expect_simple Tok_RightBracket ''match'' p) (\<lambda>p.
     sum_bind (expect_simple (case direction of Direction_Forward \<Rightarrow> Tok_ArrowRight | Direction_Reverse \<Rightarrow> Tok_Dash) ''match'' p) (\<lambda>p.
     sum_bind (checked_depth min_depth min_origin ''minimum depth is outside the bounded range'') (\<lambda>min_depth.
     sum_bind (checked_depth max_depth max_origin ''maximum depth is outside the bounded range'') (\<lambda>max_depth.
     if min_depth > max_depth
     then Inl (query_diagnostic ''query_depth_range_invalid'' Failure_Syntax ''match'' ''unsigned_integer'' min_origin
       ''minimum depth exceeds maximum depth'')
     else Inr (\<lparr>rel_direction = direction, rel_kinds = sort kinds, rel_min_depth = min_depth, rel_max_depth = max_depth\<rparr>, p))))))))))))"

section \<open>Scalar predicates and projections\<close>

definition parse_field :: "string \<Rightarrow> Parser \<Rightarrow> FieldReference parses" where
  "parse_field clause p =
     sum_bind (expect_identifier clause p) (\<lambda>(binding, p).
     sum_bind (expect_simple Tok_Dot clause p) (\<lambda>p.
     sum_bind (expect_identifier clause p) (\<lambda>(field, p). Inr (\<lparr>ref_binding = binding, ref_field = field\<rparr>, p))))"

definition parse_literal :: "string \<Rightarrow> Parser \<Rightarrow> Literal parses" where
  "parse_literal clause p =
     (let kind = tok_kind (current p);
          failure = parser_error ''query_literal_expected'' Failure_Syntax clause ''literal is missing or outside the grammar'' p in
      case kind of
        Tok_String v \<Rightarrow> Inr (Lit_String v, advance p)
      | Tok_Unsigned v \<Rightarrow> Inr (Lit_Unsigned v, advance p)
      | Tok_Identifier v \<Rightarrow>
          if eq_ignore_ascii_case v ''true'' then Inr (Lit_Boolean True, advance p)
          else if eq_ignore_ascii_case v ''false'' then Inr (Lit_Boolean False, advance p)
          else if eq_ignore_ascii_case v ''null'' then Inr (Lit_Null, advance p)
          else Inl failure
      | _ \<Rightarrow> Inl failure)"

definition parse_literal_list :: "string \<Rightarrow> Parser \<Rightarrow> ScalarOperator parses" where
  "parse_literal_list clause p =
     sum_bind (expect_simple Tok_LeftBracket clause p) (\<lambda>p.
     sum_bind (parse_list (consume_simple Tok_Comma) (\<lambda>literals p.
         if length literals \<ge> MAX_QUERY_LIST_LITERALS
         then Inl (parser_error ''query_list_literal_limit_exceeded'' Failure_Limit clause
           ''query exceeds the list literal limit'' p)
         else parse_literal clause p) p) (\<lambda>(literals, p).
     sum_bind (expect_simple Tok_RightBracket clause p) (\<lambda>p.
     if has_adjacent_duplicate (sort literals)
     then Inl (parser_error ''query_duplicate_list_literal'' Failure_Syntax clause ''IN list contains a duplicate literal'' p)
     else Inr (Op_In (sort literals), p))))"

text \<open>The comparisons, in the order the code tries them.\<close>

definition COMPARISONS :: "(TokenKind \<times> (Literal \<Rightarrow> ScalarOperator)) list" where
  "COMPARISONS = [(Tok_Equal, Op_Equal), (Tok_NotEqual, Op_NotEqual), (Tok_Less, Op_Less), (Tok_LessOrEqual, Op_LessOrEqual),
     (Tok_Greater, Op_Greater), (Tok_GreaterOrEqual, Op_GreaterOrEqual)]"

fun consume_comparison :: "(TokenKind \<times> (Literal \<Rightarrow> ScalarOperator)) list \<Rightarrow> Parser \<Rightarrow> ((Literal \<Rightarrow> ScalarOperator) \<times> Parser) option" where
  "consume_comparison [] p = None"
| "consume_comparison ((token, operator) # rest) p =
     (case consume_simple token p of Some p \<Rightarrow> Some (operator, p) | None \<Rightarrow> consume_comparison rest p)"

definition parse_operator :: "string \<Rightarrow> Parser \<Rightarrow> ScalarOperator parses" where
  "parse_operator clause p =
     (case consume_comparison COMPARISONS p of
        Some (operator, p) \<Rightarrow> sum_bind (parse_literal clause p) (\<lambda>(literal, p). Inr (operator literal, p))
      | None \<Rightarrow> (case consume_keyword ''STARTS'' p of
        Some p \<Rightarrow> sum_bind (expect_keyword ''WITH'' clause p) (\<lambda>p.
          sum_bind (parse_literal clause p) (\<lambda>(literal, p). Inr (Op_StartsWith literal, p)))
      | None \<Rightarrow> (case consume_keyword ''IN'' p of
        Some p \<Rightarrow> parse_literal_list clause p
      | None \<Rightarrow> Inl (parser_error ''query_scalar_operator_expected'' Failure_Syntax clause
          ''scalar operator is missing or outside the grammar'' p))))"

definition parse_scalar_predicate :: "string \<Rightarrow> Parser \<Rightarrow> ScalarPredicate parses" where
  "parse_scalar_predicate clause p =
     sum_bind (parse_field clause p) (\<lambda>(field, p).
     sum_bind (parse_operator clause p) (\<lambda>(operator, p). Inr (\<lparr>pred_field = field, pred_operator = operator\<rparr>, p)))"

definition parse_projection :: "string \<Rightarrow> Parser \<Rightarrow> Projection parses" where
  "parse_projection clause p =
     sum_bind (expect_identifier clause p) (\<lambda>(binding, p).
     case consume_simple Tok_Dot p of
       Some p \<Rightarrow> sum_bind (expect_identifier clause p) (\<lambda>(field, p).
         Inr (Project_Field \<lparr>ref_binding = binding, ref_field = field\<rparr>, p))
     | None \<Rightarrow> Inr (Project_Binding binding, p))"

definition parse_order_item :: "Parser \<Rightarrow> OrderItem parses" where
  "parse_order_item p =
     sum_bind (parse_projection ''order_by'' p) (\<lambda>(projection, p).
     case consume_keyword ''DESC'' p of
       Some p \<Rightarrow> Inr (\<lparr>order_projection = projection, order_direction = Descending\<rparr>, p)
     | None \<Rightarrow> Inr (\<lparr>order_projection = projection, order_direction = Ascending\<rparr>,
         case consume_keyword ''ASC'' p of Some p \<Rightarrow> p | None \<Rightarrow> p))"

section \<open>Expressions over an entity\<close>

text \<open>
  \<open>entity_term_starts_at\<close>: whether the tokens begin with \<open>NOT\<close>s and parentheses and then a field of the binding.
\<close>

definition skip_not :: "Token list \<Rightarrow> Token list" where
  "skip_not tokens = (case tokens of t # ts \<Rightarrow> if is_keyword ''NOT'' (tok_kind t) then ts else tokens | [] \<Rightarrow> [])"

lemma skip_not_length [termination_simp]: "length (skip_not tokens) < Suc (length tokens)"
  by (simp add: skip_not_def less_Suc_eq_le split: list.split)

fun skip_open :: "Token list \<Rightarrow> Token list" where
  "skip_open [] = []"
| "skip_open (t # ts) = (if tok_kind t = Tok_LeftParen then skip_open (skip_not ts) else t # ts)"

definition entity_term_starts :: "string \<Rightarrow> Token list \<Rightarrow> bool" where
  "entity_term_starts binding tokens \<longleftrightarrow>
     (case skip_open (skip_not tokens) of
        t # u # _ \<Rightarrow> tok_kind t = Tok_Identifier binding \<and> tok_kind u = Tok_Dot
      | _ \<Rightarrow> False)"

definition continues :: "string \<Rightarrow> string \<Rightarrow> Parser \<Rightarrow> Parser option" where
  "continues keyword binding p =
     (if current_keyword keyword p \<and> entity_term_starts binding (tl (pr_rest p)) then Some (advance p) else None)"

function parse_entity_expression :: "externals \<Rightarrow> nat \<Rightarrow> string \<Rightarrow> Parser \<Rightarrow> EntityExpression parses"
  and parse_entity_and_expression :: "externals \<Rightarrow> nat \<Rightarrow> string \<Rightarrow> Parser \<Rightarrow> EntityExpression parses"
  and parse_entity_term :: "externals \<Rightarrow> nat \<Rightarrow> string \<Rightarrow> Parser \<Rightarrow> EntityExpression parses" where
  "parse_entity_expression E nesting binding p =
     sum_bind (ensure_nesting nesting ''where'' p) (\<lambda>_.
     sum_bind (parse_list (continues ''OR'' binding) (\<lambda>_. parse_entity_and_expression E nesting binding) p) (\<lambda>(terms, p).
     Inr (source_entity_or E terms, p)))"
| "parse_entity_and_expression E nesting binding p =
     sum_bind (parse_list (continues ''AND'' binding) (\<lambda>_. parse_entity_term E nesting binding) p) (\<lambda>(terms, p).
     Inr (source_entity_and E terms, p))"
| "parse_entity_term E nesting binding p =
     (let negated = consume_keyword ''NOT'' p;
          p = (case negated of Some p \<Rightarrow> p | None \<Rightarrow> p) in
      sum_bind
        (case consume_simple Tok_LeftParen p of
           Some p \<Rightarrow>
             sum_bind (ensure_nesting (nesting + 1) ''where'' p) (\<lambda>_.
             sum_bind (parse_entity_expression E (nesting + 1) binding p) (\<lambda>(expression, p).
             sum_bind (expect_simple Tok_RightParen ''where'' p) (\<lambda>p. Inr (expression, p))))
         | None \<Rightarrow> sum_bind (parse_scalar_predicate ''where'' p) (\<lambda>(predicate, p). Inr (Entity_Scalar predicate, p)))
        (\<lambda>(expression, p). Inr (if negated \<noteq> None then Entity_Not expression else expression, p)))"
  by pat_completeness auto
termination
  by (relation "measure (\<lambda>x. case x of
      Inl (E, nesting, binding, p) \<Rightarrow> 3 * (17 - nesting) + 2
    | Inr (Inl (E, nesting, binding, p)) \<Rightarrow> 3 * (17 - nesting) + 1
    | Inr (Inr (E, nesting, binding, p)) \<Rightarrow> 3 * (17 - nesting))") (auto simp: ensure_nesting_def MAX_QUERY_EXPRESSION_NESTING_def split: if_splits)

declare parse_entity_expression.simps [simp del]
declare parse_entity_and_expression.simps [simp del]
declare parse_entity_term.simps [simp del]

section \<open>Expressions over a path\<close>

definition quantifier_kind :: "bool \<Rightarrow> Parser \<Rightarrow> QuantifierKind parses" where
  "quantifier_kind every p =
     (if every then sum_bind (expect_keyword ''EDGES'' ''where'' p) (\<lambda>p. Inr (EveryEdge, p))
      else (case consume_keyword ''SITES'' p of
        Some p \<Rightarrow> Inr (SomeSite, p)
      | None \<Rightarrow> (case consume_keyword ''EVIDENCE'' p of
        Some p \<Rightarrow> Inr (SomeEvidence, p)
      | None \<Rightarrow> Inl (parser_error ''query_quantifier_collection_invalid'' Failure_Syntax ''where''
          ''quantifier collection is outside the grammar'' p))))"

text \<open>The leading \<open>EVERY\<close> or \<open>SOME\<close>, which is counted.\<close>

definition quantifier_word :: "Parser \<Rightarrow> bool parses" where
  "quantifier_word p =
     (case consume_keyword ''EVERY'' p of
        Some p \<Rightarrow> Inr (True, p)
      | None \<Rightarrow>
          sum_bind (expect_keyword ''SOME'' ''where'' p) (\<lambda>p.
          let p = p\<lparr>pr_existential := pr_existential p + 1\<rparr> in
          if pr_existential p > MAX_QUERY_EXISTENTIAL_PREDICATES
          then Inl (parser_error ''query_existential_limit_exceeded'' Failure_Limit ''where''
            ''query exceeds the existential predicate limit'' p)
          else Inr (False, p)))"

definition parse_quantifier :: "externals \<Rightarrow> nat \<Rightarrow> Parser \<Rightarrow> QuantifierPredicate parses" where
  "parse_quantifier E nesting p =
     sum_bind (ensure_nesting nesting ''where'' p) (\<lambda>_.
     sum_bind (quantifier_word p) (\<lambda>(every, p).
     sum_bind (expect_identifier ''where'' p) (\<lambda>(binding, p).
     sum_bind (expect_keyword ''IN'' ''where'' p) (\<lambda>p.
     sum_bind (quantifier_kind every p) (\<lambda>(kind, p).
     sum_bind (expect_simple Tok_LeftParen ''where'' p) (\<lambda>p.
     sum_bind (expect_identifier ''where'' p) (\<lambda>(path_binding, p).
     sum_bind (expect_simple Tok_RightParen ''where'' p) (\<lambda>p.
     sum_bind (expect_keyword ''SATISFIES'' ''where'' p) (\<lambda>p.
     sum_bind (parse_entity_expression E nesting binding p) (\<lambda>(expression, p).
     Inr (\<lparr>quant_kind = kind, quant_binding = binding, quant_path_binding = path_binding, quant_expression = expression\<rparr>, p)))))))))))"

function parse_expression :: "externals \<Rightarrow> nat \<Rightarrow> Parser \<Rightarrow> Expression parses"
  and parse_and_expression :: "externals \<Rightarrow> nat \<Rightarrow> Parser \<Rightarrow> Expression parses"
  and parse_not_expression :: "externals \<Rightarrow> nat \<Rightarrow> Parser \<Rightarrow> Expression parses"
  and parse_primary_expression :: "externals \<Rightarrow> nat \<Rightarrow> Parser \<Rightarrow> Expression parses" where
  "parse_expression E nesting p =
     sum_bind (ensure_nesting nesting ''where'' p) (\<lambda>_.
     sum_bind (parse_list (consume_keyword ''OR'') (\<lambda>_. parse_and_expression E nesting) p) (\<lambda>(terms, p).
     Inr (source_expression_or E terms, p)))"
| "parse_and_expression E nesting p =
     sum_bind (parse_list (consume_keyword ''AND'') (\<lambda>_. parse_not_expression E nesting) p) (\<lambda>(terms, p).
     Inr (source_expression_and E terms, p))"
| "parse_not_expression E nesting p =
     (let negated = consume_keyword ''NOT'' p;
          p = (case negated of Some p \<Rightarrow> p | None \<Rightarrow> p) in
      sum_bind (parse_primary_expression E nesting p) (\<lambda>(expression, p).
      Inr (if negated \<noteq> None then Expr_Not expression else expression, p)))"
| "parse_primary_expression E nesting p =
     (case consume_simple Tok_LeftParen p of
        Some p \<Rightarrow>
          sum_bind (ensure_nesting (nesting + 1) ''where'' p) (\<lambda>_.
          sum_bind (parse_expression E (nesting + 1) p) (\<lambda>(expression, p).
          sum_bind (expect_simple Tok_RightParen ''where'' p) (\<lambda>p. Inr (expression, p))))
      | None \<Rightarrow>
          if current_keyword ''EVERY'' p \<or> current_keyword ''SOME'' p
          then sum_bind (parse_quantifier E (nesting + 1) p) (\<lambda>(q, p). Inr (Expr_Quantifier q, p))
          else sum_bind (parse_scalar_predicate ''where'' p) (\<lambda>(predicate, p). Inr (Expr_Scalar predicate, p)))"
  by pat_completeness auto
termination
  by (relation "measure (\<lambda>x. case x of
      Inl (Inl (E, nesting, p)) \<Rightarrow> 4 * (17 - nesting) + 3
    | Inl (Inr (E, nesting, p)) \<Rightarrow> 4 * (17 - nesting) + 2
    | Inr (Inl (E, nesting, p)) \<Rightarrow> 4 * (17 - nesting) + 1
    | Inr (Inr (E, nesting, p)) \<Rightarrow> 4 * (17 - nesting))")
    (auto simp: ensure_nesting_def MAX_QUERY_EXPRESSION_NESTING_def split: if_splits)

declare parse_expression.simps [simp del]
declare parse_and_expression.simps [simp del]
declare parse_not_expression.simps [simp del]
declare parse_primary_expression.simps [simp del]

section \<open>The query\<close>

definition parse_match :: "Parser \<Rightarrow> MatchClause parses" where
  "parse_match p =
     sum_bind (expect_keyword ''MATCH'' ''match'' p) (\<lambda>p.
     sum_bind (expect_identifier ''match'' p) (\<lambda>(path_binding, p).
     sum_bind (expect_simple Tok_Equal ''match'' p) (\<lambda>p.
     sum_bind (parse_node ''match'' p) (\<lambda>(source, p).
     sum_bind (parse_relationship p) (\<lambda>(relationship, p).
     sum_bind (parse_node ''match'' p) (\<lambda>(target, p).
     Inr (\<lparr>match_path_binding = path_binding, match_source = source, match_relationship = relationship,
       match_target = target\<rparr>, p)))))))"

definition parse_where :: "externals \<Rightarrow> Parser \<Rightarrow> Expression option parses" where
  "parse_where E p =
     (case consume_keyword ''WHERE'' p of
        Some p \<Rightarrow> sum_bind (parse_expression E 0 p) (\<lambda>(e, p). Inr (Some e, p))
      | None \<Rightarrow> Inr (None, p))"

definition parse_return :: "Parser \<Rightarrow> ReturnClause parses" where
  "parse_return p =
     sum_bind (expect_keyword ''RETURN'' ''return'' p) (\<lambda>p.
     let distinct_word = consume_keyword ''DISTINCT'' p;
         p = (case distinct_word of Some p \<Rightarrow> p | None \<Rightarrow> p) in
     sum_bind (parse_list (consume_simple Tok_Comma) (\<lambda>projections p.
         if length projections \<ge> MAX_QUERY_PROJECTIONS
         then Inl (parser_error ''query_projection_limit_exceeded'' Failure_Limit ''return''
           ''query exceeds the projection limit'' p)
         else parse_projection ''return'' p) p) (\<lambda>(projections, p).
     Inr (\<lparr>return_distinct = (distinct_word \<noteq> None), return_projections = projections\<rparr>, p)))"

definition parse_order :: "Parser \<Rightarrow> OrderItem list parses" where
  "parse_order p =
     (case consume_keyword ''ORDER'' p of
        Some p \<Rightarrow>
          sum_bind (expect_keyword ''BY'' ''order_by'' p) (\<lambda>p.
          parse_list (consume_simple Tok_Comma) (\<lambda>items p.
            if length items \<ge> MAX_QUERY_PROJECTIONS
            then Inl (parser_error ''query_order_limit_exceeded'' Failure_Limit ''order_by''
              ''query exceeds the order item limit'' p)
            else parse_order_item p) p)
      | None \<Rightarrow> Inr ([], p))"

definition parse_limit :: "Parser \<Rightarrow> nat parses" where
  "parse_limit p =
     sum_bind (expect_keyword ''LIMIT'' ''limit'' p) (\<lambda>p.
     sum_bind (expect_unsigned ''limit'' p) (\<lambda>((limit, origin), p).
     if limit < 2 ^ 32 \<and> 0 < limit \<and> limit \<le> MAX_QUERY_LIMIT then Inr (limit, p)
     else Inl (query_diagnostic ''query_limit_out_of_range'' Failure_Limit ''limit'' ''unsigned_integer'' origin
       ''LIMIT must be within the bounded range'')))"

definition parse :: "externals \<Rightarrow> Parser \<Rightarrow> QueryDiagnostic + QueryAst" where
  "parse E p =
     sum_bind (parse_match p) (\<lambda>(match_clause, p).
     sum_bind (parse_where E p) (\<lambda>(where_clause, p).
     sum_bind (parse_return p) (\<lambda>(return_clause, p).
     sum_bind (parse_order p) (\<lambda>(order_by, p).
     sum_bind (parse_limit p) (\<lambda>(limit, p).
     let p = (case consume_simple Tok_Semicolon p of Some p \<Rightarrow> p | None \<Rightarrow> p);
         ast = \<lparr>ast_contract_version = BOUNDED_QUERY_CONTRACT_VERSION, ast_match_clause = match_clause,
           ast_where_clause = where_clause, ast_return_clause = return_clause, ast_order_by = order_by, ast_limit = limit\<rparr> in
     if tok_kind (current p) \<noteq> Tok_End
     then Inl (parser_error ''query_trailing_tokens'' Failure_Syntax ''query''
       ''query contains trailing tokens or multiple statements'' p)
     else if ast_node_count ast > MAX_QUERY_AST_NODES
     then Inl (parser_error ''query_ast_node_limit_exceeded'' Failure_Limit ''query'' ''query exceeds the AST node limit'' p)
     else Inr ast)))))"

definition parse_bounded_query_bytes :: "externals \<Rightarrow> unquoter \<Rightarrow> string \<Rightarrow> QueryDiagnostic + QueryAst" where
  "parse_bounded_query_bytes E unquote query =
     (if length query > MAX_QUERY_BYTES
      then Inl (input_diagnostic ''query_input_bytes_exceeded'' Failure_Limit ''query input exceeds the byte limit'')
      else if \<not> valid_utf8 query
      then Inl (input_diagnostic ''query_input_invalid_utf8'' Failure_Security ''query input is not valid UTF-8'')
      else sum_bind (lex unquote query) (\<lambda>tokens. parse E (new_parser tokens)))"

end
