(* ===== verification/Query_Parsing.thy ===== *)
theory Query_Parsing
  imports Query_Parse
begin

text \<open>
  What the parser returns: canonical expressions, within every documented limit of the language.
\<close>

section \<open>Reading tokens\<close>

lemma advance_existential [simp]: "pr_existential (advance p) = pr_existential p"
  by (simp add: advance_def)

lemma consume_Some:
  "consume_keyword keyword p = Some q \<Longrightarrow> q = advance p"
  "consume_simple kind p = Some q \<Longrightarrow> q = advance p"
  "continues keyword binding p = Some q \<Longrightarrow> q = advance p"
  by (auto simp: consume_keyword_def consume_simple_def continues_def split: if_splits)

lemma expect_Inr:
  "expect_keyword keyword clause p = Inr q \<Longrightarrow> q = advance p"
  "expect_simple kind clause p = Inr q \<Longrightarrow> q = advance p"
  "expect_identifier clause p = Inr (v, q) \<Longrightarrow> q = advance p"
  "expect_string clause p = Inr (v, q) \<Longrightarrow> q = advance p"
  "expect_unsigned clause p = Inr (w, q) \<Longrightarrow> q = advance p"
  by (auto simp: expect_keyword_def expect_simple_def expect_identifier_def expect_string_def expect_unsigned_def
    dest: consume_Some split: option.splits TokenKind.splits)

text \<open>A relation between the items read so far and the parser, kept by every item.\<close>

lemma parse_more_Inr:
  assumes "parse_more rounds separator item items p = Inr (xs, q)" and "R items p" and "items \<noteq> []"
    and "\<And>ys p q x r. \<lbrakk>R ys p; ys \<noteq> []; separator p = Some q; item ys q = Inr (x, r)\<rbrakk> \<Longrightarrow> R (ys @ [x]) r"
  shows "R xs q \<and> xs \<noteq> []"
  using assms(1-3)
proof (induction rounds arbitrary: items p)
  case (Suc rounds)
  show ?case
  proof (cases "separator p")
    case None
    then show ?thesis using Suc.prems by simp
  next
    case (Some p')
    then obtain x r where step: "item items p' = Inr (x, r)" "parse_more rounds separator item (items @ [x]) r = Inr (xs, q)"
      using Suc.prems(1) by (auto simp: sum_bind_Inr_iff)
    show ?thesis using Suc.IH [OF step(2)] assms(4) [OF Suc.prems(2,3) Some step(1)] by simp
  qed
qed simp

lemma parse_list_Inr:
  assumes "parse_list separator item p = Inr (xs, q)"
    and "\<And>x r. item [] p = Inr (x, r) \<Longrightarrow> R [x] r"
    and "\<And>ys p q x r. \<lbrakk>R ys p; ys \<noteq> []; separator p = Some q; item ys q = Inr (x, r)\<rbrakk> \<Longrightarrow> R (ys @ [x]) r"
  shows "R xs q \<and> xs \<noteq> []"
proof -
  obtain x r where item: "item [] p = Inr (x, r)" and more: "parse_more (length (pr_rest r)) separator item [x] r = Inr (xs, q)"
    using assms(1) by (auto simp: parse_list_def sum_bind_Inr_iff)
  show ?thesis by (rule parse_more_Inr [where R = R, OF more assms(2) [OF item]]) (use assms(3) in simp_all)
qed

section \<open>Canonical expressions\<close>

definition canonical_terms :: "externals \<Rightarrow> ('a \<Rightarrow> json) \<Rightarrow> 'a list \<Rightarrow> bool" where
  "canonical_terms E to_value terms \<longleftrightarrow> 2 \<le> length terms \<and> sorted (map (\<lambda>t. json_to_string E (to_value t)) terms)"

fun bounded_operator :: "ScalarOperator \<Rightarrow> bool" where
  "bounded_operator (Op_In literals) \<longleftrightarrow> literals \<noteq> [] \<and> length literals \<le> 64 \<and> strict_sorted literals"
| "bounded_operator _ \<longleftrightarrow> True"

fun is_entity_or :: "EntityExpression \<Rightarrow> bool" where
  "is_entity_or (Entity_Or _) \<longleftrightarrow> True" | "is_entity_or _ \<longleftrightarrow> False"

fun is_entity_and :: "EntityExpression \<Rightarrow> bool" where
  "is_entity_and (Entity_And _) \<longleftrightarrow> True" | "is_entity_and _ \<longleftrightarrow> False"

fun canonical_entity :: "externals \<Rightarrow> EntityExpression \<Rightarrow> bool" where
  "canonical_entity E (Entity_Or es) \<longleftrightarrow>
     canonical_terms E entity_json es \<and> (\<forall>e\<in>set es. \<not> is_entity_or e \<and> canonical_entity E e)"
| "canonical_entity E (Entity_And es) \<longleftrightarrow>
     canonical_terms E entity_json es \<and> (\<forall>e\<in>set es. \<not> is_entity_and e \<and> canonical_entity E e)"
| "canonical_entity E (Entity_Not e) \<longleftrightarrow> canonical_entity E e"
| "canonical_entity E (Entity_Scalar p) \<longleftrightarrow> bounded_operator (pred_operator p)"

fun is_or :: "Expression \<Rightarrow> bool" where
  "is_or (Expr_Or _) \<longleftrightarrow> True" | "is_or _ \<longleftrightarrow> False"

fun is_and :: "Expression \<Rightarrow> bool" where
  "is_and (Expr_And _) \<longleftrightarrow> True" | "is_and _ \<longleftrightarrow> False"

fun canonical_expression :: "externals \<Rightarrow> Expression \<Rightarrow> bool" where
  "canonical_expression E (Expr_Or es) \<longleftrightarrow>
     canonical_terms E expression_json es \<and> (\<forall>e\<in>set es. \<not> is_or e \<and> canonical_expression E e)"
| "canonical_expression E (Expr_And es) \<longleftrightarrow>
     canonical_terms E expression_json es \<and> (\<forall>e\<in>set es. \<not> is_and e \<and> canonical_expression E e)"
| "canonical_expression E (Expr_Not e) \<longleftrightarrow> canonical_expression E e"
| "canonical_expression E (Expr_Scalar p) \<longleftrightarrow> bounded_operator (pred_operator p)"
| "canonical_expression E (Expr_Quantifier q) \<longleftrightarrow> canonical_entity E (quant_expression q)"

lemma collapse_terms:
  assumes "xs \<noteq> []" and "\<And>x. x \<in> set xs \<Longrightarrow> P x" and "canonical_terms E f (canonical_sort E f xs) \<Longrightarrow> P (c (canonical_sort E f xs))"
  shows "P (collapse c (canonical_sort E f xs))"
proof (cases "length xs = 1")
  case True
  then obtain x where "xs = [x]" by (auto simp: length_Suc_conv)
  then show ?thesis using assms(2) by (simp add: collapse_def canonical_sort_def)
next
  case False
  then have "2 \<le> length (canonical_sort E f xs)" using assms(1) by (cases xs rule: list.exhaust) (auto simp: canonical_sort_def Suc_le_eq)
  moreover have "collapse c ys = c ys" if "2 \<le> length ys" for ys
    using that by (auto simp: collapse_def split: list.split)
  ultimately show ?thesis using assms(3) by (simp add: canonical_terms_def canonical_sort_def)
qed

lemma flat_nonempty:
  assumes "xs \<noteq> []" and "\<And>x. x \<in> set xs \<Longrightarrow> f x \<noteq> []" shows "concat (map f xs) \<noteq> []"
  using assms by (cases xs) auto

lemma source_entity_canonical:
  assumes "es \<noteq> []" and "\<forall>e\<in>set es. canonical_entity E e"
  shows "canonical_entity E (source_entity_or E es)" and "canonical_entity E (source_entity_and E es)"
proof -
  have or: "source_entity_or_children e \<noteq> []" "\<forall>c\<in>set (source_entity_or_children e). \<not> is_entity_or c \<and> canonical_entity E c"
    if "canonical_entity E e" for e using that by (cases e; auto simp: canonical_terms_def)+
  have "and": "source_entity_and_children e \<noteq> []" "\<forall>c\<in>set (source_entity_and_children e). \<not> is_entity_and c \<and> canonical_entity E c"
    if "canonical_entity E e" for e using that by (cases e; auto simp: canonical_terms_def)+
  show "canonical_entity E (source_entity_or E es)"
    unfolding source_entity_or_def
    by (rule collapse_terms [OF flat_nonempty [OF assms(1)]]) (use or assms(2) in \<open>auto simp: set_canonical_sort\<close>)
  show "canonical_entity E (source_entity_and E es)"
    unfolding source_entity_and_def
    by (rule collapse_terms [OF flat_nonempty [OF assms(1)]]) (use "and" assms(2) in \<open>auto simp: set_canonical_sort\<close>)
qed

lemma source_expression_canonical:
  assumes "es \<noteq> []" and "\<forall>e\<in>set es. canonical_expression E e"
  shows "canonical_expression E (source_expression_or E es)" and "canonical_expression E (source_expression_and E es)"
proof -
  have or: "source_or_children e \<noteq> []" "\<forall>c\<in>set (source_or_children e). \<not> is_or c \<and> canonical_expression E c"
    if "canonical_expression E e" for e using that by (cases e; auto simp: canonical_terms_def)+
  have "and": "source_and_children e \<noteq> []" "\<forall>c\<in>set (source_and_children e). \<not> is_and c \<and> canonical_expression E c"
    if "canonical_expression E e" for e using that by (cases e; auto simp: canonical_terms_def)+
  show "canonical_expression E (source_expression_or E es)"
    unfolding source_expression_or_def
    by (rule collapse_terms [OF flat_nonempty [OF assms(1)]]) (use or assms(2) in \<open>auto simp: set_canonical_sort\<close>)
  show "canonical_expression E (source_expression_and E es)"
    unfolding source_expression_and_def
    by (rule collapse_terms [OF flat_nonempty [OF assms(1)]]) (use "and" assms(2) in \<open>auto simp: set_canonical_sort\<close>)
qed

text \<open>The existential quantifiers of an expression.\<close>

definition some_quantifier :: "QuantifierPredicate \<Rightarrow> nat" where
  "some_quantifier q = (if quant_kind q = EveryEdge then 0 else 1)"

fun some_count :: "Expression \<Rightarrow> nat" where
  "some_count (Expr_Or es) = sum_list (map some_count es)"
| "some_count (Expr_And es) = sum_list (map some_count es)"
| "some_count (Expr_Not e) = some_count e"
| "some_count (Expr_Scalar p) = 0"
| "some_count (Expr_Quantifier q) = some_quantifier q"

lemma sum_canonical_sort [simp]: "sum_list (map g (canonical_sort E f xs)) = sum_list (map g xs)" for g :: "'a \<Rightarrow> nat"
proof -
  have "mset (map g (canonical_sort E f xs)) = mset (map g xs)" by (simp add: canonical_sort_def)
  then show ?thesis by (metis sum_mset_sum_list)
qed

lemma sum_concat_map: "sum_list (map g (concat (map f xs))) = sum_list (map (\<lambda>x. sum_list (map g (f x))) xs)" for g :: "'b \<Rightarrow> nat"
  by (induction xs) simp_all

lemma collapse_sum:
  "some_count (collapse Expr_Or es) = sum_list (map some_count es)" "some_count (collapse Expr_And es) = sum_list (map some_count es)"
  by (auto simp: collapse_def split: list.split)

lemma children_sum:
  "sum_list (map some_count (source_or_children e)) = some_count e" "sum_list (map some_count (source_and_children e)) = some_count e"
  by (cases e; simp)+

lemma source_expression_some_count:
  "some_count (source_expression_or E es) = sum_list (map some_count es)"
  "some_count (source_expression_and E es) = sum_list (map some_count es)"
  unfolding source_expression_or_def source_expression_and_def collapse_sum sum_canonical_sort sum_concat_map children_sum by simp_all

section \<open>The parsers\<close>

lemma adjacent_sort_strict: "\<not> has_adjacent_duplicate (sort xs) \<longleftrightarrow> strict_sorted (sort xs)" for xs :: "'a::linorder list"
  by (simp add: adjacent_duplicate_sort strict_sorted_iff)

lemma parse_literal_Inr: "parse_literal clause p = Inr (l, q) \<Longrightarrow> q = advance p"
  by (auto simp: parse_literal_def Let_def split: TokenKind.splits if_splits)

lemma parse_literal_list_Inr:
  assumes "parse_literal_list clause p = Inr (op, q)"
  shows "bounded_operator op \<and> pr_existential q = pr_existential p"
proof -
  let ?item = "\<lambda>literals p. if length literals \<ge> MAX_QUERY_LIST_LITERALS
         then Inl (parser_error ''query_list_literal_limit_exceeded'' Failure_Limit clause
           ''query exceeds the list literal limit'' p)
         else parse_literal clause p"
  obtain literals r where list: "parse_list (consume_simple Tok_Comma) ?item (advance p) = Inr (literals, r)"
    and op: "q = advance r" "\<not> has_adjacent_duplicate (sort literals)" "op = Op_In (sort literals)"
    using assms by (auto simp: parse_literal_list_def sum_bind_Inr_iff dest!: expect_Inr split: if_splits)
  have "(length literals \<le> MAX_QUERY_LIST_LITERALS \<and> pr_existential r = pr_existential p) \<and> literals \<noteq> []"
    by (rule parse_list_Inr [where R = "\<lambda>ls r. length ls \<le> MAX_QUERY_LIST_LITERALS \<and> pr_existential r = pr_existential p", OF list])
      (auto simp: MAX_QUERY_LIST_LITERALS_def dest!: parse_literal_Inr consume_Some split: if_splits)
  then show ?thesis using op by (simp add: adjacent_sort_strict limit_simps)
qed

lemma consume_comparison_Some:
  "consume_comparison table p = Some (operator, q) \<Longrightarrow> q = advance p \<and> operator \<in> snd ` set table"
  by (induction table p rule: consume_comparison.induct) (auto dest: consume_Some split: option.splits)

lemma comparison_bounded: "(kind, operator) \<in> set COMPARISONS \<Longrightarrow> bounded_operator (operator l)"
  by (auto simp: COMPARISONS_def)

lemma parse_operator_Inr:
  assumes "parse_operator clause p = Inr (op, q)"
  shows "bounded_operator op \<and> pr_existential q = pr_existential p"
  using assms unfolding parse_operator_def
  by (auto simp: sum_bind_Inr_iff comparison_bounded dest!: parse_literal_Inr expect_Inr parse_literal_list_Inr
      consume_comparison_Some consume_Some split: option.splits)

lemma parse_scalar_predicate_Inr:
  assumes "parse_scalar_predicate clause p = Inr (x, q)"
  shows "bounded_operator (pred_operator x) \<and> pr_existential q = pr_existential p"
  using assms
  by (auto simp: parse_scalar_predicate_def parse_field_def sum_bind_Inr_iff dest!: expect_Inr parse_operator_Inr)

lemma parse_entity_Inr:
  "parse_entity_expression E n b p = Inr (x, q) \<Longrightarrow> canonical_entity E x \<and> pr_existential q = pr_existential p"
  "parse_entity_and_expression E n b p = Inr (x, q) \<Longrightarrow> canonical_entity E x \<and> pr_existential q = pr_existential p"
  "parse_entity_term E n b p = Inr (x, q) \<Longrightarrow> canonical_entity E x \<and> pr_existential q = pr_existential p"
proof (induction E n b p and E n b p and E n b p arbitrary: x q and x q and x q
    rule: parse_entity_expression_parse_entity_and_expression_parse_entity_term.induct)
  case (1 E n b p)
  then obtain u es r where u: "ensure_nesting n ''where'' p = Inr u"
    and list: "parse_list (continues ''OR'' b) (\<lambda>_. parse_entity_and_expression E n b) p = Inr (es, r)"
    and x: "x = source_entity_or E es" "q = r"
    by (auto simp: parse_entity_expression.simps sum_bind_Inr_iff)
  have "((\<forall>e\<in>set es. canonical_entity E e) \<and> pr_existential r = pr_existential p) \<and> es \<noteq> []"
    by (rule parse_list_Inr [where R = "\<lambda>es r. (\<forall>e\<in>set es. canonical_entity E e) \<and> pr_existential r = pr_existential p", OF list])
      (auto dest!: consume_Some "1.IH" [OF u])
  then show ?case using source_entity_canonical by (simp add: x)
next
  case (2 E n b p)
  then obtain es r where list: "parse_list (continues ''AND'' b) (\<lambda>_. parse_entity_term E n b) p = Inr (es, r)"
    and x: "x = source_entity_and E es" "q = r"
    by (auto simp: parse_entity_and_expression.simps sum_bind_Inr_iff)
  have "((\<forall>e\<in>set es. canonical_entity E e) \<and> pr_existential r = pr_existential p) \<and> es \<noteq> []"
    by (rule parse_list_Inr [where R = "\<lambda>es r. (\<forall>e\<in>set es. canonical_entity E e) \<and> pr_existential r = pr_existential p", OF list])
      (auto dest!: consume_Some "2.IH")
  then show ?case using source_entity_canonical by (simp add: x)
next
  case (3 E n b p)
  define p' where "p' = (case consume_keyword ''NOT'' p of Some p \<Rightarrow> p | None \<Rightarrow> p)"
  have p': "pr_existential p' = pr_existential p" by (auto simp: p'_def dest: consume_Some split: option.split)
  show ?case
  proof (cases "consume_simple Tok_LeftParen p'")
    case None
    then show ?thesis using "3.prems" p'
      by (auto simp: parse_entity_term.simps [of E n b p] Let_def p'_def [symmetric] sum_bind_Inr_iff dest!: parse_scalar_predicate_Inr)
  next
    case (Some r)
    then obtain u e s where u: "ensure_nesting (n + 1) ''where'' r = Inr u" and e: "parse_entity_expression E (n + 1) b r = Inr (e, s)"
      and x: "x = (if consume_keyword ''NOT'' p \<noteq> None then Entity_Not e else e)" "q = advance s"
      using "3.prems"
      by (auto simp: parse_entity_term.simps [of E n b p] Let_def p'_def [symmetric] sum_bind_Inr_iff dest!: expect_Inr)
    have "canonical_entity E e \<and> pr_existential s = pr_existential r"
      by (rule "3.IH" [OF refl p'_def Some u e])
    then show ?thesis using x p' consume_Some(2) [OF Some] by simp
  qed
qed

text \<open>The counter of the parser counts the existential quantifiers, up to the limit.\<close>

definition counts :: "Parser \<Rightarrow> nat \<Rightarrow> Parser \<Rightarrow> bool" where
  "counts p n q \<longleftrightarrow> pr_existential q = pr_existential p + n \<and>
     (pr_existential p \<le> MAX_QUERY_EXISTENTIAL_PREDICATES \<longrightarrow> pr_existential q \<le> MAX_QUERY_EXISTENTIAL_PREDICATES)"

lemma counts_simps [simp]:
  "counts p 0 p" "counts p n (advance q) = counts p n q" "counts (advance p) n q = counts p n q"
  by (simp_all add: counts_def)

lemma counts_trans: "counts p m q \<Longrightarrow> counts q n r \<Longrightarrow> counts p (m + n) r"
  unfolding counts_def by auto

lemma counts_same: "pr_existential q = pr_existential p \<Longrightarrow> counts p 0 q"
  by (simp add: counts_def)

lemma quantifier_word_Inr:
  "quantifier_word p = Inr (every, q) \<Longrightarrow> counts p (if every then 0 else 1) q"
  by (auto simp: quantifier_word_def sum_bind_Inr_iff Let_def counts_def dest!: consume_Some expect_Inr split: option.splits if_splits)

lemma quantifier_kind_Inr:
  "quantifier_kind every p = Inr (kind, q) \<Longrightarrow> q = advance p \<and> (kind = EveryEdge \<longleftrightarrow> every)"
  by (auto simp: quantifier_kind_def sum_bind_Inr_iff dest!: consume_Some expect_Inr split: option.splits if_splits)

lemma parse_quantifier_Inr:
  assumes "parse_quantifier E n p = Inr (x, q)"
  shows "canonical_entity E (quant_expression x) \<and> counts p (some_quantifier x) q"
proof -
  obtain every p1 b kind pb e p2 where word: "quantifier_word p = Inr (every, p1)"
    and kind: "kind = EveryEdge \<longleftrightarrow> every"
    and e: "parse_entity_expression E n b p2 = Inr (e, q)" "pr_existential p2 = pr_existential p1"
    and x: "x = \<lparr>quant_kind = kind, quant_binding = b, quant_path_binding = pb, quant_expression = e\<rparr>"
    using assms by (auto simp: parse_quantifier_def sum_bind_Inr_iff dest!: expect_Inr quantifier_kind_Inr)
  have "counts p (some_quantifier x) p1"
    using quantifier_word_Inr [OF word] by (simp add: x some_quantifier_def kind)
  with parse_entity_Inr(1) [OF e(1)] e(2) show ?thesis unfolding counts_def by (auto simp: x)
qed

lemma parse_expression_Inr:
  "parse_expression E n p = Inr (x, q) \<Longrightarrow> canonical_expression E x \<and> counts p (some_count x) q"
  "parse_and_expression E n p = Inr (x, q) \<Longrightarrow> canonical_expression E x \<and> counts p (some_count x) q"
  "parse_not_expression E n p = Inr (x, q) \<Longrightarrow> canonical_expression E x \<and> counts p (some_count x) q"
  "parse_primary_expression E n p = Inr (x, q) \<Longrightarrow> canonical_expression E x \<and> counts p (some_count x) q"
proof (induction E n p and E n p and E n p and E n p arbitrary: x q and x q and x q and x q
    rule: parse_expression_parse_and_expression_parse_not_expression_parse_primary_expression.induct)
  case (1 E n p)
  then obtain u es r where u: "ensure_nesting n ''where'' p = Inr u"
    and list: "parse_list (consume_keyword ''OR'') (\<lambda>_. parse_and_expression E n) p = Inr (es, r)"
    and x: "x = source_expression_or E es" "q = r"
    by (auto simp: parse_expression.simps sum_bind_Inr_iff)
  have "((\<forall>e\<in>set es. canonical_expression E e) \<and> counts p (sum_list (map some_count es)) r) \<and> es \<noteq> []"
    by (rule parse_list_Inr [where R = "\<lambda>es r. (\<forall>e\<in>set es. canonical_expression E e) \<and> counts p (sum_list (map some_count es)) r", OF list])
      (auto dest!: consume_Some "1.IH" [OF u] intro: counts_trans)
  then show ?case using source_expression_canonical by (simp add: x source_expression_some_count)
next
  case (2 E n p)
  then obtain es r where list: "parse_list (consume_keyword ''AND'') (\<lambda>_. parse_not_expression E n) p = Inr (es, r)"
    and x: "x = source_expression_and E es" "q = r"
    by (auto simp: parse_and_expression.simps sum_bind_Inr_iff)
  have "((\<forall>e\<in>set es. canonical_expression E e) \<and> counts p (sum_list (map some_count es)) r) \<and> es \<noteq> []"
    by (rule parse_list_Inr [where R = "\<lambda>es r. (\<forall>e\<in>set es. canonical_expression E e) \<and> counts p (sum_list (map some_count es)) r", OF list])
      (auto dest!: consume_Some "2.IH" intro: counts_trans)
  then show ?case using source_expression_canonical by (simp add: x source_expression_some_count)
next
  case (3 E n p)
  define p' where "p' = (case consume_keyword ''NOT'' p of Some p \<Rightarrow> p | None \<Rightarrow> p)"
  have p': "counts p' m r = counts p m r" for m r by (auto simp: p'_def counts_def dest: consume_Some split: option.split)
  obtain e where e: "parse_primary_expression E n p' = Inr (e, q)"
    and x: "x = (if consume_keyword ''NOT'' p \<noteq> None then Expr_Not e else e)"
    using "3.prems" by (auto simp: parse_not_expression.simps [of E n p] Let_def p'_def [symmetric] sum_bind_Inr_iff)
  show ?case using "3.IH" [OF refl p'_def e] by (simp add: x p')
next
  case (4 E n p)
  show ?case
  proof (cases "consume_simple Tok_LeftParen p")
    case None
    then show ?thesis using "4.prems"
      by (auto simp: parse_primary_expression.simps [of E n p] sum_bind_Inr_iff intro: counts_same
        dest!: parse_scalar_predicate_Inr parse_quantifier_Inr split: if_splits)
  next
    case (Some r)
    then obtain u s where u: "ensure_nesting (n + 1) ''where'' r = Inr u" and e: "parse_expression E (n + 1) r = Inr (x, s)"
      and q: "q = advance s"
      using "4.prems" by (auto simp: parse_primary_expression.simps [of E n p] sum_bind_Inr_iff dest!: expect_Inr)
    show ?thesis using "4.IH" [OF Some u e] consume_Some(2) [OF Some] q by simp
  qed
qed

section \<open>Nesting\<close>

text \<open>
  The nesting of an expression: the parentheses and quantifiers around its innermost term, when only the parentheses
  that the grammar demands are written. A disjunction needs them as an operand of a conjunction, and every compound
  operand of \<open>NOT\<close> needs them; a quantifier opens a level of its own.
\<close>

fun is_entity_scalar :: "EntityExpression \<Rightarrow> bool" where
  "is_entity_scalar (Entity_Scalar _) \<longleftrightarrow> True" | "is_entity_scalar _ \<longleftrightarrow> False"

fun is_scalar :: "Expression \<Rightarrow> bool" where
  "is_scalar (Expr_Scalar _) \<longleftrightarrow> True" | "is_scalar _ \<longleftrightarrow> False"

fun is_quantifier :: "Expression \<Rightarrow> bool" where
  "is_quantifier (Expr_Quantifier _) \<longleftrightarrow> True" | "is_quantifier _ \<longleftrightarrow> False"

fun entity_nesting :: "EntityExpression \<Rightarrow> nat" where
  "entity_nesting (Entity_Or es) = Max (set (0 # map (\<lambda>e. entity_nesting e + (if is_entity_or e then 1 else 0)) es))"
| "entity_nesting (Entity_And es) =
     Max (set (0 # map (\<lambda>e. entity_nesting e + (if is_entity_or e \<or> is_entity_and e then 1 else 0)) es))"
| "entity_nesting (Entity_Not e) = entity_nesting e + (if is_entity_scalar e then 0 else 1)"
| "entity_nesting (Entity_Scalar p) = 0"

fun expression_nesting :: "Expression \<Rightarrow> nat" where
  "expression_nesting (Expr_Or es) = Max (set (0 # map (\<lambda>e. expression_nesting e + (if is_or e then 1 else 0)) es))"
| "expression_nesting (Expr_And es) =
     Max (set (0 # map (\<lambda>e. expression_nesting e + (if is_or e \<or> is_and e then 1 else 0)) es))"
| "expression_nesting (Expr_Not e) = expression_nesting e + (if is_scalar e \<or> is_quantifier e then 0 else 1)"
| "expression_nesting (Expr_Scalar p) = 0"
| "expression_nesting (Expr_Quantifier q) = 1 + entity_nesting (quant_expression q)"

lemma Max_from_0: "Max (set (0 # map f xs)) \<le> (k :: nat) \<longleftrightarrow> (\<forall>x\<in>set xs. f x \<le> k)"
  by (simp add: Max_le_iff)

lemma nesting_le:
  "entity_nesting (Entity_Or es) \<le> k \<longleftrightarrow> (\<forall>e\<in>set es. entity_nesting e + (if is_entity_or e then 1 else 0) \<le> k)"
  "entity_nesting (Entity_And es) \<le> k \<longleftrightarrow> (\<forall>e\<in>set es. entity_nesting e + (if is_entity_or e \<or> is_entity_and e then 1 else 0) \<le> k)"
  "expression_nesting (Expr_Or es') \<le> k \<longleftrightarrow> (\<forall>e\<in>set es'. expression_nesting e + (if is_or e then 1 else 0) \<le> k)"
  "expression_nesting (Expr_And es') \<le> k \<longleftrightarrow> (\<forall>e\<in>set es'. expression_nesting e + (if is_or e \<or> is_and e then 1 else 0) \<le> k)"
  by (simp_all only: entity_nesting.simps expression_nesting.simps Max_from_0)

declare entity_nesting.simps(1,2) [simp del]
declare expression_nesting.simps(1,2) [simp del]

text \<open>Flattening keeps the bound.\<close>

lemma collapse_keep:
  assumes "\<And>x. x \<in> set xs \<Longrightarrow> P x" and "P (c (canonical_sort E f xs))"
  shows "P (collapse c (canonical_sort E f xs))"
proof -
  let ?ys = "canonical_sort E f xs"
  have "collapse c ?ys = c ?ys \<or> (\<exists>y. ?ys = [y] \<and> collapse c ?ys = y)" by (auto simp: collapse_def split: list.split)
  then consider "collapse c ?ys = c ?ys" | y where "?ys = [y]" "collapse c ?ys = y" by blast
  then show ?thesis
  proof cases
    case 2
    then have "y \<in> set xs" using set_canonical_sort [of E f xs] by auto
    with assms(1) 2(2) show ?thesis by simp
  qed (use assms(2) in simp)
qed

lemma source_entity_nesting:
  "\<forall>e\<in>set es. entity_nesting e + (if is_entity_or e then 1 else 0) \<le> k \<Longrightarrow> entity_nesting (source_entity_or E es) \<le> k"
  "\<forall>e\<in>set es. entity_nesting e + (if is_entity_or e \<or> is_entity_and e then 1 else 0) \<le> k \<Longrightarrow>
     entity_nesting (source_entity_and E es) + (if is_entity_or (source_entity_and E es) then 1 else 0) \<le> k"
proof -
  assume es: "\<forall>e\<in>set es. entity_nesting e + (if is_entity_or e then 1 else 0) \<le> k"
  have "entity_nesting c + (if is_entity_or c then 1 else 0) \<le> k"
    if "e \<in> set es" "c \<in> set (source_entity_or_children e)" for e c
  proof (cases e)
    case (Entity_Or cs)
    have "entity_nesting e \<le> k" using bspec [OF es that(1)] by linarith
    then show ?thesis using that(2) unfolding Entity_Or nesting_le by simp
  qed (use es that in auto)
  then have all: "\<forall>c\<in>set (concat (map source_entity_or_children es)). entity_nesting c + (if is_entity_or c then 1 else 0) \<le> k" by auto
  show "entity_nesting (source_entity_or E es) \<le> k"
    unfolding source_entity_or_def
    by (rule collapse_keep, use all add_leD1 in blast, use all in \<open>simp add: nesting_le\<close>)
next
  assume es: "\<forall>e\<in>set es. entity_nesting e + (if is_entity_or e \<or> is_entity_and e then 1 else 0) \<le> k"
  have "entity_nesting c + (if is_entity_or c \<or> is_entity_and c then 1 else 0) \<le> k"
    if "e \<in> set es" "c \<in> set (source_entity_and_children e)" for e c
  proof (cases e)
    case (Entity_And cs)
    have "entity_nesting e \<le> k" using bspec [OF es that(1)] by linarith
    then show ?thesis using that(2) unfolding Entity_And nesting_le by simp
  qed (use es that in auto)
  then have all: "\<forall>c\<in>set (concat (map source_entity_and_children es)).
      entity_nesting c + (if is_entity_or c \<or> is_entity_and c then 1 else 0) \<le> k" by auto
  show "entity_nesting (source_entity_and E es) + (if is_entity_or (source_entity_and E es) then 1 else 0) \<le> k"
    unfolding source_entity_and_def
  proof (rule collapse_keep)
    fix c assume "c \<in> set (concat (map source_entity_and_children es))"
    then have "entity_nesting c + (if is_entity_or c \<or> is_entity_and c then 1 else 0) \<le> k" using all by blast
    then show "entity_nesting c + (if is_entity_or c then 1 else 0) \<le> k" by (simp split: if_splits)
  qed (use all in \<open>simp add: nesting_le\<close>)
qed

lemma source_expression_nesting:
  "\<forall>e\<in>set es. expression_nesting e + (if is_or e then 1 else 0) \<le> k \<Longrightarrow> expression_nesting (source_expression_or E es) \<le> k"
  "\<forall>e\<in>set es. expression_nesting e + (if is_or e \<or> is_and e then 1 else 0) \<le> k \<Longrightarrow>
     expression_nesting (source_expression_and E es) + (if is_or (source_expression_and E es) then 1 else 0) \<le> k"
proof -
  assume es: "\<forall>e\<in>set es. expression_nesting e + (if is_or e then 1 else 0) \<le> k"
  have "expression_nesting c + (if is_or c then 1 else 0) \<le> k" if "e \<in> set es" "c \<in> set (source_or_children e)" for e c
  proof (cases e)
    case (Expr_Or cs)
    have "expression_nesting e \<le> k" using bspec [OF es that(1)] by linarith
    then show ?thesis using that(2) unfolding Expr_Or nesting_le by simp
  qed (use es that in auto)
  then have all: "\<forall>c\<in>set (concat (map source_or_children es)). expression_nesting c + (if is_or c then 1 else 0) \<le> k" by auto
  show "expression_nesting (source_expression_or E es) \<le> k"
    unfolding source_expression_or_def
    by (rule collapse_keep, use all add_leD1 in blast, use all in \<open>simp add: nesting_le\<close>)
next
  assume es: "\<forall>e\<in>set es. expression_nesting e + (if is_or e \<or> is_and e then 1 else 0) \<le> k"
  have "expression_nesting c + (if is_or c \<or> is_and c then 1 else 0) \<le> k" if "e \<in> set es" "c \<in> set (source_and_children e)" for e c
  proof (cases e)
    case (Expr_And cs)
    have "expression_nesting e \<le> k" using bspec [OF es that(1)] by linarith
    then show ?thesis using that(2) unfolding Expr_And nesting_le by simp
  qed (use es that in auto)
  then have all: "\<forall>c\<in>set (concat (map source_and_children es)). expression_nesting c + (if is_or c \<or> is_and c then 1 else 0) \<le> k" by auto
  show "expression_nesting (source_expression_and E es) + (if is_or (source_expression_and E es) then 1 else 0) \<le> k"
    unfolding source_expression_and_def
  proof (rule collapse_keep)
    fix c assume "c \<in> set (concat (map source_and_children es))"
    then have "expression_nesting c + (if is_or c \<or> is_and c then 1 else 0) \<le> k" using all by blast
    then show "expression_nesting c + (if is_or c then 1 else 0) \<le> k" by (simp split: if_splits)
  qed (use all in \<open>simp add: nesting_le\<close>)
qed

text \<open>What is parsed from nesting level \<open>n\<close> on has room for its own nesting.\<close>

lemma ensure_nesting_Inr: "ensure_nesting n clause p = Inr u \<Longrightarrow> n \<le> MAX_QUERY_EXPRESSION_NESTING"
  by (simp add: ensure_nesting_def split: if_splits)

lemma parse_entity_nesting:
  "parse_entity_expression E n b p = Inr (x, q) \<Longrightarrow> n + entity_nesting x \<le> MAX_QUERY_EXPRESSION_NESTING"
  "parse_entity_and_expression E n b p = Inr (x, q) \<Longrightarrow> n \<le> MAX_QUERY_EXPRESSION_NESTING \<Longrightarrow>
     n + entity_nesting x + (if is_entity_or x then 1 else 0) \<le> MAX_QUERY_EXPRESSION_NESTING"
  "parse_entity_term E n b p = Inr (x, q) \<Longrightarrow> n \<le> MAX_QUERY_EXPRESSION_NESTING \<Longrightarrow>
     n + entity_nesting x + (if is_entity_or x \<or> is_entity_and x then 1 else 0) \<le> MAX_QUERY_EXPRESSION_NESTING"
proof (induction E n b p and E n b p and E n b p arbitrary: x q and x q and x q
    rule: parse_entity_expression_parse_entity_and_expression_parse_entity_term.induct)
  case (1 E n b p)
  then obtain u es r where u: "ensure_nesting n ''where'' p = Inr u"
    and list: "parse_list (continues ''OR'' b) (\<lambda>_. parse_entity_and_expression E n b) p = Inr (es, r)"
    and x: "x = source_entity_or E es" "q = r"
    by (auto simp: parse_entity_expression.simps sum_bind_Inr_iff)
  note n = ensure_nesting_Inr [OF u]
  let ?k = "MAX_QUERY_EXPRESSION_NESTING - n"
  have "(\<forall>e\<in>set es. entity_nesting e + (if is_entity_or e then 1 else 0) \<le> ?k) \<and> es \<noteq> []"
    by (rule parse_list_Inr [where R = "\<lambda>es _. \<forall>e\<in>set es. entity_nesting e + (if is_entity_or e then 1 else 0) \<le> ?k", OF list])
      (use n in \<open>fastforce dest: "1.IH" [OF u]\<close>)+
  with source_entity_nesting(1) [of es ?k E] n show ?case by (simp add: x)
next
  case (2 E n b p)
  then obtain es r where list: "parse_list (continues ''AND'' b) (\<lambda>_. parse_entity_term E n b) p = Inr (es, r)"
    and x: "x = source_entity_and E es" "q = r"
    by (auto simp: parse_entity_and_expression.simps sum_bind_Inr_iff)
  note n = "2.prems"(2)
  let ?k = "MAX_QUERY_EXPRESSION_NESTING - n"
  have "(\<forall>e\<in>set es. entity_nesting e + (if is_entity_or e \<or> is_entity_and e then 1 else 0) \<le> ?k) \<and> es \<noteq> []"
    by (rule parse_list_Inr [where R = "\<lambda>es _. \<forall>e\<in>set es. entity_nesting e + (if is_entity_or e \<or> is_entity_and e then 1 else 0) \<le> ?k",
          OF list])
      (use n in \<open>fastforce dest: "2.IH"\<close>)+
  with source_entity_nesting(2) [of es ?k E] n show ?case by (simp add: x)
next
  case (3 E n b p)
  define p' where "p' = (case consume_keyword ''NOT'' p of Some p \<Rightarrow> p | None \<Rightarrow> p)"
  show ?case
  proof (cases "consume_simple Tok_LeftParen p'")
    case None
    then show ?thesis using "3.prems"
      by (auto simp: parse_entity_term.simps [of E n b p] Let_def p'_def [symmetric] sum_bind_Inr_iff)
  next
    case (Some r)
    then obtain u e s where u: "ensure_nesting (n + 1) ''where'' r = Inr u" and e: "parse_entity_expression E (n + 1) b r = Inr (e, s)"
      and x: "x = (if consume_keyword ''NOT'' p \<noteq> None then Entity_Not e else e)"
      using "3.prems" by (auto simp: parse_entity_term.simps [of E n b p] Let_def p'_def [symmetric] sum_bind_Inr_iff)
    have "n + 1 + entity_nesting e \<le> MAX_QUERY_EXPRESSION_NESTING" by (rule "3.IH" [OF refl p'_def Some u e])
    then show ?thesis by (simp add: x)
  qed
qed

lemma parse_quantifier_nesting:
  assumes "parse_quantifier E (n + 1) p = Inr (x, q)"
  shows "n + expression_nesting (Expr_Quantifier x) \<le> MAX_QUERY_EXPRESSION_NESTING"
proof -
  obtain b r where "parse_entity_expression E (n + 1) b r = Inr (quant_expression x, q)"
    using assms by (auto simp: parse_quantifier_def sum_bind_Inr_iff)
  from parse_entity_nesting(1) [OF this] show ?thesis by simp
qed

lemma parse_expression_nesting:
  "parse_expression E n p = Inr (x, q) \<Longrightarrow> n + expression_nesting x \<le> MAX_QUERY_EXPRESSION_NESTING"
  "parse_and_expression E n p = Inr (x, q) \<Longrightarrow> n \<le> MAX_QUERY_EXPRESSION_NESTING \<Longrightarrow>
     n + expression_nesting x + (if is_or x then 1 else 0) \<le> MAX_QUERY_EXPRESSION_NESTING"
  "parse_not_expression E n p = Inr (x, q) \<Longrightarrow> n \<le> MAX_QUERY_EXPRESSION_NESTING \<Longrightarrow>
     n + expression_nesting x + (if is_or x \<or> is_and x then 1 else 0) \<le> MAX_QUERY_EXPRESSION_NESTING"
  "parse_primary_expression E n p = Inr (x, q) \<Longrightarrow> n \<le> MAX_QUERY_EXPRESSION_NESTING \<Longrightarrow>
     n + expression_nesting x + (if is_scalar x \<or> is_quantifier x then 0 else 1) \<le> MAX_QUERY_EXPRESSION_NESTING"
proof (induction E n p and E n p and E n p and E n p arbitrary: x q and x q and x q and x q
    rule: parse_expression_parse_and_expression_parse_not_expression_parse_primary_expression.induct)
  case (1 E n p)
  then obtain u es r where u: "ensure_nesting n ''where'' p = Inr u"
    and list: "parse_list (consume_keyword ''OR'') (\<lambda>_. parse_and_expression E n) p = Inr (es, r)"
    and x: "x = source_expression_or E es" "q = r"
    by (auto simp: parse_expression.simps sum_bind_Inr_iff)
  note n = ensure_nesting_Inr [OF u]
  let ?k = "MAX_QUERY_EXPRESSION_NESTING - n"
  have "(\<forall>e\<in>set es. expression_nesting e + (if is_or e then 1 else 0) \<le> ?k) \<and> es \<noteq> []"
    by (rule parse_list_Inr [where R = "\<lambda>es _. \<forall>e\<in>set es. expression_nesting e + (if is_or e then 1 else 0) \<le> ?k", OF list])
      (use n in \<open>fastforce dest: "1.IH" [OF u]\<close>)+
  with source_expression_nesting(1) [of es ?k E] n show ?case by (simp add: x)
next
  case (2 E n p)
  then obtain es r where list: "parse_list (consume_keyword ''AND'') (\<lambda>_. parse_not_expression E n) p = Inr (es, r)"
    and x: "x = source_expression_and E es" "q = r"
    by (auto simp: parse_and_expression.simps sum_bind_Inr_iff)
  note n = "2.prems"(2)
  let ?k = "MAX_QUERY_EXPRESSION_NESTING - n"
  have "(\<forall>e\<in>set es. expression_nesting e + (if is_or e \<or> is_and e then 1 else 0) \<le> ?k) \<and> es \<noteq> []"
    by (rule parse_list_Inr [where R = "\<lambda>es _. \<forall>e\<in>set es. expression_nesting e + (if is_or e \<or> is_and e then 1 else 0) \<le> ?k", OF list])
      (use n in \<open>fastforce dest: "2.IH"\<close>)+
  with source_expression_nesting(2) [of es ?k E] n show ?case by (simp add: x)
next
  case (3 E n p)
  define p' where "p' = (case consume_keyword ''NOT'' p of Some p \<Rightarrow> p | None \<Rightarrow> p)"
  obtain e where e: "parse_primary_expression E n p' = Inr (e, q)"
    and x: "x = (if consume_keyword ''NOT'' p \<noteq> None then Expr_Not e else e)"
    using "3.prems"(1) by (auto simp: parse_not_expression.simps [of E n p] Let_def p'_def [symmetric] sum_bind_Inr_iff)
  have "\<not> ((is_or e \<or> is_and e) \<and> (is_scalar e \<or> is_quantifier e))" by (cases e) simp_all
  then show ?case using "3.IH" [OF refl p'_def e "3.prems"(2)] by (auto simp: x split: if_splits)
next
  case (4 E n p)
  show ?case
  proof (cases "consume_simple Tok_LeftParen p")
    case None
    show ?thesis
    proof (cases "current_keyword ''EVERY'' p \<or> current_keyword ''SOME'' p")
      case True
      then obtain y where y: "parse_quantifier E (n + 1) p = Inr (y, q)" and x: "x = Expr_Quantifier y"
        using "4.prems"(1) None by (auto simp: parse_primary_expression.simps [of E n p] sum_bind_Inr_iff)
      from parse_quantifier_nesting [OF y] show ?thesis by (simp add: x)
    next
      case False
      then show ?thesis using "4.prems" None by (auto simp: parse_primary_expression.simps [of E n p] sum_bind_Inr_iff)
    qed
  next
    case (Some r)
    then obtain u s where u: "ensure_nesting (n + 1) ''where'' r = Inr u" and e: "parse_expression E (n + 1) r = Inr (x, s)"
      using "4.prems"(1) by (auto simp: parse_primary_expression.simps [of E n p] sum_bind_Inr_iff)
    show ?thesis using "4.IH" [OF Some u e] by simp
  qed
qed

section \<open>The clauses\<close>

definition bounded_relationship :: "RelationshipPattern \<Rightarrow> bool" where
  "bounded_relationship r \<longleftrightarrow> rel_kinds r \<noteq> [] \<and> strict_sorted (rel_kinds r) \<and>
     1 \<le> rel_min_depth r \<and> rel_min_depth r \<le> rel_max_depth r \<and> rel_max_depth r \<le> 8"

lemma checked_depth_Inr: "checked_depth depth origin message = Inr d \<Longrightarrow> d = depth \<and> 1 \<le> d \<and> d \<le> MAX_QUERY_DEPTH"
  by (auto simp: checked_depth_def split: if_splits)

lemma parse_node_Inr:
  assumes "parse_node clause p = Inr (x, q)"
  shows "pr_existential q = pr_existential p"
proof -
  obtain kind r where "(case consume_simple Tok_Colon (advance (advance p)) of
         Some p \<Rightarrow> sum_bind (expect_string clause p) (\<lambda>(kind, p). Inr (Some kind, p))
       | None \<Rightarrow> Inr (None, advance (advance p))) = Inr (kind, r)" and "pr_existential q = pr_existential r"
    using assms unfolding parse_node_def by (auto simp: sum_bind_Inr_iff dest!: expect_Inr)
  then show ?thesis by (auto simp: sum_bind_Inr_iff dest!: expect_Inr consume_Some split: option.splits)
qed

lemma parse_relationship_Inr:
  assumes "parse_relationship p = Inr (x, q)"
  shows "bounded_relationship x \<and> pr_existential q = pr_existential p"
proof -
  obtain direction p1 where first: "(case consume_simple Tok_ArrowLeft p of
         Some p \<Rightarrow> Inr (Direction_Reverse, p)
       | None \<Rightarrow> sum_bind (expect_simple Tok_Dash ''match'' p) (\<lambda>p. Inr (Direction_Forward, p))) = Inr (direction, p1)"
    using assms unfolding parse_relationship_def by (auto simp: sum_bind_Inr_iff)
  have p1: "pr_existential p1 = pr_existential p"
    using first by (auto simp: sum_bind_Inr_iff dest!: consume_Some expect_Inr split: option.splits)
  obtain kinds p2 where list: "parse_list (consume_simple Tok_Pipe) (\<lambda>_. expect_string ''match'') (advance p1) = Inr (kinds, p2)"
    and "\<not> has_adjacent_duplicate (sort kinds)" and depth: "1 \<le> rel_min_depth x" "rel_min_depth x \<le> rel_max_depth x"
      "rel_max_depth x \<le> MAX_QUERY_DEPTH" and kinds: "rel_kinds x = sort kinds" and q: "pr_existential q = pr_existential p2"
    using assms first unfolding parse_relationship_def
    by (auto simp: sum_bind_Inr_iff dest!: expect_Inr checked_depth_Inr split: if_splits)
  have "pr_existential p2 = pr_existential p \<and> kinds \<noteq> []"
    by (rule parse_list_Inr [where R = "\<lambda>_ r. pr_existential r = pr_existential p", OF list])
      (auto simp: p1 dest!: expect_Inr consume_Some)
  then show ?thesis using \<open>\<not> has_adjacent_duplicate (sort kinds)\<close> depth kinds q
    by (simp add: bounded_relationship_def adjacent_sort_strict limit_simps)
qed

lemma parse_match_Inr:
  assumes "parse_match p = Inr (x, q)"
  shows "bounded_relationship (match_relationship x) \<and> pr_existential q = pr_existential p"
  using assms by (auto simp: parse_match_def sum_bind_Inr_iff dest!: expect_Inr parse_node_Inr parse_relationship_Inr)

lemma parse_return_Inr:
  assumes "parse_return p = Inr (x, q)"
  shows "return_projections x \<noteq> [] \<and> length (return_projections x) \<le> MAX_QUERY_PROJECTIONS"
proof -
  let ?item = "\<lambda>projections p. if length projections \<ge> MAX_QUERY_PROJECTIONS
         then Inl (parser_error ''query_projection_limit_exceeded'' Failure_Limit ''return''
           ''query exceeds the projection limit'' p)
         else parse_projection ''return'' p"
  obtain p1 xs where list: "parse_list (consume_simple Tok_Comma) ?item p1 = Inr (xs, q)" and x: "return_projections x = xs"
    using assms by (auto simp: parse_return_def sum_bind_Inr_iff Let_def)
  have "length xs \<le> MAX_QUERY_PROJECTIONS \<and> xs \<noteq> []"
    by (rule parse_list_Inr [where R = "\<lambda>ls _. length ls \<le> MAX_QUERY_PROJECTIONS", OF list])
      (auto simp: MAX_QUERY_PROJECTIONS_def split: if_splits)
  then show ?thesis by (simp add: x)
qed

lemma parse_order_Inr:
  assumes "parse_order p = Inr (x, q)"
  shows "length x \<le> MAX_QUERY_PROJECTIONS"
proof (cases "consume_keyword ''ORDER'' p")
  case (Some r)
  let ?item = "\<lambda>items p. if length items \<ge> MAX_QUERY_PROJECTIONS
            then Inl (parser_error ''query_order_limit_exceeded'' Failure_Limit ''order_by''
              ''query exceeds the order item limit'' p)
            else parse_order_item p"
  obtain p1 where list: "parse_list (consume_simple Tok_Comma) ?item p1 = Inr (x, q)"
    using assms Some by (auto simp: parse_order_def sum_bind_Inr_iff)
  have "length x \<le> MAX_QUERY_PROJECTIONS \<and> x \<noteq> []"
    by (rule parse_list_Inr [where R = "\<lambda>ls _. length ls \<le> MAX_QUERY_PROJECTIONS", OF list])
      (auto simp: MAX_QUERY_PROJECTIONS_def split: if_splits)
  then show ?thesis by simp
qed (use assms in \<open>simp add: parse_order_def\<close>)

lemma parse_where_Inr:
  assumes "parse_where E p = Inr (x, q)" and "pr_existential p = 0"
  shows "case x of None \<Rightarrow> True | Some e \<Rightarrow> canonical_expression E e \<and> some_count e \<le> MAX_QUERY_EXISTENTIAL_PREDICATES \<and>
    expression_nesting e \<le> MAX_QUERY_EXPRESSION_NESTING"
  using assms
  by (auto simp: parse_where_def sum_bind_Inr_iff counts_def dest!: consume_Some
      dest: parse_expression_Inr(1) parse_expression_nesting(1) split: option.splits)

text \<open>The limits of the language, of a query in canonical form.\<close>

definition within_limits :: "externals \<Rightarrow> QueryAst \<Rightarrow> bool" where
  "within_limits E ast \<longleftrightarrow>
     ast_contract_version ast = BOUNDED_QUERY_CONTRACT_VERSION \<and>
     bounded_relationship (match_relationship (ast_match_clause ast)) \<and>
     (case ast_where_clause ast of None \<Rightarrow> True | Some e \<Rightarrow>
        canonical_expression E e \<and> some_count e \<le> 16 \<and>
        expression_nesting e \<le> 16) \<and>
     return_projections (ast_return_clause ast) \<noteq> [] \<and>
     length (return_projections (ast_return_clause ast)) \<le> 32 \<and>
     length (ast_order_by ast) \<le> 32 \<and>
     0 < ast_limit ast \<and> ast_limit ast \<le> 10000 \<and>
     ast_node_count ast \<le> 512"

lemma within_limitsD:
  assumes "within_limits E ast"
  shows "ast_contract_version ast = BOUNDED_QUERY_CONTRACT_VERSION"
    "bounded_relationship (match_relationship (ast_match_clause ast))"
    "case ast_where_clause ast of None \<Rightarrow> True | Some e \<Rightarrow>
       canonical_expression E e \<and> some_count e \<le> MAX_QUERY_EXISTENTIAL_PREDICATES"
    "return_projections (ast_return_clause ast) \<noteq> []"
    "length (return_projections (ast_return_clause ast)) \<le> MAX_QUERY_PROJECTIONS"
    "length (ast_order_by ast) \<le> MAX_QUERY_PROJECTIONS"
    "0 < ast_limit ast" "ast_limit ast \<le> MAX_QUERY_LIMIT" "ast_node_count ast \<le> MAX_QUERY_AST_NODES"
  using assms unfolding within_limits_def limit_simps by (simp_all split: option.splits)

lemma parse_limit_Inr: "parse_limit p = Inr (x, q) \<Longrightarrow> 0 < x \<and> x \<le> MAX_QUERY_LIMIT"
  by (auto simp: parse_limit_def sum_bind_Inr_iff split: if_splits)

lemma parse_Inr:
  assumes "parse E (new_parser tokens) = Inr ast"
  shows "within_limits E ast"
proof -
  obtain m p1 w p2 r p3 order p4 limit p5 where
    m: "parse_match (new_parser tokens) = Inr (m, p1)" and w: "parse_where E p1 = Inr (w, p2)" and r: "parse_return p2 = Inr (r, p3)"
    and order: "parse_order p3 = Inr (order, p4)" and limit: "parse_limit p4 = Inr (limit, p5)"
    and ast: "ast = \<lparr>ast_contract_version = BOUNDED_QUERY_CONTRACT_VERSION, ast_match_clause = m,
           ast_where_clause = w, ast_return_clause = r, ast_order_by = order, ast_limit = limit\<rparr>"
    and count: "ast_node_count ast \<le> MAX_QUERY_AST_NODES"
    using assms unfolding parse_def by (auto simp: sum_bind_Inr_iff Let_def split: if_splits)
  have "pr_existential p1 = 0" using parse_match_Inr [OF m] by (simp add: new_parser_def)
  from parse_where_Inr [OF w this] parse_match_Inr [OF m] parse_return_Inr [OF r] parse_order_Inr [OF order] parse_limit_Inr [OF limit] count
  show ?thesis by (simp add: within_limits_def ast limit_simps split: option.splits)
qed

end
