(* ===== verification/Query_Print.thy ===== *)
theory Query_Print
  imports Query_Parsing
begin

text \<open>
  Writing a query and reading it back. \<open>query_tokens\<close> writes a syntax tree with every compound operand in parentheses;
  the parser reads a canonical tree back exactly, if its names are not keywords, its parentheses are nested within the
  limit and the other limits hold.
\<close>

section \<open>The tokens of a query\<close>

definition separated :: "'k \<Rightarrow> 'k list list \<Rightarrow> 'k list" where
  "separated s xs = (case xs of [] \<Rightarrow> [] | x # rest \<Rightarrow> x @ concat (map (Cons s) rest))"

definition enclosed :: "bool \<Rightarrow> TokenKind list \<Rightarrow> TokenKind list" where
  "enclosed bare tokens = (if bare then tokens else Tok_LeftParen # tokens @ [Tok_RightParen])"

fun literal_token :: "Literal \<Rightarrow> TokenKind" where
  "literal_token (Lit_String s) = Tok_String s"
| "literal_token (Lit_Unsigned n) = Tok_Unsigned n"
| "literal_token (Lit_Boolean b) = Tok_Identifier (if b then ''true'' else ''false'')"
| "literal_token Lit_Null = Tok_Identifier ''null''"

fun operator_tokens :: "ScalarOperator \<Rightarrow> TokenKind list" where
  "operator_tokens (Op_Equal l) = [Tok_Equal, literal_token l]"
| "operator_tokens (Op_NotEqual l) = [Tok_NotEqual, literal_token l]"
| "operator_tokens (Op_Less l) = [Tok_Less, literal_token l]"
| "operator_tokens (Op_LessOrEqual l) = [Tok_LessOrEqual, literal_token l]"
| "operator_tokens (Op_Greater l) = [Tok_Greater, literal_token l]"
| "operator_tokens (Op_GreaterOrEqual l) = [Tok_GreaterOrEqual, literal_token l]"
| "operator_tokens (Op_StartsWith l) = [Tok_Identifier ''STARTS'', Tok_Identifier ''WITH'', literal_token l]"
| "operator_tokens (Op_In ls) =
     [Tok_Identifier ''IN'', Tok_LeftBracket] @ separated Tok_Comma (map (\<lambda>l. [literal_token l]) ls) @ [Tok_RightBracket]"

definition field_tokens :: "FieldReference \<Rightarrow> TokenKind list" where
  "field_tokens f = [Tok_Identifier (ref_binding f), Tok_Dot, Tok_Identifier (ref_field f)]"

definition scalar_tokens :: "ScalarPredicate \<Rightarrow> TokenKind list" where
  "scalar_tokens p = field_tokens (pred_field p) @ operator_tokens (pred_operator p)"

fun entity_tokens :: "EntityExpression \<Rightarrow> TokenKind list" where
  "entity_tokens (Entity_Or es) =
     separated (Tok_Identifier ''OR'') (map (\<lambda>e. enclosed (is_entity_scalar e) (entity_tokens e)) es)"
| "entity_tokens (Entity_And es) =
     separated (Tok_Identifier ''AND'') (map (\<lambda>e. enclosed (is_entity_scalar e) (entity_tokens e)) es)"
| "entity_tokens (Entity_Not e) = Tok_Identifier ''NOT'' # enclosed (is_entity_scalar e) (entity_tokens e)"
| "entity_tokens (Entity_Scalar p) = scalar_tokens p"

fun quantifier_words :: "QuantifierKind \<Rightarrow> string \<times> string" where
  "quantifier_words EveryEdge = (''EVERY'', ''EDGES'')"
| "quantifier_words SomeSite = (''SOME'', ''SITES'')"
| "quantifier_words SomeEvidence = (''SOME'', ''EVIDENCE'')"

definition quantifier_tokens :: "QuantifierPredicate \<Rightarrow> TokenKind list" where
  "quantifier_tokens q =
     [Tok_Identifier (fst (quantifier_words (quant_kind q))), Tok_Identifier (quant_binding q), Tok_Identifier ''IN'',
      Tok_Identifier (snd (quantifier_words (quant_kind q))), Tok_LeftParen, Tok_Identifier (quant_path_binding q), Tok_RightParen,
      Tok_Identifier ''SATISFIES''] @ entity_tokens (quant_expression q)"

fun expression_tokens :: "Expression \<Rightarrow> TokenKind list" where
  "expression_tokens (Expr_Or es) =
     separated (Tok_Identifier ''OR'') (map (\<lambda>e. enclosed (is_scalar e) (expression_tokens e)) es)"
| "expression_tokens (Expr_And es) =
     separated (Tok_Identifier ''AND'') (map (\<lambda>e. enclosed (is_scalar e) (expression_tokens e)) es)"
| "expression_tokens (Expr_Not e) = Tok_Identifier ''NOT'' # enclosed (is_scalar e) (expression_tokens e)"
| "expression_tokens (Expr_Scalar p) = scalar_tokens p"
| "expression_tokens (Expr_Quantifier q) = quantifier_tokens q"

definition node_tokens :: "NodePattern \<Rightarrow> TokenKind list" where
  "node_tokens n = [Tok_LeftParen, Tok_Identifier (pattern_binding n)] @
     (case pattern_kind n of None \<Rightarrow> [] | Some k \<Rightarrow> [Tok_Colon, Tok_String k]) @ [Tok_RightParen]"

definition relationship_tokens :: "RelationshipPattern \<Rightarrow> TokenKind list" where
  "relationship_tokens r =
     (if rel_direction r = Direction_Forward then Tok_Dash else Tok_ArrowLeft) # Tok_LeftBracket #
     separated Tok_Pipe (map (\<lambda>k. [Tok_String k]) (rel_kinds r)) @
     [Tok_Star, Tok_Unsigned (rel_min_depth r), Tok_Range, Tok_Unsigned (rel_max_depth r), Tok_RightBracket,
      if rel_direction r = Direction_Forward then Tok_ArrowRight else Tok_Dash]"

fun projection_tokens :: "Projection \<Rightarrow> TokenKind list" where
  "projection_tokens (Project_Binding b) = [Tok_Identifier b]"
| "projection_tokens (Project_Field f) = field_tokens f"

definition order_item_tokens :: "OrderItem \<Rightarrow> TokenKind list" where
  "order_item_tokens item = projection_tokens (order_projection item) @
     [Tok_Identifier (if order_direction item = Ascending then ''ASC'' else ''DESC'')]"

definition query_tokens :: "QueryAst \<Rightarrow> TokenKind list" where
  "query_tokens ast =
     (let m = ast_match_clause ast; c = ast_return_clause ast in
      [Tok_Identifier ''MATCH'', Tok_Identifier (match_path_binding m), Tok_Equal] @
      node_tokens (match_source m) @ relationship_tokens (match_relationship m) @ node_tokens (match_target m) @
      (case ast_where_clause ast of None \<Rightarrow> [] | Some e \<Rightarrow> Tok_Identifier ''WHERE'' # expression_tokens e) @
      Tok_Identifier ''RETURN'' # (if return_distinct c then [Tok_Identifier ''DISTINCT''] else []) @
      separated Tok_Comma (map projection_tokens (return_projections c)) @
      (if ast_order_by ast = [] then []
       else [Tok_Identifier ''ORDER'', Tok_Identifier ''BY''] @ separated Tok_Comma (map order_item_tokens (ast_order_by ast))) @
      [Tok_Identifier ''LIMIT'', Tok_Unsigned (ast_limit ast)])"

section \<open>What can be written\<close>

definition is_name :: "string \<Rightarrow> bool" where
  "is_name b \<longleftrightarrow> \<not> list_ex (eq_ignore_ascii_case b) RESERVED_BINDING_WORDS"

text \<open>The names of an expression are no keywords, and its parentheses stay within the nesting limit from \<open>n\<close> on.\<close>

fun entity_fits :: "string \<Rightarrow> nat \<Rightarrow> EntityExpression \<Rightarrow> bool" where
  "entity_fits b n (Entity_Or es) \<longleftrightarrow>
     n \<le> MAX_QUERY_EXPRESSION_NESTING \<and> (\<forall>e\<in>set es. entity_fits b (if is_entity_scalar e then n else n + 1) e)"
| "entity_fits b n (Entity_And es) \<longleftrightarrow>
     n \<le> MAX_QUERY_EXPRESSION_NESTING \<and> (\<forall>e\<in>set es. entity_fits b (if is_entity_scalar e then n else n + 1) e)"
| "entity_fits b n (Entity_Not e) \<longleftrightarrow>
     n \<le> MAX_QUERY_EXPRESSION_NESTING \<and> entity_fits b (if is_entity_scalar e then n else n + 1) e"
| "entity_fits b n (Entity_Scalar p) \<longleftrightarrow> n \<le> MAX_QUERY_EXPRESSION_NESTING \<and> ref_binding (pred_field p) = b"

fun fits :: "nat \<Rightarrow> Expression \<Rightarrow> bool" where
  "fits n (Expr_Or es) \<longleftrightarrow> n \<le> MAX_QUERY_EXPRESSION_NESTING \<and> (\<forall>e\<in>set es. fits (if is_scalar e then n else n + 1) e)"
| "fits n (Expr_And es) \<longleftrightarrow> n \<le> MAX_QUERY_EXPRESSION_NESTING \<and> (\<forall>e\<in>set es. fits (if is_scalar e then n else n + 1) e)"
| "fits n (Expr_Not e) \<longleftrightarrow> n \<le> MAX_QUERY_EXPRESSION_NESTING \<and> fits (if is_scalar e then n else n + 1) e"
| "fits n (Expr_Scalar p) \<longleftrightarrow> n \<le> MAX_QUERY_EXPRESSION_NESTING \<and> is_name (ref_binding (pred_field p))"
| "fits n (Expr_Quantifier q) \<longleftrightarrow> is_name (quant_binding q) \<and> entity_fits (quant_binding q) (n + 1) (quant_expression q)"

text \<open>An expression that fits is within the nesting limit of the language: written sparingly it nests no deeper.\<close>

lemma entity_fits_entity_nesting: "entity_fits b n e \<Longrightarrow> n + entity_nesting e \<le> MAX_QUERY_EXPRESSION_NESTING"
proof (induction b n e rule: entity_fits.induct)
  case (1 b n es)
  then have n: "n \<le> MAX_QUERY_EXPRESSION_NESTING" by simp
  have "entity_nesting (Entity_Or es) \<le> MAX_QUERY_EXPRESSION_NESTING - n"
    unfolding nesting_le
  proof
    fix e assume e: "e \<in> set es"
    then have "(if is_entity_scalar e then n else n + 1) + entity_nesting e \<le> MAX_QUERY_EXPRESSION_NESTING" using 1 by simp
    then show "entity_nesting e + (if is_entity_or e then 1 else 0) \<le> MAX_QUERY_EXPRESSION_NESTING - n"
      by (cases e) (simp_all split: if_splits)
  qed
  with n show ?case by linarith
next
  case (2 b n es)
  then have n: "n \<le> MAX_QUERY_EXPRESSION_NESTING" by simp
  have "entity_nesting (Entity_And es) \<le> MAX_QUERY_EXPRESSION_NESTING - n"
    unfolding nesting_le
  proof
    fix e assume e: "e \<in> set es"
    then have "(if is_entity_scalar e then n else n + 1) + entity_nesting e \<le> MAX_QUERY_EXPRESSION_NESTING" using 2 by simp
    then show "entity_nesting e + (if is_entity_or e \<or> is_entity_and e then 1 else 0) \<le> MAX_QUERY_EXPRESSION_NESTING - n"
      by (cases e) (simp_all split: if_splits)
  qed
  with n show ?case by linarith
qed (auto split: if_splits)

lemma fits_expression_nesting: "fits n e \<Longrightarrow> n + expression_nesting e \<le> MAX_QUERY_EXPRESSION_NESTING"
proof (induction n e rule: fits.induct)
  case (1 n es)
  then have n: "n \<le> MAX_QUERY_EXPRESSION_NESTING" by simp
  have "expression_nesting (Expr_Or es) \<le> MAX_QUERY_EXPRESSION_NESTING - n"
    unfolding nesting_le
  proof
    fix e assume e: "e \<in> set es"
    then have "(if is_scalar e then n else n + 1) + expression_nesting e \<le> MAX_QUERY_EXPRESSION_NESTING" using 1 by simp
    then show "expression_nesting e + (if is_or e then 1 else 0) \<le> MAX_QUERY_EXPRESSION_NESTING - n"
      by (cases e) (simp_all split: if_splits)
  qed
  with n show ?case by linarith
next
  case (2 n es)
  then have n: "n \<le> MAX_QUERY_EXPRESSION_NESTING" by simp
  have "expression_nesting (Expr_And es) \<le> MAX_QUERY_EXPRESSION_NESTING - n"
    unfolding nesting_le
  proof
    fix e assume e: "e \<in> set es"
    then have "(if is_scalar e then n else n + 1) + expression_nesting e \<le> MAX_QUERY_EXPRESSION_NESTING" using 2 by simp
    then show "expression_nesting e + (if is_or e \<or> is_and e then 1 else 0) \<le> MAX_QUERY_EXPRESSION_NESTING - n"
      by (cases e) (simp_all split: if_splits)
  qed
  with n show ?case by linarith
qed (auto split: if_splits dest: entity_fits_entity_nesting)

fun projection_binding :: "Projection \<Rightarrow> string" where
  "projection_binding (Project_Binding b) = b"
| "projection_binding (Project_Field f) = ref_binding f"

definition writable :: "QueryAst \<Rightarrow> bool" where
  "writable ast \<longleftrightarrow> (case ast_where_clause ast of None \<Rightarrow> True | Some e \<Rightarrow> fits 0 e) \<and>
     (\<forall>p\<in>set (return_projections (ast_return_clause ast)). is_name (projection_binding p))"

section \<open>Reading tokens back\<close>

definition kinds :: "Parser \<Rightarrow> TokenKind list" where
  "kinds p = map tok_kind (pr_rest p)"

lemma kinds_current [simp]: "tok_kind (current p) = (case kinds p of [] \<Rightarrow> Tok_End | k # _ \<Rightarrow> k)"
  by (simp add: current_def kinds_def end_token_def split: list.split)

lemma kinds_advance [simp]: "kinds (advance p) = tl (kinds p)"
  by (simp add: kinds_def advance_def map_tl)

text \<open>
  \<open>reads f tokens x n ok\<close>: the parser \<open>f\<close> reads the tokens as \<open>x\<close>, counting \<open>n\<close> existential quantifiers, whatever
  tokens with \<open>ok\<close> follow.
\<close>

definition reads :: "(Parser \<Rightarrow> 'a parses) \<Rightarrow> TokenKind list \<Rightarrow> 'a \<Rightarrow> nat \<Rightarrow> (TokenKind list \<Rightarrow> bool) \<Rightarrow> bool" where
  "reads f tokens x n ok \<longleftrightarrow> (\<forall>p zs. kinds p = tokens @ zs \<longrightarrow> ok zs \<longrightarrow> pr_existential p + n \<le> MAX_QUERY_EXISTENTIAL_PREDICATES \<longrightarrow>
     (\<exists>q. f p = Inr (x, q) \<and> kinds q = zs \<and> pr_existential q = pr_existential p + n))"

lemma readsI:
  assumes "\<And>p zs. \<lbrakk>kinds p = tokens @ zs; ok zs; pr_existential p + n \<le> MAX_QUERY_EXISTENTIAL_PREDICATES\<rbrakk> \<Longrightarrow>
     \<exists>q. f p = Inr (x, q) \<and> kinds q = zs \<and> pr_existential q = pr_existential p + n"
  shows "reads f tokens x n ok"
  unfolding reads_def using assms by blast

lemma readsE:
  assumes "reads f tokens x n ok" and "kinds p = tokens @ zs" and "ok zs" and "pr_existential p + n \<le> MAX_QUERY_EXISTENTIAL_PREDICATES"
  obtains q where "f p = Inr (x, q)" and "kinds q = zs" and "pr_existential q = pr_existential p + n"
  using assms unfolding reads_def by blast

lemma reads_weaken: "reads f tokens x n ok \<Longrightarrow> (\<And>zs. ok' zs \<Longrightarrow> ok zs) \<Longrightarrow> reads f tokens x n ok'"
  unfolding reads_def by blast

lemma parse_more_reads:
  assumes "\<And>ys x. \<lbrakk>x \<in> set xs; ys \<noteq> []; length ys < length items + length xs\<rbrakk> \<Longrightarrow> reads (item ys) (tk x) x (n x) ok'"
    and "\<And>x zs. x \<in> set xs \<Longrightarrow> ok' (s # tk x @ zs)" and "\<And>zs. ok zs \<Longrightarrow> ok' zs"
    and "\<forall>x\<in>set xs. \<forall>q zs. kinds q = s # tk x @ zs \<longrightarrow> separator q = Some (advance q)"
    and "\<And>q. ok (kinds q) \<Longrightarrow> separator q = None"
    and "length xs \<le> rounds" and "kinds p = concat (map (Cons s) (map tk xs)) @ zs" and "ok zs" and "items \<noteq> []"
    and "pr_existential p + sum_list (map n xs) \<le> MAX_QUERY_EXISTENTIAL_PREDICATES"
  shows "\<exists>q. parse_more rounds separator item items p = Inr (items @ xs, q) \<and> kinds q = zs \<and>
    pr_existential q = pr_existential p + sum_list (map n xs)"
  using assms
proof (induction xs arbitrary: items rounds p)
  case Nil
  then have "separator p = None" by simp
  then show ?case using Nil by (cases rounds) simp_all
next
  case (Cons x xs)
  then obtain k where k: "rounds = Suc k" by (cases rounds) simp_all
  let ?zs = "concat (map (Cons s) (map tk xs)) @ zs"
  have p: "kinds p = s # tk x @ ?zs" using Cons.prems(7) by simp
  have sep: "separator p = Some (advance p)" using Cons.prems(4) p by simp
  have ok: "ok' ?zs" using Cons.prems(2,3,8) by (cases xs) simp_all
  obtain q where q: "item items (advance p) = Inr (x, q)" "kinds q = ?zs" "pr_existential q = pr_existential p + n x"
    by (rule readsE [OF Cons.prems(1) [of x items], of "advance p" ?zs]) (use Cons.prems(9,10) ok p in simp_all)
  have "\<exists>r. parse_more k separator item (items @ [x]) q = Inr ((items @ [x]) @ xs, r) \<and> kinds r = zs \<and>
      pr_existential r = pr_existential q + sum_list (map n xs)"
    by (rule Cons.IH) (use Cons.prems q k in simp_all)
  then show ?case using q(1,3) sep k by auto
qed

lemma parse_list_reads:
  assumes "xs \<noteq> []"
    and item: "\<And>ys x. \<lbrakk>x \<in> set xs; length ys < length xs\<rbrakk> \<Longrightarrow> reads (item ys) (tk x) x (n x) ok'"
    and next_ok: "\<And>x zs. x \<in> set (tl xs) \<Longrightarrow> ok' (s # tk x @ zs)" and ok: "\<And>zs. ok zs \<Longrightarrow> ok' zs"
    and hit: "\<forall>x\<in>set xs. \<forall>q zs. kinds q = s # tk x @ zs \<longrightarrow> separator q = Some (advance q)"
    and miss: "\<And>q. ok (kinds q) \<Longrightarrow> separator q = None"
  shows "reads (parse_list separator item) (separated s (map tk xs)) xs (sum_list (map n xs)) ok"
proof (rule readsI)
  fix p zs assume p: "kinds p = separated s (map tk xs) @ zs" and zs: "ok zs"
    and few: "pr_existential p + sum_list (map n xs) \<le> MAX_QUERY_EXISTENTIAL_PREDICATES"
  obtain x rest where xs: "xs = x # rest" using assms(1) by (cases xs) simp_all
  let ?zs = "concat (map (Cons s) (map tk rest)) @ zs"
  have ok1: "ok' ?zs" using next_ok ok zs xs by (cases rest) simp_all
  obtain q where q: "item [] p = Inr (x, q)" "kinds q = ?zs" "pr_existential q = pr_existential p + n x"
    by (rule readsE [OF item [of x "[]"], of p ?zs]) (use p ok1 few xs in \<open>simp_all add: separated_def\<close>)
  have "length rest \<le> length (kinds q)"
    using length_concat [of "map (Cons s) (map tk rest)"] sum_list_mono [of rest "\<lambda>_. 1" "\<lambda>x. Suc (length (tk x))"]
    by (simp add: q(2) comp_def sum_list_triv)
  then have rounds: "length rest \<le> length (pr_rest q)" by (simp add: kinds_def)
  have "\<exists>r. parse_more (length (pr_rest q)) separator item [x] q = Inr ([x] @ rest, r) \<and> kinds r = zs \<and>
      pr_existential r = pr_existential q + sum_list (map n rest)"
    by (rule parse_more_reads [where ok = ok and ok' = ok' and s = s and tk = tk])
      (use item next_ok ok hit miss rounds q zs few xs in auto)
  then show "\<exists>r. parse_list separator item p = Inr (xs, r) \<and> kinds r = zs \<and> pr_existential r = pr_existential p + sum_list (map n xs)"
    using q(1,3) by (auto simp: parse_list_def xs)
qed

section \<open>Keywords and punctuation\<close>

lemma eq_ignore_refl [simp]: "eq_ignore_ascii_case s s"
  by (simp add: eq_ignore_ascii_case_def)

lemmas keyword_eval = eq_ignore_ascii_case_def ascii_upper_def is_ascii_lowercase_def

definition heads :: "string \<Rightarrow> TokenKind list \<Rightarrow> bool" where
  "heads keyword zs \<longleftrightarrow> (case zs of [] \<Rightarrow> False | k # _ \<Rightarrow> is_keyword keyword k)"

lemma heads_Cons [simp]: "heads keyword (k # zs) = is_keyword keyword k" "\<not> heads keyword []"
  by (simp_all add: heads_def)

lemma current_keyword_heads [simp]: "current_keyword keyword p \<longleftrightarrow> heads keyword (kinds p)"
  by (simp add: current_keyword_def heads_def split: list.split)

lemma consume_keyword_heads: "consume_keyword keyword p = (if heads keyword (kinds p) then Some (advance p) else None)"
  by (simp add: consume_keyword_def)

lemma expect_keyword_heads: "heads keyword (kinds p) \<Longrightarrow> expect_keyword keyword clause p = Inr (advance p)"
  by (simp add: expect_keyword_def consume_keyword_heads)

lemma consume_simple_kinds:
  "consume_simple kind p = (if token_class (case kinds p of [] \<Rightarrow> Tok_End | k # _ \<Rightarrow> k) = token_class kind then Some (advance p) else None)"
  by (simp add: consume_simple_def)

lemma expect_simple_kinds: "kinds p = kind # ks \<Longrightarrow> expect_simple kind clause p = Inr (advance p)"
  by (simp add: expect_simple_def consume_simple_kinds)

lemma expect_identifier_kinds: "kinds p = Tok_Identifier v # ks \<Longrightarrow> expect_identifier clause p = Inr (v, advance p)"
  by (simp add: expect_identifier_def)

lemma expect_string_kinds: "kinds p = Tok_String v # ks \<Longrightarrow> expect_string clause p = Inr (v, advance p)"
  by (simp add: expect_string_def)

lemma expect_unsigned_kinds: "kinds p = Tok_Unsigned v # ks \<Longrightarrow> expect_unsigned clause p = Inr ((v, tok_origin (current p)), advance p)"
  by (simp add: expect_unsigned_def)

lemmas token_steps = expect_keyword_heads expect_simple_kinds expect_identifier_kinds expect_string_kinds expect_unsigned_kinds

lemma name_no_keyword:
  "is_name b \<Longrightarrow> w \<in> set RESERVED_BINDING_WORDS \<Longrightarrow> \<not> is_keyword w (Tok_Identifier b)"
  by (auto simp: is_name_def list_ex_iff)

lemma name_words:
  assumes "is_name b"
  shows "\<not> eq_ignore_ascii_case b ''NOT''" "\<not> eq_ignore_ascii_case b ''EVERY''" "\<not> eq_ignore_ascii_case b ''SOME''"
    "\<not> eq_ignore_ascii_case b ''DISTINCT''"
  using assms by (simp_all add: is_name_def RESERVED_BINDING_WORDS_def)

section \<open>Scalar predicates\<close>

lemma parse_literal_reads: "reads (parse_literal clause) [literal_token l] l 0 (\<lambda>_. True)"
  by (rule readsI, cases l) (auto simp: parse_literal_def keyword_eval)

lemma parse_literal_kinds:
  assumes "kinds p = literal_token l # zs" shows "parse_literal clause p = Inr (l, advance p)"
  using assms by (cases l) (auto simp: parse_literal_def keyword_eval)

lemma parse_literal_list_reads:
  assumes "bounded_operator (Op_In ls)"
  shows "reads (parse_literal_list clause)
    ([Tok_LeftBracket] @ separated Tok_Comma (map (\<lambda>l. [literal_token l]) ls) @ [Tok_RightBracket]) (Op_In ls) 0 (\<lambda>_. True)"
proof (rule readsI)
  fix p zs assume p: "kinds p = ([Tok_LeftBracket] @ separated Tok_Comma (map (\<lambda>l. [literal_token l]) ls) @ [Tok_RightBracket]) @ zs"
    and few: "pr_existential p + 0 \<le> MAX_QUERY_EXISTENTIAL_PREDICATES"
  have ls: "ls \<noteq> []" "length ls \<le> MAX_QUERY_LIST_LITERALS" "strict_sorted ls" using assms by (simp_all add: limit_simps)
  then have sort: "sort ls = ls" "\<not> has_adjacent_duplicate ls"
    using adjacent_sort_strict [of ls] by (simp_all add: strict_sorted_iff sorted_sort_id)
  let ?item = "\<lambda>literals p. if length literals \<ge> MAX_QUERY_LIST_LITERALS
         then Inl (parser_error ''query_list_literal_limit_exceeded'' Failure_Limit clause
           ''query exceeds the list literal limit'' p)
         else parse_literal clause p"
  have "reads (parse_list (consume_simple Tok_Comma) ?item) (separated Tok_Comma (map (\<lambda>l. [literal_token l]) ls)) ls
      (sum_list (map (\<lambda>_. 0) ls)) (\<lambda>zs. \<exists>ws. zs = Tok_RightBracket # ws)"
    by (rule parse_list_reads [where ok' = "\<lambda>_. True"])
      (use ls parse_literal_reads in \<open>auto simp: consume_simple_kinds\<close>)
  then obtain q where "parse_list (consume_simple Tok_Comma) ?item (advance p) = Inr (ls, q)"
    "kinds q = Tok_RightBracket # zs" "pr_existential q = pr_existential p"
    by (rule readsE [of _ _ _ _ _ "advance p" "Tok_RightBracket # zs"]) (use p few in simp_all)
  then show "\<exists>q. parse_literal_list clause p = Inr (Op_In ls, q) \<and> kinds q = zs \<and> pr_existential q = pr_existential p + 0"
    using p sort by (simp add: parse_literal_list_def expect_simple_kinds)
qed

lemma parse_operator_reads:
  assumes "bounded_operator op"
  shows "reads (parse_operator clause) (operator_tokens op) op 0 (\<lambda>_. True)"
proof (rule readsI)
  fix p zs assume p: "kinds p = operator_tokens op @ zs" and few: "pr_existential p + 0 \<le> MAX_QUERY_EXISTENTIAL_PREDICATES"
  show "\<exists>q. parse_operator clause p = Inr (op, q) \<and> kinds q = zs \<and> pr_existential q = pr_existential p + 0"
  proof (cases "\<exists>ls. op = Op_In ls")
    case True
    then obtain ls where ls: "op = Op_In ls" by blast
    obtain q where "parse_literal_list clause (advance p) = Inr (Op_In ls, q)" "kinds q = zs" "pr_existential q = pr_existential p"
      by (rule readsE [OF parse_literal_list_reads, of ls "advance p" zs clause]) (use p few assms in \<open>simp_all add: ls\<close>)
    then show ?thesis using p
      by (simp add: ls parse_operator_def COMPARISONS_def consume_simple_kinds consume_keyword_heads keyword_eval)
  next
    case False
    then show ?thesis using p
      by (cases op)
        (simp_all add: parse_operator_def COMPARISONS_def consume_simple_kinds consume_keyword_heads expect_keyword_heads
          keyword_eval parse_literal_kinds)
  qed
qed

lemma parse_scalar_predicate_reads:
  assumes "bounded_operator (pred_operator x)"
  shows "reads (parse_scalar_predicate clause) (scalar_tokens x) x 0 (\<lambda>_. True)"
proof (rule readsI)
  fix p zs assume p: "kinds p = scalar_tokens x @ zs" and few: "pr_existential p + 0 \<le> MAX_QUERY_EXISTENTIAL_PREDICATES"
  obtain q where "parse_operator clause (advance (advance (advance p))) = Inr (pred_operator x, q)"
    "kinds q = zs" "pr_existential q = pr_existential p"
    by (rule readsE [OF parse_operator_reads [OF assms], of "advance (advance (advance p))" zs clause])
      (use p few in \<open>simp_all add: scalar_tokens_def field_tokens_def\<close>)
  then show "\<exists>q. parse_scalar_predicate clause p = Inr (x, q) \<and> kinds q = zs \<and> pr_existential q = pr_existential p + 0"
    using p by (simp add: parse_scalar_predicate_def parse_field_def scalar_tokens_def field_tokens_def token_steps)
qed

section \<open>Entity expressions\<close>

lemma separated_single [simp]: "separated s [x] = x"
  by (simp add: separated_def)

lemma canonical_sort_terms: "canonical_terms E f xs \<Longrightarrow> canonical_sort E f xs = xs"
  unfolding canonical_terms_def canonical_sort_def using sorted_sort_id sort_key_id_if_sorted by blast

lemma canonical_sort_single [simp]: "canonical_sort E f [x] = [x]"
  by (simp add: canonical_sort_def)

lemma collapse_terms_id: "canonical_terms E f xs \<Longrightarrow> collapse c (canonical_sort E f xs) = c xs"
  by (auto simp: canonical_sort_terms collapse_def canonical_terms_def split: list.split)

lemma concat_singles: "(\<And>x. x \<in> set xs \<Longrightarrow> f x = [x]) \<Longrightarrow> concat (map f xs) = xs"
  by (induction xs) simp_all

lemma source_entity_id:
  "canonical_entity E (Entity_Or es) \<Longrightarrow> source_entity_or E es = Entity_Or es"
  "canonical_entity E (Entity_And es) \<Longrightarrow> source_entity_and E es = Entity_And es"
  "canonical_entity E e \<Longrightarrow> source_entity_or E [e] = e"
  "canonical_entity E e \<Longrightarrow> source_entity_and E [e] = e"
proof -
  have or: "source_entity_or_children e = [e]" if "\<not> is_entity_or e" for e using that by (cases e) simp_all
  have "and": "source_entity_and_children e = [e]" if "\<not> is_entity_and e" for e using that by (cases e) simp_all
  show "canonical_entity E (Entity_Or es) \<Longrightarrow> source_entity_or E es = Entity_Or es"
    using concat_singles [of es source_entity_or_children] or by (simp add: source_entity_or_def collapse_terms_id)
  show "canonical_entity E (Entity_And es) \<Longrightarrow> source_entity_and E es = Entity_And es"
    using concat_singles [of es source_entity_and_children] "and" by (simp add: source_entity_and_def collapse_terms_id)
  show "canonical_entity E e \<Longrightarrow> source_entity_or E [e] = e"
    by (cases e) (simp_all add: source_entity_or_def collapse_terms_id, simp_all add: collapse_def)
  show "canonical_entity E e \<Longrightarrow> source_entity_and E [e] = e"
    by (cases e) (simp_all add: source_entity_and_def collapse_terms_id, simp_all add: collapse_def)
qed

text \<open>The lookahead recognizes every operand over the binding.\<close>

abbreviation entity_operand :: "EntityExpression \<Rightarrow> TokenKind list" where
  "entity_operand e \<equiv> enclosed (is_entity_scalar e) (entity_tokens e)"

lemma separated_first: "xs \<noteq> [] \<Longrightarrow> \<exists>ws. separated s xs = hd xs @ ws"
  by (auto simp: separated_def split: list.split)

lemma skip_not_kinds: "map tok_kind ts = k # ks \<Longrightarrow> skip_not ts = (if is_keyword ''NOT'' k then tl ts else ts)"
  by (cases ts) (simp_all add: skip_not_def)

lemma entity_operand_starts:
  assumes "is_name b" and "canonical_entity E e" and "entity_fits b n e"
  shows "(\<forall>(ts :: Token list) zs. map tok_kind ts = entity_tokens e @ zs \<longrightarrow> entity_term_starts b ts) \<and>
    (\<forall>(ts :: Token list) zs. map tok_kind ts = entity_operand e @ zs \<longrightarrow> entity_term_starts b ts)"
  using assms(2,3)
proof (induction e arbitrary: n)
  have operand: "\<forall>(ts :: Token list) zs. map tok_kind ts = enclosed False tokens @ zs \<longrightarrow> entity_term_starts b ts"
    if "\<forall>(ts :: Token list) zs. map tok_kind ts = tokens @ zs \<longrightarrow> entity_term_starts b ts" for tokens
  proof (intro allI impI)
    fix ts :: "Token list" and zs assume "map tok_kind ts = enclosed False tokens @ zs"
    then obtain t us where ts: "ts = t # us" "tok_kind t = Tok_LeftParen" "map tok_kind us = tokens @ Tok_RightParen # zs"
      by (auto simp: enclosed_def map_eq_Cons_conv)
    then show "entity_term_starts b ts" using that by (auto simp: entity_term_starts_def skip_not_def)
  qed
  {
    case (Entity_Or es)
    then obtain e where e: "e \<in> set es" "hd es = e" "es \<noteq> []" by (cases es) (auto simp: canonical_terms_def)
    then obtain ws where ws: "entity_tokens (Entity_Or es) = entity_operand e @ ws"
      using separated_first [of "map entity_operand es"] by (auto simp: hd_map)
    have "\<forall>(ts :: Token list) zs. map tok_kind ts = entity_tokens (Entity_Or es) @ zs \<longrightarrow> entity_term_starts b ts"
      using Entity_Or.IH [OF e(1)] Entity_Or.prems e(1) unfolding ws by (auto split: if_splits)
    with operand show ?case by (simp only: is_entity_scalar.simps) blast
  next
    case (Entity_And es)
    then obtain e where e: "e \<in> set es" "hd es = e" "es \<noteq> []" by (cases es) (auto simp: canonical_terms_def)
    then obtain ws where ws: "entity_tokens (Entity_And es) = entity_operand e @ ws"
      using separated_first [of "map entity_operand es"] by (auto simp: hd_map)
    have "\<forall>(ts :: Token list) zs. map tok_kind ts = entity_tokens (Entity_And es) @ zs \<longrightarrow> entity_term_starts b ts"
      using Entity_And.IH [OF e(1)] Entity_And.prems e(1) unfolding ws by (auto split: if_splits)
    with operand show ?case by (simp only: is_entity_scalar.simps) blast
  next
    case (Entity_Not e)
    have "entity_term_starts b ts" if tokens: "map tok_kind ts = entity_tokens (Entity_Not e) @ zs" for ts :: "Token list" and zs
    proof -
      obtain t us where ts: "ts = t # us" "tok_kind t = Tok_Identifier ''NOT''" "map tok_kind us = entity_operand e @ zs"
        using tokens by (cases ts) auto
      have "skip_not us = us"
        using ts(3) Entity_Not.prems(2) name_words(1) [OF assms(1)]
        by (cases e) (auto simp: skip_not_kinds enclosed_def scalar_tokens_def field_tokens_def)
      moreover have "entity_term_starts b us"
        using Entity_Not.IH Entity_Not.prems ts(3) by (auto split: if_splits)
      ultimately show ?thesis using ts(1,2) by (simp add: entity_term_starts_def skip_not_def)
    qed
    with operand show ?case by (simp only: is_entity_scalar.simps) blast
  next
    case (Entity_Scalar p)
    then show ?case using name_words(1) [OF assms(1)]
      by (auto simp: enclosed_def entity_term_starts_def scalar_tokens_def field_tokens_def map_eq_Cons_conv skip_not_def)
  }
qed

lemma continues_kinds:
  "kinds q = Tok_Identifier keyword # ks \<Longrightarrow> (\<And>ts. map tok_kind ts = ks \<Longrightarrow> entity_term_starts b ts) \<Longrightarrow>
     continues keyword b q = Some (advance q)"
  "\<not> heads keyword (kinds q) \<Longrightarrow> continues keyword b q = None"
  by (auto simp: continues_def kinds_def map_tl)

text \<open>The two levels of an entity expression, over operands that the lookahead recognizes.\<close>

lemma entity_list_reads:
  assumes "xs \<noteq> []" and "\<And>x. x \<in> set xs \<Longrightarrow> reads parser (tk x) x 0 ok" and "\<And>zs. ok (Tok_Identifier keyword # zs)"
    and "\<And>zs. ok' zs \<Longrightarrow> ok zs \<and> \<not> heads keyword zs"
    and "\<And>x ts zs. x \<in> set xs \<Longrightarrow> map tok_kind ts = tk x @ zs \<Longrightarrow> entity_term_starts b ts"
  shows "reads (parse_list (continues keyword b) (\<lambda>_. parser)) (separated (Tok_Identifier keyword) (map tk xs)) xs 0 ok'"
proof -
  have "reads (parse_list (continues keyword b) (\<lambda>_. parser)) (separated (Tok_Identifier keyword) (map tk xs)) xs
      (sum_list (map (\<lambda>_. 0) xs)) ok'"
    by (rule parse_list_reads [where ok' = ok])
      (use assms continues_kinds in \<open>auto simp del: current_keyword_heads\<close>)
  then show ?thesis by simp
qed

lemma entity_and_reads:
  assumes "xs \<noteq> []" and "\<And>x. x \<in> set xs \<Longrightarrow> reads (parse_entity_term E n b) (tk x) x 0 (\<lambda>_. True)"
    and "\<And>x ts zs. x \<in> set xs \<Longrightarrow> map tok_kind ts = tk x @ zs \<Longrightarrow> entity_term_starts b ts"
  shows "reads (parse_entity_and_expression E n b) (separated (Tok_Identifier ''AND'') (map tk xs)) (source_entity_and E xs) 0
    (\<lambda>zs. \<not> heads ''AND'' zs)"
proof (rule readsI)
  fix p zs assume p: "kinds p = separated (Tok_Identifier ''AND'') (map tk xs) @ zs" "\<not> heads ''AND'' zs"
    and few: "pr_existential p + 0 \<le> MAX_QUERY_EXISTENTIAL_PREDICATES"
  have "reads (parse_list (continues ''AND'' b) (\<lambda>_. parse_entity_term E n b)) (separated (Tok_Identifier ''AND'') (map tk xs)) xs 0
      (\<lambda>zs. \<not> heads ''AND'' zs)"
    by (rule entity_list_reads [where ok = "\<lambda>_. True"]) (use assms in blast)+
  then obtain q where "parse_list (continues ''AND'' b) (\<lambda>_. parse_entity_term E n b) p = Inr (xs, q)" "kinds q = zs"
      "pr_existential q = pr_existential p"
    using p few by (auto elim!: readsE)
  then show "\<exists>q. parse_entity_and_expression E n b p = Inr (source_entity_and E xs, q) \<and> kinds q = zs \<and> pr_existential q = pr_existential p + 0"
    by (simp add: parse_entity_and_expression.simps)
qed

lemma entity_or_reads:
  assumes "xs \<noteq> []" and "n \<le> MAX_QUERY_EXPRESSION_NESTING"
    and "\<And>x. x \<in> set xs \<Longrightarrow> reads (parse_entity_and_expression E n b) (tk x) x 0 (\<lambda>zs. \<not> heads ''AND'' zs)"
    and "\<And>x ts zs. x \<in> set xs \<Longrightarrow> map tok_kind ts = tk x @ zs \<Longrightarrow> entity_term_starts b ts"
  shows "reads (parse_entity_expression E n b) (separated (Tok_Identifier ''OR'') (map tk xs)) (source_entity_or E xs) 0
    (\<lambda>zs. \<not> heads ''AND'' zs \<and> \<not> heads ''OR'' zs)"
proof (rule readsI)
  fix p zs assume p: "kinds p = separated (Tok_Identifier ''OR'') (map tk xs) @ zs" "\<not> heads ''AND'' zs \<and> \<not> heads ''OR'' zs"
    and few: "pr_existential p + 0 \<le> MAX_QUERY_EXISTENTIAL_PREDICATES"
  have next_ok: "\<not> heads ''AND'' (Tok_Identifier ''OR'' # zs)" for zs by (simp add: keyword_eval)
  have "reads (parse_list (continues ''OR'' b) (\<lambda>_. parse_entity_and_expression E n b)) (separated (Tok_Identifier ''OR'') (map tk xs)) xs 0
      (\<lambda>zs. \<not> heads ''AND'' zs \<and> \<not> heads ''OR'' zs)"
    by (rule entity_list_reads [where ok = "\<lambda>zs. \<not> heads ''AND'' zs"]) (use assms next_ok in blast)+
  then obtain q where "parse_list (continues ''OR'' b) (\<lambda>_. parse_entity_and_expression E n b) p = Inr (xs, q)" "kinds q = zs"
      "pr_existential q = pr_existential p"
    using p few by (auto elim!: readsE)
  then show "\<exists>q. parse_entity_expression E n b p = Inr (source_entity_or E xs, q) \<and> kinds q = zs \<and> pr_existential q = pr_existential p + 0"
    using assms(2) by (simp add: parse_entity_expression.simps ensure_nesting_def)
qed

lemma entity_term_reads:
  assumes "is_name b" and "canonical_entity E e" and "entity_fits b (if is_entity_scalar e then n else n + 1) e"
    and "\<not> is_entity_scalar e \<Longrightarrow>
      reads (parse_entity_expression E (n + 1) b) (entity_tokens e) e 0 (\<lambda>zs. \<not> heads ''AND'' zs \<and> \<not> heads ''OR'' zs)"
  shows "reads (parse_entity_term E n b) (entity_operand e) e 0 (\<lambda>_. True)"
    and "reads (parse_entity_term E n b) (Tok_Identifier ''NOT'' # entity_operand e) (Entity_Not e) 0 (\<lambda>_. True)"
proof -
  have n: "n + 1 \<le> MAX_QUERY_EXPRESSION_NESTING" if "\<not> is_entity_scalar e"
    using assms(3) that by (cases e) simp_all
  have inner: "\<exists>q. (case consume_simple Tok_LeftParen p of
           Some p \<Rightarrow>
             sum_bind (ensure_nesting (n + 1) ''where'' p) (\<lambda>_.
             sum_bind (parse_entity_expression E (n + 1) b p) (\<lambda>(expression, p).
             sum_bind (expect_simple Tok_RightParen ''where'' p) (\<lambda>p. Inr (expression, p))))
         | None \<Rightarrow> sum_bind (parse_scalar_predicate ''where'' p) (\<lambda>(predicate, p). Inr (Entity_Scalar predicate, p))) = Inr (e, q) \<and>
      kinds q = zs \<and> pr_existential q = pr_existential p"
    if p: "kinds p = entity_operand e @ zs" and few: "pr_existential p \<le> MAX_QUERY_EXISTENTIAL_PREDICATES" for p zs
  proof (cases "is_entity_scalar e")
    case True
    then obtain x where x: "e = Entity_Scalar x" by (cases e) simp_all
    obtain q where "parse_scalar_predicate ''where'' p = Inr (x, q)" "kinds q = zs" "pr_existential q = pr_existential p"
      by (rule readsE [OF parse_scalar_predicate_reads, of x p zs "''where''"]) (use p few assms(2) x in \<open>simp_all add: enclosed_def\<close>)
    then show ?thesis using p by (simp add: x enclosed_def scalar_tokens_def field_tokens_def consume_simple_kinds)
  next
    case False
    obtain q where "parse_entity_expression E (n + 1) b (advance p) = Inr (e, q)" "kinds q = Tok_RightParen # zs"
        "pr_existential q = pr_existential p"
      by (rule readsE [OF assms(4) [OF False], of "advance p" "Tok_RightParen # zs"])
        (use p few False in \<open>simp_all add: enclosed_def\<close>)
    then show ?thesis using p n [OF False] False
      by (simp add: enclosed_def consume_simple_kinds ensure_nesting_def expect_simple_kinds)
  qed
  have head: "\<not> heads ''NOT'' (entity_operand e @ zs)" for zs
    using assms(3) name_words(1) [OF assms(1)]
    by (cases e) (simp_all add: enclosed_def scalar_tokens_def field_tokens_def)
  show "reads (parse_entity_term E n b) (entity_operand e) e 0 (\<lambda>_. True)"
  proof (rule readsI)
    fix p zs assume p: "kinds p = entity_operand e @ zs" and few: "pr_existential p + 0 \<le> MAX_QUERY_EXISTENTIAL_PREDICATES"
    have "consume_keyword ''NOT'' p = None" using head p by (simp add: consume_keyword_heads)
    then show "\<exists>q. parse_entity_term E n b p = Inr (e, q) \<and> kinds q = zs \<and> pr_existential q = pr_existential p + 0"
      using inner [OF p] few by (auto simp: parse_entity_term.simps)
  qed
  show "reads (parse_entity_term E n b) (Tok_Identifier ''NOT'' # entity_operand e) (Entity_Not e) 0 (\<lambda>_. True)"
  proof (rule readsI)
    fix p zs assume p: "kinds p = (Tok_Identifier ''NOT'' # entity_operand e) @ zs" and few: "pr_existential p + 0 \<le> MAX_QUERY_EXISTENTIAL_PREDICATES"
    have "consume_keyword ''NOT'' p = Some (advance p)" using p by (simp add: consume_keyword_heads)
    then show "\<exists>q. parse_entity_term E n b p = Inr (Entity_Not e, q) \<and> kinds q = zs \<and> pr_existential q = pr_existential p + 0"
      using inner [of "advance p" zs] p few by (auto simp: parse_entity_term.simps)
  qed
qed

lemma entity_reads:
  assumes "is_name b"
  shows "canonical_entity E e \<Longrightarrow> entity_fits b n e \<Longrightarrow>
    reads (parse_entity_expression E n b) (entity_tokens e) e 0 (\<lambda>zs. \<not> heads ''AND'' zs \<and> \<not> heads ''OR'' zs)"
proof (induction e arbitrary: n)
  have starts: "entity_term_starts b ts" if "map tok_kind ts = entity_tokens e @ zs \<or> map tok_kind ts = entity_operand e @ zs"
      "canonical_entity E e" "entity_fits b m e" for ts zs e m
    using entity_operand_starts [OF assms that(2,3)] that(1) by blast
  have single: "reads (parse_entity_expression E n b) (entity_tokens e) e 0 (\<lambda>zs. \<not> heads ''AND'' zs \<and> \<not> heads ''OR'' zs)"
    if "reads (parse_entity_and_expression E n b) (entity_tokens e) e 0 (\<lambda>zs. \<not> heads ''AND'' zs)"
      and e: "canonical_entity E e" "entity_fits b n e" for e n
  proof -
    have "n \<le> MAX_QUERY_EXPRESSION_NESTING" using e(2) by (cases e) simp_all
    from entity_or_reads [of "[e]" n E b entity_tokens, OF _ this] that starts [OF disjI1]
    show ?thesis by (simp add: source_entity_id)
  qed
  have both: "reads (parse_entity_expression E n b) (entity_tokens e) e 0 (\<lambda>zs. \<not> heads ''AND'' zs \<and> \<not> heads ''OR'' zs)"
    if "reads (parse_entity_term E n b) (entity_tokens e) e 0 (\<lambda>_. True)"
      and e: "canonical_entity E e" "entity_fits b n e" for e n
    by (rule single [OF _ e])
      (use entity_and_reads [of "[e]" E n b entity_tokens] that starts [OF disjI1] in \<open>simp add: source_entity_id\<close>)
  {
    case (Entity_Or es)
    have es: "es \<noteq> []" "n \<le> MAX_QUERY_EXPRESSION_NESTING" using Entity_Or.prems by (auto simp: canonical_terms_def)
    have operand: "reads (parse_entity_term E n b) (entity_operand e) e 0 (\<lambda>_. True)" if "e \<in> set es" for e
      by (rule entity_term_reads(1) [OF assms]) (use Entity_Or that in \<open>auto split: if_splits\<close>)
    have first: "entity_term_starts b ts" if "e \<in> set es" "map tok_kind ts = entity_operand e @ zs" for e ts zs
      using starts [OF disjI2 [OF that(2)]] Entity_Or.prems that(1) by auto
    have "reads (parse_entity_and_expression E n b) (entity_operand e) e 0 (\<lambda>zs. \<not> heads ''AND'' zs)" if "e \<in> set es" for e
      using entity_and_reads [of "[e]" E n b entity_operand] operand [OF that] first [OF that] that Entity_Or.prems
      by (simp add: source_entity_id)
    from entity_or_reads [of es n E b entity_operand, OF es this first]
    show ?case using source_entity_id(1) [OF Entity_Or.prems(1)] by (simp add: comp_def)
  next
    case (Entity_And es)
    have es: "es \<noteq> []" using Entity_And.prems by (auto simp: canonical_terms_def)
    have operand: "reads (parse_entity_term E n b) (entity_operand e) e 0 (\<lambda>_. True)" if "e \<in> set es" for e
      by (rule entity_term_reads(1) [OF assms]) (use Entity_And that in \<open>auto split: if_splits\<close>)
    have first: "entity_term_starts b ts" if "e \<in> set es" "map tok_kind ts = entity_operand e @ zs" for e ts zs
      using starts [OF disjI2 [OF that(2)]] Entity_And.prems that(1) by auto
    have "reads (parse_entity_and_expression E n b) (entity_tokens (Entity_And es)) (Entity_And es) 0 (\<lambda>zs. \<not> heads ''AND'' zs)"
      using entity_and_reads [of es E n b entity_operand, OF es operand first] source_entity_id(2) [OF Entity_And.prems(1)]
      by (simp add: comp_def)
    then show ?case using Entity_And.prems by (rule single)
  next
    case (Entity_Not e)
    then show ?case
      by (intro both) (simp_all, rule entity_term_reads(2) [OF assms], simp_all split: if_splits)
  next
    case (Entity_Scalar x)
    then show ?case
      using entity_term_reads(1) [OF assms, of E "Entity_Scalar x" n] by (intro both) (simp_all add: enclosed_def)
  }
qed

section \<open>Expressions\<close>

lemma source_expression_id:
  "canonical_expression E (Expr_Or es) \<Longrightarrow> source_expression_or E es = Expr_Or es"
  "canonical_expression E (Expr_And es) \<Longrightarrow> source_expression_and E es = Expr_And es"
  "canonical_expression E e \<Longrightarrow> source_expression_or E [e] = e"
  "canonical_expression E e \<Longrightarrow> source_expression_and E [e] = e"
proof -
  have or: "source_or_children e = [e]" if "\<not> is_or e" for e using that by (cases e) simp_all
  have "and": "source_and_children e = [e]" if "\<not> is_and e" for e using that by (cases e) simp_all
  show "canonical_expression E (Expr_Or es) \<Longrightarrow> source_expression_or E es = Expr_Or es"
    using concat_singles [of es source_or_children] or by (simp add: source_expression_or_def collapse_terms_id)
  show "canonical_expression E (Expr_And es) \<Longrightarrow> source_expression_and E es = Expr_And es"
    using concat_singles [of es source_and_children] "and" by (simp add: source_expression_and_def collapse_terms_id)
  show "canonical_expression E e \<Longrightarrow> source_expression_or E [e] = e"
    by (cases e) (simp_all add: source_expression_or_def collapse_terms_id, simp_all add: collapse_def)
  show "canonical_expression E e \<Longrightarrow> source_expression_and E [e] = e"
    by (cases e) (simp_all add: source_expression_and_def collapse_terms_id, simp_all add: collapse_def)
qed

abbreviation expression_end :: "TokenKind list \<Rightarrow> bool" where
  "expression_end zs \<equiv> \<not> heads ''AND'' zs \<and> \<not> heads ''OR'' zs"

abbreviation operand_tokens :: "Expression \<Rightarrow> TokenKind list" where
  "operand_tokens e \<equiv> enclosed (is_scalar e) (expression_tokens e)"

lemma parse_quantifier_reads:
  assumes "canonical_entity E (quant_expression q)" and "is_name (quant_binding q)"
    and fits: "entity_fits (quant_binding q) n (quant_expression q)"
  shows "reads (parse_quantifier E n) (quantifier_tokens q) q (some_quantifier q) expression_end"
proof (rule readsI)
  fix p zs assume p: "kinds p = quantifier_tokens q @ zs" and zs: "expression_end zs"
    and few: "pr_existential p + some_quantifier q \<le> MAX_QUERY_EXISTENTIAL_PREDICATES"
  have n: "n \<le> MAX_QUERY_EXPRESSION_NESTING" using fits by (cases "quant_expression q") simp_all
  define p1 where "p1 = (advance p)\<lparr>pr_existential := pr_existential p + some_quantifier q\<rparr>"
  have word: "quantifier_word p = Inr (quant_kind q = EveryEdge, p1)"
    using p few
    by (cases "quant_kind q")
      (simp_all add: quantifier_word_def quantifier_tokens_def consume_keyword_heads expect_keyword_heads keyword_eval p1_def
        some_quantifier_def Let_def)
  have p1: "kinds p1 = tl (quantifier_tokens q) @ zs" "pr_existential p1 = pr_existential p + some_quantifier q"
    using p by (simp_all add: p1_def kinds_def advance_def map_tl quantifier_tokens_def)
  have kind: "quantifier_kind (quant_kind q = EveryEdge) (advance (advance p1)) = Inr (quant_kind q, advance (advance (advance p1)))"
    using p1 by (cases "quant_kind q")
      (simp_all add: quantifier_kind_def quantifier_tokens_def consume_keyword_heads expect_keyword_heads keyword_eval)
  let ?p = "advance (advance (advance (advance (advance (advance (advance p1))))))"
  obtain r where "parse_entity_expression E n (quant_binding q) ?p = Inr (quant_expression q, r)" "kinds r = zs"
      "pr_existential r = pr_existential p + some_quantifier q"
    by (rule readsE [OF entity_reads [OF assms(2,1) fits], of ?p zs]) (use p1 few zs in \<open>simp_all add: quantifier_tokens_def\<close>)
  then show "\<exists>r. parse_quantifier E n p = Inr (q, r) \<and> kinds r = zs \<and> pr_existential r = pr_existential p + some_quantifier q"
    using n p1 by (simp add: parse_quantifier_def ensure_nesting_def word kind quantifier_tokens_def token_steps)
qed

lemma expression_list_reads:
  assumes "xs \<noteq> []" and "\<And>x. x \<in> set xs \<Longrightarrow> reads parser (tk x) x (n x) ok"
    and "length xs = 1 \<or> (\<forall>zs. ok (Tok_Identifier keyword # zs))"
    and "\<And>zs. ok' zs \<Longrightarrow> ok zs \<and> \<not> heads keyword zs"
  shows "reads (parse_list (consume_keyword keyword) (\<lambda>_. parser)) (separated (Tok_Identifier keyword) (map tk xs)) xs
    (sum_list (map n xs)) ok'"
  by (rule parse_list_reads [where ok' = ok])
    (use assms in \<open>auto simp: consume_keyword_heads length_Suc_conv\<close>)

lemma and_reads:
  assumes "xs \<noteq> []" and "\<And>x. x \<in> set xs \<Longrightarrow> reads (parse_not_expression E n) (tk x) x (some_count x) ok"
    and "length xs = 1 \<or> (\<forall>zs. ok (Tok_Identifier ''AND'' # zs))"
    and "\<And>zs. ok' zs \<Longrightarrow> ok zs \<and> \<not> heads ''AND'' zs"
  shows "reads (parse_and_expression E n) (separated (Tok_Identifier ''AND'') (map tk xs)) (source_expression_and E xs)
    (sum_list (map some_count xs)) ok'"
proof (rule readsI)
  fix p zs assume p: "kinds p = separated (Tok_Identifier ''AND'') (map tk xs) @ zs" "ok' zs"
      "pr_existential p + sum_list (map some_count xs) \<le> MAX_QUERY_EXISTENTIAL_PREDICATES"
  have "reads (parse_list (consume_keyword ''AND'') (\<lambda>_. parse_not_expression E n)) (separated (Tok_Identifier ''AND'') (map tk xs)) xs
    (sum_list (map some_count xs)) ok'"
    using assms by (rule expression_list_reads)
  then obtain q where "parse_list (consume_keyword ''AND'') (\<lambda>_. parse_not_expression E n) p = Inr (xs, q)" "kinds q = zs"
      "pr_existential q = pr_existential p + sum_list (map some_count xs)"
    using p by (auto elim!: readsE)
  then show "\<exists>q. parse_and_expression E n p = Inr (source_expression_and E xs, q) \<and> kinds q = zs \<and>
      pr_existential q = pr_existential p + sum_list (map some_count xs)"
    by (simp add: parse_and_expression.simps)
qed

lemma or_reads:
  assumes "n \<le> MAX_QUERY_EXPRESSION_NESTING"
    and "xs \<noteq> []" and "\<And>x. x \<in> set xs \<Longrightarrow> reads (parse_and_expression E n) (tk x) x (some_count x) ok"
    and "length xs = 1 \<or> (\<forall>zs. ok (Tok_Identifier ''OR'' # zs))"
    and "\<And>zs. expression_end zs \<Longrightarrow> ok zs"
  shows "reads (parse_expression E n) (separated (Tok_Identifier ''OR'') (map tk xs)) (source_expression_or E xs)
    (sum_list (map some_count xs)) expression_end"
proof (rule readsI)
  fix p zs assume p: "kinds p = separated (Tok_Identifier ''OR'') (map tk xs) @ zs" "expression_end zs"
      "pr_existential p + sum_list (map some_count xs) \<le> MAX_QUERY_EXISTENTIAL_PREDICATES"
  have "reads (parse_list (consume_keyword ''OR'') (\<lambda>_. parse_and_expression E n)) (separated (Tok_Identifier ''OR'') (map tk xs)) xs
    (sum_list (map some_count xs)) expression_end"
    by (rule expression_list_reads [OF assms(2-4)]) (simp_all add: assms(5))
  then obtain q where "parse_list (consume_keyword ''OR'') (\<lambda>_. parse_and_expression E n) p = Inr (xs, q)" "kinds q = zs"
      "pr_existential q = pr_existential p + sum_list (map some_count xs)"
    using p by (auto elim!: readsE)
  then show "\<exists>q. parse_expression E n p = Inr (source_expression_or E xs, q) \<and> kinds q = zs \<and>
      pr_existential q = pr_existential p + sum_list (map some_count xs)"
    using assms(1) by (simp add: parse_expression.simps ensure_nesting_def)
qed

text \<open>An operand: a bare scalar predicate, or anything in parentheses.\<close>

lemma expression_head:
  assumes "fits n e"
  shows "\<not> heads ''NOT'' (operand_tokens e @ zs)"
proof (cases e)
  case (Expr_Scalar p)
  then show ?thesis using assms name_words by (simp add: enclosed_def scalar_tokens_def field_tokens_def)
qed (simp_all add: enclosed_def)

lemma operand_reads:
  assumes e: "canonical_expression E e" "fits (if is_scalar e then n else n + 1) e"
    and inner: "\<not> is_scalar e \<Longrightarrow> reads (parse_expression E (n + 1)) (expression_tokens e) e (some_count e) expression_end"
    and n: "\<not> is_scalar e \<Longrightarrow> n + 1 \<le> MAX_QUERY_EXPRESSION_NESTING"
  shows "reads (parse_primary_expression E n) (operand_tokens e) e (some_count e) (\<lambda>_. True)"
proof (rule readsI)
  fix p zs assume p: "kinds p = operand_tokens e @ zs" and few: "pr_existential p + some_count e \<le> MAX_QUERY_EXISTENTIAL_PREDICATES"
  show "\<exists>q. parse_primary_expression E n p = Inr (e, q) \<and> kinds q = zs \<and> pr_existential q = pr_existential p + some_count e"
  proof (cases "is_scalar e")
    case True
    then obtain x where x: "e = Expr_Scalar x" by (cases e) simp_all
    obtain q where "parse_scalar_predicate ''where'' p = Inr (x, q)" "kinds q = zs" "pr_existential q = pr_existential p"
      by (rule readsE [OF parse_scalar_predicate_reads, of x p zs "''where''"]) (use p few e x in \<open>simp_all add: enclosed_def\<close>)
    then show ?thesis using p e name_words
      by (simp add: x parse_primary_expression.simps enclosed_def scalar_tokens_def field_tokens_def consume_simple_kinds)
  next
    case False
    obtain q where "parse_expression E (n + 1) (advance p) = Inr (e, q)" "kinds q = Tok_RightParen # zs"
        "pr_existential q = pr_existential p + some_count e"
      by (rule readsE [OF inner [OF False], of "advance p" "Tok_RightParen # zs"]) (use p few False in \<open>simp_all add: enclosed_def\<close>)
    then show ?thesis using p n [OF False] False
      by (simp add: parse_primary_expression.simps enclosed_def consume_simple_kinds ensure_nesting_def expect_simple_kinds)
  qed
qed

lemma not_reads:
  assumes "reads (parse_primary_expression E n) tokens e k ok" and "\<And>zs. \<not> heads ''NOT'' (tokens @ zs)"
  shows "reads (parse_not_expression E n) tokens e k ok"
    and "reads (parse_not_expression E n) (Tok_Identifier ''NOT'' # tokens) (Expr_Not e) k ok"
proof -
  show "reads (parse_not_expression E n) tokens e k ok"
  proof (rule readsI)
    fix p zs assume p: "kinds p = tokens @ zs" "ok zs" "pr_existential p + k \<le> MAX_QUERY_EXISTENTIAL_PREDICATES"
    obtain q where "parse_primary_expression E n p = Inr (e, q)" "kinds q = zs" "pr_existential q = pr_existential p + k"
      by (rule readsE [OF assms(1) p])
    moreover have "consume_keyword ''NOT'' p = None" using assms(2) p by (simp add: consume_keyword_heads)
    ultimately show "\<exists>q. parse_not_expression E n p = Inr (e, q) \<and> kinds q = zs \<and> pr_existential q = pr_existential p + k"
      by (simp add: parse_not_expression.simps)
  qed
  show "reads (parse_not_expression E n) (Tok_Identifier ''NOT'' # tokens) (Expr_Not e) k ok"
  proof (rule readsI)
    fix p zs assume p: "kinds p = (Tok_Identifier ''NOT'' # tokens) @ zs" "ok zs" "pr_existential p + k \<le> MAX_QUERY_EXISTENTIAL_PREDICATES"
    obtain q where "parse_primary_expression E n (advance p) = Inr (e, q)" "kinds q = zs" "pr_existential q = pr_existential p + k"
      by (rule readsE [OF assms(1), of "advance p" zs]) (use p in simp_all)
    moreover have "consume_keyword ''NOT'' p = Some (advance p)" using p by (simp add: consume_keyword_heads)
    ultimately show "\<exists>q. parse_not_expression E n p = Inr (Expr_Not e, q) \<and> kinds q = zs \<and> pr_existential q = pr_existential p + k"
      by (simp add: parse_not_expression.simps)
  qed
qed

lemma entity_fits_nesting: "entity_fits b n e \<Longrightarrow> n \<le> MAX_QUERY_EXPRESSION_NESTING"
  by (cases e) simp_all

lemma fits_nesting: "fits n e \<Longrightarrow> n \<le> MAX_QUERY_EXPRESSION_NESTING"
  by (cases e) (auto dest: entity_fits_nesting)

lemma expression_reads:
  "canonical_expression E e \<Longrightarrow> fits n e \<Longrightarrow> reads (parse_expression E n) (expression_tokens e) e (some_count e) expression_end"
proof (induction e arbitrary: n)
  have single: "reads (parse_expression E n) (expression_tokens e) e (some_count e) expression_end"
    if "reads (parse_and_expression E n) (expression_tokens e) e (some_count e) expression_end"
      and "canonical_expression E e" "fits n e" for e n
    using or_reads [of n "[e]" E expression_tokens expression_end] that fits_nesting by (simp add: source_expression_id)
  have both: "reads (parse_expression E n) (expression_tokens e) e (some_count e) expression_end"
    if "reads (parse_not_expression E n) (expression_tokens e) e (some_count e) expression_end"
      and e: "canonical_expression E e" "fits n e" for e n
    by (rule single [OF _ e])
      (use and_reads [of "[e]" E n expression_tokens expression_end expression_end] that in \<open>simp add: source_expression_id\<close>)
  have operand: "reads (parse_not_expression E n) (operand_tokens e) e (some_count e) (\<lambda>_. True)"
      "reads (parse_not_expression E n) (Tok_Identifier ''NOT'' # operand_tokens e) (Expr_Not e) (some_count e) (\<lambda>_. True)"
    if "canonical_expression E e" "fits (if is_scalar e then n else n + 1) e"
      and inner: "\<not> is_scalar e \<Longrightarrow> fits (n + 1) e \<Longrightarrow> reads (parse_expression E (n + 1)) (expression_tokens e) e (some_count e) expression_end"
    for e n
  proof -
    have "reads (parse_primary_expression E n) (operand_tokens e) e (some_count e) (\<lambda>_. True)"
      by (rule operand_reads [OF that(1,2)]) (use that fits_nesting [of "n + 1" e] in auto)
    from not_reads [OF this expression_head [OF that(2)]] show
      "reads (parse_not_expression E n) (operand_tokens e) e (some_count e) (\<lambda>_. True)"
      "reads (parse_not_expression E n) (Tok_Identifier ''NOT'' # operand_tokens e) (Expr_Not e) (some_count e) (\<lambda>_. True)" .
  qed
  {
    case (Expr_Or es)
    have es: "es \<noteq> []" "n \<le> MAX_QUERY_EXPRESSION_NESTING" using Expr_Or.prems by (auto simp: canonical_terms_def)
    have operands: "reads (parse_not_expression E n) (operand_tokens e) e (some_count e) (\<lambda>_. True)" if "e \<in> set es" for e
      by (rule operand(1)) (use Expr_Or that in auto)
    have next_ok: "\<not> heads ''AND'' (Tok_Identifier ''OR'' # zs)" for zs by (simp add: keyword_eval)
    have "reads (parse_and_expression E n) (operand_tokens e) e (some_count e) (\<lambda>zs. \<not> heads ''AND'' zs)" if "e \<in> set es" for e
      using and_reads [of "[e]" E n operand_tokens "\<lambda>_. True" "\<lambda>zs. \<not> heads ''AND'' zs"] operands [OF that] that Expr_Or.prems
      by (simp add: source_expression_id)
    from or_reads [OF es(2,1) this] next_ok
    show ?case using source_expression_id(1) [OF Expr_Or.prems(1)] by (simp add: comp_def)
  next
    case (Expr_And es)
    have es: "es \<noteq> []" using Expr_And.prems by (auto simp: canonical_terms_def)
    have operands: "reads (parse_not_expression E n) (operand_tokens e) e (some_count e) (\<lambda>_. True)" if "e \<in> set es" for e
      by (rule operand(1)) (use Expr_And that in auto)
    have "reads (parse_and_expression E n) (expression_tokens (Expr_And es)) (Expr_And es) (some_count (Expr_And es)) expression_end"
      using and_reads [of es E n operand_tokens "\<lambda>_. True" expression_end, OF es operands] source_expression_id(2) [OF Expr_And.prems(1)]
      by (simp add: comp_def)
    then show ?case using Expr_And.prems by (rule single)
  next
    case (Expr_Not e)
    have "reads (parse_not_expression E n) (expression_tokens (Expr_Not e)) (Expr_Not e) (some_count (Expr_Not e)) expression_end"
      using reads_weaken [OF operand(2) [of e n]] Expr_Not by auto
    then show ?case using Expr_Not.prems by (rule both)
  next
    case (Expr_Scalar x)
    have "reads (parse_not_expression E n) (expression_tokens (Expr_Scalar x)) (Expr_Scalar x) (some_count (Expr_Scalar x)) expression_end"
      using reads_weaken [OF operand(1) [of "Expr_Scalar x" n]] Expr_Scalar by (auto simp: enclosed_def)
    then show ?case using Expr_Scalar.prems by (rule both)
  next
    case (Expr_Quantifier q)
    have "reads (parse_primary_expression E n) (quantifier_tokens q) (Expr_Quantifier q) (some_quantifier q) expression_end"
    proof (rule readsI)
      fix p zs assume p: "kinds p = quantifier_tokens q @ zs" "expression_end zs"
        "pr_existential p + some_quantifier q \<le> MAX_QUERY_EXISTENTIAL_PREDICATES"
      obtain r where r: "parse_quantifier E (n + 1) p = Inr (q, r)" "kinds r = zs" "pr_existential r = pr_existential p + some_quantifier q"
        by (rule readsE [OF parse_quantifier_reads [of E q "n + 1"] p]) (use Expr_Quantifier.prems in simp_all)
      have "consume_simple Tok_LeftParen p = None" "heads ''EVERY'' (kinds p) \<or> heads ''SOME'' (kinds p)"
        using p(1) by (cases "quant_kind q"; simp add: quantifier_tokens_def consume_simple_kinds)+
      then show "\<exists>r. parse_primary_expression E n p = Inr (Expr_Quantifier q, r) \<and> kinds r = zs \<and>
          pr_existential r = pr_existential p + some_quantifier q"
        using r by (auto simp: parse_primary_expression.simps)
    qed
    moreover have "\<not> heads ''NOT'' (quantifier_tokens q @ zs)" for zs
      by (cases "quant_kind q") (simp_all add: quantifier_tokens_def keyword_eval)
    ultimately have "reads (parse_not_expression E n) (expression_tokens (Expr_Quantifier q)) (Expr_Quantifier q)
        (some_count (Expr_Quantifier q)) expression_end"
      using not_reads(1) by simp
    then show ?case using Expr_Quantifier.prems by (rule both)
  }
qed

section \<open>The clauses\<close>

lemma parse_node_reads: "reads (parse_node clause) (node_tokens x) x 0 (\<lambda>_. True)"
proof (rule readsI)
  fix p zs assume p: "kinds p = node_tokens x @ zs"
  then show "\<exists>q. parse_node clause p = Inr (x, q) \<and> kinds q = zs \<and> pr_existential q = pr_existential p + 0"
    by (cases "pattern_kind x") (simp_all add: parse_node_def node_tokens_def token_steps consume_simple_kinds)
qed

lemma strings_reads:
  assumes "ks \<noteq> []"
  shows "reads (parse_list (consume_simple Tok_Pipe) (\<lambda>_. expect_string clause)) (separated Tok_Pipe (map (\<lambda>k. [Tok_String k]) ks)) ks 0
    (\<lambda>zs. \<exists>ws. zs = Tok_Star # ws)"
proof -
  have item: "reads (expect_string clause) [Tok_String k] k 0 (\<lambda>_. True)" for k
    by (rule readsI) (simp add: expect_string_kinds)
  have "reads (parse_list (consume_simple Tok_Pipe) (\<lambda>_. expect_string clause)) (separated Tok_Pipe (map (\<lambda>k. [Tok_String k]) ks)) ks
      (sum_list (map (\<lambda>_. 0) ks)) (\<lambda>zs. \<exists>ws. zs = Tok_Star # ws)"
    by (rule parse_list_reads [where ok' = "\<lambda>_. True"]) (use assms item in \<open>auto simp: consume_simple_kinds\<close>)
  then show ?thesis by simp
qed

lemma parse_relationship_reads:
  assumes "bounded_relationship r"
  shows "reads parse_relationship (relationship_tokens r) r 0 (\<lambda>_. True)"
proof (rule readsI)
  fix p zs assume p: "kinds p = relationship_tokens r @ zs" and few: "pr_existential p + 0 \<le> MAX_QUERY_EXISTENTIAL_PREDICATES"
  have r: "rel_kinds r \<noteq> []" "strict_sorted (rel_kinds r)" "1 \<le> rel_min_depth r" "rel_min_depth r \<le> rel_max_depth r"
      "rel_max_depth r \<le> MAX_QUERY_DEPTH" using assms by (simp_all add: bounded_relationship_def limit_simps)
  then have kinds: "sort (rel_kinds r) = rel_kinds r" "\<not> has_adjacent_duplicate (rel_kinds r)"
    using adjacent_sort_strict [of "rel_kinds r"] by (simp_all add: strict_sorted_iff sorted_sort_id)
  have depth: "checked_depth d origin message = Inr d" if "1 \<le> d" "d \<le> MAX_QUERY_DEPTH" for d origin message
    using that by (simp add: checked_depth_def MAX_QUERY_DEPTH_def)
  let ?rest = "[Tok_Star, Tok_Unsigned (rel_min_depth r), Tok_Range, Tok_Unsigned (rel_max_depth r), Tok_RightBracket,
      if rel_direction r = Direction_Forward then Tok_ArrowRight else Tok_Dash] @ zs"
  obtain q where q: "parse_list (consume_simple Tok_Pipe) (\<lambda>_. expect_string ''match'') (advance (advance p)) = Inr (rel_kinds r, q)"
      "kinds q = ?rest" "pr_existential q = pr_existential p"
    by (rule readsE [OF strings_reads [OF r(1)], of "advance (advance p)" ?rest "''match''"])
      (use p few in \<open>simp_all add: relationship_tokens_def\<close>)
  have first: "(case consume_simple Tok_ArrowLeft p of
         Some p \<Rightarrow> Inr (Direction_Reverse, p)
       | None \<Rightarrow> sum_bind (expect_simple Tok_Dash ''match'' p) (\<lambda>p. Inr (Direction_Forward, p))) = Inr (rel_direction r, advance p)"
    using p by (cases "rel_direction r") (simp_all add: relationship_tokens_def consume_simple_kinds expect_simple_kinds)
  have bracket: "expect_simple Tok_LeftBracket ''match'' (advance p) = Inr (advance (advance p))"
    using p by (simp add: relationship_tokens_def expect_simple_kinds)
  show "\<exists>q. parse_relationship p = Inr (r, q) \<and> kinds q = zs \<and> pr_existential q = pr_existential p + 0"
    using q(2,3) kinds r depth [of "rel_min_depth r"] depth [of "rel_max_depth r"]
    unfolding parse_relationship_def first
    by (cases "rel_direction r") (simp_all add: bracket q(1) token_steps)
qed

lemma parse_match_reads:
  assumes "bounded_relationship (match_relationship m)"
  shows "reads parse_match ([Tok_Identifier ''MATCH'', Tok_Identifier (match_path_binding m), Tok_Equal] @
      node_tokens (match_source m) @ relationship_tokens (match_relationship m) @ node_tokens (match_target m)) m 0 (\<lambda>_. True)"
proof (rule readsI)
  fix p zs assume p: "kinds p = ([Tok_Identifier ''MATCH'', Tok_Identifier (match_path_binding m), Tok_Equal] @
      node_tokens (match_source m) @ relationship_tokens (match_relationship m) @ node_tokens (match_target m)) @ zs"
    and few: "pr_existential p + 0 \<le> MAX_QUERY_EXISTENTIAL_PREDICATES"
  let ?p = "advance (advance (advance p))"
  obtain p1 where p1: "parse_node ''match'' ?p = Inr (match_source m, p1)"
      "kinds p1 = relationship_tokens (match_relationship m) @ node_tokens (match_target m) @ zs" "pr_existential p1 = pr_existential p"
    by (rule readsE [OF parse_node_reads, of ?p "match_source m"]) (use p few in simp_all)
  obtain p2 where p2: "parse_relationship p1 = Inr (match_relationship m, p2)"
      "kinds p2 = node_tokens (match_target m) @ zs" "pr_existential p2 = pr_existential p"
    by (rule readsE [OF parse_relationship_reads [OF assms] p1(2)]) (use p1 few in simp_all)
  obtain p3 where p3: "parse_node ''match'' p2 = Inr (match_target m, p3)" "kinds p3 = zs" "pr_existential p3 = pr_existential p"
    by (rule readsE [OF parse_node_reads p2(2)]) (use p2 few in simp_all)
  show "\<exists>q. parse_match p = Inr (m, q) \<and> kinds q = zs \<and> pr_existential q = pr_existential p + 0"
    using p p3(2,3) by (simp add: parse_match_def token_steps p1(1) p2(1) p3(1))
qed

lemma parse_where_reads:
  assumes "case w of None \<Rightarrow> True | Some e \<Rightarrow> canonical_expression E e \<and> fits 0 e"
  shows "reads (parse_where E) (case w of None \<Rightarrow> [] | Some e \<Rightarrow> Tok_Identifier ''WHERE'' # expression_tokens e) w
    (case w of None \<Rightarrow> 0 | Some e \<Rightarrow> some_count e) (\<lambda>zs. \<exists>ws. zs = Tok_Identifier ''RETURN'' # ws)"
proof (cases w)
  case None
  then show ?thesis by (intro readsI) (auto simp: parse_where_def consume_keyword_heads keyword_eval)
next
  case (Some e)
  show ?thesis
  proof (rule readsI)
    fix p zs assume p: "kinds p = (case w of None \<Rightarrow> [] | Some e \<Rightarrow> Tok_Identifier ''WHERE'' # expression_tokens e) @ zs"
      and zs: "\<exists>ws. zs = Tok_Identifier ''RETURN'' # ws"
      and few: "pr_existential p + (case w of None \<Rightarrow> 0 | Some e \<Rightarrow> some_count e) \<le> MAX_QUERY_EXISTENTIAL_PREDICATES"
    obtain q where "parse_expression E 0 (advance p) = Inr (e, q)" "kinds q = zs" "pr_existential q = pr_existential p + some_count e"
      by (rule readsE [OF expression_reads, of E e 0 "advance p" zs]) (use p zs few assms Some in \<open>auto simp: keyword_eval\<close>)
    then show "\<exists>q. parse_where E p = Inr (w, q) \<and> kinds q = zs \<and>
        pr_existential q = pr_existential p + (case w of None \<Rightarrow> 0 | Some e \<Rightarrow> some_count e)"
      using p Some by (simp add: parse_where_def consume_keyword_heads)
  qed
qed

section \<open>Projections and order\<close>

abbreviation no_dot :: "TokenKind list \<Rightarrow> bool" where
  "no_dot zs \<equiv> (case zs of [] \<Rightarrow> True | k # _ \<Rightarrow> k \<noteq> Tok_Dot)"

lemma token_class_dot: "token_class k = ''dot'' \<longleftrightarrow> k = Tok_Dot"
  by (cases k) simp_all

lemma parse_projection_reads: "reads (parse_projection clause) (projection_tokens x) x 0 no_dot"
proof (rule readsI)
  fix p zs assume p: "kinds p = projection_tokens x @ zs" and zs: "no_dot zs"
  show "\<exists>q. parse_projection clause p = Inr (x, q) \<and> kinds q = zs \<and> pr_existential q = pr_existential p + 0"
  proof (cases x)
    case (Project_Binding b)
    then show ?thesis using p zs
      by (cases zs) (simp_all add: parse_projection_def token_steps consume_simple_kinds token_class_dot)
  next
    case (Project_Field f)
    then show ?thesis using p by (simp add: parse_projection_def field_tokens_def token_steps consume_simple_kinds)
  qed
qed

lemma parse_order_item_reads: "reads parse_order_item (order_item_tokens x) x 0 (\<lambda>_. True)"
proof (rule readsI)
  fix p zs assume p: "kinds p = order_item_tokens x @ zs" and few: "pr_existential p + 0 \<le> MAX_QUERY_EXISTENTIAL_PREDICATES"
  let ?rest = "Tok_Identifier (if order_direction x = Ascending then ''ASC'' else ''DESC'') # zs"
  obtain q where "parse_projection ''order_by'' p = Inr (order_projection x, q)" "kinds q = ?rest" "pr_existential q = pr_existential p"
    by (rule readsE [OF parse_projection_reads, of p "order_projection x" ?rest]) (use p few in \<open>simp_all add: order_item_tokens_def\<close>)
  then show "\<exists>q. parse_order_item p = Inr (x, q) \<and> kinds q = zs \<and> pr_existential q = pr_existential p + 0"
    by (cases "order_direction x") (simp_all add: parse_order_item_def consume_keyword_heads keyword_eval)
qed

text \<open>A comma-separated list of at most \<open>MAX_QUERY_PROJECTIONS\<close> items, before a keyword.\<close>

lemma limited_list_reads:
  assumes "xs \<noteq> []" "length xs \<le> MAX_QUERY_PROJECTIONS" and "\<And>x. reads item (tk x) x 0 no_dot"
  shows "reads (parse_list (consume_simple Tok_Comma) (\<lambda>items p. if MAX_QUERY_PROJECTIONS \<le> length items then Inl (failure p) else item p))
    (separated Tok_Comma (map tk xs)) xs 0 (\<lambda>zs. \<exists>v ws. zs = Tok_Identifier v # ws)"
proof -
  have "reads (parse_list (consume_simple Tok_Comma) (\<lambda>items p. if MAX_QUERY_PROJECTIONS \<le> length items then Inl (failure p) else item p))
    (separated Tok_Comma (map tk xs)) xs (sum_list (map (\<lambda>_. 0) xs)) (\<lambda>zs. \<exists>v ws. zs = Tok_Identifier v # ws)"
    by (rule parse_list_reads [where ok' = no_dot]) (use assms in \<open>auto simp: consume_simple_kinds\<close>)
  then show ?thesis by simp
qed

lemma projection_no_distinct:
  "is_name (projection_binding x) \<Longrightarrow> \<not> heads ''DISTINCT'' (projection_tokens x @ zs)"
  by (cases x) (simp_all add: field_tokens_def name_words)

lemma parse_return_reads:
  assumes "return_projections c \<noteq> []" "length (return_projections c) \<le> MAX_QUERY_PROJECTIONS"
    and "\<forall>x\<in>set (return_projections c). is_name (projection_binding x)"
  shows "reads parse_return (Tok_Identifier ''RETURN'' # (if return_distinct c then [Tok_Identifier ''DISTINCT''] else []) @
      separated Tok_Comma (map projection_tokens (return_projections c))) c 0 (\<lambda>zs. \<exists>v ws. zs = Tok_Identifier v # ws)"
proof (rule readsI)
  let ?list = "separated Tok_Comma (map projection_tokens (return_projections c))"
  fix p zs assume p: "kinds p = (Tok_Identifier ''RETURN'' # (if return_distinct c then [Tok_Identifier ''DISTINCT''] else []) @ ?list) @ zs"
    and zs: "\<exists>v ws. zs = Tok_Identifier v # ws" and few: "pr_existential p + 0 \<le> MAX_QUERY_EXISTENTIAL_PREDICATES"
  obtain ws where "?list = projection_tokens (hd (return_projections c)) @ ws"
    using separated_first [of "map projection_tokens (return_projections c)"] assms(1) by (auto simp: hd_map)
  then have no: "\<not> heads ''DISTINCT'' (?list @ zs)"
    using projection_no_distinct [of "hd (return_projections c)" "ws @ zs"] assms(1,3) by simp
  define p1 where "p1 = (if return_distinct c then advance (advance p) else advance p)"
  have p1: "kinds p1 = ?list @ zs" "pr_existential p1 = pr_existential p" using p by (simp_all add: p1_def)
  have word: "consume_keyword ''DISTINCT'' (advance p) = (if return_distinct c then Some p1 else None)"
    using p no by (simp add: consume_keyword_heads p1_def)
  obtain q where "parse_list (consume_simple Tok_Comma) (\<lambda>projections p.
         if length projections \<ge> MAX_QUERY_PROJECTIONS
         then Inl (parser_error ''query_projection_limit_exceeded'' Failure_Limit ''return''
           ''query exceeds the projection limit'' p)
         else parse_projection ''return'' p) p1 = Inr (return_projections c, q)" "kinds q = zs" "pr_existential q = pr_existential p"
    by (rule readsE [OF limited_list_reads [OF assms(1,2) parse_projection_reads] p1(1) zs]) (use p1 few in simp_all)
  then show "\<exists>q. parse_return p = Inr (c, q) \<and> kinds q = zs \<and> pr_existential q = pr_existential p + 0"
    using p word by (cases "return_distinct c") (simp_all add: parse_return_def expect_keyword_heads p1_def)
qed

lemma parse_order_reads:
  assumes "length items \<le> MAX_QUERY_PROJECTIONS"
  shows "reads parse_order (if items = [] then []
       else [Tok_Identifier ''ORDER'', Tok_Identifier ''BY''] @ separated Tok_Comma (map order_item_tokens items)) items 0
       (\<lambda>zs. \<exists>ws. zs = Tok_Identifier ''LIMIT'' # ws)"
proof (cases "items = []")
  case True
  then show ?thesis by (intro readsI) (auto simp: parse_order_def consume_keyword_heads keyword_eval)
next
  case False
  have item: "reads parse_order_item (order_item_tokens x) x 0 no_dot" for x
    by (rule reads_weaken [OF parse_order_item_reads]) simp
  show ?thesis
  proof (rule readsI)
    fix p zs assume p: "kinds p = (if items = [] then []
       else [Tok_Identifier ''ORDER'', Tok_Identifier ''BY''] @ separated Tok_Comma (map order_item_tokens items)) @ zs"
      and zs: "\<exists>ws. zs = Tok_Identifier ''LIMIT'' # ws" and few: "pr_existential p + 0 \<le> MAX_QUERY_EXISTENTIAL_PREDICATES"
    obtain q where "parse_list (consume_simple Tok_Comma) (\<lambda>items p.
            if length items \<ge> MAX_QUERY_PROJECTIONS
            then Inl (parser_error ''query_order_limit_exceeded'' Failure_Limit ''order_by''
              ''query exceeds the order item limit'' p)
            else parse_order_item p) (advance (advance p)) = Inr (items, q)" "kinds q = zs" "pr_existential q = pr_existential p"
      by (rule readsE [OF limited_list_reads [OF False assms item], of "advance (advance p)" zs]) (use p zs few False in auto)
    then show "\<exists>q. parse_order p = Inr (items, q) \<and> kinds q = zs \<and> pr_existential q = pr_existential p + 0"
      using p False by (simp add: parse_order_def consume_keyword_heads expect_keyword_heads)
  qed
qed

section \<open>The query\<close>

lemma parse_query_tokens:
  assumes limits: "within_limits E ast" and w: "writable ast" and tokens: "map tok_kind tokens = query_tokens ast @ [Tok_End]"
  shows "parse E (new_parser tokens) = Inr ast"
proof -
  let ?m = "ast_match_clause ast" and ?w = "ast_where_clause ast" and ?c = "ast_return_clause ast" and ?o = "ast_order_by ast"
  let ?limit = "[Tok_Identifier ''LIMIT'', Tok_Unsigned (ast_limit ast), Tok_End]"
  let ?order = "(if ?o = [] then []
       else [Tok_Identifier ''ORDER'', Tok_Identifier ''BY''] @ separated Tok_Comma (map order_item_tokens ?o)) @ ?limit"
  let ?return = "(Tok_Identifier ''RETURN'' # (if return_distinct ?c then [Tok_Identifier ''DISTINCT''] else []) @
      separated Tok_Comma (map projection_tokens (return_projections ?c))) @ ?order"
  let ?where = "(case ?w of None \<Rightarrow> [] | Some e \<Rightarrow> Tok_Identifier ''WHERE'' # expression_tokens e) @ ?return"
  define p where "p = new_parser tokens"
  have p: "kinds p = ([Tok_Identifier ''MATCH'', Tok_Identifier (match_path_binding ?m), Tok_Equal] @
      node_tokens (match_source ?m) @ relationship_tokens (match_relationship ?m) @ node_tokens (match_target ?m)) @ ?where"
    "pr_existential p = 0"
    using tokens by (simp_all add: p_def new_parser_def kinds_def query_tokens_def Let_def)
  note l = within_limitsD [OF limits] w [unfolded writable_def]
  obtain p1 where p1: "parse_match p = Inr (?m, p1)" "kinds p1 = ?where" "pr_existential p1 = 0"
    by (rule readsE [OF parse_match_reads p(1)]) (use l p in simp_all)
  obtain p2 where p2: "parse_where E p1 = Inr (?w, p2)" "kinds p2 = ?return"
      "pr_existential p2 = (case ?w of None \<Rightarrow> 0 | Some e \<Rightarrow> some_count e)"
    by (rule readsE [OF parse_where_reads p1(2)]) (use l p1(3) in \<open>auto split: option.splits\<close>)
  have few: "pr_existential p2 \<le> MAX_QUERY_EXISTENTIAL_PREDICATES" using l p2(3) by (auto split: option.splits)
  obtain p3 where p3: "parse_return p2 = Inr (?c, p3)" "kinds p3 = ?order" "pr_existential p3 = pr_existential p2"
    by (rule readsE [OF parse_return_reads p2(2)]) (use l few in auto)
  obtain p4 where p4: "parse_order p3 = Inr (?o, p4)" "kinds p4 = ?limit"
    by (rule readsE [OF parse_order_reads p3(2)]) (use l few p3 in auto)
  have limit: "parse_limit p4 = Inr (ast_limit ast, advance (advance p4))"
    using p4(2) l by (simp add: parse_limit_def token_steps MAX_QUERY_LIMIT_def)
  have finish: "consume_simple Tok_Semicolon (advance (advance p4)) = None" "tok_kind (current (advance (advance p4))) = Tok_End"
    using p4(2) by (simp_all add: consume_simple_kinds)
  have ast: "\<lparr>ast_contract_version = BOUNDED_QUERY_CONTRACT_VERSION, ast_match_clause = ?m,
           ast_where_clause = ?w, ast_return_clause = ?c, ast_order_by = ?o, ast_limit = ast_limit ast\<rparr> = ast"
    using l by simp
  show ?thesis
    using l unfolding p_def [symmetric] parse_def by (simp add: p1(1) p2(1) p3(1) p4(1) limit finish ast del: kinds_current)
qed

end
