(* ===== verification/Query_Text.thy ===== *)
theory Query_Text
  imports Query_Print
begin

text \<open>
  The text of a query: its tokens, each followed by a blank. The lexer reads the tokens back, so that the whole
  front end, from bytes to the syntax tree, inverts the printer. Names and string literals are ASCII.
\<close>

section \<open>The text of a token\<close>

fun token_text :: "TokenKind \<Rightarrow> string" where
  "token_text (Tok_Identifier v) = v"
| "token_text (Tok_String s) = CHR 0x22 # s @ [CHR 0x22]"
| "token_text (Tok_Unsigned n) = show_nat n"
| "token_text Tok_LeftParen = ''(''"
| "token_text Tok_RightParen = '')''"
| "token_text Tok_LeftBracket = ''[''"
| "token_text Tok_RightBracket = '']''"
| "token_text Tok_Comma = '',''"
| "token_text Tok_Colon = '':''"
| "token_text Tok_Dot = ''.''"
| "token_text Tok_Equal = ''=''"
| "token_text Tok_NotEqual = ''!=''"
| "token_text Tok_Less = ''<''"
| "token_text Tok_LessOrEqual = ''<=''"
| "token_text Tok_Greater = ''>''"
| "token_text Tok_GreaterOrEqual = ''>=''"
| "token_text Tok_Pipe = ''|''"
| "token_text Tok_Star = ''*''"
| "token_text Tok_Range = ''..''"
| "token_text Tok_Dash = ''-''"
| "token_text Tok_ArrowRight = ''->''"
| "token_text Tok_ArrowLeft = ''<-''"
| "token_text Tok_Semicolon = '';''"
| "token_text Tok_End = ''''"

definition tokens_text :: "TokenKind list \<Rightarrow> string" where
  "tokens_text ks = concat (map (\<lambda>k. token_text k @ '' '') ks)"

definition query_text :: "QueryAst \<Rightarrow> string" where
  "query_text ast = tokens_text (query_tokens ast)"

text \<open>Printable ASCII without quotes and backslashes, which JSON strings hold as they are.\<close>

definition plain :: "string \<Rightarrow> bool" where
  "plain s \<longleftrightarrow> list_all (\<lambda>c. byte_in 32 126 c \<and> c \<noteq> CHR 0x22 \<and> c \<noteq> CHR 0x5C) s"

definition unquotes_plain :: "unquoter \<Rightarrow> bool" where
  "unquotes_plain unquote \<longleftrightarrow> (\<forall>s. plain s \<longrightarrow> unquote (CHR 0x22 # s @ [CHR 0x22]) = Some s)"

definition is_identifier :: "string \<Rightarrow> bool" where
  "is_identifier v \<longleftrightarrow> v \<noteq> [] \<and> \<not> is_ascii_digit (hd v) \<and> list_all is_identifier_byte v \<and> length v \<le> 64"

fun lexable :: "TokenKind \<Rightarrow> bool" where
  "lexable (Tok_Identifier v) \<longleftrightarrow> is_identifier v"
| "lexable (Tok_String s) \<longleftrightarrow> plain s \<and> \<not> looks_like_query_credential s"
| "lexable (Tok_Unsigned n) \<longleftrightarrow> n \<le> u64_max"
| "lexable Tok_End \<longleftrightarrow> False"
| "lexable _ \<longleftrightarrow> True"

section \<open>Lexing one token\<close>

lemma show_nat_digits: "list_all is_ascii_digit (show_nat n)"
proof -
  have "is_ascii_digit (digit_char d)" if "d < 10" for d
    using that by (simp add: digit_char_def is_ascii_digit_def)
  then show ?thesis using set_show_nat [of n] by (auto simp: list_all_iff)
qed

lemma show_nat_zero: "starts_with (show_nat n) ''0'' \<longleftrightarrow> n = 0"
proof -
  have first: "starts_with s [c] \<longleftrightarrow> s \<noteq> [] \<and> hd s = c" for s c by (cases s) auto
  have "hd (show_nat n) = CHR ''0'' \<longleftrightarrow> n = 0"
  proof (induction n rule: show_nat.induct)
    case (1 n)
    show ?case
    proof (cases "n < 10")
      case True
      then have "of_char (digit_char n) = 48 + n" by (simp add: digit_char_def)
      moreover have "digit_char n = CHR ''0'' \<longleftrightarrow> of_char (digit_char n) = (of_char (CHR ''0'') :: nat)"
        by (simp only: of_char_eq_iff)
      ultimately have "digit_char n = CHR ''0'' \<longleftrightarrow> n = 0" by simp
      then show ?thesis using True by (simp add: show_nat.simps [of n])
    next
      case False
      then have "hd (show_nat n) = hd (show_nat (n div 10))" by (simp add: show_nat.simps [of n])
      then show ?thesis using "1" False by simp
    qed
  qed
  then show ?thesis by (simp add: first)
qed

lemma takeWhile_stop: "list_all P xs \<Longrightarrow> \<not> P y \<Longrightarrow> takeWhile P (xs @ y # ys) = xs"
  by (induction xs) simp_all

text \<open>What a step that pushes one token does.\<close>

definition pushes :: "(QueryDiagnostic + Lexer) \<Rightarrow> TokenKind \<Rightarrow> Lexer \<Rightarrow> string \<Rightarrow> bool" where
  "pushes r k lx rest \<longleftrightarrow> (\<exists>lx'. r = Inr lx' \<and> lx_rest lx' = rest \<and>
     map tok_kind (lx_tokens lx') = map tok_kind (lx_tokens lx) @ [k])"

lemma push_token_pushes:
  assumes "length (lx_tokens lx) < MAX_QUERY_TOKENS" and "lx_tokens lx' = lx_tokens lx" and "lx_rest lx' = rest"
  shows "pushes (push_token k origin lx') k lx rest"
  using assms by (simp add: pushes_def push_token_def)

lemma advance_ascii_simps [simp]:
  "lx_tokens (advance_ascii n lx) = lx_tokens lx" "lx_rest (advance_ascii n lx) = drop n (lx_rest lx)"
  by (simp_all add: advance_ascii_def)

lemma lex_identifier_pushes:
  assumes "is_identifier v" and "lx_rest lx = v @ CHR 0x20 # s" and "length (lx_tokens lx) < MAX_QUERY_TOKENS"
  shows "pushes (lex_identifier lx) (Tok_Identifier v) lx (CHR 0x20 # s)"
proof -
  have "takeWhile is_identifier_byte (lx_rest lx) = v"
    unfolding assms(2) by (rule takeWhile_stop) (use assms(1) in \<open>simp_all add: is_identifier_def is_identifier_byte_def ascii_defs\<close>)
  then show ?thesis using assms by (simp add: lex_identifier_def is_identifier_def push_token_pushes)
qed

lemma lex_unsigned_pushes:
  assumes "n \<le> u64_max" and "lx_rest lx = show_nat n @ CHR 0x20 # s" and "length (lx_tokens lx) < MAX_QUERY_TOKENS"
  shows "pushes (lex_unsigned lx) (Tok_Unsigned n) lx (CHR 0x20 # s)"
proof -
  have "takeWhile is_ascii_digit (lx_rest lx) = show_nat n"
    unfolding assms(2) by (rule takeWhile_stop) (simp_all add: show_nat_digits ascii_defs)
  moreover have canonical: "\<not> (length (show_nat n) > 1 \<and> starts_with (show_nat n) ''0'')"
    unfolding show_nat_zero by (cases "n = 0") (simp_all add: show_nat.simps [of 0])
  ultimately show ?thesis using assms by (simp add: lex_unsigned_def if_not_P [OF canonical] push_token_pushes del: One_nat_def)
qed

lemma lex_string_body_plain:
  assumes "plain s" and "lx_rest lx = s @ CHR 0x22 # rest"
  shows "lex_string_body unquote origin raw False lx =
    finish_string unquote origin (raw @ s @ [CHR 0x22]) (advance_ascii (length s + 1) lx)"
  using assms
proof (induction s arbitrary: raw lx)
  case Nil
  then show ?case by (simp add: lex_string_body.simps)
next
  case (Cons c s)
  then have c: "c \<noteq> CHR 0x22" "c \<noteq> CHR 0x5C" "\<not> byte_in 0 31 c" "byte_in 0 127 c"
    by (simp_all add: plain_def byte_in_def Let_def)
  have "lex_string_body unquote origin raw False lx = lex_string_body unquote origin (raw @ [c]) False (advance_ascii 1 lx)"
    using Cons.prems(2) c by (simp add: lex_string_body.simps [of unquote origin raw] Let_def)
  also have "\<dots> = finish_string unquote origin ((raw @ [c]) @ s @ [CHR 0x22]) (advance_ascii (length s + 1) (advance_ascii 1 lx))"
    by (rule Cons.IH) (use Cons.prems in \<open>simp_all add: plain_def\<close>)
  also have "advance_ascii (length s + 1) (advance_ascii 1 lx) = advance_ascii (length (c # s) + 1) lx"
    by (simp add: advance_ascii_def)
  finally show ?case by simp
qed

lemma lex_string_pushes:
  assumes "unquotes_plain unquote" and "plain s" "\<not> looks_like_query_credential s"
    and "lx_rest lx = CHR 0x22 # s @ CHR 0x22 # rest" and "length (lx_tokens lx) < MAX_QUERY_TOKENS"
  shows "pushes (lex_string unquote lx) (Tok_String s) lx rest"
proof -
  have "lex_string unquote lx =
      finish_string unquote (lexer_origin lx) (CHR 0x22 # s @ [CHR 0x22]) (advance_ascii (length s + 1) (advance_ascii 1 lx))"
    unfolding lex_string_def using lex_string_body_plain [OF assms(2), of "advance_ascii 1 lx" rest] assms(4) by simp
  moreover have "unquote (CHR 0x22 # s @ [CHR 0x22]) = Some s" using assms(1,2) by (simp add: unquotes_plain_def)
  ultimately show ?thesis using assms(3-5) by (simp add: finish_string_def push_token_pushes)
qed

definition first_step :: "unquoter \<Rightarrow> Lexer \<Rightarrow> QueryDiagnostic + Lexer" where
  "first_step unquote lx = (case lx_rest lx of c # cs \<Rightarrow> lex_step unquote c (if cs = [] then None else Some (hd cs)) lx)"

lemma lex_fixed_pushes:
  assumes "lx_rest lx = text @ rest" and "length (lx_tokens lx) < MAX_QUERY_TOKENS" and "n = length text"
  shows "pushes (lex_fixed n k lx) k lx rest"
  using assms by (simp add: lex_fixed_def push_token_pushes)

lemma token_step:
  assumes "unquotes_plain unquote" and "lexable k" and rest: "lx_rest lx = token_text k @ CHR 0x20 # s"
    and few: "length (lx_tokens lx) < MAX_QUERY_TOKENS"
  shows "pushes (first_step unquote lx) k lx (CHR 0x20 # s)"
proof (cases k)
  case (Tok_Identifier v)
  then obtain c cs where v: "v = c # cs" "is_ascii_alphabetic c \<or> c = CHR ''_''" "is_identifier v"
    using assms(2) by (cases v) (auto simp: is_identifier_def is_identifier_byte_def is_ascii_alphanumeric_def)
  then have "first_step unquote lx = lex_identifier lx"
    using rest Tok_Identifier by (auto simp: first_step_def lex_step_def ascii_defs)
  then show ?thesis using lex_identifier_pushes [OF v(3) _ few] rest Tok_Identifier by simp
next
  case (Tok_String t)
  then have "first_step unquote lx = lex_string unquote lx"
    using rest by (simp add: first_step_def lex_step_def ascii_defs)
  then show ?thesis using lex_string_pushes [OF assms(1) _ _ _ few] assms(2) rest Tok_String by simp
next
  case (Tok_Unsigned n)
  obtain c cs where v: "show_nat n = c # cs" "is_ascii_digit c" using show_nat_digits [of n] by (cases "show_nat n") auto
  then have "first_step unquote lx = lex_unsigned lx"
    using rest Tok_Unsigned by (auto simp: first_step_def lex_step_def ascii_defs Let_def)
  then show ?thesis using lex_unsigned_pushes [OF _ _ few] assms(2) rest Tok_Unsigned by simp
qed (use assms(2) rest few lex_fixed_pushes [OF rest few] in
    \<open>simp_all add: first_step_def lex_step_def ascii_defs fixed_token_def numeral_2_eq_2\<close>)

section \<open>Lexing a text\<close>

lemma lex_loop_first:
  "lx_rest lx \<noteq> [] \<Longrightarrow> lex_loop unquote lx = sum_bind (first_step unquote lx) (lex_loop unquote)"
  by (cases "lx_rest lx") (simp_all add: lex_loop.simps [of unquote lx] first_step_def)

lemma lex_loop_tokens:
  assumes "unquotes_plain unquote"
  shows "list_all lexable ks \<Longrightarrow> lx_rest lx = tokens_text ks \<Longrightarrow> length (lx_tokens lx) + length ks \<le> MAX_QUERY_TOKENS \<Longrightarrow>
    \<exists>tokens. lex_loop unquote lx = Inr tokens \<and> map tok_kind tokens = map tok_kind (lx_tokens lx) @ ks @ [Tok_End]"
proof (induction ks arbitrary: lx)
  case Nil
  then show ?case by (simp add: lex_loop.simps [of unquote lx] tokens_text_def)
next
  case (Cons k ks)
  have rest: "lx_rest lx = token_text k @ CHR 0x20 # tokens_text ks" using Cons.prems(2) by (simp add: tokens_text_def)
  obtain lx1 where lx1: "first_step unquote lx = Inr lx1" "lx_rest lx1 = CHR 0x20 # tokens_text ks"
      "map tok_kind (lx_tokens lx1) = map tok_kind (lx_tokens lx) @ [k]"
    using token_step [OF assms _ rest] Cons.prems(1,3) by (auto simp: pushes_def)
  have len: "length (lx_tokens lx1) = length (lx_tokens lx) + 1" using arg_cong [OF lx1(3), of length] by simp
  have lx2: "first_step unquote lx1 = Inr (advance_ascii 1 lx1)" using lx1(2) by (simp add: first_step_def lex_step_def)
  have "\<exists>tokens. lex_loop unquote (advance_ascii 1 lx1) = Inr tokens \<and>
      map tok_kind tokens = map tok_kind (lx_tokens (advance_ascii 1 lx1)) @ ks @ [Tok_End]"
    by (rule Cons.IH) (use Cons.prems lx1 len in simp_all)
  moreover have "lex_loop unquote lx = lex_loop unquote (advance_ascii 1 lx1)"
    using lex_loop_first [of lx] lex_loop_first [of lx1] rest lx1(1,2) lx2 by simp
  ultimately show ?case using lx1(3) by simp
qed

lemma lex_tokens:
  assumes "unquotes_plain unquote" and "list_all lexable ks" and "length ks \<le> MAX_QUERY_TOKENS"
  obtains tokens where "lex unquote (tokens_text ks) = Inr tokens" and "map tok_kind tokens = ks @ [Tok_End]"
  using lex_loop_tokens [OF assms(1,2), of "new_lexer (tokens_text ks)"] assms(3) by (auto simp: lex_def new_lexer_def)

lemma ascii_valid_utf8: "list_all (byte_in 0 127) s \<Longrightarrow> valid_utf8 s"
  by (induction s) simp_all

lemma byte_ascii:
  "is_ascii_digit c \<Longrightarrow> byte_in 0 127 c" "is_identifier_byte c \<Longrightarrow> byte_in 0 127 c" "byte_in 32 126 c \<Longrightarrow> byte_in 0 127 c"
  by (auto simp: is_identifier_byte_def ascii_defs byte_in_def Let_def)

lemma token_text_ascii:
  assumes "lexable k"
  shows "list_all (byte_in 0 127) (token_text k)"
proof (cases k)
  case (Tok_Identifier v)
  then show ?thesis using assms by (auto simp: is_identifier_def list_all_iff byte_ascii)
next
  case (Tok_String s)
  then have "list_all (byte_in 0 127) s" using assms by (auto simp: plain_def list_all_iff byte_ascii)
  moreover have "byte_in 0 127 (CHR 0x22)" by (simp add: byte_in_def)
  ultimately show ?thesis using Tok_String by simp
next
  case (Tok_Unsigned n)
  then show ?thesis using list.pred_mono_strong [OF show_nat_digits] byte_ascii(1) by simp
qed (simp_all add: byte_in_def)

lemma tokens_text_valid: "list_all lexable ks \<Longrightarrow> valid_utf8 (tokens_text ks)"
  by (rule ascii_valid_utf8)
    (induction ks, simp_all add: tokens_text_def token_text_ascii list_all_append, simp_all add: byte_in_def)

end
