(* ===== verification/Query_Pipeline.thy ===== *)
theory Query_Pipeline
  imports Query_Text
begin

text \<open>
  The query engine as a whole: parse, check types, plan, execute. The answers are stated on the syntax tree that the
  text stands for and on the snapshot, without the typed tree, the plan or the executor.
\<close>

section \<open>Answers of a syntax tree\<close>

definition source_match ::
  "externals \<Rightarrow> decoder \<Rightarrow> QueryAst \<Rightarrow> GraphSnapshot \<Rightarrow> NodeRecord \<Rightarrow> NodeRecord \<Rightarrow> EdgeRecord list \<Rightarrow> bool" where
  "source_match E decode ast S source target es \<longleftrightarrow>
     (let m = ast_match_clause ast; rel = match_relationship m in
      source \<in> set (snap_nodes S) \<and> target \<in> set (snap_nodes S) \<and>
      kind_allows (pattern_kind (match_source m)) source \<and> kind_allows (pattern_kind (match_target m)) target \<and>
      trail rel S (node_id source) es (node_id target) \<and> rel_min_depth rel \<le> length es \<and> length es \<le> rel_max_depth rel \<and>
      (case ast_where_clause ast of
         None \<Rightarrow> True
       | Some e \<Rightarrow> source_holds E decode (pattern_binding (match_source m)) (pattern_binding (match_target m))
           (trail_facts rel S source target es) e))"

definition source_answer ::
  "externals \<Rightarrow> decoder \<Rightarrow> QueryAst \<Rightarrow> GraphSnapshot \<Rightarrow> NodeRecord \<Rightarrow> NodeRecord \<Rightarrow> EdgeRecord list \<Rightarrow> bool" where
  "source_answer E decode ast S source target es \<longleftrightarrow> source_match E decode ast S source target es \<and>
     (\<forall>es'. source_match E decode ast S source target es' \<longrightarrow>
        (length es, map edge_id es) \<le> (length es', map edge_id es'))"

section \<open>Type checking keeps the number of existential quantifiers\<close>

lemma length_collect_children:
  "sum_list (map (\<lambda>t. length (collect_some_predicates t)) (or_children t)) = length (collect_some_predicates t)"
  "sum_list (map (\<lambda>t. length (collect_some_predicates t)) (and_children t)) = length (collect_some_predicates t)"
  by (cases t; simp add: length_concat comp_def)+

lemma length_collect_collapse:
  "length (collect_some_predicates (collapse TExpr_Or ts)) = sum_list (map (\<lambda>t. length (collect_some_predicates t)) ts)"
  "length (collect_some_predicates (collapse TExpr_And ts)) = sum_list (map (\<lambda>t. length (collect_some_predicates t)) ts)"
  by (auto simp: collapse_def length_concat comp_def split: list.split)

lemma length_collect_canonical:
  "length (collect_some_predicates (canonical_expression_or E ts)) = sum_list (map (\<lambda>t. length (collect_some_predicates t)) ts)"
  "length (collect_some_predicates (canonical_expression_and E ts)) = sum_list (map (\<lambda>t. length (collect_some_predicates t)) ts)"
  unfolding canonical_expression_or_def canonical_expression_and_def length_collect_collapse sum_canonical_sort sum_concat_map
    length_collect_children by (simp_all add: comp_def)

lemma check_some_count:
  "check_expression E tops e quantified = Inr (x, q) \<Longrightarrow> length (collect_some_predicates x) = some_count e"
  "check_terms E tops es quantified = Inr (xs, q) \<Longrightarrow>
     map (\<lambda>t. length (collect_some_predicates t)) xs = map some_count es"
proof (induction E tops e quantified and E tops es quantified arbitrary: x q and xs q
    rule: check_expression_check_terms.induct)
  case (1 E tops es quantified)
  then obtain xs where "x = canonical_expression_or E xs" "map (\<lambda>t. length (collect_some_predicates t)) xs = map some_count es"
    by (auto simp: sum_bind_Inr_iff)
  then show ?case by (simp only: length_collect_canonical some_count.simps)
next
  case (2 E tops es quantified)
  then obtain xs where "x = canonical_expression_and E xs" "map (\<lambda>t. length (collect_some_predicates t)) xs = map some_count es"
    by (auto simp: sum_bind_Inr_iff)
  then show ?case by (simp only: length_collect_canonical some_count.simps)
next
  case (5 E tops p quantified)
  then obtain y where y: "x = TExpr_Quantifier y" "check_quantifier E tops quantified p = Inr (y, q)"
    by (auto simp: sum_bind_Inr_iff)
  then have "bind_entity_type (tq_binding y) = quantified_type (quant_kind p)"
    by (auto simp: check_quantifier_def sum_bind_Inr_iff Let_def split: if_splits)
  then show ?case by (cases "quant_kind p") (simp_all add: y some_quantifier_def)
qed (auto simp: sum_bind_Inr_iff)

section \<open>The typed query has the answers of its syntax tree\<close>

lemma type_check_fields:
  assumes "type_check_bounded_query E ast = Inr q"
  obtains tops where "check_match_clause (ast_match_clause ast) = Inr (ta_match_clause (tq_ast q))"
    and "check_where E tops (ast_where_clause ast) = Inr (ta_where_clause (tq_ast q))"
  using assms unfolding type_check_bounded_query_def check_query_def
  by (auto simp: sum_bind_Inr_iff split: if_splits)

lemma typed_match:
  assumes check: "type_check_bounded_query E ast = Inr q" and sorted: "sorted (rel_kinds (match_relationship (ast_match_clause ast)))"
  shows "query_match E decode q S source target es \<longleftrightarrow> source_match E decode ast S source target es"
proof -
  obtain tops where m: "check_match_clause (ast_match_clause ast) = Inr (ta_match_clause (tq_ast q))"
    and w: "check_where E tops (ast_where_clause ast) = Inr (ta_where_clause (tq_ast q))"
    using type_check_fields [OF check] .
  have rel: "tm_relationship (ta_match_clause (tq_ast q)) = match_relationship (ast_match_clause ast)"
    using m sorted by (auto simp: check_match_clause_def Let_def sorted_sort_id dest!: sym [of _ "ta_match_clause (tq_ast q)"] split: if_splits)
  have ends: "tm_source (ta_match_clause (tq_ast q)) = typed_node_pattern (match_source (ast_match_clause ast))"
      "tm_target (ta_match_clause (tq_ast q)) = typed_node_pattern (match_target (ast_match_clause ast))"
    using m by (auto simp: check_match_clause_def Let_def dest!: sym [of _ "ta_match_clause (tq_ast q)"] split: if_splits)
  have names: "source_name q = pattern_binding (match_source (ast_match_clause ast))"
      "target_name q = pattern_binding (match_target (ast_match_clause ast))"
    by (simp_all add: source_name_def target_name_def ends typed_node_pattern_def)
  have "satisfies E decode q S source target es \<longleftrightarrow> (case ast_where_clause ast of
         None \<Rightarrow> True
       | Some e \<Rightarrow> source_holds E decode (source_name q) (target_name q)
           (trail_facts (match_relationship (ast_match_clause ast)) S source target es) e)"
  proof (cases "ast_where_clause ast")
    case None
    then show ?thesis using w by (simp add: satisfies_def check_where_def)
  next
    case (Some e)
    then obtain t qs where t: "check_expression E tops e [] = Inr (t, qs)" "ta_where_clause (tq_ast q) = Some t"
      using w by (auto simp: check_where_def sum_bind_Inr_iff)
    show ?thesis unfolding satisfies_def t(2) Some option.case rel by (rule check_expression_meaning(1) [OF t(1)])
  qed
  from this [unfolded names] show ?thesis by (simp add: query_match_def source_match_def Let_def rel ends typed_node_pattern_def)
qed

lemma typed_answer:
  assumes "type_check_bounded_query E ast = Inr q" and "sorted (rel_kinds (match_relationship (ast_match_clause ast)))"
  shows "query_answer E decode q S source target es \<longleftrightarrow> source_answer E decode ast S source target es"
  by (simp add: query_answer_def source_answer_def typed_match [OF assms])

lemma typed_few_predicates:
  assumes "type_check_bounded_query E ast = Inr q"
    and "case ast_where_clause ast of None \<Rightarrow> True | Some e \<Rightarrow> some_count e \<le> MAX_QUERY_EXISTENTIAL_PREDICATES"
  shows "length (case ta_where_clause (tq_ast q) of None \<Rightarrow> [] | Some e \<Rightarrow> collect_some_predicates e) \<le> 64"
proof -
  obtain tops where w: "check_where E tops (ast_where_clause ast) = Inr (ta_where_clause (tq_ast q))"
    using type_check_fields [OF assms(1)] .
  show ?thesis
  proof (cases "ast_where_clause ast")
    case None
    then show ?thesis using w by (simp add: check_where_def)
  next
    case (Some e)
    then obtain t qs where t: "check_expression E tops e [] = Inr (t, qs)" "ta_where_clause (tq_ast q) = Some t"
      using w by (auto simp: check_where_def sum_bind_Inr_iff)
    show ?thesis using check_some_count(1) [OF t(1)] assms(2) Some t(2) by (simp add: MAX_QUERY_EXISTENTIAL_PREDICATES_def)
  qed
qed

end
