(* ===== verification/Query_Staging.thy ===== *)
theory Query_Staging
  imports Query_Pipeline
begin

text \<open>
  The row stager keeps the best rows. Whatever order the executor finds the rows in, the staged rows are the first
  \<open>LIMIT\<close> rows of all (distinct) rows in the stable sort by the \<open>ORDER BY\<close> items, with ties broken by the canonical text.
\<close>

section \<open>Preorders given by a comparison\<close>

definition total_preorder :: "('a \<Rightarrow> 'a \<Rightarrow> ordering) \<Rightarrow> 'a set \<Rightarrow> bool" where
  "total_preorder cmp A \<longleftrightarrow> (\<forall>x\<in>A. \<forall>y\<in>A. cmp y x = reverse_ordering (cmp x y)) \<and>
     (\<forall>x\<in>A. \<forall>y\<in>A. \<forall>z\<in>A. cmp x y \<noteq> Order_Greater \<longrightarrow> cmp y z \<noteq> Order_Greater \<longrightarrow> cmp x z \<noteq> Order_Greater)"

lemma total_preorderD:
  assumes "total_preorder cmp A" and "x \<in> A" "y \<in> A"
  shows "cmp y x = reverse_ordering (cmp x y)"
    and "z \<in> A \<Longrightarrow> cmp x y \<noteq> Order_Greater \<Longrightarrow> cmp y z \<noteq> Order_Greater \<Longrightarrow> cmp x z \<noteq> Order_Greater"
  using assms unfolding total_preorder_def by blast+

lemma reverse_ordering_simps [simp]:
  "reverse_ordering c = Order_Greater \<longleftrightarrow> c = Order_Less" "reverse_ordering c = Order_Less \<longleftrightarrow> c = Order_Greater"
  "reverse_ordering c = Order_Equal \<longleftrightarrow> c = Order_Equal" "reverse_ordering (reverse_ordering c) = c"
  by (cases c; simp)+

lemma total_preorder_flip:
  assumes "total_preorder cmp A" "x \<in> A" "y \<in> A"
  shows "cmp y x = Order_Greater \<longleftrightarrow> cmp x y = Order_Less" "cmp y x = Order_Equal \<longleftrightarrow> cmp x y = Order_Equal"
  using total_preorderD(1) [OF assms] by simp_all

lemma total_preorder_subset: "total_preorder cmp A \<Longrightarrow> B \<subseteq> A \<Longrightarrow> total_preorder cmp B"
  unfolding total_preorder_def by blast

lemma total_preorder_cong:
  "(\<And>x y. x \<in> A \<Longrightarrow> y \<in> A \<Longrightarrow> cmp x y = cmp' x y) \<Longrightarrow> total_preorder cmp A \<longleftrightarrow> total_preorder cmp' A"
  unfolding total_preorder_def by simp

lemma total_preorder_compare: "total_preorder (\<lambda>x y. compare (f x) (f y)) A"
  by (auto simp: total_preorder_def compare_def)

lemma total_preorder_image: "total_preorder cmp (f ` A) \<Longrightarrow> total_preorder (\<lambda>x y. cmp (f x) (f y)) A"
  unfolding total_preorder_def by blast

lemma total_preorder_reverse:
  assumes "total_preorder cmp A" shows "total_preorder (\<lambda>x y. reverse_ordering (cmp x y)) A"
  unfolding total_preorder_def
proof (intro conjI ballI impI)
  fix x y assume A: "x \<in> A" "y \<in> A"
  show "reverse_ordering (cmp y x) = reverse_ordering (reverse_ordering (cmp x y))"
    unfolding total_preorderD(1) [OF assms A] ..
next
  fix x y z assume A: "x \<in> A" "y \<in> A" "z \<in> A"
    and "reverse_ordering (cmp x y) \<noteq> Order_Greater" "reverse_ordering (cmp y z) \<noteq> Order_Greater"
  then have "cmp y x \<noteq> Order_Greater" "cmp z y \<noteq> Order_Greater"
    using total_preorder_flip(1) [OF assms A(1,2)] total_preorder_flip(1) [OF assms A(2,3)] by simp_all
  then have "cmp z x \<noteq> Order_Greater" using total_preorderD(2) [OF assms A(3,2,1)] by simp
  then show "reverse_ordering (cmp x z) \<noteq> Order_Greater" using total_preorder_flip(1) [OF assms A(1,3)] by simp
qed

definition then_by :: "('a \<Rightarrow> 'a \<Rightarrow> ordering) \<Rightarrow> ('a \<Rightarrow> 'a \<Rightarrow> ordering) \<Rightarrow> 'a \<Rightarrow> 'a \<Rightarrow> ordering" where
  "then_by c d x y = (case c x y of Order_Equal \<Rightarrow> d x y | other \<Rightarrow> other)"

lemma then_by_Greater: "then_by c d x y = Order_Greater \<longleftrightarrow> c x y = Order_Greater \<or> (c x y = Order_Equal \<and> d x y = Order_Greater)"
  by (cases "c x y") (simp_all add: then_by_def)

lemma then_by_reverse:
  assumes "c y x = reverse_ordering (c x y)" "d y x = reverse_ordering (d x y)"
  shows "then_by c d y x = reverse_ordering (then_by c d x y)"
  using assms by (cases "c x y") (simp_all add: then_by_def)

lemma total_preorder_then_by:
  assumes c: "total_preorder c A" and d: "total_preorder d A"
  shows "total_preorder (then_by c d) A"
  unfolding total_preorder_def
proof (intro conjI ballI impI)
  fix x y assume A: "x \<in> A" "y \<in> A"
  show "then_by c d y x = reverse_ordering (then_by c d x y)"
    by (rule then_by_reverse [of c y x d, OF total_preorderD(1) [OF c A] total_preorderD(1) [OF d A]])
next
  fix x y z assume A: "x \<in> A" "y \<in> A" "z \<in> A" and xy: "then_by c d x y \<noteq> Order_Greater" and yz: "then_by c d y z \<noteq> Order_Greater"
  have c1: "c x y \<noteq> Order_Greater" "c y z \<noteq> Order_Greater" using xy yz unfolding then_by_Greater by simp_all
  then have xz: "c x z \<noteq> Order_Greater" by (rule total_preorderD(2) [OF c A])
  have "d x z \<noteq> Order_Greater" if eq: "c x z = Order_Equal"
  proof -
    have zx: "c z x \<noteq> Order_Greater" using total_preorderD(1) [OF c A(1,3)] eq by simp
    have "c z y \<noteq> Order_Greater" "c y x \<noteq> Order_Greater"
      by (rule total_preorderD(2) [OF c A(3,1,2) zx c1(1)]) (rule total_preorderD(2) [OF c A(2,3,1) c1(2) zx])
    then have "c x y = Order_Equal" "c y z = Order_Equal"
      using c1 total_preorder_flip(1) [OF c A(1,2)] total_preorder_flip(1) [OF c A(2,3)]
      by (cases "c x y", simp_all) (cases "c y z", simp_all)
    then have "d x y \<noteq> Order_Greater" "d y z \<noteq> Order_Greater" using xy yz unfolding then_by_Greater by simp_all
    then show ?thesis by (rule total_preorderD(2) [OF d A])
  qed
  with xz show "then_by c d x z \<noteq> Order_Greater" unfolding then_by_Greater by blast
qed

section \<open>Stable sorting\<close>

fun insert_after :: "('a \<Rightarrow> 'a \<Rightarrow> ordering) \<Rightarrow> 'a \<Rightarrow> 'a list \<Rightarrow> 'a list" where
  "insert_after cmp x [] = [x]"
| "insert_after cmp x (y # ys) = (if cmp x y = Order_Less then x # y # ys else y # insert_after cmp x ys)"

definition sorted_by :: "('a \<Rightarrow> 'a \<Rightarrow> ordering) \<Rightarrow> 'a list \<Rightarrow> bool" where
  "sorted_by cmp = sorted_wrt (\<lambda>x y. cmp x y \<noteq> Order_Greater)"

lemma set_insert_by [simp]: "set (insert_by cmp x ys) = insert x (set ys)"
  by (induction ys) auto

lemma sort_by_simps [simp]: "sort_by cmp [] = []" "sort_by cmp (x # xs) = insert_by cmp x (sort_by cmp xs)"
  by (simp_all add: sort_by_def)

lemma set_sort_by [simp]: "set (sort_by cmp xs) = set xs"
  by (induction xs) simp_all

lemma set_insert_after [simp]: "set (insert_after cmp x ys) = insert x (set ys)"
  by (induction ys) auto

lemma length_insert_after [simp]: "length (insert_after cmp x ys) = Suc (length ys)"
  by (induction ys) auto

lemma insert_by_sorted:
  assumes "total_preorder cmp A" and "x \<in> A" "set ys \<subseteq> A" and "sorted_by cmp ys"
  shows "sorted_by cmp (insert_by cmp x ys)"
  using assms(3,4)
proof (induction ys)
  case (Cons y ys)
  show ?case
  proof (cases "cmp x y = Order_Greater")
    case True
    then have "cmp y x \<noteq> Order_Greater" using total_preorder_flip(1) [OF assms(1,2), of y] Cons.prems(1) by simp
    then show ?thesis using Cons True by (auto simp: sorted_by_def)
  next
    case False
    then have "cmp x z \<noteq> Order_Greater" if "z \<in> set ys" for z
      using total_preorderD(2) [OF assms(1,2), of y z] Cons.prems that by (auto simp: sorted_by_def)
    then show ?thesis using Cons.prems False by (auto simp: sorted_by_def)
  qed
qed (simp add: sorted_by_def)

lemma sort_by_sorted:
  assumes "total_preorder cmp A" "set xs \<subseteq> A" shows "sorted_by cmp (sort_by cmp xs)"
  using assms(2)
proof (induction xs)
  case (Cons x xs)
  then show ?case using insert_by_sorted [OF assms(1), of x "sort_by cmp xs"] by simp
qed (simp add: sorted_by_def)

lemma sort_by_id: "sorted_by cmp xs \<Longrightarrow> sort_by cmp xs = xs"
proof (induction xs)
  case (Cons x xs)
  then show ?case by (cases xs) (simp_all add: sorted_by_def)
qed simp

lemma insert_by_after:
  assumes "total_preorder cmp A" and "a \<in> A" "x \<in> A" "set zs \<subseteq> A"
  shows "insert_by cmp a (insert_after cmp x zs) = insert_after cmp x (insert_by cmp a zs)"
  using assms(4)
proof (induction zs)
  case Nil
  then show ?case using total_preorder_flip(1) [OF assms(1,3,2)] by simp
next
  case (Cons y ys)
  have y: "y \<in> A" using Cons.prems by simp
  note flip = total_preorder_flip(1) [OF assms(1)]
  show ?case
  proof (cases "cmp x y = Order_Less")
    case xy: True
    show ?thesis
    proof (cases "cmp a y = Order_Greater")
      case True
      have "cmp a x = Order_Greater"
        using total_preorderD(2) [OF assms(1,2,3) y] xy True by auto
      then show ?thesis using xy True by simp
    next
      case False
      then show ?thesis using xy flip [OF assms(3,2)] by auto
    qed
  next
    case xy: False
    show ?thesis
    proof (cases "cmp a y = Order_Greater")
      case True
      then show ?thesis using xy Cons by simp
    next
      case False
      have "cmp x a \<noteq> Order_Less"
      proof
        assume "cmp x a = Order_Less"
        then have "cmp x y \<noteq> Order_Greater" "cmp a x \<noteq> Order_Less"
          using total_preorderD(2) [OF assms(1,3,2) y] False flip [OF assms(3,2)] by auto
        then have "cmp y x \<noteq> Order_Greater" "cmp x y \<noteq> Order_Greater"
          using xy flip [OF assms(3) y] by auto
        then show False
          using \<open>cmp x a = Order_Less\<close> total_preorderD(2) [OF assms(1,2) y, of x] assms(3) False flip [OF assms(3,2)] by simp
      qed
      then show ?thesis using xy False by simp
    qed
  qed
qed

lemma sort_by_snoc:
  assumes "total_preorder cmp A" and "x \<in> A" "set xs \<subseteq> A"
  shows "sort_by cmp (xs @ [x]) = insert_after cmp x (sort_by cmp xs)"
  using assms(3)
proof (induction xs)
  case (Cons a xs)
  then show ?case using insert_by_after [OF assms(1) _ assms(2), of a "sort_by cmp xs"] by simp
qed simp

lemma take_insert_after: "take k (insert_after cmp x (take k zs)) = take k (insert_after cmp x zs)"
proof (induction zs arbitrary: k)
  case (Cons z zs)
  then show ?case by (cases k) (simp_all add: take_Cons')
qed simp

lemma take_sort_by_snoc:
  assumes "total_preorder cmp A" and "x \<in> A" "set xs \<subseteq> A"
  shows "take k (sort_by cmp (take k (sort_by cmp xs) @ [x])) = take k (sort_by cmp (xs @ [x]))"
proof -
  have sorted: "sorted_by cmp (take k (sort_by cmp xs))" and sub: "set (take k (sort_by cmp xs)) \<subseteq> A"
    using sort_by_sorted [OF assms(1,3)] assms(3) set_take_subset [of k "sort_by cmp xs"]
    by (auto simp: sorted_by_def sorted_wrt_take)
  have "sort_by cmp (take k (sort_by cmp xs) @ [x]) = insert_after cmp x (take k (sort_by cmp xs))"
    using sort_by_snoc [OF assms(1,2) sub] unfolding sort_by_id [OF sorted] .
  then show ?thesis using sort_by_snoc [OF assms] take_insert_after by simp
qed

lemma insert_after_last:
  "(\<And>t. t \<in> set ts \<Longrightarrow> cmp x t \<noteq> Order_Less) \<Longrightarrow> insert_after cmp x ts = ts @ [x]"
  by (induction ts) simp_all

section \<open>Staging\<close>

definition same_row :: "json list \<Rightarrow> json list \<Rightarrow> bool" where
  "same_row = list_all2 json_same"

text \<open>The first of the rows that are the same.\<close>

definition distinct_rows :: "json list list \<Rightarrow> json list list" where
  "distinct_rows rows = fold (\<lambda>row kept. if list_ex (\<lambda>k. same_row k row) kept then kept else kept @ [row]) rows []"

lemma distinct_rows_snoc:
  "distinct_rows (rows @ [row]) =
     (if list_ex (\<lambda>k. same_row k row) (distinct_rows rows) then distinct_rows rows else distinct_rows rows @ [row])"
  by (simp add: distinct_rows_def)

lemma set_distinct_rows: "set (distinct_rows rows) \<subseteq> set rows"
  by (induction rows rule: rev_induct) (auto simp: distinct_rows_snoc distinct_rows_def)

lemma stage_row_fields [simp]:
  "rs_projections (stage_row E row s) = rs_projections s" "rs_order_by (stage_row E row s) = rs_order_by s"
  "rs_distinct (stage_row E row s) = rs_distinct s" "rs_limit (stage_row E row s) = rs_limit s"
  by (simp_all add: stage_row_def)

lemma fold_stage_fields [simp]:
  "rs_projections (fold (stage_row E) rows s) = rs_projections s" "rs_order_by (fold (stage_row E) rows s) = rs_order_by s"
  "rs_distinct (fold (stage_row E) rows s) = rs_distinct s" "rs_limit (fold (stage_row E) rows s) = rs_limit s"
  by (induction rows arbitrary: s) simp_all

lemma stage_rows:
  assumes order: "total_preorder (row_order E (rs_projections s) (rs_order_by s)) A"
    and same: "\<And>x y. x \<in> A \<Longrightarrow> y \<in> A \<Longrightarrow> same_row x y \<Longrightarrow> row_order E (rs_projections s) (rs_order_by s) x y = Order_Equal"
    and "set rows \<subseteq> A" and "rs_rows s = []"
  shows "rs_rows (fold (stage_row E) rows s) =
    take (rs_limit s) (sort_by (row_order E (rs_projections s) (rs_order_by s)) (if rs_distinct s then distinct_rows rows else rows))"
  using assms(3)
proof (induction rows rule: rev_induct)
  case Nil
  then show ?case using assms(4) by (simp add: distinct_rows_def)
next
  case (snoc row rows)
  let ?cmp = "row_order E (rs_projections s) (rs_order_by s)" and ?k = "rs_limit s"
  let ?kept = "if rs_distinct s then distinct_rows rows else rows"
  let ?s = "fold (stage_row E) rows s"
  have A: "row \<in> A" "set ?kept \<subseteq> A" using snoc.prems set_distinct_rows [of rows] by auto
  have IH: "rs_rows ?s = take ?k (sort_by ?cmp ?kept)" using snoc by simp
  let ?old = "list_ex (\<lambda>k. same_row k row) (rs_rows ?s)"
  have step: "rs_rows (fold (stage_row E) (rows @ [row]) s) =
      (if rs_distinct s \<and> ?old then rs_rows ?s else take ?k (sort_by ?cmp (rs_rows ?s @ [row])))"
    by (simp add: stage_row_def same_row_def)
  have fresh: "take ?k (sort_by ?cmp (rs_rows ?s @ [row])) = take ?k (sort_by ?cmp (?kept @ [row]))"
    unfolding IH by (rule take_sort_by_snoc [OF order A])
  show ?case
  proof (cases "rs_distinct s \<and> list_ex (\<lambda>k. same_row k row) (distinct_rows rows)")
    case False
    moreover have "\<not> (rs_distinct s \<and> ?old)"
      using False IH set_take_subset [of ?k "sort_by ?cmp ?kept"] by (auto simp: list_ex_iff)
    ultimately show ?thesis using step fresh by (auto simp: distinct_rows_snoc)
  next
    case known: True
    then have kept: "?kept = distinct_rows rows" by simp
    have goal: "(if rs_distinct s then distinct_rows (rows @ [row]) else rows @ [row]) = ?kept"
      using known by (simp add: distinct_rows_snoc)
    show ?thesis
    proof (cases ?old)
      case True
      then show ?thesis using step known IH goal by simp
    next
      case False
      obtain u where u: "u \<in> set ?kept" "same_row u row" using known by (auto simp: list_ex_iff)
      let ?S = "sort_by ?cmp ?kept"
      have "u \<notin> set (take ?k ?S)" using False u(2) IH by (auto simp: list_ex_iff)
      moreover have "u \<in> set (take ?k ?S @ drop ?k ?S)" unfolding append_take_drop_id set_sort_by by (rule u(1))
      ultimately have later: "u \<in> set (drop ?k ?S)" unfolding set_append by blast
      then have "drop ?k ?S \<noteq> []" by (metis empty_iff empty_set)
      then have full: "length (take ?k ?S) = ?k" by simp
      have "sorted_by ?cmp (take ?k ?S @ drop ?k ?S)" using sort_by_sorted [OF order A(2)] by simp
      then have before: "?cmp t u \<noteq> Order_Greater" if "t \<in> set (take ?k ?S)" for t
        using that later unfolding sorted_by_def sorted_wrt_append by blast
      have uA: "u \<in> A" using u(1) A(2) by blast
      have "?cmp row t \<noteq> Order_Less" if "t \<in> set (take ?k ?S)" for t
      proof -
        have tA: "t \<in> A" using that A(2) set_take_subset [of ?k ?S] by auto
        have "?cmp u row \<noteq> Order_Greater" using same [OF uA A(1) u(2)] by simp
        then have "?cmp t row \<noteq> Order_Greater" using total_preorderD(2) [OF order tA uA A(1) before [OF that]] by blast
        then show ?thesis using total_preorder_flip(1) [OF order A(1) tA] by simp
      qed
      then have "insert_after ?cmp row (take ?k ?S) = take ?k ?S @ [row]" by (rule insert_after_last)
      then have "take ?k (sort_by ?cmp (take ?k ?S @ [row])) = take ?k ?S"
        using fresh sort_by_snoc [OF order A] take_insert_after [of ?k ?cmp row ?S] full unfolding IH by simp
      then show ?thesis using step False IH goal known by simp
    qed
  qed
qed

section \<open>Projected rows are comparable\<close>

text \<open>The values of a column are of one kind, or null.\<close>

definition column_kind :: "json set \<Rightarrow> bool" where
  "column_kind V \<longleftrightarrow> (\<forall>v\<in>V. v = Null \<or> (\<exists>s. v = String s)) \<or> (\<forall>v\<in>V. v = Null \<or> (\<exists>n. v = Number n)) \<or>
     (\<forall>v\<in>V. v = Null \<or> (\<exists>b. v = Bool b)) \<or> (\<forall>v\<in>V. v = Null \<or> (\<exists>ms. v = Object ms))"

fun string_key :: "json \<Rightarrow> string" where "string_key (String s) = s" | "string_key _ = []"

fun bool_key :: "json \<Rightarrow> bool" where "bool_key (Bool b) = b" | "bool_key _ = False"

lemma compare_values_preorder:
  assumes "column_kind V"
  shows "total_preorder (compare_values E) {v \<in> V. v \<noteq> Null}"
proof -
  let ?V = "{v \<in> V. v \<noteq> Null}"
  have by_key: "total_preorder (compare_values E) ?V"
    if "\<And>x y. x \<in> ?V \<Longrightarrow> y \<in> ?V \<Longrightarrow> compare_values E x y = compare (f x) (f y)" for f :: "json \<Rightarrow> 'k::linorder"
    using total_preorder_cong [of ?V "compare_values E" "\<lambda>x y. compare (f x) (f y)"] that total_preorder_compare by blast
  consider (s) "\<forall>v\<in>?V. \<exists>s. v = String s" | (n) "\<forall>v\<in>?V. \<exists>n. v = Number n" | (b) "\<forall>v\<in>?V. \<exists>b. v = Bool b"
    | (o) "\<forall>v\<in>?V. \<exists>ms. v = Object ms"
    using assms unfolding column_kind_def by blast
  then show ?thesis
  proof cases
    case s
    have "compare_values E x y = compare (string_key x) (string_key y)" if "x \<in> ?V" "y \<in> ?V" for x y
      using bspec [OF s that(1)] bspec [OF s that(2)] by (auto simp: compare_values_def)
    then show ?thesis by (rule by_key)
  next
    case n
    have "compare_values E x y = compare (as_u64 x) (as_u64 y)" if "x \<in> ?V" "y \<in> ?V" for x y
      using bspec [OF n that(1)] bspec [OF n that(2)] by (auto simp: compare_values_def)
    then show ?thesis by (rule by_key)
  next
    case b
    have "compare_values E x y = compare (bool_key x) (bool_key y)" if "x \<in> ?V" "y \<in> ?V" for x y
      using bspec [OF b that(1)] bspec [OF b that(2)] by (auto simp: compare_values_def)
    then show ?thesis by (rule by_key)
  next
    case o
    have "compare_values E x y = compare (canonical_json E x) (canonical_json E y)" if "x \<in> ?V" "y \<in> ?V" for x y
      using bspec [OF o that(1)] bspec [OF o that(2)] by (auto simp: compare_values_def)
    then show ?thesis by (rule by_key)
  qed
qed

lemma nulls_first_preorder:
  assumes c: "total_preorder c {v \<in> V. v \<noteq> Null}" and null: "c Null Null = Order_Equal"
  shows "total_preorder (\<lambda>l r. if l = Null \<and> r \<noteq> Null then Order_Less else if l \<noteq> Null \<and> r = Null then Order_Greater else c l r) V"
    (is "total_preorder ?c V")
  unfolding total_preorder_def
proof (intro conjI ballI impI)
  fix x y assume A: "x \<in> V" "y \<in> V"
  show "?c y x = reverse_ordering (?c x y)"
  proof (cases "x = Null \<or> y = Null")
    case True
    then show ?thesis using null by auto
  next
    case False
    then show ?thesis using total_preorderD(1) [OF c, of x y] A by simp
  qed
next
  fix x y z assume A: "x \<in> V" "y \<in> V" "z \<in> V" and xy: "?c x y \<noteq> Order_Greater" and yz: "?c y z \<noteq> Order_Greater"
  show "?c x z \<noteq> Order_Greater"
  proof (cases "x = Null \<or> y = Null \<or> z = Null")
    case True
    then show ?thesis using xy yz null by (auto split: if_splits)
  next
    case False
    then show ?thesis using total_preorderD(2) [OF c, of x y z] A xy yz by simp
  qed
qed

lemma ordered_value_preorder:
  assumes "column_kind V"
  shows "total_preorder (\<lambda>l r. ordered_value E l r direction) V"
proof -
  have null: "compare_values E Null Null = Order_Equal" by (simp add: compare_values_def compare_def)
  show ?thesis
  proof (cases direction)
    case Ascending
    then show ?thesis using nulls_first_preorder [OF compare_values_preorder [OF assms], of E] null
      by (simp add: ordered_value_def cong: if_cong)
  next
    case Descending
    then show ?thesis using nulls_first_preorder [OF total_preorder_reverse [OF compare_values_preorder [OF assms]], of E] null
      by (simp add: ordered_value_def cong: if_cong)
  qed
qed

definition comparable_rows :: "nat \<Rightarrow> json list set \<Rightarrow> bool" where
  "comparable_rows n A \<longleftrightarrow> (\<forall>i<n. column_kind ((\<lambda>row. row ! i) ` A))"

lemma position_Some: "position P xs = Some i \<Longrightarrow> i < length xs"
  by (induction xs arbitrary: i) (auto split: if_splits)

lemma row_order_Cons:
  "row_order E projections (item # items) = (case position (\<lambda>projection. projection = to_projection item) projections of
     None \<Rightarrow> row_order E projections items
   | Some i \<Rightarrow> then_by (\<lambda>l r. ordered_value E (l ! i) (r ! i) (to_direction item)) (row_order E projections items))"
  by (intro ext) (simp add: then_by_def split: option.split ordering.split)

lemma row_order_preorder:
  assumes "comparable_rows (length projections) A"
  shows "total_preorder (row_order E projections items) A"
proof (induction items)
  case Nil
  have "row_order E projections [] = (\<lambda>l r. compare (canonical_json E (Array l)) (canonical_json E (Array r)))"
    by (intro ext) (simp add: canonical_row_order_def)
  then show ?case using total_preorder_compare by simp
next
  case (Cons item items)
  show ?case
  proof (cases "position (\<lambda>projection. projection = to_projection item) projections")
    case None
    then show ?thesis using Cons by (simp add: row_order_Cons)
  next
    case (Some i)
    have "column_kind ((\<lambda>row. row ! i) ` A)" using assms position_Some [OF Some] by (simp add: comparable_rows_def)
    then have "total_preorder (\<lambda>l r. ordered_value E (l ! i) (r ! i) (to_direction item)) A"
      using total_preorder_image [OF ordered_value_preorder] by blast
    then show ?thesis using total_preorder_then_by Cons Some by (simp add: row_order_Cons)
  qed
qed

text \<open>Rows that are the same compare as equal.\<close>

lemma canonical_json_same: "wf_json a \<Longrightarrow> wf_json b \<Longrightarrow> json_same a b \<Longrightarrow> canonical_json E a = canonical_json E b"
  using json_eq_iff_same [of a b] by (simp add: json_eq_def canonical_json_def)

lemma json_same_null: "json_same a b \<Longrightarrow> a = Null \<longleftrightarrow> b = Null"
  by (cases a; cases b) auto

lemma ordered_value_same:
  assumes "wf_json a" "wf_json b" "json_same a b"
  shows "ordered_value E a b direction = Order_Equal"
proof -
  have "compare_values E a b = Order_Equal"
    using assms canonical_json_same [OF assms, of E] by (cases a; cases b) (auto simp: compare_values_def compare_def)
  then show ?thesis using json_same_null [OF assms(3)] by (cases direction) (auto simp: ordered_value_def)
qed

lemma row_order_same:
  assumes "same_row l r" "\<forall>v\<in>set l. wf_json v" "\<forall>v\<in>set r. wf_json v" "length projections = length l"
  shows "row_order E projections items l r = Order_Equal"
proof (induction items)
  case Nil
  have "json_same (Array l) (Array r)" using assms(1) by (simp add: same_row_def)
  then show ?case using assms(2,3) canonical_json_same [of "Array l" "Array r" E] by (simp add: canonical_row_order_def compare_def)
next
  case (Cons item items)
  show ?case
  proof (cases "position (\<lambda>projection. projection = to_projection item) projections")
    case None
    then show ?thesis using Cons by simp
  next
    case (Some i)
    have i: "i < length l" "i < length r"
      using position_Some [OF Some] assms(4) list_all2_lengthD [OF assms(1) [unfolded same_row_def]] by simp_all
    then have "ordered_value E (l ! i) (r ! i) (to_direction item) = Order_Equal"
      using assms by (intro ordered_value_same) (auto simp: same_row_def list_all2_conv_all_nth)
    then show ?thesis using Cons Some by simp
  qed
qed

section \<open>The rows of answers\<close>

lemma closed_values_wf [simp]:
  "wf_json (closed_node_value node)" "wf_json (closed_edge_value E decode edge)" "wf_json (closed_site_value E decode site)"
  "wf_json (closed_evidence_value v)" "wf_json (strings_value ss)"
  by (simp_all add: closed_node_value_def closed_edge_value_def closed_site_value_def closed_evidence_value_def strings_value_def
      opt_string_def split: option.split)

lemma path_document_object:
  assumes "path_document E decode q plan S source target es path"
  shows "wf_json path \<and> (\<exists>ms. path = Object ms)"
  using assms unfolding path_document_def Let_def by (auto simp: number_def)

definition projected :: "externals \<Rightarrow> decoder \<Rightarrow> TypedQuery \<Rightarrow> TypedProjection \<Rightarrow> json set" where
  "projected E decode q p = {v. \<exists>source target w path. wf_json path \<and> (\<exists>ms. path = Object ms) \<and>
     project_value E decode q source target w path p = Inr v}"

lemma map_of_values: "map_of xs k = Some v \<Longrightarrow> v \<in> snd ` set xs"
  by (force dest: map_of_SomeD)

lemma projected_kind: "column_kind (projected E decode q p) \<and> (\<forall>v\<in>projected E decode q p. wf_json v)"
proof (cases p)
  case (TProject_Binding b)
  have "(\<exists>ms. v = Object ms) \<and> wf_json v" if "v \<in> projected E decode q p" for v
    using that TProject_Binding closed_values_wf(1)
    by (cases "bind_entity_type b") (auto simp: projected_def closed_node_value_def split: if_splits)
  then show ?thesis unfolding column_kind_def by blast
next
  case (TProject_Field f)
  have v: "\<exists>view. entity_field_value E decode view (tf_field f) = Some v \<and>
      ((\<exists>node. view = View_Node node) \<and> tf_entity_type f = Type_Node \<or> (\<exists>i d s. view = View_Path i d s) \<and> tf_entity_type f = Type_Path)"
    if "v \<in> projected E decode q p" for v
    using that TProject_Field
    by (cases "tf_entity_type f") (auto simp: projected_def Let_def simp del: entity_field_value.simps split: option.splits)
  show ?thesis
  proof (cases "tf_entity_type f = Type_Path \<and> tf_field f = ''depth''")
    case True
    have "\<exists>n. v = Number n" if "v \<in> projected E decode q p" for v
      using v [OF that] True by auto
    then show ?thesis unfolding column_kind_def by force
  next
    case False
    have "v = Null \<or> (\<exists>s. v = String s)" if "v \<in> projected E decode q p" for v
      using v [OF that] False by (auto dest!: map_of_values split: option.splits if_splits)
    then show ?thesis unfolding column_kind_def by force
  qed
qed

lemma answer_rows_comparable:
  assumes "\<forall>row\<in>A. \<exists>source target es. answer_row E decode q plan S source target es row"
  shows "comparable_rows (length (tr_projections (ta_return_clause (tq_ast q)))) A"
    and "\<forall>row\<in>A. length row = length (tr_projections (ta_return_clause (tq_ast q))) \<and> (\<forall>v\<in>set row. wf_json v)"
proof -
  let ?ps = "tr_projections (ta_return_clause (tq_ast q))"
  have row: "length row = length ?ps \<and> (\<forall>i<length ?ps. row ! i \<in> projected E decode q (?ps ! i))" if A: "row \<in> A" for row
  proof -
    obtain source target es path w where path: "path_document E decode q plan S source target es path"
      and vs: "list_all2 (\<lambda>p v. project_value E decode q source target w path p = Inr v) ?ps row"
      using assms A unfolding answer_row_def by blast
    have "row ! i \<in> projected E decode q (?ps ! i)" if "i < length ?ps" for i
      using path_document_object [OF path] list_all2_nthD [OF vs that] unfolding projected_def by blast
    then show ?thesis using list_all2_lengthD [OF vs] by simp
  qed
  show "comparable_rows (length ?ps) A"
    unfolding comparable_rows_def
  proof (intro allI impI)
    fix i assume i: "i < length ?ps"
    have "(\<lambda>row. row ! i) ` A \<subseteq> projected E decode q (?ps ! i)" using row i by blast
    then show "column_kind ((\<lambda>row. row ! i) ` A)"
      using projected_kind [of E decode q "?ps ! i"] unfolding column_kind_def by blast
  qed
  show "\<forall>row\<in>A. length row = length ?ps \<and> (\<forall>v\<in>set row. wf_json v)"
  proof
    fix r assume r: "r \<in> A"
    have "wf_json v" if "v \<in> set r" for v
      using row [OF r] projected_kind that by (metis in_set_conv_nth)
    then show "length r = length ?ps \<and> (\<forall>v\<in>set r. wf_json v)" using row [OF r] by blast
  qed
qed

text \<open>The rows of a result, given all rows in the order they are found.\<close>

definition result_rows :: "externals \<Rightarrow> TypedQueryAst \<Rightarrow> json list list \<Rightarrow> json list list" where
  "result_rows E ast rows =
     take (ta_limit ast) (sort_by (row_order E (tr_projections (ta_return_clause ast)) (ta_order_by ast))
       (if tr_distinct (ta_return_clause ast) then distinct_rows rows else rows))"

lemma staged_rows:
  assumes "\<forall>row\<in>set rows. \<exists>source target es. answer_row E decode q plan S source target es row"
  shows "rs_rows (fold (stage_row E) rows (new_row_stager q)) = result_rows E (tq_ast q) rows"
proof -
  let ?s = "new_row_stager q"
  have "rs_rows (fold (stage_row E) rows ?s) = take (rs_limit ?s)
      (sort_by (row_order E (rs_projections ?s) (rs_order_by ?s)) (if rs_distinct ?s then distinct_rows rows else rows))"
  proof (rule stage_rows)
    show "total_preorder (row_order E (rs_projections ?s) (rs_order_by ?s)) (set rows)"
      by (rule row_order_preorder) (use answer_rows_comparable(1) [OF assms] in \<open>simp add: new_row_stager_def\<close>)
    show "row_order E (rs_projections ?s) (rs_order_by ?s) l r = Order_Equal" if "l \<in> set rows" "r \<in> set rows" "same_row l r" for l r
      by (rule row_order_same [OF that(3)])
        (use answer_rows_comparable(2) [OF assms] that in \<open>simp_all add: new_row_stager_def\<close>)
  qed (simp_all add: new_row_stager_def)
  then show ?thesis by (simp add: result_rows_def new_row_stager_def)
qed

end
