(* ===== verification/Query_Literals.thy ===== *)
theory Query_Literals
  imports Query_Staging
begin

text \<open>
  The string literals of an accepted query are the string tokens the lexer let through: none has the shape of a
  credential, and none is made up by the parser.
\<close>

section \<open>The strings of a syntax tree\<close>

fun literal_strings :: "Literal \<Rightarrow> string set" where
  "literal_strings (Lit_String s) = {s}" | "literal_strings _ = {}"

fun operator_literals :: "ScalarOperator \<Rightarrow> Literal set" where
  "operator_literals (Op_Equal l) = {l}"
| "operator_literals (Op_NotEqual l) = {l}"
| "operator_literals (Op_Less l) = {l}"
| "operator_literals (Op_LessOrEqual l) = {l}"
| "operator_literals (Op_Greater l) = {l}"
| "operator_literals (Op_GreaterOrEqual l) = {l}"
| "operator_literals (Op_StartsWith l) = {l}"
| "operator_literals (Op_In ls) = set ls"

definition scalar_strings :: "ScalarPredicate \<Rightarrow> string set" where
  "scalar_strings p = \<Union> (literal_strings ` operator_literals (pred_operator p))"

fun entity_strings :: "EntityExpression \<Rightarrow> string set" where
  "entity_strings (Entity_Or es) = \<Union> (set (map entity_strings es))"
| "entity_strings (Entity_And es) = \<Union> (set (map entity_strings es))"
| "entity_strings (Entity_Not e) = entity_strings e"
| "entity_strings (Entity_Scalar p) = scalar_strings p"

fun expression_strings :: "Expression \<Rightarrow> string set" where
  "expression_strings (Expr_Or es) = \<Union> (set (map expression_strings es))"
| "expression_strings (Expr_And es) = \<Union> (set (map expression_strings es))"
| "expression_strings (Expr_Not e) = expression_strings e"
| "expression_strings (Expr_Scalar p) = scalar_strings p"
| "expression_strings (Expr_Quantifier q) = entity_strings (quant_expression q)"

definition query_strings :: "QueryAst \<Rightarrow> string set" where
  "query_strings ast =
     (let m = ast_match_clause ast in
      set_option (pattern_kind (match_source m)) \<union> set (rel_kinds (match_relationship m)) \<union>
      set_option (pattern_kind (match_target m)) \<union>
      (case ast_where_clause ast of None \<Rightarrow> {} | Some e \<Rightarrow> expression_strings e))"

section \<open>The parser takes strings from its tokens\<close>

definition strings :: "Parser \<Rightarrow> string set" where
  "strings p = {s. Tok_String s \<in> set (kinds p)}"

definition takes :: "Parser \<Rightarrow> string set \<Rightarrow> Parser \<Rightarrow> bool" where
  "takes p X q \<longleftrightarrow> X \<subseteq> strings p \<and> strings q \<subseteq> strings p"

lemma strings_advance: "strings (advance p) \<subseteq> strings p"
  by (cases "kinds p") (auto simp: strings_def)

lemma takes_refl [simp]: "takes p {} p"
  by (simp add: takes_def)

lemma takes_advance [simp]: "takes p {} (advance p)"
  using strings_advance by (simp add: takes_def)

lemma takes_trans: "takes p X q \<Longrightarrow> takes q Y r \<Longrightarrow> takes p (X \<union> Y) r"
  unfolding takes_def by blast

lemma takes_after: "takes (advance p) X q \<Longrightarrow> takes p X q"
  using strings_advance unfolding takes_def by blast

lemma takes_before: "takes p X q \<Longrightarrow> takes p X (advance q)"
  using strings_advance unfolding takes_def by blast

lemma takes_token: "kinds p = Tok_String s # ks \<Longrightarrow> takes p {s} (advance p)"
  using strings_advance [of p] by (auto simp: takes_def strings_def)

lemma takes_string: "expect_string clause p = Inr (v, q) \<Longrightarrow> takes p {v} q"
  by (auto simp: expect_string_def intro!: takes_token split: TokenKind.splits list.splits)

lemma takes_literal: "parse_literal clause p = Inr (l, q) \<Longrightarrow> takes p (literal_strings l) q"
  by (auto simp: parse_literal_def Let_def intro!: takes_token split: TokenKind.splits list.splits if_splits)

lemma parse_list_takes:
  assumes "parse_list separator item p = Inr (xs, q)" and "\<And>p q. separator p = Some q \<Longrightarrow> q = advance p"
    and "\<And>ys p x q. item ys p = Inr (x, q) \<Longrightarrow> takes p (f x) q"
  shows "takes p (\<Union> (f ` set xs)) q"
proof -
  have "takes p (\<Union> (f ` set xs)) q \<and> xs \<noteq> []"
  proof (rule parse_list_Inr [where R = "\<lambda>ys r. takes p (\<Union> (f ` set ys)) r", OF assms(1)])
    show "takes p (\<Union> (f ` set [x])) r" if "item [] p = Inr (x, r)" for x r
      using assms(3) [OF that] by simp
    show "takes p (\<Union> (f ` set (ys @ [x]))) s"
      if "takes p (\<Union> (f ` set ys)) r" "separator r = Some r'" "item ys r' = Inr (x, s)" for ys r r' x s
      using takes_trans [OF that(1) takes_after [of r "f x" s]] assms(2) [OF that(2)] assms(3) [OF that(3)] by (simp add: Un_commute)
  qed
  then show ?thesis ..
qed

lemma takes_literal_list:
  assumes "parse_literal_list clause p = Inr (op, q)"
  shows "takes p (\<Union> (literal_strings ` operator_literals op)) q"
proof -
  let ?item = "\<lambda>literals p. if length literals \<ge> MAX_QUERY_LIST_LITERALS
         then Inl (parser_error ''query_list_literal_limit_exceeded'' Failure_Limit clause
           ''query exceeds the list literal limit'' p)
         else parse_literal clause p"
  obtain literals r where list: "parse_list (consume_simple Tok_Comma) ?item (advance p) = Inr (literals, r)"
    and op: "q = advance r" "op = Op_In (sort literals)"
    using assms by (auto simp: parse_literal_list_def sum_bind_Inr_iff dest!: expect_Inr split: if_splits)
  have "takes (advance p) (\<Union> (literal_strings ` set literals)) r"
    by (rule parse_list_takes [OF list]) (auto dest: consume_Some takes_literal split: if_splits)
  then show ?thesis using takes_after takes_before by (simp add: op)
qed

lemma takes_operator:
  assumes "parse_operator clause p = Inr (op, q)"
  shows "takes p (\<Union> (literal_strings ` operator_literals op)) q"
proof -
  have comparison: "operator_literals (operator l) = {l}" if "(kind, operator) \<in> set COMPARISONS" for kind operator l
    using that by (auto simp: COMPARISONS_def)
  show ?thesis
    using assms unfolding parse_operator_def
    by (auto simp: sum_bind_Inr_iff comparison dest!: expect_Inr consume_comparison_Some consume_Some takes_literal takes_literal_list
        dest!: takes_after split: option.splits)
qed

lemma takes_scalar:
  assumes "parse_scalar_predicate clause p = Inr (x, q)"
  shows "takes p (scalar_strings x) q"
  using assms
  by (auto simp: parse_scalar_predicate_def parse_field_def sum_bind_Inr_iff scalar_strings_def
      dest!: expect_Inr takes_operator takes_after)

section \<open>Expressions\<close>

lemma Union_children:
  "\<Union> (entity_strings ` set (source_entity_or_children e)) = entity_strings e"
  "\<Union> (entity_strings ` set (source_entity_and_children e)) = entity_strings e"
  by (cases e; simp)+

lemma Union_source_children:
  "\<Union> (expression_strings ` set (source_or_children x)) = expression_strings x"
  "\<Union> (expression_strings ` set (source_and_children x)) = expression_strings x"
  by (cases x; simp)+

lemma Union_concat: "\<Union> (f ` set (concat (map g xs))) = \<Union> ((\<lambda>x. \<Union> (f ` set (g x))) ` set xs)"
  by auto

lemma collapse_strings:
  "entity_strings (collapse Entity_Or es) = \<Union> (entity_strings ` set es)"
  "entity_strings (collapse Entity_And es) = \<Union> (entity_strings ` set es)"
  "expression_strings (collapse Expr_Or xs) = \<Union> (expression_strings ` set xs)"
  "expression_strings (collapse Expr_And xs) = \<Union> (expression_strings ` set xs)"
  by (auto simp: collapse_def split: list.split)

lemma source_strings:
  "entity_strings (source_entity_or E es) = \<Union> (entity_strings ` set es)"
  "entity_strings (source_entity_and E es) = \<Union> (entity_strings ` set es)"
  "expression_strings (source_expression_or E xs) = \<Union> (expression_strings ` set xs)"
  "expression_strings (source_expression_and E xs) = \<Union> (expression_strings ` set xs)"
  unfolding source_entity_or_def source_entity_and_def source_expression_or_def source_expression_and_def collapse_strings
    set_canonical_sort Union_concat Union_children Union_source_children by simp_all

lemma takes_entity:
  "parse_entity_expression E n b p = Inr (x, q) \<Longrightarrow> takes p (entity_strings x) q"
  "parse_entity_and_expression E n b p = Inr (x, q) \<Longrightarrow> takes p (entity_strings x) q"
  "parse_entity_term E n b p = Inr (x, q) \<Longrightarrow> takes p (entity_strings x) q"
proof (induction E n b p and E n b p and E n b p arbitrary: x q and x q and x q
    rule: parse_entity_expression_parse_entity_and_expression_parse_entity_term.induct)
  case (1 E n b p)
  then obtain u es where u: "ensure_nesting n ''where'' p = Inr u"
    and list: "parse_list (continues ''OR'' b) (\<lambda>_. parse_entity_and_expression E n b) p = Inr (es, q)"
    and x: "x = source_entity_or E es"
    by (auto simp: parse_entity_expression.simps sum_bind_Inr_iff)
  show ?case unfolding x source_strings
    by (rule parse_list_takes [OF list]) (auto dest: consume_Some "1.IH" [OF u])
next
  case (2 E n b p)
  then obtain es where list: "parse_list (continues ''AND'' b) (\<lambda>_. parse_entity_term E n b) p = Inr (es, q)"
    and x: "x = source_entity_and E es"
    by (auto simp: parse_entity_and_expression.simps sum_bind_Inr_iff)
  show ?case unfolding x source_strings
    by (rule parse_list_takes [OF list]) (auto dest: consume_Some "2.IH")
next
  case (3 E n b p)
  define p' where "p' = (case consume_keyword ''NOT'' p of Some p \<Rightarrow> p | None \<Rightarrow> p)"
  have p': "takes p' X r \<Longrightarrow> takes p X r" for X r
    by (auto simp: p'_def takes_after dest!: consume_Some split: option.splits)
  show ?case
  proof (cases "consume_simple Tok_LeftParen p'")
    case None
    then show ?thesis using "3.prems"
      by (auto simp: parse_entity_term.simps [of E n b p] Let_def p'_def [symmetric] sum_bind_Inr_iff
          intro: p' dest!: takes_scalar)
  next
    case (Some r)
    then obtain u e s where u: "ensure_nesting (n + 1) ''where'' r = Inr u" and e: "parse_entity_expression E (n + 1) b r = Inr (e, s)"
      and x: "x = (if consume_keyword ''NOT'' p \<noteq> None then Entity_Not e else e)" "q = advance s"
      using "3.prems"
      by (auto simp: parse_entity_term.simps [of E n b p] Let_def p'_def [symmetric] sum_bind_Inr_iff dest!: expect_Inr)
    have "takes (advance p') (entity_strings e) s"
      using "3.IH" [OF refl p'_def Some u e] consume_Some(2) [OF Some] by simp
    then show ?thesis using x p' takes_after takes_before by auto
  qed
qed

lemma takes_quantifier:
  assumes "parse_quantifier E n p = Inr (x, q)"
  shows "takes p (entity_strings (quant_expression x)) q"
proof -
  obtain every p1 b r where word: "quantifier_word p = Inr (every, p1)" and e: "takes r (entity_strings (quant_expression x)) q"
    and r: "r = advance (advance (advance (advance (advance (advance (advance p1))))))"
    using assms by (auto simp: parse_quantifier_def sum_bind_Inr_iff dest!: expect_Inr quantifier_kind_Inr takes_entity(1))
  have "kinds p1 = tl (kinds p)"
    using word by (auto simp: quantifier_word_def sum_bind_Inr_iff Let_def kinds_def advance_def map_tl
        dest!: consume_Some expect_Inr split: option.splits if_splits)
  then have "takes p {} p1" by (cases "kinds p") (auto simp: takes_def strings_def)
  then show ?thesis using takes_trans [of p "{}" p1] e takes_after unfolding r by fastforce
qed

lemma takes_expression:
  "parse_expression E n p = Inr (x, q) \<Longrightarrow> takes p (expression_strings x) q"
  "parse_and_expression E n p = Inr (x, q) \<Longrightarrow> takes p (expression_strings x) q"
  "parse_not_expression E n p = Inr (x, q) \<Longrightarrow> takes p (expression_strings x) q"
  "parse_primary_expression E n p = Inr (x, q) \<Longrightarrow> takes p (expression_strings x) q"
proof (induction E n p and E n p and E n p and E n p arbitrary: x q and x q and x q and x q
    rule: parse_expression_parse_and_expression_parse_not_expression_parse_primary_expression.induct)
  case (1 E n p)
  then obtain u es where u: "ensure_nesting n ''where'' p = Inr u"
    and list: "parse_list (consume_keyword ''OR'') (\<lambda>_. parse_and_expression E n) p = Inr (es, q)"
    and x: "x = source_expression_or E es"
    by (auto simp: parse_expression.simps sum_bind_Inr_iff)
  show ?case unfolding x source_strings
    by (rule parse_list_takes [OF list]) (auto dest: consume_Some "1.IH" [OF u])
next
  case (2 E n p)
  then obtain es where list: "parse_list (consume_keyword ''AND'') (\<lambda>_. parse_not_expression E n) p = Inr (es, q)"
    and x: "x = source_expression_and E es"
    by (auto simp: parse_and_expression.simps sum_bind_Inr_iff)
  show ?case unfolding x source_strings
    by (rule parse_list_takes [OF list]) (auto dest: consume_Some "2.IH")
next
  case (3 E n p)
  define p' where "p' = (case consume_keyword ''NOT'' p of Some p \<Rightarrow> p | None \<Rightarrow> p)"
  have p': "takes p' X r \<Longrightarrow> takes p X r" for X r
    by (auto simp: p'_def takes_after dest!: consume_Some split: option.splits)
  obtain e where e: "parse_primary_expression E n p' = Inr (e, q)"
    and x: "x = (if consume_keyword ''NOT'' p \<noteq> None then Expr_Not e else e)"
    using "3.prems" by (auto simp: parse_not_expression.simps [of E n p] Let_def p'_def [symmetric] sum_bind_Inr_iff)
  show ?case using p' [OF "3.IH" [OF refl p'_def e]] by (simp add: x)
next
  case (4 E n p)
  show ?case
  proof (cases "consume_simple Tok_LeftParen p")
    case None
    then show ?thesis using "4.prems"
      by (auto simp: parse_primary_expression.simps [of E n p] sum_bind_Inr_iff dest!: takes_scalar takes_quantifier split: if_splits)
  next
    case (Some r)
    then obtain u s where u: "ensure_nesting (n + 1) ''where'' r = Inr u" and e: "parse_expression E (n + 1) r = Inr (x, s)"
      and q: "q = advance s"
      using "4.prems" by (auto simp: parse_primary_expression.simps [of E n p] sum_bind_Inr_iff dest!: expect_Inr)
    show ?thesis using "4.IH" [OF Some u e] consume_Some(2) [OF Some] q takes_after takes_before by blast
  qed
qed

section \<open>Queries\<close>

lemma takes_node:
  assumes "parse_node clause p = Inr (x, q)"
  shows "takes p (set_option (pattern_kind x)) q"
proof -
  let ?p = "advance (advance p)"
  obtain kind r where r: "(case consume_simple Tok_Colon ?p of
         Some p \<Rightarrow> sum_bind (expect_string clause p) (\<lambda>(kind, p). Inr (Some kind, p))
       | None \<Rightarrow> Inr (None, ?p)) = Inr (kind, r)" and x: "pattern_kind x = kind" and q: "q = advance r"
    using assms unfolding parse_node_def by (auto simp: sum_bind_Inr_iff dest!: expect_Inr)
  have "takes ?p (set_option kind) r"
    using r by (auto simp: sum_bind_Inr_iff dest!: consume_Some takes_string intro: takes_after split: option.splits)
  then show ?thesis using takes_after takes_before by (simp add: x q)
qed

lemma takes_relationship:
  assumes "parse_relationship p = Inr (x, q)"
  shows "takes p (set (rel_kinds x)) q"
proof -
  obtain direction p1 where first: "(case consume_simple Tok_ArrowLeft p of
         Some p \<Rightarrow> Inr (Direction_Reverse, p)
       | None \<Rightarrow> sum_bind (expect_simple Tok_Dash ''match'' p) (\<lambda>p. Inr (Direction_Forward, p))) = Inr (direction, p1)"
    using assms unfolding parse_relationship_def by (auto simp: sum_bind_Inr_iff)
  have p1: "p1 = advance p"
    using first by (auto simp: sum_bind_Inr_iff dest!: consume_Some expect_Inr split: option.splits)
  obtain kinds p2 where list: "parse_list (consume_simple Tok_Pipe) (\<lambda>_. expect_string ''match'') (advance p1) = Inr (kinds, p2)"
    and kinds: "rel_kinds x = sort kinds" and q: "q = advance (advance (advance (advance (advance (advance p2)))))"
    using assms first unfolding parse_relationship_def
    by (auto simp: sum_bind_Inr_iff dest!: expect_Inr checked_depth_Inr split: if_splits)
  have "takes (advance p1) (\<Union> ((\<lambda>s. {s}) ` set kinds)) p2"
    by (rule parse_list_takes [OF list]) (auto dest: consume_Some takes_string)
  then have "takes (advance (advance p)) (set kinds) p2" by (simp add: p1)
  then have "takes p (set kinds) p2" by (rule takes_after [OF takes_after])
  then show ?thesis unfolding kinds q set_sort by (intro takes_before)
qed

lemma parse_strings:
  assumes "parse E p = Inr ast"
  shows "query_strings ast \<subseteq> strings p"
proof -
  obtain m p1 w p2 where m: "parse_match p = Inr (m, p1)" and w: "parse_where E p1 = Inr (w, p2)"
    and ast: "ast_match_clause ast = m" "ast_where_clause ast = w"
    using assms unfolding parse_def by (auto simp: sum_bind_Inr_iff Let_def split: if_splits)
  let ?p = "advance (advance (advance p))"
  obtain r s where s: "takes ?p (set_option (pattern_kind (match_source m))) r"
    "takes r (set (rel_kinds (match_relationship m))) s" "takes s (set_option (pattern_kind (match_target m))) p1"
    using m by (auto simp: parse_match_def sum_bind_Inr_iff dest!: expect_Inr takes_node takes_relationship)
  have "takes p (set_option (pattern_kind (match_source m)) \<union> set (rel_kinds (match_relationship m)) \<union>
      set_option (pattern_kind (match_target m))) p1"
    using takes_after [OF takes_after [OF takes_after [OF takes_trans [OF takes_trans [OF s(1,2)] s(3)]]]] by simp
  moreover have "takes p1 (case w of None \<Rightarrow> {} | Some e \<Rightarrow> expression_strings e) p2"
    using w by (auto simp: parse_where_def sum_bind_Inr_iff dest!: consume_Some takes_expression(1) intro: takes_after split: option.splits)
  ultimately show ?thesis unfolding takes_def query_strings_def Let_def ast by blast
qed

section \<open>The lexer\<close>

text \<open>What the lexer lets through.\<close>

fun admitted_token :: "TokenKind \<Rightarrow> bool" where
  "admitted_token (Tok_Identifier v) \<longleftrightarrow> length v \<le> 64"
| "admitted_token (Tok_String s) \<longleftrightarrow> \<not> looks_like_query_credential s"
| "admitted_token (Tok_Unsigned n) \<longleftrightarrow> n \<le> u64_max"
| "admitted_token _ \<longleftrightarrow> True"

definition admitted_tokens :: "Token list \<Rightarrow> bool" where
  "admitted_tokens tokens \<longleftrightarrow> list_all (\<lambda>t. admitted_token (tok_kind t)) tokens \<and> length tokens \<le> 4096"

lemma push_token_admitted:
  "push_token kind origin lx = Inr lx' \<Longrightarrow> admitted_token kind \<Longrightarrow> admitted_tokens (lx_tokens lx) \<Longrightarrow> admitted_tokens (lx_tokens lx')"
  by (auto simp: push_token_def admitted_tokens_def MAX_QUERY_TOKENS_def split: if_splits)

lemma fixed_token_admitted: "fixed_token c ahead = Some (n, kind) \<Longrightarrow> admitted_token kind"
  by (auto simp: fixed_token_def split: if_splits)

lemma lex_string_body_admitted:
  "lex_string_body unquote origin raw escaped lx = Inr lx' \<Longrightarrow> admitted_tokens (lx_tokens lx) \<Longrightarrow> admitted_tokens (lx_tokens lx')"
proof (induction unquote origin raw escaped lx rule: lex_string_body.induct)
  case (1 unquote origin raw escaped lx)
  show ?case
  proof (cases "lx_rest lx")
    case Nil
    then show ?thesis using "1.prems" by (simp add: lex_string_body.simps)
  next
    case (Cons byte rest)
    note run = "1.prems"(1) [unfolded lex_string_body.simps [of unquote origin raw escaped lx] Cons list.case Let_def]
    show ?thesis
    proof (cases "\<not> escaped \<and> byte = CHR 0x22")
      case True
      have "finish_string unquote origin (raw @ [byte]) (advance_ascii 1 lx) = Inr lx'"
        using run unfolding if_P [OF True] .
      then show ?thesis using "1.prems"(2)
        by (auto simp: finish_string_def split: option.splits if_splits dest!: push_token_admitted)
    next
      case quote: False
      note run = run [unfolded if_not_P [OF quote]]
      show ?thesis
      proof (cases "byte_in 0 31 byte")
        case True
        then show ?thesis using run by simp
      next
        case control: False
        note run = run [unfolded if_not_P [OF control]]
        show ?thesis
        proof (cases "byte_in 0 127 byte")
          case True
          show ?thesis
            by (rule "1.IH"(1) [OF Cons quote control refl True])
              (use run "1.prems"(2) in \<open>simp_all only: True if_True advance_ascii_simps\<close>)
        next
          case False
          show ?thesis
            by (rule "1.IH"(2) [OF Cons quote control refl False])
              (use run Cons "1.prems"(2) in \<open>simp_all only: False if_False, simp add: advance_character_def\<close>)
        qed
      qed
    qed
  qed
qed

lemma lex_step_admitted:
  assumes "lex_step unquote c ahead lx = Inr lx'" and "admitted_tokens (lx_tokens lx)"
  shows "admitted_tokens (lx_tokens lx')"
proof -
  have ident: "lex_identifier lx = Inr lx' \<Longrightarrow> ?thesis"
    using assms(2) by (auto simp: lex_identifier_def Let_def split: if_splits dest!: push_token_admitted)
  have unsigned: "lex_unsigned lx = Inr lx' \<Longrightarrow> ?thesis"
    using assms(2) by (auto simp: lex_unsigned_def Let_def split: if_splits option.splits dest!: push_token_admitted
      intro: parse_usize_bound)
  have str: "lex_string unquote lx = Inr lx' \<Longrightarrow> ?thesis"
    using assms(2) unfolding lex_string_def by (auto dest: lex_string_body_admitted)
  have fixed: "lex_fixed n kind lx = Inr lx' \<Longrightarrow> fixed_token c ahead = Some (n, kind) \<Longrightarrow> ?thesis" for n kind
    using assms(2) fixed_token_admitted by (auto simp: lex_fixed_def dest!: push_token_admitted)
  show ?thesis
    using assms ident unsigned str fixed unfolding lex_step_def
    by (auto simp: advance_newline_def split: if_splits option.splits)
qed

lemma lex_loop_admitted:
  "lex_loop unquote lx = Inr tokens \<Longrightarrow> admitted_tokens (lx_tokens lx) \<Longrightarrow>
     \<exists>ts t. tokens = ts @ [t] \<and> tok_kind t = Tok_End \<and> admitted_tokens ts"
proof (induction unquote lx rule: lex_loop.induct)
  case (1 unquote lx)
  show ?case
  proof (cases "lx_rest lx")
    case Nil
    then show ?thesis using "1.prems" by (auto simp: lex_loop.simps)
  next
    case (Cons c cs)
    then obtain lx1 where step: "lex_step unquote c (if cs = [] then None else Some (hd cs)) lx = Inr lx1"
      and run: "lex_loop unquote lx1 = Inr tokens"
      using "1.prems"(1) by (auto simp: lex_loop.simps [of unquote lx] sum_bind_Inr_iff)
    show ?thesis by (rule "1.IH" [OF Cons step run lex_step_admitted [OF step "1.prems"(2)]])
  qed
qed

lemma lex_admitted:
  assumes "lex unquote text = Inr tokens"
  obtains ts t where "tokens = ts @ [t]" and "tok_kind t = Tok_End" and "admitted_tokens ts"
  using lex_loop_admitted [OF assms [unfolded lex_def]] by (auto simp: new_lexer_def admitted_tokens_def)

end
