(* ===== verification/Query_Service.thy ===== *)
theory Query_Service
  imports Query_Literals
begin

text \<open>
  The properties of the query engine from end to end: what the front end accepts and reads back, and what rows a query
  text is answered with.
\<close>

section \<open>An example\<close>

definition example_text_ast :: QueryAst where
  "example_text_ast =
     \<lparr>ast_contract_version = BOUNDED_QUERY_CONTRACT_VERSION,
      ast_match_clause = \<lparr>match_path_binding = ''p'', match_source = \<lparr>pattern_binding = ''a'', pattern_kind = None\<rparr>,
        match_relationship = \<lparr>rel_direction = Direction_Forward, rel_kinds = [''imports''], rel_min_depth = 1, rel_max_depth = 2\<rparr>,
        match_target = \<lparr>pattern_binding = ''b'', pattern_kind = Some ''file''\<rparr>\<rparr>,
      ast_where_clause = Some (Expr_Scalar \<lparr>pred_field = \<lparr>ref_binding = ''a'', ref_field = ''id''\<rparr>,
        pred_operator = Op_Equal (Lit_String ''b'')\<rparr>),
      ast_return_clause = \<lparr>return_distinct = False,
        return_projections = [Project_Field \<lparr>ref_binding = ''b'', ref_field = ''id''\<rparr>]\<rparr>,
      ast_order_by = [], ast_limit = 10\<rparr>"

definition example_unquote :: unquoter where
  "example_unquote raw = Some (butlast (tl raw))"

lemma example_unquotes: "unquotes_plain example_unquote"
  by (simp add: unquotes_plain_def example_unquote_def)

lemma example_tokens: "query_tokens example_text_ast =
  [Tok_Identifier ''MATCH'', Tok_Identifier ''p'', Tok_Equal, Tok_LeftParen, Tok_Identifier ''a'', Tok_RightParen, Tok_Dash,
   Tok_LeftBracket, Tok_String ''imports'', Tok_Star, Tok_Unsigned 1, Tok_Range, Tok_Unsigned 2, Tok_RightBracket, Tok_ArrowRight,
   Tok_LeftParen, Tok_Identifier ''b'', Tok_Colon, Tok_String ''file'', Tok_RightParen, Tok_Identifier ''WHERE'',
   Tok_Identifier ''a'', Tok_Dot, Tok_Identifier ''id'', Tok_Equal, Tok_String ''b'', Tok_Identifier ''RETURN'',
   Tok_Identifier ''b'', Tok_Dot, Tok_Identifier ''id'', Tok_Identifier ''LIMIT'', Tok_Unsigned 10]"
  by (simp add: query_tokens_def example_text_ast_def node_tokens_def relationship_tokens_def separated_def scalar_tokens_def
      field_tokens_def)

lemma example_within_limits: "within_limits E example_text_ast"
  by (simp add: within_limits_def example_text_ast_def bounded_relationship_def limit_simps ast_node_count_def node_pattern_count_def
      relationship_count_def scalar_predicate_count_def)

lemma example_writable: "writable example_text_ast"
  by (simp add: writable_def example_text_ast_def limit_simps is_name_def RESERVED_BINDING_WORDS_def keyword_eval)

lemma example_plain:
  "plain ''imports''" "plain ''file''" "plain ''b''"
  by (simp_all add: plain_def byte_in_def)

lemma example_no_credential:
  "\<not> looks_like_query_credential ''imports''" "\<not> looks_like_query_credential ''file''" "\<not> looks_like_query_credential ''b''"
  by (simp_all add: looks_like_query_credential_def ascii_lower_def is_ascii_uppercase_def url_authority_has_userinfo_def Let_def
      str_contains.simps)

lemma example_lexable: "list_all lexable (query_tokens example_text_ast)"
  by (simp add: example_tokens example_plain example_no_credential is_identifier_def is_identifier_byte_def ascii_defs u64_max_def)

lemma example_digits: "digit_char 0 = CHR ''0''" "digit_char 1 = CHR ''1''" "digit_char 2 = CHR ''2''"
  by (simp_all add: digit_char_def char_of_def bit_Suc_0_iff)

lemma example_text: "query_text example_text_ast =
  ''MATCH p = ( a ) - [ \"imports\" * 1 .. 2 ] -> ( b : \"file\" ) WHERE a . id = \"b\" RETURN b . id LIMIT 10 ''"
  by (simp add: query_text_def tokens_text_def example_tokens show_nat.simps example_digits [unfolded One_nat_def])

section \<open>Reading a query\<close>

definition legible :: "QueryAst \<Rightarrow> bool" where
  "legible ast \<longleftrightarrow> list_all lexable (query_tokens ast) \<and> length (query_tokens ast) \<le> MAX_QUERY_TOKENS \<and>
     length (query_text ast) \<le> MAX_QUERY_BYTES"

lemma parse_query_text:
  assumes "unquotes_plain unquote" and "within_limits E ast" and "writable ast" and "legible ast"
  shows "parse_bounded_query_bytes E unquote (query_text ast) = Inr ast"
proof -
  have legible: "list_all lexable (query_tokens ast)" "length (query_tokens ast) \<le> MAX_QUERY_TOKENS"
      "length (query_text ast) \<le> MAX_QUERY_BYTES"
    using assms(4) by (simp_all add: legible_def)
  obtain tokens where tokens: "lex unquote (query_text ast) = Inr tokens" "map tok_kind tokens = query_tokens ast @ [Tok_End]"
    using lex_tokens [OF assms(1) legible(1,2)] unfolding query_text_def by blast
  have "valid_utf8 (query_text ast)" using tokens_text_valid [OF legible(1)] by (simp add: query_text_def)
  then show ?thesis
    using legible(3) tokens(1) parse_query_tokens [OF assms(2,3) tokens(2)] by (simp add: parse_bounded_query_bytes_def)
qed

lemma example_parsed: "parse_bounded_query_bytes E example_unquote (query_text example_text_ast) = Inr example_text_ast"
proof (rule parse_query_text [OF example_unquotes example_within_limits example_writable])
  show "legible example_text_ast" unfolding legible_def
    using example_lexable by (simp add: example_text example_tokens limit_simps)
qed

text \<open>
  C7: Writing a query and reading it back. A syntax tree in canonical form that respects the limits of the language,
  whose names are no keywords and whose string literals are plain ASCII, is read back exactly from its text, by the
  whole front end: the byte limit, the UTF-8 check, the lexer with its credential policy, and the parser with its
  precedences, the lookahead that ends a quantifier, flattening and sorting. The JSON reader of string literals is a
  parameter, which must read plain strings.
\<close>

theorem query_text_roundtrip:
  assumes "unquotes_plain unquote" and "within_limits E ast" and "writable ast" and "legible ast"
  shows "parse_bounded_query_bytes E unquote (query_text ast) = Inr ast"
  using assms by (rule parse_query_text)

theorem query_text_roundtrip_witness:
  "parse_bounded_query_bytes quiet_externals example_unquote
     ''MATCH p = ( a ) - [ \"imports\" * 1 .. 2 ] -> ( b : \"file\" ) WHERE a . id = \"b\" RETURN b . id LIMIT 10 '' = Inr example_text_ast"
proof -
  have "legible example_text_ast" unfolding legible_def
    using example_lexable by (simp add: example_text example_tokens limit_simps)
  from query_text_roundtrip [OF example_unquotes example_within_limits example_writable this]
  show ?thesis by (simp add: example_text)
qed

text \<open>
  C8: What the parser accepts. An accepted text is valid UTF-8 within the byte and token limits; its syntax tree is in
  canonical form (nested conjunctions and disjunctions flattened, their terms sorted, at least two of them) and within
  every limit of the language: depths between 1 and 8, an expression nested at most 16 deep (counting the parentheses
  that its form demands and its quantifiers), at most 16 existential quantifiers, 64 literals in a list, 32
  projections and order items, 512 nodes, a result limit from 1 to 10000; relationship kinds and list literals are sorted
  without duplicates. Its string literals are those of the text, and none has the shape of a credential.
\<close>

theorem parse_within_limits:
  assumes "parse_bounded_query_bytes E unquote text = Inr ast"
  shows "length text \<le> 65536 \<and> valid_utf8 text \<and> within_limits E ast \<and>
    (\<exists>tokens final. lex unquote text = Inr (tokens @ [final]) \<and> admitted_tokens tokens \<and>
       query_strings ast \<subseteq> {s. Tok_String s \<in> tok_kind ` set tokens \<and> \<not> looks_like_query_credential s})"
proof -
  obtain tokens where bytes: "length text \<le> 65536" "valid_utf8 text" and lex: "lex unquote text = Inr tokens"
    and ast: "parse E (new_parser tokens) = Inr ast"
    using assms by (auto simp: parse_bounded_query_bytes_def MAX_QUERY_BYTES_def sum_bind_Inr_iff split: if_splits)
  obtain ts t where ts: "tokens = ts @ [t]" "tok_kind t = Tok_End" "admitted_tokens ts" using lex_admitted [OF lex] .
  have "Tok_String s \<in> tok_kind ` set ts" if "s \<in> query_strings ast" for s
    using parse_strings [OF ast] that ts(1,2) by (auto simp: strings_def kinds_def new_parser_def)
  moreover have "\<not> looks_like_query_credential s" if s: "Tok_String s \<in> tok_kind ` set ts" for s
  proof -
    obtain t where "t \<in> set ts" "tok_kind t = Tok_String s" using s by auto
    then have "admitted_token (Tok_String s)" using ts(3) unfolding admitted_tokens_def list_all_iff by metis
    then show ?thesis by simp
  qed
  ultimately show ?thesis using bytes lex ts parse_Inr [OF ast] by blast
qed

theorem parse_within_limits_witness:
  "within_limits quiet_externals example_text_ast \<and> \<not> looks_like_query_credential ''imports''"
proof -
  have "''imports'' \<in> query_strings example_text_ast" by (simp add: query_strings_def example_text_ast_def)
  then show ?thesis using parse_within_limits [OF example_parsed [of quiet_externals]] by blast
qed

section \<open>Answering a query\<close>

lemma example_type_checked: "type_check_bounded_query quiet_externals example_text_ast = Inr example_query"
  by (simp add: type_check_bounded_query_def example_text_ast_def new_type_checker_def check_query_def check_match_clause_def
      typed_node_pattern_def check_where_def check_top_level_scalar_def check_scalar_def resolve_field_def FIELD_REGISTRY_def
      field_def_def check_return_clause_def example_query_def example_typed_ast_def example_field_def
      validate_binding_name_def RESERVED_BINDING_WORDS_def keyword_eval bm_contains_key_def bm_get_def check_equality_literal_def)

text \<open>
  C1: The query engine answers a text with exactly the answers of the query it spells. For a text that is parsed,
  type-checked, planned for a snapshot and executed on it, the rows are made as follows: every pair of nodes of the asked
  kinds that some trail of the snapshot joins, along the asked relationship kinds, in the asked direction, of an admitted
  length and satisfying the \<open>WHERE\<close> condition as it is written, has one answer, its shortest such trail (the least by
  edge identities among these); every answer is projected to one row; and the result is the first \<open>LIMIT\<close> rows of
  these (distinct, when asked) in the order of the \<open>ORDER BY\<close> items. The answers are stated on the syntax tree and the
  snapshot alone. Because the parser admits at most 16 existential quantifiers, the bits that the executor
  keeps for them never run out.
\<close>

theorem query_service_exact:
  assumes "parse_bounded_query_bytes E unquote text = Inr ast"
    and "type_check_bounded_query E ast = Inr q"
    and "plan_bounded_query_with_limits E decode q S planned = Inr plan"
    and "execute_bounded_query_with_options E decode R q plan S limits = Inr result"
  shows "\<exists>answers rows.
    strict_sorted (map (\<lambda>(source, target, es). (node_id source, length es, node_id target)) answers) \<and>
    set answers = {(source, target, es). source_answer E decode ast S source target es} \<and>
    list_all2 (\<lambda>(source, target, es). answer_row E decode q plan S source target es) answers rows \<and>
    br_rows result = result_rows E (tq_ast q) rows"
proof -
  obtain tokens where "parse E (new_parser tokens) = Inr ast"
    using assms(1) by (auto simp: parse_bounded_query_bytes_def sum_bind_Inr_iff split: if_splits)
  then have limits: "within_limits E ast" by (rule parse_Inr)
  have "strict_sorted (rel_kinds (match_relationship (ast_match_clause ast)))"
    using limits by (simp add: within_limits_def bounded_relationship_def)
  then have sorted: "sorted (rel_kinds (match_relationship (ast_match_clause ast)))" by (simp add: strict_sorted_iff)
  have "case ast_where_clause ast of None \<Rightarrow> True | Some e \<Rightarrow> some_count e \<le> MAX_QUERY_EXISTENTIAL_PREDICATES"
    using within_limitsD(3) [OF limits] by (simp split: option.splits)
  from executed_answers [OF assms(3) typed_few_predicates [OF assms(2) this] assms(4)]
  obtain answers rows where answers: "query_answers E decode q S answers"
    and rows: "list_all2 (\<lambda>(source, target, es). answer_row E decode q plan S source target es) answers rows"
    and result: "br_rows result = rs_rows (fold (stage_row E) rows (new_row_stager q))" by blast
  have "\<forall>row\<in>set rows. \<exists>source target es. answer_row E decode q plan S source target es row"
    using list_all2_set(2) [OF rows] by fastforce
  then have "br_rows result = result_rows E (tq_ast q) rows" unfolding result by (rule staged_rows)
  with answers rows show ?thesis
    unfolding query_answers_def typed_answer [OF assms(2) sorted] by blast
qed

theorem query_service_exact_witness:
  "\<exists>ast q result answers rows.
    parse_bounded_query_bytes quiet_externals example_unquote
      ''MATCH p = ( a ) - [ \"imports\" * 1 .. 2 ] -> ( b : \"file\" ) WHERE a . id = \"b\" RETURN b . id LIMIT 10 '' = Inr ast \<and>
    type_check_bounded_query quiet_externals ast = Inr q \<and>
    execute_bounded_query_with_options quiet_externals (\<lambda>_. None) example_environment q example_plan example_pair
      default_query_limits = Inr result \<and>
    set answers = {(source, target, es). source_answer quiet_externals (\<lambda>_. None) ast example_pair source target es} \<and>
    br_rows result = result_rows quiet_externals (tq_ast q) rows \<and> br_rows result = [[String ''a'']]"
proof -
  obtain result where run: "execute_bounded_query_with_options quiet_externals (\<lambda>_. None) example_environment example_query example_plan
      example_pair default_query_limits = Inr result" and rows: "br_rows result = [[String ''a'']]"
    using example_executed by blast
  have parsed: "parse_bounded_query_bytes quiet_externals example_unquote
      ''MATCH p = ( a ) - [ \"imports\" * 1 .. 2 ] -> ( b : \"file\" ) WHERE a . id = \"b\" RETURN b . id LIMIT 10 '' = Inr example_text_ast"
    using example_parsed [of quiet_externals] by (simp only: example_text)
  from query_service_exact [OF parsed example_type_checked example_planned(1) run] parsed example_type_checked run rows
  show ?thesis by blast
qed

text \<open>
  C12: Staging keeps the best rows. However the rows of a query are ordered when they are found, the rows that staging
  keeps one at a time, within the limit, are the first rows of all of them in the stable sort by the \<open>ORDER BY\<close>
  items with nulls first, and they are sorted; with \<open>DISTINCT\<close>, the first of the same rows counts, even when it has
  been dropped meanwhile.
\<close>

theorem staging_exact:
  assumes "\<forall>row\<in>set rows. \<exists>source target es. answer_row E decode q plan S source target es row"
  shows "rs_rows (fold (stage_row E) rows (new_row_stager q)) = result_rows E (tq_ast q) rows \<and>
    sorted_by (row_order E (tr_projections (ta_return_clause (tq_ast q))) (ta_order_by (tq_ast q)))
      (rs_rows (fold (stage_row E) rows (new_row_stager q)))"
proof -
  let ?order = "row_order E (tr_projections (ta_return_clause (tq_ast q))) (ta_order_by (tq_ast q))"
  let ?kept = "if tr_distinct (ta_return_clause (tq_ast q)) then distinct_rows rows else rows"
  have "total_preorder ?order (set rows)" by (rule row_order_preorder [OF answer_rows_comparable(1) [OF assms]])
  moreover have "set ?kept \<subseteq> set rows" using set_distinct_rows by simp
  ultimately have "sorted_by ?order (sort_by ?order ?kept)" by (rule sort_by_sorted)
  then have "sorted_by ?order (result_rows E (tq_ast q) rows)"
    unfolding result_rows_def sorted_by_def by (rule sorted_wrt_take)
  then show ?thesis using staged_rows [OF assms] by simp
qed

theorem staging_exact_witness:
  "\<exists>rows. rows \<noteq> [] \<and> (\<forall>row\<in>set rows. \<exists>source target es.
      answer_row quiet_externals (\<lambda>_. None) example_query example_plan example_pair source target es row) \<and>
    rs_rows (fold (stage_row quiet_externals) rows (new_row_stager example_query)) = result_rows quiet_externals example_typed_ast rows"
proof -
  obtain result where run: "execute_bounded_query_with_options quiet_externals (\<lambda>_. None) example_environment example_query example_plan
      example_pair default_query_limits = Inr result" and rows: "br_rows result = [[String ''a'']]"
    using example_executed by blast
  have few: "length (case ta_where_clause (tq_ast example_query) of None \<Rightarrow> [] | Some e \<Rightarrow> collect_some_predicates e) \<le> 64"
    by (simp add: example_query_simps)
  obtain answers rws where rws: "list_all2 (\<lambda>(source, target, es). answer_row quiet_externals (\<lambda>_. None) example_query example_plan
        example_pair source target es) answers rws"
    and result: "br_rows result = rs_rows (fold (stage_row quiet_externals) rws (new_row_stager example_query))"
    using executed_answers [OF example_planned(1) few run] by blast
  have "rws \<noteq> []" using result rows by (auto simp: new_row_stager_def)
  moreover have "\<forall>row\<in>set rws. \<exists>source target es.
      answer_row quiet_externals (\<lambda>_. None) example_query example_plan example_pair source target es row"
    using list_all2_set(2) [OF rws] by fastforce
  ultimately show ?thesis
    using staging_exact [of rws quiet_externals "\<lambda>_. None" example_query example_plan example_pair] by (auto simp: example_query_def)
qed

end
