(* ===== verification/Spec2Isabelle.thy ===== *)
theory Spec2Isabelle
  imports Why_Path Cycles Pagination Postprocess_Budget Node_Rename Query_Service
begin

text \<open>
  A verification library for depgraph, a tool that scans a repository into a graph of nodes, dependency edges,
  unresolved sites and evidence, stores it as a completed snapshot, and answers questions about it. The library
  covers what happens between a completed snapshot and an answer: the graph queries, the bounded query language, the
  pages an interactive client reads, and the comparison of two snapshots. Paths below are relative to
  \<^verbatim>\<open>src/\<close>; most of the code is in \<^verbatim>\<open>crates/depgraph-core/src/query.rs\<close> and
  \<^verbatim>\<open>crates/depgraph-core/src/bounded_query*.rs\<close>.

  \<^bold>\<open>How the parts interact.\<close> Every graph query first resolves its selectors to nodes of the snapshot (Selector), then
  builds an ordered adjacency from the edges that the runtime filter (Query_Filter) and the edge-kind filter
  (Edge_Kind) keep, searches it breadth first (Traversal, Why_Path), and materializes one path step per selected edge
  under two work budgets (Postprocess). Cycle, unresolved and paging queries work on the snapshot or on such results.
  A query text of the bounded language is lexed, parsed, type-checked, planned and executed, each stage handing a
  checked value to the next. All identities (conditions, plans, cursors, digests) rest on canonical JSON.

  \<^bold>\<open>Foundations.\<close>
  \<^item> Prelude: results as sums, slices, sorting, bisection, decimal numerals, UTF-8 bytes, the collection of limits.
  \<^item> Ordered_Map: \<open>BTreeMap\<close> and \<open>BTreeSet\<close> as strictly sorted lists of entries, with the locale
    \<open>ordered_map\<close> as their interface and its interpretation \<open>bm\<close>.
  \<^item> Json: \<^verbatim>\<open>crates/depgraph-protocol/src/stable_id.rs\<close>; canonical JSON identifies values up to the order of
    members. A float is given by its printed text, so 0.0 and -0.0, which print differently, are different values here,
    where the equality of \<open>serde_json\<close> numbers would identify them; no snapshot record holds such a number in a
    place where the two would be compared for anything but equality of raw properties.
  \<^item> Condition: \<^verbatim>\<open>crates/depgraph-protocol/src/condition.rs\<close>; canonicalization keeps the meaning, reaches a normal
    form and forgets the order of operands.
  \<^item> Records, Record_Json: \<^verbatim>\<open>crates/depgraph-store/src/records.rs\<close> and the profile inputs of
    \<^verbatim>\<open>profile_matrix.rs\<close>, with their serialization and equality.
  \<^item> Metered: computations that are charged to a budget and poll a cancellation, with the judgements \<open>ensures\<close>,
    \<open>fails_with\<close> and \<open>affordable\<close>, and the locale \<open>meter\<close> as the contract of a work counter.

  \<^bold>\<open>Graph queries\<close> (\<^verbatim>\<open>query.rs\<close>, \<^verbatim>\<open>edge_kind_selection.rs\<close>, \<^verbatim>\<open>service_limits.rs\<close>, \<^verbatim>\<open>runtime.rs\<close>).
  \<^item> Query_Error: the typed failures, the fixed limits, \<open>is_cancelled\<close>.
  \<^item> Edge_Kind: \<open>EdgeKindFilter\<close>; an accepted filter allows exactly the requested kinds, and requests that mean
    the same build the same filter.
  \<^item> Query_Filter: \<open>GraphQueryFilter\<close> and \<open>runtime_context_for_edge\<close>; what a filter built from raw values keeps.
  \<^item> Selector: \<open>resolve_selector\<close> in one bounded scan; sound under every budget, complete with enough work.
  \<^item> Postprocess, Postprocess_Budget: \<open>QueryPostprocessingWork\<close>, \<open>PathStepProjection\<close>,
    \<open>PathStepMaterializer\<close>; the indexed materialization equals the reference \<open>path_step_of\<close>, fails only for stated
    causes, keeps both budgets, and is affordable within the public caps.
  \<^item> Traversal, Reachability: the adjacency and the \<open>traverse\<close> family; complete results are exactly the reachable
    region, partial results are sound, and a request within the limits is decided.
  \<^item> Why_Path: \<open>why\<close> and \<open>why_filtered\<close>; a found path is shortest, and a request within the limits is decided.
  \<^item> Cycles: \<open>cycles_from_parts\<close> and \<open>representative_cycle\<close>; one shortest cycle per cyclic component.
  \<^item> Unresolved: the unresolved query equals the direct lookup in the snapshot.
  \<^item> Pagination: page construction, byte accounting and cursors; following the cursors reads the canonical result
    without gap or repetition and reaches its end.

  \<^bold>\<open>Snapshot comparison\<close> (\<^verbatim>\<open>crates/depgraph-store/src/diff.rs\<close>). Snapshot_Diff: added, removed and changed records
  and the names of changed fields; a difference is a patch. Node_Rename: which removed and added nodes are a
  rename; the comparison as a whole.

  \<^bold>\<open>The bounded query language\<close> (\<^verbatim>\<open>bounded_query.rs\<close>, \<^verbatim>\<open>bounded_query_type.rs\<close>, \<^verbatim>\<open>bounded_query_plan.rs\<close>,
  \<^verbatim>\<open>bounded_query_execute.rs\<close>).
  \<^item> Query_Ast, Query_Lex, Query_Parse: syntax tree, lexer and parser. Query_Parsing and Query_Literals show that what
    is accepted is canonical and within every limit of the language; Query_Print and Query_Text write a query and show
    that lexer and parser read it back.
  \<^item> Query_Type: field registry and type checker. Query_Typing states the type system and the typed form as inductive
    judgements apart from the checker; the checker decides the one and returns the other.
  \<^item> Query_Plan: statistics, resource bounds in saturating arithmetic, admission, plan identity.
  \<^item> Query_Eval, Query_Execute: predicates, witnesses, the search and the staging of rows. Query_Meaning gives typed
    expressions their meaning on a path; Query_Search shows that the search keeps the least trail per state key;
    Query_Answer, Query_Pipeline and Query_Staging carry this to the answers of the query as a whole.
  \<^item> Query_Service: the end-to-end properties of the language, from text to rows.

  \<^bold>\<open>Bounds and fuel.\<close> Counters of type \<open>usize\<close> and \<open>u64\<close> are natural numbers, with saturation at \<open>u64_max\<close> and the
  checked additions written out where the code has them; the bits of existential quantifiers are a 64-bit word. The
  searches are \<open>partial_function (option)\<close> or \<open>function\<close> with a termination proof, and are shown to return:
  breadth-first searches because each node is enqueued once, the lists of the parser because every round consumes a
  token (as many rounds as there are tokens), the depths of the executor because they are at most the maximal depth of
  the query, and the byte accounting of a page within the eight rounds that the code makes.

  \<^bold>\<open>Parameters.\<close> Code that is not in the repository is an argument: the JSON printer, SHA-256 and the \<open>Debug\<close> text of a
  string (the record \<open>externals\<close>), the derived reader of conditions (\<open>decode\<close>), the JSON reader of string literals
  (\<open>unquote\<close>), the component search of petgraph, the cancellation closure as the answer of its n-th poll, and the
  clock of the executor. What a theorem needs of them is a named hypothesis on documented behaviour, and its
  witness instantiates it with a concrete function.

  \<^bold>\<open>What is not modelled.\<close> The scan of a repository, the language workers and compilers, the SQL store and its caches,
  the daemon and the front ends are files, processes and SQL; policies, change impact, health findings, contract
  scanners and the correlation of records across languages are computations on snapshots outside this library.
  Timings, memory and the text of most messages are not modelled.
\<close>

end
